(* ===== verification/Prelude.thy ===== *)
theory Prelude
  imports Main "HOL-Library.AList"
begin

text \<open>
  The vocabulary every component theory shares: Go strings as byte lists, the functions of
  the packages \<open>strings\<close> and \<open>strconv\<close> that the source calls, signed 64-bit wrap-around,
  association lists in the role of Go maps, and the generic lemmas about them.

  A Go \<open>string\<close> or \<open>[]byte\<close> is a \<open>char list\<close>, one \<open>char\<close> per byte.  \<open>to_upper\<close>,
  \<open>to_lower\<close> and \<open>trim_space\<close> map and trim the ASCII range, where they agree with Go; a
  non-ASCII code point, which Go maps with the Unicode tables, is left as it is.
\<close>

named_theorems go_str \<open>unfolding rules of the Go string functions\<close>
named_theorems frame \<open>fields an operation leaves alone\<close>

type_synonym bytes = "char list"

abbreviation CR :: char where "CR \<equiv> CHR 0x0D"
abbreviation LF :: char where "LF \<equiv> CHR 0x0A"
abbreviation TAB :: char where "TAB \<equiv> CHR 0x09"
abbreviation SP :: char where "SP \<equiv> CHR 0x20"
abbreviation crlf :: bytes where "crlf \<equiv> [CR, LF]"

section \<open>Characters\<close>

definition byte_val :: "char \<Rightarrow> nat" where
  "byte_val c = of_char c"

definition upper_char :: "char \<Rightarrow> char" where
  "upper_char c = (let n = byte_val c in if 97 \<le> n \<and> n \<le> 122 then char_of (n - 32) else c)"

definition lower_char :: "char \<Rightarrow> char" where
  "lower_char c = (let n = byte_val c in if 65 \<le> n \<and> n \<le> 90 then char_of (n + 32) else c)"

definition is_space :: "char \<Rightarrow> bool" where
  "is_space c = (let n = byte_val c in n = 32 \<or> (9 \<le> n \<and> n \<le> 13))"

definition is_digit :: "char \<Rightarrow> bool" where
  "is_digit c = (let n = byte_val c in 48 \<le> n \<and> n \<le> 57)"

lemma byte_val_char_of: "n < 256 \<Longrightarrow> byte_val (char_of n) = n"
  by (simp add: byte_val_def)

lemma byte_val_less: "byte_val c < 256"
  by (simp add: byte_val_def)

lemma byte_val_inj: "byte_val c = byte_val d \<longleftrightarrow> c = d"
  by (simp add: byte_val_def)

lemma upper_char_idem [simp]: "upper_char (upper_char c) = upper_char c"
  by (auto simp: upper_char_def Let_def byte_val_char_of)

lemma lower_char_idem [simp]: "lower_char (lower_char c) = lower_char c"
  by (auto simp: lower_char_def Let_def byte_val_char_of)

section \<open>Functions of the package strings\<close>

definition to_upper :: "bytes \<Rightarrow> bytes" where
  "to_upper s = map upper_char s"

definition to_lower :: "bytes \<Rightarrow> bytes" where
  "to_lower s = map lower_char s"

definition equal_fold :: "bytes \<Rightarrow> bytes \<Rightarrow> bool" where
  "equal_fold a b = (to_lower a = to_lower b)"

definition trim_left_by :: "(char \<Rightarrow> bool) \<Rightarrow> bytes \<Rightarrow> bytes" where
  "trim_left_by p s = dropWhile p s"

definition trim_right_by :: "(char \<Rightarrow> bool) \<Rightarrow> bytes \<Rightarrow> bytes" where
  "trim_right_by p s = rev (dropWhile p (rev s))"

definition trim_by :: "(char \<Rightarrow> bool) \<Rightarrow> bytes \<Rightarrow> bytes" where
  "trim_by p s = trim_right_by p (trim_left_by p s)"

definition trim_space :: "bytes \<Rightarrow> bytes" where
  "trim_space s = trim_by is_space s"

fun has_prefix :: "bytes \<Rightarrow> bytes \<Rightarrow> bool" where
  "has_prefix [] s = True"
| "has_prefix (p # ps) [] = False"
| "has_prefix (p # ps) (c # cs) = (p = c \<and> has_prefix ps cs)"

definition has_suffix :: "bytes \<Rightarrow> bytes \<Rightarrow> bool" where
  "has_suffix suf s = has_prefix (rev suf) (rev s)"

definition trim_prefix :: "bytes \<Rightarrow> bytes \<Rightarrow> bytes" where
  "trim_prefix p s = (if has_prefix p s then drop (length p) s else s)"

definition trim_suffix :: "bytes \<Rightarrow> bytes \<Rightarrow> bytes" where
  "trim_suffix suf s = (if has_suffix suf s then take (length s - length suf) s else s)"

fun contains :: "bytes \<Rightarrow> bytes \<Rightarrow> bool" where
  "contains sub [] = (sub = [])"
| "contains sub (c # cs) = (has_prefix sub (c # cs) \<or> contains sub cs)"

text \<open>\<open>strings.Cut\<close> at a one-byte separator: the part before it, the part after it, and
  whether it occurs.\<close>

fun cut :: "char \<Rightarrow> bytes \<Rightarrow> bytes \<times> bytes \<times> bool" where
  "cut sep [] = ([], [], False)"
| "cut sep (c # cs) =
     (if c = sep then ([], cs, True)
      else let (a, b, ok) = cut sep cs in (c # a, b, ok))"

text \<open>\<open>strings.Split\<close> at a one-byte separator: never the empty list.\<close>

fun split_on :: "char \<Rightarrow> bytes \<Rightarrow> bytes list" where
  "split_on sep [] = [[]]"
| "split_on sep (c # cs) =
     (if c = sep then [] # split_on sep cs
      else case split_on sep cs of [] \<Rightarrow> [[c]] | w # ws \<Rightarrow> (c # w) # ws)"

fun join :: "bytes \<Rightarrow> bytes list \<Rightarrow> bytes" where
  "join sep [] = []"
| "join sep [s] = s"
| "join sep (s # t # ts) = s @ sep @ join sep (t # ts)"

text \<open>\<open>strings.Fields\<close>: the maximal runs without white space.\<close>

fun str_fields_acc :: "bytes \<Rightarrow> bytes \<Rightarrow> bytes list" where
  "str_fields_acc w [] = (if w = [] then [] else [rev w])"
| "str_fields_acc w (c # cs) =
     (if is_space c then (if w = [] then str_fields_acc [] cs else rev w # str_fields_acc [] cs)
      else str_fields_acc (c # w) cs)"

definition str_fields :: "bytes \<Rightarrow> bytes list" where
  "str_fields s = str_fields_acc [] s"

text \<open>\<open>strings.IndexByte\<close>, with \<open>None\<close> for -1.\<close>

fun index_byte :: "char \<Rightarrow> bytes \<Rightarrow> nat option" where
  "index_byte c [] = None"
| "index_byte c (x # xs) = (if x = c then Some 0 else map_option Suc (index_byte c xs))"

lemma has_prefix_iff: "has_prefix p s \<longleftrightarrow> (\<exists>r. s = p @ r)"
  by (induction p s rule: has_prefix.induct) auto

lemma has_prefix_append [simp]: "has_prefix p (p @ s)"
  by (induction p) auto

lemma has_suffix_iff: "has_suffix p s \<longleftrightarrow> (\<exists>r. s = r @ p)"
proof
  assume "has_suffix p s"
  then obtain r where "rev s = rev p @ r" by (auto simp: has_suffix_def has_prefix_iff)
  then have "s = rev r @ p" by (metis rev_append rev_rev_ident)
  then show "\<exists>r. s = r @ p" ..
next
  assume "\<exists>r. s = r @ p"
  then show "has_suffix p s" by (auto simp: has_suffix_def)
qed

lemma length_to_upper [simp]: "length (to_upper s) = length s"
  by (simp add: to_upper_def)

lemma to_upper_idem [simp]: "to_upper (to_upper s) = to_upper s"
  by (simp add: to_upper_def)

lemma to_lower_idem [simp]: "to_lower (to_lower s) = to_lower s"
  by (simp add: to_lower_def)

lemma to_upper_append: "to_upper (a @ b) = to_upper a @ to_upper b"
  by (simp add: to_upper_def)

lemma equal_fold_refl [simp]: "equal_fold s s"
  by (simp add: equal_fold_def)

lemma split_on_not_Nil [simp]: "split_on sep s \<noteq> []"
  by (induction s) (auto split: list.splits)

lemma join_split_on: "join [sep] (split_on sep s) = s"
proof (induction s)
  case Nil
  then show ?case by simp
next
  case (Cons c cs)
  show ?case
  proof (cases "split_on sep cs")
    case Nil
    then show ?thesis by simp
  next
    case (Cons w ws)
    with Cons.IH show ?thesis by (cases ws) auto
  qed
qed

lemma split_on_free: "w \<in> set (split_on sep s) \<Longrightarrow> sep \<notin> set w"
proof (induction s arbitrary: w)
  case Nil
  then show ?case by simp
next
  case (Cons c cs)
  then show ?case by (cases "split_on sep cs") (auto split: if_splits)
qed

lemma split_on_no_sep: "sep \<notin> set s \<Longrightarrow> split_on sep s = [s]"
  by (induction s) auto

lemma split_on_append: "sep \<notin> set a \<Longrightarrow> split_on sep (a @ sep # b) = a # split_on sep b"
  by (induction a) auto

lemma split_on_join:
  "ws \<noteq> [] \<Longrightarrow> \<forall>w \<in> set ws. sep \<notin> set w \<Longrightarrow> split_on sep (join [sep] ws) = ws"
  by (induction "[sep]" ws rule: join.induct) (auto simp: split_on_no_sep split_on_append)

lemma cut_found: "cut sep s = (a, b, True) \<Longrightarrow> s = a @ sep # b \<and> sep \<notin> set a"
  by (induction s arbitrary: a b) (auto split: if_splits prod.splits)

lemma cut_absent: "cut sep s = (a, b, False) \<Longrightarrow> a = s \<and> b = [] \<and> sep \<notin> set s"
  by (induction s arbitrary: a b) (auto split: if_splits prod.splits)

lemma cut_append: "sep \<notin> set a \<Longrightarrow> cut sep (a @ sep # b) = (a, b, True)"
  by (induction a) auto

lemma cut_no_sep: "sep \<notin> set s \<Longrightarrow> cut sep s = (s, [], False)"
  by (induction s) auto

lemma set_trim_left_by: "set (trim_left_by p s) \<subseteq> set s"
  unfolding trim_left_by_def using set_dropWhileD by fastforce

lemma set_trim_right_by: "set (trim_right_by p s) \<subseteq> set s"
  unfolding trim_right_by_def using set_dropWhileD by fastforce

lemma set_trim_by: "set (trim_by p s) \<subseteq> set s"
  unfolding trim_by_def using set_trim_left_by set_trim_right_by by blast

lemma trim_right_by_id: "s = [] \<or> \<not> p (last s) \<Longrightarrow> trim_right_by p s = s"
  by (cases s rule: rev_cases) (auto simp: trim_right_by_def)

lemma trim_left_by_id: "s = [] \<or> \<not> p (hd s) \<Longrightarrow> trim_left_by p s = s"
  by (cases s) (auto simp: trim_left_by_def)

lemma trim_by_id: "s = [] \<or> (\<not> p (hd s) \<and> \<not> p (last s)) \<Longrightarrow> trim_by p s = s"
  by (auto simp: trim_by_def trim_left_by_id trim_right_by_id)

lemma trim_by_ends:
  assumes "trim_by p s \<noteq> []"
  shows "\<not> p (hd (trim_by p s)) \<and> \<not> p (last (trim_by p s))"
proof -
  define u where "u = dropWhile p s"
  let ?t = "trim_by p s"
  have t: "?t = rev (dropWhile p (rev u))" by (simp add: trim_by_def trim_right_by_def trim_left_by_def u_def)
  have "u = ?t @ rev (takeWhile p (rev u))" unfolding t by (metis rev_append rev_rev_ident takeWhile_dropWhile_id)
  then have "hd u = hd ?t" "u \<noteq> []" using assms by (metis hd_append2, metis append_is_Nil_conv)
  then have "\<not> p (hd ?t)" using hd_dropWhile[of p s] by (simp add: u_def)
  moreover have "\<not> p (last ?t)"
    using assms hd_dropWhile[of p "rev u"] unfolding t by (simp add: last_rev)
  ultimately show ?thesis by simp
qed

lemma trim_by_idem [simp]: "trim_by p (trim_by p s) = trim_by p s"
  using trim_by_ends[of p s] trim_by_id by blast

section \<open>Decimal numbers: strconv\<close>

definition digit_char :: "nat \<Rightarrow> char" where
  "digit_char n = char_of (48 + n)"

definition digit_val :: "char \<Rightarrow> nat" where
  "digit_val c = byte_val c - 48"

fun nat_str :: "nat \<Rightarrow> bytes" where
  "nat_str n = (if n < 10 then [digit_char n] else nat_str (n div 10) @ [digit_char (n mod 10)])"

declare nat_str.simps [simp del]

definition int_str :: "int \<Rightarrow> bytes" where
  "int_str i = (if i < 0 then CHR ''-'' # nat_str (nat (- i)) else nat_str (nat i))"

definition nat_of_digits :: "bytes \<Rightarrow> nat" where
  "nat_of_digits s = foldl (\<lambda>a c. 10 * a + digit_val c) 0 s"

definition max_int64 :: int where "max_int64 = 9223372036854775807"
definition min_int64 :: int where "min_int64 = - 9223372036854775808"

lemmas int64_bounds = max_int64_def min_int64_def

text \<open>\<open>strconv.ParseInt(s, 10, 64)\<close> (and \<open>strconv.Atoi\<close> on a 64-bit platform): an optional
  sign, at least one digit, nothing else, in range.\<close>

definition parse_digits :: "bytes \<Rightarrow> nat option" where
  "parse_digits s = (if s \<noteq> [] \<and> list_all is_digit s then Some (nat_of_digits s) else None)"

definition parse_int64 :: "bytes \<Rightarrow> int option" where
  "parse_int64 s =
     (let (neg, ds) = (case s of
            [] \<Rightarrow> (False, [])
          | c # cs \<Rightarrow> if c = CHR ''-'' then (True, cs) else if c = CHR ''+'' then (False, cs)
                      else (False, s))
      in case parse_digits ds of
           None \<Rightarrow> None
         | Some n \<Rightarrow> let v = (if neg then - int n else int n)
                     in if min_int64 \<le> v \<and> v \<le> max_int64 then Some v else None)"

text \<open>\<open>strconv.ParseUint(s, 10, 64)\<close>.\<close>

definition parse_uint64 :: "bytes \<Rightarrow> nat option" where
  "parse_uint64 s = (case parse_digits s of
       None \<Rightarrow> None | Some n \<Rightarrow> if n < 2 ^ 64 then Some n else None)"

lemma digit_char_eval:
  "digit_char 0 = CHR ''0''" "digit_char 1 = CHR ''1''" "digit_char 2 = CHR ''2''"
  "digit_char 3 = CHR ''3''" "digit_char 4 = CHR ''4''" "digit_char 5 = CHR ''5''"
  "digit_char 6 = CHR ''6''" "digit_char 7 = CHR ''7''" "digit_char 8 = CHR ''8''"
  "digit_char 9 = CHR ''9''"
  by (code_simp)+

lemma digit_char_val [simp]: "n < 10 \<Longrightarrow> digit_val (digit_char n) = n"
  by (simp add: digit_val_def digit_char_def byte_val_char_of)

lemma digit_char_digit [simp]: "n < 10 \<Longrightarrow> is_digit (digit_char n)"
  by (simp add: is_digit_def digit_char_def byte_val_char_of)

lemma nat_str_not_Nil [simp]: "nat_str n \<noteq> []"
  by (subst nat_str.simps) simp

lemma nat_str_digits: "list_all is_digit (nat_str n)"
proof (induction n rule: nat_str.induct)
  case (1 n)
  then show ?case by (subst nat_str.simps) simp
qed

lemma nat_of_digits_snoc: "nat_of_digits (s @ [c]) = 10 * nat_of_digits s + digit_val c"
  by (simp add: nat_of_digits_def)

lemma nat_of_digits_nat_str [simp]: "nat_of_digits (nat_str n) = n"
proof (induction n rule: nat_str.induct)
  case (1 n)
  show ?case
  proof (cases "n < 10")
    case True
    then show ?thesis by (subst nat_str.simps) (simp add: nat_of_digits_def)
  next
    case False
    with 1 have "nat_of_digits (nat_str (n div 10)) = n div 10" by simp
    with False show ?thesis by (subst nat_str.simps) (simp add: nat_of_digits_snoc)
  qed
qed

lemma parse_digits_nat_str [simp]: "parse_digits (nat_str n) = Some n"
  by (simp add: parse_digits_def nat_str_digits)

lemma nat_str_inj: "nat_str m = nat_str n \<longleftrightarrow> m = n"
  by (metis nat_of_digits_nat_str)

lemma digit_no_sign: "is_digit c \<Longrightarrow> c \<noteq> CHR ''-'' \<and> c \<noteq> CHR ''+''"
  by (auto simp: is_digit_def byte_val_def Let_def)

lemma digit_no_space: "is_digit c \<Longrightarrow> \<not> is_space c"
  by (auto simp: is_digit_def is_space_def Let_def)

lemma nat_str_hd_digit: "is_digit (hd (nat_str n))"
  using nat_str_digits [of n] by (cases "nat_str n") auto

lemma parse_int64_digits:
  assumes "ds \<noteq> []" "list_all is_digit ds"
  shows "parse_int64 ds = (if int (nat_of_digits ds) \<le> max_int64 then Some (int (nat_of_digits ds)) else None)"
proof -
  from assms obtain c cs where ds: "ds = c # cs" and "is_digit c" by (cases ds) auto
  then have "c \<noteq> CHR ''-''" "c \<noteq> CHR ''+''" using digit_no_sign by auto
  with ds assms show ?thesis
    by (simp add: parse_int64_def parse_digits_def min_int64_def)
qed

lemma parse_int64_int_str:
  assumes "min_int64 \<le> i" "i \<le> max_int64"
  shows "parse_int64 (int_str i) = Some i"
proof (cases "i < 0")
  case True
  with assms show ?thesis by (simp add: int_str_def parse_int64_def)
next
  case False
  with assms show ?thesis
    by (simp add: int_str_def parse_int64_digits nat_str_digits)
qed

lemma parse_int64_range:
  "parse_int64 s = Some i \<Longrightarrow> min_int64 \<le> i \<and> i \<le> max_int64"
  by (auto simp: parse_int64_def Let_def split: option.splits prod.splits if_splits)

section \<open>Signed 64-bit wrap-around\<close>

definition wrap64 :: "int \<Rightarrow> int" where
  "wrap64 x = (x + 9223372036854775808) mod 18446744073709551616 - 9223372036854775808"

lemma wrap64_id [simp]: "min_int64 \<le> x \<Longrightarrow> x \<le> max_int64 \<Longrightarrow> wrap64 x = x"
  by (simp add: wrap64_def int64_bounds)

lemma wrap64_range: "min_int64 \<le> wrap64 x \<and> wrap64 x \<le> max_int64"
proof -
  have "0 \<le> (x + 9223372036854775808) mod 18446744073709551616"
    and "(x + 9223372036854775808) mod 18446744073709551616 < 18446744073709551616" by simp_all
  then show ?thesis unfolding wrap64_def int64_bounds by linarith
qed

section \<open>Go maps as association lists\<close>

text \<open>
  A Go map whose size or members the code counts is an association list with distinct keys;
  \<open>lookup\<close>, \<open>AList.update\<close> and \<open>AList.delete\<close> are its operations.
\<close>

abbreviation lookup :: "('k \<times> 'v) list \<Rightarrow> 'k \<Rightarrow> 'v option" where
  "lookup m k \<equiv> map_of m k"

abbreviation keys :: "('k \<times> 'v) list \<Rightarrow> 'k list" where
  "keys m \<equiv> map fst m"

lemma lookup_update [simp]: "lookup (AList.update k v m) k' = (if k' = k then Some v else lookup m k')"
  by (simp add: update_conv)

lemma lookup_delete [simp]: "lookup (AList.delete k m) k' = (if k' = k then None else lookup m k')"
  by (simp add: delete_conv)

lemma lookup_None_iff: "lookup m k = None \<longleftrightarrow> k \<notin> set (keys m)"
  by (simp add: map_of_eq_None_iff)

lemma keys_update_new: "k \<notin> set (keys m) \<Longrightarrow> AList.update k v m = m @ [(k, v)]"
  by (induction m) auto

lemma distinct_keys_update [intro]: "distinct (keys m) \<Longrightarrow> distinct (keys (AList.update k v m))"
  by (rule distinct_update)

lemma distinct_keys_delete [intro]: "distinct (keys m) \<Longrightarrow> distinct (keys (AList.delete k m))"
  by (rule distinct_delete)

lemma keys_delete: "keys (AList.delete k m) = filter (\<lambda>x. x \<noteq> k) (keys m)"
  by (induction m) auto

lemma delete_absent: "k \<notin> set (keys m) \<Longrightarrow> AList.delete k m = m"
  by (induction m) (auto simp: AList.delete_eq)

lemma sum_list_delete:
  fixes f :: "'v \<Rightarrow> int"
  assumes "distinct (keys m)" "lookup m k = Some v"
  shows "sum_list (map (f \<circ> snd) (AList.delete k m)) = sum_list (map (f \<circ> snd) m) - f v"
  using assms
proof (induction m)
  case Nil
  then show ?case by simp
next
  case (Cons p m)
  obtain a b where p: "p = (a, b)" by (cases p)
  show ?case
  proof (cases "a = k")
    case True
    with Cons.prems p have "k \<notin> set (keys m)" "b = v" by auto
    with True p show ?thesis by (simp add: delete_absent)
  next
    case False
    with Cons p show ?thesis by auto
  qed
qed

lemma sum_list_nonneg_lookup:
  fixes f :: "'v \<Rightarrow> int"
  assumes "\<forall>p \<in> set m. 0 \<le> f (snd p)" "lookup m k = Some v"
  shows "f v \<le> sum_list (map (f \<circ> snd) m)"
proof -
  from assms(2) have "f v \<in> set (map (f \<circ> snd) m)" by (force dest: map_of_SomeD)
  moreover from assms(1) have "\<And>x. x \<in> set (map (f \<circ> snd) m) \<Longrightarrow> 0 \<le> x" by auto
  ultimately show ?thesis by (metis member_le_sum_list)
qed

section \<open>Results\<close>

text \<open>An operation that may fail returns \<open>Inl\<close> of its error or \<open>Inr\<close> of its value.\<close>

definition is_ok :: "'e + 'a \<Rightarrow> bool" where
  "is_ok r = (case r of Inl _ \<Rightarrow> False | Inr _ \<Rightarrow> True)"

lemma is_ok_simps [simp]: "is_ok (Inl e) = False" "is_ok (Inr a) = True"
  by (simp_all add: is_ok_def)

end
