(* ===== verification/Domain_Err.thy ===== *)
theory Domain_Err
  imports Prelude
begin

text \<open>
  The transport independent errors of \<^verbatim>\<open>internal/domainerr\<close> and their mapping to HTTP
  problems and JSON-RPC errors (\<^verbatim>\<open>internal/capabilities/errors.go\<close>).  A Go
  \<^verbatim>\<open>*domainerr.Error\<close> that may be nil is a \<open>domain_error option\<close>; a Go \<^verbatim>\<open>error\<close> is a
  \<open>go_error\<close>: a domain error, a plain error, or a wrapper around another one
  (\<^verbatim>\<open>fmt.Errorf\<close> with \<^verbatim>\<open>%w\<close>), which \<^verbatim>\<open>errors.As\<close> looks through.
\<close>

section \<open>Codes\<close>

datatype code =
    ValidationFailed | Unauthenticated | Forbidden | ReceiveOnly | NotFound | MethodNotAllowed
  | RevisionConflict | IdempotencyConflict | StoreFull | StoreOverNewCap | CursorStale
  | RateLimited | Timeout | InternalError
  | OtherCode bytes

fun code_str :: "code \<Rightarrow> bytes" where
  "code_str ValidationFailed = ''validation_failed''"
| "code_str Unauthenticated = ''unauthenticated''"
| "code_str Forbidden = ''forbidden''"
| "code_str ReceiveOnly = ''receive_only''"
| "code_str NotFound = ''not_found''"
| "code_str MethodNotAllowed = ''method_not_allowed''"
| "code_str RevisionConflict = ''revision_conflict''"
| "code_str IdempotencyConflict = ''idempotency_conflict''"
| "code_str StoreFull = ''store_full''"
| "code_str StoreOverNewCap = ''store_over_new_cap''"
| "code_str CursorStale = ''cursor_stale''"
| "code_str RateLimited = ''rate_limited''"
| "code_str Timeout = ''timeout''"
| "code_str InternalError = ''internal_error''"
| "code_str (OtherCode s) = s"

definition code_catalog :: "(code \<times> bool) list" where
  "code_catalog =
    [(ValidationFailed, False), (Unauthenticated, False), (Forbidden, False), (ReceiveOnly, False),
     (NotFound, False), (MethodNotAllowed, False), (RevisionConflict, True),
     (IdempotencyConflict, False), (StoreFull, True), (StoreOverNewCap, False),
     (CursorStale, False), (RateLimited, True), (Timeout, True), (InternalError, True)]"

definition codes :: "code list" where
  "codes = map fst code_catalog"

definition code_retryable :: "code \<Rightarrow> bool" where
  "code_retryable c = (case find (\<lambda>e. fst e = c) code_catalog of Some e \<Rightarrow> snd e | None \<Rightarrow> False)"

section \<open>The error value\<close>

record field_violation =
  fv_path :: bytes
  fv_code :: bytes
  fv_message :: bytes

record domain_error =
  err_code :: code
  err_message :: bytes
  err_retryable :: bool
  err_violations :: "field_violation list"
  err_revision :: bytes
  err_remediation :: bytes

definition error_text :: "domain_error option \<Rightarrow> bytes" where
  "error_text e = (case e of
     None \<Rightarrow> []
   | Some e \<Rightarrow> if err_message e = [] then code_str (err_code e)
               else code_str (err_code e) @ '': '' @ err_message e)"

definition new_error :: "code \<Rightarrow> bytes \<Rightarrow> domain_error" where
  "new_error c m = \<lparr> err_code = c, err_message = m, err_retryable = code_retryable c,
     err_violations = [], err_revision = [], err_remediation = [] \<rparr>"

definition with_remediation :: "bytes \<Rightarrow> domain_error option \<Rightarrow> domain_error option" where
  "with_remediation s e = map_option (\<lambda>e. e \<lparr> err_remediation := s \<rparr>) e"

definition with_revision :: "bytes \<Rightarrow> domain_error option \<Rightarrow> domain_error option" where
  "with_revision r e = map_option (\<lambda>e. e \<lparr> err_revision := r \<rparr>) e"

definition with_violations :: "field_violation list \<Rightarrow> domain_error option \<Rightarrow> domain_error option" where
  "with_violations v e = (case e of
     None \<Rightarrow> None
   | Some d \<Rightarrow> if v = [] then Some d else Some (d \<lparr> err_violations := err_violations d @ v \<rparr>))"

definition validation_failed :: "bytes \<Rightarrow> field_violation list \<Rightarrow> domain_error" where
  "validation_failed m v = the (with_violations v (Some (new_error ValidationFailed m)))"

definition revision_conflict :: "bytes \<Rightarrow> bytes \<Rightarrow> domain_error" where
  "revision_conflict m r = the (with_revision r (Some (new_error RevisionConflict m)))"

datatype go_error =
    DomainE "domain_error option"
  | PlainE bytes
  | WrapE bytes go_error

fun as_domain :: "go_error \<Rightarrow> domain_error option \<times> bool" where
  "as_domain (DomainE e) = (e, True)"
| "as_domain (PlainE m) = (None, False)"
| "as_domain (WrapE m e) = as_domain e"

definition is_error :: "domain_error option \<Rightarrow> go_error \<Rightarrow> bool" where
  "is_error e target = (case target of
     DomainE t \<Rightarrow> (case (e, t) of (Some a, Some b) \<Rightarrow> err_code a = err_code b | _ \<Rightarrow> False)
   | _ \<Rightarrow> False)"

section \<open>HTTP problems and JSON-RPC errors\<close>

record problem =
  p_type :: bytes
  p_title :: bytes
  p_status :: int
  p_detail :: bytes
  p_instance :: bytes
  p_code :: code
  p_retryable :: bool
  p_violations :: "field_violation list"
  p_revision :: bytes
  p_remediation :: bytes

record rpc_error =
  rpc_code :: int
  rpc_message :: bytes
  rpc_data :: domain_error

record mapping =
  m_status :: int
  m_rpc :: int
  m_title :: bytes

abbreviation mapp :: "int \<Rightarrow> int \<Rightarrow> bytes \<Rightarrow> mapping" where
  "mapp s r t \<equiv> \<lparr> m_status = s, m_rpc = r, m_title = t \<rparr>"

abbreviation JSONRPCParseError :: int where "JSONRPCParseError \<equiv> - 32700"
abbreviation JSONRPCInvalidRequest :: int where "JSONRPCInvalidRequest \<equiv> - 32600"
abbreviation JSONRPCMethodNotFound :: int where "JSONRPCMethodNotFound \<equiv> - 32601"
abbreviation JSONRPCInvalidParams :: int where "JSONRPCInvalidParams \<equiv> - 32602"
abbreviation JSONRPCInternalError :: int where "JSONRPCInternalError \<equiv> - 32603"
abbreviation JSONRPCUnauthenticated :: int where "JSONRPCUnauthenticated \<equiv> - 32001"
abbreviation JSONRPCForbidden :: int where "JSONRPCForbidden \<equiv> - 32003"
abbreviation JSONRPCNotFound :: int where "JSONRPCNotFound \<equiv> - 32004"
abbreviation JSONRPCRateLimited :: int where "JSONRPCRateLimited \<equiv> - 32005"
abbreviation JSONRPCConflict :: int where "JSONRPCConflict \<equiv> - 32009"
abbreviation JSONRPCTimeout :: int where "JSONRPCTimeout \<equiv> - 32010"

definition error_map :: "(code \<times> mapping) list" where
  "error_map =
    [(ValidationFailed, mapp 400 JSONRPCInvalidParams ''Validation failed''),
     (Unauthenticated, mapp 401 JSONRPCUnauthenticated ''Unauthenticated''),
     (Forbidden, mapp 403 JSONRPCForbidden ''Forbidden''),
     (ReceiveOnly, mapp 403 JSONRPCForbidden ''Receive only''),
     (NotFound, mapp 404 JSONRPCNotFound ''Not Found''),
     (MethodNotAllowed, mapp 405 JSONRPCMethodNotFound ''Method not allowed''),
     (RevisionConflict, mapp 409 JSONRPCConflict ''State revision conflict''),
     (IdempotencyConflict, mapp 409 JSONRPCConflict ''Idempotency key conflict''),
     (StoreFull, mapp 409 JSONRPCConflict ''Store full''),
     (StoreOverNewCap, mapp 400 JSONRPCInvalidParams ''Store over new cap''),
     (CursorStale, mapp 400 JSONRPCInvalidParams ''Cursor stale''),
     (RateLimited, mapp 429 JSONRPCRateLimited ''Rate limited''),
     (Timeout, mapp 504 JSONRPCTimeout ''Timeout''),
     (InternalError, mapp 500 JSONRPCInternalError ''Internal error'')]"

definition lookup_mapping :: "code \<Rightarrow> mapping" where
  "lookup_mapping c = (case lookup error_map c of
     Some m \<Rightarrow> m | None \<Rightarrow> mapp 500 JSONRPCInternalError ''Internal error'')"

definition problem_type_urn :: "code \<Rightarrow> bytes" where
  "problem_type_urn c =
    ''urn:labmail:error:'' @ map (\<lambda>x. if x = CHR ''_'' then CHR ''-'' else x) (code_str c)"

definition http_status :: "code \<Rightarrow> int" where
  "http_status c = m_status (lookup_mapping c)"

definition domain_of :: "go_error option \<Rightarrow> domain_error" where
  "domain_of err = (case err of
     None \<Rightarrow> new_error InternalError ''internal error''
   | Some e \<Rightarrow> (case as_domain e of
       (Some d, True) \<Rightarrow> d
     | _ \<Rightarrow> new_error InternalError ''internal error''))"

definition problem_from :: "go_error option \<Rightarrow> bytes \<Rightarrow> problem" where
  "problem_from err inst = (let de = domain_of err; m = lookup_mapping (err_code de) in
     \<lparr> p_type = problem_type_urn (err_code de), p_title = m_title m, p_status = m_status m,
       p_detail = err_message de, p_instance = inst, p_code = err_code de,
       p_retryable = err_retryable de, p_violations = err_violations de,
       p_revision = err_revision de, p_remediation = err_remediation de \<rparr>)"

definition jsonrpc_from :: "go_error option \<Rightarrow> rpc_error" where
  "jsonrpc_from err = (let de = domain_of err; m = lookup_mapping (err_code de) in
     \<lparr> rpc_code = m_rpc m,
       rpc_message = (if err_message de = [] then m_title m else err_message de),
       rpc_data = de \<rparr>)"

section \<open>Lemmas\<close>

lemma codes_complete: "c \<in> set codes \<longleftrightarrow> (\<forall>s. c \<noteq> OtherCode s)"
  by (cases c) (simp_all add: codes_def code_catalog_def)

lemma codes_distinct: "distinct (map code_str codes)"
  by (simp add: codes_def code_catalog_def)

lemma error_map_keys: "keys error_map = codes"
  by (simp add: error_map_def codes_def code_catalog_def)

lemma new_error_code [simp]: "err_code (new_error c m) = c"
  by (simp add: new_error_def)

lemma validation_failed_code [simp]: "err_code (validation_failed m v) = ValidationFailed"
  by (simp add: validation_failed_def with_violations_def)

lemma revision_conflict_fields [simp]:
  "err_code (revision_conflict m r) = RevisionConflict" "err_revision (revision_conflict m r) = r"
  by (simp_all add: revision_conflict_def with_revision_def)

lemma lookup_mapping_total: "lookup_mapping c \<in> insert (mapp 500 JSONRPCInternalError ''Internal error'') (snd ` set error_map)"
proof (cases "lookup error_map c")
  case (Some m)
  then show ?thesis by (auto simp: lookup_mapping_def dest: map_of_SomeD intro: rev_image_eqI)
qed (simp add: lookup_mapping_def)

lemma mapping_ranges:
  "m \<in> insert (mapp 500 JSONRPCInternalError ''Internal error'') (snd ` set error_map) \<Longrightarrow>
     400 \<le> m_status m \<and> m_status m < 600 \<and> - 32768 \<le> m_rpc m \<and> m_rpc m \<le> - 32000 \<and> m_title m \<noteq> []"
  by (auto simp: error_map_def)

text \<open>Every Go error, known or not, wrapped or not, is answered by both transports with the
  same domain error: the problem's status is a 4xx or 5xx one and the JSON-RPC code lies in the
  reserved range, the domain code and the retryable hint agree, and the JSON-RPC message is never
  empty.\<close>

lemma transports_agree:
  "400 \<le> p_status (problem_from err i) \<and> p_status (problem_from err i) < 600
   \<and> - 32768 \<le> rpc_code (jsonrpc_from err) \<and> rpc_code (jsonrpc_from err) \<le> - 32000
   \<and> p_code (problem_from err i) = err_code (rpc_data (jsonrpc_from err))
   \<and> p_retryable (problem_from err i) = err_retryable (rpc_data (jsonrpc_from err))
   \<and> p_violations (problem_from err i) = err_violations (rpc_data (jsonrpc_from err))
   \<and> rpc_message (jsonrpc_from err) \<noteq> []"
  using mapping_ranges[OF lookup_mapping_total[of "err_code (domain_of err)"]]
  by (simp add: problem_from_def jsonrpc_from_def Let_def)

end
