(* ===== verification/Codec.thy ===== *)
theory Codec
  imports Prelude
begin

text \<open>
  The line codec of \<^verbatim>\<open>internal/smtp/codec\<close> and the reply reader of the transcript client
  \<^verbatim>\<open>internal/smtptest\<close>.  A \<^verbatim>\<open>*bufio.Reader\<close> is the bytes still to come and the error the
  reads end with when they have run out (\<open>ReadEOF\<close>, \<open>ReadTimeout\<close> for a deadline, \<open>ReadFail\<close> for a broken
  connection); a read returns its result and the bytes that remain.
\<close>

section \<open>Reading lines\<close>

definition MaxCommandLine :: nat where "MaxCommandLine = 512"
definition MaxDataLine :: nat where "MaxDataLine = 8192"

datatype read_error = LineTooLong | ReadEOF | UnexpectedEOF | ReadFail | ReadTimeout

text \<open>\<^verbatim>\<open>r.ReadBytes('\n')\<close>, its result dropped: what is left after the next LF.\<close>

fun drain_line :: "bytes \<Rightarrow> bytes" where
  "drain_line [] = []"
| "drain_line (b # bs) = (if b = LF then bs else drain_line bs)"

definition strip_cr :: "bytes \<Rightarrow> bytes" where
  "strip_cr buf = (if buf \<noteq> [] \<and> last buf = CR then butlast buf else buf)"

fun read_line_loop :: "nat \<Rightarrow> read_error \<Rightarrow> bytes \<Rightarrow> bytes \<Rightarrow> (read_error + bytes) \<times> bytes" where
  "read_line_loop mx e buf [] =
     (Inl (if e = ReadEOF \<and> buf \<noteq> [] then UnexpectedEOF else e), [])"
| "read_line_loop mx e buf (b # bs) =
     (if length buf + 1 > mx then (Inl LineTooLong, if b \<noteq> LF then drain_line bs else bs)
      else if b = LF then (Inr (strip_cr buf), bs)
      else read_line_loop mx e (buf @ [b]) bs)"

definition read_line :: "nat \<Rightarrow> read_error \<Rightarrow> bytes \<Rightarrow> (read_error + bytes) \<times> bytes" where
  "read_line mx e inp = (if mx < 2 then (Inl LineTooLong, inp) else read_line_loop mx e [] inp)"

definition read_command_line :: "read_error \<Rightarrow> bytes \<Rightarrow> (read_error + bytes) \<times> bytes" where
  "read_command_line = read_line MaxCommandLine"

definition read_data_line :: "read_error \<Rightarrow> bytes \<Rightarrow> (read_error + bytes) \<times> bytes" where
  "read_data_line = read_line MaxDataLine"

definition unstuff :: "bytes \<Rightarrow> bytes \<times> bool" where
  "unstuff line =
     (if line = ''.'' then ([], True)
      else if has_prefix ''.'' line then (drop 1 line, False)
      else (line, False))"

section \<open>Replies\<close>

text \<open>\<open>fmt\<close>'s \<^verbatim>\<open>%03d\<close>: zeros up to three characters, the sign counted.\<close>

definition zero_pad :: "nat \<Rightarrow> bytes \<Rightarrow> bytes" where
  "zero_pad w s = replicate (w - length s) (CHR ''0'') @ s"

definition fmt03 :: "int \<Rightarrow> bytes" where
  "fmt03 n = (if n < 0 then CHR ''-'' # zero_pad 2 (nat_str (nat (- n))) else zero_pad 3 (nat_str (nat n)))"

fun format_lines :: "int \<Rightarrow> bytes list \<Rightarrow> bytes" where
  "format_lines code [] = []"
| "format_lines code [l] = fmt03 code @ '' '' @ l @ crlf"
| "format_lines code (l # m # ls) = fmt03 code @ ''-'' @ l @ crlf @ format_lines code (m # ls)"

definition format_reply :: "int \<Rightarrow> bytes list \<Rightarrow> bytes" where
  "format_reply code lines = format_lines code (if lines = [] then [[]] else lines)"

definition is_blank :: "char \<Rightarrow> bool" where
  "is_blank c = (c = SP \<or> c = TAB)"

text \<open>The two slices at the index of the first blank.\<close>

definition split_verb :: "bytes \<Rightarrow> bytes \<times> bytes" where
  "split_verb raw = (let line = trim_right_by is_blank raw in
     if line = [] then ([], [])
     else case dropWhile (\<lambda>c. \<not> is_blank c) line of
         [] \<Rightarrow> (to_upper line, [])
       | _ # rest \<Rightarrow> (to_upper (takeWhile (\<lambda>c. \<not> is_blank c) line), trim_space rest))"

section \<open>The client's side: reading a reply\<close>

datatype client_error = ClientEOF | ShortReply bytes | BadReply bytes

definition is_crlf :: "char \<Rightarrow> bool" where
  "is_crlf c = (c = CR \<or> c = LF)"

function read_reply_loop ::
  "bytes list \<Rightarrow> bytes \<Rightarrow> (client_error + int \<times> bytes list) \<times> bytes list \<times> bytes" where
  "read_reply_loop lines inp =
     (if LF \<notin> set inp then (Inl ClientEOF, lines, [])
      else let raw = trim_right_by is_crlf (takeWhile (\<lambda>c. c \<noteq> LF) inp @ [LF]);
               rest = drain_line inp
           in if length raw < 3 then (Inl (ShortReply raw), lines, rest)
              else case parse_int64 (take 3 raw) of
                  None \<Rightarrow> (Inl (BadReply raw), lines, rest)
                | Some n \<Rightarrow> let lines' = lines @ [raw] in
                    if length raw = 3 \<or> raw ! 3 = SP then (Inr (n, lines'), lines', rest)
                    else if raw ! 3 \<noteq> CHR ''-'' then (Inl (BadReply raw), lines', rest)
                    else read_reply_loop lines' rest)"
  by pat_completeness auto

lemma drain_line_shorter: "LF \<in> set inp \<Longrightarrow> length (drain_line inp) < length inp"
proof (induction inp)
  case (Cons b bs)
  have le: "length (drain_line xs) \<le> length xs" for xs by (induction xs) auto
  show ?case using le[of bs] Cons by auto
qed simp

termination read_reply_loop
  by (relation "measure (\<lambda>(lines, inp). length inp)") (auto simp: drain_line_shorter)

declare read_reply_loop.simps [simp del]

definition reply_text :: "bytes list \<Rightarrow> bytes" where
  "reply_text lines = join [LF] (map (\<lambda>ln. if length ln \<ge> 4 then drop 4 ln else ln) lines)"

section \<open>Line reading: what every input gives\<close>

text \<open>The specification: cut the stream at its first LF.\<close>

definition read_line_spec :: "nat \<Rightarrow> read_error \<Rightarrow> bytes \<Rightarrow> (read_error + bytes) \<times> bytes" where
  "read_line_spec mx e inp = (case cut LF inp of
       (l, rest, True) \<Rightarrow> (if length l + 1 \<le> mx then Inr (strip_cr l) else Inl LineTooLong, rest)
     | (l, _, False) \<Rightarrow>
         (Inl (if length l > mx then LineTooLong
               else if e = ReadEOF \<and> l \<noteq> [] then UnexpectedEOF else e), []))"

lemma drain_line_cut: "drain_line inp = fst (snd (cut LF inp))"
  by (induction inp) (auto simp: Let_def split: prod.splits)

lemma read_line_loop_cut:
  "length buf \<le> mx \<Longrightarrow> read_line_loop mx e buf inp =
     (case cut LF inp of
       (l, rest, True) \<Rightarrow> (if length buf + length l + 1 \<le> mx then Inr (strip_cr (buf @ l)) else Inl LineTooLong, rest)
     | (l, _, False) \<Rightarrow>
         (Inl (if length buf + length l > mx then LineTooLong
               else if e = ReadEOF \<and> buf @ l \<noteq> [] then UnexpectedEOF else e), []))"
proof (induction inp arbitrary: buf)
  case (Cons b bs)
  show ?case
  proof (cases "length buf + 1 > mx \<or> b = LF")
    case True
    then show ?thesis using Cons.prems
      by (cases "cut LF bs") (auto simp: drain_line_cut split: bool.splits dest: cut_absent)
  next
    case False
    then show ?thesis using Cons.IH[of "buf @ [b]"]
      by (cases "cut LF bs") (auto split: bool.splits)
  qed
qed simp

lemma read_line_meets_spec: "2 \<le> mx \<Longrightarrow> read_line mx e inp = read_line_spec mx e inp"
  by (cases "cut LF inp") (auto simp: read_line_def read_line_spec_def read_line_loop_cut split: bool.splits)

lemma read_line_ok:
  assumes "read_line mx e inp = (Inr l, rest)"
  shows "LF \<notin> set l \<and> length l < mx \<and> (inp = l @ LF # rest \<or> inp = l @ CR # LF # rest)"
proof -
  from assms have mx: "2 \<le> mx" by (auto simp: read_line_def split: if_splits)
  obtain a r ok where c: "cut LF inp = (a, r, ok)" by (cases "cut LF inp") auto
  from assms mx c have ok: ok and l: "l = strip_cr a" "length a + 1 \<le> mx" "r = rest"
    by (auto simp: read_line_meets_spec read_line_spec_def split: bool.splits if_splits)
  from c ok have "inp = a @ LF # r \<and> LF \<notin> set a" by (auto dest: cut_found)
  moreover have "a = strip_cr a \<or> a = strip_cr a @ [CR]"
    by (auto simp: strip_cr_def) (metis append_butlast_last_id)
  ultimately show ?thesis using l
    by (auto simp: strip_cr_def split: if_splits dest: in_set_butlastD)
qed

lemma read_line_rest_shorter:
  assumes "read_line mx e inp = (Inr l, rest)"
  shows "length rest < length inp"
  using read_line_ok[OF assms] by auto

lemma drain_line_le: "length (drain_line inp) \<le> length inp"
  by (induction inp) auto

lemma read_line_loop_le: "length (snd (read_line_loop mx e buf inp)) \<le> length inp"
  by (induction inp arbitrary: buf) (auto intro: le_SucI drain_line_le)

lemma read_line_le: "length (snd (read_line mx e inp)) \<le> length inp"
  by (simp add: read_line_def read_line_loop_le)

text \<open>The two limits evaluate with integer arithmetic; unary naturals of their size would not.\<close>

definition read_line_int :: "int \<Rightarrow> read_error \<Rightarrow> bytes \<Rightarrow> (read_error + bytes) \<times> bytes" where
  "read_line_int mx e inp = (let (l, rest, found) = cut LF inp; n = int (length l) in
     if found then (if n + 1 \<le> mx then Inr (strip_cr l) else Inl LineTooLong, rest)
     else (Inl (if n > mx then LineTooLong else if e = ReadEOF \<and> l \<noteq> [] then UnexpectedEOF else e), []))"

lemma read_line_int: "2 \<le> mx \<Longrightarrow> read_line mx e inp = read_line_int (int mx) e inp"
  by (cases "cut LF inp") (auto simp: read_line_meets_spec read_line_spec_def read_line_int_def split: bool.splits)

lemma read_command_line_code [code]: "read_command_line e inp = read_line_int 512 e inp"
  by (simp add: read_command_line_def read_line_int MaxCommandLine_def)

lemma read_data_line_code [code]: "read_data_line e inp = read_line_int 8192 e inp"
  by (simp add: read_data_line_def read_line_int MaxDataLine_def)

text \<open>One call of \<^verbatim>\<open>ReadLine\<close> on any stream is the cut of the stream at its first LF: the
  line before it, less one final CR, when the line and its LF fit in the limit, and the too-long
  error otherwise; in both cases exactly the bytes after that LF are left, so an overlong line
  never leaks into the next command.  Without an LF the whole stream is consumed and an error
  returned.\<close>

lemma read_line_functional:
  assumes "2 \<le> mx"
  shows "read_line mx e inp = read_line_spec mx e inp"
  using assms by (rule read_line_meets_spec)

theorem read_line_functional_witness:
  "read_line 8 ReadEOF (''NOOP'' @ crlf @ ''QUIT'') = read_line_spec 8 ReadEOF (''NOOP'' @ crlf @ ''QUIT'')
   \<and> read_line_spec 8 ReadEOF (''NOOP'' @ crlf @ ''QUIT'') = (Inr ''NOOP'', ''QUIT'')
   \<and> read_line_spec 4 ReadEOF (''NOOP'' @ crlf @ ''QUIT'') = (Inl LineTooLong, ''QUIT'')"
  using read_line_functional[of 8 ReadEOF "''NOOP'' @ crlf @ ''QUIT''"]
  by (simp add: read_line_spec_def strip_cr_def)

section \<open>Dot stuffing\<close>

text \<open>What a sender does to a body line (RFC 5321, 4.5.2).\<close>

definition stuff :: "bytes \<Rightarrow> bytes" where
  "stuff l = (if has_prefix ''.'' l then CHR ''.'' # l else l)"

lemma unstuff_stuff [simp]: "unstuff (stuff l) = (l, False)"
  by (cases l) (auto simp: unstuff_def stuff_def)

lemma unstuff_end: "snd (unstuff l) \<longleftrightarrow> l = ''.''"
  by (simp add: unstuff_def)

lemma unstuff_length: "length (fst (unstuff l)) \<le> length l"
  by (simp add: unstuff_def)

section \<open>Reply round trip\<close>

lemma zero_pad_digits: "list_all is_digit s \<Longrightarrow> list_all is_digit (zero_pad w s)"
  by (auto simp: zero_pad_def list_all_iff is_digit_def byte_val_def)

lemma nat_of_digits_zeros: "nat_of_digits (replicate k (CHR ''0'') @ s) = nat_of_digits s"
  by (induction k) (simp_all add: nat_of_digits_def digit_val_def byte_val_def)

lemma nat_str_length3: "n < 1000 \<Longrightarrow> length (nat_str n) \<le> 3"
  by (subst nat_str.simps, subst nat_str.simps, subst nat_str.simps) auto

lemma fmt03_code:
  assumes "0 \<le> code" "code < 1000"
  shows "length (fmt03 code) = 3 \<and> list_all is_digit (fmt03 code) \<and> parse_int64 (fmt03 code) = Some code"
proof -
  have d: "list_all is_digit (fmt03 code)"
    using assms by (simp add: fmt03_def zero_pad_digits nat_str_digits)
  have len: "length (fmt03 code) = 3"
    using assms nat_str_length3[of "nat code"] by (simp add: fmt03_def zero_pad_def)
  have "nat_of_digits (fmt03 code) = nat code"
    using assms by (simp add: fmt03_def zero_pad_def nat_of_digits_zeros)
  with d len assms have "parse_int64 (fmt03 code) = Some code"
    by (subst parse_int64_digits) (auto simp: max_int64_def)
  with d len show ?thesis by simp
qed

lemma takeWhile_upto: "LF \<notin> set a \<Longrightarrow> takeWhile (\<lambda>c. c \<noteq> LF) (a @ LF # b) = a"
  by (induction a) auto

lemma drain_line_append: "LF \<notin> set a \<Longrightarrow> drain_line (a @ LF # b) = b"
  by (induction a) auto

lemma trim_crlf:
  assumes "s \<noteq> []" "\<not> is_crlf (last s)"
  shows "trim_right_by is_crlf (s @ [CR, LF]) = s"
  using assms trim_right_by_id[of s is_crlf] by (simp add: trim_right_by_def is_crlf_def)

definition reply_line :: "bytes \<Rightarrow> bool" where
  "reply_line l = (LF \<notin> set l \<and> (l = [] \<or> last l \<noteq> CR))"

lemma read_reply_step:
  assumes code: "0 \<le> code" "code < 1000" and l: "reply_line l" and sep: "sep = SP \<or> sep = CHR ''-''"
  shows "read_reply_loop acc (fmt03 code @ sep # l @ [CR, LF] @ rest) =
    (let acc' = acc @ [fmt03 code @ sep # l] in
     if sep = SP then (Inr (code, acc'), acc', rest) else read_reply_loop acc' rest)"
proof -
  let ?raw = "fmt03 code @ sep # l"
  from fmt03_code[OF code] have len: "length (fmt03 code) = 3" and dig: "list_all is_digit (fmt03 code)"
    and p: "parse_int64 (fmt03 code) = Some code" by auto
  have nolf: "LF \<notin> set (fmt03 code)" using dig by (auto simp: list_all_iff is_digit_def byte_val_def)
  then have nolf2: "LF \<notin> set (?raw @ [CR])" using l sep by (auto simp: reply_line_def)
  have inp: "fmt03 code @ sep # l @ [CR, LF] @ rest = (?raw @ [CR]) @ LF # rest" by simp
  have "\<not> is_crlf (last ?raw)" using l sep by (auto simp: reply_line_def is_crlf_def dest: last_in_set)
  then have tr: "trim_right_by is_crlf ((?raw @ [CR]) @ [LF]) = ?raw"
    using trim_crlf[of ?raw] by simp
  have "take 3 ?raw = fmt03 code" "?raw ! 3 = sep" "length ?raw \<noteq> 3" "\<not> length ?raw < 3"
    using len by (simp_all add: nth_append)
  then show ?thesis
    unfolding inp using sep p
    by (subst read_reply_loop.simps)
       (simp only: takeWhile_upto[OF nolf2] drain_line_append[OF nolf2] tr, auto simp: Let_def)
qed

fun reply_raws :: "int \<Rightarrow> bytes list \<Rightarrow> bytes list" where
  "reply_raws code [] = []"
| "reply_raws code [l] = [fmt03 code @ SP # l]"
| "reply_raws code (l # m # ls) = (fmt03 code @ CHR ''-'' # l) # reply_raws code (m # ls)"

lemma read_format_lines:
  assumes "0 \<le> code" "code < 1000" "lines \<noteq> []" "\<forall>l\<in>set lines. reply_line l"
  shows "read_reply_loop acc (format_lines code lines @ rest) =
           (Inr (code, acc @ reply_raws code lines), acc @ reply_raws code lines, rest)"
  using assms(3,4)
proof (induction lines arbitrary: acc rule: induct_list012)
  case (2 l)
  then show ?case using read_reply_step[OF assms(1,2), of l SP acc rest] by (simp add: Let_def)
next
  case (3 l m ls)
  then show ?case
    using read_reply_step[OF assms(1,2), of l "CHR ''-''" acc "format_lines code (m # ls) @ rest"]
    by (simp add: Let_def)
qed simp

lemma reply_text_raws:
  assumes "0 \<le> code" "code < 1000"
  shows "reply_text (reply_raws code lines) = join [LF] lines"
proof -
  have "map (\<lambda>ln. if length ln \<ge> 4 then drop 4 ln else ln) (reply_raws code lines) = lines"
    using fmt03_code[OF assms] by (induction lines rule: induct_list012) auto
  then show ?thesis by (simp add: reply_text_def)
qed

text \<open>What \<^verbatim>\<open>FormatReply\<close> writes for any three-digit code and any lines free of LF and of a
  trailing CR, the transcript client reads back: the code, as many lines as were sent, nothing of
  the bytes that follow, and their text is the lines joined.\<close>

lemma reply_roundtrip:
  assumes "0 \<le> code" "code < 1000" "\<forall>l\<in>set lines. reply_line l" "lines \<noteq> []"
  shows "\<exists>raws. read_reply_loop [] (format_reply code lines @ rest) = (Inr (code, raws), raws, rest)
           \<and> length raws = length lines \<and> reply_text raws = join [LF] lines"
proof -
  have "length (reply_raws code lines) = length lines"
    by (induction lines rule: induct_list012) auto
  with assms show ?thesis
    using read_format_lines[of code lines "[]" rest]
    by (simp add: format_reply_def reply_text_raws)
qed

theorem reply_roundtrip_witness:
  "\<exists>raws. read_reply_loop [] (format_reply 250 [''lab.test'', ''SIZE 1024''] @ ''220 x'')
       = (Inr (250, raws), raws, ''220 x'')
     \<and> length raws = length [''lab.test'', ''SIZE 1024'']
     \<and> reply_text raws = join [LF] [''lab.test'', ''SIZE 1024'']"
  by (rule reply_roundtrip) (simp_all add: reply_line_def)

section \<open>Command words\<close>

lemma split_verb_upper: "to_upper (fst (split_verb s)) = fst (split_verb s)"
  by (auto simp: split_verb_def Let_def to_upper_def split: list.splits)

lemma upper_not_blank: "is_blank (upper_char c) \<longleftrightarrow> is_blank c"
proof -
  have blank: "is_blank x \<longleftrightarrow> byte_val x = 32 \<or> byte_val x = 9" for x
    using byte_val_inj[of x SP] byte_val_inj[of x TAB] by (auto simp: is_blank_def byte_val_def)
  have "byte_val (upper_char c) = (if 97 \<le> byte_val c \<and> byte_val c \<le> 122 then byte_val c - 32 else byte_val c)"
    by (auto simp: upper_char_def Let_def intro!: byte_val_char_of)
  then show ?thesis by (auto simp: blank)
qed

lemma split_verb_no_blank: "c \<in> set (fst (split_verb s)) \<Longrightarrow> \<not> is_blank c"
  by (auto simp: split_verb_def Let_def to_upper_def upper_not_blank dropWhile_eq_Nil_conv
      split: list.splits if_splits dest: set_takeWhileD)

end
