(* ===== verification/Mail_Model.thy ===== *)
theory Mail_Model
  imports Prelude
begin

text \<open>
  The data of \<^verbatim>\<open>internal/model\<close>: captured messages, list queries, the desired-state document
  with its SMTP behaviour overrides, and the plan/apply envelope.  Times are nanoseconds since
  Go's zero time, so \<^verbatim>\<open>IsZero\<close> is \<open>= 0\<close>; durations are nanoseconds; a pointer that may be nil
  is an option.
\<close>

section \<open>Messages\<close>

record header =
  hd_name :: bytes
  hd_value :: bytes

record address =
  ad_name :: bytes
  ad_address :: bytes

record envelope =
  env_from :: bytes
  env_to :: "bytes list"
  env_helo :: bytes
  env_remote :: bytes
  env_tls :: bool
  env_auth_user :: bytes

record attachment =
  at_id :: bytes
  at_filename :: bytes
  at_content_type :: bytes
  at_content_id :: bytes
  at_disposition :: bytes
  at_size :: int
  at_checksum :: bytes
  at_data :: bytes

record message =
  msg_id :: bytes
  received_at :: int
  msg_envelope :: envelope
  msg_headers :: "header list"
  msg_subject :: bytes
  msg_from :: "address list"
  msg_to :: "address list"
  msg_cc :: "address list"
  msg_bcc :: "address list"
  msg_reply_to :: "address list"
  msg_message_id :: bytes
  msg_in_reply_to :: bytes
  msg_date :: int
  msg_text :: bytes
  msg_html :: bytes
  msg_raw :: bytes
  msg_size :: int
  msg_read :: bool
  msg_priority :: bytes
  msg_parse_warning :: bytes
  msg_attachments :: "attachment list"

definition empty_envelope :: envelope where
  "empty_envelope = \<lparr> env_from = [], env_to = [], env_helo = [], env_remote = [], env_tls = False,
     env_auth_user = [] \<rparr>"

definition empty_message :: message where
  "empty_message = \<lparr> msg_id = [], received_at = 0, msg_envelope = empty_envelope, msg_headers = [],
     msg_subject = [], msg_from = [], msg_to = [], msg_cc = [], msg_bcc = [], msg_reply_to = [],
     msg_message_id = [], msg_in_reply_to = [], msg_date = 0, msg_text = [], msg_html = [],
     msg_raw = [], msg_size = 0, msg_read = False, msg_priority = [], msg_parse_warning = [],
     msg_attachments = [] \<rparr>"

record insert_result =
  ir_id :: bytes
  ir_generation :: nat

record message_filter =
  f_to :: bytes
  f_from :: bytes
  f_subject :: bytes
  f_subject_contains :: bytes
  f_unread :: "bool option"
  f_after :: int
  f_before :: int

record list_query =
  q_filter :: message_filter
  q_cursor :: bytes
  q_limit :: int

record list_result =
  lr_items :: "message list"
  lr_next :: bytes
  lr_generation :: nat

record store_stats =
  st_count :: nat
  st_bytes :: int
  st_unread :: nat
  st_generation :: nat
  st_epoch :: nat
  st_evictions :: nat

definition empty_filter :: message_filter where
  "empty_filter = \<lparr> f_to = [], f_from = [], f_subject = [], f_subject_contains = [],
     f_unread = None, f_after = 0, f_before = 0 \<rparr>"

definition attachment_bytes :: "attachment \<Rightarrow> int" where
  "attachment_bytes a = (if at_data a \<noteq> [] then int (length (at_data a)) else at_size a)"

definition resident_bytes :: "message \<Rightarrow> int" where
  "resident_bytes m =
     (if msg_raw m = [] then msg_size m else int (length (msg_raw m)))
     + int (length (msg_text m)) + int (length (msg_html m))
     + sum_list (map attachment_bytes (msg_attachments m))"

text \<open>Sizes recorded in the message are lengths, hence not negative.\<close>

definition sizes_ok :: "message \<Rightarrow> bool" where
  "sizes_ok m = (0 \<le> msg_size m \<and> list_all (\<lambda>a. 0 \<le> at_size a) (msg_attachments m))"

lemma attachment_bytes_nonneg: "0 \<le> at_size a \<Longrightarrow> 0 \<le> attachment_bytes a"
  by (simp add: attachment_bytes_def)

lemma resident_bytes_nonneg:
  assumes "sizes_ok m"
  shows "0 \<le> resident_bytes m"
proof -
  have "0 \<le> sum_list (map attachment_bytes (msg_attachments m))"
    using assms by (auto simp: sizes_ok_def list_all_iff intro!: sum_list_nonneg attachment_bytes_nonneg)
  then show ?thesis using assms by (simp add: resident_bytes_def sizes_ok_def)
qed

section \<open>The desired-state document\<close>

record mgmt_tls =
  mt_enabled :: bool
  mt_cert_file :: bytes
  mt_key_file :: bytes

record listeners_spec =
  ls_smtp_address :: bytes
  ls_mgmt_address :: bytes
  ls_rest_path :: bytes
  ls_mcp_path :: bytes
  ls_compat_enabled :: bool
  ls_tls :: mgmt_tls

record reply_overrides =
  ro_greeting :: bytes
  ro_helo :: bytes
  ro_ehlo :: bytes
  ro_mail :: bytes
  ro_rcpt :: bytes
  ro_data :: bytes
  ro_data_end :: bytes
  ro_rset :: bytes
  ro_noop :: bytes
  ro_vrfy :: bytes
  ro_auth :: bytes
  ro_starttls :: bytes
  ro_unknown :: bytes

record smtp_behavior =
  bh_greeting_delay :: int
  bh_command_delay :: int
  bh_drop_on_connect :: bool
  bh_close_after_verb :: bytes
  bh_replies :: reply_overrides

record smtp_auth =
  sa_mode :: bytes
  sa_username :: bytes
  sa_password_file :: bytes

record smtp_tls =
  tl_mode :: bytes
  tl_required :: bool
  tl_cert_file :: bytes
  tl_key_file :: bytes

record admission_spec =
  adm_max_sessions :: int
  adm_max_sessions_per_ip :: int
  adm_max_in_flight_data :: int
  adm_max_in_flight_data_bytes :: int
  adm_session_timeout :: int
  adm_command_idle :: int
  adm_data_idle :: int

record smtp_spec =
  sm_hostname :: bytes
  sm_max_message_bytes :: int
  sm_max_recipients :: int
  sm_hide_extensions :: "bytes list"
  sm_auth :: smtp_auth
  sm_tls :: smtp_tls
  sm_admission :: admission_spec
  sm_behavior :: smtp_behavior

record store_spec =
  ss_max_messages :: int
  ss_max_bytes :: int
  ss_full_policy :: bytes
  ss_max_wait :: int
  ss_spill_directory :: bytes
  ss_spill_threshold :: int

record token_spec =
  tk_id :: bytes
  tk_secret_file :: bytes
  tk_role :: bytes
  tk_scopes :: "bytes list"

record basic_spec =
  bs_username :: bytes
  bs_password_file :: bytes
  bs_token_ref :: bytes

record mgmt_auth =
  ma_mode :: bytes
  ma_tokens :: "token_spec list"
  ma_basic :: basic_spec

record mgmt_spec =
  mg_auth :: mgmt_auth
  mg_allow_legacy :: bool
  mg_origin_allowlist :: "bytes list"
  mg_body_limit :: int
  mg_requests_per_second :: int
  mg_burst :: int
  mg_max_concurrent :: int

record obs_spec =
  ob_log_level :: bytes
  ob_metrics_listen :: bytes
  ob_metrics_public :: bool
  ob_audit_ring :: int

record spec =
  sp_listeners :: listeners_spec
  sp_smtp :: smtp_spec
  sp_store :: store_spec
  sp_ui_enabled :: bool
  sp_management :: mgmt_spec
  sp_observability :: obs_spec

record state_doc =
  sd_api_version :: bytes
  sd_kind :: bytes
  sd_name :: bytes
  sd_labels :: "(bytes \<times> bytes) list"
  sd_spec :: spec

definition known_scope :: "bytes \<Rightarrow> bool" where
  "known_scope s = (s \<in> {''mail.read'', ''mail.write'', ''mail.admin'', ''mail.audit.read''})"

definition known_role :: "bytes \<Rightarrow> bool" where
  "known_role r = (r \<in> {''viewer'', ''operator'', ''administrator''})"

section \<open>Plan and apply\<close>

record store_caps =
  sc_max_messages :: int
  sc_max_bytes :: int
  sc_full_policy :: bytes

record operation =
  op_name :: bytes
  op_auth :: "smtp_auth option"
  op_store :: "store_caps option"
  op_hide :: "bytes list option"
  op_admission :: "admission_spec option"
  op_behavior :: "smtp_behavior option"

record change_set =
  cs_expected :: bytes
  cs_key :: bytes
  cs_reason :: bytes
  cs_force :: bool
  cs_operations :: "operation list"

definition known_op :: "bytes \<Rightarrow> bool" where
  "known_op s = (s \<in> {''replaceSMTPAuth'', ''replaceStoreCaps'', ''replaceHideExtensions'',
     ''replaceAdmission'', ''replaceSMTPBehavior''})"

record revision_status =
  rs_bootstrap :: bytes
  rs_runtime :: bytes
  rs_generation :: nat
  rs_store_generation :: nat
  rs_drifted :: bool
  rs_message_count :: nat
  rs_store_bytes :: int
  rs_loaded_at :: bytes

section \<open>SMTP behaviour overrides\<close>

definition MaxSMTPBehaviorDelay :: int where "MaxSMTPBehaviorDelay = 30 * 1000000000"

definition smtp_behavior_verbs :: "bytes list" where
  "smtp_behavior_verbs = [''GREETING'', ''HELO'', ''EHLO'', ''MAIL'', ''RCPT'', ''DATA'',
     ''DATA-END'', ''RSET'', ''NOOP'', ''VRFY'', ''AUTH'', ''STARTTLS'', ''UNKNOWN'']"

definition ctl_char :: "char \<Rightarrow> bool" where
  "ctl_char c = (byte_val c < 32 \<or> byte_val c = 127)"

text \<open>The errors are the three messages of \<^verbatim>\<open>ParseSMTPReplyLine\<close>.\<close>

definition parse_smtp_reply_line :: "bytes \<Rightarrow> bytes + (int \<times> bytes)" where
  "parse_smtp_reply_line raw0 = (let raw = trim_space raw0 in
     if raw = [] then Inl ''empty reply''
     else if list_ex ctl_char raw then Inl ''reply must be a single line without control characters''
     else let (code_part, rest, _) = cut SP raw in
       if length code_part \<noteq> 3 then Inl ''reply must start with a 3-digit SMTP code''
       else case parse_int64 code_part of
           None \<Rightarrow> Inl ''reply code must be 200-599''
         | Some n \<Rightarrow> if n < 200 \<or> n > 599 then Inl ''reply code must be 200-599''
                     else Inr (n, trim_space rest))"

definition known_smtp_behavior_verb :: "bytes \<Rightarrow> bool" where
  "known_smtp_behavior_verb v = list_ex (\<lambda>k. to_upper (trim_space v) = k) smtp_behavior_verbs"

definition reply_override :: "smtp_behavior \<Rightarrow> bytes \<Rightarrow> bytes" where
  "reply_override b verb = (let v = to_upper (trim_space verb); r = bh_replies b in
     if v = ''GREETING'' then ro_greeting r
     else if v = ''HELO'' then ro_helo r
     else if v = ''EHLO'' then ro_ehlo r
     else if v = ''MAIL'' then ro_mail r
     else if v = ''RCPT'' then ro_rcpt r
     else if v = ''DATA'' then ro_data r
     else if v = ''DATA-END'' then ro_data_end r
     else if v = ''RSET'' then ro_rset r
     else if v = ''NOOP'' then ro_noop r
     else if v = ''VRFY'' then ro_vrfy r
     else if v = ''AUTH'' then ro_auth r
     else if v = ''STARTTLS'' then ro_starttls r
     else if v = ''UNKNOWN'' then ro_unknown r
     else [])"

lemma parse_smtp_reply_line_ok:
  assumes "parse_smtp_reply_line raw = Inr (n, t)"
  shows "200 \<le> n \<and> n \<le> 599 \<and> \<not> list_ex ctl_char t"
proof -
  obtain a b ok where c: "cut SP (trim_space raw) = (a, b, ok)" by (cases "cut SP (trim_space raw)") auto
  from assms c have r: "200 \<le> n" "n \<le> 599" and t: "t = trim_space b"
    and k: "\<not> list_ex ctl_char (trim_space raw)"
    by (auto simp: parse_smtp_reply_line_def Let_def split: if_splits option.splits)
  have "set b \<subseteq> set (trim_space raw)"
    using c cut_found[of SP "trim_space raw" a b] cut_absent[of SP "trim_space raw" a b]
    by (cases ok) auto
  then have "set t \<subseteq> set (trim_space raw)"
    using set_trim_by[of is_space b] unfolding t trim_space_def by blast
  with k r show ?thesis by (auto simp: list_ex_iff)
qed

end
