(* ===== verification/Gate.thy ===== *)
theory Gate
  imports Mail_Model "HOL-Library.Multiset"
begin

text \<open>
  The admission gate of \<^verbatim>\<open>internal/smtp/server/admit.go\<close>: the counters that bound concurrent
  sessions and in-flight DATA.  The byte budget is a Go \<^verbatim>\<open>int64\<close> whose addition wraps; session
  counts are bounded by memory and are mathematical integers.  An address is \<open>None\<close> when
  \<^verbatim>\<open>netip.Addr.IsValid\<close> is false.
\<close>

section \<open>The gate\<close>

type_synonym ip = "bytes option"

record gate =
  g_sessions :: int
  g_per_ip :: "bytes \<Rightarrow> int option"
  g_inflight :: int
  g_reserved :: int

datatype gate_error = TooManySessions | TooManyInFlight | InFlightBytes

definition new_gate :: gate where
  "new_gate = \<lparr> g_sessions = 0, g_per_ip = (\<lambda>_. None), g_inflight = 0, g_reserved = 0 \<rparr>"

definition ip_count :: "gate \<Rightarrow> bytes \<Rightarrow> int" where
  "ip_count g a = (case g_per_ip g a of None \<Rightarrow> 0 | Some n \<Rightarrow> n)"

definition acquire :: "ip \<Rightarrow> admission_spec \<Rightarrow> gate \<Rightarrow> gate_error + gate" where
  "acquire ip ad g =
    (if adm_max_sessions ad > 0 \<and> g_sessions g \<ge> adm_max_sessions ad then Inl TooManySessions
     else if (case ip of None \<Rightarrow> False
              | Some a \<Rightarrow> adm_max_sessions_per_ip ad > 0 \<and> ip_count g a \<ge> adm_max_sessions_per_ip ad)
       then Inl TooManySessions
     else Inr (g \<lparr> g_sessions := g_sessions g + 1,
                   g_per_ip := (case ip of None \<Rightarrow> g_per_ip g
                                | Some a \<Rightarrow> (g_per_ip g)(a \<mapsto> ip_count g a + 1)) \<rparr>))"

definition release :: "ip \<Rightarrow> gate \<Rightarrow> gate" where
  "release ip g = g \<lparr>
     g_sessions := (if g_sessions g > 0 then g_sessions g - 1 else g_sessions g),
     g_per_ip := (case ip of None \<Rightarrow> g_per_ip g
        | Some a \<Rightarrow> let n = ip_count g a - 1 in
            if n \<le> 0 then (g_per_ip g)(a := None) else (g_per_ip g)(a \<mapsto> n)) \<rparr>"

definition reserve_data :: "int \<Rightarrow> admission_spec \<Rightarrow> gate \<Rightarrow> gate_error + gate" where
  "reserve_data n0 ad g = (let n = (if n0 < 0 then 0 else n0) in
     if adm_max_in_flight_data ad > 0 \<and> g_inflight g \<ge> adm_max_in_flight_data ad then Inl TooManyInFlight
     else if adm_max_in_flight_data_bytes ad > 0
            \<and> wrap64 (g_reserved g + n) > adm_max_in_flight_data_bytes ad then Inl InFlightBytes
     else Inr (g \<lparr> g_inflight := g_inflight g + 1, g_reserved := wrap64 (g_reserved g + n) \<rparr>))"

definition release_data :: "int \<Rightarrow> gate \<Rightarrow> gate" where
  "release_data n0 g = (let n = (if n0 < 0 then 0 else n0); r = wrap64 (g_reserved g - n) in
     g \<lparr> g_inflight := (if g_inflight g > 0 then g_inflight g - 1 else g_inflight g),
         g_reserved := (if r < 0 then 0 else r) \<rparr>)"

section \<open>What the counters count\<close>

text \<open>
  \<open>gate_run B g S R\<close>: the gate \<open>g\<close> can be reached when \<open>S\<close> are the addresses of the sessions that
  hold a slot and \<open>R\<close> the byte reservations of the transactions in flight, whatever admission
  spec each call used, as long as every reservation succeeded under a positive byte cap that
  leaves room for one more request of its size below \<open>B\<close>.
\<close>

inductive gate_run :: "int \<Rightarrow> gate \<Rightarrow> ip multiset \<Rightarrow> int multiset \<Rightarrow> bool" for B where
  run_new: "gate_run B new_gate {#} {#}"
| run_acquire: "\<lbrakk> gate_run B g S R; acquire ip ad g = Inr g' \<rbrakk> \<Longrightarrow> gate_run B g' (add_mset ip S) R"
| run_release: "\<lbrakk> gate_run B g S R; ip \<in># S \<rbrakk> \<Longrightarrow> gate_run B (release ip g) (S - {#ip#}) R"
| run_reserve: "\<lbrakk> gate_run B g S R; reserve_data n ad g = Inr g';
      0 < adm_max_in_flight_data_bytes ad; adm_max_in_flight_data_bytes ad \<le> B; B + n \<le> max_int64 \<rbrakk>
    \<Longrightarrow> gate_run B g' S (add_mset (max 0 n) R)"
| run_release_data: "\<lbrakk> gate_run B g S R; n \<in># R \<rbrakk> \<Longrightarrow> gate_run B (release_data n g) S (R - {#n#})"

definition counts_ok :: "gate \<Rightarrow> ip multiset \<Rightarrow> bool" where
  "counts_ok g S \<longleftrightarrow> g_sessions g = int (size S)
     \<and> (\<forall>a. ip_count g a = int (count S (Some a)) \<and> g_per_ip g a \<noteq> Some 0)"

definition budget_ok :: "int \<Rightarrow> gate \<Rightarrow> int multiset \<Rightarrow> bool" where
  "budget_ok B g R \<longleftrightarrow> g_inflight g = int (size R) \<and> g_reserved g = sum_mset R
     \<and> sum_mset R \<le> max 0 B \<and> (\<forall>n\<in>#R. 0 \<le> n)"

lemma acquire_shape:
  assumes "acquire ip ad g = Inr g'"
  shows "g_sessions g' = g_sessions g + 1 \<and> g_inflight g' = g_inflight g \<and> g_reserved g' = g_reserved g
    \<and> (\<forall>a. ip_count g' a = ip_count g a + (if ip = Some a then 1 else 0)
          \<and> g_per_ip g' a = (if ip = Some a then Some (ip_count g a + 1) else g_per_ip g a))"
proof (cases ip)
  case None
  with assms have "g' = g \<lparr> g_sessions := g_sessions g + 1 \<rparr>" by (simp add: acquire_def split: if_splits)
  with None show ?thesis by (simp add: ip_count_def)
next
  case (Some a)
  with assms have "g' = g \<lparr> g_sessions := g_sessions g + 1, g_per_ip := (g_per_ip g)(a \<mapsto> ip_count g a + 1) \<rparr>"
    by (simp add: acquire_def split: if_splits)
  with Some show ?thesis by (simp add: ip_count_def)
qed

lemma acquire_ok_counts:
  assumes "acquire ip ad g = Inr g'" "counts_ok g S"
  shows "counts_ok g' (add_mset ip S)"
  using acquire_shape[OF assms(1)] assms(2) by (auto simp: counts_ok_def)

lemma release_counts:
  assumes "counts_ok g S" "ip \<in># S"
  shows "counts_ok (release ip g) (S - {#ip#})"
proof -
  have pos: "0 < size S" using assms(2) by (metis multi_member_split size_add_mset zero_less_Suc)
  have n0: "g_per_ip g a \<noteq> Some 0" for a using assms(1) by (simp add: counts_ok_def)
  show ?thesis
  proof (cases ip)
    case None
    then show ?thesis using assms pos
      by (auto simp: counts_ok_def release_def ip_count_def size_Diff_singleton)
  next
    case (Some a)
    have ca: "0 < count S (Some a)" using assms(2) Some by simp
    have ip: "ip_count (release ip g) b = int (count (S - {#ip#}) (Some b))
        \<and> g_per_ip (release ip g) b \<noteq> Some 0" for b
    proof (cases "b = a")
      case True
      have "ip_count g a = int (count S (Some a))" using assms(1) by (simp add: counts_ok_def)
      moreover obtain k where "count S (Some a) = Suc k" using ca gr0_conv_Suc by blast
      ultimately show ?thesis using True Some by (auto simp: release_def ip_count_def Let_def)
    next
      case False
      have "ip_count g b = int (count S (Some b))" using assms(1) by (simp add: counts_ok_def)
      then show ?thesis using False Some n0[of b] by (auto simp: release_def ip_count_def Let_def)
    qed
    have "g_sessions (release ip g) = int (size (S - {#ip#}))"
      using assms pos by (simp add: counts_ok_def release_def size_Diff_singleton)
    with ip show ?thesis by (simp add: counts_ok_def)
  qed
qed

lemma reserve_counts:
  "reserve_data n ad g = Inr g' \<Longrightarrow> counts_ok g S \<Longrightarrow> counts_ok g' S"
  by (auto simp: reserve_data_def counts_ok_def ip_count_def Let_def split: if_splits)

lemma release_data_counts: "counts_ok g S \<Longrightarrow> counts_ok (release_data n g) S"
  by (auto simp: release_data_def counts_ok_def ip_count_def Let_def)

lemma sum_mset_nonneg_int: "\<forall>n\<in>#R. 0 \<le> (n::int) \<Longrightarrow> 0 \<le> sum_mset R"
  by (induction R) auto

lemma reserve_budget:
  assumes r: "reserve_data n ad g = Inr g'" and b: "budget_ok B g R"
    and cap: "0 < adm_max_in_flight_data_bytes ad" "adm_max_in_flight_data_bytes ad \<le> B" "B + n \<le> max_int64"
    and B: "B \<le> max_int64"
  shows "budget_ok B g' (add_mset (max 0 n) R)"
proof -
  let ?n = "max 0 n"
  have n: "(if n < 0 then 0 else n) = ?n" by simp
  have s0: "0 \<le> sum_mset R" using b by (auto simp: budget_ok_def intro: sum_mset_nonneg_int)
  have sB: "sum_mset R \<le> B" "g_reserved g = sum_mset R" using b cap by (auto simp: budget_ok_def)
  have "sum_mset R + ?n \<le> max_int64" using sB cap s0 B by (cases "n < 0") auto
  then have w: "wrap64 (sum_mset R + ?n) = sum_mset R + ?n" using s0 by (simp add: min_int64_def)
  have "g' = g \<lparr> g_inflight := g_inflight g + 1, g_reserved := sum_mset R + ?n \<rparr> \<and> sum_mset R + ?n \<le> B"
    using r cap(1,2) unfolding reserve_data_def n Let_def sB(2) w by (auto split: if_splits)
  then show ?thesis using b by (auto simp: budget_ok_def)
qed

lemma release_data_budget:
  assumes b: "budget_ok B g R" and n: "n \<in># R" and B: "B \<le> max_int64"
  shows "budget_ok B (release_data n g) (R - {#n#})"
proof -
  obtain R' where R: "R = add_mset n R'" using n by (meson multi_member_split)
  have n0: "0 \<le> n" and R0: "\<forall>x\<in>#R'. 0 \<le> x" using b R by (auto simp: budget_ok_def)
  have s: "0 \<le> sum_mset R'" using R0 by (rule sum_mset_nonneg_int)
  have le: "n + sum_mset R' \<le> max 0 B" using b R by (simp add: budget_ok_def)
  have "wrap64 (g_reserved g - n) = sum_mset R'"
    using b R s le n0 B by (simp add: budget_ok_def max_def int64_bounds split: if_splits)
  then show ?thesis using b R n0 R0 s le by (auto simp: budget_ok_def release_data_def Let_def)
qed

lemma gate_run_inv:
  "gate_run B g S R \<Longrightarrow> B \<le> max_int64 \<Longrightarrow> counts_ok g S \<and> budget_ok B g R"
proof (induction rule: gate_run.induct)
  case run_new
  then show ?case by (simp add: counts_ok_def budget_ok_def new_gate_def ip_count_def)
next
  case (run_acquire g S R ip ad g')
  then show ?case using acquire_ok_counts acquire_shape by (auto simp: budget_ok_def)
next
  case (run_release g S R ip)
  moreover have "budget_ok B (release ip g) R = budget_ok B g R" by (simp add: budget_ok_def release_def)
  ultimately show ?case using release_counts by simp
next
  case (run_reserve g S R n ad g')
  then show ?case by (auto intro: reserve_counts reserve_budget)
next
  case (run_release_data g S R n)
  then show ?case by (auto intro: release_data_counts release_data_budget)
qed

text \<open>The gate's counters are exactly what they stand for: after any interleaving of calls the
  session counter is the number of sessions holding a slot, each address's counter is the number
  of its sessions (an address with none has no entry, so the map does not leak), and the in-flight
  counters are the number and the sum of the outstanding reservations, within the largest cap.\<close>

lemma gate_counts:
  assumes "gate_run B g S R" "B \<le> max_int64"
  shows "g_sessions g = int (size S) \<and> (\<forall>a. ip_count g a = int (count S (Some a)) \<and> (g_per_ip g a = None \<longleftrightarrow> Some a \<notin># S))
    \<and> g_inflight g = int (size R) \<and> g_reserved g = sum_mset R \<and> sum_mset R \<le> max 0 B"
proof -
  have inv: "counts_ok g S" "budget_ok B g R" using gate_run_inv[OF assms] by auto
  have "g_per_ip g a = None \<longleftrightarrow> Some a \<notin># S" for a
  proof -
    have "ip_count g a = int (count S (Some a))" "g_per_ip g a \<noteq> Some 0"
      using inv(1) by (auto simp: counts_ok_def)
    then show ?thesis by (auto simp: ip_count_def count_eq_zero_iff[symmetric] split: option.splits)
  qed
  with inv show ?thesis by (auto simp: counts_ok_def budget_ok_def)
qed

definition demo_admission :: admission_spec where
  "demo_admission = \<lparr> adm_max_sessions = 2, adm_max_sessions_per_ip = 1, adm_max_in_flight_data = 4,
     adm_max_in_flight_data_bytes = 100, adm_session_timeout = 0, adm_command_idle = 0, adm_data_idle = 0 \<rparr>"

lemma demo_gate_run:
  "gate_run 100 \<lparr> g_sessions = 1, g_per_ip = [''10.0.0.1'' \<mapsto> 1], g_inflight = 1, g_reserved = 60 \<rparr>
     {#Some ''10.0.0.1''#} {#60#}"
proof -
  let ?g = "\<lparr> g_sessions = 1, g_per_ip = [''10.0.0.1'' \<mapsto> 1], g_inflight = 0, g_reserved = 0 \<rparr>"
  have "gate_run 100 ?g {#Some ''10.0.0.1''#} {#}"
    by (rule run_acquire[OF run_new, of _ demo_admission])
       (simp add: acquire_def new_gate_def demo_admission_def ip_count_def)
  from run_reserve[OF this, of 60 demo_admission] show ?thesis
    by (simp add: reserve_data_def demo_admission_def int64_bounds)
qed

theorem gate_counts_witness:
  "g_reserved \<lparr> g_sessions = 1, g_per_ip = [''10.0.0.1'' \<mapsto> 1], g_inflight = 1, g_reserved = 60 \<rparr>
     = sum_mset {#60#} \<and> sum_mset {#60::int#} \<le> max 0 100"
  using gate_counts[OF demo_gate_run] by (simp add: int64_bounds)

text \<open>Admission bounds: whatever \<^verbatim>\<open>acquire\<close> and \<^verbatim>\<open>reserveData\<close> let through is within the caps
  of the spec they were called with, and they refuse only when a cap is reached; a refusal changes
  nothing.\<close>

lemma admission_bounds:
  assumes "gate_run B g S R" "B \<le> max_int64"
  shows "(acquire ip ad g = Inr g' \<longrightarrow>
            (0 < adm_max_sessions ad \<longrightarrow> int (size S) + 1 \<le> adm_max_sessions ad)
            \<and> (\<forall>a. ip = Some a \<longrightarrow> 0 < adm_max_sessions_per_ip ad \<longrightarrow>
                 int (count S ip) + 1 \<le> adm_max_sessions_per_ip ad))
    \<and> (acquire ip ad g = Inl e \<longrightarrow>
            (0 < adm_max_sessions ad \<and> adm_max_sessions ad \<le> int (size S))
            \<or> (ip \<noteq> None \<and> 0 < adm_max_sessions_per_ip ad \<and> adm_max_sessions_per_ip ad \<le> int (count S ip)))
    \<and> (reserve_data n ad g = Inr g' \<longrightarrow> 0 < adm_max_in_flight_data ad \<longrightarrow>
            int (size R) + 1 \<le> adm_max_in_flight_data ad)"
  using gate_run_inv[OF assms]
  by (auto simp: acquire_def reserve_data_def counts_ok_def budget_ok_def Let_def split: if_splits option.splits)

theorem admission_bounds_witness:
  "int (size {#Some ''10.0.0.1''#}) + 1 \<le> adm_max_sessions demo_admission"
proof -
  let ?g = "\<lparr> g_sessions = 1, g_per_ip = [''10.0.0.1'' \<mapsto> 1], g_inflight = 1, g_reserved = 60 \<rparr>"
  have "acquire (Some ''10.0.0.2'') demo_admission ?g
      = Inr (?g \<lparr> g_sessions := 2, g_per_ip := [''10.0.0.1'' \<mapsto> 1, ''10.0.0.2'' \<mapsto> 1] \<rparr>)"
    by (simp add: acquire_def demo_admission_def ip_count_def)
  moreover have "0 < adm_max_sessions demo_admission" by (simp add: demo_admission_def)
  ultimately show ?thesis using admission_bounds[OF demo_gate_run, of "Some ''10.0.0.2''" demo_admission]
    by (simp add: int64_bounds)
qed

text \<open>The byte budget is checked after an addition that wraps at 64 bits: with a cap near the
  largest \<^verbatim>\<open>int64\<close> two reservations that together exceed the cap are both admitted.\<close>

lemma reserve_overflow:
  "\<exists>ad g1 g2. reserve_data max_int64 ad new_gate = Inr g1 \<and> reserve_data max_int64 ad g1 = Inr g2
     \<and> 0 < adm_max_in_flight_data_bytes ad \<and> adm_max_in_flight_data_bytes ad < max_int64 + max_int64
     \<and> g_reserved g2 = - 2"
proof -
  let ?ad = "demo_admission \<lparr> adm_max_in_flight_data_bytes := max_int64 \<rparr>"
  let ?g1 = "new_gate \<lparr> g_inflight := 1, g_reserved := max_int64 \<rparr>"
  have "reserve_data max_int64 ?ad new_gate = Inr ?g1"
    by (simp add: reserve_data_def demo_admission_def new_gate_def int64_bounds wrap64_def)
  moreover have "reserve_data max_int64 ?ad ?g1 = Inr (new_gate \<lparr> g_inflight := 2, g_reserved := - 2 \<rparr>)"
    by (simp add: reserve_data_def demo_admission_def new_gate_def int64_bounds wrap64_def)
  moreover have "0 < adm_max_in_flight_data_bytes ?ad" "adm_max_in_flight_data_bytes ?ad < max_int64 + max_int64"
    by (simp_all add: int64_bounds)
  moreover have "g_reserved (new_gate \<lparr> g_inflight := 2, g_reserved := - 2 \<rparr>) = - 2" by simp
  ultimately show ?thesis by blast
qed

end
