(* ===== verification/Spill.thy ===== *)
theory Spill
  imports Mail_Model
begin

text \<open>
  The spill files of \<^verbatim>\<open>internal/store/memory.go\<close>: large bodies are written to temporary files
  before the index lock is taken, renamed under it, read back on demand and unlinked with their
  record.  The file system is a list of paths with their bytes; a path is the directory and the
  name that \<^verbatim>\<open>filepath.Join\<close> puts together.  What the operating system may refuse is an \<open>io\<close>
  record, an argument of every operation: which calls succeed, and what a failed write leaves
  behind.
\<close>

section \<open>Errors of the store\<close>

datatype store_error =
    ErrFull | ErrStaleEpoch | ErrTooLarge | ErrNotFound | ErrSpill bytes | ErrOverNewCap
  | ErrCtx | ErrOther bytes

section \<open>Files\<close>

text \<open>Paths are pairs, and are quantified over as wholes.\<close>

declare split_paired_All [simp del] split_paired_Ex [simp del]

type_synonym path = "bytes \<times> bytes"
type_synonym disk = "(path \<times> bytes) list"

datatype dir_result = DirOk | DirMissing | DirFail

record io =
  wr_ok :: "path \<Rightarrow> bool"
  wr_left :: "path \<Rightarrow> bytes option"
  rn_ok :: "path \<Rightarrow> bool"
  rm_ok :: "path \<Rightarrow> bool"
  rd_ok :: "path \<Rightarrow> bool"
  mk_ok :: "bytes \<Rightarrow> bool"
  ls_dir :: "bytes \<Rightarrow> dir_result"

definition good_io :: io where
  "good_io = \<lparr> wr_ok = \<lambda>_. True, wr_left = \<lambda>_. None, rn_ok = \<lambda>_. True, rm_ok = \<lambda>_. True,
     rd_ok = \<lambda>_. True, mk_ok = \<lambda>_. True, ls_dir = \<lambda>_. DirOk \<rparr>"

datatype read_fail = NotExist | ReadErr

definition write_file :: "io \<Rightarrow> path \<Rightarrow> bytes \<Rightarrow> disk \<Rightarrow> bool \<times> disk" where
  "write_file io p b d =
     (if wr_ok io p then (True, AList.update p b d)
      else (False, case wr_left io p of None \<Rightarrow> d | Some part \<Rightarrow> AList.update p part d))"

definition rename_file :: "io \<Rightarrow> path \<Rightarrow> path \<Rightarrow> disk \<Rightarrow> disk option" where
  "rename_file io a b d = (case lookup d a of
       None \<Rightarrow> None
     | Some c \<Rightarrow> if rn_ok io a then Some (AList.update b c (AList.delete a d)) else None)"

definition remove_file :: "io \<Rightarrow> path \<Rightarrow> disk \<Rightarrow> disk" where
  "remove_file io p d = (if rm_ok io p then AList.delete p d else d)"

definition read_file :: "io \<Rightarrow> path \<Rightarrow> disk \<Rightarrow> read_fail + bytes" where
  "read_file io p d = (case lookup d p of
       None \<Rightarrow> Inl NotExist | Some b \<Rightarrow> if rd_ok io p then Inr b else Inl ReadErr)"

section \<open>Spill names\<close>

text \<open>The class \<^verbatim>\<open>[0-9A-HJKMNP-TV-Z]\<close> of Crockford's base 32, in either case.\<close>

definition crockford :: "char \<Rightarrow> bool" where
  "crockford c = (let n = byte_val (upper_char c) in
     (48 \<le> n \<and> n \<le> 57) \<or> (65 \<le> n \<and> n \<le> 72) \<or> n = 74 \<or> n = 75 \<or> n = 77 \<or> n = 78
     \<or> (80 \<le> n \<and> n \<le> 84) \<or> (86 \<le> n \<and> n \<le> 90))"

definition is_ulid :: "bytes \<Rightarrow> bool" where
  "is_ulid s = (length s = 26 \<and> 48 \<le> byte_val (hd s) \<and> byte_val (hd s) \<le> 55 \<and> list_all crockford (tl s))"

definition spill_ext :: "bytes \<Rightarrow> bool" where
  "spill_ext s = (s \<in> {''.raw'', ''.att'', ''.raw.tmp'', ''.att.tmp''})"

text \<open>\<^verbatim>\<open>spillName\<close>: a ULID, optionally a dash and digits, and the extension (any case).\<close>

definition spill_name :: "bytes \<Rightarrow> bool" where
  "spill_name s = (is_ulid (take 26 s) \<and>
     (case drop 26 s of
        [] \<Rightarrow> False
      | c # cs \<Rightarrow> if c = CHR ''-'' then
            takeWhile is_digit cs \<noteq> [] \<and> spill_ext (to_lower (dropWhile is_digit cs))
          else spill_ext (to_lower (c # cs))))"

definition raw_name :: "bytes \<Rightarrow> bytes" where
  "raw_name mid = mid @ ''.raw''"

definition att_name :: "bytes \<Rightarrow> nat \<Rightarrow> bytes" where
  "att_name mid i = mid @ ''-'' @ nat_str i @ ''.att''"

definition tmp_name :: "bytes \<Rightarrow> bytes" where
  "tmp_name s = s @ ''.tmp''"

section \<open>Writing, committing, unlinking, loading\<close>

record spill_job =
  j_raw :: "(path \<times> path) option"
  j_att :: "(path \<times> path) option list"

fun write_atts ::
  "io \<Rightarrow> bytes \<Rightarrow> bytes \<Rightarrow> int \<Rightarrow> nat \<Rightarrow> attachment list \<Rightarrow> disk
    \<Rightarrow> bool \<times> (path \<times> path) option list \<times> disk" where
  "write_atts io dir mid thr i [] d = (True, [], d)"
| "write_atts io dir mid thr i (a # as) d =
     (if int (length (at_data a)) < thr then
        let (ok, js, d') = write_atts io dir mid thr (Suc i) as d in (ok, None # js, d')
      else let tmp = (dir, tmp_name (att_name mid i));
               (ok, d1) = write_file io tmp (at_data a) d
           in if ok then
                let (ok', js, d') = write_atts io dir mid thr (Suc i) as d1
                in (ok', Some (tmp, (dir, att_name mid i)) # js, d')
              else (False, map (\<lambda>_. None) (a # as), d1))"

fun unlink_temps :: "io \<Rightarrow> (path \<times> path) option list \<Rightarrow> disk \<Rightarrow> disk" where
  "unlink_temps io [] d = d"
| "unlink_temps io (None # js) d = unlink_temps io js d"
| "unlink_temps io (Some (t, f) # js) d = unlink_temps io js (remove_file io t d)"

definition unlink_spill_job :: "io \<Rightarrow> spill_job option \<Rightarrow> disk \<Rightarrow> disk" where
  "unlink_spill_job io job d = (case job of
     None \<Rightarrow> d | Some j \<Rightarrow> unlink_temps io (j_raw j # j_att j) d)"

definition write_spill_temps ::
  "io \<Rightarrow> bytes \<Rightarrow> int \<Rightarrow> message \<Rightarrow> disk \<Rightarrow> (store_error + spill_job option) \<times> disk" where
  "write_spill_temps io dir thr msg d =
     (if dir = [] \<or> thr \<le> 0 then (Inr None, d)
      else let mid = msg_id msg; tmp = (dir, tmp_name (raw_name mid)); big = int (length (msg_raw msg)) \<ge> thr;
               (ok, d1) = (if big then write_file io tmp (msg_raw msg) d else (True, d))
           in if \<not> ok then (Inl (ErrSpill ''raw''), d1)
              else let raw = (if big then Some (tmp, (dir, raw_name mid)) else None);
                       (ok2, js, d2) = write_atts io dir mid thr 0 (msg_attachments msg) d1
                   in if ok2 then (Inr (Some \<lparr> j_raw = raw, j_att = js \<rparr>), d2)
                      else (Inl (ErrSpill ''attachment''),
                            unlink_spill_job io (Some \<lparr> j_raw = raw, j_att = js \<rparr>) d2))"

record stored =
  r_msg :: message
  r_resident :: int
  r_raw_spill :: "path option"
  r_att_spill :: "path option list"

fun unlink_paths :: "io \<Rightarrow> path option list \<Rightarrow> disk \<Rightarrow> disk" where
  "unlink_paths io [] d = d"
| "unlink_paths io (None # ps) d = unlink_paths io ps d"
| "unlink_paths io (Some p # ps) d = unlink_paths io ps (remove_file io p d)"

definition unlink_record :: "io \<Rightarrow> stored \<Rightarrow> disk \<Rightarrow> stored \<times> disk" where
  "unlink_record io r d =
     (r \<lparr> r_raw_spill := None, r_att_spill := map (\<lambda>_. None) (r_att_spill r) \<rparr>,
      unlink_paths io (r_raw_spill r # r_att_spill r) d)"

text \<open>The loop of \<^verbatim>\<open>commitSpill\<close> over the attachments: whether every rename succeeded, the spill
  paths set so far, what is left of the job, the attachments and the disk.  A job has one entry
  per attachment, so the last equation is never used.\<close>

fun commit_atts ::
  "io \<Rightarrow> (path \<times> path) option list \<Rightarrow> attachment list \<Rightarrow> disk
    \<Rightarrow> bool \<times> path option list \<times> (path \<times> path) option list \<times> attachment list \<times> disk" where
  "commit_atts io [] as d = (True, [], [], as, d)"
| "commit_atts io (None # js) (a # as) d =
     (let (ok, ss, js', as', d') = commit_atts io js as d in (ok, None # ss, None # js', a # as', d'))"
| "commit_atts io (Some (t, f) # js) (a # as) d =
     (case rename_file io t f d of
        None \<Rightarrow> (False, map (\<lambda>_. None) (Some (t, f) # js), Some (t, f) # js, a # as, d)
      | Some d1 \<Rightarrow>
          let (ok, ss, js', as', d') = commit_atts io js as d1
          in (ok, Some f # ss, None # js', a \<lparr> at_data := [] \<rparr> # as', d'))"
| "commit_atts io (j # js) [] d = (True, map (\<lambda>_. None) (j # js), j # js, [], d)"

definition commit_raw ::
  "io \<Rightarrow> stored \<Rightarrow> spill_job \<Rightarrow> disk \<Rightarrow> (stored \<times> spill_job \<times> disk) option" where
  "commit_raw io r j d = (case j_raw j of
       None \<Rightarrow> Some (r, j, d)
     | Some (t, f) \<Rightarrow> (case rename_file io t f d of
           None \<Rightarrow> None
         | Some d1 \<Rightarrow> Some (r \<lparr> r_raw_spill := Some f, r_msg := (r_msg r) \<lparr> msg_raw := [] \<rparr> \<rparr>,
                            j \<lparr> j_raw := None \<rparr>, d1)))"

definition commit_spill ::
  "io \<Rightarrow> stored \<Rightarrow> spill_job option \<Rightarrow> disk \<Rightarrow> store_error option \<times> stored \<times> spill_job option \<times> disk" where
  "commit_spill io r job d = (case job of
       None \<Rightarrow> (None, r, None, d)
     | Some j \<Rightarrow>
         (case commit_raw io r j d of
            None \<Rightarrow> (Some (ErrSpill ''rename raw''), r, Some j, d)
          | Some (r1, j1, d1) \<Rightarrow>
              if j_att j1 = [] then (None, r1, Some j1, d1)
              else let (ok, ss, js, as, d2) = commit_atts io (j_att j1) (msg_attachments (r_msg r1)) d1;
                       r2 = r1 \<lparr> r_att_spill := ss, r_msg := (r_msg r1) \<lparr> msg_attachments := as \<rparr> \<rparr>;
                       j2 = j1 \<lparr> j_att := js \<rparr>
                   in if ok then (None, r2, Some j2, d2)
                      else let (r3, d3) = unlink_record io r2 d2
                           in (Some (ErrSpill ''rename attachment''), r3, Some j2, d3)))"

fun load_atts :: "io \<Rightarrow> path option list \<Rightarrow> attachment list \<Rightarrow> disk \<Rightarrow> read_fail + attachment list" where
  "load_atts io [] as d = Inr as"
| "load_atts io (s # ss) [] d = Inr []"
| "load_atts io (s # ss) (a # as) d =
     (let cont = (\<lambda>a'. case load_atts io ss as d of Inl e \<Rightarrow> Inl e | Inr as' \<Rightarrow> Inr (a' # as'))
      in if at_data a \<noteq> [] then cont a
         else case s of
             None \<Rightarrow> cont a
           | Some p \<Rightarrow> (case read_file io p d of
                 Inl e \<Rightarrow> Inl e | Inr b \<Rightarrow> cont (a \<lparr> at_data := b \<rparr>)))"

text \<open>\<^verbatim>\<open>snapshotRecord\<close> is the record itself: values are not shared.\<close>

definition load_spill :: "io \<Rightarrow> stored \<Rightarrow> disk \<Rightarrow> read_fail + message" where
  "load_spill io s d =
     (case (case r_raw_spill s of
              None \<Rightarrow> Inr (r_msg s)
            | Some p \<Rightarrow> if msg_raw (r_msg s) \<noteq> [] then Inr (r_msg s)
                else (case read_file io p d of
                    Inl e \<Rightarrow> Inl e | Inr b \<Rightarrow> Inr ((r_msg s) \<lparr> msg_raw := b \<rparr>))) of
        Inl e \<Rightarrow> Inl e
      | Inr m \<Rightarrow> (case load_atts io (r_att_spill s) (msg_attachments m) d of
            Inl e \<Rightarrow> Inl e | Inr as \<Rightarrow> Inr (m \<lparr> msg_attachments := as \<rparr>)))"

definition ensure_spill_dir :: "io \<Rightarrow> bytes \<Rightarrow> store_error option" where
  "ensure_spill_dir io dir =
     (if dir = [] then None else if mk_ok io dir then None else Some (ErrOther ''spill directory''))"

definition unlink_all_spill :: "io \<Rightarrow> bytes \<Rightarrow> disk \<Rightarrow> store_error option \<times> disk" where
  "unlink_all_spill io dir d =
     (if dir = [] then (None, d)
      else case ls_dir io dir of
          DirMissing \<Rightarrow> (None, d)
        | DirFail \<Rightarrow> (Some (ErrSpill ''read dir''), d)
        | DirOk \<Rightarrow> (let victim = (\<lambda>p. fst p = dir \<and> spill_name (snd p)) in
            (if list_ex (\<lambda>p. victim p \<and> \<not> rm_ok io p) (keys d) then Some (ErrSpill ''unlink'') else None,
             filter (\<lambda>e. \<not> (victim (fst e) \<and> rm_ok io (fst e))) d)))"

section \<open>Names\<close>

lemma nat_str_no_dot: "CHR ''.'' \<notin> set (nat_str i)" "CHR ''-'' \<notin> set (nat_str i)"
  using nat_str_digits[of i] by (auto simp: list_all_iff is_digit_def byte_val_def)

lemma att_name_inj: "att_name mid i = att_name mid j \<longleftrightarrow> i = j"
  by (simp add: att_name_def nat_str_inj)

lemma tmp_name_inj: "tmp_name a = tmp_name b \<longleftrightarrow> a = b"
  by (simp add: tmp_name_def)

lemma last_tmp: "last (tmp_name s) = CHR ''p''" "last (att_name mid i) = CHR ''t''" "last (raw_name mid) = CHR ''w''"
  by (simp_all add: tmp_name_def att_name_def raw_name_def)

lemma names_distinct:
  "tmp_name s \<noteq> att_name mid i" "tmp_name s \<noteq> raw_name mid" "att_name mid i \<noteq> raw_name mid'"
  by (rule notI, drule arg_cong[of _ _ last], simp add: last_tmp)+

definition owned :: "bytes \<Rightarrow> path \<Rightarrow> bool" where
  "owned mid p = (take (length mid) (snd p) = mid)"

lemma owned_names:
  "owned mid (dir, raw_name mid)" "owned mid (dir, tmp_name (raw_name mid))"
  "owned mid (dir, att_name mid i)" "owned mid (dir, tmp_name (att_name mid i))"
  by (simp_all add: owned_def raw_name_def att_name_def tmp_name_def)

lemma owned_unique: "owned a p \<Longrightarrow> owned b p \<Longrightarrow> length a = length b \<Longrightarrow> a = b"
  by (simp add: owned_def)

lemma to_lower_ext [simp]:
  "to_lower ''.raw'' = ''.raw''" "to_lower ''.att'' = ''.att''"
  "to_lower ''.raw.tmp'' = ''.raw.tmp''" "to_lower ''.att.tmp'' = ''.att.tmp''"
  by (simp_all add: to_lower_def lower_char_def byte_val_def)

lemma spill_names_match:
  assumes "is_ulid mid"
  shows "spill_name (raw_name mid)" "spill_name (tmp_name (raw_name mid))"
    "spill_name (att_name mid i)" "spill_name (tmp_name (att_name mid i))"
proof -
  have len: "length mid = 26" using assms by (simp add: is_ulid_def)
  have tw: "takeWhile is_digit (nat_str i @ CHR ''.'' # r) = nat_str i"
    "dropWhile is_digit (nat_str i @ CHR ''.'' # r) = CHR ''.'' # r" for r
  proof -
    have d: "\<forall>c\<in>set (nat_str i). is_digit c" using nat_str_digits[of i] by (simp add: list_all_iff)
    have nd: "\<not> is_digit (CHR ''.'')" by (simp add: is_digit_def byte_val_def)
    show "takeWhile is_digit (nat_str i @ CHR ''.'' # r) = nat_str i"
      "dropWhile is_digit (nat_str i @ CHR ''.'' # r) = CHR ''.'' # r"
      using d nd by (simp_all add: takeWhile_append dropWhile_append)
  qed
  show "spill_name (raw_name mid)" "spill_name (tmp_name (raw_name mid))"
    "spill_name (att_name mid i)" "spill_name (tmp_name (att_name mid i))"
    using assms len
    by (simp_all add: spill_name_def raw_name_def tmp_name_def att_name_def tw spill_ext_def)
qed

section \<open>What a spill job writes and commits\<close>

fun att_jobs :: "bytes \<Rightarrow> bytes \<Rightarrow> int \<Rightarrow> nat \<Rightarrow> attachment list \<Rightarrow> (path \<times> path) option list" where
  "att_jobs dir mid thr i [] = []"
| "att_jobs dir mid thr i (a # as) =
     (if int (length (at_data a)) < thr then None
      else Some ((dir, tmp_name (att_name mid i)), (dir, att_name mid i))) # att_jobs dir mid thr (Suc i) as"

definition temps :: "(path \<times> path) option list \<Rightarrow> path set" where
  "temps js = {t. \<exists>f. Some (t, f) \<in> set js}"

definition finals :: "(path \<times> path) option list \<Rightarrow> path set" where
  "finals js = {f. \<exists>t. Some (t, f) \<in> set js}"

lemma temps_simps [simp]:
  "temps [] = {}" "temps (None # js) = temps js" "temps (Some (t, f) # js) = insert t (temps js)"
  by (simp_all add: temps_def set_eq_iff del: split_paired_All split_paired_Ex) blast

lemma finals_simps [simp]:
  "finals [] = {}" "finals (None # js) = finals js" "finals (Some (t, f) # js) = insert f (finals js)"
  by (simp_all add: finals_def set_eq_iff del: split_paired_All split_paired_Ex) blast

fun jobs_apart :: "(path \<times> path) option list \<Rightarrow> bool" where
  "jobs_apart [] = True"
| "jobs_apart (None # js) = jobs_apart js"
| "jobs_apart (Some (t, f) # js) =
     (t \<noteq> f \<and> t \<notin> temps js \<union> finals js \<and> f \<notin> temps js \<union> finals js \<and> jobs_apart js)"

fun temps_hold :: "(path \<times> path) option list \<Rightarrow> attachment list \<Rightarrow> disk \<Rightarrow> bool" where
  "temps_hold (None # js) (a # as) d = temps_hold js as d"
| "temps_hold (Some (t, f) # js) (a # as) d = (lookup d t = Some (at_data a) \<and> temps_hold js as d)"
| "temps_hold [] [] d = True"
| "temps_hold _ _ d = False"

lemma att_jobs_paths:
  "t \<in> temps (att_jobs dir mid thr i as) \<Longrightarrow> \<exists>k\<ge>i. t = (dir, tmp_name (att_name mid k))"
  "f \<in> finals (att_jobs dir mid thr i as) \<Longrightarrow> \<exists>k\<ge>i. f = (dir, att_name mid k)"
proof (induction as arbitrary: i)
  case (Cons a as)
  { case 1 then show ?case using Cons.IH(1)[of "Suc i"] by (auto split: if_splits) (metis Suc_leD)+ }
  { case 2 then show ?case using Cons.IH(2)[of "Suc i"] by (auto split: if_splits) (metis Suc_leD)+ }
qed auto

lemma att_jobs_apart: "jobs_apart (att_jobs dir mid thr i as)"
proof (induction as arbitrary: i)
  case (Cons a as)
  have "(dir, tmp_name (att_name mid i)) \<notin> temps (att_jobs dir mid thr (Suc i) as)"
    "(dir, tmp_name (att_name mid i)) \<notin> finals (att_jobs dir mid thr (Suc i) as)"
    "(dir, att_name mid i) \<notin> temps (att_jobs dir mid thr (Suc i) as)"
    "(dir, att_name mid i) \<notin> finals (att_jobs dir mid thr (Suc i) as)"
    by (auto dest!: att_jobs_paths simp: tmp_name_inj att_name_inj names_distinct(1) names_distinct(1)[symmetric])
  with Cons show ?case by (simp add: names_distinct(1))
qed simp

lemma temps_hold_frame:
  "temps_hold js as d \<Longrightarrow> (\<And>t. t \<in> temps js \<Longrightarrow> lookup d' t = lookup d t) \<Longrightarrow> temps_hold js as d'"
  by (induction js as d rule: temps_hold.induct) auto

lemma write_file_lookup:
  "write_file io p b d = (ok, d') \<Longrightarrow> q \<noteq> p \<Longrightarrow> lookup d' q = lookup d q"
  "write_file io p b d = (True, d') \<Longrightarrow> lookup d' p = Some b"
  by (auto simp: write_file_def split: if_splits option.splits)

lemma write_atts_ok:
  assumes "write_atts io dir mid thr i as d = (True, js, d')"
  shows "js = att_jobs dir mid thr i as \<and> temps_hold js as d'
    \<and> (\<forall>p. p \<notin> temps js \<longrightarrow> lookup d' p = lookup d p)"
  using assms
proof (induction as arbitrary: i d js d')
  case (Cons a as)
  show ?case
  proof (cases "int (length (at_data a)) < thr")
    case True
    with Cons show ?thesis by (auto split: prod.splits)
  next
    case False
    let ?t = "(dir, tmp_name (att_name mid i))"
    obtain d1 where w: "write_file io ?t (at_data a) d = (True, d1)"
      using Cons.prems False by (auto simp: Let_def split: prod.splits if_splits)
    with Cons.prems False obtain js2 where r: "write_atts io dir mid thr (Suc i) as d1 = (True, js2, d')"
      and js: "js = Some (?t, (dir, att_name mid i)) # js2"
      using w by (auto simp: Let_def split: prod.splits)
    note ih = Cons.IH[OF r]
    have "?t \<notin> temps js2" using ih by (auto dest!: att_jobs_paths simp: tmp_name_inj att_name_inj)
    with ih w js False write_file_lookup[OF w] write_file_lookup(2)[OF w] show ?thesis by auto
  qed
qed simp

lemma write_atts_frame:
  "write_atts io dir mid thr i as d = (ok, js, d') \<Longrightarrow> \<not> owned mid p \<Longrightarrow> lookup d' p = lookup d p"
proof (induction as arbitrary: i d ok js d')
  case (Cons a as)
  have no: "p \<noteq> (dir, tmp_name (att_name mid i))" using Cons.prems owned_names by metis
  show ?case using Cons.prems(1) Cons.IH[OF _ Cons.prems(2)] write_file_lookup(1)[OF _ no]
    by (auto simp: Let_def split: if_splits prod.splits)
qed simp

lemma write_atts_jobs_owned:
  "write_atts io dir mid thr i as d = (ok, js, d') \<Longrightarrow> t \<in> temps js \<Longrightarrow> owned mid t"
proof (induction as arbitrary: i d ok js d')
  case (Cons a as)
  have "temps (map (\<lambda>_. None) xs) = {}" for xs :: "attachment list" by (auto simp: temps_def)
  then show ?case using Cons.prems Cons.IH owned_names(4)
    by (auto simp: Let_def split: if_splits prod.splits)
qed simp

lemma rename_lookup:
  assumes "rename_file io a b d = Some d'"
  shows "lookup d' q = (if q = b then lookup d a else if q = a then None else lookup d q)"
  using assms by (auto simp: rename_file_def split: option.splits if_splits)

lemma commit_atts_ok:
  assumes "commit_atts io js as d = (True, ss, js', as', d')" "temps_hold js as d" "jobs_apart js"
  shows "(\<forall>p. p \<notin> temps js \<union> finals js \<longrightarrow> lookup d' p = lookup d p)
    \<and> temps js' = {} \<and> {p. Some p \<in> set ss} = finals js
    \<and> (\<forall>d'' io'. (\<forall>f\<in>finals js. lookup d'' f = lookup d' f \<and> rd_ok io' f) \<longrightarrow> load_atts io' ss as' d'' = Inr as)"
  using assms
proof (induction io js as d arbitrary: ss js' as' d' rule: commit_atts.induct)
  case (2 io js a as d)
  then obtain ss2 js2 as2 where r: "commit_atts io js as d = (True, ss2, js2, as2, d')"
    and e: "ss = None # ss2" "js' = None # js2" "as' = a # as2"
    by (auto split: prod.splits)
  from 2 r have "temps_hold js as d" "jobs_apart js" by auto
  with "2.IH"[OF r] e show ?case by (auto simp: Let_def)
next
  case (3 io t f js a as d)
  then obtain d1 where rn: "rename_file io t f d = Some d1"
    by (auto split: option.splits)
  then obtain ss2 js2 as2 where r: "commit_atts io js as d1 = (True, ss2, js2, as2, d')"
    and e: "ss = Some f # ss2" "js' = None # js2" "as' = a \<lparr> at_data := [] \<rparr> # as2"
    using "3.prems"(1) by (auto split: prod.splits)
  note lk = rename_lookup[OF rn]
  have apart: "t \<noteq> f" "t \<notin> temps js" "t \<notin> finals js" "f \<notin> temps js" "f \<notin> finals js" "jobs_apart js"
    using "3.prems"(3) by simp_all
  have th: "temps_hold js as d" "lookup d t = Some (at_data a)" using "3.prems"(2) by simp_all
  have "temps_hold js as d1"
    by (rule temps_hold_frame[OF th(1)], unfold lk) (use apart in auto)
  note ih = "3.IH"[OF rn r this apart(6)]
  have "lookup d' f = lookup d1 f" using ih apart by blast
  then have f: "lookup d' f = Some (at_data a)" by (simp add: lk th)
  have frame: "\<forall>p. p \<notin> insert t (temps js) \<union> insert f (finals js) \<longrightarrow> lookup d' p = lookup d p"
  proof (intro allI impI)
    fix p assume p: "p \<notin> insert t (temps js) \<union> insert f (finals js)"
    then have "lookup d' p = lookup d1 p" using ih by blast
    with p show "lookup d' p = lookup d p" by (simp add: lk)
  qed
  have load: "load_atts io' ss as' d'' = Inr (a # as)"
    if "\<forall>g\<in>insert f (finals js). lookup d'' g = lookup d' g \<and> rd_ok io' g" for d'' io'
  proof -
    have "load_atts io' ss2 as2 d'' = Inr as" using ih that by blast
    moreover have "read_file io' f d'' = Inr (at_data a)" using that f by (simp add: read_file_def)
    ultimately show ?thesis by (simp add: e Let_def)
  qed
  have "{p. Some p \<in> set ss} = insert f (finals js)" using ih e by auto
  moreover have "temps js' = {}" using ih e by simp
  ultimately show ?case using frame load by simp
qed auto

section \<open>Whole jobs\<close>

definition job_list :: "spill_job option \<Rightarrow> (path \<times> path) option list" where
  "job_list job = (case job of None \<Rightarrow> [] | Some j \<Rightarrow> j_raw j # j_att j)"

text \<open>The job of a message: which files it names, and that its temporary files hold the bodies.\<close>

definition job_of :: "bytes \<Rightarrow> int \<Rightarrow> message \<Rightarrow> spill_job option" where
  "job_of dir thr m = (if dir = [] \<or> thr \<le> 0 then None else Some \<lparr>
     j_raw = (if int (length (msg_raw m)) \<ge> thr
              then Some ((dir, tmp_name (raw_name (msg_id m))), (dir, raw_name (msg_id m))) else None),
     j_att = att_jobs dir (msg_id m) thr 0 (msg_attachments m) \<rparr>)"

definition job_holds :: "spill_job option \<Rightarrow> message \<Rightarrow> disk \<Rightarrow> bool" where
  "job_holds job m d = (case job of None \<Rightarrow> True | Some j \<Rightarrow>
     (case j_raw j of None \<Rightarrow> True | Some (t, f) \<Rightarrow> msg_raw m \<noteq> [] \<and> lookup d t = Some (msg_raw m))
     \<and> temps_hold (j_att j) (msg_attachments m) d)"

lemma temps_Cons: "temps (x # js) = temps [x] \<union> temps js"
  by (cases x) auto

lemma job_of_apart: "jobs_apart (job_list (job_of dir thr m))"
proof -
  have "(dir, tmp_name (raw_name (msg_id m))) \<notin> temps (att_jobs dir (msg_id m) thr 0 as)"
    "(dir, tmp_name (raw_name (msg_id m))) \<notin> finals (att_jobs dir (msg_id m) thr 0 as)"
    "(dir, raw_name (msg_id m)) \<notin> temps (att_jobs dir (msg_id m) thr 0 as)"
    "(dir, raw_name (msg_id m)) \<notin> finals (att_jobs dir (msg_id m) thr 0 as)" for as
    by (auto dest!: att_jobs_paths simp: tmp_name_inj names_distinct names_distinct[symmetric])
  then show ?thesis
    by (auto simp: job_list_def job_of_def att_jobs_apart names_distinct names_distinct[symmetric])
qed

lemma write_spill_temps_ok:
  assumes "write_spill_temps io dir thr m d = (Inr job, d')"
  shows "job = job_of dir thr m \<and> job_holds job m d'
    \<and> (\<forall>p. p \<notin> temps (job_list job) \<longrightarrow> lookup d' p = lookup d p)"
proof (cases "dir = [] \<or> thr \<le> 0")
  case True
  with assms show ?thesis by (auto simp: write_spill_temps_def job_of_def job_holds_def)
next
  case False
  let ?mid = "msg_id m" let ?t = "(dir, tmp_name (raw_name ?mid))"
  let ?big = "int (length (msg_raw m)) \<ge> thr"
  obtain ok d1 where w: "(if ?big then write_file io ?t (msg_raw m) d else (True, d)) = (ok, d1)"
    by fastforce
  obtain ok2 js d2 where a: "write_atts io dir ?mid thr 0 (msg_attachments m) d1 = (ok2, js, d2)"
    by (metis prod.exhaust)
  have ok: ok ok2 and job: "job = Some \<lparr> j_raw = (if ?big then Some (?t, (dir, raw_name ?mid)) else None), j_att = js \<rparr>"
    and d': "d' = d2"
    using assms False w a by (auto simp: write_spill_temps_def Let_def split: if_splits)
  note at = write_atts_ok[OF a[unfolded eqTrueI[OF ok(2)]]]
  have tn: "?t \<notin> temps js" using at
    by (auto dest!: att_jobs_paths simp: tmp_name_inj names_distinct names_distinct[symmetric])
  have raw: "?big \<Longrightarrow> lookup d' ?t = Some (msg_raw m)"
    using at tn w ok write_file_lookup(2)[of io ?t "msg_raw m" d d1] d' by (auto split: if_splits)
  have "lookup d' p = lookup d p" if "p \<notin> temps (job_list job)" for p
    using that at w ok d' job write_file_lookup(1)[of io ?t "msg_raw m" d ok d1 p]
    by (auto simp: job_list_def split: if_splits)
  moreover have "job = job_of dir thr m" using job at False by (simp add: job_of_def)
  moreover have "job_holds job m d'" using job at raw d' False by (auto simp: job_holds_def)
  ultimately show ?thesis by blast
qed

lemma commit_raw_frame:
  assumes "commit_raw io r j d = Some (r1, j1, d1)" "p \<notin> temps [j_raw j] \<union> finals [j_raw j]"
  shows "lookup d1 p = lookup d p"
proof (cases "j_raw j")
  case None
  with assms show ?thesis by (simp add: commit_raw_def)
next
  case (Some tf)
  obtain t f where "tf = (t, f)" by (cases tf)
  with Some assms show ?thesis
    by (auto simp: commit_raw_def rename_lookup[of io t f d d1] split: option.splits)
qed

lemma commit_spill_ok:
  assumes c: "commit_spill io r job d = (None, r', job', d')"
    and h: "job_holds job (r_msg r) d" and ap: "jobs_apart (job_list job)"
    and new: "r_raw_spill r = None" "r_att_spill r = []"
  shows "(\<forall>p. p \<notin> temps (job_list job) \<union> finals (job_list job) \<longrightarrow> lookup d' p = lookup d p)
    \<and> {p. Some p \<in> set (r_raw_spill r' # r_att_spill r')} = finals (job_list job)
    \<and> r_resident r' = r_resident r
    \<and> (\<exists>as. r_msg r' = (r_msg r) \<lparr> msg_raw := msg_raw (r_msg r'), msg_attachments := as \<rparr>)
    \<and> (\<forall>d'' io'. (\<forall>f\<in>finals (job_list job). lookup d'' f = lookup d' f \<and> rd_ok io' f)
          \<longrightarrow> load_spill io' r' d'' = Inr (r_msg r))"
proof (cases job)
  case None
  with c new show ?thesis
    by (auto simp: commit_spill_def job_list_def load_spill_def
        intro!: exI[of _ "msg_attachments (r_msg r)"])
next
  case (Some j)
  obtain r1 j1 d1 where R: "commit_raw io r j d = Some (r1, j1, d1)"
    using c Some unfolding commit_spill_def by (cases "commit_raw io r j d") auto
  have j1: "j_att j1 = j_att j" and as1: "msg_attachments (r_msg r1) = msg_attachments (r_msg r)"
    using R by (auto simp: commit_raw_def split: option.splits prod.splits)
  have m1: "r_msg r1 = (r_msg r) \<lparr> msg_raw := msg_raw (r_msg r1) \<rparr>" "r_resident r1 = r_resident r"
    "r_att_spill r1 = []"
    using R new by (auto simp: commit_raw_def split: option.splits prod.splits)
  let ?J = "j_att j"
  have apJ: "jobs_apart ?J" using ap Some by (cases "j_raw j") (auto simp: job_list_def)
  have thJ: "temps_hold ?J (msg_attachments (r_msg r)) d" using h Some by (simp add: job_holds_def)
  have lk1: "lookup d1 p = lookup d p" if "p \<notin> temps [j_raw j] \<union> finals [j_raw j]" for p
    using commit_raw_frame[OF R that] .
  have th1: "temps_hold ?J (msg_attachments (r_msg r)) d1"
  proof (rule temps_hold_frame[OF thJ])
    fix t assume "t \<in> temps ?J"
    then have "t \<notin> temps [j_raw j] \<union> finals [j_raw j]"
      using ap Some by (cases "j_raw j") (auto simp: job_list_def)
    then show "lookup d1 t = lookup d t" using lk1 by blast
  qed
  have final: "\<exists>ss as2. r' = r1 \<lparr> r_att_spill := ss, r_msg := (r_msg r1) \<lparr> msg_attachments := as2 \<rparr> \<rparr>
      \<and> (\<forall>p. p \<notin> temps ?J \<union> finals ?J \<longrightarrow> lookup d' p = lookup d1 p)
      \<and> {p. Some p \<in> set ss} = finals ?J
      \<and> (\<forall>d'' io'. (\<forall>f\<in>finals ?J. lookup d'' f = lookup d' f \<and> rd_ok io' f)
            \<longrightarrow> load_atts io' ss as2 d'' = Inr (msg_attachments (r_msg r)))"
  proof (cases "?J = []")
    case True
    have "r' = r1" "d' = d1" using c Some R True j1
      unfolding commit_spill_def by auto
    moreover have "r1 = r1 \<lparr> r_att_spill := [], r_msg := (r_msg r1) \<lparr> msg_attachments := msg_attachments (r_msg r1) \<rparr> \<rparr>"
      using m1(3) by (cases r1) simp
    ultimately show ?thesis using True as1
      by (intro exI[where x = "[] :: path option list"] exI[where x = "msg_attachments (r_msg r)"]) auto
  next
    case False
    obtain ok ss js as2 d2 where ca: "commit_atts io ?J (msg_attachments (r_msg r)) d1 = (ok, ss, js, as2, d2)"
      by (metis prod.exhaust)
    have ok: ok and e: "r' = r1 \<lparr> r_att_spill := ss, r_msg := (r_msg r1) \<lparr> msg_attachments := as2 \<rparr> \<rparr>" "d' = d2"
      using c Some R False j1 ca as1 unfolding commit_spill_def
      by (auto simp: Let_def split: if_splits prod.splits)
    from commit_atts_ok[OF ca[unfolded eqTrueI[OF ok]] th1 apJ] e show ?thesis by blast
  qed
  then obtain ss as2 where e: "r' = r1 \<lparr> r_att_spill := ss, r_msg := (r_msg r1) \<lparr> msg_attachments := as2 \<rparr> \<rparr>"
    and fr: "\<And>p. p \<notin> temps ?J \<union> finals ?J \<Longrightarrow> lookup d' p = lookup d1 p"
    and sp: "{p. Some p \<in> set ss} = finals ?J"
    and ld: "\<And>d'' io'. \<forall>f\<in>finals ?J. lookup d'' f = lookup d' f \<and> rd_ok io' f
            \<Longrightarrow> load_atts io' ss as2 d'' = Inr (msg_attachments (r_msg r))" by auto
  show ?thesis
  proof (cases "j_raw j")
    case None
    then have r1: "r1 = r" and d1: "d1 = d" using R by (auto simp: commit_raw_def)
    have jl: "job_list job = None # ?J" using Some None by (simp add: job_list_def)
    have load: "load_spill io' r' d'' = Inr (r_msg r)"
      if "\<forall>g\<in>finals ?J. lookup d'' g = lookup d' g \<and> rd_ok io' g" for d'' io'
      using ld[OF that] new by (simp add: load_spill_def e r1)
    have "r_msg r' = (r_msg r) \<lparr> msg_raw := msg_raw (r_msg r'), msg_attachments := as2 \<rparr>"
      by (simp add: e r1)
    moreover have "r_raw_spill r' = None" "r_att_spill r' = ss" "r_resident r' = r_resident r"
      using new by (simp_all add: e r1)
    ultimately show ?thesis using fr sp load unfolding jl d1 by auto
  next
    case (Some tf)
    obtain t f where tf: "tf = (t, f)" by (cases tf)
    have rn: "rename_file io t f d = Some d1"
      and r1: "r1 = r \<lparr> r_raw_spill := Some f, r_msg := (r_msg r) \<lparr> msg_raw := [] \<rparr> \<rparr>"
      using R Some tf by (auto simp: commit_raw_def split: option.splits)
    have t: "msg_raw (r_msg r) \<noteq> []" "lookup d t = Some (msg_raw (r_msg r))"
      using h \<open>job = Some j\<close> Some tf by (auto simp: job_holds_def)
    have jl: "job_list job = Some (t, f) # ?J" using \<open>job = Some j\<close> Some tf by (simp add: job_list_def)
    have f: "f \<notin> temps ?J \<union> finals ?J" using ap jl by simp
    have lf: "lookup d' f = Some (msg_raw (r_msg r))" using fr[OF f] rename_lookup[OF rn] t by simp
    have load: "load_spill io' r' d'' = Inr (r_msg r)"
      if "\<forall>g\<in>finals (job_list job). lookup d'' g = lookup d' g \<and> rd_ok io' g" for d'' io'
    proof -
      have "read_file io' f d'' = Inr (msg_raw (r_msg r))" using that lf jl by (simp add: read_file_def)
      moreover have "load_atts io' ss as2 d'' = Inr (msg_attachments (r_msg r))" using that jl by (intro ld) simp
      ultimately show ?thesis by (simp add: load_spill_def e r1)
    qed
    have "lookup d' p = lookup d p" if "p \<notin> temps (job_list job) \<union> finals (job_list job)" for p
      using that fr[of p] rename_lookup[OF rn, of p] jl by simp
    moreover have "r_msg r' = (r_msg r) \<lparr> msg_raw := msg_raw (r_msg r'), msg_attachments := as2 \<rparr>"
      by (simp add: e r1)
    moreover have "r_raw_spill r' = Some f" "r_att_spill r' = ss" "r_resident r' = r_resident r"
      by (simp_all add: e r1)
    moreover have "{p. Some p \<in> set (Some f # ss)} = finals (job_list job)"
      using sp jl by auto
    ultimately show ?thesis using load by auto
  qed
qed

section \<open>Frames: what the operations leave alone\<close>

lemma remove_file_lookup [simp]:
  "lookup (remove_file io p d) q = (if q = p \<and> rm_ok io p then None else lookup d q)"
  by (simp add: remove_file_def)

lemma unlink_temps_lookup:
  "lookup (unlink_temps io js d) p = (if p \<in> temps js \<and> rm_ok io p then None else lookup d p)"
  by (induction io js d rule: unlink_temps.induct) auto

lemma unlink_spill_job_lookup:
  "lookup (unlink_spill_job io job d) p = (if p \<in> temps (job_list job) \<and> rm_ok io p then None else lookup d p)"
  by (simp add: unlink_spill_job_def job_list_def unlink_temps_lookup split: option.splits)

lemma unlink_paths_lookup:
  "lookup (unlink_paths io ps d) p = (if Some p \<in> set ps \<and> rm_ok io p then None else lookup d p)"
  by (induction io ps d rule: unlink_paths.induct) auto

definition spill_paths :: "stored \<Rightarrow> path set" where
  "spill_paths r = {p. Some p \<in> set (r_raw_spill r # r_att_spill r)}"

lemma unlink_record_lookup:
  "lookup (snd (unlink_record io r d)) p = (if p \<in> spill_paths r \<and> rm_ok io p then None else lookup d p)"
  by (simp only: unlink_record_def snd_conv unlink_paths_lookup spill_paths_def mem_Collect_eq)

lemma job_of_owned:
  "p \<in> temps (job_list (job_of dir thr m)) \<union> finals (job_list (job_of dir thr m)) \<Longrightarrow> owned (msg_id m) p"
  by (auto simp: job_list_def job_of_def owned_names split: if_splits dest!: att_jobs_paths)

lemma write_spill_temps_frame:
  assumes "write_spill_temps io dir thr m d = (res, d')" "\<not> owned (msg_id m) p"
  shows "lookup d' p = lookup d p"
proof (cases "dir = [] \<or> thr \<le> 0")
  case True
  with assms show ?thesis by (auto simp: write_spill_temps_def)
next
  case False
  let ?mid = "msg_id m" let ?t = "(dir, tmp_name (raw_name ?mid))"
  let ?big = "int (length (msg_raw m)) \<ge> thr"
  obtain ok d1 where w: "(if ?big then write_file io ?t (msg_raw m) d else (True, d)) = (ok, d1)"
    by fastforce
  obtain ok2 js d2 where a: "write_atts io dir ?mid thr 0 (msg_attachments m) d1 = (ok2, js, d2)"
    by (metis prod.exhaust)
  have p: "p \<noteq> ?t" using assms(2) owned_names(2) by metis
  have l1: "lookup d1 p = lookup d p" using w write_file_lookup(1)[OF _ p] by (auto split: if_splits)
  have l2: "lookup d2 p = lookup d1 p" using write_atts_frame[OF a assms(2)] .
  have nt: "p \<notin> temps (job_list (Some \<lparr> j_raw = (if ?big then Some (?t, (dir, raw_name ?mid)) else None), j_att = js \<rparr>))"
    using p write_atts_jobs_owned[OF a, of p] assms(2) by (auto simp: job_list_def)
  show ?thesis
    using assms(1) False w a l1 l2 nt
    by (auto simp: write_spill_temps_def Let_def unlink_spill_job_lookup split: if_splits)
qed

lemma commit_atts_frame:
  "commit_atts io js as d = (ok, ss, js', as', d') \<Longrightarrow>
     (\<forall>p. p \<notin> temps js \<union> finals js \<longrightarrow> lookup d' p = lookup d p)
     \<and> temps js' \<subseteq> temps js \<and> {p. Some p \<in> set ss} \<subseteq> finals js"
proof (induction io js as d arbitrary: ok ss js' as' d' rule: commit_atts.induct)
  case (2 io js a as d)
  then show ?case by (fastforce split: prod.splits)
next
  case (3 io t f js a as d)
  show ?case
  proof (cases "rename_file io t f d")
    case None
    with 3 show ?thesis by auto
  next
    case (Some d1)
    obtain ok2 ss2 js2 as2 d2 where r: "commit_atts io js as d1 = (ok2, ss2, js2, as2, d2)"
      by (metis prod.exhaust)
    have e: "ss = Some f # ss2" "js' = None # js2" "d' = d2" using "3.prems" Some r by auto
    note ih = "3.IH"[OF Some r]
    have "lookup d' p = lookup d p" if "p \<notin> temps (Some (t, f) # js) \<union> finals (Some (t, f) # js)" for p
      using that ih e rename_lookup[OF Some, of p] by auto
    with ih e show ?thesis by auto
  qed
qed auto

text \<open>A commit that fails has put everything it renamed away again; only the temporary files it
  had not come to are left, in the job it returns.\<close>

lemma commit_spill_frame:
  assumes c: "commit_spill io r job d = (e, r', job', d')" and new: "spill_paths r = {}"
  shows "(\<forall>p. p \<notin> temps (job_list job) \<union> finals (job_list job) \<longrightarrow> lookup d' p = lookup d p)
    \<and> temps (job_list job') \<subseteq> temps (job_list job)"
proof (cases job)
  case None
  with c show ?thesis by (simp add: commit_spill_def)
next
  case (Some j)
  show ?thesis
  proof (cases "commit_raw io r j d")
    case None
    with c Some show ?thesis by (auto simp: commit_spill_def)
  next
    case R: (Some x)
    obtain r1 j1 d1 where x: "x = (r1, j1, d1)" by (cases x)
    note fr1 = commit_raw_frame[OF R[unfolded x]]
    have j1: "j_att j1 = j_att j" "temps [j_raw j1] \<subseteq> temps [j_raw j]"
      and sp1: "spill_paths r1 \<subseteq> finals [j_raw j]"
      using R x new by (auto simp: commit_raw_def spill_paths_def split: option.splits prod.splits)
    have jl: "temps (job_list job) = temps [j_raw j] \<union> temps (j_att j)"
      "finals (job_list job) = finals [j_raw j] \<union> finals (j_att j)"
      using Some by (cases "j_raw j"; auto simp: job_list_def)+
    obtain ok ss js as d2 where ca: "commit_atts io (j_att j1) (msg_attachments (r_msg r1)) d1 = (ok, ss, js, as, d2)"
      by (metis prod.exhaust)
    note fr2 = commit_atts_frame[OF ca, unfolded j1(1)]
    have tj: "temps (job_list (Some (j1 \<lparr> j_att := js \<rparr>))) = temps [j_raw j1] \<union> temps js"
      "temps (job_list (Some j1)) = temps [j_raw j1] \<union> temps (j_att j)"
      using j1(1) by (cases "j_raw j1"; auto simp: job_list_def)+
    let ?r2 = "r1 \<lparr> r_att_spill := ss, r_msg := (r_msg r1) \<lparr> msg_attachments := as \<rparr> \<rparr>"
    have sp2: "spill_paths ?r2 \<subseteq> finals (job_list job)"
      using sp1 fr2 jl by (auto simp: spill_paths_def)
    consider (a) "j_att j1 = []" "d' = d1" "job' = Some j1"
      | (b) "d' = d2 \<or> d' = snd (unlink_record io ?r2 d2)" "job' = Some (j1 \<lparr> j_att := js \<rparr>)"
      using c Some R x ca by (auto simp: commit_spill_def Let_def split: if_splits prod.splits)
    then show ?thesis
    proof cases
      case a
      then show ?thesis using fr1 jl tj(2) j1 by auto
    next
      case b
      have "lookup d' p = lookup d p" if "p \<notin> temps (job_list job) \<union> finals (job_list job)" for p
      proof -
        have "lookup d2 p = lookup d p" using that fr1[of p] fr2 jl by auto
        moreover have "p \<notin> spill_paths ?r2" using that sp2 by auto
        ultimately show ?thesis using b(1) by (auto simp: unlink_record_lookup)
      qed
      then show ?thesis using b(2) tj(1) jl fr2 j1 by auto
    qed
  qed
qed

section \<open>Properties\<close>

definition all_readable :: "io \<Rightarrow> bool" where
  "all_readable io = (\<forall>p. rd_ok io p)"

text \<open>Spilling is invisible: a message whose large bodies were written to temporary files and
  renamed into place is read back byte for byte, whatever happens in between to files other than
  its temporary ones, and later to files other than its final ones; it then owns exactly the final
  files of its job.\<close>

lemma spill_roundtrip:
  assumes "write_spill_temps io dir thr m d = (Inr job, d1)"
    and "\<forall>t\<in>temps (job_list job). lookup d2 t = lookup d1 t"
    and "commit_spill io2 \<lparr> r_msg = m, r_resident = n, r_raw_spill = None, r_att_spill = [] \<rparr> job d2
           = (None, r, job', d3)"
    and "\<forall>f\<in>spill_paths r. lookup d4 f = lookup d3 f"
    and "all_readable io3"
  shows "load_spill io3 r d4 = Inr m"
proof -
  note w = write_spill_temps_ok[OF assms(1)]
  have h: "job_holds job m d2"
    using w assms(2) temps_hold_frame[of _ "msg_attachments m" d1 d2]
    by (auto simp: job_holds_def job_list_def split: option.splits prod.splits)
  have ap: "jobs_apart (job_list job)" using w job_of_apart by metis
  from commit_spill_ok[OF assms(3) _ ap] h assms(4,5) show ?thesis
    by (simp add: spill_paths_def all_readable_def)
qed

text \<open>A spill leaves nothing behind: whatever happens after the temporary files of a message
  were written, unlinking the job restores the disk to the state before the write if the system
  lets files be removed and the message's own files did not exist; and \<^verbatim>\<open>unlinkAllSpill\<close> leaves
  no file named like a spill file in the directory.\<close>

lemma spill_cleanup:
  assumes "write_spill_temps io dir thr m d = (Inr job, d1)"
    and "\<forall>p. rm_ok io2 p" "\<forall>p. owned (msg_id m) p \<longrightarrow> lookup d p = None"
  shows "lookup (unlink_spill_job io2 job d1) p = lookup d p
    \<and> (dir \<noteq> [] \<longrightarrow> ls_dir io2 dir = DirOk \<longrightarrow> spill_name nm \<longrightarrow>
         lookup (snd (unlink_all_spill io2 dir d2)) (dir, nm) = None)"
proof -
  note w = write_spill_temps_ok[OF assms(1)]
  have own: "p \<in> temps (job_list job) \<Longrightarrow> lookup d p = None" for p
    using w assms(3) job_of_owned[of p dir thr m] by auto
  have "lookup (unlink_spill_job io2 job d1) p = lookup d p"
    using w own assms(2) by (simp add: unlink_spill_job_lookup)
  moreover have "lookup (snd (unlink_all_spill io2 dir d2)) (dir, nm) = None"
    if "dir \<noteq> []" "ls_dir io2 dir = DirOk" "spill_name nm"
    using that assms(2) by (auto simp: unlink_all_spill_def Let_def map_of_eq_None_iff)
  ultimately show ?thesis by blast
qed

definition demo_message :: message where
  "demo_message = empty_message \<lparr> msg_id := ''M1'', msg_raw := ''abc'', msg_size := 3,
     msg_attachments := [\<lparr> at_id = [], at_filename = [], at_content_type = [], at_content_id = [],
       at_disposition = [], at_size = 2, at_checksum = [], at_data = ''xy'' \<rparr>] \<rparr>"

definition demo_disk :: disk where
  "demo_disk = [((''s'', ''M1.raw.tmp''), ''abc''), ((''s'', ''M1-0.att.tmp''), ''xy'')]"

lemma demo_write:
  "write_spill_temps good_io ''s'' 1 demo_message [] = (Inr (job_of ''s'' 1 demo_message), demo_disk)"
  by (simp add: write_spill_temps_def job_of_def demo_message_def demo_disk_def empty_message_def
      write_file_def good_io_def raw_name_def att_name_def tmp_name_def nat_str.simps digit_char_eval Let_def)

lemma demo_commit_files:
  "\<exists>r j d. commit_spill good_io \<lparr> r_msg = demo_message, r_resident = 5, r_raw_spill = None, r_att_spill = [] \<rparr>
     (job_of ''s'' 1 demo_message) demo_disk = (None, r, j, d) \<and> r_raw_spill r = Some (''s'', ''M1.raw'')"
  by (simp add: commit_spill_def commit_raw_def rename_file_def job_of_def demo_message_def demo_disk_def
      empty_message_def good_io_def raw_name_def att_name_def tmp_name_def nat_str.simps digit_char_eval Let_def)

theorem spill_roundtrip_witness:
  "\<exists>r d. r_raw_spill r = Some (''s'', ''M1.raw'') \<and> load_spill good_io r d = Inr demo_message"
proof -
  obtain r j d where c: "commit_spill good_io \<lparr> r_msg = demo_message, r_resident = 5, r_raw_spill = None,
      r_att_spill = [] \<rparr> (job_of ''s'' 1 demo_message) demo_disk = (None, r, j, d)"
    and raw: "r_raw_spill r = Some (''s'', ''M1.raw'')" using demo_commit_files by blast
  have "load_spill good_io r d = Inr demo_message"
    by (rule spill_roundtrip[OF demo_write _ c]) (simp_all add: all_readable_def good_io_def)
  with raw show ?thesis by blast
qed

theorem spill_cleanup_witness:
  "lookup (unlink_spill_job good_io (job_of ''s'' 1 demo_message) demo_disk) (''s'', ''M1.raw.tmp'') = None"
  using spill_cleanup[OF demo_write, of good_io "(''s'', ''M1.raw.tmp'')"] by (simp add: good_io_def)

end
