(* ===== verification/Inbox.thy ===== *)
theory Inbox
  imports Spill "HOL-Library.Char_ord" "HOL-Library.List_Lexorder"
begin

text \<open>
  The bounded inbox of \<^verbatim>\<open>internal/store/memory.go\<close> and its event subscribers
  (\<^verbatim>\<open>internal/store/events.go\<close>).  A critical section of the Go code is one function on the
  inbox record; \<^verbatim>\<open>Insert\<close>, which works before it takes the lock, is split there, so that other
  operations can come in between.  Resident sizes are bounded by memory and are mathematical
  integers.  The clock reading, the fresh ULID, the MIME parser and the system's answers are
  arguments.  Telemetry is optional in the code (\<^verbatim>\<open>SetTelemetry\<close>) and is left out.
\<close>

section \<open>State\<close>

datatype event_type = MailReceived | MailDeleted | StoreWiped

record event =
  ev_type :: event_type
  ev_id :: bytes
  ev_subject :: bytes
  ev_generation :: nat

record subscriber =
  sub_cap :: nat
  sub_queue :: "event list"

record options =
  o_max_messages :: int
  o_max_bytes :: int
  o_full_policy :: bytes
  o_max_wait :: int
  o_spill_dir :: bytes
  o_spill_threshold :: int

record inbox =
  ib_max_messages :: int
  ib_max_bytes :: int
  ib_full_policy :: bytes
  ib_max_wait :: int
  ib_spill_dir :: bytes
  ib_spill_threshold :: int
  ib_epoch :: nat
  ib_generation :: nat
  ib_evictions :: nat
  ib_bytes :: int
  ib_by_id :: "(bytes \<times> stored) list"
  ib_order :: "bytes list"
  ib_subs :: "(nat \<times> subscriber) list"
  ib_next_sub :: nat
  ib_disk :: disk

abbreviation reject_policy :: bytes where "reject_policy \<equiv> ''reject''"
abbreviation evict_policy :: bytes where "evict_policy \<equiv> ''evict_oldest''"

definition options_from_spec :: "store_spec \<Rightarrow> options" where
  "options_from_spec s = \<lparr> o_max_messages = ss_max_messages s, o_max_bytes = ss_max_bytes s,
     o_full_policy = ss_full_policy s, o_max_wait = ss_max_wait s,
     o_spill_dir = ss_spill_directory s, o_spill_threshold = ss_spill_threshold s \<rparr>"

definition normalize_options :: "options \<Rightarrow> store_error + options" where
  "normalize_options o1 =
     (if o_max_messages o1 \<le> 0 then Inl (ErrOther ''maxMessages must be > 0'')
      else if o_max_bytes o1 \<le> 0 then Inl (ErrOther ''maxBytes must be > 0'')
      else if o_full_policy o1 \<noteq> [] \<and> o_full_policy o1 \<noteq> reject_policy \<and> o_full_policy o1 \<noteq> evict_policy
        then Inl (ErrOther ''unknown fullPolicy'')
      else let o2 = (if o_full_policy o1 = evict_policy then o1 else o1 \<lparr> o_full_policy := reject_policy \<rparr>)
           in Inr (if o_spill_dir o2 \<noteq> [] \<and> o_spill_threshold o2 \<le> 0
                   then o2 \<lparr> o_spill_threshold := 262144 \<rparr> else o2))"

definition new_memory :: "io \<Rightarrow> options \<Rightarrow> disk \<Rightarrow> store_error + inbox" where
  "new_memory io opts d = (case normalize_options opts of
       Inl e \<Rightarrow> Inl e
     | Inr op \<Rightarrow> (case ensure_spill_dir io (o_spill_dir op) of
           Some e \<Rightarrow> Inl e
         | None \<Rightarrow> (case unlink_all_spill io (o_spill_dir op) d of
               (Some e, d') \<Rightarrow> Inl e
             | (None, d') \<Rightarrow> Inr \<lparr> ib_max_messages = o_max_messages op, ib_max_bytes = o_max_bytes op,
                 ib_full_policy = o_full_policy op, ib_max_wait = o_max_wait op,
                 ib_spill_dir = o_spill_dir op, ib_spill_threshold = o_spill_threshold op,
                 ib_epoch = 1, ib_generation = 0, ib_evictions = 0, ib_bytes = 0, ib_by_id = [],
                 ib_order = [], ib_subs = [], ib_next_sub = 0, ib_disk = d' \<rparr>)))"

definition check_options :: "io \<Rightarrow> options \<Rightarrow> store_error + options" where
  "check_options io opts = (case normalize_options opts of
       Inl e \<Rightarrow> Inl e
     | Inr op \<Rightarrow> (case ensure_spill_dir io (o_spill_dir op) of Some e \<Rightarrow> Inl e | None \<Rightarrow> Inr op))"

section \<open>Events\<close>

definition offer :: "event \<Rightarrow> subscriber \<Rightarrow> subscriber" where
  "offer ev s = (if length (sub_queue s) < sub_cap s then s \<lparr> sub_queue := sub_queue s @ [ev] \<rparr> else s)"

definition emit :: "event \<Rightarrow> inbox \<Rightarrow> inbox" where
  "emit ev m = m \<lparr> ib_subs := map (\<lambda>(k, s). (k, offer ev s)) (ib_subs m) \<rparr>"

definition subscribe :: "int \<Rightarrow> inbox \<Rightarrow> nat \<times> inbox" where
  "subscribe buffer m = (let cap = (if buffer \<le> 0 then 16 else nat buffer) in
     (ib_next_sub m,
      m \<lparr> ib_subs := ib_subs m @ [(ib_next_sub m, \<lparr> sub_cap = cap, sub_queue = [] \<rparr>)],
          ib_next_sub := Suc (ib_next_sub m) \<rparr>))"

definition cancel_sub :: "nat \<Rightarrow> inbox \<Rightarrow> inbox" where
  "cancel_sub k m = m \<lparr> ib_subs := AList.delete k (ib_subs m) \<rparr>"

section \<open>Removal and eviction\<close>

definition remove_locked :: "io \<Rightarrow> bytes \<Rightarrow> bool \<Rightarrow> inbox \<Rightarrow> inbox" where
  "remove_locked io mid eviction m = (case lookup (ib_by_id m) mid of
       None \<Rightarrow> m
     | Some r \<Rightarrow>
         let b = ib_bytes m - r_resident r
         in emit \<lparr> ev_type = MailDeleted, ev_id = mid, ev_subject = msg_subject (r_msg r),
                   ev_generation = Suc (ib_generation m) \<rparr>
              (m \<lparr> ib_by_id := AList.delete mid (ib_by_id m),
                   ib_order := remove1 mid (ib_order m),
                   ib_bytes := (if b < 0 then 0 else b),
                   ib_disk := snd (unlink_record io r (ib_disk m)),
                   ib_generation := Suc (ib_generation m),
                   ib_evictions := (if eviction then Suc (ib_evictions m) else ib_evictions m) \<rparr>))"

definition fits :: "int \<Rightarrow> inbox \<Rightarrow> bool" where
  "fits c m = (int (length (ib_by_id m)) < ib_max_messages m \<and> ib_bytes m + c \<le> ib_max_bytes m)"

text \<open>The loop of \<^verbatim>\<open>canAcceptLocked\<close>: whether it, or the test after it, accepts.\<close>

fun accept_loop :: "inbox \<Rightarrow> int \<Rightarrow> int \<Rightarrow> int \<Rightarrow> bytes list \<Rightarrow> bool" where
  "accept_loop m c bs cnt [] = (cnt < ib_max_messages m \<and> bs + c \<le> ib_max_bytes m)"
| "accept_loop m c bs cnt (mid # ids) =
     (if cnt < ib_max_messages m \<and> bs + c \<le> ib_max_bytes m then True
      else case lookup (ib_by_id m) mid of
          None \<Rightarrow> accept_loop m c bs cnt ids
        | Some r \<Rightarrow> let b = bs - r_resident r in
            accept_loop m c (if b < 0 then 0 else b) (cnt - 1) ids)"

definition can_accept :: "int \<Rightarrow> inbox \<Rightarrow> store_error option" where
  "can_accept c m =
     (if fits c m then None
      else if ib_full_policy m \<noteq> evict_policy then Some ErrFull
      else if accept_loop m c (ib_bytes m) (int (length (ib_by_id m))) (ib_order m) then None
      else Some ErrFull)"

text \<open>\<^verbatim>\<open>for len(m.order) > 0 && !ok\<close>: every round removes the first id of the order, so the
  length of the order is fuel enough (\<open>evict_loop_exit\<close>).\<close>

fun evict_loop :: "io \<Rightarrow> (inbox \<Rightarrow> bool) \<Rightarrow> nat \<Rightarrow> inbox \<Rightarrow> inbox" where
  "evict_loop io okp 0 m = m"
| "evict_loop io okp (Suc n) m =
     (if ib_order m \<noteq> [] \<and> \<not> okp m then evict_loop io okp n (remove_locked io (hd (ib_order m)) True m)
      else m)"

definition evict_until_fits :: "io \<Rightarrow> int \<Rightarrow> inbox \<Rightarrow> store_error option \<times> inbox" where
  "evict_until_fits io c m = (let m' = evict_loop io (fits c) (length (ib_order m)) m in
     (if fits c m' then None else Some ErrFull, m'))"

definition occupancy_ok :: "inbox \<Rightarrow> bool" where
  "occupancy_ok m = (int (length (ib_by_id m)) \<le> ib_max_messages m \<and> ib_bytes m \<le> ib_max_bytes m)"

definition evict_until_under_caps :: "io \<Rightarrow> inbox \<Rightarrow> store_error option \<times> inbox" where
  "evict_until_under_caps io m = (let m' = evict_loop io occupancy_ok (length (ib_order m)) m in
     (if occupancy_ok m' then None else Some ErrOverNewCap, m'))"

section \<open>Insert\<close>

fun insert_order :: "(bytes \<times> stored) list \<Rightarrow> bytes \<Rightarrow> int \<Rightarrow> bytes list \<Rightarrow> bytes list" where
  "insert_order by mid at [] = [mid]"
| "insert_order by mid at (oid # ids) =
     (if (case lookup by oid of
            None \<Rightarrow> False
          | Some r \<Rightarrow> at < received_at (r_msg r) \<or> (at = received_at (r_msg r) \<and> mid < oid))
      then mid # oid # ids else oid # insert_order by mid at ids)"

definition needs_parse :: "message \<Rightarrow> bool" where
  "needs_parse m = (msg_raw m \<noteq> [] \<and> msg_parse_warning m = [] \<and> msg_headers m = []
     \<and> msg_text m = [] \<and> msg_html m = [] \<and> msg_attachments m = [])"

text \<open>\<open>parse\<close> stands for \<^verbatim>\<open>mimeparse.Parse\<close>: the parsed fields of the message it returns are
  copied over.\<close>

definition apply_parse :: "(bytes \<Rightarrow> message) \<Rightarrow> message \<Rightarrow> message" where
  "apply_parse parse m =
     (if \<not> needs_parse m then m
      else let p = parse (msg_raw m) in
        m \<lparr> msg_headers := msg_headers p, msg_subject := msg_subject p, msg_from := msg_from p,
            msg_to := msg_to p, msg_cc := msg_cc p, msg_bcc := msg_bcc p,
            msg_reply_to := msg_reply_to p, msg_message_id := msg_message_id p,
            msg_in_reply_to := msg_in_reply_to p, msg_date := msg_date p, msg_text := msg_text p,
            msg_html := msg_html p, msg_parse_warning := msg_parse_warning p,
            msg_attachments := msg_attachments p,
            msg_priority := (if msg_priority p = [] then ''normal'' else msg_priority p) \<rparr>)"

fun number_attachments :: "bytes \<Rightarrow> nat \<Rightarrow> attachment list \<Rightarrow> attachment list" where
  "number_attachments mid i [] = []"
| "number_attachments mid i (a # as) =
     a \<lparr> at_id := mid @ '':'' @ nat_str i,
         at_size := (if at_size a = 0 then int (length (at_data a)) else at_size a) \<rparr>
     # number_attachments mid (Suc i) as"

definition prepare_message :: "(bytes \<Rightarrow> message) \<Rightarrow> int \<Rightarrow> bytes \<Rightarrow> message \<Rightarrow> message" where
  "prepare_message parse now mid msg =
     (let p = apply_parse parse msg in
      p \<lparr> received_at := (if received_at p = 0 then now else received_at p),
          msg_id := mid,
          msg_message_id := (if msg_message_id p = [] then mid @ ''@labmail.lab'' else msg_message_id p),
          msg_attachments := number_attachments mid 0 (msg_attachments p),
          msg_size := int (length (msg_raw p)) \<rparr>)"

record pending =
  pd_epoch :: nat
  pd_msg :: message
  pd_candidate :: int
  pd_job :: "spill_job option"

text \<open>\<^verbatim>\<open>Insert\<close> up to the lock, and from the lock on with its deferred unlink.\<close>

definition insert_begin ::
  "io \<Rightarrow> (bytes \<Rightarrow> message) \<Rightarrow> int \<Rightarrow> bytes \<Rightarrow> bool \<Rightarrow> nat \<Rightarrow> message option \<Rightarrow> inbox
    \<Rightarrow> (store_error + pending) \<times> inbox" where
  "insert_begin io parse now mid ctx_done epoch msg m =
     (if ctx_done then (Inl ErrCtx, m)
      else case msg of
          None \<Rightarrow> (Inl (ErrOther ''nil message''), m)
        | Some msg0 \<Rightarrow>
            let p = prepare_message parse now mid msg0; c = resident_bytes p
            in if c > ib_max_bytes m then (Inl ErrTooLarge, m)
               else case write_spill_temps io (ib_spill_dir m) (ib_spill_threshold m) p (ib_disk m) of
                   (Inl e, d) \<Rightarrow> (Inl e, m \<lparr> ib_disk := d \<rparr>)
                 | (Inr job, d) \<Rightarrow>
                     (Inr \<lparr> pd_epoch = epoch, pd_msg = p, pd_candidate = c, pd_job = job \<rparr>, m \<lparr> ib_disk := d \<rparr>))"

definition insert_commit :: "io \<Rightarrow> pending \<Rightarrow> inbox \<Rightarrow> (store_error + insert_result) \<times> inbox" where
  "insert_commit io pd m =
     (let mid = msg_id (pd_msg pd); c = pd_candidate pd;
          fail = (\<lambda>e job m1. (Inl e, m1 \<lparr> ib_disk := unlink_spill_job io job (ib_disk m1) \<rparr>))
      in if pd_epoch pd \<noteq> ib_epoch m then fail ErrStaleEpoch (pd_job pd) m
         else case can_accept c m of
             Some e \<Rightarrow> fail e (pd_job pd) m
           | None \<Rightarrow>
             (case commit_spill io \<lparr> r_msg = pd_msg pd, r_resident = c, r_raw_spill = None, r_att_spill = [] \<rparr>
                     (pd_job pd) (ib_disk m) of
                (Some e, r, job, d) \<Rightarrow> fail e job (m \<lparr> ib_disk := d \<rparr>)
              | (None, r, job, d) \<Rightarrow>
                (case evict_until_fits io c (m \<lparr> ib_disk := d \<rparr>) of
                   (Some e, m1) \<Rightarrow> fail e job (m1 \<lparr> ib_disk := snd (unlink_record io r (ib_disk m1)) \<rparr>)
                 | (None, m1) \<Rightarrow>
                     let by = AList.update mid r (ib_by_id m1);
                         g = Suc (ib_generation m1);
                         m2 = m1 \<lparr> ib_by_id := by,
                                   ib_order := insert_order by mid (received_at (pd_msg pd)) (ib_order m1),
                                   ib_bytes := ib_bytes m1 + c, ib_generation := g \<rparr>
                     in (Inr \<lparr> ir_id = mid, ir_generation = g \<rparr>,
                         emit \<lparr> ev_type = MailReceived, ev_id = mid, ev_subject = msg_subject (pd_msg pd),
                                ev_generation = g \<rparr> m2))))"

definition memory_insert ::
  "io \<Rightarrow> (bytes \<Rightarrow> message) \<Rightarrow> int \<Rightarrow> bytes \<Rightarrow> bool \<Rightarrow> nat \<Rightarrow> message option \<Rightarrow> inbox
    \<Rightarrow> (store_error + insert_result) \<times> inbox" where
  "memory_insert io parse now mid ctx_done epoch msg m =
     (case insert_begin io parse now mid ctx_done epoch msg m of
        (Inl e, m1) \<Rightarrow> (Inl e, m1)
      | (Inr pd, m1) \<Rightarrow> insert_commit io pd m1)"

section \<open>The other operations\<close>

text \<open>\<^verbatim>\<open>Get\<close> takes a snapshot under the lock, reads the spill files without it, and takes the lock
  again: \<open>m1\<close>, \<open>d\<close> and \<open>m2\<close> are the inbox at the first lock, the disk at the reads and the inbox
  at the second lock.\<close>

definition set_read :: "bytes \<Rightarrow> inbox \<Rightarrow> inbox" where
  "set_read mid m = (case lookup (ib_by_id m) mid of
       None \<Rightarrow> m
     | Some r \<Rightarrow> m \<lparr> ib_by_id := AList.update mid (r \<lparr> r_msg := (r_msg r) \<lparr> msg_read := True \<rparr> \<rparr>) (ib_by_id m) \<rparr>)"

definition memory_get :: "io \<Rightarrow> bytes \<Rightarrow> bool \<Rightarrow> inbox \<Rightarrow> disk \<Rightarrow> inbox \<Rightarrow> (store_error + message) \<times> inbox" where
  "memory_get io mid mark m1 d m2 = (case lookup (ib_by_id m1) mid of
       None \<Rightarrow> (Inl ErrNotFound, m2)
     | Some r \<Rightarrow> (case load_spill io r d of
           Inl e \<Rightarrow> (if e = NotExist \<and> lookup (ib_by_id m2) mid = None then Inl ErrNotFound
                     else Inl (ErrSpill ''load''), m2)
         | Inr msg \<Rightarrow> (case lookup (ib_by_id m2) mid of
               None \<Rightarrow> (Inl ErrNotFound, m2)
             | Some r2 \<Rightarrow> if mark then (Inr (msg \<lparr> msg_read := True \<rparr>), set_read mid m2)
                          else (Inr msg, m2))))"

definition memory_delete :: "io \<Rightarrow> bytes \<Rightarrow> inbox \<Rightarrow> store_error option \<times> inbox" where
  "memory_delete io mid m = (case lookup (ib_by_id m) mid of
       None \<Rightarrow> (Some ErrNotFound, m) | Some _ \<Rightarrow> (None, remove_locked io mid False m))"

definition delete_all :: "io \<Rightarrow> inbox \<Rightarrow> nat \<times> inbox" where
  "delete_all io m = (let n = length (ib_by_id m) in
     if n = 0 then (0, m)
     else (n, fold (\<lambda>mid. remove_locked io mid False) (ib_order m) m))"

definition mark_read :: "bytes \<Rightarrow> inbox \<Rightarrow> store_error option \<times> inbox" where
  "mark_read mid m = (case lookup (ib_by_id m) mid of
       None \<Rightarrow> (Some ErrNotFound, m) | Some _ \<Rightarrow> (None, set_read mid m))"

definition mark_all_read :: "inbox \<Rightarrow> nat \<times> inbox" where
  "mark_all_read m =
     (length (filter (\<lambda>(k, r). \<not> msg_read (r_msg r)) (ib_by_id m)),
      m \<lparr> ib_by_id := map (\<lambda>(k, r). (k, r \<lparr> r_msg := (r_msg r) \<lparr> msg_read := True \<rparr> \<rparr>)) (ib_by_id m) \<rparr>)"

definition memory_stats :: "inbox \<Rightarrow> store_stats" where
  "memory_stats m = \<lparr> st_count = length (ib_by_id m), st_bytes = ib_bytes m,
     st_unread = length (filter (\<lambda>(k, r). \<not> msg_read (r_msg r)) (ib_by_id m)),
     st_generation = ib_generation m, st_epoch = ib_epoch m, st_evictions = ib_evictions m \<rparr>"

definition over_caps :: "options \<Rightarrow> inbox \<Rightarrow> bool" where
  "over_caps op m = (int (length (ib_by_id m)) > o_max_messages op \<or> ib_bytes m > o_max_bytes op)"

definition replace_caps :: "io \<Rightarrow> options \<Rightarrow> bool \<Rightarrow> inbox \<Rightarrow> store_error option \<times> inbox" where
  "replace_caps io opts force m = (case normalize_options opts of
       Inl e \<Rightarrow> (Some e, m)
     | Inr op \<Rightarrow>
         let over = over_caps op m
         in if over \<and> o_full_policy op \<noteq> evict_policy \<and> \<not> force then (Some ErrOverNewCap, m)
            else let m1 = m \<lparr> ib_max_messages := o_max_messages op, ib_max_bytes := o_max_bytes op,
                              ib_full_policy := o_full_policy op \<rparr>
                 in if over then (case evict_until_under_caps io m1 of
                        (Some e, m2) \<Rightarrow> (Some ErrOverNewCap, m2) | (None, m2) \<Rightarrow> (None, m2))
                    else (None, m1))"

definition install_options :: "options \<Rightarrow> inbox \<Rightarrow> inbox" where
  "install_options op m = m \<lparr> ib_max_messages := o_max_messages op, ib_max_bytes := o_max_bytes op,
     ib_full_policy := o_full_policy op, ib_max_wait := o_max_wait op,
     ib_spill_dir := o_spill_dir op, ib_spill_threshold := o_spill_threshold op \<rparr>"

definition configure :: "io \<Rightarrow> options \<Rightarrow> inbox \<Rightarrow> store_error option \<times> inbox" where
  "configure io opts m = (case normalize_options opts of
       Inl e \<Rightarrow> (Some e, m)
     | Inr op \<Rightarrow> (case ensure_spill_dir io (o_spill_dir op) of
           Some e \<Rightarrow> (Some e, m)
         | None \<Rightarrow>
             let over = over_caps op m
             in if over \<and> o_full_policy op \<noteq> evict_policy then (Some ErrOverNewCap, m)
                else let m1 = install_options op m
                     in if over then (case evict_until_under_caps io m1 of
                            (Some e, m2) \<Rightarrow> (Some ErrOverNewCap, m2) | (None, m2) \<Rightarrow> (None, m2))
                        else (None, m1)))"

text \<open>What \<^verbatim>\<open>Wipe\<close> and \<^verbatim>\<open>ResetTo\<close> do before the new options and the event.\<close>

definition clear_inbox :: "io \<Rightarrow> inbox \<Rightarrow> inbox" where
  "clear_inbox io m = m \<lparr> ib_epoch := Suc (ib_epoch m), ib_generation := Suc (ib_generation m),
     ib_by_id := [], ib_order := [], ib_bytes := 0,
     ib_disk := snd (unlink_all_spill io (ib_spill_dir m) (ib_disk m)) \<rparr>"

definition wiped_event :: "inbox \<Rightarrow> event" where
  "wiped_event m = \<lparr> ev_type = StoreWiped, ev_id = [], ev_subject = [], ev_generation = ib_generation m \<rparr>"

definition wipe :: "io \<Rightarrow> inbox \<Rightarrow> inbox" where
  "wipe io m = (let m1 = clear_inbox io m in emit (wiped_event m1) m1)"

definition reset_to :: "io \<Rightarrow> options \<Rightarrow> inbox \<Rightarrow> store_error option \<times> inbox" where
  "reset_to io opts m = (case normalize_options opts of
       Inl e \<Rightarrow> (Some e, m)
     | Inr op \<Rightarrow> let m1 = install_options op (clear_inbox io m) in (None, emit (wiped_event m1) m1))"

end
