(* ===== verification/Inbox_Inv.thy ===== *)
theory Inbox_Inv
  imports Inbox
begin

text \<open>
  The invariant of the inbox and what each operation does to the index, the order, the byte count
  and the events.
\<close>

section \<open>The invariant\<close>

definition at_of :: "(bytes \<times> stored) list \<Rightarrow> bytes \<Rightarrow> int" where
  "at_of by k = (case lookup by k of None \<Rightarrow> 0 | Some r \<Rightarrow> received_at (r_msg r))"

definition res_of :: "(bytes \<times> stored) list \<Rightarrow> bytes \<Rightarrow> int" where
  "res_of by k = (case lookup by k of None \<Rightarrow> 0 | Some r \<Rightarrow> r_resident r)"

definition before_key :: "int \<Rightarrow> bytes \<Rightarrow> int \<Rightarrow> bytes \<Rightarrow> bool" where
  "before_key t a u b = (t < u \<or> (t = u \<and> a < b))"

definition earlier :: "(bytes \<times> stored) list \<Rightarrow> bytes \<Rightarrow> bytes \<Rightarrow> bool" where
  "earlier by a b = before_key (at_of by a) a (at_of by b) b"

definition index_ok :: "(bytes \<times> stored) list \<Rightarrow> bytes list \<Rightarrow> bool" where
  "index_ok by ids \<longleftrightarrow> distinct (keys by) \<and> distinct ids \<and> set ids = set (keys by)
     \<and> sorted_wrt (earlier by) ids \<and> (\<forall>k r. lookup by k = Some r \<longrightarrow> msg_id (r_msg r) = k \<and> 0 \<le> r_resident r)"

definition core_inv :: "inbox \<Rightarrow> bool" where
  "core_inv m \<longleftrightarrow> index_ok (ib_by_id m) (ib_order m)
     \<and> ib_bytes m = sum_list (map (res_of (ib_by_id m)) (ib_order m))
     \<and> 0 < ib_max_messages m \<and> 0 < ib_max_bytes m
     \<and> (ib_full_policy m = reject_policy \<or> ib_full_policy m = evict_policy)"

definition inbox_inv :: "inbox \<Rightarrow> bool" where
  "inbox_inv m \<longleftrightarrow> core_inv m \<and> occupancy_ok m"

lemma core_invD:
  assumes "core_inv m"
  shows "distinct (keys (ib_by_id m))" "distinct (ib_order m)" "set (ib_order m) = set (keys (ib_by_id m))"
    "length (ib_by_id m) = length (ib_order m)"
    "ib_bytes m = sum_list (map (res_of (ib_by_id m)) (ib_order m))"
proof -
  show a: "distinct (keys (ib_by_id m))" "distinct (ib_order m)" "set (ib_order m) = set (keys (ib_by_id m))"
    and "ib_bytes m = sum_list (map (res_of (ib_by_id m)) (ib_order m))"
    using assms by (auto simp: core_inv_def index_ok_def)
  show "length (ib_by_id m) = length (ib_order m)"
    using a distinct_card[of "ib_order m"] distinct_card[of "keys (ib_by_id m)"] by simp
qed

lemma res_nonneg: "index_ok by ids \<Longrightarrow> 0 \<le> res_of by k"
  by (auto simp: res_of_def index_ok_def split: option.splits)

lemma res_sum_nonneg: "index_ok by ids \<Longrightarrow> 0 \<le> sum_list (map (res_of by) xs)"
  by (rule sum_list_nonneg) (auto simp: res_nonneg)

lemma core_bytes_nonneg: "core_inv m \<Longrightarrow> 0 \<le> ib_bytes m"
  by (auto simp: core_inv_def intro: res_sum_nonneg)

section \<open>Fields the operations leave alone\<close>

lemma emit_fields [simp]:
  "ib_by_id (emit ev m) = ib_by_id m" "ib_order (emit ev m) = ib_order m" "ib_bytes (emit ev m) = ib_bytes m"
  "ib_max_messages (emit ev m) = ib_max_messages m" "ib_max_bytes (emit ev m) = ib_max_bytes m"
  "ib_full_policy (emit ev m) = ib_full_policy m" "ib_epoch (emit ev m) = ib_epoch m"
  "ib_generation (emit ev m) = ib_generation m" "ib_evictions (emit ev m) = ib_evictions m"
  "ib_disk (emit ev m) = ib_disk m" "ib_spill_dir (emit ev m) = ib_spill_dir m"
  "ib_spill_threshold (emit ev m) = ib_spill_threshold m" "ib_max_wait (emit ev m) = ib_max_wait m"
  "ib_next_sub (emit ev m) = ib_next_sub m"
  by (simp_all add: emit_def)

lemma core_inv_cong:
  assumes "ib_by_id m' = ib_by_id m" "ib_order m' = ib_order m" "ib_bytes m' = ib_bytes m"
    "ib_max_messages m' = ib_max_messages m" "ib_max_bytes m' = ib_max_bytes m" "ib_full_policy m' = ib_full_policy m"
  shows "core_inv m' = core_inv m" "inbox_inv m' = inbox_inv m"
  using assms by (simp_all add: core_inv_def inbox_inv_def occupancy_ok_def)

lemma fits_emit [simp]: "fits c (emit ev m) = fits c m"
  by (simp add: fits_def)

section \<open>Removal\<close>

lemma remove_locked_fields [simp]:
  "ib_max_messages (remove_locked io k e m) = ib_max_messages m"
  "ib_max_bytes (remove_locked io k e m) = ib_max_bytes m"
  "ib_full_policy (remove_locked io k e m) = ib_full_policy m"
  "ib_max_wait (remove_locked io k e m) = ib_max_wait m"
  "ib_spill_dir (remove_locked io k e m) = ib_spill_dir m"
  "ib_spill_threshold (remove_locked io k e m) = ib_spill_threshold m"
  "ib_epoch (remove_locked io k e m) = ib_epoch m"
  by (simp_all add: remove_locked_def Let_def split: option.splits)

lemma remove1_filter: "distinct xs \<Longrightarrow> remove1 x xs = filter (\<lambda>y. y \<noteq> x) xs"
  by (simp add: distinct_remove1_removeAll removeAll_filter_not_eq) (metis (mono_tags) filter_cong)

lemma sum_filter_out:
  fixes f :: "'a \<Rightarrow> int"
  shows "distinct xs \<Longrightarrow> x \<in> set xs \<Longrightarrow>
    sum_list (map f (filter (\<lambda>y. y \<noteq> x) xs)) = sum_list (map f xs) - f x"
  using sum_list_map_remove1[of x xs f] by (simp add: remove1_filter)

lemma index_ok_delete:
  assumes "index_ok by ids"
  shows "index_ok (AList.delete k by) (filter (\<lambda>x. x \<noteq> k) ids)"
proof -
  have "sorted_wrt (earlier by) (filter (\<lambda>x. x \<noteq> k) ids)"
    using assms by (auto simp: index_ok_def intro: sorted_wrt_filter)
  then have "sorted_wrt (earlier (AList.delete k by)) (filter (\<lambda>x. x \<noteq> k) ids)"
    by (rule sorted_wrt_mono_rel[rotated]) (auto simp: earlier_def at_of_def)
  then show ?thesis using assms by (auto simp: index_ok_def keys_delete)
qed

lemma remove_locked_shape:
  assumes "core_inv m" "k \<in> set (ib_order m)"
  shows "ib_by_id (remove_locked io k e m) = AList.delete k (ib_by_id m)"
    and "ib_order (remove_locked io k e m) = filter (\<lambda>x. x \<noteq> k) (ib_order m)"
    and "ib_bytes (remove_locked io k e m) = ib_bytes m - res_of (ib_by_id m) k"
    and "ib_generation (remove_locked io k e m) = Suc (ib_generation m)"
proof -
  from assms obtain r where r: "lookup (ib_by_id m) k = Some r"
    using core_invD(3) lookup_None_iff by (metis not_None_eq)
  have d: "distinct (ib_order m)" using assms core_invD by blast
  have sp: "sum_list (map (res_of (ib_by_id m)) (filter (\<lambda>x. x \<noteq> k) (ib_order m))) = ib_bytes m - r_resident r"
    using sum_filter_out[OF d assms(2), of "res_of (ib_by_id m)"] core_invD(5)[OF assms(1)] r
    by (simp add: res_of_def)
  have "0 \<le> ib_bytes m - r_resident r"
    unfolding sp[symmetric] using assms(1) by (auto simp: core_inv_def intro: res_sum_nonneg)
  then show "ib_by_id (remove_locked io k e m) = AList.delete k (ib_by_id m)"
    "ib_order (remove_locked io k e m) = filter (\<lambda>x. x \<noteq> k) (ib_order m)"
    "ib_bytes (remove_locked io k e m) = ib_bytes m - res_of (ib_by_id m) k"
    "ib_generation (remove_locked io k e m) = Suc (ib_generation m)"
    using r d by (simp_all add: remove_locked_def Let_def remove1_filter res_of_def)
qed

lemma remove_locked_absent: "k \<notin> set (ib_order m) \<Longrightarrow> core_inv m \<Longrightarrow> remove_locked io k e m = m"
  using core_invD(3)[of m] lookup_None_iff[of "ib_by_id m" k] by (simp add: remove_locked_def)

lemma remove_locked_core [intro]:
  assumes "core_inv m"
  shows "core_inv (remove_locked io k e m)"
proof (cases "k \<in> set (ib_order m)")
  case True
  note sh = remove_locked_shape[OF assms True]
  let ?ids = "filter (\<lambda>x. x \<noteq> k) (ib_order m)"
  have "sum_list (map (res_of (AList.delete k (ib_by_id m))) ?ids) = sum_list (map (res_of (ib_by_id m)) ?ids)"
    by (rule arg_cong[where f = sum_list]) (auto simp: res_of_def)
  also have "\<dots> = ib_bytes m - res_of (ib_by_id m) k"
    using sum_filter_out[of "ib_order m" k] core_invD[OF assms] True by simp
  finally show ?thesis using assms sh index_ok_delete by (auto simp: core_inv_def)
next
  case False
  then show ?thesis using assms by (simp add: remove_locked_absent)
qed

lemma remove_locked_order:
  "core_inv m \<Longrightarrow> ib_order (remove_locked io k e m) = filter (\<lambda>x. x \<noteq> k) (ib_order m)"
  by (cases "k \<in> set (ib_order m)")
    (auto simp: remove_locked_shape remove_locked_absent intro!: filter_True[symmetric])

lemma remove_locked_occupancy:
  assumes "core_inv m" "occupancy_ok m"
  shows "occupancy_ok (remove_locked io k e m)"
proof (cases "k \<in> set (ib_order m)")
  case True
  note sh = remove_locked_shape[OF assms(1) True]
  have "length (AList.delete k (ib_by_id m)) \<le> length (ib_by_id m)" by (rule length_delete_le)
  moreover have "0 \<le> res_of (ib_by_id m) k" using assms(1) by (auto simp: core_inv_def intro: res_nonneg)
  ultimately show ?thesis using assms(2) sh by (auto simp: occupancy_ok_def)
next
  case False
  then show ?thesis using assms by (simp add: remove_locked_absent)
qed

lemma remove_hd_order:
  assumes "core_inv m" "ib_order m = k # ids"
  shows "ib_order (remove_locked io k e m) = ids"
  using core_invD(2)[OF assms(1)] assms by (auto simp: remove_locked_order intro!: filter_True)

section \<open>Eviction\<close>

lemma evict_loop_core: "core_inv m \<Longrightarrow> core_inv (evict_loop io okp n m)"
  by (induction n arbitrary: m) auto

lemma evict_loop_fields [simp]:
  "ib_max_messages (evict_loop io okp n m) = ib_max_messages m"
  "ib_max_bytes (evict_loop io okp n m) = ib_max_bytes m"
  "ib_full_policy (evict_loop io okp n m) = ib_full_policy m"
  "ib_max_wait (evict_loop io okp n m) = ib_max_wait m"
  "ib_spill_dir (evict_loop io okp n m) = ib_spill_dir m"
  "ib_spill_threshold (evict_loop io okp n m) = ib_spill_threshold m"
  "ib_epoch (evict_loop io okp n m) = ib_epoch m"
  by (induction n arbitrary: m) auto

text \<open>With the length of the order as fuel the loop stops where the code's loop does.\<close>

lemma evict_loop_exit:
  "core_inv m \<Longrightarrow> length (ib_order m) \<le> n \<Longrightarrow>
     ib_order (evict_loop io okp n m) = [] \<or> okp (evict_loop io okp n m)"
proof (induction n arbitrary: m)
  case (Suc n)
  show ?case
  proof (cases "ib_order m")
    case (Cons k ids)
    have "length (ib_order (remove_locked io k True m)) \<le> n"
      using Suc.prems Cons by (simp add: remove_hd_order)
    then show ?thesis using Suc.IH[of "remove_locked io k True m"] Suc.prems Cons by auto
  qed simp
qed simp

text \<open>What the loop keeps: the shortest suffix of the order that satisfies the test.\<close>

definition kept :: "inbox \<Rightarrow> nat \<Rightarrow> inbox \<Rightarrow> bool" where
  "kept m j m' \<longleftrightarrow> ib_order m' = drop j (ib_order m)
     \<and> (\<forall>k\<in>set (ib_order m'). lookup (ib_by_id m') k = lookup (ib_by_id m) k)"

lemma evict_loop_drop:
  assumes "core_inv m"
  shows "\<exists>j\<le>length (ib_order m). kept m j (evict_loop io okp n m)
     \<and> ib_generation (evict_loop io okp n m) = ib_generation m + j
     \<and> (\<forall>i<j. \<exists>m'. kept m i m' \<and> core_inv m' \<and> \<not> okp m' \<and> ib_max_messages m' = ib_max_messages m
            \<and> ib_max_bytes m' = ib_max_bytes m)"
  using assms
proof (induction n arbitrary: m)
  case 0
  then show ?case by (auto simp: kept_def intro!: exI[of _ 0])
next
  case (Suc n)
  show ?case
  proof (cases "ib_order m \<noteq> [] \<and> \<not> okp m")
    case True
    then obtain k ids where o: "ib_order m = k # ids" by (cases "ib_order m") auto
    let ?m1 = "remove_locked io k True m"
    have o1: "ib_order ?m1 = ids" using remove_hd_order[OF Suc.prems o] .
    have by1: "ib_by_id ?m1 = AList.delete k (ib_by_id m)" "ib_generation ?m1 = Suc (ib_generation m)"
      using remove_locked_shape[OF Suc.prems, of k] o by auto
    have kn: "k \<notin> set ids" using core_invD(2)[OF Suc.prems] o by simp
    have lift: "kept m (Suc i) m'" if "kept ?m1 i m'" for i m'
      using that kn by (auto simp: kept_def o o1 by1 dest: in_set_dropD)
    obtain j where j: "j \<le> length ids" "kept ?m1 j (evict_loop io okp n ?m1)"
      "ib_generation (evict_loop io okp n ?m1) = ib_generation ?m1 + j"
      and mid: "\<forall>i<j. \<exists>m'. kept ?m1 i m' \<and> core_inv m' \<and> \<not> okp m' \<and> ib_max_messages m' = ib_max_messages ?m1
            \<and> ib_max_bytes m' = ib_max_bytes ?m1"
      using Suc.IH[OF remove_locked_core[OF Suc.prems, of io k True]] o1 by auto
    have "\<forall>i<Suc j. \<exists>m'. kept m i m' \<and> core_inv m' \<and> \<not> okp m' \<and> ib_max_messages m' = ib_max_messages m
            \<and> ib_max_bytes m' = ib_max_bytes m"
    proof (intro allI impI)
      fix i assume i: "i < Suc j"
      show "\<exists>m'. kept m i m' \<and> core_inv m' \<and> \<not> okp m' \<and> ib_max_messages m' = ib_max_messages m
            \<and> ib_max_bytes m' = ib_max_bytes m"
      proof (cases i)
        case 0
        then show ?thesis using True Suc.prems by (auto simp: kept_def intro!: exI[of _ m])
      next
        case (Suc i')
        then show ?thesis using mid i lift by (auto simp: less_Suc_eq_le) (metis Suc_le_lessD)
      qed
    qed
    then show ?thesis using j lift True o by1 by (intro exI[of _ "Suc j"]) auto
  next
    case False
    then have e: "evict_loop io okp (Suc n) m = m" by auto
    show ?thesis unfolding e by (intro exI[of _ 0]) (simp add: kept_def)
  qed
qed

lemma core_inv_empty:
  "core_inv m \<Longrightarrow> ib_order m = [] \<Longrightarrow> ib_by_id m = [] \<and> ib_bytes m = 0"
  using core_invD[of m] by simp

text \<open>The dry run of \<^verbatim>\<open>canAcceptLocked\<close> under the eviction policy: it accepts what fits an empty
  inbox.\<close>

lemma accept_loop_iff:
  assumes "0 < ib_max_messages m" "index_ok (ib_by_id m) all_ids"
    and "distinct ids" "set ids \<subseteq> set (keys (ib_by_id m))"
  shows "accept_loop m c (sum_list (map (res_of (ib_by_id m)) ids)) (int (length ids)) ids
     \<longleftrightarrow> c \<le> ib_max_bytes m"
  using assms(3,4)
proof (induction ids)
  case Nil
  then show ?case using assms(1) by simp
next
  case (Cons k ids)
  let ?S = "\<lambda>xs. sum_list (map (res_of (ib_by_id m)) xs)"
  obtain r where r: "lookup (ib_by_id m) k = Some r"
    using Cons.prems lookup_None_iff by (metis insert_subset list.simps(15) not_None_eq)
  have rk: "res_of (ib_by_id m) k = r_resident r" using r by (simp add: res_of_def)
  have nn: "0 \<le> ?S ids" "0 \<le> r_resident r" using res_sum_nonneg[OF assms(2)] res_nonneg[OF assms(2), of k] rk by auto
  have "accept_loop m c (?S ids) (int (length ids)) ids \<longleftrightarrow> c \<le> ib_max_bytes m"
    using Cons by auto
  then show ?case using r rk nn by (auto simp: Let_def)
qed

lemma can_accept_iff:
  assumes "core_inv m" "0 \<le> c"
  shows "can_accept c m = None \<longleftrightarrow> fits c m \<or> (ib_full_policy m = evict_policy \<and> c \<le> ib_max_bytes m)"
    and "can_accept c m = None \<or> can_accept c m = Some ErrFull"
  using accept_loop_iff[of m "ib_order m" "ib_order m" c] assms core_invD[OF assms(1)]
  by (auto simp: can_accept_def core_inv_def)

lemma evict_until_fits_iff:
  assumes "core_inv m" "0 \<le> c"
  shows "fst (evict_until_fits io c m) = None \<longleftrightarrow> c \<le> ib_max_bytes m"
proof -
  let ?m' = "evict_loop io (fits c) (length (ib_order m)) m"
  have ci: "core_inv ?m'" using assms(1) by (rule evict_loop_core)
  have "fits c ?m' \<longleftrightarrow> c \<le> ib_max_bytes m"
  proof
    assume "fits c ?m'"
    then show "c \<le> ib_max_bytes m" using core_bytes_nonneg[OF ci] by (simp add: fits_def)
  next
    assume "c \<le> ib_max_bytes m"
    then show "fits c ?m'"
      using evict_loop_exit[OF assms(1) order_refl, of io "fits c"] core_inv_empty[OF ci] assms(1)
      by (auto simp: fits_def core_inv_def)
  qed
  then show ?thesis by (simp add: evict_until_fits_def Let_def)
qed

lemma fits_bound: "core_inv m \<Longrightarrow> 0 \<le> c \<Longrightarrow> fits c m \<Longrightarrow> c \<le> ib_max_bytes m"
  using core_bytes_nonneg[of m] by (simp add: fits_def)

lemma evict_until_under_caps_ok:
  assumes "core_inv m"
  shows "fst (evict_until_under_caps io m) = None" "inbox_inv (snd (evict_until_under_caps io m))"
proof -
  let ?m' = "evict_loop io occupancy_ok (length (ib_order m)) m"
  have ci: "core_inv ?m'" using assms by (rule evict_loop_core)
  have "occupancy_ok ?m'"
    using evict_loop_exit[OF assms order_refl, of io occupancy_ok] core_inv_empty[OF ci] ci
    by (auto simp: occupancy_ok_def core_inv_def)
  then show "fst (evict_until_under_caps io m) = None" "inbox_inv (snd (evict_until_under_caps io m))"
    using ci by (simp_all add: evict_until_under_caps_def Let_def inbox_inv_def)
qed

section \<open>Insertion into the order\<close>

lemma set_insert_order [simp]: "set (insert_order by k t ids) = insert k (set ids)"
  by (induction ids) auto

lemma length_insert_order [simp]: "length (insert_order by k t ids) = Suc (length ids)"
  by (induction ids) auto

lemma distinct_insert_order: "k \<notin> set ids \<Longrightarrow> distinct ids \<Longrightarrow> distinct (insert_order by k t ids)"
  by (induction ids) auto

lemma sum_insert_order:
  fixes f :: "bytes \<Rightarrow> int"
  shows "sum_list (map f (insert_order by k t ids)) = f k + sum_list (map f ids)"
  by (induction ids) auto

lemma before_key_total: "\<not> before_key t a u b \<Longrightarrow> a \<noteq> b \<Longrightarrow> before_key u b t a"
  by (auto simp: before_key_def)

lemma before_key_trans: "before_key t a u b \<Longrightarrow> before_key u b v c \<Longrightarrow> before_key t a v c"
  by (auto simp: before_key_def)

lemma earlier_trans: "earlier by a b \<Longrightarrow> earlier by b c \<Longrightarrow> earlier by a c"
  unfolding earlier_def by (rule before_key_trans)

lemma insert_order_sorted:
  assumes "sorted_wrt (earlier by) ids" "k \<notin> set ids" "\<forall>x\<in>set ids. lookup by x \<noteq> None" "at_of by k = t"
  shows "sorted_wrt (earlier by) (insert_order by k t ids)"
  using assms(1-3)
proof (induction ids)
  case (Cons x ids)
  then obtain r where r: "lookup by x = Some r" by auto
  have cond: "(case lookup by x of None \<Rightarrow> False
      | Some r \<Rightarrow> t < received_at (r_msg r) \<or> (t = received_at (r_msg r) \<and> k < x)) \<longleftrightarrow> earlier by k x"
    unfolding earlier_def before_key_def assms(4) by (simp add: r at_of_def)
  show ?case
  proof (cases "earlier by k x")
    case True
    then have "\<forall>y\<in>set ids. earlier by k y" using Cons.prems earlier_trans by auto
    with True Cons.prems cond show ?thesis by simp
  next
    case False
    then have "earlier by x k" using Cons.prems before_key_total unfolding earlier_def by auto
    with False Cons cond show ?thesis by auto
  qed
qed simp

lemma index_ok_insert:
  assumes "index_ok by ids" "k \<notin> set ids" "msg_id (r_msg r) = k" "0 \<le> r_resident r"
  shows "index_ok (AList.update k r by) (insert_order (AList.update k r by) k (received_at (r_msg r)) ids)"
proof -
  let ?by = "AList.update k r by"
  have dk: "distinct (keys by)" and di: "distinct ids" and se: "set ids = set (keys by)"
    and so: "sorted_wrt (earlier by) ids"
    and rec: "\<And>k r. lookup by k = Some r \<Longrightarrow> msg_id (r_msg r) = k \<and> 0 \<le> r_resident r"
    using assms(1) by (auto simp: index_ok_def)
  have kn: "k \<notin> set (keys by)" using assms(2) se by blast
  then have new: "?by = by @ [(k, r)]" by (rule keys_update_new)
  have "at_of ?by x = at_of by x" if "x \<in> set ids" for x
    using that assms(2) by (auto simp: at_of_def)
  then have "\<And>x y. x \<in> set ids \<Longrightarrow> y \<in> set ids \<Longrightarrow> earlier by x y \<Longrightarrow> earlier ?by x y"
    by (simp add: earlier_def)
  then have srt: "sorted_wrt (earlier ?by) ids"
    by (rule sorted_wrt_mono_rel[OF _ so])
  have dom: "\<forall>x\<in>set ids. lookup ?by x \<noteq> None"
  proof
    fix x assume "x \<in> set ids"
    then have "lookup by x \<noteq> None" using se lookup_None_iff[of "by" x] by blast
    then show "lookup ?by x \<noteq> None" by simp
  qed
  have "at_of ?by k = received_at (r_msg r)" by (simp add: at_of_def)
  with srt dom have "sorted_wrt (earlier ?by) (insert_order ?by k (received_at (r_msg r)) ids)"
    using assms(2) by (intro insert_order_sorted)
  moreover have "distinct (insert_order ?by k (received_at (r_msg r)) ids)"
    using assms(2) di by (rule distinct_insert_order)
  moreover have "distinct (keys ?by)" "set (insert_order ?by k (received_at (r_msg r)) ids) = set (keys ?by)"
    using new dk kn se by simp_all
  moreover have "\<forall>k' r'. lookup ?by k' = Some r' \<longrightarrow> msg_id (r_msg r') = k' \<and> 0 \<le> r_resident r'"
    using rec assms(3,4) by simp
  ultimately show ?thesis unfolding index_ok_def by blast
qed

section \<open>Insert\<close>

text \<open>The successful end of an insert, as one equation.\<close>

definition index_new :: "stored \<Rightarrow> bytes \<Rightarrow> inbox \<Rightarrow> inbox" where
  "index_new r k m = (let by = AList.update k r (ib_by_id m) in
     m \<lparr> ib_by_id := by, ib_order := insert_order by k (received_at (r_msg r)) (ib_order m),
         ib_bytes := ib_bytes m + r_resident r, ib_generation := Suc (ib_generation m) \<rparr>)"

lemma index_new_core:
  assumes "core_inv m" "k \<notin> set (ib_order m)" "msg_id (r_msg r) = k" "0 \<le> r_resident r"
  shows "core_inv (index_new r k m)"
proof -
  let ?by = "AList.update k r (ib_by_id m)"
  have "map (res_of ?by) (ib_order m) = map (res_of (ib_by_id m)) (ib_order m)"
    by (rule map_cong[OF refl]) (use assms(2) in \<open>auto simp: res_of_def\<close>)
  then have "sum_list (map (res_of ?by) (ib_order m)) = sum_list (map (res_of (ib_by_id m)) (ib_order m))"
    by (rule arg_cong)
  moreover have "res_of ?by k = r_resident r" by (simp add: res_of_def)
  moreover have "index_ok ?by (insert_order ?by k (received_at (r_msg r)) (ib_order m))"
    using assms by (intro index_ok_insert) (auto simp: core_inv_def)
  ultimately show ?thesis
    using assms(1) by (simp add: core_inv_def index_new_def Let_def sum_insert_order)
qed

lemma index_new_fits:
  assumes "core_inv m" "k \<notin> set (ib_order m)" "fits (r_resident r) m"
  shows "occupancy_ok (index_new r k m)"
  using assms core_invD(3)[OF assms(1)]
  by (auto simp: occupancy_ok_def fits_def index_new_def Let_def keys_update_new)

lemma commit_spill_keeps:
  assumes "commit_spill io r job d = (e, r', job', d')"
  shows "r_resident r' = r_resident r \<and> msg_id (r_msg r') = msg_id (r_msg r)
    \<and> received_at (r_msg r') = received_at (r_msg r) \<and> msg_subject (r_msg r') = msg_subject (r_msg r)
    \<and> msg_envelope (r_msg r') = msg_envelope (r_msg r) \<and> msg_size (r_msg r') = msg_size (r_msg r)"
  using assms
  by (auto simp: commit_spill_def commit_raw_def unlink_record_def Let_def
      split: option.splits if_splits prod.splits)

lemma disk_update_inv [simp]:
  "core_inv (m \<lparr> ib_disk := d \<rparr>) = core_inv m" "inbox_inv (m \<lparr> ib_disk := d \<rparr>) = inbox_inv m"
  "occupancy_ok (m \<lparr> ib_disk := d \<rparr>) = occupancy_ok m" "fits c (m \<lparr> ib_disk := d \<rparr>) = fits c m"
  by (simp_all add: core_inv_def inbox_inv_def occupancy_ok_def fits_def)

lemma can_accept_disk [simp]: "can_accept c (m \<lparr> ib_disk := d \<rparr>) = can_accept c m"
proof -
  have "accept_loop (m \<lparr> ib_disk := d \<rparr>) c b n ids = accept_loop m c b n ids" for b n ids
    by (induction ids arbitrary: b n) (auto split: option.splits)
  then show ?thesis by (simp add: can_accept_def)
qed

lemma evict_after_accept:
  assumes "core_inv m" "0 \<le> c" "can_accept c m = None"
  shows "fst (evict_until_fits io c (m \<lparr> ib_disk := d \<rparr>)) = None"
  using assms can_accept_iff(1)[OF assms(1,2)] fits_bound[OF assms(1,2)]
  by (auto simp: evict_until_fits_iff)

definition received_event :: "pending \<Rightarrow> inbox \<Rightarrow> event" where
  "received_event pd m = \<lparr> ev_type = MailReceived, ev_id = msg_id (pd_msg pd),
     ev_subject = msg_subject (pd_msg pd), ev_generation = Suc (ib_generation m) \<rparr>"

lemma commit_spill_error: "commit_spill io r job d = (Some e, r', job', d') \<Longrightarrow> \<exists>w. e = ErrSpill w"
  by (auto simp: commit_spill_def Let_def split: option.splits prod.splits if_splits)

lemma insert_commit_cases [consumes 2, case_names stored refused]:
  assumes "core_inv m" "0 \<le> pd_candidate pd"
  obtains
    (stored) r job d m1 where
      "pd_epoch pd = ib_epoch m" "can_accept (pd_candidate pd) m = None"
      "commit_spill io \<lparr> r_msg = pd_msg pd, r_resident = pd_candidate pd, r_raw_spill = None, r_att_spill = [] \<rparr>
         (pd_job pd) (ib_disk m) = (None, r, job, d)"
      "m1 = evict_loop io (fits (pd_candidate pd)) (length (ib_order m)) (m \<lparr> ib_disk := d \<rparr>)"
      "fits (pd_candidate pd) m1"
      "insert_commit io pd m =
         (Inr \<lparr> ir_id = msg_id (pd_msg pd), ir_generation = Suc (ib_generation m1) \<rparr>,
          emit (received_event pd m1) (index_new r (msg_id (pd_msg pd)) m1))"
  | (refused) e job d where
      "insert_commit io pd m = (Inl e, m \<lparr> ib_disk := unlink_spill_job io job d \<rparr>)"
      "(d = ib_disk m \<and> job = pd_job pd) \<or>
        (\<exists>r e2. commit_spill io \<lparr> r_msg = pd_msg pd, r_resident = pd_candidate pd, r_raw_spill = None,
            r_att_spill = [] \<rparr> (pd_job pd) (ib_disk m) = (Some e2, r, job, d))"
      "pd_epoch pd \<noteq> ib_epoch m \<Longrightarrow> e = ErrStaleEpoch"
      "pd_epoch pd = ib_epoch m \<Longrightarrow> can_accept (pd_candidate pd) m \<noteq> None \<Longrightarrow> e = ErrFull"
      "pd_epoch pd = ib_epoch m \<Longrightarrow> can_accept (pd_candidate pd) m = None \<Longrightarrow> \<exists>w. e = ErrSpill w"
proof (cases "pd_epoch pd = ib_epoch m \<and> can_accept (pd_candidate pd) m = None")
  case False
  then show thesis
    using can_accept_iff(2)[OF assms] refused[of ErrStaleEpoch "pd_job pd" "ib_disk m"]
      refused[of ErrFull "pd_job pd" "ib_disk m"]
    by (cases "pd_epoch pd = ib_epoch m") (auto simp: insert_commit_def Let_def)
next
  case acc: True
  let ?r0 = "\<lparr> r_msg = pd_msg pd, r_resident = pd_candidate pd, r_raw_spill = None, r_att_spill = [] \<rparr>"
  obtain er r job d where c: "commit_spill io ?r0 (pd_job pd) (ib_disk m) = (er, r, job, d)"
    by (metis prod.exhaust)
  show thesis
  proof (cases er)
    case (Some e)
    with c have "\<exists>w. e = ErrSpill w" using commit_spill_error by blast
    with c Some acc show thesis
      using refused[of e job d] by (auto simp: insert_commit_def Let_def)
  next
    case None
    let ?m1 = "evict_loop io (fits (pd_candidate pd)) (length (ib_order m)) (m \<lparr> ib_disk := d \<rparr>)"
    have ev: "evict_until_fits io (pd_candidate pd) (m \<lparr> ib_disk := d \<rparr>) = (None, ?m1)"
      and ft: "fits (pd_candidate pd) ?m1"
      using evict_after_accept[OF assms, of io d] acc
      by (auto simp: evict_until_fits_def Let_def split: if_splits)
    have "r_resident r = pd_candidate pd" "received_at (r_msg r) = received_at (pd_msg pd)"
      using commit_spill_keeps[OF c] by auto
    with c None acc ev ft show thesis
      using stored[of r job d ?m1]
      by (simp add: insert_commit_def Let_def index_new_def received_event_def)
  qed
qed

lemma kept_subset: "kept m j m' \<Longrightarrow> set (ib_order m') \<subseteq> set (ib_order m)"
  by (auto simp: kept_def dest: in_set_dropD)

lemma evict_loop_subset:
  "core_inv m \<Longrightarrow> set (ib_order (evict_loop io okp n m)) \<subseteq> set (ib_order m)"
  using evict_loop_drop kept_subset by metis

lemma insert_commit_inv:
  assumes inv: "inbox_inv m" and c: "0 \<le> pd_candidate pd" and new: "msg_id (pd_msg pd) \<notin> set (ib_order m)"
  shows "inbox_inv (snd (insert_commit io pd m))"
proof -
  have ci: "core_inv m" using inv by (simp add: inbox_inv_def)
  from ci c show ?thesis
  proof (cases rule: insert_commit_cases[where io = io])
    case (stored r job d m1)
    have ci1: "core_inv m1" unfolding stored(4) using ci by (simp add: evict_loop_core)
    have nin: "msg_id (pd_msg pd) \<notin> set (ib_order m1)"
      using evict_loop_subset[of "m \<lparr> ib_disk := d \<rparr>"] ci new unfolding stored(4) by auto
    note k = commit_spill_keeps[OF stored(3)]
    have "core_inv (index_new r (msg_id (pd_msg pd)) m1)"
      using index_new_core[OF ci1 nin, of r] k c by simp
    moreover have "occupancy_ok (index_new r (msg_id (pd_msg pd)) m1)"
      using index_new_fits[OF ci1 nin, of r] k stored(5) by simp
    ultimately show ?thesis using stored(6)
      by (simp add: inbox_inv_def occupancy_ok_def core_inv_def)
  next
    case (refused e job d)
    then show ?thesis using inv by simp
  qed
qed

section \<open>The other operations\<close>

lemma index_ok_map:
  assumes "index_ok by ids" "keys by' = keys by"
    and "\<And>k r'. lookup by' k = Some r' \<Longrightarrow> \<exists>r. lookup by k = Some r \<and> r_resident r' = r_resident r
           \<and> received_at (r_msg r') = received_at (r_msg r) \<and> msg_id (r_msg r') = msg_id (r_msg r)"
  shows "index_ok by' ids \<and> sum_list (map (res_of by') ids) = sum_list (map (res_of by) ids)"
proof -
  have dom: "lookup by' k = None \<longleftrightarrow> lookup by k = None" for k
    using assms(2) by (simp add: lookup_None_iff del: set_map)
  have "at_of by' k = at_of by k \<and> res_of by' k = res_of by k" for k
    using assms(3)[of k] dom[of k] by (cases "lookup by' k") (auto simp: at_of_def res_of_def)
  then have same: "at_of by' = at_of by" "res_of by' = res_of by" by auto
  have "\<forall>k r'. lookup by' k = Some r' \<longrightarrow> msg_id (r_msg r') = k \<and> 0 \<le> r_resident r'"
    using assms(1,3) unfolding index_ok_def by metis
  moreover have "earlier by' = earlier by" using same by (intro ext) (simp add: earlier_def)
  ultimately show ?thesis using assms(1) unfolding index_ok_def same assms(2) by simp
qed

lemma keys_update_old: "k \<in> set (keys m) \<Longrightarrow> keys (AList.update k v m) = keys m"
  by (induction m) auto

lemma set_read_keys: "keys (ib_by_id (set_read k m)) = keys (ib_by_id m)"
proof (cases "lookup (ib_by_id m) k")
  case (Some r)
  then have "k \<in> set (keys (ib_by_id m))" by (metis lookup_None_iff option.distinct(1))
  then show ?thesis using Some by (simp add: set_read_def keys_update_old del: set_map)
qed (simp add: set_read_def)

lemma set_read_inv:
  assumes "inbox_inv m"
  shows "inbox_inv (set_read k m)"
proof -
  let ?by = "ib_by_id (set_read k m)"
  have "index_ok ?by (ib_order m) \<and> sum_list (map (res_of ?by) (ib_order m)) = sum_list (map (res_of (ib_by_id m)) (ib_order m))"
    using assms by (intro index_ok_map set_read_keys)
      (auto simp: inbox_inv_def core_inv_def set_read_def split: option.splits if_splits)
  moreover have "length ?by = length (ib_by_id m)" using set_read_keys[of k m] by (metis length_map)
  ultimately show ?thesis using assms
    by (auto simp: inbox_inv_def core_inv_def occupancy_ok_def set_read_def split: option.splits)
qed

lemma map_read_lookup:
  "lookup (map (\<lambda>(k, r). (k, f r)) xs) k = map_option f (lookup xs k)"
  by (induction xs) auto

lemma mark_all_read_inv:
  assumes "inbox_inv m"
  shows "inbox_inv (snd (mark_all_read m))"
proof -
  let ?f = "\<lambda>r. r \<lparr> r_msg := (r_msg r) \<lparr> msg_read := True \<rparr> \<rparr>"
  let ?by = "map (\<lambda>(k, r). (k, ?f r)) (ib_by_id m)"
  have k: "keys ?by = keys (ib_by_id m)" by (induction "ib_by_id m") auto
  have "index_ok ?by (ib_order m) \<and> sum_list (map (res_of ?by) (ib_order m)) = sum_list (map (res_of (ib_by_id m)) (ib_order m))"
    using assms k by (intro index_ok_map) (auto simp: inbox_inv_def core_inv_def map_read_lookup)
  then show ?thesis using assms
    by (auto simp: inbox_inv_def core_inv_def occupancy_ok_def mark_all_read_def)
qed

lemma remove_locked_inv: "inbox_inv m \<Longrightarrow> inbox_inv (remove_locked io k e m)"
  by (simp add: inbox_inv_def remove_locked_occupancy remove_locked_core)

lemma fold_remove_inv: "inbox_inv m \<Longrightarrow> inbox_inv (fold (\<lambda>k. remove_locked io k e) ids m)"
  by (induction ids arbitrary: m) (simp_all add: remove_locked_inv)

lemma fold_remove_order:
  "core_inv m \<Longrightarrow> ib_order (fold (\<lambda>k. remove_locked io k e) ids m) = filter (\<lambda>x. x \<notin> set ids) (ib_order m)"
  by (induction ids arbitrary: m) (auto simp: remove_locked_order remove_locked_core intro: filter_cong)

lemma normalize_options_ok:
  "normalize_options opts = Inr op \<Longrightarrow> 0 < o_max_messages op \<and> 0 < o_max_bytes op
     \<and> (o_full_policy op = reject_policy \<or> o_full_policy op = evict_policy)
     \<and> o_max_messages op = o_max_messages opts \<and> o_max_bytes op = o_max_bytes opts
     \<and> o_spill_dir op = o_spill_dir opts \<and> (o_spill_dir op \<noteq> [] \<longrightarrow> 0 < o_spill_threshold op)"
  by (auto simp: normalize_options_def Let_def split: if_splits)

lemma normalize_options_idem:
  "normalize_options opts = Inr op \<Longrightarrow> normalize_options op = Inr op"
  by (auto simp: normalize_options_def Let_def split: if_splits)

lemma replace_caps_inv:
  assumes "inbox_inv m"
  shows "inbox_inv (snd (replace_caps io opts force m))"
proof (cases "normalize_options opts")
  case (Inl e)
  then show ?thesis using assms by (simp add: replace_caps_def)
next
  case (Inr op)
  let ?m1 = "m \<lparr> ib_max_messages := o_max_messages op, ib_max_bytes := o_max_bytes op, ib_full_policy := o_full_policy op \<rparr>"
  have c1: "core_inv ?m1" using assms normalize_options_ok[OF Inr] by (auto simp: inbox_inv_def core_inv_def)
  then have "\<not> over_caps op m \<Longrightarrow> inbox_inv ?m1" by (simp add: inbox_inv_def occupancy_ok_def over_caps_def)
  then show ?thesis
    using evict_until_under_caps_ok[OF c1, of io] assms Inr
    by (auto simp: replace_caps_def Let_def split: option.splits prod.splits)
qed

lemma replace_caps_outcome:
  assumes "inbox_inv m"
  shows "(fst (replace_caps io opts force m) \<noteq> None \<longrightarrow> snd (replace_caps io opts force m) = m)
    \<and> (fst (replace_caps io opts force m) = None \<longleftrightarrow>
        (\<exists>op. normalize_options opts = Inr op \<and> (over_caps op m \<longrightarrow> o_full_policy op = evict_policy \<or> force)))
    \<and> (fst (replace_caps io opts force m) = None \<longrightarrow>
        (let m' = snd (replace_caps io opts force m) in
           ib_max_messages m' = o_max_messages opts \<and> ib_max_bytes m' = o_max_bytes opts \<and> occupancy_ok m'
           \<and> (\<exists>j. ib_order m' = drop j (ib_order m)) \<and> ib_epoch m' = ib_epoch m))"
proof (cases "normalize_options opts")
  case (Inl e)
  then show ?thesis by (simp add: replace_caps_def)
next
  case (Inr op)
  let ?m1 = "m \<lparr> ib_max_messages := o_max_messages op, ib_max_bytes := o_max_bytes op, ib_full_policy := o_full_policy op \<rparr>"
  note n = normalize_options_ok[OF Inr]
  have c1: "core_inv ?m1" using assms n by (auto simp: inbox_inv_def core_inv_def)
  let ?ev = "evict_until_under_caps io ?m1"
  have ev: "fst ?ev = None" "occupancy_ok (snd ?ev)"
    using evict_until_under_caps_ok[OF c1, of io] by (auto simp: inbox_inv_def)
  have fl: "ib_max_messages (snd ?ev) = o_max_messages op" "ib_max_bytes (snd ?ev) = o_max_bytes op"
    "ib_epoch (snd ?ev) = ib_epoch m"
    by (simp_all add: evict_until_under_caps_def Let_def)
  have dr: "\<exists>j. ib_order (snd ?ev) = drop j (ib_order m)"
    using evict_loop_drop[OF c1, of io occupancy_ok "length (ib_order m)"]
    by (auto simp: evict_until_under_caps_def Let_def kept_def)
  obtain m2 where m2: "?ev = (None, m2)" using ev(1) by (cases ?ev) auto
  show ?thesis
  proof (cases "over_caps op m")
    case True
    show ?thesis
    proof (cases "o_full_policy op \<noteq> evict_policy \<and> \<not> force")
      case no: True
      with Inr True show ?thesis by (simp add: replace_caps_def Let_def)
    next
      case False
      with Inr True m2 have r: "replace_caps io opts force m = (None, m2)" by (auto simp: replace_caps_def Let_def)
      show ?thesis unfolding r using False Inr True ev fl dr n m2 by (simp add: Let_def)
    qed
  next
    case False
    with Inr have r: "replace_caps io opts force m = (None, ?m1)" by (auto simp: replace_caps_def Let_def)
    have "occupancy_ok ?m1" using False by (simp add: occupancy_ok_def over_caps_def)
    then show ?thesis unfolding r using False Inr n by (auto simp: Let_def intro: exI[of _ 0])
  qed
qed

definition inbox_options :: "inbox \<Rightarrow> options" where
  "inbox_options m = \<lparr> o_max_messages = ib_max_messages m, o_max_bytes = ib_max_bytes m, o_full_policy = ib_full_policy m,
     o_max_wait = ib_max_wait m, o_spill_dir = ib_spill_dir m, o_spill_threshold = ib_spill_threshold m \<rparr>"

lemma replace_caps_options:
  assumes "normalize_options opts = Inr op" "fst (replace_caps io opts force m) = None"
  shows "inbox_options (snd (replace_caps io opts force m)) = (inbox_options m) \<lparr> o_max_messages := o_max_messages op,
    o_max_bytes := o_max_bytes op, o_full_policy := o_full_policy op \<rparr>"
  using assms by (auto simp: replace_caps_def inbox_options_def evict_until_under_caps_def Let_def split: if_splits prod.splits)

lemma configure_inv:
  assumes "inbox_inv m"
  shows "inbox_inv (snd (configure io opts m))"
proof (cases "normalize_options opts")
  case (Inl e)
  then show ?thesis using assms by (simp add: configure_def)
next
  case (Inr op)
  let ?m1 = "install_options op m"
  have c1: "core_inv ?m1" using assms normalize_options_ok[OF Inr]
    by (auto simp: inbox_inv_def core_inv_def install_options_def)
  then have "\<not> over_caps op m \<Longrightarrow> inbox_inv ?m1"
    by (simp add: inbox_inv_def occupancy_ok_def over_caps_def install_options_def)
  then show ?thesis
    using evict_until_under_caps_ok[OF c1, of io] assms Inr
    by (auto simp: configure_def Let_def split: option.splits prod.splits)
qed

lemma clear_inv: "inbox_inv m \<Longrightarrow> inbox_inv (clear_inbox io m)"
  by (auto simp: clear_inbox_def inbox_inv_def core_inv_def index_ok_def occupancy_ok_def)

lemma emit_inv [simp]: "inbox_inv (emit ev m) = inbox_inv m" "core_inv (emit ev m) = core_inv m"
  by (simp_all add: inbox_inv_def core_inv_def occupancy_ok_def)

lemma wipe_inv: "inbox_inv m \<Longrightarrow> inbox_inv (wipe io m)"
  by (simp add: wipe_def Let_def clear_inv)

lemma reset_to_inv:
  assumes "inbox_inv m"
  shows "inbox_inv (snd (reset_to io opts m))"
proof (cases "normalize_options opts")
  case (Inr op)
  have "inbox_inv (install_options op (clear_inbox io m))"
    using normalize_options_ok[OF Inr]
    by (auto simp: clear_inbox_def install_options_def inbox_inv_def core_inv_def index_ok_def occupancy_ok_def)
  then show ?thesis using Inr by (simp add: reset_to_def Let_def)
qed (simp add: reset_to_def assms)

lemma new_memory_inv: "new_memory io opts d = Inr m \<Longrightarrow> inbox_inv m"
  by (auto simp: new_memory_def inbox_inv_def core_inv_def index_ok_def occupancy_ok_def
      split: sum.splits option.splits prod.splits dest!: normalize_options_ok)

end
