(* ===== verification/Inbox_Steps.thy ===== *)
theory Inbox_Steps
  imports Inbox_Inv
begin

text \<open>
  The inbox under concurrency: a transition system whose states are the inbox, the inserts that
  have written their temporary files and wait for the lock, and a log of what was accepted (kept
  for the statements only).  Each critical section of the code is one step.
\<close>

declare split_paired_All [simp del] split_paired_Ex [simp del]

section \<open>Steps\<close>

datatype store_call =
    DeleteCall bytes | DeleteAllCall | MarkReadCall bytes | MarkAllReadCall
  | GetCall bytes bool inbox disk
  | ReplaceCapsCall options bool | ConfigureCall options | ResetToCall options | WipeCall
  | SubscribeCall int | CancelCall nat | ReceiveCall nat

text \<open>\<open>ReceiveCall\<close> is the consumer at the other end of a subscriber's channel.\<close>

definition receive_event :: "nat \<Rightarrow> inbox \<Rightarrow> inbox" where
  "receive_event k m = m \<lparr> ib_subs := map (\<lambda>(j, s). (j, if j = k then s \<lparr> sub_queue := tl (sub_queue s) \<rparr> else s)) (ib_subs m) \<rparr>"

fun run_call :: "io \<Rightarrow> store_call \<Rightarrow> inbox \<Rightarrow> inbox" where
  "run_call io (DeleteCall k) m = snd (memory_delete io k m)"
| "run_call io DeleteAllCall m = snd (delete_all io m)"
| "run_call io (MarkReadCall k) m = snd (mark_read k m)"
| "run_call io MarkAllReadCall m = snd (mark_all_read m)"
| "run_call io (GetCall k mark m1 d) m = snd (memory_get io k mark m1 d m)"
| "run_call io (ReplaceCapsCall op force) m = snd (replace_caps io op force m)"
| "run_call io (ConfigureCall op) m = snd (configure io op m)"
| "run_call io (ResetToCall op) m = snd (reset_to io op m)"
| "run_call io WipeCall m = wipe io m"
| "run_call io (SubscribeCall b) m = snd (subscribe b m)"
| "run_call io (CancelCall k) m = cancel_sub k m"
| "run_call io (ReceiveCall k) m = receive_event k m"

type_synonym accepted = "(bytes \<times> message) list"

definition pending_ids :: "pending list \<Rightarrow> bytes list" where
  "pending_ids P = map (\<lambda>pd. msg_id (pd_msg pd)) P"

text \<open>An insert starts with a fresh ULID and with an epoch that was read from the inbox.\<close>

inductive sys_step ::
  "(bytes \<Rightarrow> message) \<Rightarrow> inbox \<times> pending list \<times> accepted \<Rightarrow> inbox \<times> pending list \<times> accepted \<Rightarrow> bool"
  for parse where
  step_begin: "\<lbrakk> insert_begin io parse now mid ctx_done ep (Some msg) m = (Inr pd, m'); is_ulid mid;
      mid \<notin> set (ib_order m); mid \<notin> set (pending_ids P); sizes_ok msg; ep \<le> ib_epoch m \<rbrakk>
    \<Longrightarrow> sys_step parse (m, P, G) (m', pd # P, G)"
| step_begin_fail: "\<lbrakk> insert_begin io parse now mid ctx_done ep msg m = (Inl e, m'); is_ulid mid;
      mid \<notin> set (ib_order m); mid \<notin> set (pending_ids P) \<rbrakk>
    \<Longrightarrow> sys_step parse (m, P, G) (m', P, G)"
| step_commit: "insert_commit io pd m = (Inr res, m')
    \<Longrightarrow> sys_step parse (m, A @ pd # B, G) (m', A @ B, AList.update (msg_id (pd_msg pd)) (pd_msg pd) G)"
| step_commit_fail: "insert_commit io pd m = (Inl e, m')
    \<Longrightarrow> sys_step parse (m, A @ pd # B, G) (m', A @ B, G)"
| step_call: "sys_step parse (m, P, G) (run_call io c m, P, G)"

inductive sys_reach :: "(bytes \<Rightarrow> message) \<Rightarrow> inbox \<times> pending list \<times> accepted \<Rightarrow> bool" for parse where
  reach_new: "new_memory io opts d = Inr m \<Longrightarrow> sys_reach parse (m, [], [])"
| reach_step: "sys_reach parse s \<Longrightarrow> sys_step parse s s' \<Longrightarrow> sys_reach parse s'"

definition parse_ok :: "(bytes \<Rightarrow> message) \<Rightarrow> bool" where
  "parse_ok parse = (\<forall>raw. list_all (\<lambda>a. 0 \<le> at_size a) (msg_attachments (parse raw)))"

section \<open>Preparing a message\<close>

lemma number_attachments_sizes:
  "list_all (\<lambda>a. 0 \<le> at_size a) as \<Longrightarrow> list_all (\<lambda>a. 0 \<le> at_size a) (number_attachments mid i as)"
  by (induction as arbitrary: i) auto

lemma prepare_sizes:
  assumes "parse_ok parse" "sizes_ok msg"
  shows "sizes_ok (prepare_message parse now mid msg)"
proof -
  have "list_all (\<lambda>a. 0 \<le> at_size a) (msg_attachments (apply_parse parse msg))"
    using assms by (auto simp: apply_parse_def parse_ok_def sizes_ok_def Let_def)
  then show ?thesis
    by (simp add: prepare_message_def sizes_ok_def Let_def number_attachments_sizes)
qed

lemma prepare_id [simp]: "msg_id (prepare_message parse now mid msg) = mid"
  by (simp add: prepare_message_def Let_def)

lemma insert_begin_ok:
  assumes "insert_begin io parse now mid ctx_done ep (Some msg) m = (Inr pd, m')"
  shows "pd_msg pd = prepare_message parse now mid msg" "pd_epoch pd = ep"
    "pd_candidate pd = resident_bytes (pd_msg pd)"
    "write_spill_temps io (ib_spill_dir m) (ib_spill_threshold m) (pd_msg pd) (ib_disk m) = (Inr (pd_job pd), ib_disk m')"
    "m' = m \<lparr> ib_disk := ib_disk m' \<rparr>"
  using assms by (auto simp: insert_begin_def Let_def split: if_splits sum.splits prod.splits)

lemma insert_begin_fail:
  assumes "insert_begin io parse now mid ctx_done ep msg m = (Inl e, m')"
  shows "m' = m \<lparr> ib_disk := ib_disk m' \<rparr> \<and> (\<forall>p. \<not> owned mid p \<longrightarrow> lookup (ib_disk m') p = lookup (ib_disk m) p)"
  using assms
  by (auto simp: insert_begin_def Let_def split: if_splits sum.splits prod.splits option.splits
      dest: write_spill_temps_frame)

section \<open>Structural invariant\<close>

lemma run_call_inv:
  assumes "inbox_inv m"
  shows "inbox_inv (run_call io c m)"
proof (cases c)
  case (GetCall k mark m1 d)
  then show ?thesis using assms
    by (auto simp: memory_get_def set_read_inv split: option.splits sum.splits)
next
  case DeleteAllCall
  then show ?thesis using assms by (simp add: delete_all_def Let_def fold_remove_inv)
next
  case (SubscribeCall b)
  then show ?thesis using assms by (simp add: subscribe_def Let_def inbox_inv_def core_inv_def occupancy_ok_def)
next
  case (CancelCall k)
  then show ?thesis using assms by (simp add: cancel_sub_def inbox_inv_def core_inv_def occupancy_ok_def)
next
  case (ReceiveCall k)
  then show ?thesis using assms by (simp add: receive_event_def inbox_inv_def core_inv_def occupancy_ok_def)
qed (auto simp: assms memory_delete_def mark_read_def remove_locked_inv set_read_inv mark_all_read_inv
      replace_caps_inv configure_inv reset_to_inv wipe_inv split: option.splits)

section \<open>What is on disk\<close>

definition rec_ok :: "accepted \<Rightarrow> disk \<Rightarrow> bytes \<Rightarrow> stored \<Rightarrow> bool" where
  "rec_ok G d k r \<longleftrightarrow> is_ulid k \<and> (\<forall>p\<in>spill_paths r. owned k p)
     \<and> (\<exists>orig. lookup G k = Some orig \<and> r_resident r = resident_bytes orig
          \<and> load_spill good_io r d = Inr (orig \<lparr> msg_read := msg_read (r_msg r) \<rparr>))"

definition job_ok :: "inbox \<Rightarrow> pending \<Rightarrow> bool" where
  "job_ok m pd \<longleftrightarrow> is_ulid (msg_id (pd_msg pd)) \<and> msg_id (pd_msg pd) \<notin> set (ib_order m)
     \<and> 0 \<le> pd_candidate pd \<and> pd_candidate pd = resident_bytes (pd_msg pd) \<and> pd_epoch pd \<le> ib_epoch m
     \<and> (\<exists>dir thr. pd_job pd = job_of dir thr (pd_msg pd))
     \<and> (pd_epoch pd = ib_epoch m \<longrightarrow> job_holds (pd_job pd) (pd_msg pd) (ib_disk m))"

definition sys_inv :: "inbox \<times> pending list \<times> accepted \<Rightarrow> bool" where
  "sys_inv s = (case s of (m, P, G) \<Rightarrow> inbox_inv m
     \<and> (\<forall>k r. lookup (ib_by_id m) k = Some r \<longrightarrow> rec_ok G (ib_disk m) k r)
     \<and> (\<forall>pd\<in>set P. job_ok m pd) \<and> distinct (pending_ids P))"

definition untouched :: "bytes \<Rightarrow> disk \<Rightarrow> disk \<Rightarrow> bool" where
  "untouched k d d' = (\<forall>p. owned k p \<longrightarrow> lookup d' p = lookup d p)"

lemma untouched_refl [simp]: "untouched k d d"
  by (simp add: untouched_def)

lemma untouchedD: "untouched k d d' \<Longrightarrow> owned k p \<Longrightarrow> lookup d' p = lookup d p"
  by (simp add: untouched_def)

lemma untouched_trans: "untouched k d d' \<Longrightarrow> untouched k d' d'' \<Longrightarrow> untouched k d d''"
  by (simp add: untouched_def)

lemma owned_disjoint:
  "is_ulid j \<Longrightarrow> is_ulid k \<Longrightarrow> j \<noteq> k \<Longrightarrow> owned k p \<Longrightarrow> \<not> owned j p"
  using owned_unique[of j p k] by (auto simp: is_ulid_def)

lemma untouched_other:
  assumes "\<And>p. \<not> owned j p \<Longrightarrow> lookup d' p = lookup d p" "is_ulid j" "is_ulid k" "j \<noteq> k"
  shows "untouched k d d'"
  using assms owned_disjoint unfolding untouched_def by blast

lemma load_atts_cong:
  "(\<And>p. Some p \<in> set ss \<Longrightarrow> lookup d' p = lookup d p) \<Longrightarrow> load_atts io ss as d' = load_atts io ss as d"
proof (induction io ss as d rule: load_atts.induct)
  case (3 io s ss a as d)
  then show ?case by (cases s) (auto simp: Let_def read_file_def split: sum.splits)
qed auto

lemma load_spill_cong:
  assumes "\<And>p. p \<in> spill_paths r \<Longrightarrow> lookup d' p = lookup d p"
  shows "load_spill io r d' = load_spill io r d"
proof -
  have "load_atts io (r_att_spill r) as d' = load_atts io (r_att_spill r) as d" for as
    using assms by (intro load_atts_cong) (auto simp: spill_paths_def)
  then show ?thesis using assms
    by (auto simp: load_spill_def read_file_def spill_paths_def split: option.splits)
qed

lemma rec_ok_frame: "rec_ok G d k r \<Longrightarrow> untouched k d d' \<Longrightarrow> rec_ok G d' k r"
  using load_spill_cong[of r d' d good_io] by (auto simp: rec_ok_def untouched_def)

lemma job_holds_frame:
  assumes "job_holds job m d" "job = job_of dir thr m" "untouched (msg_id m) d d'"
  shows "job_holds job m d'"
proof -
  have t: "lookup d' p = lookup d p" if "p \<in> temps (job_list job)" for p
    using untouchedD[OF assms(3)] job_of_owned[of p dir thr m] that assms(2) by simp
  then show ?thesis using assms(1) temps_hold_frame[of _ "msg_attachments m" d d']
    by (auto simp: job_holds_def job_list_def split: option.splits prod.splits)
qed

lemma job_ok_frame:
  assumes "job_ok m pd" "ib_epoch m' = ib_epoch m" "set (ib_order m') \<subseteq> set (ib_order m)"
    "untouched (msg_id (pd_msg pd)) (ib_disk m) (ib_disk m')"
  shows "job_ok m' pd"
  using assms job_holds_frame by (auto simp: job_ok_def)

lemma job_ok_stale:
  "job_ok m pd \<Longrightarrow> ib_epoch m < ib_epoch m' \<Longrightarrow> set (ib_order m') \<subseteq> set (ib_order m) \<Longrightarrow> job_ok m' pd"
  by (auto simp: job_ok_def)

definition paths_ok :: "inbox \<Rightarrow> bool" where
  "paths_ok m = (\<forall>k r. lookup (ib_by_id m) k = Some r \<longrightarrow> is_ulid k \<and> (\<forall>p\<in>spill_paths r. owned k p))"

lemma remove_locked_disk:
  assumes "paths_ok m"
  shows "is_ulid k \<Longrightarrow> k \<noteq> j \<Longrightarrow> untouched k (ib_disk m) (ib_disk (remove_locked io j e m))"
    and "paths_ok (remove_locked io j e m)"
proof -
  show "untouched k (ib_disk m) (ib_disk (remove_locked io j e m))" if "is_ulid k" "k \<noteq> j"
  proof (cases "lookup (ib_by_id m) j")
    case (Some r)
    have j: "is_ulid j" "\<forall>p\<in>spill_paths r. owned j p" using assms Some by (auto simp: paths_ok_def)
    show ?thesis
      by (rule untouched_other[OF _ j(1) that(1)])
        (use Some j that(2) in \<open>auto simp: remove_locked_def Let_def unlink_record_lookup\<close>)
  qed (simp add: remove_locked_def)
  show "paths_ok (remove_locked io j e m)"
    using assms by (auto simp: paths_ok_def remove_locked_def Let_def split: option.splits if_splits)
qed

lemma remove_locked_lookup:
  "lookup (ib_by_id (remove_locked io j e m)) k = (if k = j then None else lookup (ib_by_id m) k)"
  by (auto simp: remove_locked_def Let_def split: option.splits)

lemma evict_loop_disk:
  assumes "core_inv m" "paths_ok m" "is_ulid k"
    and "k \<notin> set (ib_order m) \<or> k \<in> set (ib_order (evict_loop io okp n m))"
  shows "untouched k (ib_disk m) (ib_disk (evict_loop io okp n m))"
  using assms
proof (induction n arbitrary: m)
  case (Suc n)
  show ?case
  proof (cases "ib_order m \<noteq> [] \<and> \<not> okp m")
    case True
    let ?j = "hd (ib_order m)" let ?m1 = "remove_locked io ?j True m"
    have e: "evict_loop io okp (Suc n) m = evict_loop io okp n ?m1" using True by simp
    have c1: "core_inv ?m1" "paths_ok ?m1" using Suc.prems remove_locked_disk(2) by auto
    have sub: "set (ib_order (evict_loop io okp n ?m1)) \<subseteq> set (ib_order ?m1)"
      using c1(1) by (rule evict_loop_subset)
    have o1: "set (ib_order ?m1) = set (ib_order m) - {?j}"
      using Suc.prems(1) by (auto simp: remove_locked_order)
    have kj: "k \<noteq> ?j" and "k \<notin> set (ib_order ?m1) \<or> k \<in> set (ib_order (evict_loop io okp n ?m1))"
      using Suc.prems(4) True sub o1 unfolding e by auto
    then have "untouched k (ib_disk ?m1) (ib_disk (evict_loop io okp n ?m1))"
      using Suc.IH[OF c1 Suc.prems(3)] by simp
    with remove_locked_disk(1)[OF Suc.prems(2,3) kj] show ?thesis
      unfolding e by (rule untouched_trans)
  next
    case False
    then have "evict_loop io okp (Suc n) m = m" by auto
    then show ?thesis by simp
  qed
qed simp

lemma fold_remove_disk:
  assumes "paths_ok m" "is_ulid k" "k \<notin> set ids"
  shows "untouched k (ib_disk m) (ib_disk (fold (\<lambda>j. remove_locked io j e) ids m))"
  using assms
proof (induction ids arbitrary: m)
  case (Cons j ids)
  have "untouched k (ib_disk m) (ib_disk (remove_locked io j e m))"
    using Cons.prems by (intro remove_locked_disk(1)) auto
  moreover have "untouched k (ib_disk (remove_locked io j e m))
      (ib_disk (fold (\<lambda>j. remove_locked io j e) ids (remove_locked io j e m)))"
    using Cons.prems by (intro Cons.IH) (auto intro: remove_locked_disk(2))
  ultimately show ?case by (auto intro: untouched_trans)
qed simp

section \<open>The invariant is preserved\<close>

text \<open>Most steps keep the epoch, drop some records and leave the files of the others alone.\<close>

definition shrinks :: "inbox \<Rightarrow> inbox \<Rightarrow> bool" where
  "shrinks m m' \<longleftrightarrow> set (ib_order m') \<subseteq> set (ib_order m)
     \<and> (\<forall>k r'. lookup (ib_by_id m') k = Some r' \<longrightarrow>
          (\<exists>r. lookup (ib_by_id m) k = Some r \<and> (r' = r \<or> r' = r \<lparr> r_msg := (r_msg r) \<lparr> msg_read := True \<rparr> \<rparr>))
          \<and> untouched k (ib_disk m) (ib_disk m'))
     \<and> (ib_epoch m' = ib_epoch m \<and> (\<forall>k. is_ulid k \<longrightarrow> k \<notin> set (ib_order m) \<longrightarrow> untouched k (ib_disk m) (ib_disk m'))
        \<or> ib_epoch m < ib_epoch m')"

lemma load_spill_read:
  assumes "load_spill io r d = Inr x"
  shows "load_spill io (r \<lparr> r_msg := (r_msg r) \<lparr> msg_read := b \<rparr> \<rparr>) d = Inr (x \<lparr> msg_read := b \<rparr>)"
  using assms by (auto simp: load_spill_def split: option.splits sum.splits if_splits)

lemma rec_ok_read:
  assumes "rec_ok G d k r"
  shows "rec_ok G d k (r \<lparr> r_msg := (r_msg r) \<lparr> msg_read := True \<rparr> \<rparr>)"
  using assms load_spill_read[of good_io r d _ True] by (fastforce simp: rec_ok_def spill_paths_def)

lemma shrinks_inv:
  assumes "sys_inv (m, P, G)" "shrinks m m'" "inbox_inv m'"
  shows "sys_inv (m', P, G)"
proof -
  have "rec_ok G (ib_disk m') k r'" if l: "lookup (ib_by_id m') k = Some r'" for k r'
  proof -
    obtain r where r: "lookup (ib_by_id m) k = Some r" "r' = r \<or> r' = r \<lparr> r_msg := (r_msg r) \<lparr> msg_read := True \<rparr> \<rparr>"
      "untouched k (ib_disk m) (ib_disk m')"
      using assms(2) l unfolding shrinks_def by blast
    have "rec_ok G (ib_disk m') k r" using assms(1) r by (auto simp: sys_inv_def intro: rec_ok_frame)
    then show ?thesis using r(2) rec_ok_read by auto
  qed
  moreover have "job_ok m' pd" if pd: "pd \<in> set P" for pd
  proof -
    have j: "job_ok m pd" using assms(1) pd by (simp add: sys_inv_def)
    have sub: "set (ib_order m') \<subseteq> set (ib_order m)" using assms(2) by (simp add: shrinks_def)
    show ?thesis
    proof (cases "ib_epoch m < ib_epoch m'")
      case True
      with j sub show ?thesis by (simp add: job_ok_stale)
    next
      case False
      then have e: "ib_epoch m' = ib_epoch m" "untouched (msg_id (pd_msg pd)) (ib_disk m) (ib_disk m')"
        using assms(2) j by (auto simp: shrinks_def job_ok_def)
      show ?thesis using job_ok_frame[OF j e(1) sub e(2)] .
    qed
  qed
  ultimately show ?thesis using assms(1,3) by (simp add: sys_inv_def)
qed

lemma sys_paths_ok: "sys_inv (m, P, G) \<Longrightarrow> paths_ok m"
  unfolding sys_inv_def paths_ok_def rec_ok_def by auto

lemma order_lookup: "core_inv m \<Longrightarrow> k \<in> set (ib_order m) \<longleftrightarrow> lookup (ib_by_id m) k \<noteq> None"
  using core_invD(3)[of m] lookup_None_iff[of "ib_by_id m" k] by simp

lemma shrinks_refl_fields:
  assumes "ib_by_id m' = ib_by_id m" "ib_order m' = ib_order m" "ib_disk m' = ib_disk m" "ib_epoch m' = ib_epoch m"
  shows "shrinks m m'"
  using assms by (auto simp: shrinks_def)

lemma shrinks_remove:
  assumes "core_inv m" "paths_ok m"
  shows "shrinks m (remove_locked io j e m)"
proof (cases "j \<in> set (ib_order m)")
  case True
  have "untouched k (ib_disk m) (ib_disk (remove_locked io j e m))" if "is_ulid k" "k \<noteq> j" for k
    using remove_locked_disk(1)[OF assms(2) that] .
  moreover have "lookup (ib_by_id m) k = Some r \<Longrightarrow> is_ulid k" for k r using assms(2) by (auto simp: paths_ok_def)
  ultimately show ?thesis using assms(1) True
    by (auto simp: shrinks_def remove_locked_lookup remove_locked_order split: if_splits)
next
  case False
  then show ?thesis using assms by (simp add: remove_locked_absent shrinks_refl_fields)
qed

lemma shrinks_evict:
  assumes "core_inv m" "paths_ok m"
  shows "shrinks m (evict_loop io okp n m)"
proof -
  let ?m' = "evict_loop io okp n m"
  obtain j where k: "kept m j ?m'" using evict_loop_drop[OF assms(1)] by blast
  have ci: "core_inv ?m'" using assms(1) by (rule evict_loop_core)
  have sub: "set (ib_order ?m') \<subseteq> set (ib_order m)" using kept_subset[OF k] .
  have "lookup (ib_by_id m) x = Some r \<and> untouched x (ib_disk m) (ib_disk ?m')"
    if l: "lookup (ib_by_id ?m') x = Some r" for x r
  proof -
    have x: "x \<in> set (ib_order ?m')" using order_lookup[OF ci] l by simp
    then have l2: "lookup (ib_by_id m) x = Some r" using k l by (simp add: kept_def)
    then have "is_ulid x" using assms(2) by (auto simp: paths_ok_def)
    with x l2 show ?thesis using evict_loop_disk[OF assms] by simp
  qed
  moreover have "is_ulid x \<Longrightarrow> x \<notin> set (ib_order m) \<Longrightarrow> untouched x (ib_disk m) (ib_disk ?m')" for x
    using evict_loop_disk[OF assms] by simp
  ultimately show ?thesis using sub by (auto simp: shrinks_def)
qed

lemma fold_remove_lookup:
  "lookup (ib_by_id (fold (\<lambda>j. remove_locked io j e) ids m)) k = (if k \<in> set ids then None else lookup (ib_by_id m) k)"
  by (induction ids arbitrary: m) (auto simp: remove_locked_lookup)

lemma fold_remove_epoch [simp]: "ib_epoch (fold (\<lambda>j. remove_locked io j e) ids m) = ib_epoch m"
  by (induction ids arbitrary: m) auto

lemma shrinks_fold:
  assumes "core_inv m" "paths_ok m"
  shows "shrinks m (fold (\<lambda>j. remove_locked io j e) (ib_order m) m)"
proof -
  let ?m' = "fold (\<lambda>j. remove_locked io j e) (ib_order m) m"
  have "ib_order ?m' = []" using assms(1) by (simp add: fold_remove_order)
  moreover have "lookup (ib_by_id ?m') k = None" for k
    using order_lookup[OF assms(1), of k] by (auto simp: fold_remove_lookup)
  ultimately show ?thesis using fold_remove_disk[OF assms(2)] by (simp add: shrinks_def)
qed

lemma shrinks_read: "core_inv m \<Longrightarrow> shrinks m (set_read k m)"
  by (auto simp: shrinks_def set_read_def split: option.splits)

lemma shrinks_cong:
  assumes "shrinks m m'" "ib_by_id m'' = ib_by_id m'" "ib_order m'' = ib_order m'" "ib_disk m'' = ib_disk m'"
    "ib_epoch m'' = ib_epoch m'"
  shows "shrinks m m''"
  using assms by (simp add: shrinks_def)

lemma shrinks_cleared:
  assumes "ib_by_id m' = []" "ib_order m' = []" "ib_epoch m' = Suc (ib_epoch m)"
  shows "shrinks m m'"
  using assms by (simp add: shrinks_def)

lemma evict_caps_shrinks:
  assumes "core_inv m1" "paths_ok m1" "ib_by_id m1 = ib_by_id m" "ib_order m1 = ib_order m"
    "ib_disk m1 = ib_disk m" "ib_epoch m1 = ib_epoch m"
  shows "shrinks m (snd (evict_until_under_caps io m1))"
  using shrinks_evict[OF assms(1,2), of io occupancy_ok "length (ib_order m1)"] assms(3-6)
  by (simp add: evict_until_under_caps_def Let_def shrinks_def)

lemma run_call_shrinks:
  assumes inv: "inbox_inv m" and p: "paths_ok m"
  shows "shrinks m (run_call io c m)"
proof -
  have ci: "core_inv m" using inv by (simp add: inbox_inv_def)
  have refl: "shrinks m m" by (simp add: shrinks_refl_fields)
  show ?thesis
  proof (cases c)
    case (GetCall k mark m1 d)
    then show ?thesis using refl shrinks_read[OF ci]
      by (auto simp: memory_get_def split: option.splits sum.splits)
  next
    case (ReplaceCapsCall op force)
    show ?thesis
    proof (cases "normalize_options op")
      case (Inr o2)
      let ?m1 = "m \<lparr> ib_max_messages := o_max_messages o2, ib_max_bytes := o_max_bytes o2, ib_full_policy := o_full_policy o2 \<rparr>"
      have "core_inv ?m1" "paths_ok ?m1" using ci p normalize_options_ok[OF Inr] by (auto simp: core_inv_def paths_ok_def)
      then have "shrinks m (snd (evict_until_under_caps io ?m1))"
        by (rule evict_caps_shrinks) simp_all
      moreover have "shrinks m ?m1" by (rule shrinks_refl_fields) simp_all
      ultimately show ?thesis using ReplaceCapsCall Inr refl
        by (auto simp: replace_caps_def Let_def split: option.splits prod.splits)
    qed (simp add: ReplaceCapsCall replace_caps_def refl)
  next
    case (ConfigureCall op)
    show ?thesis
    proof (cases "normalize_options op")
      case (Inr o2)
      let ?m1 = "install_options o2 m"
      have "core_inv ?m1" "paths_ok ?m1" using ci p normalize_options_ok[OF Inr]
        by (auto simp: core_inv_def paths_ok_def install_options_def)
      then have "shrinks m (snd (evict_until_under_caps io ?m1))"
        by (rule evict_caps_shrinks) (simp_all add: install_options_def)
      moreover have "shrinks m ?m1" by (rule shrinks_refl_fields) (simp_all add: install_options_def)
      ultimately show ?thesis using ConfigureCall Inr refl
        by (auto simp: configure_def Let_def split: option.splits prod.splits)
    qed (simp add: ConfigureCall configure_def refl)
  next
    case DeleteAllCall
    then show ?thesis using refl shrinks_fold[OF ci p] by (simp add: delete_all_def Let_def)
  next
    case (DeleteCall k)
    then show ?thesis using refl shrinks_remove[OF ci p] by (simp add: memory_delete_def split: option.splits)
  next
    case (MarkReadCall k)
    then show ?thesis using refl shrinks_read[OF ci] by (simp add: mark_read_def split: option.splits)
  next
    case MarkAllReadCall
    then show ?thesis by (auto simp: shrinks_def mark_all_read_def map_read_lookup)
  next
    case (ResetToCall op)
    then show ?thesis using refl
      by (auto simp: reset_to_def Let_def clear_inbox_def install_options_def intro!: shrinks_cleared split: sum.splits)
  next
    case WipeCall
    then show ?thesis by (auto simp: wipe_def Let_def clear_inbox_def intro!: shrinks_cleared)
  qed (simp_all add: shrinks_refl_fields subscribe_def cancel_sub_def receive_event_def Let_def)
qed

lemma begin_inv:
  assumes inv: "sys_inv (m, P, G)" and po: "parse_ok parse"
    and b: "insert_begin io parse now mid ctx_done ep (Some msg) m = (Inr pd, m')"
    and new: "is_ulid mid" "mid \<notin> set (ib_order m)" "mid \<notin> set (pending_ids P)"
    and sz: "sizes_ok msg" and ep: "ep \<le> ib_epoch m"
  shows "sys_inv (m', pd # P, G)"
proof -
  note bo = insert_begin_ok[OF b]
  have mid: "msg_id (pd_msg pd) = mid" by (simp add: bo(1))
  note w = write_spill_temps_ok[OF bo(4)]
  have m': "inbox_inv m'" "ib_by_id m' = ib_by_id m" "ib_order m' = ib_order m" "ib_epoch m' = ib_epoch m"
    using inv by (subst bo(5), simp add: sys_inv_def)+
  have un: "untouched x (ib_disk m) (ib_disk m')" if "is_ulid x" "x \<noteq> mid" for x
    using write_spill_temps_frame[OF bo(4)] new(1) that unfolding mid
    by (intro untouched_other[of mid]) auto
  have "rec_ok G (ib_disk m') k r" if "lookup (ib_by_id m') k = Some r" for k r
  proof -
    have r: "rec_ok G (ib_disk m) k r" using inv that m' by (simp add: sys_inv_def)
    have "k \<in> set (ib_order m)"
      using inv that m' order_lookup[of m k] by (simp add: sys_inv_def inbox_inv_def)
    then have "k \<noteq> mid" using new by blast
    with r show ?thesis using un[of k] rec_ok_frame[OF r] by (simp add: rec_ok_def)
  qed
  moreover have "job_ok m' q" if "q \<in> set P" for q
  proof -
    have j: "job_ok m q" using inv that by (simp add: sys_inv_def)
    have "msg_id (pd_msg q) \<noteq> mid" using new(3) that by (auto simp: pending_ids_def)
    with j un show ?thesis using m' by (intro job_ok_frame[OF j]) (auto simp: job_ok_def)
  qed
  moreover have "job_ok m' pd"
    using w new ep m' mid bo(1-3) resident_bytes_nonneg[OF prepare_sizes[OF po sz]]
    by (auto simp: job_ok_def)
  moreover have "distinct (pending_ids (pd # P))"
    using inv new mid by (simp add: sys_inv_def pending_ids_def)
  ultimately show ?thesis using m'(1) by (simp add: sys_inv_def)
qed

lemma begin_fail_inv:
  assumes inv: "sys_inv (m, P, G)"
    and b: "insert_begin io parse now mid ctx_done ep msg m = (Inl e, m')"
    and new: "is_ulid mid" "mid \<notin> set (ib_order m)" "mid \<notin> set (pending_ids P)"
  shows "sys_inv (m', P, G)"
proof -
  note f = insert_begin_fail[OF b]
  have m': "inbox_inv m'" "ib_by_id m' = ib_by_id m" "ib_order m' = ib_order m" "ib_epoch m' = ib_epoch m"
    using inv by (subst conjunct1[OF f], simp add: sys_inv_def)+
  have un: "untouched x (ib_disk m) (ib_disk m')" if "is_ulid x" "x \<noteq> mid" for x
    using f new(1) that by (intro untouched_other[of mid]) auto
  have "rec_ok G (ib_disk m') k r" if "lookup (ib_by_id m') k = Some r" for k r
  proof -
    have r: "rec_ok G (ib_disk m) k r" using inv that m' by (simp add: sys_inv_def)
    have "k \<in> set (ib_order m)"
      using inv that m' order_lookup[of m k] by (simp add: sys_inv_def inbox_inv_def)
    then have "k \<noteq> mid" using new by blast
    with r show ?thesis using un[of k] rec_ok_frame[OF r] by (simp add: rec_ok_def)
  qed
  moreover have "job_ok m' q" if "q \<in> set P" for q
  proof -
    have j: "job_ok m q" using inv that by (simp add: sys_inv_def)
    have "msg_id (pd_msg q) \<noteq> mid" using new(3) that by (auto simp: pending_ids_def)
    with j un show ?thesis using m' by (intro job_ok_frame[OF j]) (auto simp: job_ok_def)
  qed
  ultimately show ?thesis using m'(1) inv by (simp add: sys_inv_def)
qed

lemma fresh_record_paths: "spill_paths \<lparr> r_msg = msg, r_resident = n, r_raw_spill = None, r_att_spill = [] \<rparr> = {}"
  by (simp add: spill_paths_def)

text \<open>A commit, whatever its outcome, touches no other message's files.\<close>

lemma commit_untouched:
  assumes "commit_spill io \<lparr> r_msg = pd_msg pd, r_resident = n, r_raw_spill = None, r_att_spill = [] \<rparr>
      (pd_job pd) d0 = (e, r, job, d)"
    and "job_ok m pd" "is_ulid x" "x \<noteq> msg_id (pd_msg pd)"
  shows "untouched x d0 d" "untouched x d (unlink_spill_job io2 job d)" "untouched x d0 (unlink_spill_job io2 (pd_job pd) d0)"
proof -
  note f = commit_spill_frame[OF assms(1) fresh_record_paths]
  obtain dir thr where j: "pd_job pd = job_of dir thr (pd_msg pd)" and u: "is_ulid (msg_id (pd_msg pd))"
    using assms(2) by (auto simp: job_ok_def)
  have o: "p \<in> temps (job_list (pd_job pd)) \<union> finals (job_list (pd_job pd)) \<Longrightarrow> owned (msg_id (pd_msg pd)) p" for p
    using job_of_owned[of p dir thr "pd_msg pd"] unfolding j .
  show "untouched x d0 d" by (rule untouched_other[OF _ u assms(3)]) (use f o assms(4) in auto)
  show "untouched x d (unlink_spill_job io2 job d)"
    by (rule untouched_other[OF _ u assms(3)]) (use f o assms(4) in \<open>auto simp: unlink_spill_job_lookup\<close>)
  show "untouched x d0 (unlink_spill_job io2 (pd_job pd) d0)"
    by (rule untouched_other[OF _ u assms(3)]) (use o assms(4) in \<open>auto simp: unlink_spill_job_lookup\<close>)
qed

lemma pending_split:
  assumes "distinct (pending_ids (A @ pd # B))"
  shows "distinct (pending_ids (A @ B))" "q \<in> set (A @ B) \<Longrightarrow> msg_id (pd_msg q) \<noteq> msg_id (pd_msg pd)"
proof -
  have "msg_id (pd_msg pd) \<notin> set (pending_ids A) \<union> set (pending_ids B)"
    using assms by (simp add: pending_ids_def)
  moreover have "q \<in> set (A @ B) \<Longrightarrow> msg_id (pd_msg q) \<in> set (pending_ids A) \<union> set (pending_ids B)"
    by (auto simp: pending_ids_def)
  ultimately show "q \<in> set (A @ B) \<Longrightarrow> msg_id (pd_msg q) \<noteq> msg_id (pd_msg pd)" by metis
  show "distinct (pending_ids (A @ B))" using assms by (auto simp: pending_ids_def)
qed

lemma commit_fail_inv:
  assumes inv: "sys_inv (m, A @ pd # B, G)" and c: "insert_commit io pd m = (Inl e, m')"
  shows "sys_inv (m', A @ B, G)"
proof -
  have ii: "inbox_inv m" and ci: "core_inv m" and jo: "job_ok m pd" and cand: "0 \<le> pd_candidate pd"
    using inv by (auto simp: sys_inv_def inbox_inv_def job_ok_def)
  note sp = pending_split[of A pd B]
  have ds: "distinct (pending_ids (A @ pd # B))" using inv by (simp add: sys_inv_def)
  from ci cand have "\<exists>d. m' = m \<lparr> ib_disk := d \<rparr> \<and> (\<forall>x. is_ulid x \<longrightarrow> x \<noteq> msg_id (pd_msg pd) \<longrightarrow> untouched x (ib_disk m) d)"
  proof (cases rule: insert_commit_cases[where io = io])
    case (stored r job d m1)
    then show ?thesis using c by simp
  next
    case (refused e' job d)
    then have m': "m' = m \<lparr> ib_disk := unlink_spill_job io job d \<rparr>" using c by simp
    have "untouched x (ib_disk m) (unlink_spill_job io job d)" if x: "is_ulid x" "x \<noteq> msg_id (pd_msg pd)" for x
    proof (cases "d = ib_disk m \<and> job = pd_job pd")
      case True
      obtain dir thr where "pd_job pd = job_of dir thr (pd_msg pd)" and u: "is_ulid (msg_id (pd_msg pd))"
        using jo by (auto simp: job_ok_def)
      then have "p \<in> temps (job_list (pd_job pd)) \<Longrightarrow> owned (msg_id (pd_msg pd)) p" for p
        using job_of_owned[of p dir thr "pd_msg pd"] by simp
      then show ?thesis using True x
        by (intro untouched_other[OF _ u x(1)]) (auto simp: unlink_spill_job_lookup)
    next
      case False
      then obtain r e2 where "commit_spill io \<lparr> r_msg = pd_msg pd, r_resident = pd_candidate pd, r_raw_spill = None,
            r_att_spill = [] \<rparr> (pd_job pd) (ib_disk m) = (Some e2, r, job, d)"
        using refused(2) by blast
      from commit_untouched(1,2)[OF this jo x] show ?thesis by (rule untouched_trans)
    qed
    with m' show ?thesis by blast
  qed
  then obtain d where m': "m' = m \<lparr> ib_disk := d \<rparr>"
    and un: "\<And>x. is_ulid x \<Longrightarrow> x \<noteq> msg_id (pd_msg pd) \<Longrightarrow> untouched x (ib_disk m) d" by blast
  have "rec_ok G d k r" if l: "lookup (ib_by_id m) k = Some r" for k r
  proof -
    have r: "rec_ok G (ib_disk m) k r" using inv l by (simp add: sys_inv_def)
    have "k \<noteq> msg_id (pd_msg pd)" using jo l order_lookup[OF ci, of k] by (auto simp: job_ok_def)
    with r show ?thesis using un[of k] rec_ok_frame[OF r] by (simp add: rec_ok_def)
  qed
  moreover have "job_ok m' q" if q: "q \<in> set (A @ B)" for q
  proof -
    have j: "job_ok m q" using inv q by (auto simp: sys_inv_def)
    then show ?thesis using un[of "msg_id (pd_msg q)"] sp(2)[OF ds q]
      by (intro job_ok_frame[OF j]) (auto simp: m' job_ok_def)
  qed
  ultimately show ?thesis using ii sp(1)[OF ds] by (simp add: sys_inv_def m')
qed

lemma commit_loads:
  assumes c: "commit_spill io \<lparr> r_msg = pd_msg pd, r_resident = n, r_raw_spill = None, r_att_spill = [] \<rparr>
      (pd_job pd) d0 = (None, r, job, d)"
    and jo: "job_ok m pd" and h: "job_holds (pd_job pd) (pd_msg pd) d0"
    and n: "n = resident_bytes (pd_msg pd)"
    and un: "untouched (msg_id (pd_msg pd)) d d1"
  shows "rec_ok (AList.update (msg_id (pd_msg pd)) (pd_msg pd) G) d1 (msg_id (pd_msg pd)) r"
proof -
  obtain dir thr where j: "pd_job pd = job_of dir thr (pd_msg pd)" and u: "is_ulid (msg_id (pd_msg pd))"
    using jo by (auto simp: job_ok_def)
  have ap: "jobs_apart (job_list (pd_job pd))" unfolding j by (rule job_of_apart)
  note ok = commit_spill_ok[OF c, simplified, OF h ap]
  have own: "\<forall>p\<in>spill_paths r. owned (msg_id (pd_msg pd)) p"
    using ok job_of_owned[of _ dir thr "pd_msg pd"] unfolding j spill_paths_def by auto
  have "lookup d1 f = lookup d f" if "f \<in> finals (job_list (pd_job pd))" for f
    using un job_of_owned[of f dir thr "pd_msg pd"] that unfolding j by (auto simp: untouched_def)
  then have ld: "load_spill good_io r d1 = Inr (pd_msg pd)" using ok by (simp add: good_io_def)
  obtain as where e: "r_msg r = (pd_msg pd) \<lparr> msg_raw := msg_raw (r_msg r), msg_attachments := as \<rparr>"
    using ok by auto
  have "msg_read (r_msg r) = msg_read (pd_msg pd)" by (subst e) simp
  then show ?thesis using ok own u ld n by (simp add: rec_ok_def)
qed

lemma commit_ok_inv:
  assumes inv: "sys_inv (m, A @ pd # B, G)" and c: "insert_commit io pd m = (Inr res, m')"
  shows "sys_inv (m', A @ B, AList.update (msg_id (pd_msg pd)) (pd_msg pd) G)"
proof -
  let ?k = "msg_id (pd_msg pd)"
  have ii: "inbox_inv m" and ci: "core_inv m" and jo: "job_ok m pd" and cand: "0 \<le> pd_candidate pd"
    using inv by (auto simp: sys_inv_def inbox_inv_def job_ok_def)
  have k: "is_ulid ?k" "?k \<notin> set (ib_order m)" using jo by (auto simp: job_ok_def)
  have ds: "distinct (pending_ids (A @ pd # B))" using inv by (simp add: sys_inv_def)
  note sp = pending_split[OF ds]
  have inv': "inbox_inv m'" using insert_commit_inv[OF ii cand k(2), of io] c by simp
  from ci cand show ?thesis
  proof (cases rule: insert_commit_cases[where io = io])
    case (stored r job d m1)
    let ?m0 = "m \<lparr> ib_disk := d \<rparr>"
    have c0: "core_inv ?m0" and p0: "paths_ok ?m0"
      using ci sys_paths_ok[OF inv] by (simp_all add: paths_ok_def)
    have m': "m' = emit (received_event pd m1) (index_new r ?k m1)" using stored(6) c by simp
    have disk: "ib_disk m' = ib_disk m1" by (simp add: m' index_new_def Let_def)
    have sub: "set (ib_order m1) \<subseteq> set (ib_order m)"
      using evict_loop_subset[OF c0] unfolding stored(4) by simp
    obtain j where kp: "kept ?m0 j m1" using evict_loop_drop[OF c0] unfolding stored(4) by blast
    have ci1: "core_inv m1" unfolding stored(4) using c0 by (rule evict_loop_core)
    have un1: "untouched x d (ib_disk m1)" if "is_ulid x" "x \<notin> set (ib_order m) \<or> x \<in> set (ib_order m1)" for x
      using evict_loop_disk[OF c0 p0 that(1)] that(2) unfolding stored(4) by simp
    have und: "untouched x (ib_disk m) (ib_disk m1)"
      if "is_ulid x" "x \<noteq> ?k" "x \<notin> set (ib_order m) \<or> x \<in> set (ib_order m1)" for x
      using commit_untouched(1)[OF stored(3) jo that(1,2)] un1[OF that(1,3)] by (rule untouched_trans)
    have new: "rec_ok (AList.update ?k (pd_msg pd) G) (ib_disk m1) ?k r"
      by (rule commit_loads[OF stored(3) jo]) (use jo stored(1) un1 k in \<open>auto simp: job_ok_def\<close>)
    have "rec_ok (AList.update ?k (pd_msg pd) G) (ib_disk m') x rx" if l: "lookup (ib_by_id m') x = Some rx" for x rx
    proof (cases "x = ?k")
      case True
      then show ?thesis using l new disk by (simp add: m' index_new_def Let_def)
    next
      case False
      then have l1: "lookup (ib_by_id m1) x = Some rx" using l by (simp add: m' index_new_def Let_def)
      then have x1: "x \<in> set (ib_order m1)" using order_lookup[OF ci1] by simp
      then have "lookup (ib_by_id m) x = Some rx" using kp l1 by (simp add: kept_def)
      then have rx: "rec_ok G (ib_disk m) x rx" using inv by (simp add: sys_inv_def)
      then have "rec_ok G (ib_disk m1) x rx"
        using und[of x] x1 False rec_ok_frame[OF rx] by (simp add: rec_ok_def)
      then show ?thesis using False disk by (simp add: rec_ok_def)
    qed
    moreover have "job_ok m' q" if q: "q \<in> set (A @ B)" for q
    proof -
      have jq: "job_ok m q" using inv q by (auto simp: sys_inv_def)
      have nk: "msg_id (pd_msg q) \<noteq> ?k" using sp(2)[OF q] .
      have e: "ib_epoch m' = ib_epoch m" by (simp add: m' index_new_def Let_def stored(4))
      have "set (ib_order m') = insert ?k (set (ib_order m1))" by (simp add: m' index_new_def Let_def)
      then have "msg_id (pd_msg q) \<notin> set (ib_order m')" using jq nk sub by (auto simp: job_ok_def)
      moreover have "job_holds (pd_job q) (pd_msg q) (ib_disk m')" if "pd_epoch q = ib_epoch m"
      proof -
        have "job_holds (pd_job q) (pd_msg q) (ib_disk m)" using jq that by (simp add: job_ok_def)
        moreover have "untouched (msg_id (pd_msg q)) (ib_disk m) (ib_disk m')"
          using und[of "msg_id (pd_msg q)"] jq nk unfolding disk by (simp add: job_ok_def)
        ultimately show ?thesis using jq job_holds_frame unfolding job_ok_def by metis
      qed
      ultimately show ?thesis using jq e by (simp add: job_ok_def)
    qed
    ultimately show ?thesis using inv' sp(1) by (simp add: sys_inv_def)
  next
    case (refused e job d)
    then show ?thesis using c by simp
  qed
qed

lemma sys_step_inv:
  assumes "sys_step parse s s'" "parse_ok parse" "sys_inv s"
  shows "sys_inv s'"
  using assms
proof (induction rule: sys_step.induct)
  case (step_begin io now mid ctx_done ep msg m pd m' P G)
  show ?case by (rule begin_inv[OF step_begin(8,7,1-6)])
next
  case (step_begin_fail io now mid ctx_done ep msg m e m' P G)
  show ?case by (rule begin_fail_inv[OF step_begin_fail(6,1-4)])
next
  case (step_commit io pd m res m' A B G)
  show ?case by (rule commit_ok_inv[OF step_commit(3,1)])
next
  case (step_commit_fail io pd m e m' A B G)
  show ?case by (rule commit_fail_inv[OF step_commit_fail(3,1)])
next
  case (step_call m P G io c)
  then have i: "inbox_inv m" by (simp add: sys_inv_def)
  show ?case
    using shrinks_inv[OF step_call(2)] run_call_shrinks[OF i sys_paths_ok[OF step_call(2)]] run_call_inv[OF i] by blast
qed

lemma sys_reach_inv: "sys_reach parse s \<Longrightarrow> parse_ok parse \<Longrightarrow> sys_inv s"
proof (induction rule: sys_reach.induct)
  case (reach_new io opts d m)
  then have "inbox_inv m" "ib_by_id m = []"
    using new_memory_inv by (auto simp: new_memory_def split: sum.splits option.splits prod.splits)
  then show ?case by (simp add: sys_inv_def pending_ids_def)
next
  case (reach_step s s')
  then show ?case using sys_step_inv by blast
qed

end
