(* ===== verification/Listing.thy ===== *)
theory Listing
  imports Inbox_Inv
begin

text \<open>
  Reading the inbox: filters, cursor-paginated lists, and the wait for a matching message
  (\<^verbatim>\<open>internal/store/memory.go\<close>, \<^verbatim>\<open>List\<close>, \<^verbatim>\<open>Wait\<close> and their helpers).  The time a ULID carries,
  \<^verbatim>\<open>ulid.Parse\<close> and \<^verbatim>\<open>ulid.Time\<close>, is an argument.
\<close>

section \<open>Filters\<close>

definition has_address :: "bytes list \<Rightarrow> address list \<Rightarrow> bytes \<Rightarrow> bool" where
  "has_address env hdrs want0 = (let want = to_lower (trim_space want0) in
     want = [] \<or> list_ex (\<lambda>a. to_lower (trim_space a) = want) env
     \<or> list_ex (\<lambda>a. to_lower (ad_address a) = want) hdrs)"

definition contains_fold :: "bytes \<Rightarrow> bytes \<Rightarrow> bool" where
  "contains_fold hay needle = contains (to_lower needle) (to_lower hay)"

definition match_filter :: "message \<Rightarrow> message_filter \<Rightarrow> bool" where
  "match_filter m f =
     (if f_subject f \<noteq> [] \<and> msg_subject m \<noteq> f_subject f then False
      else if f_subject_contains f \<noteq> [] \<and> \<not> contains_fold (msg_subject m) (f_subject_contains f) then False
      else if f_to f \<noteq> [] \<and> \<not> has_address (env_to (msg_envelope m)) (msg_to m) (f_to f) then False
      else if f_from f \<noteq> [] \<and> \<not> has_address
                (if env_from (msg_envelope m) \<noteq> [] then [env_from (msg_envelope m)] else [])
                (msg_from m) (f_from f) then False
      else if (case f_unread f of None \<Rightarrow> False | Some u \<Rightarrow> msg_read m = u) then False
      else if f_after f \<noteq> 0 \<and> \<not> received_at m > f_after f then False
      else if f_before f \<noteq> 0 \<and> \<not> received_at m < f_before f then False
      else True)"

section \<open>Cursors and pages\<close>

definition DefaultListLimit :: int where "DefaultListLimit = 50"
definition MaxListLimit :: int where "MaxListLimit = 200"

record cursor_pos =
  cp_id :: bytes
  cp_at :: int
  cp_found :: bool

definition resolve_cursor :: "(bytes \<Rightarrow> int option) \<Rightarrow> inbox \<Rightarrow> bytes \<Rightarrow> cursor_pos \<times> bool" where
  "resolve_cursor ulid_time m cid =
     (if cid = [] then (\<lparr> cp_id = [], cp_at = 0, cp_found = False \<rparr>, True)
      else case lookup (ib_by_id m) cid of
          Some r \<Rightarrow> (\<lparr> cp_id = cid, cp_at = received_at (r_msg r), cp_found = True \<rparr>, False)
        | None \<Rightarrow> (case ulid_time cid of
              None \<Rightarrow> (\<lparr> cp_id = cid, cp_at = 0, cp_found = False \<rparr>, False)
            | Some t \<Rightarrow> (\<lparr> cp_id = cid, cp_at = t, cp_found = False \<rparr>, False)))"

definition newer_than_cursor :: "message \<Rightarrow> cursor_pos \<Rightarrow> bool" where
  "newer_than_cursor msg cur =
     (received_at msg > cp_at cur \<or> (received_at msg = cp_at cur \<and> msg_id msg > cp_id cur))"

text \<open>The loop of \<^verbatim>\<open>List\<close>, newest id first: the snapshots of the page and the next cursor.\<close>

fun list_loop ::
  "(bytes \<times> stored) list \<Rightarrow> message_filter \<Rightarrow> nat \<Rightarrow> cursor_pos \<Rightarrow> bool \<Rightarrow> stored list \<Rightarrow> bytes
    \<Rightarrow> bytes list \<Rightarrow> stored list \<times> bytes" where
  "list_loop by f limit cur passed acc last_id [] = (acc, [])"
| "list_loop by f limit cur passed acc last_id (k # ids) =
     (case lookup by k of
        None \<Rightarrow> list_loop by f limit cur passed acc last_id ids
      | Some r \<Rightarrow>
          if \<not> passed \<and> cp_found cur \<and> k = cp_id cur then list_loop by f limit cur True acc last_id ids
          else if \<not> passed \<and> \<not> (\<not> cp_found cur \<and> \<not> newer_than_cursor (r_msg r) cur)
            then list_loop by f limit cur passed acc last_id ids
          else if \<not> match_filter (r_msg r) f then list_loop by f limit cur True acc last_id ids
          else if length acc = limit then (acc, last_id)
          else list_loop by f limit cur True (acc @ [r]) k ids)"

fun load_all :: "io \<Rightarrow> disk \<Rightarrow> stored list \<Rightarrow> store_error + message list" where
  "load_all io d [] = Inr []"
| "load_all io d (r # rs) = (case load_spill io r d of
       Inl e \<Rightarrow> Inl (ErrSpill ''load'')
     | Inr msg \<Rightarrow> (case load_all io d rs of Inl e \<Rightarrow> Inl e | Inr ms \<Rightarrow> Inr (msg # ms)))"

definition list_limit :: "int \<Rightarrow> nat" where
  "list_limit n = nat (let l = (if n \<le> 0 then DefaultListLimit else n) in
     if l > MaxListLimit then MaxListLimit else l)"

definition list_page ::
  "(bytes \<Rightarrow> int option) \<Rightarrow> list_query \<Rightarrow> inbox \<Rightarrow> stored list \<times> bytes" where
  "list_page ulid_time q m =
     (let (cur, fresh) = resolve_cursor ulid_time m (q_cursor q);
          passed = (q_cursor q = [] \<or> fresh)
      in list_loop (ib_by_id m) (q_filter q) (list_limit (q_limit q)) cur passed [] [] (rev (ib_order m)))"

text \<open>The index is read under the lock, the spill files after it.\<close>

definition memory_list ::
  "io \<Rightarrow> (bytes \<Rightarrow> int option) \<Rightarrow> list_query \<Rightarrow> inbox \<Rightarrow> disk \<Rightarrow> store_error + list_result" where
  "memory_list io ulid_time q m d =
     (let (snaps, next_id) = list_page ulid_time q m
      in case load_all io d snaps of
          Inl e \<Rightarrow> Inl e
        | Inr items \<Rightarrow> Inr \<lparr> lr_items = items, lr_next = next_id, lr_generation = ib_generation m \<rparr>)"

section \<open>Waiting\<close>

definition newest_match :: "inbox \<Rightarrow> message_filter \<Rightarrow> stored option" where
  "newest_match m f =
     (case find (\<lambda>k. case lookup (ib_by_id m) k of None \<Rightarrow> False | Some r \<Rightarrow> match_filter (r_msg r) f)
             (rev (ib_order m)) of
        None \<Rightarrow> None | Some k \<Rightarrow> lookup (ib_by_id m) k)"

text \<open>What a round of \<^verbatim>\<open>Wait\<close> sees besides the inbox it holds the lock of: whether the context is
  done, the disk when it reads, and the inbox when it has the lock again.\<close>

record wait_obs =
  wo_done :: bool
  wo_disk :: disk
  wo_inbox :: inbox

fun wait_loop :: "io \<Rightarrow> message_filter \<Rightarrow> inbox \<Rightarrow> wait_obs list \<Rightarrow> (store_error + message) option" where
  "wait_loop io f m [] = None"
| "wait_loop io f m (ob # obs) =
     (case newest_match m f of
        Some r \<Rightarrow>
          (let still = lookup (ib_by_id (wo_inbox ob)) (msg_id (r_msg r)) \<noteq> None
           in case load_spill io r (wo_disk ob) of
               Inl e \<Rightarrow> if e = NotExist \<and> \<not> still then wait_loop io f (wo_inbox ob) obs
                        else Some (Inl (ErrSpill ''load''))
             | Inr msg \<Rightarrow> if still then Some (Inr msg) else wait_loop io f (wo_inbox ob) obs)
      | None \<Rightarrow> if wo_done ob then Some (Inl ErrCtx) else wait_loop io f (wo_inbox ob) obs)"

section \<open>Lemmas about filters and loading\<close>

lemma load_spill_shape:
  assumes "load_spill io r d = Inr msg"
  obtains b as where "msg = (r_msg r) \<lparr> msg_raw := b, msg_attachments := as \<rparr>"
proof -
  have raw: "x \<lparr> msg_attachments := as \<rparr> = x \<lparr> msg_raw := msg_raw x, msg_attachments := as \<rparr>" for x :: message and as :: "attachment list"
    by simp
  show thesis
  proof (cases "r_raw_spill r = None \<or> msg_raw (r_msg r) \<noteq> []")
    case True
    then obtain as where "msg = (r_msg r) \<lparr> msg_attachments := as \<rparr>"
      using assms by (cases "r_raw_spill r") (auto simp: load_spill_def split: sum.splits)
    then show thesis using that raw[where x = "r_msg r" and as = as] by metis
  next
    case False
    then show thesis using assms that by (auto simp: load_spill_def split: sum.splits)
  qed
qed

lemma match_filter_cong:
  assumes "msg_subject m = msg_subject m'" "msg_envelope m = msg_envelope m'" "msg_to m = msg_to m'"
    "msg_from m = msg_from m'" "msg_read m = msg_read m'" "received_at m = received_at m'"
  shows "match_filter m f = match_filter m' f"
  by (simp only: match_filter_def assms)

lemma load_spill_keeps:
  assumes "load_spill io r d = Inr msg"
  shows "msg_id msg = msg_id (r_msg r) \<and> match_filter msg f = match_filter (r_msg r) f
    \<and> received_at msg = received_at (r_msg r)"
proof -
  obtain b as where m: "msg = (r_msg r) \<lparr> msg_raw := b, msg_attachments := as \<rparr>"
    using assms by (rule load_spill_shape)
  have "match_filter msg f = match_filter (r_msg r) f" by (rule match_filter_cong) (simp_all add: m)
  then show ?thesis by (simp add: m)
qed

lemma empty_filter_matches: "match_filter m empty_filter"
  by (simp add: match_filter_def empty_filter_def)

section \<open>Pages\<close>

text \<open>The matching ids, newest first.\<close>

definition matches :: "inbox \<Rightarrow> message_filter \<Rightarrow> bytes list \<Rightarrow> bytes list" where
  "matches m f ids = filter (\<lambda>k. case lookup (ib_by_id m) k of None \<Rightarrow> False | Some r \<Rightarrow> match_filter (r_msg r) f) ids"

definition recs :: "inbox \<Rightarrow> bytes list \<Rightarrow> stored list" where
  "recs m ids = map (\<lambda>k. the (lookup (ib_by_id m) k)) ids"

lemma list_loop_passed:
  assumes "length acc \<le> limit" "0 < limit"
  shows "list_loop (ib_by_id m) f limit cur True acc lst ids =
    (let hits = matches m f ids; n = limit - length acc in
       (acc @ recs m (take n hits),
        if length hits \<le> n then [] else if n = 0 then lst else hits ! (n - 1)))"
  using assms
proof (induction ids arbitrary: acc lst)
  case Nil
  then show ?case by (simp add: matches_def recs_def)
next
  case (Cons k ids)
  show ?case
  proof (cases "lookup (ib_by_id m) k")
    case None
    then show ?thesis using Cons by (simp add: matches_def)
  next
    case (Some r)
    show ?thesis
    proof (cases "match_filter (r_msg r) f")
      case False
      then show ?thesis using Some Cons by (simp add: matches_def)
    next
      case True
      have h: "matches m f (k # ids) = k # matches m f ids" using Some True by (simp add: matches_def)
      show ?thesis
      proof (cases "length acc = limit")
        case full: True
        then show ?thesis using Some True h by (simp add: recs_def Let_def)
      next
        case False
        then have lt: "length acc < limit" using Cons.prems by simp
        obtain n where n: "limit - length acc = Suc n" using lt by (metis Suc_diff_Suc)
        have n': "limit - Suc (length acc) = n" using n by simp
        have ih: "list_loop (ib_by_id m) f limit cur True (acc @ [r]) k ids =
          ((acc @ [r]) @ recs m (take n (matches m f ids)),
           if length (matches m f ids) \<le> n then [] else if n = 0 then k else matches m f ids ! (n - 1))"
          using Cons.IH[of "acc @ [r]" k] lt Cons.prems(2) by (simp add: n' Let_def)
        show ?thesis using Some True False ih 
          by (cases n) (simp_all add: h n recs_def Let_def)
      qed
    qed
  qed
qed

lemma list_loop_found:
  assumes "cp_found cur" "cp_id cur \<notin> set xs" "lookup (ib_by_id m) (cp_id cur) \<noteq> None"
  shows "list_loop (ib_by_id m) f limit cur False acc lst (xs @ cp_id cur # ys) =
    list_loop (ib_by_id m) f limit cur True acc lst ys"
  using assms by (induction xs) (auto split: option.splits)

lemma list_loop_missing:
  assumes "\<not> cp_found cur" "\<forall>k\<in>set xs. \<forall>r. lookup (ib_by_id m) k = Some r \<longrightarrow> newer_than_cursor (r_msg r) cur"
    and "\<forall>k\<in>set ys. \<exists>r. lookup (ib_by_id m) k = Some r \<and> \<not> newer_than_cursor (r_msg r) cur"
  shows "list_loop (ib_by_id m) f limit cur False acc lst (xs @ ys) =
    list_loop (ib_by_id m) f limit cur True acc lst ys"
  using assms(2)
proof (induction xs)
  case Nil
  show ?case
  proof (cases ys)
    case (Cons k zs)
    then obtain r where "lookup (ib_by_id m) k = Some r" "\<not> newer_than_cursor (r_msg r) cur" using assms(3) by auto
    then show ?thesis using Cons assms(1) by simp
  qed simp
next
  case (Cons k xs)
  then show ?case using assms(1) by (auto split: option.splits)
qed

lemma list_limit_bounds: "0 < list_limit n" "list_limit n \<le> 200"
  by (auto simp: list_limit_def Let_def DefaultListLimit_def MaxListLimit_def)

text \<open>The ids a page may show: everything from the newest, or what comes after the cursor.\<close>

definition after_cursor :: "inbox \<Rightarrow> bytes \<Rightarrow> bytes list" where
  "after_cursor m cid = (if cid = [] then rev (ib_order m)
     else tl (dropWhile (\<lambda>k. k \<noteq> cid) (rev (ib_order m))))"

lemma list_page_spec:
  assumes "core_inv m" "q_cursor q = [] \<or> q_cursor q \<in> set (ib_order m)"
  shows "list_page ulid_time q m =
    (let hits = matches m (q_filter q) (after_cursor m (q_cursor q)); n = list_limit (q_limit q) in
       (recs m (take n hits), if length hits \<le> n then [] else hits ! (n - 1)))"
proof (cases "q_cursor q = []")
  case True
  then show ?thesis using list_limit_bounds(1)[of "q_limit q"]
    by (simp add: list_page_def resolve_cursor_def list_loop_passed after_cursor_def Let_def)
next
  case False
  let ?c = "q_cursor q" let ?ids = "rev (ib_order m)"
  obtain r where r: "lookup (ib_by_id m) ?c = Some r"
    using assms False core_invD(3)[OF assms(1)] lookup_None_iff[of "ib_by_id m" ?c] by auto
  let ?cur = "\<lparr> cp_id = ?c, cp_at = received_at (r_msg r), cp_found = True \<rparr>"
  have mem: "?c \<in> set ?ids" using assms False by simp
  obtain xs ys where s: "?ids = xs @ ?c # ys" "?c \<notin> set xs" using split_list_first[OF mem] by blast
  have "dropWhile (\<lambda>k. k \<noteq> ?c) (xs @ ?c # ys) = ?c # ys"
    using s(2) by (induction xs) auto
  then have "after_cursor m ?c = ys" using s(1) False by (simp add: after_cursor_def)
  moreover have "list_page ulid_time q m =
      list_loop (ib_by_id m) (q_filter q) (list_limit (q_limit q)) ?cur True [] [] ys"
    using list_loop_found[of ?cur xs m "q_filter q" "list_limit (q_limit q)" "[]" "[]" ys] s False r
    by (simp add: list_page_def resolve_cursor_def)
  ultimately show ?thesis using list_limit_bounds(1)[of "q_limit q"] by (simp add: list_loop_passed Let_def)
qed

text \<open>Following \<^verbatim>\<open>NextCursor\<close> from page to page, as the clients do; one page is never empty, so the
  number of messages is fuel enough.\<close>

fun all_pages :: "(bytes \<Rightarrow> int option) \<Rightarrow> nat \<Rightarrow> list_query \<Rightarrow> inbox \<Rightarrow> stored list" where
  "all_pages ut 0 q m = []"
| "all_pages ut (Suc n) q m = (let (snaps, nxt) = list_page ut q m in
     if nxt = [] then snaps else snaps @ all_pages ut n (q \<lparr> q_cursor := nxt \<rparr>) m)"

end
