(* ===== verification/Inbox_Props.thy ===== *)
theory Inbox_Props
  imports Inbox_Steps Listing
begin

text \<open>
  What the inbox promises: its invariant under every interleaving, the fidelity of what it keeps,
  the effect of each operation, complete pagination, and events without gaps.
\<close>

declare split_paired_All [simp del] split_paired_Ex [simp del]

section \<open>A reachable inbox\<close>

definition demo_options :: options where
  "demo_options = \<lparr> o_max_messages = 2, o_max_bytes = 100, o_full_policy = evict_policy, o_max_wait = 0,
     o_spill_dir = [], o_spill_threshold = 0 \<rparr>"

definition demo_ulid :: bytes where
  "demo_ulid = ''01ARZ3NDEKTSV4RRFFQ69G5FAV''"

definition demo_mail :: message where
  "demo_mail = empty_message \<lparr> msg_raw := ''Subject: hi'', msg_headers := [\<lparr> hd_name = ''Subject'', hd_value = ''hi'' \<rparr>],
     msg_subject := ''hi'', msg_message_id := ''<1>'', received_at := 7 \<rparr>"

definition demo_stored :: message where
  "demo_stored = demo_mail \<lparr> msg_id := demo_ulid, msg_size := 11 \<rparr>"

definition demo_empty :: inbox where
  "demo_empty = \<lparr> ib_max_messages = 2, ib_max_bytes = 100, ib_full_policy = evict_policy, ib_max_wait = 0,
     ib_spill_dir = [], ib_spill_threshold = 0, ib_epoch = 1, ib_generation = 0, ib_evictions = 0,
     ib_bytes = 0, ib_by_id = [], ib_order = [], ib_subs = [], ib_next_sub = 0, ib_disk = [] \<rparr>"

definition demo_record :: stored where
  "demo_record = \<lparr> r_msg = demo_stored, r_resident = 11, r_raw_spill = None, r_att_spill = [] \<rparr>"

definition demo_inbox :: inbox where
  "demo_inbox = demo_empty \<lparr> ib_by_id := [(demo_ulid, demo_record)], ib_order := [demo_ulid], ib_bytes := 11,
     ib_generation := 1 \<rparr>"

definition demo_pending :: pending where
  "demo_pending = \<lparr> pd_epoch = 1, pd_msg = demo_stored, pd_candidate = 11, pd_job = None \<rparr>"

lemma demo_new: "new_memory good_io demo_options [] = Inr demo_empty"
  by (simp add: new_memory_def demo_options_def normalize_options_def ensure_spill_dir_def
      unlink_all_spill_def demo_empty_def Let_def)

lemma demo_begin:
  "insert_begin good_io (\<lambda>_. empty_message) 9 demo_ulid False 1 (Some demo_mail) demo_empty
     = (Inr demo_pending, demo_empty)"
  by (simp add: insert_begin_def prepare_message_def apply_parse_def needs_parse_def demo_mail_def
      demo_stored_def demo_pending_def demo_empty_def empty_message_def resident_bytes_def
      write_spill_temps_def Let_def)

lemma demo_commit:
  "insert_commit good_io demo_pending demo_empty
     = (Inr \<lparr> ir_id = demo_ulid, ir_generation = 1 \<rparr>, demo_inbox)"
  by (simp add: insert_commit_def demo_pending_def demo_empty_def demo_inbox_def demo_record_def demo_stored_def
      can_accept_def fits_def commit_spill_def evict_until_fits_def emit_def Let_def)

lemma demo_pending_fields [simp]:
  "pd_msg demo_pending = demo_stored" "msg_id demo_stored = demo_ulid" "received_at demo_stored = 7"
  "pd_candidate demo_pending = 11" "pd_epoch demo_pending = 1"
  by (simp_all add: demo_pending_def demo_stored_def demo_mail_def)

lemma demo_is_ulid: "is_ulid demo_ulid"
  by code_simp

lemma demo_sizes: "sizes_ok demo_mail" "parse_ok (\<lambda>_. empty_message)"
  by (simp_all add: sizes_ok_def demo_mail_def empty_message_def parse_ok_def)

lemma demo_reach:
  "sys_reach (\<lambda>_. empty_message) (demo_inbox, [], [(demo_ulid, demo_stored)])"
proof -
  have 1: "sys_reach (\<lambda>_. empty_message) (demo_empty, [], [])" using demo_new by (rule reach_new)
  have 2: "sys_step (\<lambda>_. empty_message) (demo_empty, [], []) (demo_empty, [demo_pending], [])"
    by (rule step_begin[OF demo_begin demo_is_ulid])
      (simp_all add: demo_empty_def pending_ids_def demo_sizes)
  have 3: "sys_step (\<lambda>_. empty_message) (demo_empty, [] @ demo_pending # [], [])
      (demo_inbox, [] @ [], AList.update (msg_id (pd_msg demo_pending)) (pd_msg demo_pending) [])"
    by (rule step_commit[OF demo_commit])
  have "AList.update (msg_id (pd_msg demo_pending)) (pd_msg demo_pending) [] = [(demo_ulid, demo_stored)]"
    by simp
  with 3 have "sys_step (\<lambda>_. empty_message) (demo_empty, [demo_pending], []) (demo_inbox, [], [(demo_ulid, demo_stored)])"
    by simp
  with reach_step[OF 1 2] show ?thesis by (rule reach_step)
qed

section \<open>The invariant\<close>

text \<open>C2. Whatever the operations, their order and the failures of the file system: every reachable
  inbox indexes each id once, keeps its order sorted by arrival time and id, counts the bytes of
  exactly the messages it holds, and stays within its caps on messages and bytes; every message's id
  is a ULID, and the spill files it refers to bear that id, so that no two messages share one.\<close>

theorem inbox_invariant:
  assumes "sys_reach parse (m, P, G)" "parse_ok parse"
  shows "distinct (ib_order m) \<and> distinct (keys (ib_by_id m)) \<and> set (ib_order m) = set (keys (ib_by_id m))
    \<and> sorted_wrt (earlier (ib_by_id m)) (ib_order m)
    \<and> ib_bytes m = sum_list (map (res_of (ib_by_id m)) (ib_order m))
    \<and> int (length (ib_order m)) \<le> ib_max_messages m \<and> ib_bytes m \<le> ib_max_bytes m
    \<and> (\<forall>k r. lookup (ib_by_id m) k = Some r \<longrightarrow> is_ulid k \<and> (\<forall>p \<in> spill_paths r. owned k p)
         \<and> (\<forall>k1 r1. lookup (ib_by_id m) k1 = Some r1 \<longrightarrow> k1 \<noteq> k \<longrightarrow> spill_paths r \<inter> spill_paths r1 = {}))"
proof -
  have s: "sys_inv (m, P, G)" using sys_reach_inv[OF assms] .
  then have i: "inbox_inv m" by (simp add: sys_inv_def)
  then have c: "core_inv m" "occupancy_ok m" by (simp_all add: inbox_inv_def)
  have o: "is_ulid k \<and> (\<forall>p \<in> spill_paths r. owned k p)" if "lookup (ib_by_id m) k = Some r" for k r
    using s that by (simp add: sys_inv_def rec_ok_def)
  have "spill_paths r \<inter> spill_paths r1 = {}"
    if "lookup (ib_by_id m) k = Some r" "lookup (ib_by_id m) k1 = Some r1" "k1 \<noteq> k" for k r k1 r1
    using o[OF that(1)] o[OF that(2)] owned_disjoint[of k1 k] that(3) by blast
  with o show ?thesis using core_invD[OF c(1)] c by (simp add: core_inv_def index_ok_def occupancy_ok_def)
qed

theorem inbox_invariant_witness:
  "ib_bytes demo_inbox = sum_list (map (res_of (ib_by_id demo_inbox)) (ib_order demo_inbox))
   \<and> int (length (ib_order demo_inbox)) \<le> ib_max_messages demo_inbox"
  using inbox_invariant[OF demo_reach demo_sizes(2)] by simp

text \<open>C3. The inbox is faithful: in every reachable state each indexed message, read back with its
  spilled parts, is exactly the message that was accepted under that id, up to the read flag, and
  it is charged exactly the bytes that message occupies.\<close>

theorem inbox_fidelity:
  assumes "sys_reach parse (m, P, G)" "parse_ok parse" "lookup (ib_by_id m) k = Some r"
  shows "\<exists>orig. lookup G k = Some orig \<and> r_resident r = resident_bytes orig
    \<and> load_spill good_io r (ib_disk m) = Inr (orig \<lparr> msg_read := msg_read (r_msg r) \<rparr>)"
  using sys_reach_inv[OF assms(1,2)] assms(3) unfolding sys_inv_def rec_ok_def by auto

theorem inbox_fidelity_witness:
  "\<exists>orig. lookup [(demo_ulid, demo_stored)] demo_ulid = Some orig \<and> r_resident demo_record = resident_bytes orig
    \<and> load_spill good_io demo_record (ib_disk demo_inbox) = Inr (orig \<lparr> msg_read := msg_read (r_msg demo_record) \<rparr>)"
  by (rule inbox_fidelity[OF demo_reach demo_sizes(2)]) (simp add: demo_inbox_def)

section \<open>Insert\<close>

text \<open>An insert that is refused changes nothing but its own files, and the reason is decided by the
  state alone: the stale epoch error exactly when a wipe came between the capture of the epoch and
  the lock; otherwise the full error exactly when the message neither fits nor can be made to fit by
  eviction, which for a message within the byte cap means that the policy is not to evict; what is
  left is a failure of the file system.\<close>

lemma insert_refused:
  assumes "inbox_inv m" "0 \<le> pd_candidate pd" "pd_candidate pd \<le> ib_max_bytes m"
    and "insert_commit io pd m = (Inl e, m')"
  shows "m' = m \<lparr> ib_disk := ib_disk m' \<rparr>
    \<and> (e = ErrStaleEpoch \<longleftrightarrow> pd_epoch pd \<noteq> ib_epoch m)
    \<and> (e = ErrFull \<longleftrightarrow> pd_epoch pd = ib_epoch m \<and> \<not> fits (pd_candidate pd) m \<and> ib_full_policy m \<noteq> evict_policy)
    \<and> (e = ErrStaleEpoch \<or> e = ErrFull \<or> (\<exists>w. e = ErrSpill w))"
proof -
  have ci: "core_inv m" using assms(1) by (simp add: inbox_inv_def)
  from ci assms(2) show ?thesis
  proof (cases rule: insert_commit_cases[where io = io])
    case (stored r job d m1)
    then show ?thesis using assms(4) by simp
  next
    case (refused e' job d)
    from refused show ?thesis
      using assms(3,4) can_accept_iff(1)[OF ci assms(2)]
      by (cases "pd_epoch pd = ib_epoch m"; cases "can_accept (pd_candidate pd) m = None") auto
  qed
qed

theorem insert_refused_witness:
  "insert_commit good_io (demo_pending \<lparr> pd_epoch := 0 \<rparr>) demo_inbox = (Inl ErrStaleEpoch, demo_inbox)
   \<and> pd_epoch (demo_pending \<lparr> pd_epoch := 0 \<rparr>) \<noteq> ib_epoch demo_inbox"
proof -
  have c: "insert_commit good_io (demo_pending \<lparr> pd_epoch := 0 \<rparr>) demo_inbox = (Inl ErrStaleEpoch, demo_inbox)"
    by (simp add: insert_commit_def demo_pending_def demo_inbox_def demo_empty_def unlink_spill_job_def Let_def)
  have "inbox_inv demo_inbox" using sys_reach_inv[OF demo_reach demo_sizes(2)] by (simp add: sys_inv_def)
  from insert_refused[OF this _ _ c] c show ?thesis
    by (simp add: demo_pending_def demo_inbox_def demo_empty_def)
qed

text \<open>What is left after the first \<open>i\<close> evictions, in numbers.\<close>

lemma kept_totals:
  assumes k: "kept m i mi" and c: "core_inv mi" "core_inv m" and i: "i \<le> length (ib_order m)"
  shows "ib_bytes mi = sum_list (map (res_of (ib_by_id m)) (drop i (ib_order m)))"
    and "int (length (ib_by_id mi)) = int (length (ib_order m)) - int i"
proof -
  have oi: "ib_order mi = drop i (ib_order m)" using k by (simp add: kept_def)
  have "map (res_of (ib_by_id mi)) (ib_order mi) = map (res_of (ib_by_id m)) (drop i (ib_order m))"
    unfolding oi by (rule map_cong[OF refl]) (use k oi in \<open>auto simp: kept_def res_of_def\<close>)
  then show "ib_bytes mi = sum_list (map (res_of (ib_by_id m)) (drop i (ib_order m)))"
    using core_invD(5)[OF c(1)] by simp
  show "int (length (ib_by_id mi)) = int (length (ib_order m)) - int i"
    using core_invD(4)[OF c(1)] oi i by simp
qed

text \<open>An accepted insert evicts exactly as many of the oldest messages as it must and no more:
  the new order is the old one without its \<open>j\<close> first ids with the new id put in its place, fewer
  evictions would not have made room, every survivor keeps its record, and the generation grows by
  one for each eviction and one for the insert.\<close>

lemma insert_effect:
  assumes "inbox_inv m" "0 \<le> pd_candidate pd" "msg_id (pd_msg pd) \<notin> set (ib_order m)"
    and "insert_commit io pd m = (Inr res, m')"
  shows "\<exists>j\<le>length (ib_order m).
      ib_order m' = insert_order (ib_by_id m') (msg_id (pd_msg pd)) (received_at (pd_msg pd)) (drop j (ib_order m))
    \<and> (\<forall>i<j. \<not> (int (length (ib_order m)) - int i < ib_max_messages m
          \<and> sum_list (map (res_of (ib_by_id m)) (drop i (ib_order m))) + pd_candidate pd \<le> ib_max_bytes m))
    \<and> (\<forall>k\<in>set (drop j (ib_order m)). lookup (ib_by_id m') k = lookup (ib_by_id m) k)
    \<and> ib_generation m' = ib_generation m + j + 1 \<and> ir_generation res = ib_generation m'
    \<and> ir_id res = msg_id (pd_msg pd) \<and> ib_epoch m' = ib_epoch m \<and> pd_epoch pd = ib_epoch m"
proof -
  let ?k = "msg_id (pd_msg pd)"
  have ci: "core_inv m" using assms(1) by (simp add: inbox_inv_def)
  from ci assms(2) show ?thesis
  proof (cases rule: insert_commit_cases[where io = io])
    case (stored r job d m1)
    let ?m0 = "m \<lparr> ib_disk := d \<rparr>"
    have c0: "core_inv ?m0" using ci by simp
    obtain j where j: "j \<le> length (ib_order m)" "kept ?m0 j m1" "ib_generation m1 = ib_generation m + j"
      and less: "\<forall>i<j. \<exists>mi. kept ?m0 i mi \<and> core_inv mi \<and> \<not> fits (pd_candidate pd) mi
          \<and> ib_max_messages mi = ib_max_messages m \<and> ib_max_bytes mi = ib_max_bytes m"
      using evict_loop_drop[OF c0, of io "fits (pd_candidate pd)" "length (ib_order m)"]
      unfolding stored(4)[symmetric] by auto
    have m': "m' = emit (received_event pd m1) (index_new r ?k m1)"
      "res = \<lparr> ir_id = ?k, ir_generation = Suc (ib_generation m1) \<rparr>" using stored(6) assms(4) by auto
    have rt: "received_at (r_msg r) = received_at (pd_msg pd)" using commit_spill_keeps[OF stored(3)] by simp
    have o1: "ib_order m1 = drop j (ib_order m)" using j(2) by (simp add: kept_def)
    have same: "lookup (ib_by_id m') k = lookup (ib_by_id m) k" if "k \<in> set (drop j (ib_order m))" for k
    proof -
      have "k \<noteq> ?k" using that assms(3) by (auto dest: in_set_dropD)
      then show ?thesis using that j(2) o1 by (simp add: m' index_new_def Let_def kept_def)
    qed
    have tight: "\<not> (int (length (ib_order m)) - int i < ib_max_messages m
          \<and> sum_list (map (res_of (ib_by_id m)) (drop i (ib_order m))) + pd_candidate pd \<le> ib_max_bytes m)"
      if i: "i < j" for i
    proof -
      obtain mi where mi: "kept ?m0 i mi" "core_inv mi" "\<not> fits (pd_candidate pd) mi"
        "ib_max_messages mi = ib_max_messages m" "ib_max_bytes mi = ib_max_bytes m" using less i by blast
      have "i \<le> length (ib_order ?m0)" using i j(1) by simp
      from kept_totals[OF mi(1,2) c0 this] mi(3-5) show ?thesis by (simp add: fits_def)
    qed
    have ord: "ib_order m' = insert_order (ib_by_id m') ?k (received_at (pd_msg pd)) (drop j (ib_order m))"
      by (simp add: m' index_new_def Let_def rt o1)
    have ep: "ib_epoch m' = ib_epoch m" "ib_generation m' = ib_generation m + j + 1"
      using j(3) by (simp_all add: m' index_new_def Let_def stored(4))
    show ?thesis using j(1) ord tight same ep stored(1) m'(2) j(3) by (intro exI[of _ j]) auto
  next
    case (refused e job d)
    then show ?thesis using assms(4) by simp
  qed
qed

lemma demo_empty_inv: "inbox_inv demo_empty"
  using new_memory_inv[OF demo_new] .

theorem insert_effect_witness:
  "\<exists>j\<le>length (ib_order demo_empty).
     ib_order demo_inbox = insert_order (ib_by_id demo_inbox) demo_ulid 7 (drop j (ib_order demo_empty))
   \<and> ib_generation demo_inbox = ib_generation demo_empty + j + 1"
proof -
  have "msg_id (pd_msg demo_pending) \<notin> set (ib_order demo_empty)" by (simp add: demo_empty_def)
  from insert_effect[OF demo_empty_inv _ this demo_commit] show ?thesis
    unfolding demo_pending_fields by (metis zero_le_numeral)
qed

section \<open>Caps, wipes and epochs\<close>

text \<open>\<^verbatim>\<open>ReplaceCaps\<close> either changes nothing at all or installs the caps: it fails exactly when the
  options are malformed, or when the inbox is over the new caps, the new policy is not to evict and
  the caller does not force it.  When it succeeds the inbox is within the new caps and what is left
  is the newest part of what was there.\<close>

lemma replace_caps_effect:
  assumes "inbox_inv m"
  shows "(fst (replace_caps io opts force m) \<noteq> None \<longrightarrow> snd (replace_caps io opts force m) = m)
    \<and> (fst (replace_caps io opts force m) = None \<longleftrightarrow>
        (\<exists>op. normalize_options opts = Inr op \<and> (over_caps op m \<longrightarrow> o_full_policy op = evict_policy \<or> force)))
    \<and> (fst (replace_caps io opts force m) = None \<longrightarrow>
        (let m' = snd (replace_caps io opts force m) in
           ib_max_messages m' = o_max_messages opts \<and> ib_max_bytes m' = o_max_bytes opts \<and> occupancy_ok m'
           \<and> (\<exists>j. ib_order m' = drop j (ib_order m)) \<and> ib_epoch m' = ib_epoch m))"
  using assms by (rule replace_caps_outcome)

theorem replace_caps_effect_witness:
  "snd (replace_caps good_io (demo_options \<lparr> o_max_bytes := 5, o_full_policy := reject_policy \<rparr>) False demo_inbox) = demo_inbox"
proof -
  have "inbox_inv demo_inbox" using sys_reach_inv[OF demo_reach demo_sizes(2)] by (simp add: sys_inv_def)
  from replace_caps_effect[OF this, of good_io "demo_options \<lparr> o_max_bytes := 5, o_full_policy := reject_policy \<rparr>" False]
  show ?thesis by (simp add: normalize_options_def demo_options_def over_caps_def demo_inbox_def demo_empty_def Let_def)
qed

text \<open>Only a wipe or a reset moves the epoch, by one, and leaves no message, no order and no bytes
  behind; every other operation, and every insert, keeps it.  So mail whose epoch was captured
  before a wipe is never stored after it.\<close>

lemma epoch_only_wipe:
  assumes "inbox_inv m" "0 \<le> pd_candidate pd"
  shows "(ib_epoch (run_call io c m) = ib_epoch m
          \<or> ((c = WipeCall \<or> (\<exists>op. c = ResetToCall op)) \<and> ib_epoch (run_call io c m) = Suc (ib_epoch m)
             \<and> ib_by_id (run_call io c m) = [] \<and> ib_order (run_call io c m) = [] \<and> ib_bytes (run_call io c m) = 0))
    \<and> ib_epoch (run_call io WipeCall m) = Suc (ib_epoch m)
    \<and> ib_epoch (snd (insert_commit io pd m)) = ib_epoch m
    \<and> (pd_epoch pd < ib_epoch m \<longrightarrow> fst (insert_commit io2 pd m) = Inl ErrStaleEpoch)"
proof -
  have call: "ib_epoch (run_call io c m) = ib_epoch m
          \<or> ((c = WipeCall \<or> (\<exists>op. c = ResetToCall op)) \<and> ib_epoch (run_call io c m) = Suc (ib_epoch m)
             \<and> ib_by_id (run_call io c m) = [] \<and> ib_order (run_call io c m) = [] \<and> ib_bytes (run_call io c m) = 0)"
    by (cases c)
      (auto simp: memory_delete_def delete_all_def mark_read_def mark_all_read_def memory_get_def set_read_def
        replace_caps_def configure_def evict_until_under_caps_def install_options_def reset_to_def clear_inbox_def
        wipe_def subscribe_def cancel_sub_def receive_event_def Let_def split: option.splits sum.splits prod.splits if_splits)
  have ins: "ib_epoch (snd (insert_commit io pd m)) = ib_epoch m"
  proof -
    have "core_inv m" using assms(1) by (simp add: inbox_inv_def)
    from this assms(2) show ?thesis
    proof (cases rule: insert_commit_cases[where io = io])
      case (stored r job d m1)
      then show ?thesis by (simp add: index_new_def Let_def)
    next
      case (refused e job d)
      then show ?thesis by simp
    qed
  qed
  have "pd_epoch pd < ib_epoch m \<longrightarrow> fst (insert_commit io2 pd m) = Inl ErrStaleEpoch"
    by (simp add: insert_commit_def Let_def)
  with call ins show ?thesis by (simp add: wipe_def Let_def clear_inbox_def)
qed

theorem epoch_only_wipe_witness:
  "ib_epoch (run_call good_io WipeCall demo_empty) = Suc (ib_epoch demo_empty)
   \<and> ib_epoch (snd (insert_commit good_io demo_pending demo_empty)) = ib_epoch demo_empty"
  using epoch_only_wipe[OF demo_empty_inv, of demo_pending] by simp

section \<open>Events\<close>

definition offered :: "event list \<Rightarrow> (nat \<times> subscriber) list \<Rightarrow> (nat \<times> subscriber) list" where
  "offered evs subs = map (\<lambda>(k, s). (k, fold offer evs s)) subs"

text \<open>\<open>m'\<close> follows \<open>m\<close> by announcing the events \<open>evs\<close>, one for each generation in between.\<close>

definition announces :: "inbox \<Rightarrow> inbox \<Rightarrow> event list \<Rightarrow> bool" where
  "announces m m' evs \<longleftrightarrow> ib_generation m \<le> ib_generation m' \<and> ib_subs m' = offered evs (ib_subs m)
     \<and> map ev_generation evs = [Suc (ib_generation m)..<Suc (ib_generation m')]"

lemma offered_Nil [simp]: "offered [] subs = subs"
  by (induction subs) (auto simp: offered_def)

lemma offered_append: "offered (a @ b) subs = offered b (offered a subs)"
  by (simp add: offered_def split_beta)

lemma announces_refl: "ib_generation m' = ib_generation m \<Longrightarrow> ib_subs m' = ib_subs m \<Longrightarrow> announces m m' []"
  by (simp add: announces_def)

lemma announces_trans:
  assumes "announces m m1 e1" "announces m1 m2 e2"
  shows "announces m m2 (e1 @ e2)"
proof -
  have "[Suc (ib_generation m)..<Suc (ib_generation m1)] @ [Suc (ib_generation m1)..<Suc (ib_generation m2)]
      = [Suc (ib_generation m)..<Suc (ib_generation m2)]"
    using assms upt_add_eq_append[of "Suc (ib_generation m)" "Suc (ib_generation m1)" "ib_generation m2 - ib_generation m1"]
    by (simp add: announces_def)
  then show ?thesis using assms by (simp add: announces_def offered_append)
qed

lemma announces_emit:
  assumes "ib_generation m1 = Suc (ib_generation m)" "ib_subs m1 = ib_subs m" "ev_generation ev = ib_generation m1"
  shows "announces m (emit ev m1) [ev]"
  using assms by (simp add: announces_def offered_def emit_def)

lemma announces_cong:
  "announces m m1 evs \<Longrightarrow> ib_generation m0 = ib_generation m \<Longrightarrow> ib_subs m0 = ib_subs m \<Longrightarrow> announces m0 m1 evs"
  by (simp add: announces_def)

lemma announces_remove: "\<exists>evs. announces m (remove_locked io k e m) evs"
proof (cases "lookup (ib_by_id m) k")
  case None
  then show ?thesis by (auto simp: remove_locked_def announces_def intro: exI[of _ "[]"])
next
  case (Some r)
  show ?thesis unfolding remove_locked_def Some Let_def option.case
    by (rule exI, rule announces_emit) simp_all
qed

lemma announces_evict: "\<exists>evs. announces m (evict_loop io okp n m) evs"
proof (induction n arbitrary: m)
  case 0
  then show ?case by (auto intro: announces_refl)
next
  case (Suc n)
  obtain e1 where e1: "announces m (remove_locked io (hd (ib_order m)) True m) e1" using announces_remove by blast
  obtain e2 where e2: "announces (remove_locked io (hd (ib_order m)) True m)
      (evict_loop io okp n (remove_locked io (hd (ib_order m)) True m)) e2" using Suc by blast
  show ?case using announces_trans[OF e1 e2] announces_refl[of m m] by auto
qed

lemma announces_fold: "\<exists>evs. announces m (fold (\<lambda>k. remove_locked io k e) ids m) evs"
proof (induction ids arbitrary: m)
  case (Cons k ids)
  obtain e1 where e1: "announces m (remove_locked io k e m) e1" using announces_remove by blast
  obtain e2 where e2: "announces (remove_locked io k e m)
      (fold (\<lambda>k. remove_locked io k e) ids (remove_locked io k e m)) e2" using Cons by blast
  show ?case using announces_trans[OF e1 e2] by auto
qed (auto intro: announces_refl)

lemma announces_caps:
  assumes "ib_generation m1 = ib_generation m" "ib_subs m1 = ib_subs m"
  shows "\<exists>evs. announces m (snd (evict_until_under_caps io m1)) evs"
proof -
  obtain evs where "announces m1 (evict_loop io occupancy_ok (length (ib_order m1)) m1) evs"
    using announces_evict by blast
  then have "announces m (evict_loop io occupancy_ok (length (ib_order m1)) m1) evs"
    by (rule announces_cong) (simp_all add: assms)
  then show ?thesis by (auto simp: evict_until_under_caps_def Let_def)
qed

definition is_sub_call :: "store_call \<Rightarrow> bool" where
  "is_sub_call c = (case c of SubscribeCall _ \<Rightarrow> True | CancelCall _ \<Rightarrow> True | ReceiveCall _ \<Rightarrow> True | _ \<Rightarrow> False)"

lemma announces_call:
  assumes "\<not> is_sub_call c"
  shows "\<exists>evs. announces m (run_call io c m) evs"
proof -
  have refl: "\<exists>evs. announces m m' evs" if "ib_generation m' = ib_generation m" "ib_subs m' = ib_subs m" for m'
    using announces_refl[OF that] by blast
  have rd: "ib_generation (set_read k m) = ib_generation m" "ib_subs (set_read k m) = ib_subs m" for k
    by (auto simp: set_read_def split: option.splits)
  show ?thesis
  proof (cases c)
    case (GetCall k mark m1 d)
    then show ?thesis using refl rd by (auto simp: memory_get_def split: option.splits sum.splits)
  next
    case (DeleteCall k)
    then show ?thesis using refl announces_remove by (auto simp: memory_delete_def split: option.splits)
  next
    case DeleteAllCall
    then show ?thesis using refl announces_fold by (auto simp: delete_all_def Let_def)
  next
    case (MarkReadCall k)
    then show ?thesis using refl rd by (auto simp: mark_read_def split: option.splits)
  next
    case MarkAllReadCall
    then show ?thesis using refl by (simp add: mark_all_read_def)
  next
    case (ReplaceCapsCall op force)
    show ?thesis
    proof (cases "normalize_options op")
      case (Inr o2)
      let ?m1 = "m \<lparr> ib_max_messages := o_max_messages o2, ib_max_bytes := o_max_bytes o2, ib_full_policy := o_full_policy o2 \<rparr>"
      show ?thesis using ReplaceCapsCall Inr refl announces_caps[of ?m1 m io]
        by (auto simp: replace_caps_def Let_def split: option.splits prod.splits)
    qed (use ReplaceCapsCall refl in \<open>simp add: replace_caps_def\<close>)
  next
    case (ConfigureCall op)
    show ?thesis
    proof (cases "normalize_options op")
      case (Inr o2)
      show ?thesis using ConfigureCall Inr refl announces_caps[of "install_options o2 m" m io]
        by (auto simp: configure_def install_options_def Let_def split: option.splits prod.splits)
    qed (use ConfigureCall refl in \<open>simp add: configure_def\<close>)
  next
    case (ResetToCall op)
    show ?thesis
    proof (cases "normalize_options op")
      case (Inr o2)
      have "announces m (emit (wiped_event (install_options o2 (clear_inbox io m))) (install_options o2 (clear_inbox io m)))
          [wiped_event (install_options o2 (clear_inbox io m))]"
        by (rule announces_emit) (simp_all add: clear_inbox_def install_options_def wiped_event_def)
      then show ?thesis using ResetToCall Inr by (auto simp: reset_to_def Let_def)
    qed (use ResetToCall refl in \<open>simp add: reset_to_def\<close>)
  next
    case WipeCall
    have "announces m (emit (wiped_event (clear_inbox io m)) (clear_inbox io m)) [wiped_event (clear_inbox io m)]"
      by (rule announces_emit) (simp_all add: clear_inbox_def wiped_event_def)
    then show ?thesis using WipeCall by (auto simp: wipe_def Let_def)
  qed (use assms in \<open>auto simp: is_sub_call_def\<close>)
qed

lemma offer_fold:
  "fold offer evs s = s \<lparr> sub_queue := sub_queue s @ take (sub_cap s - length (sub_queue s)) evs \<rparr>"
proof (induction evs arbitrary: s)
  case (Cons ev evs)
  show ?case
  proof (cases "length (sub_queue s) < sub_cap s")
    case True
    then obtain n where n: "sub_cap s - length (sub_queue s) = Suc n" by (metis Suc_diff_Suc)
    then have "sub_cap s - Suc (length (sub_queue s)) = n" by simp
    then show ?thesis using True n Cons[of "offer ev s"] by (simp add: offer_def)
  next
    case False
    then show ?thesis using Cons[of s] by (simp add: offer_def)
  qed
qed simp

text \<open>C11. Events leave no gap: every operation but subscribing itself, and every insert, offers each
  subscriber one event for every generation it adds, in order and numbered with it.  A subscriber
  keeps exactly as many of them, from the first on, as its buffer has room for; the others are
  dropped without a mark, and what the buffer already held is never touched.\<close>

theorem events_gapless:
  assumes "\<not> is_sub_call c" "inbox_inv m" "0 \<le> pd_candidate pd"
  shows "(\<exists>evs. announces m (run_call io c m) evs) \<and> (\<exists>evs. announces m (snd (insert_commit io pd m)) evs)
    \<and> (\<forall>m' evs k s. announces m m' evs \<longrightarrow> (k, s) \<in> set (ib_subs m) \<longrightarrow>
         (k, s \<lparr> sub_queue := sub_queue s @ take (sub_cap s - length (sub_queue s)) evs \<rparr>) \<in> set (ib_subs m'))"
proof (intro conjI allI impI)
  show "\<exists>evs. announces m (run_call io c m) evs" using assms(1) by (rule announces_call)
  have "core_inv m" using assms(2) by (simp add: inbox_inv_def)
  from this assms(3) show "\<exists>evs. announces m (snd (insert_commit io pd m)) evs"
  proof (cases rule: insert_commit_cases[where io = io])
    case (stored r job d m1)
    obtain e1 where e1: "announces (m \<lparr> ib_disk := d \<rparr>) m1 e1" using announces_evict stored(4) by blast
    have e1': "announces m m1 e1" by (rule announces_cong[OF e1]) simp_all
    have e2: "announces m1 (emit (received_event pd m1) (index_new r (msg_id (pd_msg pd)) m1)) [received_event pd m1]"
      by (rule announces_emit) (simp_all add: index_new_def received_event_def Let_def)
    have "snd (insert_commit io pd m) = emit (received_event pd m1) (index_new r (msg_id (pd_msg pd)) m1)"
      using stored(6) by simp
    then show ?thesis using announces_trans[OF e1' e2] by auto
  next
    case (refused e job d)
    then have "announces m (snd (insert_commit io pd m)) []" by (intro announces_refl) simp_all
    then show ?thesis by blast
  qed
next
  fix m' evs k s
  assume "announces m m' evs" "(k, s) \<in> set (ib_subs m)"
  then show "(k, s \<lparr> sub_queue := sub_queue s @ take (sub_cap s - length (sub_queue s)) evs \<rparr>) \<in> set (ib_subs m')"
    using offer_fold[of evs s] by (force simp: announces_def offered_def)
qed

theorem events_gapless_witness:
  "\<exists>evs. announces demo_empty (snd (insert_commit good_io demo_pending demo_empty)) evs"
  using events_gapless[of WipeCall demo_empty demo_pending good_io] demo_empty_inv by (simp add: is_sub_call_def)

section \<open>Pages\<close>

lemma filter_after_hit:
  "distinct xs \<Longrightarrow> i < length (filter p xs) \<Longrightarrow>
     filter p (tl (dropWhile (\<lambda>k. k \<noteq> filter p xs ! i) xs)) = drop (Suc i) (filter p xs)"
proof (induction xs arbitrary: i)
  case (Cons x xs)
  show ?case
  proof (cases "p x")
    case True
    show ?thesis
    proof (cases i)
      case 0
      then show ?thesis using True by simp
    next
      case (Suc j)
      have "filter p xs ! j \<in> set xs" using Cons.prems True Suc by (metis Suc_less_eq filter.simps(2) filter_is_subset length_Cons nth_mem subsetD)
      then have "x \<noteq> filter p xs ! j" using Cons.prems(1) by auto
      then show ?thesis using Cons True Suc by simp
    qed
  next
    case False
    have "filter p xs ! i \<in> set xs" using Cons.prems False by (metis filter.simps(2) filter_is_subset nth_mem subsetD)
    then have "x \<noteq> filter p xs ! i" using Cons.prems(1) by auto
    then show ?thesis using Cons False by simp
  qed
qed simp

lemma dropWhile_skip: "k \<notin> set xs \<Longrightarrow> dropWhile (\<lambda>x. x \<noteq> k) (xs @ ys) = dropWhile (\<lambda>x. x \<noteq> k) ys"
  by (induction xs) auto

lemma after_cursor_suffix:
  assumes "cid = [] \<or> cid \<in> set (ib_order m)"
  obtains pre where "rev (ib_order m) = pre @ after_cursor m cid"
proof (cases "cid = []")
  case True
  then show thesis using that[of "[]"] by (simp add: after_cursor_def)
next
  case False
  then obtain xs ys where s: "rev (ib_order m) = xs @ cid # ys" "cid \<notin> set xs"
    using assms split_list_first[of cid "rev (ib_order m)"] by auto
  then have "after_cursor m cid = ys" using False by (simp add: after_cursor_def dropWhile_skip)
  with s show thesis using that[of "xs @ [cid]"] by simp
qed

lemma matches_after_hit:
  assumes "core_inv m" "cid = [] \<or> cid \<in> set (ib_order m)"
    and i: "i < length (matches m f (after_cursor m cid))" and ne: "[] \<notin> set (ib_order m)"
  defines "k \<equiv> matches m f (after_cursor m cid) ! i"
  shows "k \<in> set (ib_order m) \<and> k \<noteq> []
    \<and> matches m f (after_cursor m k) = drop (Suc i) (matches m f (after_cursor m cid))"
proof -
  let ?S = "after_cursor m cid"
  obtain pre where pre: "rev (ib_order m) = pre @ ?S" using assms(2) by (rule after_cursor_suffix)
  have d: "distinct (pre @ ?S)" using core_invD(2)[OF assms(1)] unfolding pre[symmetric] by simp
  have kS: "k \<in> set ?S" using i nth_mem[OF i] by (auto simp: k_def matches_def)
  then have ko: "k \<in> set (ib_order m)" using arg_cong[OF pre, of set] by auto
  then have kn: "k \<noteq> []" using ne by auto
  have "k \<notin> set pre" using d kS by auto
  then have "after_cursor m k = tl (dropWhile (\<lambda>x. x \<noteq> k) ?S)"
    using kn by (simp add: after_cursor_def pre dropWhile_skip)
  then show ?thesis using ko kn filter_after_hit[of ?S i] d i by (simp add: matches_def k_def)
qed

lemma all_pages_complete:
  assumes "core_inv m" "[] \<notin> set (ib_order m)"
  shows "q_cursor q = [] \<or> q_cursor q \<in> set (ib_order m) \<Longrightarrow>
     length (matches m (q_filter q) (after_cursor m (q_cursor q))) < n \<Longrightarrow>
     all_pages ut n q m = recs m (matches m (q_filter q) (after_cursor m (q_cursor q)))"
proof (induction n arbitrary: q)
  case (Suc n)
  let ?h = "matches m (q_filter q) (after_cursor m (q_cursor q))" let ?l = "list_limit (q_limit q)"
  have l: "0 < ?l" by (rule list_limit_bounds)
  have pg: "list_page ut q m = (recs m (take ?l ?h), if length ?h \<le> ?l then [] else ?h ! (?l - 1))"
    using list_page_spec[OF assms(1) Suc.prems(1)] by (simp add: Let_def)
  show ?case
  proof (cases "length ?h \<le> ?l")
    case True
    then show ?thesis by (simp add: pg)
  next
    case False
    then have i: "?l - 1 < length ?h" using l by linarith
    let ?q = "q \<lparr> q_cursor := ?h ! (?l - 1) \<rparr>"
    note ah = matches_after_hit[OF assms(1) Suc.prems(1) i assms(2)]
    have shorter: "length (drop ?l ?h) < n" using Suc.prems(2) l False by (simp add: less_diff_conv2)
    have dr: "matches m (q_filter ?q) (after_cursor m (q_cursor ?q)) = drop ?l ?h"
      using ah l by simp
    have "all_pages ut n ?q m = recs m (drop ?l ?h)"
      using Suc.IH[of ?q] ah shorter unfolding dr by simp
    then show ?thesis using False ah by (simp add: pg recs_def flip: map_append)
  qed
qed simp

lemma reach_no_empty_id:
  assumes "sys_reach parse (m, P, G)" "parse_ok parse"
  shows "core_inv m \<and> [] \<notin> set (ib_order m) \<and> (\<forall>k\<in>set (ib_order m). \<exists>r. lookup (ib_by_id m) k = Some r \<and> rec_ok G (ib_disk m) k r)"
proof -
  have i: "sys_inv (m, P, G)" using sys_reach_inv[OF assms] .
  then have c: "core_inv m" by (simp add: sys_inv_def inbox_inv_def)
  have "\<exists>r. lookup (ib_by_id m) k = Some r \<and> rec_ok G (ib_disk m) k r" if "k \<in> set (ib_order m)" for k
    using i that order_lookup[OF c] unfolding sys_inv_def by auto
  moreover have "rec_ok G d [] r \<Longrightarrow> False" for d r by (simp add: rec_ok_def is_ulid_def)
  ultimately show ?thesis using c by blast
qed

text \<open>C12. Pagination is complete and without repetition: following the cursors from the newest
  message through an unchanged inbox yields exactly the messages that match the filter, newest
  first, each once; every page can be read back, and its messages match.\<close>

theorem pagination_complete:
  assumes "sys_reach parse (m, P, G)" "parse_ok parse" "q_cursor q = []"
  shows "all_pages ut (Suc (length (ib_order m))) q m = recs m (matches m (q_filter q) (rev (ib_order m)))
    \<and> (\<exists>res. memory_list good_io ut q m (ib_disk m) = Inr res
         \<and> (\<forall>x\<in>set (lr_items res). match_filter x (q_filter q)) \<and> length (lr_items res) \<le> list_limit (q_limit q))"
proof -
  note r = reach_no_empty_id[OF assms(1,2)]
  let ?h = "matches m (q_filter q) (rev (ib_order m))"
  have ac: "after_cursor m (q_cursor q) = rev (ib_order m)" using assms(3) by (simp add: after_cursor_def)
  have "length ?h \<le> length (ib_order m)" using length_filter_le unfolding matches_def by (metis length_rev)
  then have pages: "all_pages ut (Suc (length (ib_order m))) q m = recs m ?h"
    using all_pages_complete[of m q "Suc (length (ib_order m))" ut] r assms(3) unfolding ac by simp
  have ld: "\<exists>ms. load_all good_io (ib_disk m) (recs m ks) = Inr ms \<and> length ms = length ks
       \<and> (\<forall>x\<in>set ms. match_filter x (q_filter q))"
    if "set ks \<subseteq> set ?h" for ks
    using that
  proof (induction ks)
    case (Cons k ks)
    then obtain rk where rk: "lookup (ib_by_id m) k = Some rk" "rec_ok G (ib_disk m) k rk" "match_filter (r_msg rk) (q_filter q)"
      using r by (auto simp: matches_def split: option.splits)
    then obtain x where x: "load_spill good_io rk (ib_disk m) = Inr x" by (auto simp: rec_ok_def)
    then have "match_filter x (q_filter q)" using load_spill_keeps[OF x] rk(3) by simp
    then show ?case using Cons rk(1) x by (auto simp: recs_def)
  qed (simp add: recs_def)
  let ?l = "list_limit (q_limit q)"
  obtain ms where ms: "load_all good_io (ib_disk m) (recs m (take ?l ?h)) = Inr ms" "length ms = length (take ?l ?h)"
    "\<forall>x\<in>set ms. match_filter x (q_filter q)"
    using ld[of "take ?l ?h"] set_take_subset by metis
  have "list_page ut q m = (recs m (take ?l ?h), if length ?h \<le> ?l then [] else ?h ! (?l - 1))"
    using list_page_spec[of m q ut] r assms(3) unfolding ac by (simp add: Let_def)
  with ms have "\<exists>res. memory_list good_io ut q m (ib_disk m) = Inr res
         \<and> (\<forall>x\<in>set (lr_items res). match_filter x (q_filter q)) \<and> length (lr_items res) \<le> ?l"
    by (simp add: memory_list_def)
  with pages show ?thesis by blast
qed

lemma demo_inbox_parts:
  "ib_order demo_inbox = [demo_ulid]" "lookup (ib_by_id demo_inbox) demo_ulid = Some demo_record"
  by (simp_all add: demo_inbox_def)

theorem pagination_complete_witness:
  "all_pages (\<lambda>_. None) 2 \<lparr> q_filter = empty_filter, q_cursor = [], q_limit = 1 \<rparr> demo_inbox = [demo_record]"
  using pagination_complete[OF demo_reach demo_sizes(2), of "\<lparr> q_filter = empty_filter, q_cursor = [], q_limit = 1 \<rparr>" "\<lambda>_. None"]
  by (simp add: recs_def matches_def demo_inbox_parts empty_filter_matches numeral_2_eq_2 del: all_pages.simps)

section \<open>Waiting\<close>

lemma newest_match_some:
  assumes "newest_match m f = Some r"
  shows "match_filter (r_msg r) f \<and> (\<exists>pre k suf. ib_order m = pre @ k # suf \<and> lookup (ib_by_id m) k = Some r
     \<and> (\<forall>j\<in>set suf. \<forall>rj. lookup (ib_by_id m) j = Some rj \<longrightarrow> \<not> match_filter (r_msg rj) f))"
proof -
  let ?p = "\<lambda>k. case lookup (ib_by_id m) k of None \<Rightarrow> False | Some r \<Rightarrow> match_filter (r_msg r) f"
  obtain k where k: "find ?p (rev (ib_order m)) = Some k" "lookup (ib_by_id m) k = Some r"
    using assms by (auto simp: newest_match_def split: option.splits)
  from k(1) obtain i where i: "i < length (rev (ib_order m))" "?p k" "k = rev (ib_order m) ! i"
    "\<forall>j<i. \<not> ?p (rev (ib_order m) ! j)" by (auto simp: find_Some_iff)
  let ?R = "rev (ib_order m)"
  have s: "?R = take i ?R @ k # drop (Suc i) ?R" using i by (simp add: id_take_nth_drop)
  have "ib_order m = rev (drop (Suc i) ?R) @ k # rev (take i ?R)"
    using arg_cong[OF s, of rev] by simp
  moreover have "\<not> ?p j" if "j \<in> set (rev (take i ?R))" for j
    using that i by (auto simp: in_set_conv_nth)
  ultimately show ?thesis using k(2) i(2) by (fastforce split: option.splits)
qed

text \<open>One round of the wait: it goes on with the next inbox, or it answers.\<close>

lemma wait_round:
  assumes "wait_loop io f m (ob # obs) = Some res"
  shows "wait_loop io f (wo_inbox ob) obs = Some res
    \<or> (newest_match m f = None \<and> wo_done ob \<and> res = Inl ErrCtx)
    \<or> (\<exists>r. newest_match m f = Some r \<and> (case res of Inl e \<Rightarrow> e \<noteq> ErrCtx
          | Inr msg \<Rightarrow> msg_id msg = msg_id (r_msg r) \<and> match_filter msg f))"
proof (cases "newest_match m f")
  case None
  then show ?thesis using assms by (auto split: if_splits)
next
  case (Some r)
  note mr = newest_match_some[OF Some]
  show ?thesis
  proof (cases "load_spill io r (wo_disk ob)")
    case (Inl e)
    then show ?thesis using assms Some by (auto simp: Let_def split: if_splits)
  next
    case (Inr msg)
    note k = load_spill_keeps[OF Inr]
    show ?thesis using assms Some Inr k mr by (auto simp: Let_def split: if_splits)
  qed
qed

text \<open>\<^verbatim>\<open>Wait\<close> answers only with a message that matches the filter and was, in an inbox the wait
  held the lock of, the newest match; it fails with the context's error only when its context was
  done with no match at hand.\<close>

lemma wait_newest:
  assumes "wait_loop io f m obs = Some res"
  shows "(\<forall>msg. res = Inr msg \<longrightarrow> match_filter msg f
            \<and> (\<exists>m1\<in>insert m (wo_inbox ` set obs). \<exists>r. newest_match m1 f = Some r \<and> msg_id msg = msg_id (r_msg r)))
    \<and> (res = Inl ErrCtx \<longrightarrow> (\<exists>ob\<in>set obs. wo_done ob)
         \<and> (\<exists>m1\<in>insert m (wo_inbox ` set obs). newest_match m1 f = None))"
  using assms
proof (induction obs arbitrary: m)
  case (Cons ob obs)
  from wait_round[OF Cons.prems] show ?case
  proof (elim disjE)
    assume "wait_loop io f (wo_inbox ob) obs = Some res"
    from Cons.IH[OF this] show ?thesis by auto
  qed (cases res; auto)+
qed simp

theorem wait_newest_witness:
  "\<exists>msg. wait_loop good_io empty_filter demo_empty
       [\<lparr> wo_done = False, wo_disk = [], wo_inbox = demo_inbox \<rparr>, \<lparr> wo_done = False, wo_disk = [], wo_inbox = demo_inbox \<rparr>]
     = Some (Inr msg) \<and> match_filter msg empty_filter"
proof -
  let ?obs = "[\<lparr> wo_done = False, wo_disk = [], wo_inbox = demo_inbox \<rparr>, \<lparr> wo_done = False, wo_disk = [], wo_inbox = demo_inbox \<rparr>]"
  have w: "wait_loop good_io empty_filter demo_empty ?obs = Some (Inr demo_stored)"
    by (simp add: newest_match_def demo_empty_def demo_inbox_def empty_filter_matches demo_record_def load_spill_def
        demo_stored_def demo_mail_def empty_message_def Let_def)
  show ?thesis using w wait_newest[OF w] by blast
qed

end
