(* ===== verification/Smtp_Args.thy ===== *)
theory Smtp_Args
  imports Codec Mail_Model
begin

text \<open>
  The arguments of SMTP commands: \<^verbatim>\<open>internal/smtp/server/parse.go\<close>, the argument and credential
  parsing of \<^verbatim>\<open>auth.go\<close> with the part of \<^verbatim>\<open>encoding/base64\<close> it uses, and the spec defaults of
  \<^verbatim>\<open>server.go\<close>.
\<close>

section \<open>Paths and parameters\<close>

definition split_angle :: "bytes \<Rightarrow> (bytes \<times> bytes) option" where
  "split_angle s0 = (let s = trim_space s0 in
     case s of
       [] \<Rightarrow> None
     | c # cs \<Rightarrow>
         if c \<noteq> CHR ''<'' then
           (case str_fields s of
              [] \<Rightarrow> None
            | w # _ \<Rightarrow> Some (w, trim_space (trim_prefix w s)))
         else (case index_byte (CHR ''>'') s of
              None \<Rightarrow> None
            | Some n \<Rightarrow> Some (drop 1 (take n s), trim_space (drop (n + 1) s))))"

definition parse_path_arg :: "bytes \<Rightarrow> bytes \<Rightarrow> (bytes \<times> bytes) option" where
  "parse_path_arg arg0 keyword = (let arg = trim_space arg0 in
     if arg = [] then None
     else if \<not> has_prefix (to_upper keyword) (to_upper arg) then None
     else split_angle (trim_space (drop (length keyword) arg)))"

fun mail_params_loop :: "bytes list \<Rightarrow> int \<Rightarrow> bool \<Rightarrow> (int \<times> bool) option" where
  "mail_params_loop [] sz size_set = Some (sz, size_set)"
| "mail_params_loop (p # ps) sz size_set =
     (let (k, v, ok) = cut (CHR ''='') p in
      if to_upper k = ''SIZE'' then
        (if \<not> ok \<or> v = [] then None
         else case parse_int64 v of
             None \<Rightarrow> None
           | Some n \<Rightarrow> if n < 0 then None else mail_params_loop ps n True)
      else mail_params_loop ps sz size_set)"

definition parse_mail_params :: "bytes \<Rightarrow> (int \<times> bool) option" where
  "parse_mail_params params =
     (if trim_space params = [] then Some (0, False) else mail_params_loop (str_fields params) 0 False)"

definition reserve_bytes :: "int \<Rightarrow> bool \<Rightarrow> int \<Rightarrow> int" where
  "reserve_bytes declared size_set mx =
     (if mx \<le> 0 then 0
      else if \<not> size_set \<or> declared \<le> 0 then mx
      else if declared < mx then declared else mx)"

definition hidden :: "bytes list \<Rightarrow> bytes \<Rightarrow> bool" where
  "hidden names ext = list_ex (\<lambda>n. to_upper (trim_space n) = ext) names"

section \<open>AUTH arguments\<close>

definition split_auth_arg :: "bytes \<Rightarrow> bytes \<times> bytes \<times> bool" where
  "split_auth_arg arg0 = (let arg = trim_space arg0 in
     if arg = [] then ([], [], False)
     else let (mech, rest0, found) = cut SP arg in
       if \<not> found then (mech, [], False)
       else let rest = trim_space rest0 in
         if rest = ''='' then (mech, [], True) else (mech, rest, True))"

definition b64_val :: "char \<Rightarrow> nat option" where
  "b64_val c = (let n = byte_val c in
     if 65 \<le> n \<and> n \<le> 90 then Some (n - 65)
     else if 97 \<le> n \<and> n \<le> 122 then Some (n - 71)
     else if 48 \<le> n \<and> n \<le> 57 then Some (n + 4)
     else if n = 43 then Some 62
     else if n = 47 then Some 63
     else None)"

definition b64_two :: "nat \<Rightarrow> nat \<Rightarrow> bytes" where
  "b64_two a b = [char_of (a * 4 + b div 16)]"

definition b64_three :: "nat \<Rightarrow> nat \<Rightarrow> nat \<Rightarrow> bytes" where
  "b64_three a b c = [char_of (a * 4 + b div 16), char_of ((b mod 16) * 16 + c div 4)]"

definition b64_four :: "nat \<Rightarrow> nat \<Rightarrow> nat \<Rightarrow> nat \<Rightarrow> bytes" where
  "b64_four a b c d =
     [char_of (a * 4 + b div 16), char_of ((b mod 16) * 16 + c div 4), char_of ((c mod 4) * 64 + d)]"

text \<open>The quanta of \<^verbatim>\<open>StdEncoding\<close> (padded) and \<^verbatim>\<open>RawStdEncoding\<close>; line breaks are skipped.\<close>

fun b64_quanta :: "bool \<Rightarrow> bytes \<Rightarrow> bytes option" where
  "b64_quanta padded [] = Some []"
| "b64_quanta padded (a # b # c # d # rest) =
     (case (b64_val a, b64_val b) of
        (Some va, Some vb) \<Rightarrow>
          (if padded \<and> c = CHR ''='' \<and> d = CHR ''='' then (if rest = [] then Some (b64_two va vb) else None)
           else case b64_val c of
               None \<Rightarrow> None
             | Some vc \<Rightarrow>
                 if padded \<and> d = CHR ''='' then (if rest = [] then Some (b64_three va vb vc) else None)
                 else (case b64_val d of
                     None \<Rightarrow> None
                   | Some vd \<Rightarrow> map_option (\<lambda>r. b64_four va vb vc vd @ r) (b64_quanta padded rest)))
      | _ \<Rightarrow> None)"
| "b64_quanta padded [a] = None"
| "b64_quanta padded [a, b] =
     (if padded then None
      else case (b64_val a, b64_val b) of (Some va, Some vb) \<Rightarrow> Some (b64_two va vb) | _ \<Rightarrow> None)"
| "b64_quanta padded [a, b, c] =
     (if padded then None
      else case (b64_val a, b64_val b, b64_val c) of
          (Some va, Some vb, Some vc) \<Rightarrow> Some (b64_three va vb vc) | _ \<Rightarrow> None)"

definition b64_decode :: "bool \<Rightarrow> bytes \<Rightarrow> bytes option" where
  "b64_decode padded s = b64_quanta padded (filter (\<lambda>c. c \<noteq> CR \<and> c \<noteq> LF) s)"

definition decode_auth_b64 :: "bytes \<Rightarrow> bytes option" where
  "decode_auth_b64 s0 = (let s = trim_space s0 in
     case b64_decode True s of Some r \<Rightarrow> Some r | None \<Rightarrow> b64_decode False s)"

definition parse_plain :: "bytes \<Rightarrow> (bytes \<times> bytes) option" where
  "parse_plain raw = (let (a, r, ok1) = cut (CHR 0x00) raw in
     if \<not> ok1 then None
     else let (user, pass, ok2) = cut (CHR 0x00) r in if ok2 then Some (user, pass) else None)"

definition const_eq :: "bytes \<Rightarrow> bytes \<Rightarrow> bool" where
  "const_eq a b = (if length a \<noteq> length b then False else a = b)"

section \<open>Spec defaults\<close>

definition with_admission_defaults :: "admission_spec \<Rightarrow> admission_spec" where
  "with_admission_defaults ad = \<lparr>
     adm_max_sessions = (if adm_max_sessions ad \<le> 0 then 256 else adm_max_sessions ad),
     adm_max_sessions_per_ip = (if adm_max_sessions_per_ip ad \<le> 0 then 32 else adm_max_sessions_per_ip ad),
     adm_max_in_flight_data = (if adm_max_in_flight_data ad \<le> 0 then 8 else adm_max_in_flight_data ad),
     adm_max_in_flight_data_bytes =
       (if adm_max_in_flight_data_bytes ad \<le> 0 then 67108864 else adm_max_in_flight_data_bytes ad),
     adm_session_timeout = (if adm_session_timeout ad \<le> 0 then 600000000000 else adm_session_timeout ad),
     adm_command_idle = (if adm_command_idle ad \<le> 0 then 120000000000 else adm_command_idle ad),
     adm_data_idle = (if adm_data_idle ad \<le> 0 then 180000000000 else adm_data_idle ad) \<rparr>"

definition with_spec_defaults :: "smtp_spec \<Rightarrow> smtp_spec" where
  "with_spec_defaults s = s \<lparr>
     sm_hostname := (if sm_hostname s = [] then ''labmail.lab'' else sm_hostname s),
     sm_max_message_bytes := (if sm_max_message_bytes s \<le> 0 then 10485760 else sm_max_message_bytes s),
     sm_max_recipients := (if sm_max_recipients s \<le> 0 then 100 else sm_max_recipients s),
     sm_admission := with_admission_defaults (sm_admission s) \<rparr>"

text \<open>\<open>None\<close> is the nil error.\<close>

definition reject_unimplemented :: "smtp_spec \<Rightarrow> bytes option" where
  "reject_unimplemented s = (let am = sa_mode (sm_auth s); tm = tl_mode (sm_tls s) in
     if am \<noteq> [] \<and> am \<noteq> ''none'' \<and> am \<noteq> ''plain_login'' then Some ''smtp.auth.mode''
     else if tm \<noteq> [] \<and> tm \<noteq> ''off'' \<and> tm \<noteq> ''starttls'' then Some ''smtp.tls.mode''
     else if tl_required (sm_tls s) \<and> (if tm = [] then ''off'' else tm) \<noteq> ''starttls'' then Some ''smtp.tls.required''
     else None)"

section \<open>Lemmas\<close>

lemma with_spec_defaults_idem: "with_spec_defaults (with_spec_defaults s) = with_spec_defaults s"
  by (simp add: with_spec_defaults_def with_admission_defaults_def)

lemma with_spec_defaults_positive:
  "0 < sm_max_message_bytes (with_spec_defaults s)" "0 < sm_max_recipients (with_spec_defaults s)"
  "0 < adm_max_in_flight_data_bytes (sm_admission (with_spec_defaults s))"
  "sm_hostname (with_spec_defaults s) \<noteq> []"
  by (simp_all add: with_spec_defaults_def with_admission_defaults_def)

lemma with_spec_defaults_keeps [simp]:
  "sm_auth (with_spec_defaults s) = sm_auth s" "sm_tls (with_spec_defaults s) = sm_tls s"
  "sm_behavior (with_spec_defaults s) = sm_behavior s"
  by (simp_all add: with_spec_defaults_def)

lemma reserve_bytes_bounds:
  "0 \<le> reserve_bytes d b mx" "0 \<le> mx \<Longrightarrow> reserve_bytes d b mx \<le> mx"
  by (auto simp: reserve_bytes_def)

lemma mail_params_nonneg:
  "mail_params_loop ps sz st = Some (n, b) \<Longrightarrow> 0 \<le> sz \<Longrightarrow> 0 \<le> n"
  by (induction ps sz st rule: mail_params_loop.induct)
    (auto simp: Let_def split: prod.splits option.splits if_splits)

lemma parse_mail_params_nonneg: "parse_mail_params p = Some (n, b) \<Longrightarrow> 0 \<le> n"
  by (auto simp: parse_mail_params_def mail_params_nonneg split: if_splits)

lemma const_eq_iff: "const_eq a b \<longleftrightarrow> a = b"
  by (auto simp: const_eq_def)

end
