(* ===== verification/Smtp_Session.thy ===== *)
theory Smtp_Session
  imports Smtp_Args Gate Spill
begin

text \<open>
  One SMTP session: \<^verbatim>\<open>session.go\<close>, \<^verbatim>\<open>behavior.go\<close>, \<^verbatim>\<open>auth.go\<close>, \<^verbatim>\<open>starttls.go\<close> of
  \<^verbatim>\<open>internal/smtp/server\<close>, and the life of a connection in \<^verbatim>\<open>serveConn\<close>.  A handler takes the
  connection and returns whether to keep it open and the connection after it.  The connection
  record holds the session's own fields, the bytes still to be read, the replies handed to the
  client so far, and what is shared with the rest of the server: the live spec, the admission
  gate and the mail sink.  Each blocking read lets the rest of the server take one step
  (\<open>c_env\<close>): it may replace the spec and change the gate and the sink.
\<close>

section \<open>Connection state\<close>

datatype session_state = StGreeting | StHelloed | StMail | StRcpt

datatype idle_result = IdleOk | IdleTimeout | IdleFail

text \<open>What a session uses of its surroundings: the sink interface (\<^verbatim>\<open>store.Sink\<close>), the MIME parser,
  the TLS handshake (the decrypted stream it gives, if it succeeds, from the bytes left in the
  reader) and files.\<close>

record 's surroundings =
  e_epoch :: "'s \<Rightarrow> nat"
  e_insert :: "nat \<Rightarrow> message \<Rightarrow> 's \<Rightarrow> (store_error + insert_result) \<times> 's"
  e_parse :: "bytes \<Rightarrow> message"
  e_remote :: bytes
  e_handshake :: "bytes \<Rightarrow> (bytes \<times> read_error) option"
  e_key_pair :: "bytes \<Rightarrow> bytes \<Rightarrow> bool"
  e_file :: "bytes \<Rightarrow> bytes option"

record 's env_step =
  v_spec :: smtp_spec
  v_gate :: "gate \<Rightarrow> gate"
  v_sink :: "'s \<Rightarrow> 's"

record smtp_note =
  n_result :: bytes
  n_code :: int
  n_id :: bytes

record 's conn =
  c_state :: session_state
  c_helo :: bytes
  c_from :: bytes
  c_rcpt :: "bytes list"
  c_declared :: int
  c_size_set :: bool
  c_tls :: bool
  c_authed :: bool
  c_end :: bytes
  c_in :: bytes
  c_in_end :: read_error
  c_out :: "(int \<times> bytes list) list"
  c_writes :: "bool list"
  c_idle :: "idle_result list"
  c_clock :: "int list"
  c_notes :: "smtp_note list"
  c_spec :: smtp_spec
  c_env :: "'s env_step list"
  c_gate :: gate
  c_sink :: 's

section \<open>Input and output\<close>

definition env_step :: "'s conn \<Rightarrow> 's conn" where
  "env_step c = (case c_env c of
       [] \<Rightarrow> c
     | v # vs \<Rightarrow> c \<lparr> c_env := vs, c_spec := v_spec v, c_gate := v_gate v (c_gate c), c_sink := v_sink v (c_sink c) \<rparr>)"

text \<open>A write deadline may expire or the peer may be gone: \<open>c_writes\<close> says which writes succeed.\<close>

definition reply :: "int \<Rightarrow> bytes list \<Rightarrow> 's conn \<Rightarrow> bool \<times> 's conn" where
  "reply code lines c =
     ((case c_writes c of [] \<Rightarrow> True | ok # _ \<Rightarrow> ok),
      c \<lparr> c_writes := tl (c_writes c), c_out := c_out c @ [(code, lines)] \<rparr>)"

definition say :: "int \<Rightarrow> bytes \<Rightarrow> 's conn \<Rightarrow> 's conn" where
  "say code line c = snd (reply code [line] c)"

definition set_idle :: "'s conn \<Rightarrow> idle_result \<times> 's conn" where
  "set_idle c = ((case c_idle c of [] \<Rightarrow> IdleOk | r # _ \<Rightarrow> r), c \<lparr> c_idle := tl (c_idle c) \<rparr>)"

definition read_command :: "'s conn \<Rightarrow> (read_error + bytes) \<times> 's conn" where
  "read_command c = (let c1 = env_step c; (r, rest) = read_command_line (c_in_end c1) (c_in c1)
                     in (r, c1 \<lparr> c_in := rest \<rparr>))"

definition read_data_conn :: "'s conn \<Rightarrow> (read_error + bytes) \<times> 's conn" where
  "read_data_conn c = (let c1 = env_step c; (r, rest) = read_data_line (c_in_end c1) (c_in c1)
                       in (r, c1 \<lparr> c_in := rest \<rparr>))"

definition is_timeout :: "read_error \<Rightarrow> bool" where
  "is_timeout e = (e = ReadTimeout)"

section \<open>Scripted behaviour\<close>

definition close_after :: "bytes \<Rightarrow> 's conn \<Rightarrow> bool" where
  "close_after verb c = (let want = to_upper (trim_space (bh_close_after_verb (sm_behavior (c_spec c))))
     in want \<noteq> [] \<and> want = to_upper (trim_space verb))"

definition reply_keyed :: "bytes \<Rightarrow> int \<Rightarrow> bytes list \<Rightarrow> 's conn \<Rightarrow> bool \<times> 's conn" where
  "reply_keyed verb code lines c =
     (let ov = reply_override (sm_behavior (c_spec c)) verb;
          (code1, lines1) = (if ov = [] then (code, lines)
             else case parse_smtp_reply_line ov of
                 Inl e \<Rightarrow> (code, lines)
               | Inr (n, t) \<Rightarrow> (n, case lines of [] \<Rightarrow> [t] | l # ls \<Rightarrow> t # ls));
          (ok, c1) = reply code1 lines1 c
      in (ok \<and> \<not> close_after verb c1, c1))"

text \<open>Whether an override was sent instead of the command, and then whether to keep the session.\<close>

definition apply_error_override :: "bytes \<Rightarrow> 's conn \<Rightarrow> bool \<times> bool \<times> 's conn" where
  "apply_error_override verb c =
     (let ov = reply_override (sm_behavior (c_spec c)) verb
      in if ov = [] then (False, True, c)
         else case parse_smtp_reply_line ov of
             Inl e \<Rightarrow> (False, True, c)
           | Inr (code, text) \<Rightarrow>
               if code < 400 then (False, True, c)
               else let (ok, c1) = reply code [text] c
                    in if \<not> ok then (True, False, c1) else (True, \<not> close_after verb c1, c1))"

definition end_behavior :: "bool \<Rightarrow> 's conn \<Rightarrow> bool \<times> 's conn" where
  "end_behavior keep c = (keep, if keep then c else c \<lparr> c_end := ''behavior'' \<rparr>)"

section \<open>Transactions and policy\<close>

definition reset_txn :: "'s conn \<Rightarrow> 's conn" where
  "reset_txn c = c \<lparr> c_from := [], c_rcpt := [], c_declared := 0, c_size_set := False \<rparr>"

definition reset_to_helloed :: "'s conn \<Rightarrow> 's conn" where
  "reset_to_helloed c = (let c1 = reset_txn c
     in c1 \<lparr> c_state := (if c_helo c1 \<noteq> [] then StHelloed else StGreeting) \<rparr>)"

definition reset_after_tls :: "'s conn \<Rightarrow> 's conn" where
  "reset_after_tls c = (reset_txn c) \<lparr> c_helo := [], c_authed := False, c_tls := True, c_state := StGreeting \<rparr>"

definition tls_required_cleartext :: "'s conn \<Rightarrow> bool" where
  "tls_required_cleartext c = (tl_mode (sm_tls (c_spec c)) = ''starttls'' \<and> tl_required (sm_tls (c_spec c)) \<and> \<not> c_tls c)"

definition policy_ok :: "'s conn \<Rightarrow> bool \<times> 's conn" where
  "policy_ok c =
     (if tls_required_cleartext c then (False, say 530 ''5.7.0 Must issue a STARTTLS command first'' c)
      else if sa_mode (sm_auth (c_spec c)) = ''plain_login'' \<and> \<not> c_authed c
        then (False, say 530 ''5.7.0 Authentication required'' c)
      else (True, c))"

definition note_message :: "bytes \<Rightarrow> int \<Rightarrow> bytes \<Rightarrow> 's conn \<Rightarrow> 's conn" where
  "note_message result code mid c =
     c \<lparr> c_notes := c_notes c @ [\<lparr> n_result = result, n_code = code, n_id = mid \<rparr>] \<rparr>"

section \<open>HELO, EHLO, MAIL, RCPT, RSET\<close>

definition ehlo_lines :: "'s conn \<Rightarrow> bytes list" where
  "ehlo_lines c = (let sp = c_spec c; hid = hidden (sm_hide_extensions sp) in
     [sm_hostname sp]
     @ (if hid ''SIZE'' then [] else [''SIZE '' @ int_str (sm_max_message_bytes sp)])
     @ (if hid ''8BITMIME'' then [] else [''8BITMIME''])
     @ (if hid ''SMTPUTF8'' then [] else [''SMTPUTF8''])
     @ (if hid ''ENHANCEDSTATUSCODES'' then [] else [''ENHANCEDSTATUSCODES''])
     @ (if tl_mode (sm_tls sp) = ''starttls'' \<and> \<not> c_tls c \<and> \<not> hid ''STARTTLS'' then [''STARTTLS''] else [])
     @ (if sa_mode (sm_auth sp) = ''plain_login'' \<and> \<not> c_authed c \<and> \<not> hid ''AUTH'' \<and> \<not> tls_required_cleartext c
        then [''AUTH PLAIN LOGIN''] else []))"

definition cmd_hello :: "bytes \<Rightarrow> bool \<Rightarrow> 's conn \<Rightarrow> bool \<times> 's conn" where
  "cmd_hello arg ehlo c = (let verb = (if ehlo then ''EHLO'' else ''HELO''); domain = trim_space arg in
     if domain = [] then (True, say 501 ''5.5.4 Missing domain'' c)
     else let (handled, keep, c1) = apply_error_override verb c in
       if handled then end_behavior keep c1
       else let c2 = (reset_txn c1) \<lparr> c_helo := domain, c_state := StHelloed \<rparr>;
                (ok, c3) = (if \<not> ehlo then reply_keyed ''HELO'' 250 [''2.0.0 '' @ sm_hostname (c_spec c2)] c2
                            else reply_keyed ''EHLO'' 250 (ehlo_lines c2) c2)
            in end_behavior ok c3)"

definition cmd_mail :: "bytes \<Rightarrow> 's conn \<Rightarrow> bool \<times> 's conn" where
  "cmd_mail arg c =
     (if c_state c = StGreeting then (True, say 503 ''5.5.1 HELO/EHLO first'' c)
      else if c_state c \<noteq> StHelloed then (True, say 503 ''5.5.1 Nested MAIL'' c)
      else let (handled, keep, c1) = apply_error_override ''MAIL'' c in
        if handled then end_behavior keep c1
        else let (pok, c2) = policy_ok c1 in
          if \<not> pok then (True, c2)
          else case parse_path_arg arg ''FROM:'' of
              None \<Rightarrow> (True, say 501 ''5.5.4 Syntax error in parameters'' c2)
            | Some (path, params) \<Rightarrow>
                (case parse_mail_params params of
                   None \<Rightarrow> (True, say 501 ''5.5.4 Syntax error in parameters'' c2)
                 | Some (sz, size_set) \<Rightarrow>
                     if size_set \<and> sz > sm_max_message_bytes (c_spec c) then (True, say 552 ''5.3.4 Message too large'' c2)
                     else let c3 = c2 \<lparr> c_from := path, c_declared := sz, c_size_set := size_set, c_rcpt := [],
                                        c_state := StMail \<rparr>;
                              (ok, c4) = reply_keyed ''MAIL'' 250 [''2.1.0 OK''] c3
                          in end_behavior ok c4))"

definition cmd_rcpt :: "bytes \<Rightarrow> 's conn \<Rightarrow> bool \<times> 's conn" where
  "cmd_rcpt arg c =
     (if c_state c \<noteq> StMail \<and> c_state c \<noteq> StRcpt then (True, say 503 ''5.5.1 Need MAIL'' c)
      else let (handled, keep, c1) = apply_error_override ''RCPT'' c in
        if handled then end_behavior keep c1
        else let (pok, c2) = policy_ok c1 in
          if \<not> pok then (True, c2)
          else case parse_path_arg arg ''TO:'' of
              None \<Rightarrow> (True, say 501 ''5.5.4 Syntax error in parameters'' c2)
            | Some (path, params) \<Rightarrow>
                if int (length (c_rcpt c2)) \<ge> sm_max_recipients (c_spec c)
                then (True, say 452 ''4.5.3 Too many recipients'' c2)
                else let c3 = c2 \<lparr> c_rcpt := c_rcpt c2 @ [path], c_state := StRcpt \<rparr>;
                         (ok, c4) = reply_keyed ''RCPT'' 250 [''2.1.5 OK''] c3
                     in end_behavior ok c4)"

definition cmd_rset :: "'s conn \<Rightarrow> bool \<times> 's conn" where
  "cmd_rset c = (let (handled, keep, c1) = apply_error_override ''RSET'' c in
     if handled then end_behavior keep c1
     else let c2 = reset_txn c1;
              c3 = (if c_state c2 \<noteq> StGreeting then c2 \<lparr> c_state := StHelloed \<rparr> else c2);
              (ok, c4) = reply_keyed ''RSET'' 250 [''2.0.0 OK''] c3
          in end_behavior ok c4)"

section \<open>DATA\<close>

definition data_discard_slack :: int where "data_discard_slack = 1048576"

datatype data_error = DataTooLarge | DiscardBudget | DataRead read_error

definition idle_error :: "idle_result \<Rightarrow> data_error" where
  "idle_error r = DataRead (if r = IdleTimeout then ReadTimeout else ReadFail)"

lemma env_step_input [simp]: "c_in (env_step c) = c_in c" "c_in_end (env_step c) = c_in_end c" "c_tls (env_step c) = c_tls c"
  by (auto simp: env_step_def split: list.splits)

lemma set_idle_input [simp]: "c_in (snd (set_idle c)) = c_in c"
  by (simp add: set_idle_def)

lemma read_data_conn_shorter:
  "read_data_conn c = (Inr l, c') \<Longrightarrow> length (c_in c') < length (c_in c)"
  by (auto simp: read_data_conn_def read_data_line_def Let_def split: prod.splits dest: read_line_rest_shorter)

text \<open>The loop of \<^verbatim>\<open>readData\<close>: the body so far, how much was discarded, and whether the body is
  already over the limit.  Every round reads a line, so it ends with the input.\<close>

function read_data_loop ::
  "int \<Rightarrow> bytes \<Rightarrow> int \<Rightarrow> bool \<Rightarrow> 's conn \<Rightarrow> (data_error + bytes) \<times> 's conn" where
  "read_data_loop mx buf discarded over c =
     (let (ir, c1) = set_idle c in
      if ir \<noteq> IdleOk then (Inl (idle_error ir), c1)
      else case read_data_conn c1 of
          (Inl e, c2) \<Rightarrow> (Inl (DataRead e), c2)
        | (Inr line, c2) \<Rightarrow>
            let (body, ended) = unstuff line in
            if ended then (if over then Inl DataTooLarge else Inr buf, c2)
            else let need = int (length body) + 2 in
              if over then
                (if discarded + need > data_discard_slack then (Inl DiscardBudget, c2)
                 else read_data_loop mx buf (discarded + need) True c2)
              else if int (length buf) + need > mx then read_data_loop mx buf (discarded + need) True c2
              else read_data_loop mx (buf @ body @ crlf) discarded False c2)"
  by pat_completeness auto

lemma set_idle_snd: "(r, c1) = set_idle c \<Longrightarrow> c_in c1 = c_in c" "set_idle c = (r, c1) \<Longrightarrow> c_in c1 = c_in c"
  by (auto simp: set_idle_def)

termination read_data_loop
  by (relation "measure (\<lambda>(mx, buf, d, ovr, c). length (c_in c))")
    (auto dest!: set_idle_snd read_data_conn_shorter[OF sym])

declare read_data_loop.simps [simp del]

definition read_data :: "int \<Rightarrow> 's conn \<Rightarrow> (data_error + bytes) \<times> 's conn" where
  "read_data mx c = (let (ir, c1) = set_idle c in
     if ir \<noteq> IdleOk then (Inl (idle_error ir), c1) else read_data_loop mx [] 0 False c1)"

definition now_clock :: "'s conn \<Rightarrow> int \<times> 's conn" where
  "now_clock c = ((case c_clock c of [] \<Rightarrow> 0 | t # _ \<Rightarrow> t), c \<lparr> c_clock := tl (c_clock c) \<rparr>)"

text \<open>\<^verbatim>\<open>cmdData\<close> after the reservation and the capture of the epoch; the caller releases the
  reservation whatever happens here.\<close>

definition data_message :: "'s surroundings \<Rightarrow> 's conn \<Rightarrow> bytes \<Rightarrow> int \<Rightarrow> message" where
  "data_message e c raw now = (e_parse e raw) \<lparr> received_at := now,
     msg_envelope := \<lparr> env_from = c_from c, env_to = c_rcpt c, env_helo = c_helo c, env_remote = e_remote e,
                       env_tls = False, env_auth_user = [] \<rparr>,
     msg_size := int (length raw) \<rparr>"

definition data_failed :: "data_error \<Rightarrow> 's conn \<Rightarrow> bool \<times> 's conn" where
  "data_failed err c = (case err of
       DataTooLarge \<Rightarrow>
         (True, reset_to_helloed (note_message ''too_large'' 552 [] (say 552 ''5.3.4 Message too large'' c)))
     | DiscardBudget \<Rightarrow>
         (False, reset_to_helloed (note_message ''too_large'' 552 [] (say 552 ''5.3.4 Message too large'' c)))
     | DataRead re \<Rightarrow>
         if re = LineTooLong then (True, reset_to_helloed (say 500 ''5.5.2 Line too long'' c))
         else if is_timeout re then
           (False, reset_to_helloed ((say 451 ''4.4.2 Timeout'' c) \<lparr> c_end := ''timeout'' \<rparr>))
         else (False, reset_to_helloed c))"

definition insert_failed :: "store_error \<Rightarrow> 's conn \<Rightarrow> 's conn" where
  "insert_failed err c = reset_to_helloed (case err of
       ErrStaleEpoch \<Rightarrow> say 451 ''4.3.2 Requested action aborted'' c
     | ErrFull \<Rightarrow> note_message ''store_full'' 452 [] (say 452 ''4.3.1 Insufficient storage'' c)
     | ErrTooLarge \<Rightarrow> note_message ''too_large'' 552 [] (say 552 ''5.3.4 Message too large'' c)
     | _ \<Rightarrow> say 451 ''4.3.2 Requested action aborted'' c)"

definition data_body :: "'s surroundings \<Rightarrow> nat \<Rightarrow> int \<Rightarrow> 's conn \<Rightarrow> bool \<times> 's conn" where
  "data_body e epoch mx c =
     (let (ok, c1) = reply_keyed ''DATA'' 354 [''Start mail input; end with <CRLF>.<CRLF>''] c
      in if \<not> ok then (False, c1 \<lparr> c_end := ''behavior'' \<rparr>)
         else case read_data mx c1 of
             (Inl err, c2) \<Rightarrow> data_failed err c2
           | (Inr raw, c2) \<Rightarrow>
               let (now, c3) = now_clock c2;
                   msg = data_message e c3 raw now;
                   (handled, keep, c4) = apply_error_override ''DATA-END'' c3
               in if handled then end_behavior keep (reset_to_helloed c4)
                  else case e_insert e epoch msg (c_sink c4) of
                      (Inl err, s') \<Rightarrow> (True, insert_failed err (c4 \<lparr> c_sink := s' \<rparr>))
                    | (Inr res, s') \<Rightarrow>
                        let (ok2, c5) = reply_keyed ''DATA-END'' 250 [''2.0.0 Queued as '' @ ir_id res] (c4 \<lparr> c_sink := s' \<rparr>);
                            c6 = note_message ''accepted'' 250 (ir_id res) c5;
                            (keep2, c7) = end_behavior ok2 c6
                        in (keep2, reset_to_helloed c7))"

definition cmd_data :: "'s surroundings \<Rightarrow> 's conn \<Rightarrow> bool \<times> 's conn" where
  "cmd_data e c =
     (if c_state c \<noteq> StRcpt \<or> c_rcpt c = [] then (True, say 503 ''5.5.1 Need RCPT'' c)
      else let (handled, keep, c1) = apply_error_override ''DATA'' c in
        if handled then end_behavior keep c1
        else let (pok, c2) = policy_ok c1 in
          if \<not> pok then (True, c2)
          else let sp = c_spec c2; n = reserve_bytes (c_declared c2) (c_size_set c2) (sm_max_message_bytes sp)
               in case reserve_data n (sm_admission sp) (c_gate c2) of
                   Inl err \<Rightarrow>
                     if err = TooManyInFlight then (True, say 421 ''4.3.2 Too many concurrent messages'' c2)
                     else (True, say 452 ''4.3.1 Insufficient storage'' c2)
                 | Inr g \<Rightarrow>
                     let (keep3, c3) = data_body e (e_epoch e (c_sink c2)) (sm_max_message_bytes sp) (c2 \<lparr> c_gate := g \<rparr>)
                     in (keep3, c3 \<lparr> c_gate := release_data n (c_gate c3) \<rparr>))"

section \<open>AUTH\<close>

definition read_auth_line :: "'s conn \<Rightarrow> bytes option \<times> 's conn" where
  "read_auth_line c = (let (ir, c1) = set_idle c in
     if ir \<noteq> IdleOk then (None, c1)
     else case read_command c1 of
         (Inl err, c2) \<Rightarrow> (None, if err = LineTooLong then say 500 ''5.5.2 Line too long'' c2 else c2)
       | (Inr line, c2) \<Rightarrow> (Some line, c2))"

definition credentials :: "'s surroundings \<Rightarrow> 's conn \<Rightarrow> (bytes \<times> bytes) option" where
  "credentials e c = (let a = sm_auth (c_spec c) in
     if sa_password_file a = [] then None
     else case e_file e (sa_password_file a) of
         None \<Rightarrow> None
       | Some raw \<Rightarrow> Some (sa_username a, trim_right_by is_crlf raw))"

definition finish_auth :: "'s surroundings \<Rightarrow> bytes \<Rightarrow> bytes \<Rightarrow> 's conn \<Rightarrow> bool \<times> 's conn" where
  "finish_auth e user pass c = (case credentials e c of
       None \<Rightarrow> (True, say 454 ''4.7.0 Temporary authentication failure'' c)
     | Some (want_user, want_pass) \<Rightarrow>
         if const_eq user want_user \<and> const_eq pass want_pass then
           let (ok, c1) = reply_keyed ''AUTH'' 235 [''2.7.0 Authentication successful''] (c \<lparr> c_authed := True \<rparr>)
           in end_behavior ok c1
         else (True, say 535 ''5.7.8 Authentication failed'' c))"

abbreviation auth_fail :: "'s conn \<Rightarrow> bool \<times> 's conn" where
  "auth_fail c \<equiv> (True, say 535 ''5.7.8 Authentication failed'' c)"

text \<open>A prompt and its answer: \<open>None\<close> ends the session, \<open>Some None\<close> is the client's cancellation.\<close>

definition auth_prompt :: "bytes \<Rightarrow> 's conn \<Rightarrow> bytes option option \<times> 's conn" where
  "auth_prompt text c = (let (ok, c1) = reply 334 [text] c in
     if \<not> ok then (None, c1)
     else case read_auth_line c1 of
         (None, c2) \<Rightarrow> (None, c2)
       | (Some line, c2) \<Rightarrow> if line = ''*'' then (Some None, say 501 ''5.5.4'' c2) else (Some (Some line), c2))"

definition auth_plain :: "'s surroundings \<Rightarrow> bytes \<Rightarrow> bool \<Rightarrow> 's conn \<Rightarrow> bool \<times> 's conn" where
  "auth_plain e initial has_init c =
     (case (if has_init then (Some (Some initial), c) else auth_prompt [] c) of
        (None, c1) \<Rightarrow> (False, c1)
      | (Some None, c1) \<Rightarrow> (True, c1)
      | (Some (Some payload), c1) \<Rightarrow>
          (case decode_auth_b64 payload of
             None \<Rightarrow> auth_fail c1
           | Some raw \<Rightarrow> (case parse_plain raw of
                 None \<Rightarrow> auth_fail c1
               | Some (user, pass) \<Rightarrow>
                   if user = [] \<or> pass = [] then auth_fail c1 else finish_auth e user pass c1)))"

definition auth_login :: "'s surroundings \<Rightarrow> bytes \<Rightarrow> bool \<Rightarrow> 's conn \<Rightarrow> bool \<times> 's conn" where
  "auth_login e initial has_init c =
     (case (if has_init then (Some (Some initial), c) else auth_prompt ''VXNlcm5hbWU6'' c) of
        (None, c1) \<Rightarrow> (False, c1)
      | (Some None, c1) \<Rightarrow> (True, c1)
      | (Some (Some user_b64), c1) \<Rightarrow>
          (case decode_auth_b64 user_b64 of
             None \<Rightarrow> auth_fail c1
           | Some user \<Rightarrow>
               if user = [] then auth_fail c1
               else case auth_prompt ''UGFzc3dvcmQ6'' c1 of
                   (None, c2) \<Rightarrow> (False, c2)
                 | (Some None, c2) \<Rightarrow> (True, c2)
                 | (Some (Some line), c2) \<Rightarrow>
                     (case decode_auth_b64 line of
                        None \<Rightarrow> auth_fail c2
                      | Some pass \<Rightarrow> if pass = [] then auth_fail c2 else finish_auth e user pass c2)))"

definition cmd_auth :: "'s surroundings \<Rightarrow> bytes \<Rightarrow> 's conn \<Rightarrow> bool \<times> 's conn" where
  "cmd_auth e arg c =
     (if sa_mode (sm_auth (c_spec c)) \<noteq> ''plain_login'' then (True, say 502 ''5.5.1 AUTH not implemented'' c)
      else if tls_required_cleartext c then (True, say 530 ''5.7.0 Must issue a STARTTLS command first'' c)
      else if c_state c = StGreeting then (True, say 503 ''5.5.1 HELO/EHLO first'' c)
      else if c_state c \<noteq> StHelloed then (True, say 503 ''5.5.1 Bad sequence'' c)
      else if c_authed c then (True, say 503 ''5.5.1 Already authenticated'' c)
      else let (handled, keep, c1) = apply_error_override ''AUTH'' c in
        if handled then end_behavior keep c1
        else let (mech, initial, has_init) = split_auth_arg arg; m = to_upper mech in
          if m = ''PLAIN'' then auth_plain e initial has_init c1
          else if m = ''LOGIN'' then auth_login e initial has_init c1
          else if m = [] then (True, say 501 ''5.5.4 Missing authentication mechanism'' c1)
          else (True, say 504 ''5.5.4 Unrecognized authentication type'' c1))"

section \<open>STARTTLS\<close>

definition cmd_starttls :: "'s surroundings \<Rightarrow> 's conn \<Rightarrow> bool \<times> 's conn" where
  "cmd_starttls e c = (let sp = c_spec c in
     if tl_mode (sm_tls sp) \<noteq> ''starttls'' then (True, say 502 ''5.5.1 STARTTLS not implemented'' c)
     else if c_tls c then (True, say 503 ''5.5.1 TLS already active'' c)
     else if c_state c = StGreeting then (True, say 503 ''5.5.1 HELO/EHLO first'' c)
     else if c_state c \<noteq> StHelloed then (True, say 503 ''5.5.1 Bad sequence'' c)
     else let (handled, keep, c1) = apply_error_override ''STARTTLS'' c in
       if handled then end_behavior keep c1
       else if \<not> e_key_pair e (tl_cert_file (sm_tls sp)) (tl_key_file (sm_tls sp))
         then (True, say 454 ''4.7.0 TLS not available'' c1)
       else let (ok, c2) = reply_keyed ''STARTTLS'' 220 [''2.0.0 Ready to start TLS''] c1 in
         if \<not> ok then (False, c2 \<lparr> c_end := ''behavior'' \<rparr>)
         else let (ir, c3) = set_idle c2 in
           if ir \<noteq> IdleOk then (False, c3)
           else case e_handshake e (c_in c3) of
               None \<Rightarrow> (False, c3)
             | Some (plain, fin) \<Rightarrow> (True, reset_after_tls (c3 \<lparr> c_in := plain, c_in_end := fin \<rparr>)))"

section \<open>Dispatch and the session loop\<close>

definition unknown_verb :: "'s conn \<Rightarrow> bool \<times> 's conn" where
  "unknown_verb c = (let (handled, keep, c1) = apply_error_override ''UNKNOWN'' c in
     if handled then (keep, c1) else reply_keyed ''UNKNOWN'' 500 [''5.5.1 Command unrecognized''] c1)"

definition dispatch :: "'s surroundings \<Rightarrow> bytes \<Rightarrow> bytes \<Rightarrow> 's conn \<Rightarrow> bool \<times> 's conn" where
  "dispatch e verb arg c =
     (if verb = ''HELO'' then cmd_hello arg False c
      else if verb = ''EHLO'' then cmd_hello arg True c
      else if verb = ''MAIL'' then cmd_mail arg c
      else if verb = ''RCPT'' then cmd_rcpt arg c
      else if verb = ''DATA'' then cmd_data e c
      else if verb = ''RSET'' then cmd_rset c
      else if verb = ''NOOP'' then reply_keyed ''NOOP'' 250 [''2.0.0 OK''] c
      else if verb = ''QUIT'' then (False, say 221 ''2.0.0 Bye'' c)
      else if verb = ''HELP'' then
        (True, snd (reply 214 [''HELO EHLO MAIL RCPT DATA RSET NOOP QUIT HELP VRFY'', ''End of HELP''] c))
      else if verb = ''VRFY'' then reply_keyed ''VRFY'' 252 [''2.5.2 Cannot VRFY user''] c
      else if verb = ''EXPN'' then (True, say 502 ''5.5.1 EXPN not implemented'' c)
      else if verb = ''AUTH'' then cmd_auth e arg c
      else if verb = ''STARTTLS'' then cmd_starttls e c
      else if verb = ''BDAT'' then (True, say 502 ''5.5.1 BDAT not implemented'' c)
      else if verb = ''ETRN'' \<or> verb = ''ATRN'' \<or> verb = ''TURN'' then
        (True, say 502 (''5.5.1 '' @ verb @ '' not implemented'') c)
      else unknown_verb c)"

end
