(* ===== verification/Smtp_Run.thy ===== *)
theory Smtp_Run
  imports Smtp_Session
begin

text \<open>
  The session loop and the life of a connection, with the termination argument: every command
  line consumes input, and the input is replaced only by a TLS handshake, which happens once.
\<close>

section \<open>What the parts of a handler leave alone\<close>

definition kept :: "'s conn \<Rightarrow> 's conn \<Rightarrow> bool" where
  "kept c c' \<longleftrightarrow> c_state c' = c_state c \<and> c_helo c' = c_helo c \<and> c_from c' = c_from c \<and> c_rcpt c' = c_rcpt c
     \<and> c_declared c' = c_declared c \<and> c_size_set c' = c_size_set c \<and> c_tls c' = c_tls c \<and> c_authed c' = c_authed c
     \<and> c_in c' = c_in c \<and> c_in_end c' = c_in_end c \<and> c_spec c' = c_spec c \<and> c_env c' = c_env c
     \<and> c_gate c' = c_gate c \<and> c_sink c' = c_sink c \<and> c_notes c' = c_notes c \<and> c_clock c' = c_clock c
     \<and> c_idle c' = c_idle c"

lemma kept_refl [simp]: "kept c c"
  by (simp add: kept_def)

lemma kept_trans: "kept c c1 \<Longrightarrow> kept c1 c2 \<Longrightarrow> kept c c2"
  by (simp add: kept_def)

lemma reply_kept: "reply n ls c = (ok, c1) \<Longrightarrow> kept c c1"
  by (auto simp: reply_def kept_def)

lemma say_kept [simp]: "kept c (say n l c)"
  by (simp add: say_def reply_def kept_def)

lemma say_fields [simp]:
  "c_state (say n l c) = c_state c" "c_helo (say n l c) = c_helo c" "c_from (say n l c) = c_from c"
  "c_rcpt (say n l c) = c_rcpt c" "c_tls (say n l c) = c_tls c" "c_authed (say n l c) = c_authed c"
  "c_in (say n l c) = c_in c" "c_spec (say n l c) = c_spec c" "c_gate (say n l c) = c_gate c"
  "c_sink (say n l c) = c_sink c" "c_notes (say n l c) = c_notes c" "c_env (say n l c) = c_env c"
  "c_out (say n l c) = c_out c @ [(n, [l])]"
  by (simp_all add: say_def reply_def)

lemma reply_keyed_kept: "reply_keyed v n ls c = (ok, c1) \<Longrightarrow> kept c c1"
  by (auto simp: reply_keyed_def Let_def split: prod.splits dest: reply_kept)

lemma override_kept: "apply_error_override v c = (h, k, c1) \<Longrightarrow> kept c c1"
  by (auto simp: apply_error_override_def Let_def split: prod.splits sum.splits if_splits dest: reply_kept)

lemma override_unhandled: "apply_error_override v c = (h, k, c1) \<Longrightarrow> \<not> h \<Longrightarrow> c1 = c"
  by (auto simp: apply_error_override_def Let_def split: prod.splits sum.splits if_splits)

lemma end_behavior_kept: "end_behavior k c = (k', c1) \<Longrightarrow> k' = k \<and> kept c c1"
  by (auto simp: end_behavior_def kept_def)

lemma policy_ok_kept: "policy_ok c = (ok, c1) \<Longrightarrow> kept c c1"
  by (auto simp: policy_ok_def split: if_splits)

lemma policy_ok_true:
  "policy_ok c = (True, c1) \<Longrightarrow> c1 = c \<and> \<not> tls_required_cleartext c
     \<and> (sa_mode (sm_auth (c_spec c)) = ''plain_login'' \<longrightarrow> c_authed c)"
  by (auto simp: policy_ok_def split: if_splits)

lemmas kept_dests = reply_kept reply_keyed_kept override_kept end_behavior_kept policy_ok_kept

section \<open>Input shrinks\<close>

definition calm :: "'s conn \<Rightarrow> 's conn \<Rightarrow> bool" where
  "calm c c' \<longleftrightarrow> c_tls c' = c_tls c \<and> length (c_in c') \<le> length (c_in c)"

definition progress :: "'s conn \<Rightarrow> 's conn \<Rightarrow> bool" where
  "progress c c' \<longleftrightarrow> calm c c' \<or> (\<not> c_tls c \<and> c_tls c')"

lemma calm_refl [simp]: "calm c c"
  by (simp add: calm_def)

lemma calm_trans: "calm c c1 \<Longrightarrow> calm c1 c2 \<Longrightarrow> calm c c2"
  by (auto simp: calm_def)

lemma kept_calm: "kept c c1 \<Longrightarrow> calm c c1"
  by (simp add: kept_def calm_def)

lemma reset_fields [simp]:
  "c_tls (reset_txn c) = c_tls c" "c_in (reset_txn c) = c_in c" "c_state (reset_txn c) = c_state c"
  "c_helo (reset_txn c) = c_helo c" "c_from (reset_txn c) = []" "c_rcpt (reset_txn c) = []"
  "c_authed (reset_txn c) = c_authed c" "c_spec (reset_txn c) = c_spec c" "c_gate (reset_txn c) = c_gate c"
  "c_sink (reset_txn c) = c_sink c" "c_notes (reset_txn c) = c_notes c" "c_out (reset_txn c) = c_out c"
  "c_env (reset_txn c) = c_env c"
  by (simp_all add: reset_txn_def)

lemma reset_to_helloed_fields [simp]:
  "c_tls (reset_to_helloed c) = c_tls c" "c_in (reset_to_helloed c) = c_in c" "c_helo (reset_to_helloed c) = c_helo c"
  "c_from (reset_to_helloed c) = []" "c_rcpt (reset_to_helloed c) = []"
  "c_authed (reset_to_helloed c) = c_authed c" "c_spec (reset_to_helloed c) = c_spec c"
  "c_gate (reset_to_helloed c) = c_gate c" "c_sink (reset_to_helloed c) = c_sink c"
  "c_notes (reset_to_helloed c) = c_notes c" "c_out (reset_to_helloed c) = c_out c"
  "c_env (reset_to_helloed c) = c_env c"
  "c_state (reset_to_helloed c) = (if c_helo c \<noteq> [] then StHelloed else StGreeting)"
  by (simp_all add: reset_to_helloed_def Let_def)

lemma note_fields [simp]:
  "c_tls (note_message r n i c) = c_tls c" "c_in (note_message r n i c) = c_in c" "c_state (note_message r n i c) = c_state c"
  "c_helo (note_message r n i c) = c_helo c" "c_from (note_message r n i c) = c_from c" "c_rcpt (note_message r n i c) = c_rcpt c"
  "c_authed (note_message r n i c) = c_authed c" "c_spec (note_message r n i c) = c_spec c"
  "c_gate (note_message r n i c) = c_gate c" "c_sink (note_message r n i c) = c_sink c"
  "c_out (note_message r n i c) = c_out c" "c_env (note_message r n i c) = c_env c"
  "c_notes (note_message r n i c) = c_notes c @ [\<lparr> n_result = r, n_code = n, n_id = i \<rparr>]"
  by (simp_all add: note_message_def)

text \<open>Reading keeps the transaction; the shared state may change under it.\<close>

definition quiet :: "'s conn \<Rightarrow> 's conn \<Rightarrow> bool" where
  "quiet c c' \<longleftrightarrow> (c_env c = [] \<longrightarrow> c_env c' = [] \<and> c_gate c' = c_gate c \<and> c_spec c' = c_spec c)"

lemma quiet_refl [simp]: "quiet c c"
  by (simp add: quiet_def)

lemma quiet_trans: "quiet c c1 \<Longrightarrow> quiet c1 c2 \<Longrightarrow> quiet c c2"
  by (auto simp: quiet_def)

lemma kept_quiet: "kept c c1 \<Longrightarrow> quiet c c1"
  by (simp add: kept_def quiet_def)

definition steady :: "'s conn \<Rightarrow> 's conn \<Rightarrow> bool" where
  "steady c c' \<longleftrightarrow> c_state c' = c_state c \<and> c_helo c' = c_helo c \<and> c_from c' = c_from c \<and> c_rcpt c' = c_rcpt c
     \<and> c_authed c' = c_authed c \<and> c_notes c' = c_notes c \<and> calm c c' \<and> quiet c c'"

lemma steady_refl [simp]: "steady c c"
  by (simp add: steady_def)

lemma steady_trans: "steady c c1 \<Longrightarrow> steady c1 c2 \<Longrightarrow> steady c c2"
  by (auto simp: steady_def intro: calm_trans quiet_trans)

lemma steady_calm: "steady c c1 \<Longrightarrow> calm c c1"
  by (simp add: steady_def)

lemma kept_steady: "kept c c1 \<Longrightarrow> steady c c1"
  by (simp add: kept_def steady_def calm_def quiet_def)

lemma set_idle_steady: "set_idle c = (r, c1) \<Longrightarrow> steady c c1"
  by (auto simp: set_idle_def steady_def calm_def quiet_def)

lemma env_step_steady [simp]: "steady c (env_step c)"
  by (auto simp: env_step_def steady_def calm_def quiet_def split: list.splits)

lemma read_command_steady:
  assumes "read_command c = (r, c1)"
  shows "steady c c1"
proof -
  obtain rest where "c1 = (env_step c) \<lparr> c_in := rest \<rparr>" "length rest \<le> length (c_in c)"
    using assms read_line_le[of MaxCommandLine "c_in_end c" "c_in c"]
    by (auto simp: read_command_def read_command_line_def Let_def split: prod.splits)
  then show ?thesis using env_step_steady[of c] by (auto simp: steady_def calm_def quiet_def)
qed

lemma read_data_conn_steady:
  assumes "read_data_conn c = (r, c1)"
  shows "steady c c1"
proof -
  obtain rest where "c1 = (env_step c) \<lparr> c_in := rest \<rparr>" "length rest \<le> length (c_in c)"
    using assms read_line_le[of MaxDataLine "c_in_end c" "c_in c"]
    by (auto simp: read_data_conn_def read_data_line_def Let_def split: prod.splits)
  then show ?thesis using env_step_steady[of c] by (auto simp: steady_def calm_def quiet_def)
qed

lemma read_command_shorter: "read_command c = (Inr l, c1) \<Longrightarrow> length (c_in c1) < length (c_in c)"
  by (auto simp: read_command_def read_command_line_def Let_def split: prod.splits dest: read_line_rest_shorter)

lemma read_data_loop_steady: "read_data_loop mx buf d ov c = (r, c') \<Longrightarrow> steady c c'"
proof (induction mx buf d ov c arbitrary: r c' rule: read_data_loop.induct)
  case (1 mx buf d ov c)
  obtain ir c1 where si: "set_idle c = (ir, c1)" by fastforce
  obtain q c2 where rd: "read_data_conn c1 = (q, c2)" by fastforce
  have c12: "steady c c2" using steady_trans[OF set_idle_steady[OF si] read_data_conn_steady[OF rd]] .
  show ?case
  proof (cases "ir \<noteq> IdleOk")
    case True
    then show ?thesis using "1.prems" si set_idle_steady[OF si] by (subst (asm) read_data_loop.simps) auto
  next
    case False
    show ?thesis
    proof (cases q)
      case (Inl e)
      then show ?thesis using "1.prems" si rd False c12 by (subst (asm) read_data_loop.simps) auto
    next
      case (Inr line)
      obtain body ended where us: "unstuff line = (body, ended)" by fastforce
      have "steady c2 c' \<or> c' = c2"
        using "1.prems" si rd False Inr us "1.IH"[OF si[symmetric] refl]
        by (subst (asm) read_data_loop.simps) (auto simp: Let_def split: if_splits)
      then show ?thesis using c12 steady_trans by auto
    qed
  qed
qed

lemma read_data_steady: "read_data mx c = (r, c') \<Longrightarrow> steady c c'"
  by (auto simp: read_data_def Let_def split: prod.splits if_splits
      dest: set_idle_steady read_data_loop_steady intro: steady_trans)

lemma read_auth_line_steady: "read_auth_line c = (r, c') \<Longrightarrow> steady c c'"
proof -
  assume a: "read_auth_line c = (r, c')"
  obtain ir c1 where si: "set_idle c = (ir, c1)" by fastforce
  obtain q c2 where rd: "read_command c1 = (q, c2)" by fastforce
  have c12: "steady c c2" using steady_trans[OF set_idle_steady[OF si] read_command_steady[OF rd]] .
  have "c' = c1 \<or> c' = c2 \<or> kept c2 c'"
    using a si rd by (auto simp: read_auth_line_def split: if_splits sum.splits)
  then show ?thesis using c12 set_idle_steady[OF si] kept_steady steady_trans by blast
qed

lemma auth_prompt_steady:
  assumes "auth_prompt t c = (r, c')"
  shows "steady c c'"
proof -
  obtain ok c1 where r: "reply 334 [t] c = (ok, c1)" by fastforce
  obtain q c2 where l: "read_auth_line c1 = (q, c2)" by fastforce
  have c1: "steady c c1" using reply_kept[OF r] by (rule kept_steady)
  have c2: "steady c c2" using steady_trans[OF c1 read_auth_line_steady[OF l]] .
  have "c' = c1 \<or> c' = c2 \<or> kept c2 c'"
    using assms r l by (auto simp: auth_prompt_def split: if_splits option.splits)
  then show ?thesis using c1 c2 kept_steady steady_trans by blast
qed

section \<open>The handlers\<close>

text \<open>A line the client sent: whole, between the start of the stream or an LF and its own line end.\<close>

definition sent_line :: "bytes \<Rightarrow> bytes \<Rightarrow> bool" where
  "sent_line t inp \<longleftrightarrow> (\<exists>pre eol post. inp = pre @ t @ eol @ post \<and> (pre = [] \<or> last pre = LF) \<and> (eol = [LF] \<or> eol = crlf))"

lemma sent_line_suffix:
  assumes "sent_line t rest" "inp = pre @ rest" "pre = [] \<or> last pre = LF"
  shows "sent_line t inp"
proof -
  obtain p eol post where r: "rest = p @ t @ eol @ post" "p = [] \<or> last p = LF" "eol = [LF] \<or> eol = crlf"
    using assms(1) by (auto simp: sent_line_def)
  have "inp = (pre @ p) @ t @ eol @ post" "pre @ p = [] \<or> last (pre @ p) = LF"
    using r assms(2,3) by (auto simp: last_append)
  then show ?thesis using r(3) unfolding sent_line_def by blast
qed

lemma read_command_line_sent:
  assumes "read_command c = (Inr l, c')"
  obtains pre where "c_in c = pre @ c_in c'" "pre \<noteq> []" "last pre = LF" "sent_line l (c_in c)"
proof -
  have r: "read_line MaxCommandLine (c_in_end c) (c_in c) = (Inr l, c_in c')"
    using assms by (auto simp: read_command_def read_command_line_def Let_def split: prod.splits)
  from read_line_ok[OF r] obtain eol where eol: "eol = [LF] \<or> eol = crlf" and i: "c_in c = l @ eol @ c_in c'" by auto
  have "sent_line l (c_in c)" unfolding sent_line_def using i eol by (metis append_Nil)
  then show thesis using that[of "l @ eol"] i eol by auto
qed

lemma read_auth_line_sent:
  assumes "read_auth_line c = (Some l, c')"
  obtains pre where "c_in c = pre @ c_in c'" "pre = [] \<or> last pre = LF" "sent_line l (c_in c)"
proof -
  obtain ir c1 where si: "set_idle c = (ir, c1)" by fastforce
  have "read_command c1 = (Inr l, c')"
    using assms si by (auto simp: read_auth_line_def split: if_splits sum.splits prod.splits)
  then show thesis using read_command_line_sent that set_idle_snd(2)[OF si] by metis
qed

lemma auth_prompt_sent:
  assumes "auth_prompt t c = (Some (Some l), c')"
  obtains pre where "c_in c = pre @ c_in c'" "pre = [] \<or> last pre = LF" "sent_line l (c_in c)"
proof -
  obtain ok c1 where r: "reply 334 [t] c = (ok, c1)" by fastforce
  have "read_auth_line c1 = (Some l, c')"
    using assms r by (auto simp: auth_prompt_def split: if_splits option.splits prod.splits)
  moreover have "c_in c1 = c_in c" using reply_kept[OF r] by (simp add: kept_def)
  ultimately show thesis using read_auth_line_sent that by metis
qed

text \<open>The user name and password the client presented, in either mechanism.\<close>

definition presented :: "bytes \<Rightarrow> bool \<Rightarrow> bytes \<Rightarrow> bytes \<Rightarrow> bytes \<Rightarrow> bool" where
  "presented i h inp u w \<longleftrightarrow>
     (\<exists>p raw. ((h \<and> p = i) \<or> sent_line p inp) \<and> decode_auth_b64 p = Some raw \<and> parse_plain raw = Some (u, w))
   \<or> (\<exists>pu pw. ((h \<and> pu = i) \<or> sent_line pu inp) \<and> sent_line pw inp
        \<and> decode_auth_b64 pu = Some u \<and> decode_auth_b64 pw = Some w)"

lemma finish_auth_shape:
  assumes "finish_auth e u p c = (k, c')"
  shows "kept c c' \<or> (kept (c \<lparr> c_authed := True \<rparr>) c' \<and> credentials e c = Some (u, p))"
  using assms
  by (auto simp: finish_auth_def const_eq_iff split: option.splits prod.splits if_splits
      dest!: reply_keyed_kept end_behavior_kept intro: kept_trans)

text \<open>An AUTH exchange either changes nothing but the input, or authenticates with the credentials
  the spec named at the time of the decision, which the client presented.\<close>

definition auth_outcome :: "(bytes \<Rightarrow> bytes \<Rightarrow> bool) \<Rightarrow> 's surroundings \<Rightarrow> 's conn \<Rightarrow> 's conn \<Rightarrow> bool" where
  "auth_outcome P e c c' \<longleftrightarrow> steady c c' \<or>
     (\<exists>c1 u w. steady c c1 \<and> credentials e c1 = Some (u, w) \<and> P u w \<and> kept (c1 \<lparr> c_authed := True \<rparr>) c')"

lemma auth_outcome_finish: "steady c c1 \<Longrightarrow> finish_auth e u p c1 = (k, c') \<Longrightarrow> P u p \<Longrightarrow> auth_outcome P e c c'"
  using finish_auth_shape[of e u p c1 k c'] unfolding auth_outcome_def
  by (meson kept_steady steady_trans)

lemma auth_outcome_steady: "steady c c1 \<Longrightarrow> auth_outcome P e c c1"
  by (simp add: auth_outcome_def)

lemma steady_say: "steady c c1 \<Longrightarrow> steady c (say n l c1)"
  by (rule steady_trans[OF _ kept_steady[OF say_kept]])

lemma auth_plain_outcome:
  assumes "auth_plain e i h c = (k, c')"
  shows "auth_outcome (presented i h (c_in c)) e c c'"
proof -
  obtain q c1 where q: "(if h then (Some (Some i), c) else auth_prompt [] c) = (q, c1)" by fastforce
  have c1: "steady c c1" using q auth_prompt_steady by (auto split: if_splits)
  have "c' = c1 \<or> c' = say 535 ''5.7.8 Authentication failed'' c1 \<or> (\<exists>pl raw u p. q = Some (Some pl)
      \<and> decode_auth_b64 pl = Some raw \<and> parse_plain raw = Some (u, p) \<and> finish_auth e u p c1 = (k, c'))"
    using assms unfolding auth_plain_def q by (auto split: option.splits prod.splits if_splits)
  then consider "c' = c1" | "c' = say 535 ''5.7.8 Authentication failed'' c1"
    | pl raw u p where "q = Some (Some pl)" "decode_auth_b64 pl = Some raw" "parse_plain raw = Some (u, p)"
      "finish_auth e u p c1 = (k, c')" by blast
  then show ?thesis
  proof cases
    case 1 then show ?thesis using c1 auth_outcome_steady by blast
  next
    case 2 then show ?thesis using auth_outcome_steady[OF steady_say[OF c1]] by blast
  next
    case 3
    have "(h \<and> pl = i) \<or> sent_line pl (c_in c)"
      using q 3(1) auth_prompt_sent by (metis option.inject prod.inject)
    then have "presented i h (c_in c) u p" using 3(2,3) unfolding presented_def by blast
    then show ?thesis using auth_outcome_finish[OF c1 3(4)] by blast
  qed
qed

lemma auth_login_outcome:
  assumes "auth_login e i h c = (k, c')"
  shows "auth_outcome (presented i h (c_in c)) e c c'"
proof -
  obtain q c1 where q: "(if h then (Some (Some i), c) else auth_prompt ''VXNlcm5hbWU6'' c) = (q, c1)" by fastforce
  have c1: "steady c c1" using q auth_prompt_steady by (auto split: if_splits)
  obtain q2 c2 where q2: "auth_prompt ''UGFzc3dvcmQ6'' c1 = (q2, c2)" by fastforce
  have c2: "steady c c2" using steady_trans[OF c1 auth_prompt_steady[OF q2]] .
  have "c' = c1 \<or> c' = say 535 ''5.7.8 Authentication failed'' c1 \<or> c' = c2
      \<or> c' = say 535 ''5.7.8 Authentication failed'' c2 \<or> (\<exists>pu pw u p. q = Some (Some pu) \<and> q2 = Some (Some pw)
          \<and> decode_auth_b64 pu = Some u \<and> decode_auth_b64 pw = Some p \<and> finish_auth e u p c2 = (k, c'))"
    using assms unfolding auth_login_def q
    by (auto simp: q2 split: option.splits prod.splits if_splits)
  then consider "c' = c1" | "c' = say 535 ''5.7.8 Authentication failed'' c1" | "c' = c2"
    | "c' = say 535 ''5.7.8 Authentication failed'' c2"
    | pu pw u p where "q = Some (Some pu)" "q2 = Some (Some pw)" "decode_auth_b64 pu = Some u"
      "decode_auth_b64 pw = Some p" "finish_auth e u p c2 = (k, c')" by blast
  then show ?thesis
  proof cases
    case 1 then show ?thesis using c1 auth_outcome_steady by blast
  next
    case 2 then show ?thesis using auth_outcome_steady[OF steady_say[OF c1]] by blast
  next
    case 3 then show ?thesis using c2 auth_outcome_steady by blast
  next
    case 4 then show ?thesis using auth_outcome_steady[OF steady_say[OF c2]] by blast
  next
    case 5
    obtain pre where pre: "c_in c = pre @ c_in c1" "pre = [] \<or> last pre = LF" and pu: "(h \<and> pu = i) \<or> sent_line pu (c_in c)"
    proof (cases h)
      case True
      then show thesis using that[of "[]"] q 5(1) by simp
    next
      case False
      then show thesis using that q 5(1) auth_prompt_sent[of "''VXNlcm5hbWU6''" c pu c1] by auto
    qed
    have "sent_line pw (c_in c1)" using q2 5(2) auth_prompt_sent by metis
    then have "sent_line pw (c_in c)" using sent_line_suffix pre by blast
    then have "presented i h (c_in c) u p" using pu 5(3,4) unfolding presented_def by blast
    then show ?thesis using auth_outcome_finish[OF c2 5(5)] by blast
  qed
qed

lemma auth_outcome_kept: "kept c c1 \<Longrightarrow> auth_outcome P e c1 c' \<Longrightarrow> auth_outcome P e c c'"
  unfolding auth_outcome_def by (meson kept_steady steady_trans)

definition auth_presented :: "bytes \<Rightarrow> bytes \<Rightarrow> bytes \<Rightarrow> bytes \<Rightarrow> bool" where
  "auth_presented arg inp u w = (let (mech, i, h) = split_auth_arg arg in presented i h inp u w)"

lemma cmd_auth_outcome:
  assumes "cmd_auth e arg c = (k, c')"
  shows "auth_outcome (auth_presented arg (c_in c)) e c c'
    \<and> (\<not> c_authed c \<longrightarrow> c_authed c' \<longrightarrow> c_state c = StHelloed \<and> \<not> tls_required_cleartext c
          \<and> sa_mode (sm_auth (c_spec c)) = ''plain_login'')"
proof (cases "sa_mode (sm_auth (c_spec c)) \<noteq> ''plain_login'' \<or> tls_required_cleartext c
    \<or> c_state c \<noteq> StHelloed \<or> c_authed c")
  case True
  then have "\<exists>n l. c' = say n l c" using assms unfolding cmd_auth_def by (auto split: if_splits)
  then show ?thesis using steady_say[of c c] by (auto simp: auth_outcome_def)
next
  case False
  obtain h kp c1 where ov: "apply_error_override ''AUTH'' c = (h, kp, c1)" by (metis prod.exhaust)
  have k1: "kept c c1" using override_kept[OF ov] .
  have "auth_outcome (auth_presented arg (c_in c)) e c c'"
  proof (cases h)
    case True
    then have "end_behavior kp c1 = (k, c')" using assms False ov unfolding cmd_auth_def by auto
    then have "kept c1 c'" using end_behavior_kept by blast
    then show ?thesis using k1 by (intro auth_outcome_steady kept_steady) (rule kept_trans)
  next
    case nh: False
    obtain mech ini hi where sa: "split_auth_arg arg = (mech, ini, hi)" by (metis prod.exhaust)
    have "auth_plain e ini hi c1 = (k, c') \<or> auth_login e ini hi c1 = (k, c') \<or> (\<exists>n l. c' = say n l c1)"
      using assms False ov nh sa unfolding cmd_auth_def by (auto simp: Let_def split: if_splits)
    moreover have "presented ini hi (c_in c1) = auth_presented arg (c_in c)"
      using k1 sa by (intro ext) (simp add: auth_presented_def kept_def)
    ultimately have "auth_outcome (auth_presented arg (c_in c)) e c1 c'"
      using auth_plain_outcome[of e ini hi c1 k c'] auth_login_outcome[of e ini hi c1 k c']
        auth_outcome_steady[OF steady_say[OF steady_refl[of c1]]] by auto
    then show ?thesis using auth_outcome_kept[OF k1] by blast
  qed
  then show ?thesis using False by auto
qed

lemma auth_outcome_fields:
  "auth_outcome P e c c' \<Longrightarrow> c_state c' = c_state c \<and> c_helo c' = c_helo c \<and> c_from c' = c_from c
     \<and> c_rcpt c' = c_rcpt c \<and> c_notes c' = c_notes c \<and> calm c c' \<and> quiet c c'"
  by (auto simp: auth_outcome_def steady_def kept_def calm_def quiet_def)

section \<open>What each handler does to the transaction\<close>

lemma cmd_hello_shape:
  assumes "cmd_hello arg ehlo c = (k, c')"
  shows "kept c c' \<or> (trim_space arg \<noteq> [] \<and> kept ((reset_txn c) \<lparr> c_helo := trim_space arg, c_state := StHelloed \<rparr>) c')"
proof (cases "trim_space arg = []")
  case True
  then show ?thesis using assms by (auto simp: cmd_hello_def Let_def)
next
  case False
  let ?verb = "if ehlo then ''EHLO'' else ''HELO''"
  obtain h kp c1 where ov: "apply_error_override ?verb c = (h, kp, c1)" by (metis prod.exhaust)
  show ?thesis
  proof (cases h)
    case True
    then have "end_behavior kp c1 = (k, c')" using assms ov False by (simp add: cmd_hello_def Let_def split: if_splits)
    then show ?thesis using override_kept[OF ov] end_behavior_kept kept_trans by blast
  next
    case nh: False
    have c1: "c1 = c" using override_unhandled[OF ov nh] .
    let ?c2 = "(reset_txn c) \<lparr> c_helo := trim_space arg, c_state := StHelloed \<rparr>"
    obtain ok c3 where r: "(if \<not> ehlo then reply_keyed ''HELO'' 250 [''2.0.0 '' @ sm_hostname (c_spec ?c2)] ?c2
        else reply_keyed ''EHLO'' 250 (ehlo_lines ?c2) ?c2) = (ok, c3)" by fastforce
    have "end_behavior ok c3 = (k, c')" using assms ov nh False r unfolding cmd_hello_def c1 by (simp add: Let_def)
    moreover have "kept ?c2 c3" using r reply_keyed_kept by (auto split: if_splits)
    ultimately show ?thesis using False end_behavior_kept kept_trans by blast
  qed
qed

lemma cmd_mail_shape:
  assumes "cmd_mail arg c = (k, c')"
  shows "kept c c' \<or> (c_state c = StHelloed \<and> \<not> tls_required_cleartext c
      \<and> (sa_mode (sm_auth (c_spec c)) = ''plain_login'' \<longrightarrow> c_authed c)
      \<and> (\<exists>path sz st. (st \<longrightarrow> sz \<le> sm_max_message_bytes (c_spec c)) \<and> 0 \<le> sz
           \<and> kept (c \<lparr> c_from := path, c_declared := sz, c_size_set := st, c_rcpt := [], c_state := StMail \<rparr>) c'))"
proof (cases "c_state c = StHelloed")
  case False
  then show ?thesis using assms by (auto simp: cmd_mail_def split: if_splits)
next
  case hl: True
  obtain h kp c1 where ov: "apply_error_override ''MAIL'' c = (h, kp, c1)" by (metis prod.exhaust)
  show ?thesis
  proof (cases h)
    case True
    then have "end_behavior kp c1 = (k, c')" using assms ov hl by (simp add: cmd_mail_def)
    then show ?thesis using override_kept[OF ov] end_behavior_kept kept_trans by blast
  next
    case nh: False
    have c1: "c1 = c" using override_unhandled[OF ov nh] .
    obtain pok c2 where po: "policy_ok c = (pok, c2)" by fastforce
    show ?thesis
    proof (cases pok)
      case False
      then show ?thesis using assms ov hl nh po policy_ok_kept[OF po] unfolding cmd_mail_def c1 by auto
    next
      case True
      note pt = policy_ok_true[OF po[unfolded eqTrueI[OF True]]]
      consider "kept c c'" | path params sz st ok c4 where "parse_mail_params params = Some (sz, st)"
          "\<not> (st \<and> sz > sm_max_message_bytes (c_spec c))"
          "reply_keyed ''MAIL'' 250 [''2.1.0 OK''] (c \<lparr> c_from := path, c_declared := sz, c_size_set := st, c_rcpt := [], c_state := StMail \<rparr>) = (ok, c4)"
          "end_behavior ok c4 = (k, c')"
        using assms ov hl nh po True pt unfolding cmd_mail_def c1
        by (auto split: option.splits prod.splits if_splits)
      then show ?thesis
      proof cases
        case 2
        have "kept (c \<lparr> c_from := path, c_declared := sz, c_size_set := st, c_rcpt := [], c_state := StMail \<rparr>) c'"
          using kept_trans[OF reply_keyed_kept[OF 2(3)]] end_behavior_kept[OF 2(4)] by blast
        moreover have "st \<longrightarrow> sz \<le> sm_max_message_bytes (c_spec c)" using 2(2) by auto
        ultimately show ?thesis using hl pt parse_mail_params_nonneg[OF 2(1)] by blast
      qed simp
    qed
  qed
qed

lemma cmd_rcpt_shape:
  assumes "cmd_rcpt arg c = (k, c')"
  shows "kept c c' \<or> ((c_state c = StMail \<or> c_state c = StRcpt) \<and> \<not> tls_required_cleartext c
      \<and> (sa_mode (sm_auth (c_spec c)) = ''plain_login'' \<longrightarrow> c_authed c)
      \<and> int (length (c_rcpt c)) < sm_max_recipients (c_spec c)
      \<and> (\<exists>path. kept (c \<lparr> c_rcpt := c_rcpt c @ [path], c_state := StRcpt \<rparr>) c'))"
proof (cases "c_state c = StMail \<or> c_state c = StRcpt")
  case False
  then show ?thesis using assms by (auto simp: cmd_rcpt_def split: if_splits)
next
  case hl: True
  obtain h kp c1 where ov: "apply_error_override ''RCPT'' c = (h, kp, c1)" by (metis prod.exhaust)
  show ?thesis
  proof (cases h)
    case True
    then have "end_behavior kp c1 = (k, c')" using assms ov hl by (auto simp: cmd_rcpt_def)
    then show ?thesis using override_kept[OF ov] end_behavior_kept kept_trans by blast
  next
    case nh: False
    have c1: "c1 = c" using override_unhandled[OF ov nh] .
    obtain pok c2 where po: "policy_ok c = (pok, c2)" by fastforce
    show ?thesis
    proof (cases pok)
      case False
      then show ?thesis using assms ov hl nh po policy_ok_kept[OF po] unfolding cmd_rcpt_def c1 by auto
    next
      case True
      note pt = policy_ok_true[OF po[unfolded eqTrueI[OF True]]]
      consider "kept c c'" | path ok c4 where "int (length (c_rcpt c)) < sm_max_recipients (c_spec c)"
          "reply_keyed ''RCPT'' 250 [''2.1.5 OK''] (c \<lparr> c_rcpt := c_rcpt c @ [path], c_state := StRcpt \<rparr>) = (ok, c4)"
          "end_behavior ok c4 = (k, c')"
        using assms ov hl nh po True pt unfolding cmd_rcpt_def c1
        by (auto split: option.splits prod.splits if_splits)
      then show ?thesis
      proof cases
        case 2
        have "kept (c \<lparr> c_rcpt := c_rcpt c @ [path], c_state := StRcpt \<rparr>) c'"
          using kept_trans[OF reply_keyed_kept[OF 2(2)]] end_behavior_kept[OF 2(3)] by blast
        then show ?thesis using hl pt 2(1) by blast
      qed simp
    qed
  qed
qed

lemma cmd_rset_shape:
  assumes "cmd_rset c = (k, c')"
  shows "kept c c' \<or> kept ((reset_txn c) \<lparr> c_state := (if c_state c \<noteq> StGreeting then StHelloed else StGreeting) \<rparr>) c'"
proof -
  obtain h kp c1 where ov: "apply_error_override ''RSET'' c = (h, kp, c1)" by (metis prod.exhaust)
  show ?thesis
  proof (cases h)
    case True
    then have "end_behavior kp c1 = (k, c')" using assms ov by (simp add: cmd_rset_def)
    then show ?thesis using override_kept[OF ov] end_behavior_kept kept_trans by blast
  next
    case nh: False
    have c1: "c1 = c" using override_unhandled[OF ov nh] .
    let ?c3 = "(reset_txn c) \<lparr> c_state := (if c_state c \<noteq> StGreeting then StHelloed else StGreeting) \<rparr>"
    have c3: "(if c_state c \<noteq> StGreeting then (reset_txn c) \<lparr> c_state := StHelloed \<rparr> else reset_txn c) = ?c3"
      by (cases "c_state c") (simp_all add: reset_txn_def)
    obtain ok c4 where r: "reply_keyed ''RSET'' 250 [''2.0.0 OK''] ?c3 = (ok, c4)" by fastforce
    have "end_behavior ok c4 = (k, c')" using assms ov nh r c3 unfolding cmd_rset_def c1 by (simp add: Let_def)
    then show ?thesis using end_behavior_kept kept_trans[OF reply_keyed_kept[OF r]] by blast
  qed
qed

lemma cmd_starttls_shape:
  assumes "cmd_starttls e c = (k, c')"
  shows "steady c c' \<or> (\<not> c_tls c \<and> k \<and> c_state c = StHelloed \<and> (\<exists>c3 plain fin. e_handshake e (c_in c3) = Some (plain, fin)
      \<and> steady c c3 \<and> c' = reset_after_tls (c3 \<lparr> c_in := plain, c_in_end := fin \<rparr>)))"
proof (cases "tl_mode (sm_tls (c_spec c)) \<noteq> ''starttls'' \<or> c_tls c \<or> c_state c \<noteq> StHelloed")
  case True
  then have "\<exists>n l. c' = say n l c" using assms unfolding cmd_starttls_def Let_def by (auto split: if_splits)
  then show ?thesis using steady_say[OF steady_refl] by blast
next
  case False
  obtain h kp c1 where ov: "apply_error_override ''STARTTLS'' c = (h, kp, c1)" by (metis prod.exhaust)
  have k1: "steady c c1" using override_kept[OF ov] by (rule kept_steady)
  show ?thesis
  proof (cases h)
    case True
    then have "end_behavior kp c1 = (k, c')" using assms ov False by (simp add: cmd_starttls_def Let_def)
    then have "kept c1 c'" using end_behavior_kept by blast
    then show ?thesis using k1 kept_steady steady_trans by blast
  next
    case nh: False
    obtain ok c2 where r: "reply_keyed ''STARTTLS'' 220 [''2.0.0 Ready to start TLS''] c1 = (ok, c2)" by fastforce
    obtain ir c3 where si: "set_idle c2 = (ir, c3)" by fastforce
    have k2: "steady c c2" using steady_trans[OF k1 kept_steady[OF reply_keyed_kept[OF r]]] .
    have k3: "steady c c3" using steady_trans[OF k2 set_idle_steady[OF si]] .
    have k2': "steady c (c2 \<lparr> c_end := x \<rparr>)" for x using k2 by (simp add: steady_def calm_def quiet_def)
    have "(\<exists>n l. c' = say n l c1) \<or> c' = c2 \<lparr> c_end := ''behavior'' \<rparr> \<or> c' = c3
        \<or> (k \<and> (\<exists>plain fin. e_handshake e (c_in c3) = Some (plain, fin)
             \<and> c' = reset_after_tls (c3 \<lparr> c_in := plain, c_in_end := fin \<rparr>)))"
      using assms ov False nh r si unfolding cmd_starttls_def Let_def
      by (auto split: if_splits option.splits prod.splits)
    then consider "\<exists>n l. c' = say n l c1" | "c' = c2 \<lparr> c_end := ''behavior'' \<rparr>" | "c' = c3"
      | plain fin where k "e_handshake e (c_in c3) = Some (plain, fin)"
          "c' = reset_after_tls (c3 \<lparr> c_in := plain, c_in_end := fin \<rparr>)" by blast
    then show ?thesis
    proof cases
      case 1
      then show ?thesis using steady_say[OF k1] by blast
    next
      case 4
      then show ?thesis using k3 False by blast
    qed (use k2' k3 in blast)+
  qed
qed

section \<open>DATA\<close>

text \<open>The three ways a DATA command that was allowed to start may end, as seen from \<open>c1\<close>, the
  connection when the 354 reply was due.\<close>

definition data_stored :: "'s surroundings \<Rightarrow> nat \<Rightarrow> int \<Rightarrow> 's conn \<Rightarrow> 's conn \<Rightarrow> bool" where
  "data_stored e epoch mx c c' \<longleftrightarrow> (\<exists>c3 raw now res s'.
     steady c c3 \<and> (\<exists>c1 c2. kept c c1 \<and> read_data mx c1 = (Inr raw, c2) \<and> kept (snd (now_clock c2)) c3)
     \<and> e_insert e epoch (data_message e c3 raw now) (c_sink c3) = (Inr res, s')
     \<and> c_sink c' = s' \<and> c_gate c' = c_gate c3 \<and> c_spec c' = c_spec c3
     \<and> c_notes c' = c_notes c @ [\<lparr> n_result = ''accepted'', n_code = 250, n_id = ir_id res \<rparr>]
     \<and> (\<exists>code. last (c_out c') = (code, [''2.0.0 Queued as '' @ ir_id res])
          \<or> reply_override (sm_behavior (c_spec c3)) ''DATA-END'' \<noteq> []))"

definition data_ended :: "'s conn \<Rightarrow> 's conn \<Rightarrow> bool" where
  "data_ended c c' \<longleftrightarrow> c_helo c' = c_helo c \<and> c_authed c' = c_authed c \<and> calm c c' \<and> quiet c c'
     \<and> (kept c c' \<or> (c_from c' = [] \<and> c_rcpt c' = [] \<and> c_state c' = (if c_helo c \<noteq> [] then StHelloed else StGreeting)))"

lemma now_clock_steady: "now_clock c = (t, c') \<Longrightarrow> steady c c'"
  by (auto simp: now_clock_def steady_def calm_def quiet_def)

lemma now_clock_fields [simp]:
  "c_sink (snd (now_clock c)) = c_sink c" "c_gate (snd (now_clock c)) = c_gate c" "c_spec (snd (now_clock c)) = c_spec c"
  by (simp_all add: now_clock_def)

lemma reply_keyed_last:
  assumes "reply_keyed v n [l] c = (ok, c')" "reply_override (sm_behavior (c_spec c)) v = []"
  shows "last (c_out c') = (n, [l])"
  using assms by (auto simp: reply_keyed_def reply_def Let_def)

lemma reset_ended:
  assumes "c_helo x = c_helo c" "c_authed x = c_authed c" "calm c x" "quiet c x"
  shows "data_ended c (reset_to_helloed x)"
  using assms by (simp add: data_ended_def calm_def quiet_def)

lemma say_calm [simp]: "calm c (say n l x) = calm c x" "calm c (note_message r n i x) = calm c x"
  "calm c (x \<lparr> c_end := t \<rparr>) = calm c x" "calm c (x \<lparr> c_sink := s \<rparr>) = calm c x"
  by (simp_all add: calm_def)

lemma say_quiet [simp]: "quiet c (say n l x) = quiet c x" "quiet c (note_message r n i x) = quiet c x"
  "quiet c (x \<lparr> c_end := t \<rparr>) = quiet c x" "quiet c (x \<lparr> c_sink := s \<rparr>) = quiet c x"
  by (simp_all add: quiet_def)

lemma steadyD:
  assumes "steady c0 c"
  shows "c_helo c = c_helo c0" "c_authed c = c_authed c0" "calm c0 c" "c_notes c = c_notes c0"
    "c_state c = c_state c0" "c_from c = c_from c0" "c_rcpt c = c_rcpt c0" "quiet c0 c"
  using assms by (simp_all add: steady_def)

lemma data_failed_ended:
  assumes f: "data_failed err c = (k, c')" and st: "steady c0 c"
  shows "data_ended c0 c'" and "c_notes c' = c_notes c0 \<or>
      c_notes c' = c_notes c0 @ [\<lparr> n_result = ''too_large'', n_code = 552, n_id = [] \<rparr>]"
    and "c_sink c' = c_sink c" and "c_gate c' = c_gate c"
proof -
  obtain x where c': "c' = reset_to_helloed x" and x: "c_helo x = c_helo c" "c_authed x = c_authed c" "calm c0 x" "quiet c0 x"
      "c_sink x = c_sink c" "c_gate x = c_gate c"
      "c_notes x = c_notes c \<or> c_notes x = c_notes c @ [\<lparr> n_result = ''too_large'', n_code = 552, n_id = [] \<rparr>]"
  proof (cases err)
    case DataTooLarge
    show ?thesis by (rule that[of "note_message ''too_large'' 552 [] (say 552 ''5.3.4 Message too large'' c)"])
        (use f DataTooLarge steadyD(3,8)[OF st] in \<open>simp_all add: data_failed_def\<close>)
  next
    case DiscardBudget
    show ?thesis by (rule that[of "note_message ''too_large'' 552 [] (say 552 ''5.3.4 Message too large'' c)"])
        (use f DiscardBudget steadyD(3,8)[OF st] in \<open>simp_all add: data_failed_def\<close>)
  next
    case (DataRead re)
    consider "re = LineTooLong" | "re \<noteq> LineTooLong" "is_timeout re" | "re \<noteq> LineTooLong" "\<not> is_timeout re" by blast
    then show ?thesis
    proof cases
      case 1
      show ?thesis by (rule that[of "say 500 ''5.5.2 Line too long'' c"])
          (use f DataRead 1 steadyD(3,8)[OF st] in \<open>simp_all add: data_failed_def\<close>)
    next
      case 2
      show ?thesis by (rule that[of "(say 451 ''4.4.2 Timeout'' c) \<lparr> c_end := ''timeout'' \<rparr>"])
          (use f DataRead 2 steadyD(3,8)[OF st] in \<open>simp_all add: data_failed_def\<close>)
    next
      case 3
      show ?thesis by (rule that[of c]) (use f DataRead 3 steadyD(3,8)[OF st] in \<open>simp_all add: data_failed_def\<close>)
    qed
  qed
  show "data_ended c0 c'" unfolding c' using x steadyD[OF st] by (intro reset_ended) simp_all
  show "c_notes c' = c_notes c0 \<or> c_notes c' = c_notes c0 @ [\<lparr> n_result = ''too_large'', n_code = 552, n_id = [] \<rparr>]"
    using x(7) steadyD(4)[OF st] by (simp add: c')
  show "c_sink c' = c_sink c" "c_gate c' = c_gate c" using x by (simp_all add: c')
qed

lemma insert_failed_ended:
  assumes st: "steady c0 c"
  shows "data_ended c0 (insert_failed err c)"
    and "\<forall>n\<in>set (c_notes (insert_failed err c)). n \<in> set (c_notes c0) \<or> n_result n \<noteq> ''accepted''"
    and "c_sink (insert_failed err c) = c_sink c" and "c_gate (insert_failed err c) = c_gate c"
proof -
  note s = steadyD[OF st]
  show "data_ended c0 (insert_failed err c)"
    unfolding insert_failed_def by (rule reset_ended) (cases err; simp add: s)+
  show "\<forall>n\<in>set (c_notes (insert_failed err c)). n \<in> set (c_notes c0) \<or> n_result n \<noteq> ''accepted''"
    unfolding insert_failed_def by (cases err) (simp_all add: s)
  show "c_sink (insert_failed err c) = c_sink c" "c_gate (insert_failed err c) = c_gate c"
    unfolding insert_failed_def by (cases err; simp)+
qed

lemma sink_steady [simp]: "steady c (c1 \<lparr> c_sink := s \<rparr>) = steady c c1"
  by (simp add: steady_def calm_def quiet_def)

lemma data_body_shape:
  assumes b: "data_body e epoch mx c = (k, c')"
  shows "data_ended c c' \<and> (data_stored e epoch mx c c'
     \<or> (\<forall>n\<in>set (c_notes c'). n \<in> set (c_notes c) \<or> n_result n \<noteq> ''accepted''))"
proof -
  obtain ok c1 where r: "reply_keyed ''DATA'' 354 [''Start mail input; end with <CRLF>.<CRLF>''] c = (ok, c1)" by fastforce
  have k1: "kept c c1" using reply_keyed_kept[OF r] .
  show ?thesis
  proof (cases ok)
    case False
    then have "c' = c1 \<lparr> c_end := ''behavior'' \<rparr>" using b r by (simp add: data_body_def)
    then have "kept c c'" using k1 by (simp add: kept_def)
    then show ?thesis by (auto simp: data_ended_def kept_def calm_def quiet_def)
  next
    case True
    obtain q c2 where rd: "read_data mx c1 = (q, c2)" by fastforce
    have k2: "steady c c2" using steady_trans[OF kept_steady[OF k1] read_data_steady[OF rd]] .
    show ?thesis
    proof (cases q)
      case (Inl err)
      then have "data_failed err c2 = (k, c')" using b r True rd by (simp add: data_body_def)
      note df = data_failed_ended[OF this k2]
      have "\<forall>n\<in>set (c_notes c'). n \<in> set (c_notes c) \<or> n_result n \<noteq> ''accepted''"
        using df(2) by (elim disjE) simp_all
      with df(1) show ?thesis by blast
    next
      case (Inr raw)
      obtain now c3 where nc: "now_clock c2 = (now, c3)" by fastforce
      have k3: "steady c c3" using steady_trans[OF k2 now_clock_steady[OF nc]] .
      let ?msg = "data_message e c3 raw now"
      obtain h kp c4 where ov: "apply_error_override ''DATA-END'' c3 = (h, kp, c4)" by (metis prod.exhaust)
      have k34: "kept c3 c4" using override_kept[OF ov] .
      have k4: "steady c c4" using steady_trans[OF k3 kept_steady[OF k34]] .
      show ?thesis
      proof (cases h)
        case True
        then have e: "end_behavior kp (reset_to_helloed c4) = (k, c')"
          using b r \<open>ok\<close> rd Inr nc ov by (simp add: data_body_def Let_def)
        then have "kept (reset_to_helloed c4) c'" using end_behavior_kept by blast
        then have cc: "kept (reset_to_helloed c4) c'" .
        have "data_ended c (reset_to_helloed c4)" using steadyD[OF k4] by (intro reset_ended) simp_all
        then have "data_ended c c'" using cc by (simp add: data_ended_def kept_def calm_def quiet_def)
        moreover have "c_notes c' = c_notes c" using cc steadyD(4)[OF k4] by (simp add: kept_def)
        ultimately show ?thesis by simp
      next
        case False
        obtain res s' where ins: "e_insert e epoch ?msg (c_sink c4) = (res, s')" by fastforce
        show ?thesis
        proof (cases res)
          case (Inl err)
          then have "c' = insert_failed err (c4 \<lparr> c_sink := s' \<rparr>)"
            using b r \<open>ok\<close> rd Inr nc ov False ins by (simp add: data_body_def Let_def)
          then show ?thesis using insert_failed_ended(1,2)[of c "c4 \<lparr> c_sink := s' \<rparr>" err] k4 by simp
        next
          case ok': (Inr ir)
          obtain ok2 c5 where r2: "reply_keyed ''DATA-END'' 250 [''2.0.0 Queued as '' @ ir_id ir] (c4 \<lparr> c_sink := s' \<rparr>) = (ok2, c5)"
            by fastforce
          let ?c6 = "note_message ''accepted'' 250 (ir_id ir) c5"
          obtain kp2 c7 where eb: "end_behavior ok2 ?c6 = (kp2, c7)" by fastforce
          have c': "c' = reset_to_helloed c7"
            using b r \<open>ok\<close> rd Inr nc ov False ins ok' r2 eb by (simp add: data_body_def Let_def)
          have k5: "kept (c4 \<lparr> c_sink := s' \<rparr>) c5" using reply_keyed_kept[OF r2] .
          have k7: "kept ?c6 c7" "c_out c7 = c_out c5" using end_behavior_kept[OF eb] eb by (auto simp: end_behavior_def)
          have c43: "c4 = c3" using override_unhandled[OF ov False] .
          have de: "data_ended c c'"
            unfolding c' by (rule reset_ended) (use steadyD[OF k4] k5 k7(1) in \<open>simp_all add: kept_def calm_def quiet_def\<close>)
          have nt: "c_notes c' = c_notes c @ [\<lparr> n_result = ''accepted'', n_code = 250, n_id = ir_id ir \<rparr>]"
            using k4 k5 k7 by (simp add: c' steady_def kept_def)
          have out: "\<exists>code. last (c_out c') = (code, [''2.0.0 Queued as '' @ ir_id ir])
              \<or> reply_override (sm_behavior (c_spec c3)) ''DATA-END'' \<noteq> []"
            using reply_keyed_last[OF r2] k7(2) by (auto simp: c' c43)
          have sk: "c_sink c' = s'" "c_gate c' = c_gate c3" "c_spec c' = c_spec c3"
            using k5 k7(1) by (simp_all add: c' c43 kept_def)
          have r3: "read_data mx c1 = (Inr raw, c2)" using rd Inr by simp
          have k23: "kept (snd (now_clock c2)) c3" by (simp add: nc)
          have i3: "e_insert e epoch ?msg (c_sink c3) = (Inr ir, s')" using ins ok' c43 by simp
          have "data_stored e epoch mx c c'"
            unfolding data_stored_def using k3 k1 r3 k23 i3 sk nt out by blast
          with de show ?thesis by blast
        qed
      qed
    qed
  qed
qed

lemma cmd_data_shape:
  assumes d: "cmd_data e c = (k, c')"
  shows "kept c c' \<or> (c_state c = StRcpt \<and> c_rcpt c \<noteq> [] \<and> \<not> tls_required_cleartext c
      \<and> (sa_mode (sm_auth (c_spec c)) = ''plain_login'' \<longrightarrow> c_authed c)
      \<and> (\<exists>g c3. reserve_data (reserve_bytes (c_declared c) (c_size_set c) (sm_max_message_bytes (c_spec c)))
              (sm_admission (c_spec c)) (c_gate c) = Inr g
          \<and> data_body e (e_epoch e (c_sink c)) (sm_max_message_bytes (c_spec c)) (c \<lparr> c_gate := g \<rparr>) = (k, c3)
          \<and> c' = c3 \<lparr> c_gate := release_data (reserve_bytes (c_declared c) (c_size_set c) (sm_max_message_bytes (c_spec c))) (c_gate c3) \<rparr>))"
proof (cases "c_state c \<noteq> StRcpt \<or> c_rcpt c = []")
  case True
  then show ?thesis using d by (auto simp: cmd_data_def)
next
  case st: False
  obtain h kp c1 where ov: "apply_error_override ''DATA'' c = (h, kp, c1)" by (metis prod.exhaust)
  show ?thesis
  proof (cases h)
    case True
    then have "end_behavior kp c1 = (k, c')" using d ov st by (simp add: cmd_data_def)
    then show ?thesis using override_kept[OF ov] end_behavior_kept kept_trans by blast
  next
    case nh: False
    have c1: "c1 = c" using override_unhandled[OF ov nh] .
    obtain pok c2 where po: "policy_ok c = (pok, c2)" by fastforce
    show ?thesis
    proof (cases pok)
      case False
      then show ?thesis using d ov st nh po policy_ok_kept[OF po] unfolding cmd_data_def c1 by auto
    next
      case True
      note pt = policy_ok_true[OF po[unfolded eqTrueI[OF True]]]
      show ?thesis
        using d ov st nh po True pt unfolding cmd_data_def c1
        by (auto simp: Let_def split: sum.splits prod.splits if_splits)
    qed
  qed
qed

section \<open>Every command makes progress\<close>

lemma kept_progress: "kept c c' \<Longrightarrow> progress c c'"
  by (simp add: progress_def kept_calm)

lemma if_eqE:
  "(if P then a else b) = x \<Longrightarrow> (P \<Longrightarrow> a = x \<Longrightarrow> R) \<Longrightarrow> (\<not> P \<Longrightarrow> b = x \<Longrightarrow> R) \<Longrightarrow> R"
  by (cases P) auto

lemma dispatch_cases:
  assumes "dispatch e verb arg c = (k, c')"
  obtains (hello) eh where "cmd_hello arg eh c = (k, c')" | (mail) "verb = ''MAIL''" "cmd_mail arg c = (k, c')"
  | (rcpt) "verb = ''RCPT''" "cmd_rcpt arg c = (k, c')" | (data) "verb = ''DATA''" "cmd_data e c = (k, c')" | (rset) "cmd_rset c = (k, c')"
  | (auth) "verb = ''AUTH''" "cmd_auth e arg c = (k, c')" | (tls) "verb = ''STARTTLS''" "cmd_starttls e c = (k, c')"
  | (other) "kept c c'"
proof -
  have u: "kept c x" if "unknown_verb c = (y, x)" for y x
  proof -
    obtain h kp c1 where ov: "apply_error_override ''UNKNOWN'' c = (h, kp, c1)" by (metis prod.exhaust)
    show ?thesis
    proof (cases h)
      case True
      then show ?thesis using that ov override_kept[OF ov] by (simp add: unknown_verb_def)
    next
      case False
      then have "reply_keyed ''UNKNOWN'' 500 [''5.5.1 Command unrecognized''] c1 = (y, x)"
        using that ov by (simp add: unknown_verb_def)
      then show ?thesis using kept_trans[OF override_kept[OF ov] reply_keyed_kept] by blast
    qed
  qed
  have s: "kept c (snd (reply n ls c))" for n ls by (simp add: reply_def kept_def)
  from assms[unfolded dispatch_def] show thesis
  proof (elim if_eqE, goal_cases)
    case 1 then show ?thesis by (intro hello)
  next
    case 2 then show ?thesis by (intro hello)
  next
    case 3 then show ?thesis by (intro mail)
  next
    case 4 then show ?thesis by (intro rcpt)
  next
    case 5 then show ?thesis by (intro data)
  next
    case 6 then show ?thesis by (intro rset)
  next
    case 7 then show ?thesis by (intro other) (rule reply_keyed_kept)
  next
    case 8 then show ?thesis by (intro other) (metis prod.inject say_kept)
  next
    case 9 then show ?thesis by (intro other) (metis prod.inject s)
  next
    case 10 then show ?thesis by (intro other) (rule reply_keyed_kept)
  next
    case 11 then show ?thesis by (intro other) (metis prod.inject say_kept)
  next
    case 12 then show ?thesis by (intro auth)
  next
    case 13 then show ?thesis by (intro tls)
  next
    case 14 then show ?thesis by (intro other) (metis prod.inject say_kept)
  next
    case 15 then show ?thesis by (intro other) (metis prod.inject say_kept)
  next
    case 16 then show ?thesis by (intro other u)
  qed
qed

lemma dispatch_progress:
  assumes "dispatch e verb arg c = (k, c')"
  shows "progress c c'"
  using assms
proof (cases rule: dispatch_cases)
  case (hello eh)
  from cmd_hello_shape[OF this] show ?thesis by (auto simp: progress_def calm_def kept_def)
next
  case mail
  from cmd_mail_shape[OF mail(2)] show ?thesis by (auto simp: progress_def calm_def kept_def)
next
  case rcpt
  from cmd_rcpt_shape[OF rcpt(2)] show ?thesis by (auto simp: progress_def calm_def kept_def)
next
  case data
  have "calm c c'"
    using cmd_data_shape[OF data(2)]
  proof (elim disjE exE conjE)
    fix g c3 assume "data_body e (e_epoch e (c_sink c)) (sm_max_message_bytes (c_spec c)) (c \<lparr> c_gate := g \<rparr>) = (k, c3)"
      "c' = c3 \<lparr> c_gate := release_data (reserve_bytes (c_declared c) (c_size_set c) (sm_max_message_bytes (c_spec c))) (c_gate c3) \<rparr>"
    with data_body_shape[of e "e_epoch e (c_sink c)" "sm_max_message_bytes (c_spec c)" "c \<lparr> c_gate := g \<rparr>" k c3]
    show "calm c c'" by (auto simp: data_ended_def calm_def)
  qed (simp add: kept_calm)
  then show ?thesis by (simp add: progress_def)
next
  case rset
  from cmd_rset_shape[OF this] show ?thesis by (auto simp: progress_def calm_def kept_def)
next
  case auth
  from cmd_auth_outcome[OF auth(2)] show ?thesis using auth_outcome_fields by (auto simp: progress_def)
next
  case tls
  from cmd_starttls_shape[OF tls(2)] show ?thesis by (auto simp: progress_def steady_calm reset_after_tls_def)
next
  case other
  then show ?thesis by (rule kept_progress)
qed

section \<open>The loop\<close>

function run_loop :: "'s surroundings \<Rightarrow> 's conn \<Rightarrow> 's conn" where
  "run_loop e c =
     (let (ir, c1) = set_idle c in
      if ir \<noteq> IdleOk then c1 \<lparr> c_end := ''timeout'' \<rparr>
      else case read_command c1 of
          (Inl err, c2) \<Rightarrow>
            if err = LineTooLong then say 500 ''5.5.2 Line too long'' c2
            else if is_timeout err then c2 \<lparr> c_end := ''timeout'' \<rparr>
            else c2
        | (Inr line, c2) \<Rightarrow>
            let (verb, arg) = split_verb line; (keep, c3) = dispatch e verb arg c2
            in if keep then run_loop e c3 else c3)"
  by pat_completeness auto

lemma run_loop_decreases:
  assumes "set_idle c = (ir, c1)" "read_command c1 = (Inr line, c2)" "dispatch e verb arg c2 = (keep, c3)"
  shows "((e', c3), (e, c)) \<in> inv_image (less_than <*lex*> less_than)
    (\<lambda>(e, c). (if c_tls c then 0 else 1 :: nat, length (c_in c)))"
proof -
  have "steady c c1" using set_idle_steady[OF assms(1)] .
  moreover have "steady c1 c2" using read_command_steady[OF assms(2)] .
  moreover have "length (c_in c2) < length (c_in c1)" using read_command_shorter[OF assms(2)] .
  moreover have "progress c2 c3" using dispatch_progress[OF assms(3)] .
  ultimately show ?thesis by (auto simp: progress_def calm_def steady_def)
qed

termination run_loop
proof (relation "inv_image (less_than <*lex*> less_than) (\<lambda>(e, c). (if c_tls c then 0 else 1 :: nat, length (c_in c)))", goal_cases)
  case 1
  show ?case by auto
next
  case (2 e c x ir c1 q c2 line xc verb arg xe keep c3)
  have "set_idle c = (ir, c1)" using 2(1,2) by simp
  moreover have "read_command c1 = (Inr line, c2)" using 2(4,5) by simp
  moreover have "dispatch e verb arg c2 = (keep, c3)" using 2(8,9) by simp
  ultimately show ?case by (rule run_loop_decreases)
qed

declare run_loop.simps [simp del]

text \<open>\<^verbatim>\<open>run\<close>, its greeting, and the connection around it.\<close>

definition session_run :: "'s surroundings \<Rightarrow> 's conn \<Rightarrow> 's conn" where
  "session_run e c =
     (if bh_drop_on_connect (sm_behavior (c_spec c)) then c \<lparr> c_end := ''behavior'' \<rparr>
      else let (handled, keep, c1) = apply_error_override ''GREETING'' c in
        if handled then (if keep then run_loop e c1 else c1 \<lparr> c_end := ''behavior'' \<rparr>)
        else let (ok, c2) = reply_keyed ''GREETING'' 220 [sm_hostname (c_spec c1) @ '' LabMail ready''] c1
             in if ok then run_loop e c2 else c2 \<lparr> c_end := ''behavior'' \<rparr>)"

definition session_result :: "'s conn \<Rightarrow> bytes" where
  "session_result c = (if c_end c = [] then ''ok'' else c_end c)"

definition new_session :: "'s conn \<Rightarrow> 's conn" where
  "new_session c = c \<lparr> c_state := StGreeting, c_helo := [], c_from := [], c_rcpt := [], c_declared := 0,
     c_size_set := False, c_tls := False, c_authed := False, c_end := [] \<rparr>"

definition serve_conn :: "'s surroundings \<Rightarrow> ip \<Rightarrow> 's conn \<Rightarrow> 's conn" where
  "serve_conn e a c = (case acquire a (sm_admission (c_spec c)) (c_gate c) of
       Inl err \<Rightarrow> (say 421 ''4.3.2 Too many connections'' c) \<lparr> c_end := ''rejected'' \<rparr>
     | Inr g \<Rightarrow> let c1 = session_run e (new_session (c \<lparr> c_gate := g \<rparr>))
                in c1 \<lparr> c_gate := release a (c_gate c1) \<rparr>)"

text \<open>The connection after the greeting, when the session goes on to read commands.\<close>

definition greeted :: "'s conn \<Rightarrow> 's conn option" where
  "greeted c =
     (if bh_drop_on_connect (sm_behavior (c_spec c)) then None
      else let (handled, keep, c1) = apply_error_override ''GREETING'' c in
        if handled then (if keep then Some c1 else None)
        else let (ok, c2) = reply_keyed ''GREETING'' 220 [sm_hostname (c_spec c1) @ '' LabMail ready''] c1
             in if ok then Some c2 else None)"

lemma session_run_greeted:
  "greeted c = Some c1 \<Longrightarrow> session_run e c = run_loop e c1"
  "greeted c = None \<Longrightarrow> kept c (session_run e c)"
proof -
  obtain h kp c2 where ov: "apply_error_override ''GREETING'' c = (h, kp, c2)" by (metis prod.exhaust)
  obtain ok c3 where r: "reply_keyed ''GREETING'' 220 [sm_hostname (c_spec c2) @ '' LabMail ready''] c2 = (ok, c3)"
    by fastforce
  have k2: "kept c c2" using override_kept[OF ov] .
  have k3: "kept c c3" using kept_trans[OF k2 reply_keyed_kept[OF r]] .
  have g: "greeted c = (if bh_drop_on_connect (sm_behavior (c_spec c)) then None
      else if h then (if kp then Some c2 else None) else if ok then Some c3 else None)"
    unfolding greeted_def by (simp add: ov r)
  have s: "session_run e c = (if bh_drop_on_connect (sm_behavior (c_spec c)) then c \<lparr> c_end := ''behavior'' \<rparr>
      else if h then (if kp then run_loop e c2 else c2 \<lparr> c_end := ''behavior'' \<rparr>)
      else if ok then run_loop e c3 else c3 \<lparr> c_end := ''behavior'' \<rparr>)"
    unfolding session_run_def by (simp add: ov r)
  have e: "kept c (x \<lparr> c_end := t \<rparr>)" if "kept c x" for x t using that by (simp add: kept_def)
  show "greeted c = Some c1 \<Longrightarrow> session_run e c = run_loop e c1" unfolding g s by (auto split: if_splits)
  show "greeted c = None \<Longrightarrow> kept c (session_run e c)" unfolding g s using e k2 k3 by (auto split: if_splits)
qed

lemma greeted_kept:
  assumes "greeted c = Some c1"
  shows "kept c c1"
proof -
  obtain h kp c2 where ov: "apply_error_override ''GREETING'' c = (h, kp, c2)" by (metis prod.exhaust)
  obtain ok c3 where r: "reply_keyed ''GREETING'' 220 [sm_hostname (c_spec c2) @ '' LabMail ready''] c2 = (ok, c3)"
    by fastforce
  have "c1 = c2 \<or> c1 = c3" using assms unfolding greeted_def by (auto simp: ov r split: if_splits)
  then show ?thesis using override_kept[OF ov] kept_trans[OF override_kept[OF ov] reply_keyed_kept[OF r]] by auto
qed

end
