(* ===== verification/Smtp_Props.thy ===== *)
theory Smtp_Props
  imports Smtp_Run
begin

text \<open>
  The properties of the SMTP session: the body reader against the wire format of RFC 5321, the
  state machine's invariant at every command of every session, where an accepted message comes
  from, what authentication and STARTTLS change, and the balance of the admission gate.
\<close>

section \<open>Reading a body\<close>

definition idle_ok :: "'s conn \<Rightarrow> bool" where
  "idle_ok c = (\<forall>r \<in> set (c_idle c). r = IdleOk)"

definition wire_body :: "bytes list \<Rightarrow> bytes" where
  "wire_body ls = concat (map (\<lambda>l. stuff l @ crlf) ls)"

definition plain_body :: "bytes list \<Rightarrow> bytes" where
  "plain_body ls = concat (map (\<lambda>l. l @ crlf) ls)"

definition body_line :: "bytes \<Rightarrow> bool" where
  "body_line l = (LF \<notin> set l \<and> length (stuff l) + 2 \<le> MaxDataLine)"

lemma stuff_no_LF: "LF \<notin> set l \<Longrightarrow> LF \<notin> set (stuff l)"
  by (simp add: stuff_def)

lemma MaxDataLine_ge: "2 \<le> MaxDataLine"
  by (simp add: MaxDataLine_def)

lemma read_data_line_wire:
  assumes "LF \<notin> set w" "length w + 2 \<le> MaxDataLine"
  shows "read_data_line fin (w @ crlf @ rest) = (Inr w, rest)"
proof -
  have "cut LF ((w @ [CR]) @ LF # rest) = (w @ [CR], rest, True)" using assms(1) by (intro cut_append) simp
  then show ?thesis using assms(2) MaxDataLine_ge
    by (simp add: read_data_line_def read_line_meets_spec read_line_spec_def strip_cr_def)
qed

lemma set_idle_ok:
  assumes "idle_ok c"
  obtains c1 where "set_idle c = (IdleOk, c1)" "idle_ok c1" "c_in c1 = c_in c"
proof -
  have "fst (set_idle c) = IdleOk" using assms by (cases "c_idle c") (auto simp: set_idle_def idle_ok_def)
  moreover have "idle_ok (snd (set_idle c))" using assms by (cases "c_idle c") (auto simp: set_idle_def idle_ok_def)
  ultimately show thesis using that[of "snd (set_idle c)"] by (metis prod.collapse set_idle_input)
qed

lemma env_step_idle [simp]: "c_idle (env_step c) = c_idle c"
  by (auto simp: env_step_def split: list.splits)

lemma read_data_conn_wire:
  assumes "c_in c = w @ crlf @ rest" "LF \<notin> set w" "length w + 2 \<le> MaxDataLine" "idle_ok c"
  obtains c1 where "read_data_conn c = (Inr w, c1)" "c_in c1 = rest" "idle_ok c1"
  using that[of "(env_step c) \<lparr> c_in := rest \<rparr>"] assms read_data_line_wire[OF assms(2,3)]
  by (simp add: read_data_conn_def Let_def idle_ok_def)

lemma plain_body_Cons: "plain_body (l # ls) = l @ crlf @ plain_body ls"
  by (simp add: plain_body_def)

text \<open>The decision on a body given as its lines.\<close>

fun body_verdict :: "int \<Rightarrow> bytes \<Rightarrow> int \<Rightarrow> bool \<Rightarrow> bytes list \<Rightarrow> data_error + bytes" where
  "body_verdict mx buf d ov [] = (if ov then Inl DataTooLarge else Inr buf)"
| "body_verdict mx buf d ov (l # ls) = (let need = int (length l) + 2 in
     if ov then (if d + need > data_discard_slack then Inl DiscardBudget else body_verdict mx buf (d + need) True ls)
     else if int (length buf) + need > mx then body_verdict mx buf (d + need) True ls
     else body_verdict mx (buf @ l @ crlf) d False ls)"

lemma read_data_loop_wire:
  assumes "idle_ok c" "c_in c = wire_body ls @ ''.'' @ crlf @ rest" "\<forall>l \<in> set ls. body_line l"
  shows "\<exists>c'. read_data_loop mx buf d ov c = (body_verdict mx buf d ov ls, c')
    \<and> (body_verdict mx buf d ov ls \<noteq> Inl DiscardBudget \<longrightarrow> c_in c' = rest)
    \<and> (body_verdict mx buf d ov ls = Inl DiscardBudget \<longrightarrow>
         (\<exists>k < length ls. c_in c' = wire_body (drop (Suc k) ls) @ ''.'' @ crlf @ rest))"
  using assms
proof (induction ls arbitrary: c buf d ov)
  case Nil
  obtain c1 where c1: "set_idle c = (IdleOk, c1)" "idle_ok c1" "c_in c1 = c_in c"
    using set_idle_ok Nil.prems by metis
  obtain c2 where c2: "read_data_conn c1 = (Inr ''.'', c2)" "c_in c2 = rest"
    by (rule read_data_conn_wire[of c1 "''.''" rest])
      (use Nil.prems c1 in \<open>simp_all add: wire_body_def MaxDataLine_def\<close>)
  show ?case using c1 c2 by (subst read_data_loop.simps) (simp add: unstuff_def)
next
  case (Cons l ls)
  obtain c1 where c1: "set_idle c = (IdleOk, c1)" "idle_ok c1" "c_in c1 = c_in c"
    using set_idle_ok Cons.prems by metis
  have l: "LF \<notin> set (stuff l)" "length (stuff l) + 2 \<le> MaxDataLine"
    using Cons.prems(3) by (simp_all add: body_line_def stuff_no_LF)
  obtain c2 where c2: "read_data_conn c1 = (Inr (stuff l), c2)" "c_in c2 = wire_body ls @ ''.'' @ crlf @ rest" "idle_ok c2"
    by (rule read_data_conn_wire[OF _ l c1(2), of "wire_body ls @ ''.'' @ crlf @ rest"])
      (use Cons.prems c1 in \<open>simp_all add: wire_body_def\<close>)
  have ls: "\<forall>l \<in> set ls. body_line l" using Cons.prems(3) by simp
  note IH = Cons.IH[OF c2(3,2) ls]
  let ?need = "int (length l) + 2"
  have step: "read_data_loop mx buf d ov c =
      (if ov then (if d + ?need > data_discard_slack then (Inl DiscardBudget, c2) else read_data_loop mx buf (d + ?need) True c2)
       else if int (length buf) + ?need > mx then read_data_loop mx buf (d + ?need) True c2
       else read_data_loop mx (buf @ l @ crlf) d False c2)"
    using c1 c2 by (subst read_data_loop.simps) (simp add: Let_def)
  have stop: "\<exists>k < length (l # ls). c_in c2 = wire_body (drop (Suc k) (l # ls)) @ ''.'' @ crlf @ rest"
    using c2(2) by (intro exI[of _ 0]) simp
  have later: "\<exists>k < length ls. x = wire_body (drop (Suc k) ls) @ ''.'' @ crlf @ rest \<Longrightarrow>
      \<exists>k < length (l # ls). x = wire_body (drop (Suc k) (l # ls)) @ ''.'' @ crlf @ rest" for x
    by (metis Suc_less_eq drop_Suc_Cons length_Cons)
  show ?case
  proof (cases "ov \<and> d + ?need > data_discard_slack")
    case True
    then show ?thesis unfolding step using stop by simp
  next
    case False
    then show ?thesis unfolding step body_verdict.simps Let_def
      using IH[of buf "d + ?need" True] IH[of "buf @ l @ crlf" d False] later by (auto split: if_splits)
  qed
qed

lemma plain_body_simps [simp]: "plain_body [] = []" "plain_body (l # ls) = l @ crlf @ plain_body ls"
  by (simp_all add: plain_body_def)

text \<open>The lines that fit before the first that does not, and the size of the others.\<close>

fun fitting_lines :: "int \<Rightarrow> bytes list \<Rightarrow> bytes list" where
  "fitting_lines room [] = []"
| "fitting_lines room (l # ls) =
     (if int (length l) + 2 \<le> room then l # fitting_lines (room - (int (length l) + 2)) ls else [])"

definition body_excess :: "int \<Rightarrow> bytes list \<Rightarrow> int" where
  "body_excess mx ls = int (length (plain_body ls)) - int (length (plain_body (fitting_lines mx ls)))"

lemma verdict_over:
  "d \<le> data_discard_slack \<Longrightarrow> body_verdict mx buf d True ls =
     (if d + int (length (plain_body ls)) \<le> data_discard_slack then Inl DataTooLarge else Inl DiscardBudget)"
  by (induction ls arbitrary: d) (auto simp: Let_def)

lemma fitting_all: "int (length (plain_body ls)) \<le> room \<Longrightarrow> fitting_lines room ls = ls"
  by (induction ls arbitrary: room) auto

lemma body_verdict_cases:
  assumes "\<forall>l \<in> set ls. body_line l"
  shows "body_verdict mx buf 0 False ls =
    (if int (length buf + length (plain_body ls)) \<le> mx then Inr (buf @ plain_body ls)
     else if ls = [] \<or> body_excess (mx - int (length buf)) ls \<le> data_discard_slack then
       (if ls = [] then Inr buf else Inl DataTooLarge)
     else Inl DiscardBudget)"
  using assms
proof (induction ls arbitrary: buf)
  case (Cons l ls)
  have l: "int (length l) + 2 \<le> data_discard_slack"
    using Cons.prems by (auto simp: body_line_def stuff_def MaxDataLine_def data_discard_slack_def split: if_splits)
  show ?case
  proof (cases "int (length buf) + (int (length l) + 2) > mx")
    case True
    then show ?thesis using verdict_over[OF l, of mx buf ls] by (simp add: Let_def body_excess_def)
  next
    case False
    have e: "body_excess (mx - int (length buf)) (l # ls) = body_excess (mx - int (length (buf @ l @ crlf))) ls"
      using False by (simp add: body_excess_def algebra_simps)
    show ?thesis using False Cons.IH[of "buf @ l @ crlf"] Cons.prems unfolding e by (cases ls) (auto simp: Let_def)
  qed
qed simp

text \<open>C5. Transparency of DATA: for any body lines a conforming sender may transmit, of whatever total
  size, dot-stuffed and ended by a lone dot, with whatever follows in the stream and whatever the
  rest of the server does meanwhile, the reader decides by size alone.  A body within the message
  limit is returned as exactly those lines with CRLF ends, and the reader stops right after the
  final dot, so that a pipelined command is next.  A longer one, whose lines from the first that does
  not fit take no more than the discard budget, gets the too-large verdict, again right after its
  final dot.  When they take more, the reader gives up inside the body with the verdict that closes
  the connection, so that nothing of the body is taken for a command.\<close>

theorem data_transparency:
  assumes "idle_ok c" "c_in c = wire_body ls @ ''.'' @ crlf @ rest" "\<forall>l \<in> set ls. body_line l" "0 \<le> mx"
  shows "\<exists>v c'. read_data mx c = (v, c')
    \<and> (int (length (plain_body ls)) \<le> mx \<longrightarrow> v = Inr (plain_body ls) \<and> c_in c' = rest)
    \<and> (mx < int (length (plain_body ls)) \<and> body_excess mx ls \<le> data_discard_slack \<longrightarrow> v = Inl DataTooLarge \<and> c_in c' = rest)
    \<and> (mx < int (length (plain_body ls)) \<and> data_discard_slack < body_excess mx ls \<longrightarrow> v = Inl DiscardBudget
        \<and> (\<exists>k < length ls. c_in c' = wire_body (drop (Suc k) ls) @ ''.'' @ crlf @ rest)
        \<and> fst (data_failed DiscardBudget c') = False)"
proof -
  obtain c1 where c1: "set_idle c = (IdleOk, c1)" "idle_ok c1" "c_in c1 = c_in c"
    using set_idle_ok[OF assms(1)] by metis
  note v = body_verdict_cases[OF assms(3), of mx "[]"]
  have "c_in c1 = wire_body ls @ ''.'' @ crlf @ rest" using assms(2) c1 by simp
  from read_data_loop_wire[OF c1(2) this assms(3), of mx "[]" 0 False] obtain c' where
    r: "read_data mx c = (body_verdict mx [] 0 False ls, c')"
      "body_verdict mx [] 0 False ls \<noteq> Inl DiscardBudget \<longrightarrow> c_in c' = rest"
      "body_verdict mx [] 0 False ls = Inl DiscardBudget \<longrightarrow>
         (\<exists>k < length ls. c_in c' = wire_body (drop (Suc k) ls) @ ''.'' @ crlf @ rest)"
    using c1(1) by (auto simp: read_data_def)
  moreover have "ls \<noteq> []" if "mx < int (length (plain_body ls))" using that assms(4) by auto
  ultimately show ?thesis using v by (auto simp: data_failed_def)
qed

text \<open>The converse: what an accepted body was on the wire.\<close>

definition wire_line :: "bytes \<Rightarrow> bool" where
  "wire_line w = (w \<noteq> [] \<and> last w = LF \<and> LF \<notin> set (butlast w) \<and> length w \<le> MaxDataLine)"

definition line_text :: "bytes \<Rightarrow> bytes" where
  "line_text w = strip_cr (butlast w)"

lemma read_data_line_cut:
  assumes "read_data_line fin inp = (Inr l, rest)"
  obtains w where "inp = w @ rest" "wire_line w" "l = line_text w"
proof -
  obtain a r ok where c: "cut LF inp = (a, r, ok)" by (cases "cut LF inp") auto
  have "ok \<and> l = strip_cr a \<and> length a + 1 \<le> MaxDataLine \<and> r = rest"
    using assms c MaxDataLine_ge
    by (auto simp: read_data_line_def read_line_meets_spec read_line_spec_def split: bool.splits if_splits)
  moreover from this c have "inp = a @ LF # r \<and> LF \<notin> set a" by (auto dest: cut_found)
  ultimately show thesis by (intro that[of "a @ [LF]"]) (auto simp: wire_line_def line_text_def)
qed

lemma read_data_conn_cut:
  assumes "read_data_conn c = (Inr l, c')"
  obtains w where "c_in c = w @ c_in c'" "wire_line w" "l = line_text w"
proof -
  have "read_data_line (c_in_end c) (c_in c) = (Inr l, c_in c')"
    using assms by (auto simp: read_data_conn_def Let_def split: prod.splits)
  then show thesis using read_data_line_cut that by metis
qed

lemma unstuff_split: "unstuff l = (b, e) \<Longrightarrow> (e \<longleftrightarrow> l = ''.'') \<and> b = fst (unstuff l)"
  using unstuff_end[of l] by simp

lemma read_data_loop_sound:
  "read_data_loop mx buf d ov c = (Inr raw, c') \<Longrightarrow> int (length buf) \<le> mx \<Longrightarrow>
     \<not> ov \<and> int (length raw) \<le> mx \<and> (\<exists>ws fin. c_in c = concat ws @ fin @ c_in c' \<and> (\<forall>w\<in>set ws. wire_line w \<and> line_text w \<noteq> ''.'')
       \<and> wire_line fin \<and> line_text fin = ''.''
       \<and> raw = buf @ plain_body (map (fst \<circ> unstuff \<circ> line_text) ws))"
proof (induction mx buf d ov c rule: read_data_loop.induct)
  case (1 mx buf d ov c)
  obtain ir c1 where si: "set_idle c = (ir, c1)" by fastforce
  obtain q c2 where rd: "read_data_conn c1 = (q, c2)" by fastforce
  have ir: "ir = IdleOk" using "1.prems"(1) si by (subst (asm) read_data_loop.simps) (auto split: if_splits)
  obtain line where q: "q = Inr line" using "1.prems"(1) si rd ir
    by (cases q) (subst (asm) read_data_loop.simps, auto)
  obtain body ended where us: "unstuff line = (body, ended)" by fastforce
  obtain w where w: "c_in c1 = w @ c_in c2" "wire_line w" "line = line_text w" using read_data_conn_cut rd q by metis
  have wc: "c_in c = w @ c_in c2" using w(1) set_idle_snd(2)[OF si] by simp
  let ?need = "int (length body) + 2"
  have step: "read_data_loop mx buf d ov c =
      (if ended then (if ov then Inl DataTooLarge else Inr buf, c2)
       else if ov then (if d + ?need > data_discard_slack then (Inl DiscardBudget, c2) else read_data_loop mx buf (d + ?need) True c2)
       else if int (length buf) + ?need > mx then read_data_loop mx buf (d + ?need) True c2
       else read_data_loop mx (buf @ body @ crlf) d False c2)"
    using si rd ir q us by (subst read_data_loop.simps) (simp add: Let_def)
  note IH = "1.IH"[OF si[symmetric] refl _ rd[symmetric] q us[symmetric] refl, unfolded ir, simplified]
  show ?case
  proof (cases ended)
    case True
    then have "\<not> ov" "raw = buf" "c' = c2" using "1.prems"(1) step by (auto split: if_splits)
    moreover have "line_text w = ''.''" using unstuff_split[OF us] True w by simp
    ultimately show ?thesis using wc w "1.prems"(2)
      by (auto intro!: exI[of _ "[]"] exI[of _ w])
  next
    case False
    have nov: "\<not> ov \<and> \<not> int (length buf) + ?need > mx"
      using "1.prems" step False IH(1,2) by (auto split: if_splits)
    then have r: "read_data_loop mx (buf @ body @ crlf) d False c2 = (Inr raw, c')"
      using "1.prems"(1) step False by simp
    from IH(3)[OF False refl] nov r obtain ws fin where
      i: "int (length raw) \<le> mx" "c_in c2 = concat ws @ fin @ c_in c'" "\<forall>w\<in>set ws. wire_line w \<and> line_text w \<noteq> ''.''"
         "wire_line fin" "line_text fin = ''.''"
         "raw = (buf @ body @ crlf) @ plain_body (map (fst \<circ> unstuff \<circ> line_text) ws)" by (auto simp: comp_def)
    have "line_text w \<noteq> ''.''" "body = fst (unstuff (line_text w))"
      using unstuff_split[OF us] False w by auto
    then show ?thesis using nov i wc w
      by (intro conjI exI[of _ "w # ws"] exI[of _ fin]) (auto simp: comp_def)
  qed
qed

text \<open>C6. Soundness of the body reader on every input: whatever it accepts is at most the message
  limit, and is exactly the wire lines before the first lone dot, each with one leading dot and its
  line end removed and a CRLF put after it; the bytes after the dot line are what is left.  Lines
  may end in a bare LF, so a dot between bare line feeds ends a message too.\<close>

theorem data_soundness:
  assumes "read_data mx c = (Inr raw, c')" "0 \<le> mx"
  shows "int (length raw) \<le> mx \<and> (\<exists>ws fin. c_in c = concat ws @ fin @ c_in c'
    \<and> (\<forall>w\<in>set ws. wire_line w \<and> line_text w \<noteq> ''.'') \<and> wire_line fin \<and> line_text fin = ''.''
    \<and> raw = plain_body (map (fst \<circ> unstuff \<circ> line_text) ws))"
proof -
  obtain ir c1 where si: "set_idle c = (ir, c1)" by fastforce
  then have r: "read_data_loop mx [] 0 False c1 = (Inr raw, c')"
    using assms(1) by (auto simp: read_data_def split: if_splits)
  from read_data_loop_sound[OF r] assms(2) set_idle_snd(2)[OF si] show ?thesis by simp
qed

section \<open>The state machine\<close>

text \<open>The session's own invariant.\<close>

definition session_ok :: "'s conn \<Rightarrow> bool" where
  "session_ok c \<longleftrightarrow> (c_state c = StGreeting \<longleftrightarrow> c_helo c = [])
     \<and> (c_state c = StGreeting \<or> c_state c = StHelloed \<longrightarrow> c_from c = [] \<and> c_rcpt c = [])
     \<and> (c_state c = StMail \<longrightarrow> c_rcpt c = []) \<and> (c_state c = StRcpt \<longrightarrow> c_rcpt c \<noteq> [])
     \<and> (c_authed c \<longrightarrow> c_helo c \<noteq> [])"

lemma session_ok_cong:
  assumes "c_state c' = c_state c" "c_helo c' = c_helo c" "c_from c' = c_from c" "c_rcpt c' = c_rcpt c"
    "c_authed c' = c_authed c"
  shows "session_ok c' = session_ok c"
  using assms by (simp add: session_ok_def)

lemma session_ok_kept: "kept c c' \<Longrightarrow> session_ok c \<Longrightarrow> session_ok c'"
  by (subst session_ok_cong[of c' c]) (simp_all add: kept_def)

lemma session_ok_steady: "steady c c' \<Longrightarrow> session_ok c \<Longrightarrow> session_ok c'"
  by (subst session_ok_cong[of c' c]) (simp_all add: steady_def)

lemma session_ok_ended:
  assumes "data_ended c c'" "session_ok c"
  shows "session_ok c'"
proof (cases "kept c c'")
  case True
  then show ?thesis using assms(2) by (rule session_ok_kept)
next
  case False
  then show ?thesis using assms by (cases "c_helo c = []") (simp_all add: data_ended_def session_ok_def)
qed

lemma session_ok_gate [simp]: "session_ok (c \<lparr> c_gate := g \<rparr>) = session_ok c"
  by (rule session_ok_cong) simp_all

text \<open>DATA seen from outside the reservation.\<close>

lemma cmd_data_ended:
  assumes "cmd_data e c = (k, c')"
  shows "c_helo c' = c_helo c" "c_authed c' = c_authed c" "c_tls c' = c_tls c"
    "c_from c' = c_from c \<or> c_from c' = []" "c_rcpt c' = c_rcpt c \<or> c_rcpt c' = []"
    "session_ok c \<Longrightarrow> session_ok c'"
proof -
  have k: "c_helo c' = c_helo c \<and> c_authed c' = c_authed c \<and> c_tls c' = c_tls c \<and> (c_from c' = c_from c \<or> c_from c' = [])
      \<and> (c_rcpt c' = c_rcpt c \<or> c_rcpt c' = []) \<and> (session_ok c \<longrightarrow> session_ok c')"
    using cmd_data_shape[OF assms]
  proof (elim disjE exE conjE)
    assume kc: "kept c c'"
    have "session_ok c \<longrightarrow> session_ok c'" using session_ok_kept[OF kc] by blast
    then show ?thesis using kc by (simp add: kept_def)
  next
    fix g c3 assume b: "data_body e (e_epoch e (c_sink c)) (sm_max_message_bytes (c_spec c)) (c \<lparr> c_gate := g \<rparr>) = (k, c3)"
      "c' = c3 \<lparr> c_gate := release_data (reserve_bytes (c_declared c) (c_size_set c) (sm_max_message_bytes (c_spec c))) (c_gate c3) \<rparr>"
    have d: "data_ended (c \<lparr> c_gate := g \<rparr>) c3" using data_body_shape[OF b(1)] by blast
    have "session_ok c \<longrightarrow> session_ok c'" using session_ok_ended[OF d] b(2) by simp
    moreover have "c_from c3 = c_from c \<or> c_from c3 = []" "c_rcpt c3 = c_rcpt c \<or> c_rcpt c3 = []"
      using d by (auto simp: data_ended_def kept_def)
    ultimately show ?thesis using d b(2) by (simp add: data_ended_def calm_def)
  qed
  then show "c_helo c' = c_helo c" "c_authed c' = c_authed c" "c_tls c' = c_tls c"
    "c_from c' = c_from c \<or> c_from c' = []" "c_rcpt c' = c_rcpt c \<or> c_rcpt c' = []"
    "session_ok c \<Longrightarrow> session_ok c'" by blast+
qed

lemma dispatch_session_ok:
  assumes "dispatch e verb arg c = (k, c')" "session_ok c"
  shows "session_ok c'"
  using assms(1)
proof (cases rule: dispatch_cases)
  case (hello eh)
  have "session_ok ((reset_txn c) \<lparr> c_helo := h, c_state := StHelloed \<rparr>)" if "h \<noteq> []" for h
    using that by (simp add: session_ok_def)
  with cmd_hello_shape[OF hello] assms(2) show ?thesis using session_ok_kept by blast
next
  case mail
  have "session_ok (c \<lparr> c_from := path, c_declared := sz, c_size_set := st, c_rcpt := [], c_state := StMail \<rparr>)"
    if "c_state c = StHelloed" for path sz st using that assms(2) by (simp add: session_ok_def)
  with cmd_mail_shape[OF mail(2)] assms(2) show ?thesis using session_ok_kept by blast
next
  case rcpt
  have "session_ok (c \<lparr> c_rcpt := c_rcpt c @ [path], c_state := StRcpt \<rparr>)"
    if "c_state c = StMail \<or> c_state c = StRcpt" for path using that assms(2) by (auto simp: session_ok_def)
  with cmd_rcpt_shape[OF rcpt(2)] assms(2) show ?thesis using session_ok_kept by blast
next
  case data
  then show ?thesis using cmd_data_ended(6) assms(2) by blast
next
  case rset
  have "session_ok ((reset_txn c) \<lparr> c_state := (if c_state c \<noteq> StGreeting then StHelloed else StGreeting) \<rparr>)"
    using assms(2) by (simp add: session_ok_def)
  with cmd_rset_shape[OF rset] assms(2) show ?thesis using session_ok_kept by blast
next
  case auth
  from cmd_auth_outcome[OF auth(2)] have o: "auth_outcome (auth_presented arg (c_in c)) e c c'" and
    a: "\<not> c_authed c \<longrightarrow> c_authed c' \<longrightarrow> c_state c = StHelloed" by auto
  have f: "c_state c' = c_state c" "c_helo c' = c_helo c" "c_from c' = c_from c" "c_rcpt c' = c_rcpt c"
    using auth_outcome_fields[OF o] by auto
  have h: "c_authed c' \<longrightarrow> c_helo c \<noteq> []"
  proof
    assume "c_authed c'"
    then have "c_authed c \<or> c_state c = StHelloed" using a by blast
    then show "c_helo c \<noteq> []" using assms(2) by (auto simp: session_ok_def)
  qed
  show ?thesis using assms(2) h unfolding session_ok_def f by simp
next
  case tls
  have "session_ok (reset_after_tls x)" for x by (simp add: session_ok_def reset_after_tls_def)
  with cmd_starttls_shape[OF tls(2)] assms(2) show ?thesis using session_ok_steady by blast
next
  case other
  then show ?thesis using assms(2) by (rule session_ok_kept)
qed

text \<open>
  \<open>run_cmd e c x verb arg y\<close>: in the session that starts at \<open>c\<close>, some round of the loop reads a
  line, dispatches \<open>verb arg\<close> in connection \<open>x\<close> and leaves connection \<open>y\<close>.
\<close>

inductive run_cmd :: "'s surroundings \<Rightarrow> 's conn \<Rightarrow> 's conn \<Rightarrow> bytes \<Rightarrow> bytes \<Rightarrow> 's conn \<Rightarrow> bool" for e where
  run_here: "\<lbrakk> set_idle c = (IdleOk, c1); read_command c1 = (Inr line, c2); split_verb line = (verb, arg);
      dispatch e verb arg c2 = (keep, c3) \<rbrakk> \<Longrightarrow> run_cmd e c c2 verb arg c3"
| run_later: "\<lbrakk> set_idle c = (IdleOk, c1); read_command c1 = (Inr line, c2); split_verb line = (verb, arg);
      dispatch e verb arg c2 = (True, c3); run_cmd e c3 x v a y \<rbrakk> \<Longrightarrow> run_cmd e c x v a y"

lemma run_round_ok:
  assumes "set_idle c = (ir, c1)" "read_command c1 = (q, c2)" "session_ok c"
  shows "session_ok c1" "session_ok c2"
  using assms set_idle_steady read_command_steady session_ok_steady by blast+

lemma run_cmd_ok: "run_cmd e c x v a y \<Longrightarrow> session_ok c \<Longrightarrow> session_ok x \<and> dispatch e v a x = (fst (dispatch e v a x), y) \<and> session_ok y"
proof (induction rule: run_cmd.induct)
  case (run_here c c1 line c2 verb arg keep c3)
  then show ?case using run_round_ok dispatch_session_ok by (metis fst_conv)
next
  case (run_later c c1 line c2 verb arg c3 x v a y)
  then show ?case using run_round_ok dispatch_session_ok by metis
qed

definition serve_cmd ::
  "'s surroundings \<Rightarrow> ip \<Rightarrow> 's conn \<Rightarrow> 's conn \<Rightarrow> bytes \<Rightarrow> bytes \<Rightarrow> 's conn \<Rightarrow> bool" where
  "serve_cmd e a c x verb arg y \<longleftrightarrow> (\<exists>g c1. acquire a (sm_admission (c_spec c)) (c_gate c) = Inr g
     \<and> greeted (new_session (c \<lparr> c_gate := g \<rparr>)) = Some c1 \<and> run_cmd e c1 x verb arg y)"

lemma new_session_ok: "session_ok (new_session c)"
  by (simp add: session_ok_def new_session_def)

lemma serve_cmd_ok:
  assumes "serve_cmd e a c x verb arg y"
  shows "session_ok x \<and> dispatch e verb arg x = (fst (dispatch e verb arg x), y) \<and> session_ok y"
proof -
  obtain g c1 where "greeted (new_session (c \<lparr> c_gate := g \<rparr>)) = Some c1" "run_cmd e c1 x verb arg y"
    using assms by (auto simp: serve_cmd_def)
  then show ?thesis using run_cmd_ok greeted_kept session_ok_kept new_session_ok by metis
qed

section \<open>Transactions and policy\<close>

definition policy_met :: "'s conn \<Rightarrow> bool" where
  "policy_met c \<longleftrightarrow> \<not> tls_required_cleartext c \<and> (sa_mode (sm_auth (c_spec c)) = ''plain_login'' \<longrightarrow> c_authed c)"

definition new_accepted :: "'s conn \<Rightarrow> 's conn \<Rightarrow> smtp_note \<Rightarrow> bool" where
  "new_accepted c c' n \<longleftrightarrow> n \<in> set (c_notes c') \<and> n \<notin> set (c_notes c) \<and> n_result n = ''accepted''"

lemma dispatch_data: "dispatch e ''DATA'' arg c = cmd_data e c"
  by (simp add: dispatch_def)

text \<open>A message accepted by a DATA command that is dispatched in \<open>c\<close>.\<close>

definition accepted_by :: "'s surroundings \<Rightarrow> 's conn \<Rightarrow> smtp_note \<Rightarrow> bool" where
  "accepted_by e c n \<longleftrightarrow> c_state c = StRcpt \<and> c_rcpt c \<noteq> [] \<and> policy_met c
     \<and> (\<exists>c3 raw now res s' ws fin rest. c_helo c3 = c_helo c \<and> c_from c3 = c_from c \<and> c_rcpt c3 = c_rcpt c
         \<and> e_insert e (e_epoch e (c_sink c)) (data_message e c3 raw now) (c_sink c3) = (Inr res, s')
         \<and> c_sink (snd (cmd_data e c)) = s' \<and> n = \<lparr> n_result = ''accepted'', n_code = 250, n_id = ir_id res \<rparr>
         \<and> (0 \<le> sm_max_message_bytes (c_spec c) \<longrightarrow> int (length raw) \<le> sm_max_message_bytes (c_spec c)
              \<and> c_in c = concat ws @ fin @ rest \<and> (\<forall>w\<in>set ws. wire_line w \<and> line_text w \<noteq> ''.'')
              \<and> wire_line fin \<and> line_text fin = ''.'' \<and> raw = plain_body (map (fst \<circ> unstuff \<circ> line_text) ws)))"

lemma data_sound:
  assumes "read_data mx c = (Inr raw, c')"
  shows "\<exists>ws fin rest. 0 \<le> mx \<longrightarrow> int (length raw) \<le> mx \<and> c_in c = concat ws @ fin @ rest
    \<and> (\<forall>w\<in>set ws. wire_line w \<and> line_text w \<noteq> ''.'') \<and> wire_line fin \<and> line_text fin = ''.''
    \<and> raw = plain_body (map (fst \<circ> unstuff \<circ> line_text) ws)"
proof -
  obtain ir c1 where si: "set_idle c = (ir, c1)" by fastforce
  then have r: "read_data_loop mx [] 0 False c1 = (Inr raw, c')"
    using assms by (auto simp: read_data_def split: if_splits)
  show ?thesis using read_data_loop_sound[OF r] set_idle_snd(2)[OF si] by auto
qed

lemma cmd_data_accepted:
  assumes d: "cmd_data e c = (k, c')" and n: "new_accepted c c' n"
  shows "accepted_by e c n"
proof -
  have "\<not> kept c c'" using n by (auto simp: new_accepted_def kept_def)
  with cmd_data_shape[OF d] obtain g c3 where
    st: "c_state c = StRcpt" "c_rcpt c \<noteq> []" "policy_met c"
    and b: "data_body e (e_epoch e (c_sink c)) (sm_max_message_bytes (c_spec c)) (c \<lparr> c_gate := g \<rparr>) = (k, c3)"
    and nt: "c_notes c' = c_notes c3" and sk: "c_sink c' = c_sink c3" by (auto simp: policy_met_def)
  let ?c = "c \<lparr> c_gate := g \<rparr>" and ?mx = "sm_max_message_bytes (c_spec c)"
  have "\<not> (\<forall>n\<in>set (c_notes c3). n \<in> set (c_notes ?c) \<or> n_result n \<noteq> ''accepted'')"
    using n nt by (auto simp: new_accepted_def)
  then have "data_stored e (e_epoch e (c_sink c)) ?mx ?c c3" using data_body_shape[OF b] by blast
  then obtain c4 raw now res s' c1 c2 where
    s: "steady ?c c4" "kept ?c c1" "read_data ?mx c1 = (Inr raw, c2)"
       "e_insert e (e_epoch e (c_sink c)) (data_message e c4 raw now) (c_sink c4) = (Inr res, s')"
       "c_notes c3 = c_notes ?c @ [\<lparr> n_result = ''accepted'', n_code = 250, n_id = ir_id res \<rparr>]" "c_sink c3 = s'"
    unfolding data_stored_def by blast
  have cs: "c_sink (snd (cmd_data e c)) = s'" using d sk s(6) by simp
  have f: "c_helo c4 = c_helo c" "c_from c4 = c_from c" "c_rcpt c4 = c_rcpt c"
    using s(1) by (simp_all add: steady_def)
  have i: "c_in c1 = c_in c" using s(2) by (simp add: kept_def)
  have nn: "n = \<lparr> n_result = ''accepted'', n_code = 250, n_id = ir_id res \<rparr>"
    using n nt s(5) by (auto simp: new_accepted_def)
  show ?thesis
    unfolding accepted_by_def using st f s(4) cs nn data_sound[OF s(3), unfolded i] by blast
qed

lemma dispatch_accepted:
  assumes d: "dispatch e verb arg c = (k, c')" and n: "new_accepted c c' n"
  shows "verb = ''DATA'' \<and> accepted_by e c n"
proof -
  have same: False if "c_notes c' = c_notes c" using that n by (auto simp: new_accepted_def)
  from d show ?thesis
  proof (cases rule: dispatch_cases)
    case (hello eh)
    then show ?thesis using same cmd_hello_shape[OF hello] by (auto simp: kept_def)
  next
    case mail
    then show ?thesis using same cmd_mail_shape[OF mail(2)] by (auto simp: kept_def)
  next
    case rcpt
    then show ?thesis using same cmd_rcpt_shape[OF rcpt(2)] by (auto simp: kept_def)
  next
    case data
    then show ?thesis using cmd_data_accepted n by blast
  next
    case rset
    then show ?thesis using same cmd_rset_shape[OF rset] by (auto simp: kept_def)
  next
    case auth
    then show ?thesis using same cmd_auth_outcome[OF auth(2)] auth_outcome_fields by blast
  next
    case tls
    then show ?thesis using same cmd_starttls_shape[OF tls(2)] by (auto simp: steady_def reset_after_tls_def reset_txn_def)
  next
    case other
    then show ?thesis using same by (simp add: kept_def)
  qed
qed

lemma run_loop_cases:
  obtains (stop) "steady c (run_loop e c)"
  | (cmd) c1 line c2 verb arg k c3 where "set_idle c = (IdleOk, c1)" "read_command c1 = (Inr line, c2)"
      "split_verb line = (verb, arg)" "dispatch e verb arg c2 = (k, c3)" "steady c c2"
      "run_loop e c = (if k then run_loop e c3 else c3)"
proof -
  obtain ir c1 where si: "set_idle c = (ir, c1)" by fastforce
  obtain q c2 where rd: "read_command c1 = (q, c2)" by fastforce
  have s1: "steady c c1" using set_idle_steady[OF si] .
  have s2: "steady c c2" using steady_trans[OF s1 read_command_steady[OF rd]] .
  have e: "steady c (x \<lparr> c_end := t \<rparr>)" if "steady c x" for x t
    using that by (simp add: steady_def calm_def quiet_def)
  show thesis
  proof (cases "ir = IdleOk")
    case False
    then have "run_loop e c = c1 \<lparr> c_end := ''timeout'' \<rparr>" using si by (simp add: run_loop.simps[of e c])
    then show thesis using e[OF s1] stop by simp
  next
    case True
    show thesis
    proof (cases q)
      case (Inl err)
      then have "run_loop e c = (if err = LineTooLong then say 500 ''5.5.2 Line too long'' c2
          else if is_timeout err then c2 \<lparr> c_end := ''timeout'' \<rparr> else c2)"
        using si rd True by (simp add: run_loop.simps[of e c])
      then show thesis using e[OF s2] steady_say[OF s2] s2 stop by (simp split: if_splits)
    next
      case (Inr line)
      obtain verb arg where sv: "split_verb line = (verb, arg)" by fastforce
      obtain k c3 where d: "dispatch e verb arg c2 = (k, c3)" by fastforce
      have "run_loop e c = (if k then run_loop e c3 else c3)"
        using si rd True Inr sv d by (simp add: run_loop.simps[of e c])
      then show thesis using cmd si rd True Inr sv d s2 by blast
    qed
  qed
qed

lemma run_loop_accepted:
  "n \<in> set (c_notes (run_loop e c)) \<Longrightarrow> n \<notin> set (c_notes c) \<Longrightarrow> n_result n = ''accepted'' \<Longrightarrow>
     \<exists>x arg y. run_cmd e c x ''DATA'' arg y \<and> accepted_by e x n"
proof (induction e c rule: run_loop.induct)
  case (1 e c)
  show ?case
  proof (cases rule: run_loop_cases[of c e])
    case stop
    then show ?thesis using "1.prems" by (simp add: steady_def)
  next
    case (cmd c1 line c2 verb arg k c3)
    have nc: "c_notes c2 = c_notes c" using cmd(5) by (simp add: steady_def)
    show ?thesis
    proof (cases "n \<in> set (c_notes c3)")
      case True
      then have "new_accepted c2 c3 n" using "1.prems" nc by (simp add: new_accepted_def)
      from dispatch_accepted[OF cmd(4) this] show ?thesis
        using run_here[OF cmd(1-4)] by blast
    next
      case False
      then have k: k and r: "run_loop e c = run_loop e c3" using "1.prems" cmd(6) by (auto split: if_splits)
      have "\<exists>x arg y. run_cmd e c3 x ''DATA'' arg y \<and> accepted_by e x n"
        using "1.IH"[OF cmd(1)[symmetric] refl _ cmd(2)[symmetric] refl cmd(3)[symmetric] refl cmd(4)[symmetric] refl k]
          "1.prems" r False by simp
      moreover have "dispatch e verb arg c2 = (True, c3)" using cmd(4) k by simp
      ultimately show ?thesis using run_later[OF cmd(1-3)] by blast
    qed
  qed
qed

section \<open>A concrete connection\<close>

text \<open>A server whose sink is the list of the messages it was given; ids are their numbers.\<close>

definition demo_smtp :: smtp_spec where
  "demo_smtp = with_spec_defaults
     \<lparr> sm_hostname = ''lab'', sm_max_message_bytes = 1000, sm_max_recipients = 2, sm_hide_extensions = [],
       sm_auth = \<lparr> sa_mode = ''none'', sa_username = [], sa_password_file = [] \<rparr>,
       sm_tls = \<lparr> tl_mode = ''off'', tl_required = False, tl_cert_file = [], tl_key_file = [] \<rparr>,
       sm_admission = \<lparr> adm_max_sessions = 0, adm_max_sessions_per_ip = 0, adm_max_in_flight_data = 0,
         adm_max_in_flight_data_bytes = 0, adm_session_timeout = 0, adm_command_idle = 0, adm_data_idle = 0 \<rparr>,
       sm_behavior = \<lparr> bh_greeting_delay = 0, bh_command_delay = 0, bh_drop_on_connect = False, bh_close_after_verb = [],
         bh_replies = \<lparr> ro_greeting = [], ro_helo = [], ro_ehlo = [], ro_mail = [], ro_rcpt = [], ro_data = [],
           ro_data_end = [], ro_rset = [], ro_noop = [], ro_vrfy = [], ro_auth = [], ro_starttls = [], ro_unknown = [] \<rparr> \<rparr> \<rparr>"

definition demo_server :: "(message list) surroundings" where
  "demo_server = \<lparr> e_epoch = (\<lambda>_. 1),
     e_insert = (\<lambda>ep m s. (Inr \<lparr> ir_id = nat_str (length s), ir_generation = length s \<rparr>, s @ [m])),
     e_parse = (\<lambda>raw. empty_message \<lparr> msg_raw := raw \<rparr>), e_remote = ''192.0.2.1'',
     e_handshake = (\<lambda>inp. Some (inp, ReadEOF)), e_key_pair = (\<lambda>c k. True), e_file = (\<lambda>p. Some ''pw'') \<rparr>"

definition demo_conn :: "bytes \<Rightarrow> (message list) conn" where
  "demo_conn inp = \<lparr> c_state = StGreeting, c_helo = [], c_from = [], c_rcpt = [], c_declared = 0, c_size_set = False,
     c_tls = False, c_authed = False, c_end = [], c_in = inp, c_in_end = ReadEOF, c_out = [], c_writes = [], c_idle = [],
     c_clock = [], c_notes = [], c_spec = demo_smtp, c_env = [], c_gate = new_gate, c_sink = [] \<rparr>"

definition demo_dialogue :: bytes where
  "demo_dialogue = ''HELO m'' @ crlf @ ''MAIL FROM:<>'' @ crlf @ ''RCPT TO:<c>'' @ crlf @ ''DATA'' @ crlf
     @ ''..'' @ crlf @ ''.'' @ crlf"

lemma demo_notes:
  "c_notes (serve_conn demo_server None (demo_conn demo_dialogue)) = [\<lparr> n_result = ''accepted'', n_code = 250, n_id = ''0'' \<rparr>]"
  by code_simp

definition demo_greeted :: "(message list) conn" where
  "demo_greeted = (case acquire None (sm_admission (c_spec (demo_conn demo_dialogue))) (c_gate (demo_conn demo_dialogue)) of
     Inl _ \<Rightarrow> demo_conn [] | Inr g \<Rightarrow> the (greeted (new_session ((demo_conn demo_dialogue) \<lparr> c_gate := g \<rparr>))))"

definition demo_read :: "(message list) conn" where
  "demo_read = snd (read_command (snd (set_idle demo_greeted)))"

lemma demo_first_cmd:
  "serve_cmd demo_server None (demo_conn demo_dialogue) demo_read ''HELO'' ''m'' (snd (dispatch demo_server ''HELO'' ''m'' demo_read))"
proof -
  have "case acquire None (sm_admission (c_spec (demo_conn demo_dialogue))) (c_gate (demo_conn demo_dialogue)) of
      Inl _ \<Rightarrow> False | Inr g \<Rightarrow> \<not> Option.is_none (greeted (new_session ((demo_conn demo_dialogue) \<lparr> c_gate := g \<rparr>)))"
    by code_simp
  then obtain g c1 where g: "acquire None (sm_admission (c_spec (demo_conn demo_dialogue))) (c_gate (demo_conn demo_dialogue)) = Inr g"
    and c1: "greeted (new_session ((demo_conn demo_dialogue) \<lparr> c_gate := g \<rparr>)) = Some c1"
    by (auto split: sum.splits simp: Option.is_none_def)
  have d: "demo_greeted = c1" using g c1 by (simp add: demo_greeted_def)
  have si: "fst (set_idle demo_greeted) = IdleOk" by code_simp
  have rd: "fst (read_command (snd (set_idle demo_greeted))) = Inr ''HELO m''" by code_simp
  have sv: "split_verb ''HELO m'' = (''HELO'', ''m'')" by code_simp
  have "run_cmd demo_server demo_greeted demo_read ''HELO'' ''m'' (snd (dispatch demo_server ''HELO'' ''m'' demo_read))"
    by (rule run_here[of _ "snd (set_idle demo_greeted)" "''HELO m''" _ _ _ _ "fst (dispatch demo_server ''HELO'' ''m'' demo_read)"])
      (use si rd sv in \<open>simp_all add: demo_read_def prod_eq_iff\<close>)
  then show ?thesis unfolding serve_cmd_def using g c1 d by blast
qed

section \<open>The session's properties\<close>

text \<open>C4. The invariant of the session, at every command of every connection, whatever the client
  sends and whatever the rest of the server does meanwhile: the greeting state is exactly the
  absence of a HELO name, no sender or recipient outlives its transaction, the state after MAIL has
  no recipient and the state after RCPT has one, and nobody is authenticated before saying HELO.\<close>

theorem session_invariant:
  assumes "serve_cmd e a c x verb arg y"
  shows "(c_state x = StGreeting \<longleftrightarrow> c_helo x = [])
     \<and> (c_state x = StGreeting \<or> c_state x = StHelloed \<longrightarrow> c_from x = [] \<and> c_rcpt x = [])
     \<and> (c_state x = StMail \<longrightarrow> c_rcpt x = []) \<and> (c_state x = StRcpt \<longrightarrow> c_rcpt x \<noteq> [])
     \<and> (c_authed x \<longrightarrow> c_helo x \<noteq> []) \<and> session_ok y"
  using serve_cmd_ok[OF assms] by (simp add: session_ok_def)

lemma accepted_provenance_holds:
  assumes "n \<in> set (c_notes (serve_conn e a c))" "n \<notin> set (c_notes c)" "n_result n = ''accepted''"
  shows "\<exists>x arg y. serve_cmd e a c x ''DATA'' arg y \<and> accepted_by e x n"
proof -
  obtain g where g: "acquire a (sm_admission (c_spec c)) (c_gate c) = Inr g"
    using assms by (auto simp: serve_conn_def split: sum.splits)
  let ?c = "new_session (c \<lparr> c_gate := g \<rparr>)"
  have n: "n \<in> set (c_notes (session_run e ?c))" using assms(1) g by (simp add: serve_conn_def Let_def)
  have nc: "n \<notin> set (c_notes ?c)" using assms(2) by (simp add: new_session_def)
  show ?thesis
  proof (cases "greeted ?c")
    case None
    then show ?thesis using session_run_greeted(2)[OF None, of e] n nc by (simp add: kept_def)
  next
    case (Some c1)
    have "c_notes c1 = c_notes ?c" using greeted_kept[OF Some] by (simp add: kept_def)
    then show ?thesis
      using run_loop_accepted[of n e c1] n nc assms(3) session_run_greeted(1)[OF Some, of e] g Some
      unfolding serve_cmd_def by metis
  qed
qed

text \<open>C1. Where an accepted message comes from: every acceptance a connection reports was made by a
  DATA command of that connection, dispatched after RCPT with at least one recipient and with the
  TLS and authentication policy of the live spec met; it is a successful insertion into the sink,
  whose result is the sink that command leaves, under the epoch captured when DATA began, of the message parsed from the unstuffed body lines on
  the wire, within the message limit, with that transaction's sender and recipients, and the
  reported id is the one the sink gave.\<close>

theorem accepted_provenance:
  assumes "n \<in> set (c_notes (serve_conn e a c))" "n \<notin> set (c_notes c)" "n_result n = ''accepted''"
  shows "\<exists>x arg y. serve_cmd e a c x ''DATA'' arg y \<and> accepted_by e x n"
  using assms by (rule accepted_provenance_holds)

theorem session_invariant_witness:
  "session_ok (snd (dispatch demo_server ''HELO'' ''m'' demo_read)) \<and> c_from demo_read = [] \<and> c_rcpt demo_read = []"
proof -
  have "c_state demo_read = StGreeting" by code_simp
  with session_invariant[OF demo_first_cmd] show ?thesis by blast
qed

theorem accepted_provenance_witness:
  "\<exists>x arg y. serve_cmd demo_server None (demo_conn demo_dialogue) x ''DATA'' arg y
     \<and> accepted_by demo_server x \<lparr> n_result = ''accepted'', n_code = 250, n_id = ''0'' \<rparr>"
  by (rule accepted_provenance) (simp_all only: demo_notes, simp_all add: demo_conn_def)

text \<open>C9. Transaction policy: a sender or a recipient is recorded only when the live spec's TLS and
  authentication policy is met at that moment; a recipient is only ever appended, and never beyond
  the spec's limit; a declared size over the message limit is refused.\<close>

theorem transaction_policy:
  assumes "dispatch e verb arg c = (k, c')"
  shows "(c_from c' \<noteq> c_from c \<and> c_from c' \<noteq> [] \<longrightarrow> verb = ''MAIL'' \<and> c_state c = StHelloed \<and> policy_met c
            \<and> (c_size_set c' \<longrightarrow> c_declared c' \<le> sm_max_message_bytes (c_spec c)))
     \<and> (c_rcpt c' \<noteq> c_rcpt c \<and> c_rcpt c' \<noteq> [] \<longrightarrow> verb = ''RCPT'' \<and> (c_state c = StMail \<or> c_state c = StRcpt) \<and> policy_met c
            \<and> (\<exists>path. c_rcpt c' = c_rcpt c @ [path]) \<and> int (length (c_rcpt c')) \<le> sm_max_recipients (c_spec c))"
proof -
  have same: ?thesis if "c_from c' = c_from c \<or> c_from c' = []" "c_rcpt c' = c_rcpt c \<or> c_rcpt c' = []"
    using that by blast
  from assms show ?thesis
  proof (cases rule: dispatch_cases)
    case (hello eh)
    then show ?thesis using same cmd_hello_shape[OF hello] by (auto simp: kept_def)
  next
    case mail
    from cmd_mail_shape[OF mail(2)] show ?thesis
    proof (elim disjE conjE exE)
      assume "kept c c'" then show ?thesis by (intro same) (simp_all add: kept_def)
    next
      fix path sz st
      assume h: "c_state c = StHelloed" "\<not> tls_required_cleartext c"
        "sa_mode (sm_auth (c_spec c)) = ''plain_login'' \<longrightarrow> c_authed c" "st \<longrightarrow> sz \<le> sm_max_message_bytes (c_spec c)"
        "kept (c \<lparr> c_from := path, c_declared := sz, c_size_set := st, c_rcpt := [], c_state := StMail \<rparr>) c'"
      then have "policy_met c" "c_rcpt c' = []" "c_size_set c' = st" "c_declared c' = sz"
        by (simp_all add: policy_met_def kept_def)
      then show ?thesis using h(1,4) mail(1) by simp
    qed
  next
    case rcpt
    from cmd_rcpt_shape[OF rcpt(2)] show ?thesis
    proof (elim disjE[of "kept c c'"] conjE exE)
      assume "kept c c'" then show ?thesis by (intro same) (simp_all add: kept_def)
    next
      fix path
      assume h: "c_state c = StMail \<or> c_state c = StRcpt" "\<not> tls_required_cleartext c"
        "sa_mode (sm_auth (c_spec c)) = ''plain_login'' \<longrightarrow> c_authed c"
        "int (length (c_rcpt c)) < sm_max_recipients (c_spec c)"
        "kept (c \<lparr> c_rcpt := c_rcpt c @ [path], c_state := StRcpt \<rparr>) c'"
      then have "policy_met c" "c_rcpt c' = c_rcpt c @ [path]" "c_from c' = c_from c"
        by (simp_all add: policy_met_def kept_def)
      then show ?thesis using h(1,4) rcpt(1) by simp
    qed
  next
    case data
    show ?thesis by (intro same cmd_data_ended[OF data(2)])
  next
    case rset
    then show ?thesis using same cmd_rset_shape[OF rset] by (auto simp: kept_def)
  next
    case auth
    then show ?thesis using same cmd_auth_outcome[OF auth(2)] auth_outcome_fields by metis
  next
    case tls
    then show ?thesis using same cmd_starttls_shape[OF tls(2)] by (auto simp: steady_def reset_after_tls_def reset_txn_def)
  next
    case other
    then show ?thesis by (intro same) (simp_all add: kept_def)
  qed
qed

theorem data_transparency_witness:
  "\<exists>c'. read_data 1000 (demo_conn (wire_body [''.x'', ''y''] @ ''.'' @ crlf @ ''QUIT'' @ crlf)) = (Inr (plain_body [''.x'', ''y'']), c')
     \<and> c_in c' = ''QUIT'' @ crlf"
proof -
  let ?ls = "[''.x'', ''y'']"
  have "idle_ok (demo_conn inp)" "c_in (demo_conn inp) = inp" for inp by (simp_all add: demo_conn_def idle_ok_def)
  moreover have "\<forall>l \<in> set ?ls. body_line l" by (simp add: body_line_def stuff_def MaxDataLine_def)
  moreover have "int (length (plain_body ?ls)) \<le> 1000" by simp
  ultimately show ?thesis
    using data_transparency[of "demo_conn (wire_body ?ls @ ''.'' @ crlf @ ''QUIT'' @ crlf)" ?ls "''QUIT'' @ crlf" 1000]
    by simp
qed

theorem data_soundness_witness:
  "int (length (''x'' @ crlf)) \<le> 1000 \<and> (\<exists>ws fin. c_in (demo_conn (''x'' @ [LF] @ ''.'' @ [LF])) = concat ws @ fin
     \<and> line_text fin = ''.'' \<and> ''x'' @ crlf = plain_body (map (fst \<circ> unstuff \<circ> line_text) ws))"
proof -
  let ?r = "read_data 1000 (demo_conn (''x'' @ [LF] @ ''.'' @ [LF]))"
  have "fst ?r = Inr (''x'' @ crlf)" and i: "c_in (snd ?r) = []" by code_simp+
  then have r: "?r = (Inr (''x'' @ crlf), snd ?r)" by (metis prod.collapse)
  from data_soundness[OF r] i show ?thesis by auto
qed

definition demo_helloed :: "bytes \<Rightarrow> (message list) conn" where
  "demo_helloed inp = (demo_conn inp) \<lparr> c_state := StHelloed, c_helo := ''m'' \<rparr>"

theorem transaction_policy_witness:
  "c_from (snd (dispatch demo_server ''MAIL'' ''FROM:<a>'' (demo_helloed []))) = ''a'' \<and> policy_met (demo_helloed [])"
proof -
  have a: "c_from (snd (dispatch demo_server ''MAIL'' ''FROM:<a>'' (demo_helloed []))) = ''a''" by code_simp
  then show ?thesis
    using transaction_policy[of demo_server "''MAIL''" "''FROM:<a>''" "demo_helloed []", OF prod.collapse[symmetric]]
    by (simp add: demo_helloed_def demo_conn_def)
qed

section \<open>Authentication and TLS\<close>

lemma dispatch_authed:
  assumes d: "dispatch e verb arg c = (k, c')" and n: "\<not> c_authed c" "c_authed c'"
  shows "verb = ''AUTH'' \<and> cmd_auth e arg c = (k, c')"
proof -
  have same: False if "c_authed c' \<longleftrightarrow> c_authed c" using that n by simp
  from d show ?thesis
  proof (cases rule: dispatch_cases)
    case (hello eh)
    then show ?thesis using same cmd_hello_shape[OF hello] by (auto simp: kept_def)
  next
    case mail
    then show ?thesis using same cmd_mail_shape[OF mail(2)] by (auto simp: kept_def)
  next
    case rcpt
    then show ?thesis using same cmd_rcpt_shape[OF rcpt(2)] by (auto simp: kept_def)
  next
    case data
    show ?thesis using same cmd_data_ended(2)[OF data(2)] by blast
  next
    case rset
    then show ?thesis using same cmd_rset_shape[OF rset] by (auto simp: kept_def)
  next
    case auth
    then show ?thesis by simp
  next
    case tls
    then show ?thesis using same n cmd_starttls_shape[OF tls(2)] by (auto simp: steady_def reset_after_tls_def)
  next
    case other
    then show ?thesis using same by (simp add: kept_def)
  qed
qed

text \<open>C7. Authentication: a session becomes authenticated only by an AUTH command after HELO, on a
  spec that offers it and, where TLS is required, on an encrypted connection; and only when the
  client presented, in the command's argument or in lines of its own, exactly the user name and
  password the spec and its password file named at the moment of the decision.\<close>

theorem auth_only_by_credentials:
  assumes "dispatch e verb arg c = (k, c')" "\<not> c_authed c" "c_authed c'"
  shows "verb = ''AUTH'' \<and> c_state c = StHelloed \<and> \<not> tls_required_cleartext c
    \<and> sa_mode (sm_auth (c_spec c)) = ''plain_login''
    \<and> (\<exists>c1 u w. steady c c1 \<and> credentials e c1 = Some (u, w) \<and> auth_presented arg (c_in c) u w)"
proof -
  note d = dispatch_authed[OF assms]
  have o: "auth_outcome (auth_presented arg (c_in c)) e c c'"
    and s: "c_state c = StHelloed" "\<not> tls_required_cleartext c" "sa_mode (sm_auth (c_spec c)) = ''plain_login''"
    using cmd_auth_outcome d assms(2,3) by blast+
  have "\<not> steady c c'" using assms(2,3) by (simp add: steady_def)
  with o show ?thesis using d s unfolding auth_outcome_def by blast
qed

definition demo_auth_conn :: "bytes \<Rightarrow> (message list) conn" where
  "demo_auth_conn inp = (demo_helloed inp)
     \<lparr> c_spec := demo_smtp \<lparr> sm_auth := \<lparr> sa_mode = ''plain_login'', sa_username = ''u'', sa_password_file = ''f'' \<rparr> \<rparr> \<rparr>"

theorem auth_only_by_credentials_witness:
  "c_authed (snd (dispatch demo_server ''AUTH'' ''PLAIN AHUAcHc='' (demo_auth_conn [])))
   \<and> (\<exists>c1 u w. steady (demo_auth_conn []) c1 \<and> credentials demo_server c1 = Some (u, w)
        \<and> auth_presented ''PLAIN AHUAcHc='' (c_in (demo_auth_conn [])) u w)"
proof -
  have a: "c_authed (snd (dispatch demo_server ''AUTH'' ''PLAIN AHUAcHc='' (demo_auth_conn [])))" by code_simp
  have n: "\<not> c_authed (demo_auth_conn [])" by (simp add: demo_auth_conn_def demo_helloed_def demo_conn_def)
  from auth_only_by_credentials[OF prod.collapse[symmetric] n a] a show ?thesis by blast
qed

lemma dispatch_tls:
  assumes "dispatch e verb arg c = (k, c')" and n: "\<not> c_tls c" "c_tls c'"
  shows "verb = ''STARTTLS'' \<and> cmd_starttls e c = (k, c')"
  using assms(1)
proof (cases rule: dispatch_cases)
  case (hello eh)
  then show ?thesis using n cmd_hello_shape[OF hello] by (auto simp: kept_def)
next
  case mail
  then show ?thesis using n cmd_mail_shape[OF mail(2)] by (auto simp: kept_def)
next
  case rcpt
  then show ?thesis using n cmd_rcpt_shape[OF rcpt(2)] by (auto simp: kept_def)
next
  case data
  then show ?thesis using n cmd_data_ended(3)[OF data(2)] by simp
next
  case rset
  then show ?thesis using n cmd_rset_shape[OF rset] by (auto simp: kept_def)
next
  case auth
  have "calm c c'" using cmd_auth_outcome[OF auth(2)] auth_outcome_fields by blast
  then show ?thesis using n by (simp add: calm_def)
next
  case tls
  then show ?thesis by simp
next
  case other
  then show ?thesis using n by (simp add: kept_def)
qed

lemma cmd_starttls_mode:
  "cmd_starttls e c = (k, c') \<Longrightarrow> \<not> c_tls c \<Longrightarrow> c_tls c' \<Longrightarrow> tl_mode (sm_tls (c_spec c)) = ''starttls''"
  by (auto simp: cmd_starttls_def Let_def split: if_splits)

lemma reset_after_tls_fields:
  "c_state (reset_after_tls c) = StGreeting" "c_helo (reset_after_tls c) = []" "\<not> c_authed (reset_after_tls c)"
  "c_from (reset_after_tls c) = []" "c_rcpt (reset_after_tls c) = []" "c_declared (reset_after_tls c) = 0"
  "\<not> c_size_set (reset_after_tls c)" "c_in (reset_after_tls c) = c_in c" "c_in_end (reset_after_tls c) = c_in_end c"
  by (simp_all add: reset_after_tls_def reset_txn_def)

text \<open>C8. STARTTLS: a connection becomes encrypted only by a STARTTLS command on a spec that offers it,
  after a handshake over the bytes then unread; what it reads afterwards is only what the handshake
  produced (nothing sent in the clear survives), and the session is as new: no HELO name, no
  authentication, no transaction.  It is never undone.\<close>

theorem starttls_resets:
  assumes "dispatch e verb arg c = (k, c')"
  shows "(c_tls c \<longrightarrow> c_tls c') \<and> (\<not> c_tls c \<and> c_tls c' \<longrightarrow> verb = ''STARTTLS'' \<and> c_state c = StHelloed
    \<and> tl_mode (sm_tls (c_spec c)) = ''starttls''
    \<and> (\<exists>c3. steady c c3 \<and> e_handshake e (c_in c3) = Some (c_in c', c_in_end c'))
    \<and> c_state c' = StGreeting \<and> c_helo c' = [] \<and> \<not> c_authed c' \<and> c_from c' = [] \<and> c_rcpt c' = []
    \<and> c_declared c' = 0 \<and> \<not> c_size_set c')"
proof (cases "\<not> c_tls c \<and> c_tls c'")
  case False
  then show ?thesis using dispatch_progress[OF assms] by (auto simp: progress_def calm_def)
next
  case True
  then have d: "verb = ''STARTTLS''" "cmd_starttls e c = (k, c')" using dispatch_tls[OF assms] by auto
  have "\<not> steady c c'" using True by (auto simp: steady_def calm_def)
  with cmd_starttls_shape[OF d(2)] obtain c3 plain fin where
    h: "c_state c = StHelloed" "e_handshake e (c_in c3) = Some (plain, fin)" "steady c c3"
       "c' = reset_after_tls (c3 \<lparr> c_in := plain, c_in_end := fin \<rparr>)" by blast
  then have "e_handshake e (c_in c3) = Some (c_in c', c_in_end c')" by (simp add: reset_after_tls_fields)
  then show ?thesis using d h True cmd_starttls_mode[OF d(2)] by (auto simp: reset_after_tls_fields)
qed

definition demo_tls_conn :: "bytes \<Rightarrow> (message list) conn" where
  "demo_tls_conn inp = (demo_helloed inp)
     \<lparr> c_spec := demo_smtp \<lparr> sm_tls := \<lparr> tl_mode = ''starttls'', tl_required = True, tl_cert_file = ''c'', tl_key_file = ''k'' \<rparr> \<rparr> \<rparr>"

theorem starttls_resets_witness:
  "c_tls (snd (dispatch demo_server ''STARTTLS'' [] (demo_tls_conn ''x'')))
   \<and> c_helo (snd (dispatch demo_server ''STARTTLS'' [] (demo_tls_conn ''x''))) = []"
proof -
  have a: "c_tls (snd (dispatch demo_server ''STARTTLS'' [] (demo_tls_conn ''x'')))" by code_simp
  have n: "\<not> c_tls (demo_tls_conn ''x'')" by (simp add: demo_tls_conn_def demo_helloed_def demo_conn_def)
  from starttls_resets[of demo_server "''STARTTLS''" "[]" "demo_tls_conn ''x''", OF prod.collapse[symmetric]] a n
  show ?thesis by blast
qed

section \<open>The admission gate stays balanced\<close>

definition gate_sane :: "gate \<Rightarrow> bool" where
  "gate_sane g \<longleftrightarrow> 0 \<le> g_sessions g \<and> 0 \<le> g_inflight g \<and> 0 \<le> g_reserved g \<and> g_reserved g \<le> max_int64
     \<and> (\<forall>a n. g_per_ip g a = Some n \<longrightarrow> 0 < n)"

lemma wrap64_add_sub: "min_int64 \<le> r \<Longrightarrow> r \<le> max_int64 \<Longrightarrow> wrap64 (wrap64 (r + n) - n) = r"
proof -
  assume r: "min_int64 \<le> r" "r \<le> max_int64"
  have "(wrap64 (r + n) - n + 9223372036854775808) mod 18446744073709551616
      = ((r + n + 9223372036854775808) mod 18446744073709551616 - n) mod 18446744073709551616"
    by (simp add: wrap64_def)
  also have "\<dots> = (r + 9223372036854775808) mod 18446744073709551616"
    by (simp add: mod_diff_left_eq)
  finally have "wrap64 (wrap64 (r + n) - n) = wrap64 r" unfolding wrap64_def by simp
  then show ?thesis using r by simp
qed

lemma release_after_reserve:
  assumes "reserve_data n ad g = Inr g'" "gate_sane g"
  shows "release_data n g' = g"
proof -
  let ?n = "if n < 0 then 0 else n"
  have g': "g' = g \<lparr> g_inflight := g_inflight g + 1, g_reserved := wrap64 (g_reserved g + ?n) \<rparr>"
    using assms(1) by (auto simp: reserve_data_def Let_def split: if_splits)
  have "wrap64 (wrap64 (g_reserved g + ?n) - ?n) = g_reserved g"
    using assms(2) by (intro wrap64_add_sub) (auto simp: gate_sane_def min_int64_def)
  then show ?thesis using assms(2) unfolding g' release_data_def Let_def by (simp add: gate_sane_def)
qed

lemma release_after_acquire:
  assumes "acquire a ad g = Inr g'" "gate_sane g"
  shows "release a g' = g"
proof (cases a)
  case None
  then show ?thesis using assms by (auto simp: acquire_def release_def gate_sane_def split: if_splits)
next
  case (Some x)
  have g': "g' = g \<lparr> g_sessions := g_sessions g + 1, g_per_ip := (g_per_ip g)(x \<mapsto> ip_count g x + 1) \<rparr>"
    using assms(1) Some by (simp add: acquire_def split: if_splits)
  have pos: "0 < n" if "g_per_ip g x = Some n" for n using assms(2) that by (simp add: gate_sane_def)
  have m: "(if ip_count g x \<le> 0 then (g_per_ip g)(x := None) else (g_per_ip g)(x \<mapsto> ip_count g x)) = g_per_ip g"
    using pos by (cases "g_per_ip g x") (fastforce simp: ip_count_def intro!: ext)+
  have "release a g' = g \<lparr> g_sessions := g_sessions g,
      g_per_ip := (if ip_count g x \<le> 0 then (g_per_ip g)(x := None) else (g_per_ip g)(x \<mapsto> ip_count g x)) \<rparr>"
    using assms(2) Some unfolding g'
    by (simp add: release_def ip_count_def[of "_ \<lparr> g_per_ip := _ \<rparr>"] gate_sane_def Let_def)
  then show ?thesis unfolding m by simp
qed

lemma acquire_sane:
  assumes "acquire a ad g = Inr g'" "gate_sane g"
  shows "gate_sane g'"
proof -
  note s = acquire_shape[OF assms(1)]
  have "0 < n" if "g_per_ip g' x = Some n" for x n
  proof (cases "a = Some x")
    case True
    have "0 \<le> ip_count g x" using assms(2) by (auto simp: ip_count_def gate_sane_def less_imp_le split: option.splits)
    then show ?thesis using s True that by auto
  next
    case False
    then show ?thesis using s that assms(2) by (auto simp: gate_sane_def)
  qed
  then show ?thesis using s assms(2) by (simp add: gate_sane_def)
qed

definition balanced :: "'s conn \<Rightarrow> 's conn \<Rightarrow> bool" where
  "balanced c c' \<longleftrightarrow> (c_env c = [] \<longrightarrow> gate_sane (c_gate c) \<longrightarrow> c_env c' = [] \<and> c_gate c' = c_gate c)"

lemma quiet_balanced: "quiet c c' \<Longrightarrow> balanced c c'"
  by (simp add: quiet_def balanced_def)

lemma balanced_trans: "balanced c c1 \<Longrightarrow> balanced c1 c2 \<Longrightarrow> balanced c c2"
  by (simp add: balanced_def)

lemma kept_balanced: "kept c c' \<Longrightarrow> balanced c c'"
  by (intro quiet_balanced kept_quiet)

lemma steady_balanced: "steady c c' \<Longrightarrow> balanced c c'"
  by (intro quiet_balanced steadyD(8))

lemma dispatch_balanced:
  assumes "dispatch e verb arg c = (k, c')"
  shows "balanced c c'"
  using assms
proof (cases rule: dispatch_cases)
  case (hello eh)
  then show ?thesis using cmd_hello_shape[OF hello] by (auto simp: kept_def balanced_def)
next
  case mail
  then show ?thesis using cmd_mail_shape[OF mail(2)] by (auto simp: kept_def balanced_def)
next
  case rcpt
  then show ?thesis using cmd_rcpt_shape[OF rcpt(2)] by (auto simp: kept_def balanced_def)
next
  case data
  from cmd_data_shape[OF data(2)] show ?thesis
  proof (elim disjE conjE exE)
    assume "kept c c'" then show ?thesis by (rule kept_balanced)
  next
    fix g c3 assume b: "data_body e (e_epoch e (c_sink c)) (sm_max_message_bytes (c_spec c)) (c \<lparr> c_gate := g \<rparr>) = (k, c3)"
      "c' = c3 \<lparr> c_gate := release_data (reserve_bytes (c_declared c) (c_size_set c) (sm_max_message_bytes (c_spec c))) (c_gate c3) \<rparr>"
      "reserve_data (reserve_bytes (c_declared c) (c_size_set c) (sm_max_message_bytes (c_spec c))) (sm_admission (c_spec c)) (c_gate c) = Inr g"
    have "quiet (c \<lparr> c_gate := g \<rparr>) c3" using data_body_shape[OF b(1)] by (simp add: data_ended_def)
    then show ?thesis using b(2,3) release_after_reserve by (simp add: balanced_def quiet_def)
  qed
next
  case rset
  then show ?thesis using cmd_rset_shape[OF rset] by (auto simp: kept_def balanced_def)
next
  case auth
  have "quiet c c'" using cmd_auth_outcome[OF auth(2)] auth_outcome_fields by blast
  then show ?thesis by (rule quiet_balanced)
next
  case tls
  from cmd_starttls_shape[OF tls(2)] show ?thesis
    by (auto simp: steady_def quiet_def balanced_def reset_after_tls_def)
next
  case other
  then show ?thesis by (rule kept_balanced)
qed

lemma run_loop_balanced: "balanced c (run_loop e c)"
proof (induction e c rule: run_loop.induct)
  case (1 e c)
  show ?case
  proof (cases rule: run_loop_cases[of c e])
    case stop
    then show ?thesis by (rule steady_balanced)
  next
    case (cmd c1 line c2 verb arg k c3)
    have b: "balanced c c3"
      using balanced_trans[OF steady_balanced[OF cmd(5)] dispatch_balanced[OF cmd(4)]] .
    show ?thesis
    proof (cases k)
      case True
      have "balanced c3 (run_loop e c3)"
        using "1.IH"[OF cmd(1)[symmetric] refl _ cmd(2)[symmetric] refl cmd(3)[symmetric] refl cmd(4)[symmetric] refl True] by simp
      then show ?thesis using b cmd(6) True balanced_trans by simp
    next
      case False
      then show ?thesis using b cmd(6) by simp
    qed
  qed
qed

text \<open>C10. No connection leaks admission: for every client input, every failure of a write, a deadline
  or a handshake, and every verdict of the sink, a connection gives back exactly what it took from
  the gate, counters and byte budget, and leaves it as it found it.\<close>

theorem gate_balanced:
  assumes "gate_sane (c_gate c)" "c_env c = []"
  shows "c_gate (serve_conn e a c) = c_gate c"
proof (cases "acquire a (sm_admission (c_spec c)) (c_gate c)")
  case (Inl err)
  then show ?thesis by (simp add: serve_conn_def)
next
  case (Inr g)
  let ?c = "new_session (c \<lparr> c_gate := g \<rparr>)"
  have sane: "gate_sane g"
    using acquire_sane[OF Inr assms(1)] .
  have c: "c_env ?c = []" "c_gate ?c = g" using assms(2) by (simp_all add: new_session_def)
  have "c_gate (session_run e ?c) = g"
  proof (cases "greeted ?c")
    case None
    then show ?thesis using session_run_greeted(2)[OF None, of e] c by (simp add: kept_def)
  next
    case (Some c1)
    have "c_env c1 = []" "c_gate c1 = g" using greeted_kept[OF Some] c by (simp_all add: kept_def)
    then show ?thesis using run_loop_balanced[of c1 e] sane session_run_greeted(1)[OF Some, of e]
      by (simp add: balanced_def)
  qed
  then show ?thesis using release_after_acquire[OF Inr assms(1)] by (simp add: serve_conn_def Inr Let_def)
qed

theorem gate_balanced_witness:
  "c_gate (serve_conn demo_server (Some ''192.0.2.9'') (demo_conn demo_dialogue)) = new_gate"
proof -
  have "gate_sane (c_gate (demo_conn demo_dialogue))" "c_env (demo_conn demo_dialogue) = []"
    by (simp_all add: gate_sane_def demo_conn_def new_gate_def max_int64_def)
  from gate_balanced[OF this, of demo_server "Some ''192.0.2.9''"] show ?thesis by (simp add: demo_conn_def)
qed

section \<open>An overlong body line\<close>

lemma cut_found_prefix: "LF \<notin> set w \<Longrightarrow> cut LF (w @ LF # rest) = (w, rest, True)"
  by (rule cut_append)

text \<open>C13. When the first line of a body is longer than the limit, DATA ends with 500 but not the session:
  the connection is kept, the transaction is dropped, nothing reaches the sink, and the rest of the
  body is what the server reads next, as commands.  This is stated for a server without an override
  of the DATA reply and without a verb to close after, and a client that takes the replies.\<close>

theorem long_line_leaves_body:
  assumes "c_in c = w @ LF # rest" "LF \<notin> set w" "MaxDataLine \<le> length w"
    and "idle_ok c" "c_writes c = []" "reply_override (sm_behavior (c_spec c)) ''DATA'' = []"
    and "bh_close_after_verb (sm_behavior (c_spec c)) = []"
  shows "\<exists>c'. data_body e epoch mx c = (True, c') \<and> c_in c' = rest \<and> c_rcpt c' = [] \<and> c_from c' = []
    \<and> c_notes c' = c_notes c \<and> last (c_out c') = (500, [''5.5.2 Line too long''])"
proof -
  obtain c1 where r: "reply_keyed ''DATA'' 354 [''Start mail input; end with <CRLF>.<CRLF>''] c = (True, c1)"
    using assms(5-7) by (simp add: reply_keyed_def reply_def close_after_def Let_def trim_space_def trim_by_def
        trim_left_by_def trim_right_by_def to_upper_def)
  have k1: "kept c c1" using reply_keyed_kept[OF r] .
  have i1: "idle_ok c1" "c_in c1 = w @ LF # rest" using k1 assms(1,4) by (simp_all add: kept_def idle_ok_def)
  obtain c2 where s2: "set_idle c1 = (IdleOk, c2)" "idle_ok c2" "c_in c2 = c_in c1" using set_idle_ok[OF i1(1)] by metis
  obtain c3 where s3: "set_idle c2 = (IdleOk, c3)" "idle_ok c3" "c_in c3 = c_in c2" using set_idle_ok[OF s2(2)] by metis
  have "read_data_line fin (c_in c3) = (Inl LineTooLong, rest)" for fin
    using assms(2,3) s2 s3 i1 MaxDataLine_ge
    by (simp add: read_data_line_def read_line_meets_spec read_line_spec_def cut_found_prefix)
  then have rd3: "read_data_conn c3 = (Inl LineTooLong, (env_step c3) \<lparr> c_in := rest \<rparr>)"
    by (simp add: read_data_conn_def Let_def)
  let ?c4 = "(env_step c3) \<lparr> c_in := rest \<rparr>"
  have rd: "read_data mx c1 = (Inl (DataRead LineTooLong), ?c4)"
    using s2 s3 rd3 by (simp add: read_data_def read_data_loop.simps[of mx])
  have st: "steady c ?c4"
    using steady_trans[OF kept_steady[OF k1] read_data_steady[OF rd]] .
  let ?c' = "reset_to_helloed (say 500 ''5.5.2 Line too long'' ?c4)"
  have "data_body e epoch mx c = (True, ?c')"
    using r rd by (simp add: data_body_def data_failed_def)
  moreover have "c_notes ?c4 = c_notes c" using st steadyD(4) by blast
  ultimately show ?thesis by simp
qed

definition long_line :: bytes where
  "long_line = replicate 8192 (CHR ''x'')"

theorem long_line_leaves_body_witness:
  "\<exists>c'. data_body demo_server 1 1000 (demo_conn (long_line @ LF # ''RSET'' @ crlf)) = (True, c')
     \<and> c_in c' = ''RSET'' @ crlf \<and> c_rcpt c' = [] \<and> c_from c' = []
     \<and> c_notes c' = c_notes (demo_conn (long_line @ LF # ''RSET'' @ crlf))
     \<and> last (c_out c') = (500, [''5.5.2 Line too long''])"
proof (rule long_line_leaves_body)
  let ?c = "demo_conn (long_line @ LF # ''RSET'' @ crlf)"
  show "c_in ?c = long_line @ LF # ''RSET'' @ crlf" "c_writes ?c = []" "idle_ok ?c"
    by (simp_all add: demo_conn_def idle_ok_def)
  show "LF \<notin> set long_line" by (simp add: long_line_def)
  show "MaxDataLine \<le> length long_line" by (simp add: long_line_def MaxDataLine_def)
  show "reply_override (sm_behavior (c_spec ?c)) ''DATA'' = []" "bh_close_after_verb (sm_behavior (c_spec ?c)) = []"
    by (simp_all add: demo_conn_def) code_simp+
qed

end
