(* ===== verification/Sinks.thy ===== *)
theory Sinks
  imports Inbox_Inv Smtp_Props
begin

text \<open>
  The sink interface of \<^verbatim>\<open>internal/store/sink.go\<close>, which is all the SMTP side knows of a store,
  stated as a locale with the one law the session relies on: an insert succeeds only under the
  current epoch, and only a wipe moves the epoch, forward.  Its two implementations, the memory
  store and the null sink of \<^verbatim>\<open>null.go\<close>, are shown to provide it, and the session is run against
  both.
\<close>

declare split_paired_All [simp del] split_paired_Ex [simp del]

section \<open>The interface\<close>

datatype sink_call = InsertMail nat message | WipeMail

locale sink =
  fixes epoch :: "'s \<Rightarrow> nat"
    and insert :: "nat \<Rightarrow> message \<Rightarrow> 's \<Rightarrow> (store_error + insert_result) \<times> 's"
    and wipe :: "'s \<Rightarrow> 's"
  assumes insert_current: "insert ep msg s = (Inr res, s') \<Longrightarrow> ep = epoch s"
    and insert_keeps: "insert ep msg s = (r, s') \<Longrightarrow> epoch s' = epoch s"
    and wipe_advances: "epoch s < epoch (wipe s)"
begin

primrec call :: "'s \<Rightarrow> sink_call \<Rightarrow> 's" where
  "call s (InsertMail ep msg) = snd (insert ep msg s)"
| "call s WipeMail = wipe s"

definition calls :: "sink_call list \<Rightarrow> 's \<Rightarrow> 's" where
  "calls cs s = foldl call s cs"

lemma call_mono: "epoch s \<le> epoch (call s c)"
  using insert_keeps wipe_advances by (cases c) (auto simp: less_imp_le, metis eq_imp_le prod.collapse)

lemma calls_mono: "epoch s \<le> epoch (calls cs s)"
proof (induction cs arbitrary: s)
  case (Cons c cs)
  then show ?case using call_mono order_trans by (fastforce simp: calls_def)
qed (simp add: calls_def)

lemma wipe_between: "WipeMail \<in> set cs \<Longrightarrow> epoch s < epoch (calls cs s)"
proof -
  assume "WipeMail \<in> set cs"
  then obtain a b where cs: "cs = a @ WipeMail # b" by (meson split_list)
  have "epoch s \<le> epoch (calls a s)" by (rule calls_mono)
  also have "\<dots> < epoch (wipe (calls a s))" by (rule wipe_advances)
  also have "\<dots> \<le> epoch (calls b (wipe (calls a s)))" by (rule calls_mono)
  finally show ?thesis by (simp add: cs calls_def)
qed

text \<open>The client's lemma: an insert under a captured epoch fails once a wipe came in between.\<close>

lemma stale_insert_fails:
  assumes "WipeMail \<in> set cs"
  shows "\<exists>e. fst (insert (epoch s) msg (calls cs s)) = Inl e"
proof -
  have "epoch s \<noteq> epoch (calls cs s)" using wipe_between[OF assms, of s] by simp
  then show ?thesis using insert_current by (metis old.sum.exhaust prod.collapse)
qed

end

section \<open>The memory store as a sink\<close>

text \<open>The store with the number of inserts so far, which indexes the clock and the ULIDs it draws.\<close>

definition mem_insert ::
  "io \<Rightarrow> (bytes \<Rightarrow> message) \<Rightarrow> (nat \<Rightarrow> int) \<Rightarrow> (nat \<Rightarrow> bytes) \<Rightarrow> nat \<Rightarrow> message \<Rightarrow> inbox \<times> nat
    \<Rightarrow> (store_error + insert_result) \<times> inbox \<times> nat" where
  "mem_insert io parse nows ids ep msg s =
     (let (r, m') = memory_insert io parse (nows (snd s)) (ids (snd s)) False ep (Some msg) (fst s)
      in (r, m', Suc (snd s)))"

definition mem_epoch :: "inbox \<times> nat \<Rightarrow> nat" where
  "mem_epoch s = ib_epoch (fst s)"

definition mem_wipe :: "io \<Rightarrow> inbox \<times> nat \<Rightarrow> inbox \<times> nat" where
  "mem_wipe io s = (wipe io (fst s), snd s)"

lemma insert_begin_epoch:
  "insert_begin io parse now mid cd ep msg m = (r, m') \<Longrightarrow> ib_epoch m' = ib_epoch m
     \<and> (\<forall>pd. r = Inr pd \<longrightarrow> pd_epoch pd = ep \<and> (\<exists>m0. msg = Some m0 \<and> pd_msg pd = prepare_message parse now mid m0))"
  by (auto simp: insert_begin_def Let_def split: if_splits option.splits sum.splits prod.splits)

lemma insert_commit_epoch: "ib_epoch (snd (insert_commit io pd m)) = ib_epoch m"
  by (auto simp: insert_commit_def evict_until_fits_def Let_def split: option.splits prod.splits if_splits)

lemma insert_commit_indexed:
  assumes "insert_commit io pd m = (Inr res, m')"
  shows "pd_epoch pd = ib_epoch m \<and> ir_id res = msg_id (pd_msg pd)
    \<and> (\<exists>r. lookup (ib_by_id m') (ir_id res) = Some r \<and> msg_envelope (r_msg r) = msg_envelope (pd_msg pd)
          \<and> msg_size (r_msg r) = msg_size (pd_msg pd))"
proof -
  let ?r0 = "\<lparr> r_msg = pd_msg pd, r_resident = pd_candidate pd, r_raw_spill = None, r_att_spill = [] \<rparr>"
  obtain er r job d where c: "commit_spill io ?r0 (pd_job pd) (ib_disk m) = (er, r, job, d)" by (metis prod.exhaust)
  obtain ee m1 where ev: "evict_until_fits io (pd_candidate pd) (m \<lparr> ib_disk := d \<rparr>) = (ee, m1)" by fastforce
  have "pd_epoch pd = ib_epoch m \<and> ir_id res = msg_id (pd_msg pd) \<and> lookup (ib_by_id m') (ir_id res) = Some r"
    using assms c ev by (auto simp: insert_commit_def Let_def split: if_splits option.splits)
  then show ?thesis using commit_spill_keeps[OF c] by auto
qed

lemma memory_insert_ok:
  assumes "memory_insert io parse now mid False ep (Some msg) m = (Inr res, m')"
  shows "ep = ib_epoch m \<and> ib_epoch m' = ib_epoch m \<and> ir_id res = mid
    \<and> (\<exists>r. lookup (ib_by_id m') mid = Some r \<and> msg_envelope (r_msg r) = msg_envelope msg
          \<and> msg_size (r_msg r) = int (length (msg_raw (apply_parse parse msg))))"
proof -
  obtain pd m1 where b: "insert_begin io parse now mid False ep (Some msg) m = (Inr pd, m1)"
    and c: "insert_commit io pd m1 = (Inr res, m')"
    using assms by (auto simp: memory_insert_def split: sum.splits prod.splits)
  note ib = insert_begin_epoch[OF b]
  have p: "pd_msg pd = prepare_message parse now mid msg" "pd_epoch pd = ep" "ib_epoch m1 = ib_epoch m" using ib by auto
  have pf: "msg_id (pd_msg pd) = mid" "msg_envelope (pd_msg pd) = msg_envelope msg"
    "msg_size (pd_msg pd) = int (length (msg_raw (apply_parse parse msg)))"
    by (simp_all add: p(1) prepare_message_def apply_parse_def Let_def)
  show ?thesis
    using insert_commit_indexed[OF c] insert_commit_epoch[of io pd m1] c pf p(2,3) by auto
qed

lemma memory_insert_epoch:
  assumes "memory_insert io parse now mid cd ep msg m = (r, m')"
  shows "ib_epoch m' = ib_epoch m"
proof -
  obtain q m1 where b: "insert_begin io parse now mid cd ep msg m = (q, m1)" by fastforce
  have "m' = m1 \<or> (\<exists>pd. m' = snd (insert_commit io pd m1))"
    using assms b by (cases q) (simp_all add: memory_insert_def, metis snd_conv)
  then show ?thesis using insert_begin_epoch[OF b] insert_commit_epoch by auto
qed

interpretation mem: sink mem_epoch "mem_insert io parse nows ids" "mem_wipe io"
  for io parse nows ids
proof (unfold_locales, goal_cases)
  case (1 ep msg s res s')
  then show ?case
    by (auto simp: mem_insert_def mem_epoch_def split: prod.splits dest: memory_insert_ok)
next
  case (2 ep msg s r s')
  then show ?case
    by (auto simp: mem_insert_def mem_epoch_def split: prod.splits dest: memory_insert_epoch)
next
  case (3 s)
  then show ?case by (simp add: mem_epoch_def mem_wipe_def wipe_def clear_inbox_def Let_def)
qed

section \<open>The null sink\<close>

record null_sink =
  ns_epoch :: nat
  ns_seq :: nat

definition new_null :: null_sink where
  "new_null = \<lparr> ns_epoch = 1, ns_seq = 0 \<rparr>"

definition null_insert :: "bool \<Rightarrow> nat \<Rightarrow> message option \<Rightarrow> null_sink \<Rightarrow> (store_error + insert_result) \<times> null_sink" where
  "null_insert ctx_done ep msg n =
     (if ctx_done then (Inl ErrCtx, n)
      else case msg of
          None \<Rightarrow> (Inl (ErrOther ''nil message''), n)
        | Some _ \<Rightarrow>
            if ep \<noteq> ns_epoch n then (Inl ErrStaleEpoch, n)
            else let n1 = n \<lparr> ns_seq := Suc (ns_seq n) \<rparr>
                 in (Inr \<lparr> ir_id = ''null-'' @ nat_str (ns_seq n1), ir_generation = 0 \<rparr>, n1))"

definition null_wipe :: "null_sink \<Rightarrow> null_sink" where
  "null_wipe n = n \<lparr> ns_epoch := Suc (ns_epoch n) \<rparr>"

interpretation null: sink ns_epoch "\<lambda>ep msg. null_insert False ep (Some msg)" null_wipe
  by unfold_locales (auto simp: null_insert_def null_wipe_def Let_def split: if_splits)

section \<open>Properties\<close>

text \<open>Both sinks keep the contract the SMTP side relies on: whatever inserts and wipes happen
  after DATA captured the epoch, if one of them is a wipe the insert under that epoch fails, in the
  memory store and in the null sink alike, so no mail crosses a reset.\<close>

lemma no_insert_across_wipe:
  assumes "WipeMail \<in> set cs"
  shows "(\<exists>e. fst (mem_insert io parse nows ids (mem_epoch s) msg (foldl (\<lambda>s c. case c of
              InsertMail ep m \<Rightarrow> snd (mem_insert io parse nows ids ep m s) | WipeMail \<Rightarrow> mem_wipe io s) s cs)) = Inl e)
    \<and> (\<exists>e. fst (null_insert False (ns_epoch n) (Some msg) (foldl (\<lambda>n c. case c of
              InsertMail ep m \<Rightarrow> snd (null_insert False ep (Some m) n) | WipeMail \<Rightarrow> null_wipe n) n cs)) = Inl e)"
proof -
  have m: "mem.call io parse nows ids = (\<lambda>s c. case c of
              InsertMail ep m \<Rightarrow> snd (mem_insert io parse nows ids ep m s) | WipeMail \<Rightarrow> mem_wipe io s)"
    by (intro ext) (simp split: sink_call.split)
  have n: "null.call = (\<lambda>n c. case c of
              InsertMail ep m \<Rightarrow> snd (null_insert False ep (Some m) n) | WipeMail \<Rightarrow> null_wipe n)"
    by (intro ext) (simp split: sink_call.split)
  show ?thesis
    using mem.stale_insert_fails[OF assms, where io = io and s = s and parse = parse and nows = nows and ids = ids and msg = msg]
      null.stale_insert_fails[OF assms, of n msg]
    by (simp add: mem.calls_def null.calls_def m n)
qed

theorem no_insert_across_wipe_witness:
  "\<exists>e. fst (null_insert False 1 (Some empty_message) (null_wipe (snd (null_insert False 1 (Some empty_message) new_null)))) = Inl e"
  using no_insert_across_wipe[of "[InsertMail 1 empty_message, WipeMail]" undefined undefined undefined undefined undefined
      empty_message new_null]
  by (simp add: new_null_def)

text \<open>The server over the memory store.\<close>

definition memory_server ::
  "io \<Rightarrow> (nat \<Rightarrow> int) \<Rightarrow> (nat \<Rightarrow> bytes) \<Rightarrow> (inbox \<times> nat) surroundings \<Rightarrow> (inbox \<times> nat) surroundings" where
  "memory_server io nows ids e = e \<lparr> e_epoch := mem_epoch, e_insert := mem_insert io (e_parse e) nows ids \<rparr>"

text \<open>C18. From the wire to the inbox: whatever the client sends and the rest of the server does, every
  acceptance a connection to a server over the memory store reports is an entry of the inbox that the
  DATA command leaves in that very run, put there by a successful insertion under the reported id, with
  the sender, recipients and HELO name of that command's transaction; and the epoch of that inbox is the
  one DATA began with, so that no wipe came in between.\<close>

theorem accepted_is_stored:
  assumes "n \<in> set (c_notes (serve_conn (memory_server io nows ids e) a c))" "n \<notin> set (c_notes c)"
    "n_result n = ''accepted''"
  shows "\<exists>x arg y r. serve_cmd (memory_server io nows ids e) a c x ''DATA'' arg y \<and> c_rcpt x \<noteq> []
    \<and> lookup (ib_by_id (fst (c_sink y))) (n_id n) = Some r
    \<and> env_from (msg_envelope (r_msg r)) = c_from x \<and> env_to (msg_envelope (r_msg r)) = c_rcpt x
    \<and> env_helo (msg_envelope (r_msg r)) = c_helo x
    \<and> ib_epoch (fst (c_sink y)) = ib_epoch (fst (c_sink x))
    \<and> (\<exists>msg m at res. memory_insert io (e_parse e) at (n_id n) False (ib_epoch (fst (c_sink x))) (Some msg) m
         = (Inr res, fst (c_sink y)))"
proof -
  let ?e = "memory_server io nows ids e"
  obtain x arg y where x: "serve_cmd ?e a c x ''DATA'' arg y" "accepted_by ?e x n"
    using accepted_provenance_holds[OF assms] by blast
  then obtain c3 raw now res s' where
    c3: "c_helo c3 = c_helo x" "c_from c3 = c_from x" "c_rcpt c3 = c_rcpt x" and ne: "c_rcpt x \<noteq> []"
    and ins: "e_insert ?e (e_epoch ?e (c_sink x)) (data_message ?e c3 raw now) (c_sink c3) = (Inr res, s')"
    and sk: "c_sink (snd (cmd_data ?e x)) = s'"
    and n: "n = \<lparr> n_result = ''accepted'', n_code = 250, n_id = ir_id res \<rparr>"
    unfolding accepted_by_def by blast
  have "dispatch ?e ''DATA'' arg x = (fst (dispatch ?e ''DATA'' arg x), y)" using serve_cmd_ok[OF x(1)] by blast
  then have y: "c_sink y = s'" using sk by (metis dispatch_data snd_conv)
  let ?k = "snd (c_sink c3)" and ?msg = "data_message ?e c3 raw now"
  have mi: "memory_insert io (e_parse e) (nows ?k) (ids ?k) False (ib_epoch (fst (c_sink x))) (Some ?msg) (fst (c_sink c3))
      = (Inr res, fst (c_sink y))"
    using ins unfolding y by (cases s') (auto simp: memory_server_def mem_insert_def mem_epoch_def split: prod.splits)
  obtain r where r: "lookup (ib_by_id (fst (c_sink y))) (ids ?k) = Some r" "msg_envelope (r_msg r) = msg_envelope ?msg"
    "ib_epoch (fst (c_sink y)) = ib_epoch (fst (c_sink x))" "ir_id res = ids ?k"
    using memory_insert_ok[OF mi] by auto
  have k: "ids ?k = n_id n" using n r(4) by simp
  have "env_from (msg_envelope ?msg) = c_from x" "env_to (msg_envelope ?msg) = c_rcpt x" "env_helo (msg_envelope ?msg) = c_helo x"
    using c3 by (simp_all add: data_message_def)
  then show ?thesis using x(1) ne r(1-3) mi unfolding k by metis
qed

definition demo_store :: inbox where
  "demo_store = (case new_memory good_io \<lparr> o_max_messages = 3, o_max_bytes = 1000, o_full_policy = ''reject'',
      o_max_wait = 0, o_spill_dir = [], o_spill_threshold = 0 \<rparr> [] of Inr m \<Rightarrow> m)"

definition demo_memory_conn :: "(inbox \<times> nat) conn" where
  "demo_memory_conn = \<lparr> c_state = StGreeting, c_helo = [], c_from = [], c_rcpt = [], c_declared = 0, c_size_set = False,
     c_tls = False, c_authed = False, c_end = [], c_in = demo_dialogue, c_in_end = ReadEOF, c_out = [], c_writes = [], c_idle = [],
     c_clock = [], c_notes = [], c_spec = demo_smtp, c_env = [], c_gate = new_gate, c_sink = (demo_store, 0) \<rparr>"

definition demo_memory_server :: "(inbox \<times> nat) surroundings" where
  "demo_memory_server = \<lparr> e_epoch = mem_epoch, e_insert = (\<lambda>ep m s. (Inl ErrCtx, s)),
     e_parse = (\<lambda>raw. empty_message \<lparr> msg_raw := raw \<rparr>), e_remote = ''192.0.2.1'',
     e_handshake = (\<lambda>inp. None), e_key_pair = (\<lambda>c k. False), e_file = (\<lambda>p. None) \<rparr>"

lemma demo_memory_notes:
  "c_notes (serve_conn (memory_server good_io (\<lambda>k. 5) (\<lambda>k. ''id'' @ nat_str k) demo_memory_server) None demo_memory_conn)
     = [\<lparr> n_result = ''accepted'', n_code = 250, n_id = ''id0'' \<rparr>]"
  by code_simp

theorem accepted_is_stored_witness:
  "\<exists>(x :: (inbox \<times> nat) conn) (y :: (inbox \<times> nat) conn) (r :: stored). c_rcpt x \<noteq> []
    \<and> lookup (ib_by_id (fst (c_sink y))) ''id0'' = Some r \<and> env_to (msg_envelope (r_msg r)) = c_rcpt x"
proof -
  let ?n = "\<lparr> n_result = ''accepted'', n_code = 250, n_id = ''id0'' \<rparr>"
  have "?n \<in> set (c_notes (serve_conn (memory_server good_io (\<lambda>k. 5) (\<lambda>k. ''id'' @ nat_str k) demo_memory_server) None demo_memory_conn))"
    unfolding demo_memory_notes by simp
  moreover have "?n \<notin> set (c_notes demo_memory_conn)" by (simp add: demo_memory_conn_def)
  ultimately obtain x y :: "(inbox \<times> nat) conn" and r :: stored where
    "lookup (ib_by_id (fst (c_sink y))) (n_id ?n) = Some r" "c_rcpt x \<noteq> []" "env_to (msg_envelope (r_msg r)) = c_rcpt x"
    using accepted_is_stored[of ?n good_io "\<lambda>k. 5" "\<lambda>k. ''id'' @ nat_str k" demo_memory_server None demo_memory_conn]
    by (auto simp del: append.simps)
  then show ?thesis by auto
qed

end
