(* ===== verification/Smtp_Server.thy ===== *)
theory Smtp_Server
  imports Gate Smtp_Args
begin

text \<open>
  The life of the SMTP listener (\<^verbatim>\<open>smtp/server/server.go\<close>): it is made, started, accepts connections in a loop of
  its own, serves each in a goroutine, and is shut down.  Each critical section is a step; what the sockets
  answer, and the order of the goroutines, is any.  A connection's session itself is \<open>Smtp_Run\<close>; of it, here,
  only the slot it holds and the budget it reserves are seen.  The snapshot store is the document it holds.
\<close>

section \<open>The server\<close>

text \<open>A goroutine that serves a connection: spawned; admitted with a slot of its address; leaving, to close
  the socket and forget it; or forgotten, and about to be done.\<close>

datatype conn_phase = Spawned | Admitted ip | Leaving | Forgotten

text \<open>The accept loop: not there; in \<^verbatim>\<open>Accept\<close> with its backoff in nanoseconds; with a connection in hand; ended.\<close>

datatype accept_loop = NoLoop | InAccept int | InHand nat | LoopEnded

datatype shutdown_call = NotCalled | ClosingConns bool "nat list" | WaitingDone | Returned bool

record smtp_server =
  sr_address :: bytes
  sr_spec :: smtp_spec
  sr_snapshot :: "smtp_spec option"
  sr_gate :: gate
  sr_bound :: bool
  sr_open :: bool
  sr_started :: bool
  sr_stopped :: bool
  sr_conns :: "nat list"
  sr_wait :: nat
  sr_loop :: accept_loop
  sr_live :: "(nat \<times> conn_phase) list"
  sr_closed :: "nat list"
  sr_shutdown :: shutdown_call

definition new_server :: "bytes \<Rightarrow> smtp_spec \<Rightarrow> smtp_spec option \<Rightarrow> bytes + smtp_server" where
  "new_server addr spec snap =
     (if addr = [] then Inl ''smtp/server: Address is required''
      else case reject_unimplemented spec of
          Some m \<Rightarrow> Inl m
        | None \<Rightarrow> Inr \<lparr> sr_address = addr, sr_spec = with_spec_defaults spec, sr_snapshot = snap, sr_gate = new_gate, sr_bound = False,
            sr_open = False, sr_started = False, sr_stopped = False, sr_conns = [], sr_wait = 0, sr_loop = NoLoop, sr_live = [],
            sr_closed = [], sr_shutdown = NotCalled \<rparr>)"

definition swap_spec :: "smtp_spec \<Rightarrow> smtp_server \<Rightarrow> bytes option \<times> smtp_server" where
  "swap_spec spec s = (case reject_unimplemented spec of
       Some m \<Rightarrow> (Some m, s) | None \<Rightarrow> (None, s \<lparr> sr_spec := with_spec_defaults spec \<rparr>))"

definition spec_now :: "smtp_server \<Rightarrow> smtp_spec" where
  "spec_now s = (case sr_snapshot s of Some spec \<Rightarrow> with_spec_defaults spec | None \<Rightarrow> sr_spec s)"

definition accept_backoff_min :: int where "accept_backoff_min = 5000000"
definition accept_backoff_max :: int where "accept_backoff_max = 200000000"

text \<open>\<open>bind\<close> is the answer of \<^verbatim>\<open>net.Listen\<close>.\<close>

definition server_start :: "bytes option \<Rightarrow> smtp_server \<Rightarrow> bytes option \<times> smtp_server" where
  "server_start bind s =
     (if sr_started s then (Some ''smtp/server: already started'', s)
      else if sr_stopped s then (Some ''smtp/server: start after shutdown'', s)
      else case bind of
          Some m \<Rightarrow> (Some (''smtp/server: listen: '' @ m), s)
        | None \<Rightarrow> (None, s \<lparr> sr_bound := True, sr_open := True, sr_started := True, sr_wait := sr_wait s + 1,
            sr_loop := InAccept accept_backoff_min \<rparr>))"

definition server_accepting :: "smtp_server \<Rightarrow> bool" where
  "server_accepting s = (sr_started s \<and> \<not> sr_stopped s \<and> sr_bound s)"

text \<open>\<open>closed\<close> says whether the error is \<^verbatim>\<open>net.ErrClosed\<close>.\<close>

definition accept_should_stop :: "bool \<Rightarrow> bytes \<Rightarrow> bool" where
  "accept_should_stop closed text = (closed \<or> contains ''use of closed network connection'' text)"

definition loop_done :: "smtp_server \<Rightarrow> smtp_server" where
  "loop_done s = s \<lparr> sr_loop := LoopEnded, sr_wait := sr_wait s - 1 \<rparr>"

definition accept_error :: "bool \<Rightarrow> bytes \<Rightarrow> int \<Rightarrow> smtp_server \<Rightarrow> smtp_server" where
  "accept_error closed text backoff s =
     (if sr_stopped s \<or> accept_should_stop closed text then loop_done s
      else s \<lparr> sr_loop := InAccept (if backoff < accept_backoff_max then min (backoff * 2) accept_backoff_max else backoff) \<rparr>)"

definition accept_register :: "nat \<Rightarrow> smtp_server \<Rightarrow> smtp_server" where
  "accept_register c s =
     (if sr_stopped s then loop_done (s \<lparr> sr_closed := c # sr_closed s \<rparr>)
      else s \<lparr> sr_conns := c # sr_conns s, sr_wait := sr_wait s + 1, sr_live := (c, Spawned) # sr_live s,
        sr_loop := InAccept accept_backoff_min \<rparr>)"

definition live_set :: "nat \<Rightarrow> conn_phase \<Rightarrow> (nat \<times> conn_phase) list \<Rightarrow> (nat \<times> conn_phase) list" where
  "live_set c p live = map (\<lambda>(d, q). (d, if d = c then p else q)) live"

definition set_phase :: "nat \<Rightarrow> conn_phase \<Rightarrow> smtp_server \<Rightarrow> smtp_server" where
  "set_phase c p s = s \<lparr> sr_live := live_set c p (sr_live s) \<rparr>"

definition conn_admit :: "nat \<Rightarrow> ip \<Rightarrow> smtp_server \<Rightarrow> smtp_server" where
  "conn_admit c a s = (case acquire a (sm_admission (spec_now s)) (sr_gate s) of
       Inl er \<Rightarrow> set_phase c Leaving s
     | Inr g \<Rightarrow> set_phase c (Admitted a) (s \<lparr> sr_gate := g \<rparr>))"

definition conn_end :: "nat \<Rightarrow> ip \<Rightarrow> smtp_server \<Rightarrow> smtp_server" where
  "conn_end c a s = set_phase c Leaving (s \<lparr> sr_gate := release a (sr_gate s) \<rparr>)"

definition conn_forget :: "nat \<Rightarrow> smtp_server \<Rightarrow> smtp_server" where
  "conn_forget c s = set_phase c Forgotten (s \<lparr> sr_closed := c # sr_closed s, sr_conns := removeAll c (sr_conns s) \<rparr>)"

definition conn_done :: "nat \<Rightarrow> smtp_server \<Rightarrow> smtp_server" where
  "conn_done c s = s \<lparr> sr_live := filter (\<lambda>(d, p). d \<noteq> c) (sr_live s), sr_wait := sr_wait s - 1 \<rparr>"

text \<open>Shutting down: a second call returns at once.  The first stops the server under its lock, closes the
  listener and the connections there were, and waits for every goroutine or for its context.\<close>

definition shutdown_begin :: "smtp_server \<Rightarrow> smtp_server" where
  "shutdown_begin s = (if sr_stopped s then s
     else s \<lparr> sr_stopped := True, sr_shutdown := ClosingConns (sr_bound s) (sr_conns s) \<rparr>)"

definition shutdown_close :: "smtp_server \<Rightarrow> smtp_server" where
  "shutdown_close s = (case sr_shutdown s of
       ClosingConns True cs \<Rightarrow> s \<lparr> sr_open := False, sr_shutdown := ClosingConns False cs \<rparr>
     | ClosingConns False (c # cs) \<Rightarrow> s \<lparr> sr_closed := c # sr_closed s, sr_shutdown := ClosingConns False cs \<rparr>
     | ClosingConns False [] \<Rightarrow> s \<lparr> sr_shutdown := WaitingDone \<rparr>
     | _ \<Rightarrow> s)"

section \<open>Its runs\<close>

inductive server_step :: "smtp_server \<Rightarrow> smtp_server \<Rightarrow> bool" where
  step_start: "server_step s (snd (server_start bind s))"
| step_swap: "server_step s (snd (swap_spec spec s))"
| step_apply: "server_step s (s \<lparr> sr_snapshot := snap \<rparr>)"
| step_accept: "\<lbrakk>sr_loop s = InAccept b; sr_open s; c \<notin> set (sr_closed s); c \<notin> fst ` set (sr_live s)\<rbrakk> \<Longrightarrow>
    server_step s (s \<lparr> sr_loop := InHand c \<rparr>)"
| step_accept_error: "sr_loop s = InAccept b \<Longrightarrow> server_step s (accept_error closed text b s)"
| step_register: "sr_loop s = InHand c \<Longrightarrow> server_step s (accept_register c s)"
| step_admit: "(c, Spawned) \<in> set (sr_live s) \<Longrightarrow> server_step s (conn_admit c a s)"
| step_reserve: "\<lbrakk>(c, Admitted a) \<in> set (sr_live s); reserve_data n ad (sr_gate s) = Inr g\<rbrakk> \<Longrightarrow> server_step s (s \<lparr> sr_gate := g \<rparr>)"
| step_release: "(c, Admitted a) \<in> set (sr_live s) \<Longrightarrow> server_step s (s \<lparr> sr_gate := release_data n (sr_gate s) \<rparr>)"
| step_end: "(c, Admitted a) \<in> set (sr_live s) \<Longrightarrow> server_step s (conn_end c a s)"
| step_forget: "(c, Leaving) \<in> set (sr_live s) \<Longrightarrow> server_step s (conn_forget c s)"
| step_done: "(c, Forgotten) \<in> set (sr_live s) \<Longrightarrow> server_step s (conn_done c s)"
| step_shutdown: "server_step s (shutdown_begin s)"
| step_closing: "server_step s (shutdown_close s)"
| step_returned: "sr_shutdown s = WaitingDone \<Longrightarrow> sr_wait s = 0 \<Longrightarrow> server_step s (s \<lparr> sr_shutdown := Returned True \<rparr>)"
| step_gave_up: "sr_shutdown s = WaitingDone \<Longrightarrow> server_step s (s \<lparr> sr_shutdown := Returned False \<rparr>)"

inductive server_run :: "smtp_server \<Rightarrow> bool" where
  run_new: "new_server addr spec snap = Inr s \<Longrightarrow> server_run s"
| run_step: "server_run s \<Longrightarrow> server_step s s1 \<Longrightarrow> server_run s1"

section \<open>The invariant\<close>

definition loop_alive :: "smtp_server \<Rightarrow> bool" where
  "loop_alive s = (case sr_loop s of InAccept b \<Rightarrow> True | InHand c \<Rightarrow> True | _ \<Rightarrow> False)"

definition slots :: "conn_phase \<Rightarrow> ip list" where
  "slots p = (case p of Admitted a \<Rightarrow> [a] | _ \<Rightarrow> [])"

definition held :: "(nat \<times> conn_phase) list \<Rightarrow> ip multiset" where
  "held live = mset (concat (map (\<lambda>(c, p). slots p) live))"

definition remembered :: "(nat \<times> conn_phase) list \<Rightarrow> nat set" where
  "remembered live = {c. \<exists>p. (c, p) \<in> set live \<and> p \<noteq> Forgotten}"

definition to_close :: "smtp_server \<Rightarrow> nat list" where
  "to_close s = (case sr_shutdown s of ClosingConns b cs \<Rightarrow> cs | _ \<Rightarrow> [])"

definition live_ok :: "(nat \<times> conn_phase) list \<Rightarrow> nat list \<Rightarrow> gate \<Rightarrow> bool" where
  "live_ok live conns g \<longleftrightarrow> distinct (map fst live) \<and> set conns = remembered live \<and> counts_ok g (held live)"

definition stop_ok :: "smtp_server \<Rightarrow> bool" where
  "stop_ok s \<longleftrightarrow>
     (\<not> sr_started s \<longrightarrow> sr_loop s = NoLoop \<and> sr_live s = []) \<and> (sr_started s \<longrightarrow> sr_bound s) \<and>
     (sr_stopped s \<longleftrightarrow> sr_shutdown s \<noteq> NotCalled) \<and>
     (sr_stopped s \<longrightarrow> set (sr_conns s) \<subseteq> set (sr_closed s) \<union> set (to_close s)) \<and>
     (\<forall>c. sr_loop s = InHand c \<longrightarrow> c \<notin> fst ` set (sr_live s)) \<and>
     (sr_shutdown s = Returned True \<longrightarrow> sr_wait s = 0) \<and>
     (sr_open s \<longrightarrow> sr_bound s \<and> (sr_shutdown s = NotCalled \<or> (\<exists>cs. sr_shutdown s = ClosingConns True cs)))"

definition server_inv :: "smtp_server \<Rightarrow> bool" where
  "server_inv s \<longleftrightarrow> live_ok (sr_live s) (sr_conns s) (sr_gate s) \<and> sr_wait s = (if loop_alive s then 1 else 0) + length (sr_live s) \<and> stop_ok s"

lemma live_set_frame [simp]:
  "map fst (live_set c p live) = map fst live" "fst ` set (live_set c p live) = fst ` set live" "length (live_set c p live) = length live"
  "live_set c p live = [] \<longleftrightarrow> live = []"
  by (induction live) (auto simp: live_set_def)

lemma live_set_held:
  assumes "distinct (map fst live)" "(c, q) \<in> set live"
  shows "held (live_set c p live) + mset (slots q) = held live + mset (slots p)"
  using assms
proof (induction live)
  case (Cons x live)
  obtain d r where x: "x = (d, r)" by (cases x)
  show ?case
  proof (cases "d = c")
    case True
    then have "r = q" "c \<notin> fst ` set live" using Cons.prems x by force+
    moreover have "live_set c p live = live" unfolding live_set_def
      using \<open>c \<notin> fst ` set live\<close> by (intro map_idI) (auto simp: image_iff)
    ultimately show ?thesis using True x by (simp add: held_def live_set_def)
  next
    case False
    then have "held (live_set c p live) + mset (slots q) = held live + mset (slots p)" using Cons x by simp
    then show ?thesis using False x by (simp add: held_def live_set_def add.assoc)
  qed
qed simp

lemma live_set_remembered:
  assumes "c \<in> fst ` set live"
  shows "remembered (live_set c p live) = (if p = Forgotten then remembered live - {c} else insert c (remembered live))"
proof -
  have m: "(d, q) \<in> set (live_set c p live) \<longleftrightarrow> (if d = c then q = p else (d, q) \<in> set live)" for d q
    using assms by (auto simp: live_set_def split: if_splits) force+
  show ?thesis by (auto simp: remembered_def m)
qed

lemma live_phase:
  assumes l: "live_ok live conns g" and c: "(c, q) \<in> set live" "q \<noteq> Forgotten" and p: "p \<noteq> Forgotten"
    and g: "counts_ok g1 (held (live_set c p live))"
  shows "live_ok (live_set c p live) conns g1"
proof -
  have "c \<in> remembered live" "c \<in> fst ` set live" using c by (auto simp: remembered_def intro: rev_image_eqI)
  then have "remembered (live_set c p live) = remembered live" using live_set_remembered p by (simp add: insert_absorb)
  then show ?thesis using l g by (simp add: live_ok_def)
qed

lemma live_forget:
  assumes l: "live_ok live conns g" and c: "(c, Leaving) \<in> set live"
  shows "live_ok (live_set c Forgotten live) (removeAll c conns) g"
proof -
  have f: "c \<in> fst ` set live" using c by force
  have "held (live_set c Forgotten live) = held live" using live_set_held[of live c Leaving Forgotten] l c by (simp add: slots_def live_ok_def)
  then show ?thesis using l by (simp add: live_ok_def live_set_remembered[OF f])
qed

lemma live_drop:
  assumes l: "live_ok live conns g" and c: "(c, Forgotten) \<in> set live"
  shows "live_ok (filter (\<lambda>(d, p). d \<noteq> c) live) conns g \<and> length (filter (\<lambda>(d, p). d \<noteq> c) live) + 1 = length live"
proof -
  have d: "distinct (map fst live)" using l by (simp add: live_ok_def)
  obtain xs ys where e: "live = xs @ (c, Forgotten) # ys" using c by (meson split_list)
  have n: "c \<notin> fst ` set xs" "c \<notin> fst ` set ys" using d e by auto
  have "filter (\<lambda>(d, p). d \<noteq> c) xs = xs" "filter (\<lambda>(d, p). d \<noteq> c) ys = ys"
    using n by (auto intro!: filter_True simp: image_iff)
  then have f: "filter (\<lambda>(d, p). d \<noteq> c) live = xs @ ys" using e by simp
  have "held (xs @ ys) = held live" using e by (simp add: held_def slots_def)
  moreover have "remembered (xs @ ys) = remembered live" using e by (auto simp: remembered_def)
  moreover have "distinct (map fst (xs @ ys))" using d e by auto
  ultimately have "live_ok (xs @ ys) conns g" using l by (simp add: live_ok_def)
  then show ?thesis using e f by simp
qed

lemma live_new:
  assumes "live_ok live conns g" "c \<notin> fst ` set live"
  shows "live_ok ((c, Spawned) # live) (c # conns) g"
proof -
  have "remembered ((c, Spawned) # live) = insert c (remembered live)" by (auto simp: remembered_def)
  moreover have "held ((c, Spawned) # live) = held live" by (simp add: held_def slots_def)
  ultimately show ?thesis using assms by (simp add: live_ok_def)
qed

lemma inv_stop: "server_inv s \<Longrightarrow> stop_ok s"
  by (simp add: server_inv_def)

lemma phase_inv:
  assumes inv: "server_inv s" and c: "(c, q) \<in> set (sr_live s)" "q \<noteq> Forgotten" and p: "p \<noteq> Forgotten"
    and g: "counts_ok g (held (live_set c p (sr_live s)))"
  shows "server_inv (set_phase c p (s \<lparr> sr_gate := g \<rparr>))"
proof -
  have "live_ok (live_set c p (sr_live s)) (sr_conns s) g" using live_phase[OF _ c p g] inv unfolding server_inv_def by blast
  moreover have "stop_ok (set_phase c p (s \<lparr> sr_gate := g \<rparr>))"
    using inv_stop[OF inv] by (simp add: stop_ok_def set_phase_def to_close_def)
  ultimately show ?thesis using inv by (simp add: server_inv_def set_phase_def loop_alive_def)
qed

lemma admit_inv:
  assumes inv: "server_inv s" and c: "(c, Spawned) \<in> set (sr_live s)"
  shows "server_inv (conn_admit c a s)"
proof -
  have d: "distinct (map fst (sr_live s))" and k: "counts_ok (sr_gate s) (held (sr_live s))"
    using inv by (auto simp: server_inv_def live_ok_def)
  note h = live_set_held[OF d c]
  show ?thesis
  proof (cases "acquire a (sm_admission (spec_now s)) (sr_gate s)")
    case (Inl er)
    have "held (live_set c Leaving (sr_live s)) = held (sr_live s)" using h[of Leaving] by (simp add: slots_def)
    then show ?thesis using phase_inv[OF inv c, of Leaving "sr_gate s"] k Inl by (simp add: conn_admit_def)
  next
    case (Inr g)
    have "held (live_set c (Admitted a) (sr_live s)) = add_mset a (held (sr_live s))"
      using h[of "Admitted a"] by (simp add: slots_def)
    then show ?thesis using phase_inv[OF inv c, of "Admitted a" g] acquire_ok_counts[OF Inr k] Inr by (simp add: conn_admit_def)
  qed
qed

lemma end_inv:
  assumes inv: "server_inv s" and c: "(c, Admitted a) \<in> set (sr_live s)"
  shows "server_inv (conn_end c a s)"
proof -
  have d: "distinct (map fst (sr_live s))" and k: "counts_ok (sr_gate s) (held (sr_live s))"
    using inv by (auto simp: server_inv_def live_ok_def)
  have h: "held (sr_live s) = add_mset a (held (live_set c Leaving (sr_live s)))"
    using live_set_held[OF d c, of Leaving] by (simp add: slots_def)
  have "counts_ok (release a (sr_gate s)) (held (live_set c Leaving (sr_live s)))"
    using release_counts[OF k, of a] by (simp add: h)
  then show ?thesis using phase_inv[OF inv c, of Leaving] by (simp add: conn_end_def)
qed

lemma forget_inv:
  assumes inv: "server_inv s" and c: "(c, Leaving) \<in> set (sr_live s)"
  shows "server_inv (conn_forget c s)"
proof -
  have "live_ok (live_set c Forgotten (sr_live s)) (removeAll c (sr_conns s)) (sr_gate s)"
    using live_forget[OF _ c] inv by (simp add: server_inv_def)
  moreover have "stop_ok (conn_forget c s)"
    using inv_stop[OF inv] by (auto simp: stop_ok_def conn_forget_def set_phase_def to_close_def)
  ultimately show ?thesis using inv by (simp add: server_inv_def conn_forget_def set_phase_def loop_alive_def)
qed

lemma done_inv:
  assumes inv: "server_inv s" and c: "(c, Forgotten) \<in> set (sr_live s)"
  shows "server_inv (conn_done c s)"
proof -
  let ?live = "filter (\<lambda>(d, p). d \<noteq> c) (sr_live s)"
  have l: "live_ok ?live (sr_conns s) (sr_gate s)" "length ?live + 1 = length (sr_live s)"
    using live_drop[OF _ c] inv by (auto simp: server_inv_def)
  have "stop_ok (conn_done c s)" using inv_stop[OF inv] by (auto simp: stop_ok_def conn_done_def to_close_def)
  then show ?thesis using inv l by (simp add: server_inv_def conn_done_def loop_alive_def)
qed

lemma loop_done_inv:
  assumes "server_inv s" "loop_alive s"
  shows "server_inv (loop_done (s \<lparr> sr_closed := cs @ sr_closed s \<rparr>))"
  using assms by (auto simp: server_inv_def stop_ok_def loop_done_def loop_alive_def to_close_def split: accept_loop.splits)

lemma accept_error_inv: "server_inv s \<Longrightarrow> sr_loop s = InAccept b \<Longrightarrow> server_inv (accept_error closed text b s)"
  using loop_done_inv[of s "[]"] by (auto simp: accept_error_def server_inv_def stop_ok_def loop_alive_def to_close_def)

lemma register_inv:
  assumes inv: "server_inv s" and l: "sr_loop s = InHand c"
  shows "server_inv (accept_register c s)"
proof (cases "sr_stopped s")
  case True
  then show ?thesis using loop_done_inv[OF inv, of "[c]"] l by (simp add: accept_register_def loop_alive_def)
next
  case False
  have new: "c \<notin> fst ` set (sr_live s)" using inv l by (simp add: server_inv_def stop_ok_def)
  have "live_ok ((c, Spawned) # sr_live s) (c # sr_conns s) (sr_gate s)" using live_new[OF _ new] inv by (simp add: server_inv_def)
  moreover have "sr_shutdown s = NotCalled" "sr_started s" using inv False l by (auto simp: server_inv_def stop_ok_def)
  then have "stop_ok (accept_register c s)" using inv l False by (auto simp: server_inv_def accept_register_def stop_ok_def to_close_def)
  ultimately show ?thesis using inv l False by (simp add: server_inv_def accept_register_def loop_alive_def)
qed

lemma close_inv: "server_inv s \<Longrightarrow> server_inv (shutdown_close s)"
proof -
  assume inv: "server_inv s"
  have l: "sr_live (shutdown_close s) = sr_live s" "sr_conns (shutdown_close s) = sr_conns s" "sr_gate (shutdown_close s) = sr_gate s"
    "sr_wait (shutdown_close s) = sr_wait s" "loop_alive (shutdown_close s) = loop_alive s"
    by (auto simp: shutdown_close_def loop_alive_def split: shutdown_call.split bool.split list.split)
  have st: "stop_ok s" using inv by (simp add: server_inv_def)
  consider cs where "sr_shutdown s = ClosingConns True cs" | c cs where "sr_shutdown s = ClosingConns False (c # cs)"
    | "sr_shutdown s = ClosingConns False []" | "shutdown_close s = s"
  proof (cases "sr_shutdown s")
    case (ClosingConns b cs)
    then show ?thesis using that(1-3) by (cases b; cases cs) auto
  qed (use that(4) in \<open>auto simp: shutdown_close_def\<close>)
  then have "stop_ok (shutdown_close s)"
  proof cases
    case 1
    then show ?thesis using st by (simp add: stop_ok_def shutdown_close_def to_close_def)
  next
    case 2
    then show ?thesis using st by (auto simp: stop_ok_def shutdown_close_def to_close_def)
  next
    case 3
    then show ?thesis using st by (simp add: stop_ok_def shutdown_close_def to_close_def)
  qed (simp add: st)
  then show ?thesis using inv by (simp add: server_inv_def l)
qed

lemma start_inv:
  assumes inv: "server_inv s"
  shows "server_inv (snd (server_start bind s))"
proof (cases "\<not> sr_started s \<and> \<not> sr_stopped s \<and> bind = None")
  case True
  then have "sr_loop s = NoLoop" "sr_live s = []" "sr_shutdown s = NotCalled" using inv_stop[OF inv] by (auto simp: stop_ok_def)
  then show ?thesis using True inv by (simp add: server_start_def server_inv_def stop_ok_def loop_alive_def)
next
  case False
  then show ?thesis using inv by (auto simp: server_start_def split: option.split)
qed

lemma shutdown_begin_inv:
  assumes inv: "server_inv s"
  shows "server_inv (shutdown_begin s)"
proof -
  have "stop_ok (shutdown_begin s)" using inv_stop[OF inv] by (auto simp: stop_ok_def shutdown_begin_def to_close_def)
  then show ?thesis using inv by (simp add: server_inv_def shutdown_begin_def loop_alive_def)
qed

lemma gate_inv: "server_inv s \<Longrightarrow> (\<And>S. counts_ok (sr_gate s) S \<Longrightarrow> counts_ok g S) \<Longrightarrow> server_inv (s \<lparr> sr_gate := g \<rparr>)"
proof -
  assume inv: "server_inv s" and g: "\<And>S. counts_ok (sr_gate s) S \<Longrightarrow> counts_ok g S"
  have "live_ok (sr_live s) (sr_conns s) g" using inv g by (simp add: server_inv_def live_ok_def)
  moreover have "stop_ok (s \<lparr> sr_gate := g \<rparr>)" using inv_stop[OF inv] by (simp add: stop_ok_def to_close_def)
  ultimately show ?thesis using inv by (simp add: server_inv_def loop_alive_def)
qed

lemma spec_inv [simp]: "server_inv (s \<lparr> sr_spec := x \<rparr>) = server_inv s" "server_inv (s \<lparr> sr_snapshot := y \<rparr>) = server_inv s"
  by (simp_all add: server_inv_def stop_ok_def loop_alive_def to_close_def)

lemma hand_inv:
  assumes inv: "server_inv s" and "sr_loop s = InAccept b" "c \<notin> fst ` set (sr_live s)"
  shows "server_inv (s \<lparr> sr_loop := InHand c \<rparr>)"
  using assms by (auto simp: server_inv_def stop_ok_def loop_alive_def to_close_def)

lemma waited_inv:
  "server_inv s \<Longrightarrow> sr_shutdown s = WaitingDone \<Longrightarrow> (r \<longrightarrow> sr_wait s = 0) \<Longrightarrow> server_inv (s \<lparr> sr_shutdown := Returned r \<rparr>)"
  by (auto simp: server_inv_def stop_ok_def loop_alive_def to_close_def)

lemma step_inv: "server_step s s1 \<Longrightarrow> server_inv s \<Longrightarrow> server_inv s1"
proof (induction rule: server_step.induct)
  case (step_swap s spec)
  then show ?case by (simp add: swap_spec_def split: option.splits)
next
  case (step_accept s b c)
  then show ?case using hand_inv by blast
next
  case (step_reserve c a s n ad g)
  show ?case by (rule gate_inv[OF step_reserve.prems reserve_counts[OF step_reserve.hyps(2)]])
next
  case (step_release c a s n)
  show ?case by (rule gate_inv[OF step_release.prems release_data_counts])
next
  case (step_returned s)
  then show ?case by (intro waited_inv) auto
next
  case (step_gave_up s)
  then show ?case by (intro waited_inv) auto
qed (simp_all add: start_inv accept_error_inv register_inv admit_inv end_inv forget_inv done_inv shutdown_begin_inv close_inv)

lemma run_inv: "server_run s \<Longrightarrow> server_inv s"
proof (induction rule: server_run.induct)
  case (run_new addr spec snap s)
  then show ?case
    by (auto simp: new_server_def server_inv_def stop_ok_def live_ok_def loop_alive_def to_close_def held_def remembered_def counts_ok_def
        new_gate_def ip_count_def split: if_splits option.splits)
qed (rule step_inv)

text \<open>A shutdown that reports success means it.  In every run of the listener - whatever connections come,
  whatever errors accepting meets, in whatever order the goroutines and the calls take their steps - the
  wait group counts exactly the accept loop and the connections served, and the gate's counters are the
  slots these hold.  Once a shutdown has begun no connection is registered that it does not close, the
  server is not accepting and cannot be started; and once one has returned without an error, the accept
  loop and every session have ended, every socket is forgotten, and every slot is free again.\<close>

lemma shutdown_complete:
  assumes "server_run s"
  shows "sr_wait s = (if loop_alive s then 1 else 0) + length (sr_live s) \<and> g_sessions (sr_gate s) = int (size (held (sr_live s))) \<and>
    (sr_stopped s \<longrightarrow> \<not> server_accepting s \<and> fst (server_start bind s) \<noteq> None \<and> set (sr_conns s) \<subseteq> set (sr_closed s) \<union> set (to_close s)) \<and>
    (sr_shutdown s = Returned True \<longrightarrow> \<not> loop_alive s \<and> sr_live s = [] \<and> sr_conns s = [] \<and> g_sessions (sr_gate s) = 0 \<and>
      ip_count (sr_gate s) addr = 0)"
proof -
  have inv: "live_ok (sr_live s) (sr_conns s) (sr_gate s)" "stop_ok s" "sr_wait s = (if loop_alive s then 1 else 0) + length (sr_live s)"
    using run_inv[OF assms] by (auto simp: server_inv_def)
  have e: "sr_shutdown s = Returned True \<Longrightarrow> sr_live s = [] \<and> \<not> loop_alive s" using inv(2,3) by (auto simp: stop_ok_def split: if_splits)
  have "sr_live s = [] \<Longrightarrow> sr_conns s = [] \<and> g_sessions (sr_gate s) = 0 \<and> ip_count (sr_gate s) addr = 0"
    using inv(1) by (simp add: live_ok_def held_def remembered_def counts_ok_def)
  moreover have "sr_stopped s \<Longrightarrow> \<not> server_accepting s \<and> fst (server_start bind s) \<noteq> None \<and>
      set (sr_conns s) \<subseteq> set (sr_closed s) \<union> set (to_close s)"
    using inv(2) by (auto simp: server_accepting_def server_start_def stop_ok_def)
  ultimately show ?thesis using inv e by (simp add: live_ok_def counts_ok_def)
qed

text \<open>A server that is started and shut down, its loop having met the closed listener.\<close>

lemma shutdown_complete_witness:
  "\<exists>s. sr_shutdown s = Returned True \<and> sr_started s \<and> sr_wait s = (if loop_alive s then 1 else 0) + length (sr_live s) \<and>
    \<not> loop_alive s \<and> sr_live s = [] \<and> g_sessions (sr_gate s) = 0"
proof -
  define spec :: smtp_spec where "spec = \<lparr> sm_hostname = [], sm_max_message_bytes = 0, sm_max_recipients = 0, sm_hide_extensions = [],
    sm_auth = \<lparr> sa_mode = [], sa_username = [], sa_password_file = [] \<rparr>,
    sm_tls = \<lparr> tl_mode = [], tl_required = False, tl_cert_file = [], tl_key_file = [] \<rparr>,
    sm_admission = \<lparr> adm_max_sessions = 0, adm_max_sessions_per_ip = 0, adm_max_in_flight_data = 0, adm_max_in_flight_data_bytes = 0,
      adm_session_timeout = 0, adm_command_idle = 0, adm_data_idle = 0 \<rparr>,
    sm_behavior = \<lparr> bh_greeting_delay = 0, bh_command_delay = 0, bh_drop_on_connect = False, bh_close_after_verb = [],
      bh_replies = \<lparr> ro_greeting = [], ro_helo = [], ro_ehlo = [], ro_mail = [], ro_rcpt = [], ro_data = [], ro_data_end = [], ro_rset = [],
        ro_noop = [], ro_vrfy = [], ro_auth = [], ro_starttls = [], ro_unknown = [] \<rparr> \<rparr> \<rparr>"
  define s0 where "s0 = projr (new_server ''x'' spec None)"
  define s1 where "s1 = snd (server_start None s0)"
  define s2 where "s2 = shutdown_close (shutdown_begin s1)"
  define s3 where "s3 = shutdown_close (accept_error True [] accept_backoff_min s2)"
  define s4 where "s4 = s3 \<lparr> sr_shutdown := Returned True \<rparr>"
  note defs = s4_def s3_def s2_def s1_def s0_def spec_def new_server_def reject_unimplemented_def server_start_def shutdown_begin_def
    shutdown_close_def accept_error_def accept_should_stop_def loop_done_def
  have "server_run s0" by (rule run_new[of "''x''" spec None]) (simp add: defs)
  from run_step[OF run_step[OF run_step[OF this step_start] step_shutdown] step_closing]
  have "server_run s2" unfolding s2_def s1_def .
  moreover have "sr_loop s2 = InAccept accept_backoff_min" by (simp add: defs)
  ultimately have "server_run s3" unfolding s3_def by (rule run_step[OF run_step[OF _ step_accept_error] step_closing])
  then have "server_run s4" unfolding s4_def by (rule run_step) (rule step_returned; simp add: defs)
  note all = shutdown_complete[OF this, of None "[]"]
  have "sr_shutdown s4 = Returned True" "sr_started s4" by (simp_all add: defs)
  with all show ?thesis by (intro exI[of _ s4]) (simp add: held_def)
qed

end
