(* ===== verification/Config_Values.thy ===== *)
theory Config_Values
  imports Prelude
begin

text \<open>
  The two scalar spellings of configuration documents: byte sizes with an IEC unit
  (\<^verbatim>\<open>internal/config/bytesize.go\<close>) and Go durations (\<^verbatim>\<open>internal/config/duration.go\<close>).  The values
  are \<^verbatim>\<open>int64\<close>; negation wraps at the smallest one, on which \<^verbatim>\<open>FormatDuration\<close> calls itself for ever,
  so it is a partial function here.
\<close>

section \<open>Byte sizes\<close>

definition kib :: int where "kib = 1024"
definition mib :: int where "mib = 1048576"
definition gib :: int where "gib = 1073741824"
definition tib :: int where "tib = 1099511627776"

lemmas size_units = kib_def mib_def gib_def tib_def

definition size_factor :: "bytes \<Rightarrow> int option" where
  "size_factor u = (let l = to_lower u in
     if l = ''b'' then Some 1 else if l = ''kib'' then Some kib else if l = ''mib'' then Some mib
     else if l = ''gib'' then Some gib else if l = ''tib'' then Some tib else None)"

definition parse_byte_size :: "bytes \<Rightarrow> bytes + int" where
  "parse_byte_size raw = (let s = trim_space raw; ds = takeWhile is_digit s; u = dropWhile is_digit s in
     if s = [] then Inl ''empty byte size''
     else if ds = [] \<or> u = [] then Inl ''byte size must use an IEC unit (for example 10MiB)''
     else case parse_int64 ds of
         None \<Rightarrow> Inl ''byte size integer overflow''
       | Some n \<Rightarrow> (case size_factor u of
             None \<Rightarrow> Inl ''byte size must use an IEC unit (B, KiB, MiB, GiB, TiB)''
           | Some f \<Rightarrow>
               if n < 0 then Inl ''byte size must be >= 0''
               else if f > 1 \<and> n > max_int64 div f then Inl ''byte size integer overflow''
               else Inr (n * f)))"

text \<open>The quotients are taken only where the unit divides the number, so that HOL's \<open>div\<close> is Go's.\<close>

definition format_byte_size :: "int \<Rightarrow> bytes" where
  "format_byte_size n0 =
     (if n0 = 0 then ''0B''
      else let n = (if n0 < 0 then wrap64 (- n0) else n0);
               s = (if n mod tib = 0 then int_str (n div tib) @ ''TiB''
                    else if n mod gib = 0 then int_str (n div gib) @ ''GiB''
                    else if n mod mib = 0 then int_str (n div mib) @ ''MiB''
                    else if n mod kib = 0 then int_str (n div kib) @ ''KiB''
                    else int_str n @ ''B'')
           in if n0 < 0 then ''-'' @ s else s)"

definition looks_like_bare_number :: "bytes \<Rightarrow> bool" where
  "looks_like_bare_number s = (s \<noteq> [] \<and> list_all is_digit s)"

lemma nat_str_split:
  assumes "u \<noteq> []" "\<not> is_digit (hd u)"
  shows "takeWhile is_digit (nat_str n @ u) = nat_str n" "dropWhile is_digit (nat_str n @ u) = u"
proof -
  have "\<forall>c\<in>set (nat_str n). is_digit c" using nat_str_digits by (simp add: list_all_iff)
  then show "takeWhile is_digit (nat_str n @ u) = nat_str n" "dropWhile is_digit (nat_str n @ u) = u"
    using assms by (cases u; simp add: takeWhile_append2 dropWhile_append2)+
qed

lemma digit_chars: "\<not> is_digit (CHR ''B'')" "\<not> is_digit (CHR ''K'')" "\<not> is_digit (CHR ''M'')" "\<not> is_digit (CHR ''G'')"
  "\<not> is_digit (CHR ''T'')" "\<not> is_space (CHR ''B'')" "\<not> is_space (CHR ''b'')"
  by code_simp+

lemma size_factor_names:
  "size_factor ''B'' = Some 1" "size_factor ''KiB'' = Some kib" "size_factor ''MiB'' = Some mib"
  "size_factor ''GiB'' = Some gib" "size_factor ''TiB'' = Some tib"
  by code_simp+

lemma parse_size_spelled:
  assumes u: "u \<in> {''B'', ''KiB'', ''MiB'', ''GiB'', ''TiB''}" and f: "size_factor u = Some f"
    and q: "0 \<le> q" "q * f \<le> max_int64"
  shows "parse_byte_size (int_str q @ u) = Inr (q * f)"
proof -
  have u0: "u \<noteq> []" "\<not> is_digit (hd u)" "\<not> is_space (last u)" using u digit_chars by auto
  have f1: "1 \<le> f" using u f size_factor_names by (auto simp: size_units)
  have spell: "int_str q = nat_str (nat q)" using q by (simp add: int_str_def)
  have "\<not> is_space (hd (nat_str (nat q) @ u))" using nat_str_hd_digit digit_no_space by simp
  then have tr: "trim_space (nat_str (nat q) @ u) = nat_str (nat q) @ u"
    using u0 by (simp add: trim_space_def trim_by_id)
  have "q \<le> q * f" using q(1) f1 by (simp add: mult_le_cancel_left1)
  then have "parse_int64 (nat_str (nat q)) = Some q"
    using parse_int64_int_str[of q] q spell by (simp add: min_int64_def)
  moreover have "q * f div f \<le> max_int64 div f" using q(2) f1 by (intro zdiv_mono1) auto
  then have "\<not> (f > 1 \<and> q > max_int64 div f)" using f1 by simp
  ultimately show ?thesis
    unfolding spell parse_byte_size_def tr Let_def nat_str_split[OF u0(1,2)] using u0 f q by simp
qed

lemma format_byte_size_spelled:
  assumes "0 \<le> n" "n \<le> max_int64"
  obtains u f where "u \<in> {''B'', ''KiB'', ''MiB'', ''GiB'', ''TiB''}" "size_factor u = Some f" "f dvd n"
    "format_byte_size n = int_str (n div f) @ u"
proof -
  consider "n = 0" | "n \<noteq> 0" "tib dvd n" | "n \<noteq> 0" "\<not> tib dvd n" "gib dvd n"
    | "n \<noteq> 0" "\<not> tib dvd n" "\<not> gib dvd n" "mib dvd n"
    | "n \<noteq> 0" "\<not> tib dvd n" "\<not> gib dvd n" "\<not> mib dvd n" "kib dvd n"
    | "n \<noteq> 0" "\<not> tib dvd n" "\<not> gib dvd n" "\<not> mib dvd n" "\<not> kib dvd n" by blast
  then show thesis
  proof cases
    case 1
    have "format_byte_size 0 = int_str (0 div 1) @ ''B''" by code_simp
    then show thesis using that[of "''B''" 1] size_factor_names 1 by simp
  next
    case 2
    then show thesis using that[of "''TiB''" tib] size_factor_names assms
      by (simp add: format_byte_size_def dvd_eq_mod_eq_0)
  next
    case 3
    then show thesis using that[of "''GiB''" gib] size_factor_names assms
      by (simp add: format_byte_size_def dvd_eq_mod_eq_0)
  next
    case 4
    then show thesis using that[of "''MiB''" mib] size_factor_names assms
      by (simp add: format_byte_size_def dvd_eq_mod_eq_0)
  next
    case 5
    then show thesis using that[of "''KiB''" kib] size_factor_names assms
      by (simp add: format_byte_size_def dvd_eq_mod_eq_0)
  next
    case 6
    then show thesis using that[of "''B''" 1] size_factor_names assms
      by (simp add: format_byte_size_def dvd_eq_mod_eq_0)
  qed
qed

lemma byte_size_roundtrip:
  assumes "0 \<le> n" "n \<le> max_int64"
  shows "parse_byte_size (format_byte_size n) = Inr n"
proof -
  obtain u f where u: "u \<in> {''B'', ''KiB'', ''MiB'', ''GiB'', ''TiB''}" "size_factor u = Some f" "f dvd n"
    "format_byte_size n = int_str (n div f) @ u" using format_byte_size_spelled[OF assms] .
  have "1 \<le> f" using u(1,2) size_factor_names by (auto simp: size_units)
  moreover have "n div f * f = n" using u(3) by simp
  ultimately show ?thesis using parse_size_spelled[OF u(1,2), of "n div f"] assms u(4)
    by (simp add: pos_imp_zdiv_nonneg_iff)
qed

lemma parse_byte_size_range:
  assumes "parse_byte_size s = Inr n"
  shows "0 \<le> n \<and> n \<le> max_int64"
proof -
  let ?d = "takeWhile is_digit (trim_space s)" and ?u = "dropWhile is_digit (trim_space s)"
  obtain q where q: "parse_int64 ?d = Some q"
    using assms by (cases "parse_int64 ?d") (auto simp: parse_byte_size_def Let_def split: if_splits)
  obtain f where "size_factor ?u = Some f"
    using assms q by (cases "size_factor ?u") (auto simp: parse_byte_size_def Let_def split: if_splits)
  with assms q have f: "size_factor ?u = Some f" "n = q * f" "0 \<le> q" "q \<le> max_int64" "\<not> (f > 1 \<and> q > max_int64 div f)"
    using parse_int64_range[OF q] unfolding parse_byte_size_def Let_def by (simp_all split: if_splits)
  have f1: "1 \<le> f" using f(1) by (auto simp: size_factor_def Let_def size_units split: if_splits)
  show ?thesis
  proof (cases "f = 1")
    case True
    then show ?thesis using f by simp
  next
    case False
    then have "q \<le> max_int64 div f" using f1 f(5) by simp
    then have "q * f \<le> max_int64 div f * f" using f1 by (intro mult_right_mono) auto
    also have "\<dots> \<le> max_int64" using f1 by (simp add: minus_mod_eq_div_mult [symmetric])
    finally show ?thesis using f f1 by simp
  qed
qed

section \<open>Durations\<close>

definition nsec :: int where "nsec = 1"
definition usec :: int where "usec = 1000"
definition msec :: int where "msec = 1000000"
definition sec :: int where "sec = 1000000000"
definition minute :: int where "minute = 60000000000"
definition hour :: int where "hour = 3600000000000"

lemmas duration_units = nsec_def usec_def msec_def sec_def minute_def hour_def

definition format_positive :: "int \<Rightarrow> bytes" where
  "format_positive d =
     (if d mod hour = 0 then int_str (d div hour) @ ''h''
      else if d mod minute = 0 then int_str (d div minute) @ ''m''
      else if d mod sec = 0 then int_str (d div sec) @ ''s''
      else if d mod msec = 0 then int_str (d div msec) @ ''ms''
      else if d mod usec = 0 then int_str (d div usec) @ ''us''
      else int_str d @ ''ns'')"

text \<open>\<open>None\<close> is a call that does not return.\<close>

partial_function (option) format_duration :: "int \<Rightarrow> bytes option" where
  "format_duration d =
     (if d = 0 then Some ''0s''
      else if d < 0 then Option.bind (format_duration (wrap64 (- d))) (\<lambda>s. Some (CHR ''-'' # s))
      else Some (format_positive d))"

lemma format_duration_returns:
  "format_duration 0 = Some ''0s''"
  "0 < d \<Longrightarrow> format_duration d = Some (format_positive d)"
  "min_int64 < d \<Longrightarrow> d < 0 \<Longrightarrow> format_duration d = Some (CHR ''-'' # format_positive (- d))"
proof -
  show "format_duration 0 = Some ''0s''" by (subst format_duration.simps) simp
  show p: "0 < d \<Longrightarrow> format_duration d = Some (format_positive d)" for d by (subst format_duration.simps) simp
  show "min_int64 < d \<Longrightarrow> d < 0 \<Longrightarrow> format_duration d = Some (CHR ''-'' # format_positive (- d))"
    by (subst format_duration.simps) (simp add: p wrap64_id int64_bounds)
qed

text \<open>C21. \<^verbatim>\<open>FormatDuration\<close> returns on every \<^verbatim>\<open>int64\<close> except the smallest: negating that one gives
  it back, so the call never ends.\<close>

theorem format_duration_terminates:
  "{d. min_int64 \<le> d \<and> d \<le> max_int64 \<and> format_duration d = None} = {min_int64}"
proof -
  have ret: "format_duration d \<noteq> None" if "min_int64 < d" for d
    using that by (cases d "0 :: int" rule: linorder_cases) (simp_all add: format_duration_returns)
  have w: "wrap64 (- min_int64) = min_int64" by (simp add: wrap64_def min_int64_def)
  have "d \<noteq> min_int64" if "format_duration d = Some r" for d r
  proof (rule format_duration.raw_induct[of "\<lambda>d r. d \<noteq> min_int64", OF _ that])
    fix f d r
    assume ih: "\<And>x y. f x = Some y \<Longrightarrow> x \<noteq> min_int64"
      and eq: "(if d = 0 then Some ''0s'' else if d < 0 then Option.bind (f (wrap64 (- d))) (\<lambda>s. Some (CHR ''-'' # s))
         else Some (format_positive d)) = Some r"
    show "d \<noteq> min_int64"
    proof
      assume d: "d = min_int64"
      then obtain s where "f (wrap64 (- d)) = Some s"
        using eq by (auto simp: min_int64_def bind_eq_Some_conv split: if_splits)
      then have "f min_int64 = Some s" using w d by simp
      then show False using ih by blast
    qed
  qed
  then have "format_duration min_int64 = None" by (metis not_Some_eq)
  then show ?thesis using ret by (force simp: int64_bounds order_less_le)
qed

text \<open>\<open>time.ParseDuration\<close> of the standard library: \<open>frac f k un\<close> is its floating-point
  contribution of the fraction digits \<open>f\<close> with \<open>k\<close> decimals at unit \<open>un\<close>.\<close>

definition duration_unit :: "bytes \<Rightarrow> int option" where
  "duration_unit u =
     (if u = ''ns'' then Some nsec else if u = ''us'' then Some usec
      else if u = [CHR 0xC2, CHR 0xB5, CHR ''s''] then Some usec else if u = [CHR 0xCE, CHR 0xBC, CHR ''s''] then Some usec
      else if u = ''ms'' then Some msec else if u = ''s'' then Some sec
      else if u = ''m'' then Some minute else if u = ''h'' then Some hour else None)"

abbreviation two63 :: int where "two63 \<equiv> 9223372036854775808"

fun leading_int :: "int \<Rightarrow> bytes \<Rightarrow> (int \<times> bytes) option" where
  "leading_int x [] = Some (x, [])"
| "leading_int x (c # cs) =
     (if \<not> is_digit c then Some (x, c # cs)
      else if x > two63 div 10 then None
      else let y = 10 * x + int (digit_val c) in if y > two63 then None else leading_int y cs)"

fun leading_fraction :: "int \<Rightarrow> nat \<Rightarrow> bool \<Rightarrow> bytes \<Rightarrow> int \<times> nat \<times> bytes" where
  "leading_fraction x k ovf [] = (x, k, [])"
| "leading_fraction x k ovf (c # cs) =
     (if \<not> is_digit c then (x, k, c # cs)
      else if ovf then leading_fraction x k True cs
      else if x > max_int64 div 10 then leading_fraction x k True cs
      else let y = 10 * x + int (digit_val c) in
        if y > two63 then leading_fraction x k True cs else leading_fraction y (Suc k) False cs)"

definition unit_char :: "char \<Rightarrow> bool" where
  "unit_char c = (c \<noteq> CHR ''.'' \<and> \<not> is_digit c)"

lemma leading_int_le: "leading_int x s = Some (v, r) \<Longrightarrow> length r \<le> length s"
  by (induction x s rule: leading_int.induct) (auto simp: Let_def split: if_splits)

lemma leading_fraction_le: "leading_fraction x k ovf s = (f, j, r) \<Longrightarrow> length r \<le> length s"
  by (induction x k ovf s rule: leading_fraction.induct) (auto simp: Let_def split: if_splits)

definition fraction_part :: "bytes \<Rightarrow> int \<times> nat \<times> bytes \<times> bool" where
  "fraction_part s = (case s of [] \<Rightarrow> (0, 0, [], False)
     | c # cs \<Rightarrow> if c = CHR ''.'' then let (f, k, r) = leading_fraction 0 0 False cs in (f, k, r, length r \<noteq> length cs)
                 else (0, 0, s, False))"

lemma fraction_part_le: "fraction_part s = (f, k, r, b) \<Longrightarrow> length r \<le> length s"
  by (auto simp: fraction_part_def split: list.splits if_splits prod.splits dest: leading_fraction_le)

definition span_unit :: "bytes \<Rightarrow> bytes \<times> bytes" where
  "span_unit s = (takeWhile unit_char s, dropWhile unit_char s)"

lemma span_unit_shorter: "span_unit s = (u, r) \<Longrightarrow> u \<noteq> [] \<Longrightarrow> length r < length s"
  by (cases s) (auto simp: span_unit_def less_Suc_eq_le length_dropWhile_le split: if_splits)

function parse_duration_loop :: "(int \<Rightarrow> nat \<Rightarrow> int \<Rightarrow> int) \<Rightarrow> int \<Rightarrow> bytes \<Rightarrow> int option" where
  "parse_duration_loop frac d s =
     (if s = [] then Some d
      else if unit_char (hd s) then None
      else case leading_int 0 s of
          None \<Rightarrow> None
        | Some (v, s1) \<Rightarrow>
            (case fraction_part s1 of (f, k, s2, post) \<Rightarrow>
              if length s1 = length s \<and> \<not> post then None
              else (case span_unit s2 of (u, s3) \<Rightarrow>
                if u = [] then None
                else case duration_unit u of
                    None \<Rightarrow> None
                  | Some un \<Rightarrow>
                      if v > two63 div un then None
                      else let v1 = v * un + (if f > 0 then frac f k un else 0) in
                        if f > 0 \<and> v1 > two63 then None
                        else let d1 = (d + v1) mod 18446744073709551616 in
                          if d1 > two63 then None else parse_duration_loop frac d1 s3)))"
  by pat_completeness auto

lemma parse_duration_shorter:
  assumes "leading_int 0 s = Some (v, s1)" "fraction_part s1 = (f, k, s2, post)" "span_unit s2 = (u, s3)" "u \<noteq> []"
  shows "length s3 < length s"
  using leading_int_le[OF assms(1)] fraction_part_le[OF assms(2)] span_unit_shorter[OF assms(3,4)] by simp

termination parse_duration_loop
proof (relation "measure (\<lambda>(frac, d, s). length s)", goal_cases)
  case (2 frac d s x2 v s1 f t1 k t2 s2 post u s3)
  then have "leading_int 0 s = Some (v, s1)" "fraction_part s1 = (f, k, s2, post)" "span_unit s2 = (u, s3)" "u \<noteq> []"
    by simp_all
  then have "length s3 < length s" by (rule parse_duration_shorter)
  then show ?case by simp
qed simp

declare parse_duration_loop.simps [simp del]

definition parse_duration :: "(int \<Rightarrow> nat \<Rightarrow> int \<Rightarrow> int) \<Rightarrow> bytes \<Rightarrow> int option" where
  "parse_duration frac s =
     (let (neg, s1) = (case s of [] \<Rightarrow> (False, s)
            | c # cs \<Rightarrow> if c = CHR ''-'' then (True, cs) else if c = CHR ''+'' then (False, cs) else (False, s))
      in if s1 = ''0'' then Some 0
         else if s1 = [] then None
         else case parse_duration_loop frac 0 s1 of
             None \<Rightarrow> None
           | Some d \<Rightarrow> if neg then Some (- d) else if d > max_int64 then None else Some d)"

lemma digits_value_ge: "x \<le> foldl (\<lambda>a c. 10 * a + int (digit_val c)) x ds" if "0 \<le> x" for x :: int
  using that
proof (induction ds arbitrary: x)
  case (Cons c ds)
  have "x \<le> 10 * x + int (digit_val c)" using Cons.prems by simp
  also have "\<dots> \<le> foldl (\<lambda>a c. 10 * a + int (digit_val c)) (10 * x + int (digit_val c)) ds"
    using Cons.prems by (intro Cons.IH) simp
  finally show ?case by simp
qed simp

lemma leading_int_digits:
  assumes "0 \<le> x" "list_all is_digit ds" "foldl (\<lambda>a c. 10 * a + int (digit_val c)) x ds \<le> two63" "u = [] \<or> \<not> is_digit (hd u)"
  shows "leading_int x (ds @ u) = Some (foldl (\<lambda>a c. 10 * a + int (digit_val c)) x ds, u)"
  using assms(1-3)
proof (induction ds arbitrary: x)
  case Nil
  then show ?case using assms(4) by (cases u) auto
next
  case (Cons c ds)
  let ?y = "10 * x + int (digit_val c)"
  have y: "?y \<le> two63" using digits_value_ge[of ?y ds] Cons.prems by simp
  then have "\<not> x > two63 div 10" by simp
  then show ?case using Cons y by (simp add: Let_def)
qed

lemma int_nat_of_digits: "foldl (\<lambda>a c. 10 * a + int (digit_val c)) (int n) ds = int (foldl (\<lambda>a c. 10 * a + digit_val c) n ds)"
  by (induction ds arbitrary: n) (simp, metis (no_types, lifting) foldl_Cons of_nat_add of_nat_mult of_nat_numeral)

lemma leading_int_nat_str:
  assumes "int n \<le> two63" "u = [] \<or> \<not> is_digit (hd u)"
  shows "leading_int 0 (nat_str n @ u) = Some (int n, u)"
proof -
  have "foldl (\<lambda>a c. 10 * a + int (digit_val c)) 0 (nat_str n) = int n"
    using int_nat_of_digits[of 0 "nat_str n"] nat_of_digits_nat_str[of n] by (simp add: nat_of_digits_def)
  then show ?thesis using leading_int_digits[of 0 "nat_str n" u] nat_str_digits assms by simp
qed

lemma parse_duration_loop_spelled:
  assumes u: "u \<noteq> []" "\<forall>c\<in>set u. unit_char c" "duration_unit u = Some un" and n: "0 < un" "int n * un \<le> max_int64"
  shows "parse_duration_loop frac 0 (nat_str n @ u) = Some (int n * un)"
proof -
  have hu: "\<not> is_digit (hd u)" "hd u \<noteq> CHR ''.''" using u by (auto simp: unit_char_def)
  have hd: "\<not> unit_char (hd (nat_str n @ u))" using nat_str_hd_digit[of n] by (simp add: unit_char_def)
  have "int n \<le> int n * un" using n(1) by (simp add: mult_le_cancel_left1)
  then have n63: "int n \<le> two63" using n(2) by (simp add: max_int64_def)
  have li: "leading_int 0 (nat_str n @ u) = Some (int n, u)" using leading_int_nat_str[OF n63] hu by simp
  have fp: "fraction_part u = (0, 0, u, False)" using u(1) hu by (cases u) (auto simp: fraction_part_def)
  have su: "span_unit u = (u, [])" using u(2) by (simp add: span_unit_def takeWhile_eq_all_conv dropWhile_eq_Nil_conv)
  have dv: "int n \<le> two63 div un"
  proof -
    have "int n * un div un \<le> two63 div un" using n by (intro zdiv_mono1) (simp_all add: max_int64_def)
    then show ?thesis using n(1) by simp
  qed
  have "(int n * un) mod 18446744073709551616 = int n * un" using n by (simp add: max_int64_def)
  then show ?thesis
    using hd li fp su u(1,3) dv n
    by (subst parse_duration_loop.simps) (simp add: Let_def parse_duration_loop.simps[of frac _ "[]"] max_int64_def)
qed

lemma duration_unit_spelled:
  "duration_unit ''h'' = Some hour" "duration_unit ''m'' = Some minute" "duration_unit ''s'' = Some sec"
  "duration_unit ''ms'' = Some msec" "duration_unit ''us'' = Some usec" "duration_unit ''ns'' = Some nsec"
  "\<forall>c\<in>set ''h''. unit_char c" "\<forall>c\<in>set ''m''. unit_char c" "\<forall>c\<in>set ''s''. unit_char c"
  "\<forall>c\<in>set ''ms''. unit_char c" "\<forall>c\<in>set ''us''. unit_char c" "\<forall>c\<in>set ''ns''. unit_char c"
  by code_simp+

lemma format_positive_spelled:
  assumes "0 < d" "d \<le> max_int64"
  shows "\<exists>n u un. format_positive d = nat_str n @ u \<and> u \<noteq> [] \<and> (\<forall>c\<in>set u. unit_char c) \<and> duration_unit u = Some un
    \<and> 0 < un \<and> int n * un = d"
proof -
  have spell: ?thesis if "un dvd d" "0 < un" "format_positive d = int_str (d div un) @ u" "u \<noteq> []"
    "\<forall>c\<in>set u. unit_char c" "duration_unit u = Some un" for un u
  proof (intro exI[of _ "nat (d div un)"] exI[of _ u] exI[of _ un] conjI)
    have "0 \<le> d div un" using assms that(2) by (simp add: pos_imp_zdiv_nonneg_iff)
    then show "format_positive d = nat_str (nat (d div un)) @ u" "int (nat (d div un)) * un = d"
      using that(1,3) by (simp_all add: int_str_def)
  qed (use that in auto)
  consider "hour dvd d" | "\<not> hour dvd d" "minute dvd d" | "\<not> hour dvd d" "\<not> minute dvd d" "sec dvd d"
    | "\<not> hour dvd d" "\<not> minute dvd d" "\<not> sec dvd d" "msec dvd d"
    | "\<not> hour dvd d" "\<not> minute dvd d" "\<not> sec dvd d" "\<not> msec dvd d" "usec dvd d"
    | "\<not> hour dvd d" "\<not> minute dvd d" "\<not> sec dvd d" "\<not> msec dvd d" "\<not> usec dvd d" by blast
  then show ?thesis
  proof cases
    case 1
    then have "format_positive d = int_str (d div hour) @ ''h''" by (simp add: format_positive_def dvd_eq_mod_eq_0)
    then show ?thesis using 1 duration_unit_spelled by (intro spell[of hour "''h''"]) (simp_all add: hour_def)
  next
    case 2
    then have "format_positive d = int_str (d div minute) @ ''m''" by (simp add: format_positive_def dvd_eq_mod_eq_0)
    then show ?thesis using 2 duration_unit_spelled by (intro spell[of minute "''m''"]) (simp_all add: minute_def)
  next
    case 3
    then have "format_positive d = int_str (d div sec) @ ''s''" by (simp add: format_positive_def dvd_eq_mod_eq_0)
    then show ?thesis using 3 duration_unit_spelled by (intro spell[of sec "''s''"]) (simp_all add: sec_def)
  next
    case 4
    then have "format_positive d = int_str (d div msec) @ ''ms''" by (simp add: format_positive_def dvd_eq_mod_eq_0)
    then show ?thesis using 4 duration_unit_spelled by (intro spell[of msec "''ms''"]) (simp_all add: msec_def)
  next
    case 5
    then have "format_positive d = int_str (d div usec) @ ''us''" by (simp add: format_positive_def dvd_eq_mod_eq_0)
    then show ?thesis using 5 duration_unit_spelled by (intro spell[of usec "''us''"]) (simp_all add: usec_def)
  next
    case 6
    then have "format_positive d = int_str (d div nsec) @ ''ns''" by (simp add: format_positive_def dvd_eq_mod_eq_0 nsec_def)
    then show ?thesis using 6 duration_unit_spelled by (intro spell[of nsec "''ns''"]) (simp_all add: nsec_def)
  qed
qed

lemma nat_str_hd_sign: "hd (nat_str n @ u) \<noteq> CHR ''-''" "hd (nat_str n @ u) \<noteq> CHR ''+''"
proof -
  have "\<not> is_digit (CHR ''-'')" "\<not> is_digit (CHR ''+'')" by code_simp+
  then show "hd (nat_str n @ u) \<noteq> CHR ''-''" "hd (nat_str n @ u) \<noteq> CHR ''+''"
    using nat_str_hd_digit[of n] by (metis hd_append2 nat_str_not_Nil)+
qed

lemma parse_positive_spelled:
  assumes "0 < d" "d \<le> max_int64"
  shows "parse_duration frac (format_positive d) = Some d"
    and "parse_duration frac (CHR ''-'' # format_positive d) = Some (- d)"
proof -
  obtain n u un where s: "format_positive d = nat_str n @ u" "u \<noteq> []" "\<forall>c\<in>set u. unit_char c"
    "duration_unit u = Some un" "0 < un" "int n * un = d" using format_positive_spelled[OF assms] by blast
  have l: "parse_duration_loop frac 0 (nat_str n @ u) = Some d"
    using parse_duration_loop_spelled[OF s(2-4) s(5)] s(6) assms(2) by simp
  have "last (nat_str n @ u) \<in> set u" using s(2) by simp
  then have "\<not> is_digit (last (nat_str n @ u))" using s(3) by (auto simp: unit_char_def)
  moreover have "is_digit (CHR ''0'')" by code_simp
  ultimately have z: "nat_str n @ u \<noteq> ''0''" by (metis last.simps)
  obtain c cs where c: "nat_str n @ u = c # cs" using s(2) by (cases "nat_str n @ u") auto
  then have "c \<noteq> CHR ''-''" "c \<noteq> CHR ''+''" using nat_str_hd_sign[of n u] by simp_all
  then show "parse_duration frac (format_positive d) = Some d"
    "parse_duration frac (CHR ''-'' # format_positive d) = Some (- d)"
    using l z assms(2) s(1) unfolding c by (auto simp: parse_duration_def Let_def)
qed

lemma parse_duration_loop_range:
  "parse_duration_loop frac d s = Some r \<Longrightarrow> 0 \<le> d \<Longrightarrow> d \<le> two63 \<Longrightarrow> 0 \<le> r \<and> r \<le> two63"
proof (induction "length s" arbitrary: d s rule: less_induct)
  case less
  have ih: "0 \<le> r \<and> r \<le> two63" if "leading_int 0 s = Some (v, s1)" "fraction_part s1 = (f, k, s2, post)"
    "span_unit s2 = (u, s3)" "u \<noteq> []" "parse_duration_loop frac (e mod 18446744073709551616) s3 = Some r"
    "\<not> two63 < e mod 18446744073709551616" for v s1 f k s2 post u s3 e
    using less.hyps[OF parse_duration_shorter[OF that(1-4)] that(5)] that(6) by simp
  show ?case using less.prems
    by (subst (asm) parse_duration_loop.simps)
      (auto simp: Let_def split: if_splits option.splits prod.splits dest: ih)
qed

lemma parse_duration_range:
  assumes "parse_duration frac s = Some d"
  shows "min_int64 \<le> d \<and> d \<le> max_int64"
  using assms by (auto simp: parse_duration_def Let_def int64_bounds dest: parse_duration_loop_range
      split: list.splits if_splits option.splits)

lemma duration_roundtrip:
  assumes d: "min_int64 < d" "d \<le> max_int64"
  shows "Option.bind (format_duration d) (parse_duration frac) = Some d"
proof -
  consider "d = 0" | "0 < d" | "d < 0" by linarith
  then show "Option.bind (format_duration d) (parse_duration frac) = Some d"
  proof cases
    case 1
    have "parse_duration_loop frac 0 ''0s'' = Some 0"
      using parse_duration_loop_spelled[of "''s''" sec 0 frac] duration_unit_spelled(3,9)
      by (simp add: nat_str.simps[of 0] digit_char_eval duration_units max_int64_def)
    then show ?thesis using 1 by (simp add: format_duration_returns parse_duration_def max_int64_def)
  next
    case 2
    then show ?thesis using d by (simp add: format_duration_returns parse_positive_spelled)
  next
    case 3
    then have "- d \<le> max_int64" "0 < - d" using d by (simp_all add: int64_bounds)
    then show ?thesis using parse_positive_spelled(2)[of "- d" frac] 3 d by (simp add: format_duration_returns)
  qed
qed

lemma byte_size_not_bare:
  assumes "0 \<le> n" "n \<le> max_int64"
  shows "\<not> looks_like_bare_number (format_byte_size n)"
proof -
  obtain u f where "u \<in> {''B'', ''KiB'', ''MiB'', ''GiB'', ''TiB''}" "format_byte_size n = int_str (n div f) @ u"
    using format_byte_size_spelled[OF assms] by metis
  then show ?thesis using digit_chars by (auto simp: looks_like_bare_number_def)
qed

text \<open>Every byte size and every duration but the smallest is written so that reading it back
  gives the same value: formatting a document and parsing it again keeps its scalars.\<close>

lemma scalar_roundtrip:
  "0 \<le> n \<Longrightarrow> n \<le> max_int64 \<Longrightarrow> min_int64 < d \<Longrightarrow> d \<le> max_int64 \<Longrightarrow>
    parse_byte_size (format_byte_size n) = Inr n \<and>
    Option.bind (format_duration d) (parse_duration frac) = Some d"
  using byte_size_roundtrip duration_roundtrip by blast

lemma scalar_roundtrip_witness:
  "parse_byte_size (format_byte_size 10485760) = Inr 10485760 \<and>
   Option.bind (format_duration (- 90000000000)) (parse_duration (\<lambda>f k un. 0)) = Some (- 90000000000)"
  using scalar_roundtrip[of 10485760 "- 90000000000" "\<lambda>f k un. 0"] by (simp add: int64_bounds)

text \<open>The smallest \<^verbatim>\<open>int64\<close> has no byte-size spelling that reads back.\<close>

lemma format_smallest_byte_size: "format_byte_size min_int64 = ''--8388608TiB''"
  by (simp add: format_byte_size_def wrap64_def min_int64_def size_units int_str_def nat_str.simps digit_char_eval)

end
