(* ===== verification/Config_Tree.thy ===== *)
theory Config_Tree
  imports Config_Values Domain_Err
begin

text \<open>
  The generic document tree of \<^verbatim>\<open>internal/config\<close> between a parser and the typed state
  (\<^verbatim>\<open>reserved.go\<close>, \<^verbatim>\<open>duration.go\<close>, \<^verbatim>\<open>bytesize.go\<close>, \<^verbatim>\<open>decode.go\<close>, \<^verbatim>\<open>wire.go\<close>): the walk that refuses reserved
  keys, the defaults, the coercion of durations and byte sizes and their formatting back, and the
  unknown-field check.  A Go \<^verbatim>\<open>map[string]any\<close> is an association list with distinct keys; where the
  code writes into a map it walks, the function returns the new tree.
\<close>

section \<open>Trees\<close>

text \<open>
  \<open>JNumber\<close> is a \<^verbatim>\<open>json.Number\<close>, \<open>JInt\<close> an \<^verbatim>\<open>int\<close> or \<^verbatim>\<open>int64\<close>, \<open>JFloat\<close> a \<^verbatim>\<open>float64\<close> (its text and its
  conversion to \<^verbatim>\<open>int64\<close>), \<open>JOther\<close> a scalar of another type (a \<^verbatim>\<open>uint64\<close>, a timestamp), \<open>JMixed\<close> a
  \<^verbatim>\<open>map[any]any\<close>.
\<close>

datatype json =
    JNull | JBool bool | JNumber bytes | JInt int | JFloat bytes int | JStr bytes | JOther bytes
  | JArr "json list" | JObj "(bytes \<times> json) list" | JMixed "(json \<times> json) list"

definition join_path :: "bytes \<Rightarrow> bytes \<Rightarrow> bytes" where
  "join_path base key = (if base = [] then key else base @ ''.'' @ key)"

definition index_path :: "bytes \<Rightarrow> nat \<Rightarrow> bytes" where
  "index_path base i = base @ ''['' @ nat_str i @ '']''"

abbreviation violation :: "bytes \<Rightarrow> bytes \<Rightarrow> bytes \<Rightarrow> field_violation" where
  "violation p c m \<equiv> \<lparr> fv_path = p, fv_code = c, fv_message = m \<rparr>"

text \<open>\<^verbatim>\<open>%q\<close> on UTF-8 text.\<close>

definition hex_digit :: "nat \<Rightarrow> char" where
  "hex_digit n = (if n < 10 then char_of (48 + n) else char_of (87 + n))"

definition quote_char :: "char \<Rightarrow> bytes" where
  "quote_char c = (let n = byte_val c; bs = CHR 0x5C in
     if n = 34 \<or> n = 92 then [bs, c]
     else if n = 7 then [bs, CHR ''a''] else if n = 8 then [bs, CHR ''b''] else if n = 12 then [bs, CHR ''f'']
     else if n = 10 then [bs, CHR ''n''] else if n = 13 then [bs, CHR ''r''] else if n = 9 then [bs, CHR ''t'']
     else if n = 11 then [bs, CHR ''v'']
     else if n < 32 \<or> n = 127 then [bs, CHR ''x'', hex_digit (n div 16), hex_digit (n mod 16)]
     else [c])"

definition go_quote :: "bytes \<Rightarrow> bytes" where
  "go_quote s = CHR 0x22 # concat (map quote_char s) @ [CHR 0x22]"

text \<open>What holds of every member of every object of a tree.\<close>

fun all_members :: "(bytes \<Rightarrow> json \<Rightarrow> bool) \<Rightarrow> json \<Rightarrow> bool"
  and all_entries :: "(bytes \<Rightarrow> json \<Rightarrow> bool) \<Rightarrow> (bytes \<times> json) list \<Rightarrow> bool"
  and all_items :: "(bytes \<Rightarrow> json \<Rightarrow> bool) \<Rightarrow> json list \<Rightarrow> bool" where
  "all_members P (JObj kvs) = all_entries P kvs"
| "all_members P (JArr xs) = all_items P xs"
| "all_members P _ = True"
| "all_entries P [] = True"
| "all_entries P ((k, v) # kvs) = (P k v \<and> all_members P v \<and> all_entries P kvs)"
| "all_items P [] = True"
| "all_items P (x # xs) = (all_members P x \<and> all_items P xs)"

lemma all_entries_set: "all_entries P kvs \<longleftrightarrow> (\<forall>(k, v) \<in> set kvs. P k v \<and> all_members P v)"
  by (induction kvs) auto

lemma all_items_set: "all_items P xs \<longleftrightarrow> (\<forall>x \<in> set xs. all_members P x)"
  by (induction xs) auto

lemma all_members_mono:
  "all_members P t \<Longrightarrow> (\<And>k v. P k v \<Longrightarrow> Q k v) \<Longrightarrow> all_members Q t"
  "all_entries P kvs \<Longrightarrow> (\<And>k v. P k v \<Longrightarrow> Q k v) \<Longrightarrow> all_entries Q kvs"
  "all_items P xs \<Longrightarrow> (\<And>k v. P k v \<Longrightarrow> Q k v) \<Longrightarrow> all_items Q xs"
  by (induction P t and P kvs and P xs rule: all_members_all_entries_all_items.induct) auto

lemma all_members_conj:
  "all_members P t \<Longrightarrow> all_members Q t \<Longrightarrow> all_members (\<lambda>k v. P k v \<and> Q k v) t"
  "all_entries P kvs \<Longrightarrow> all_entries Q kvs \<Longrightarrow> all_entries (\<lambda>k v. P k v \<and> Q k v) kvs"
  "all_items P xs \<Longrightarrow> all_items Q xs \<Longrightarrow> all_items (\<lambda>k v. P k v \<and> Q k v) xs"
  by (induction P t and P kvs and P xs rule: all_members_all_entries_all_items.induct) auto

section \<open>Reserved keys\<close>

definition reserved_exact :: "(bytes \<times> bytes) list" where
  "reserved_exact = [(''forwardto'', ''configures outbound delivery''),
     (''mx'', ''implies MX lookup / outbound delivery''), (''deliver'', ''configures outbound delivery'')]"

definition reserved_prefixes :: "(bytes \<times> bytes) list" where
  "reserved_prefixes = [(''outgoing'', ''configures an outgoing SMTP relay''),
     (''autorelay'', ''auto-forwards received mail outward''), (''relay'', ''configures an outbound relay''),
     (''smarthost'', ''configures an outbound smarthost'')]"

definition normalize_key :: "bytes \<Rightarrow> bytes" where
  "normalize_key k = to_lower (filter (\<lambda>c. c \<noteq> CHR ''-'' \<and> c \<noteq> CHR ''_'') (trim_left_by (\<lambda>c. c = CHR ''-'') k))"

definition reserved_reason :: "bytes \<Rightarrow> bytes" where
  "reserved_reason n = (case lookup reserved_exact n of
       Some why \<Rightarrow> why
     | None \<Rightarrow> (case find (\<lambda>(p, why). has_prefix p n) reserved_prefixes of Some (p, why) \<Rightarrow> why | None \<Rightarrow> []))"

definition em_dash :: bytes where "em_dash = [CHR 0xE2, CHR 0x80, CHR 0x94]"

definition reserved_message :: "bytes \<Rightarrow> bytes \<Rightarrow> bytes" where
  "reserved_message k why = ''reserved key '' @ go_quote k @ '' '' @ why @ '' '' @ em_dash @ '' LabMail is receive-only''"

fun reserved_fields :: "json \<Rightarrow> bytes \<Rightarrow> field_violation list"
  and reserved_entries :: "(bytes \<times> json) list \<Rightarrow> bytes \<Rightarrow> field_violation list"
  and reserved_items :: "json list \<Rightarrow> nat \<Rightarrow> bytes \<Rightarrow> field_violation list" where
  "reserved_fields (JObj kvs) path = reserved_entries kvs path"
| "reserved_fields (JArr xs) path = reserved_items xs 0 path"
| "reserved_fields _ path = []"
| "reserved_entries [] path = []"
| "reserved_entries ((k, child) # kvs) path =
     (let p = join_path path k; why = reserved_reason (normalize_key k) in
      if why \<noteq> [] then violation p ''reserved_name'' (reserved_message k why) # reserved_entries kvs path
      else reserved_fields child p @ reserved_entries kvs path)"
| "reserved_items [] i path = []"
| "reserved_items (x # xs) i path = reserved_fields x (index_path path i) @ reserved_items xs (Suc i) path"

abbreviation unreserved :: "bytes \<Rightarrow> json \<Rightarrow> bool" where
  "unreserved k v \<equiv> reserved_reason (normalize_key k) = []"

lemma reserved_fields_none:
  "reserved_fields t path = [] \<longleftrightarrow> all_members unreserved t"
  "reserved_entries kvs path = [] \<longleftrightarrow> all_entries unreserved kvs"
  "reserved_items xs i path = [] \<longleftrightarrow> all_items unreserved xs"
  by (induction t path and kvs path and xs i path rule: reserved_fields_reserved_entries_reserved_items.induct)
    (auto simp: Let_def)

section \<open>Durations and byte sizes\<close>

definition duration_fields :: "bytes list" where
  "duration_fields = [''sessionTimeout'', ''commandIdle'', ''dataIdle'', ''maxWait'', ''greetingDelay'', ''commandDelay'']"

definition size_fields :: "bytes list" where
  "size_fields = [''maxMessageBytes'', ''maxInFlightDataBytes'', ''maxBytes'', ''spillThreshold'', ''bodyLimit'']"

abbreviation is_duration :: "bytes \<Rightarrow> bool" where "is_duration k \<equiv> k \<in> set duration_fields"
abbreviation is_size :: "bytes \<Rightarrow> bool" where "is_size k \<equiv> k \<in> set size_fields"

text \<open>\<^verbatim>\<open>jsonNumberDuration\<close> and \<^verbatim>\<open>jsonNumberInt\<close> read the same numbers.\<close>

definition json_number_int :: "json \<Rightarrow> int option" where
  "json_number_int v = (case v of JNumber s \<Rightarrow> parse_int64 s | JInt n \<Rightarrow> Some n | JFloat s n \<Rightarrow> Some n | _ \<Rightarrow> None)"

definition coerce_duration_field :: "(int \<Rightarrow> nat \<Rightarrow> int \<Rightarrow> int) \<Rightarrow> json \<Rightarrow> bytes \<Rightarrow> field_violation + json" where
  "coerce_duration_field frac child path =
     (if child = JNull then Inr JNull
      else case child of
          JStr s \<Rightarrow> (case parse_duration frac s of
              None \<Rightarrow> Inl (violation path ''invalid_value''
                ''duration must use Go time.ParseDuration syntax (for example 30s)'')
            | Some d \<Rightarrow> Inr (JInt d))
        | _ \<Rightarrow> if json_number_int child = Some 0 then Inr (JInt 0)
               else Inl (violation path ''invalid_value'' ''duration must be a string such as 30s, not a bare number''))"

definition coerce_byte_size_field :: "json \<Rightarrow> bytes \<Rightarrow> field_violation + json" where
  "coerce_byte_size_field child path =
     (if child = JNull then Inr JNull
      else case child of
          JStr s \<Rightarrow>
            if looks_like_bare_number s
            then Inl (violation path ''invalid_value'' ''byte size must use an IEC unit such as 10MiB, not a bare number'')
            else (case parse_byte_size s of
                Inl e \<Rightarrow> Inl (violation path ''invalid_value'' e)
              | Inr n \<Rightarrow> Inr (JInt n))
        | _ \<Rightarrow> Inl (violation path ''invalid_value'' ''byte size must be a string such as 10MiB, not a bare number''))"

text \<open>
  \<^verbatim>\<open>convertDurations\<close> and \<^verbatim>\<open>convertByteSizes\<close> are one walk over two sets of member names with two
  coercions of a member; a member of the set is coerced and not entered.
\<close>

fun convert_fields :: "bytes list \<Rightarrow> (json \<Rightarrow> bytes \<Rightarrow> field_violation + json) \<Rightarrow> json \<Rightarrow> bytes \<Rightarrow>
    field_violation list \<times> json"
  and convert_entries :: "bytes list \<Rightarrow> (json \<Rightarrow> bytes \<Rightarrow> field_violation + json) \<Rightarrow> (bytes \<times> json) list \<Rightarrow> bytes \<Rightarrow>
    field_violation list \<times> (bytes \<times> json) list"
  and convert_items :: "bytes list \<Rightarrow> (json \<Rightarrow> bytes \<Rightarrow> field_violation + json) \<Rightarrow> json list \<Rightarrow> nat \<Rightarrow> bytes \<Rightarrow>
    field_violation list \<times> json list" where
  "convert_fields names co (JObj kvs) path = (let (vs, kvs') = convert_entries names co kvs path in (vs, JObj kvs'))"
| "convert_fields names co (JArr xs) path = (let (vs, xs') = convert_items names co xs 0 path in (vs, JArr xs'))"
| "convert_fields names co v path = ([], v)"
| "convert_entries names co [] path = ([], [])"
| "convert_entries names co ((k, child) # kvs) path =
     (let p = join_path path k;
          (vs, child') = (if k \<in> set names
             then (case co child p of Inl e \<Rightarrow> ([e], child) | Inr c \<Rightarrow> ([], c))
             else convert_fields names co child p);
          (ws, kvs') = convert_entries names co kvs path
      in (vs @ ws, (k, child') # kvs'))"
| "convert_items names co [] i path = ([], [])"
| "convert_items names co (x # xs) i path =
     (let (vs, x') = convert_fields names co x (index_path path i);
          (ws, xs') = convert_items names co xs (Suc i) path in (vs @ ws, x' # xs'))"

definition convert_durations :: "(int \<Rightarrow> nat \<Rightarrow> int \<Rightarrow> int) \<Rightarrow> json \<Rightarrow> bytes \<Rightarrow> field_violation list \<times> json" where
  "convert_durations frac = convert_fields duration_fields (coerce_duration_field frac)"

definition convert_byte_sizes :: "json \<Rightarrow> bytes \<Rightarrow> field_violation list \<times> json" where
  "convert_byte_sizes = convert_fields size_fields coerce_byte_size_field"

text \<open>The way back, \<^verbatim>\<open>convert\<dots>NumbersToStrings\<close>: \<open>None\<close> when the formatting of a number does not end.\<close>

definition cons_option :: "'a option \<Rightarrow> 'a list option \<Rightarrow> 'a list option" where
  "cons_option a as = Option.bind a (\<lambda>x. map_option ((#) x) as)"

lemma cons_option_Some [simp]: "cons_option (Some x) (Some xs) = Some (x # xs)"
  by (simp add: cons_option_def)

lemma cons_option_SomeE [elim!]:
  assumes "cons_option a as = Some ys"
  obtains x xs where "a = Some x" "as = Some xs" "ys = x # xs"
  using assms by (auto simp: cons_option_def bind_eq_Some_conv)

fun format_fields :: "bytes list \<Rightarrow> (int \<Rightarrow> bytes option) \<Rightarrow> json \<Rightarrow> json option"
  and format_entries :: "bytes list \<Rightarrow> (int \<Rightarrow> bytes option) \<Rightarrow> (bytes \<times> json) list \<Rightarrow> (bytes \<times> json) list option"
  and format_items :: "bytes list \<Rightarrow> (int \<Rightarrow> bytes option) \<Rightarrow> json list \<Rightarrow> json list option" where
  "format_fields names fmt (JObj kvs) = map_option JObj (format_entries names fmt kvs)"
| "format_fields names fmt (JArr xs) = map_option JArr (format_items names fmt xs)"
| "format_fields names fmt v = Some v"
| "format_entries names fmt [] = Some []"
| "format_entries names fmt ((k, child) # kvs) =
     cons_option (map_option (Pair k) (case (if k \<in> set names then json_number_int child else None) of
         Some n \<Rightarrow> map_option JStr (fmt n)
       | None \<Rightarrow> format_fields names fmt child)) (format_entries names fmt kvs)"
| "format_items names fmt [] = Some []"
| "format_items names fmt (x # xs) =
     cons_option (format_fields names fmt x) (format_items names fmt xs)"

definition convert_duration_numbers :: "json \<Rightarrow> json option" where
  "convert_duration_numbers = format_fields duration_fields format_duration"

definition convert_byte_size_numbers :: "json \<Rightarrow> json option" where
  "convert_byte_size_numbers = format_fields size_fields (\<lambda>n. Some (format_byte_size n))"

definition coerce_wire_tree :: "(int \<Rightarrow> nat \<Rightarrow> int \<Rightarrow> int) \<Rightarrow> json \<Rightarrow> field_violation list \<times> json" where
  "coerce_wire_tree frac v = (let (vs, v1) = convert_durations frac v []; (ws, v2) = convert_byte_sizes v1 [] in (vs @ ws, v2))"

definition format_wire_tree :: "json \<Rightarrow> json option" where
  "format_wire_tree v = Option.bind (convert_duration_numbers v) convert_byte_size_numbers"

text \<open>A coercion leaves an integer or null in every member of its set and keeps the other members.\<close>

definition scalar_member :: "(int \<Rightarrow> bool) \<Rightarrow> json \<Rightarrow> bool" where
  "scalar_member R v = (case v of JNull \<Rightarrow> True | JInt n \<Rightarrow> R n | _ \<Rightarrow> False)"

lemma scalar_member_cases: "scalar_member R v \<longleftrightarrow> v = JNull \<or> (\<exists>n. v = JInt n \<and> R n)"
  by (cases v) (auto simp: scalar_member_def)

lemma scalar_member_leaf: "scalar_member R v \<Longrightarrow> all_members P v"
  by (auto simp: scalar_member_cases)

definition coerces :: "(json \<Rightarrow> bytes \<Rightarrow> field_violation + json) \<Rightarrow> (int \<Rightarrow> bool) \<Rightarrow> bool" where
  "coerces co R = (\<forall>v p c. co v p = Inr c \<longrightarrow> scalar_member R c)"

lemma coercesD: "coerces co R \<Longrightarrow> co v p = Inr c \<Longrightarrow> scalar_member R c"
  by (auto simp: coerces_def)

lemma coerced_leaf: "coerces co R \<Longrightarrow> co v p = Inr c \<Longrightarrow> all_members P c"
  by (auto dest: coercesD intro: scalar_member_leaf)

abbreviation typed_member :: "bytes list \<Rightarrow> (int \<Rightarrow> bool) \<Rightarrow> bytes \<Rightarrow> json \<Rightarrow> bool" where
  "typed_member names R k v \<equiv> k \<in> set names \<longrightarrow> scalar_member R v"

lemma convert_fields_typed:
  "coerces co R \<Longrightarrow> convert_fields names co t path = ([], t') \<Longrightarrow> all_members (typed_member names R) t'"
  "coerces co R \<Longrightarrow> convert_entries names co kvs path = ([], kvs') \<Longrightarrow> all_entries (typed_member names R) kvs'"
  "coerces co R \<Longrightarrow> convert_items names co xs i path = ([], xs') \<Longrightarrow> all_items (typed_member names R) xs'"
  by (induction names co t path and names co kvs path and names co xs i path arbitrary: t' and kvs' and xs'
      rule: convert_fields_convert_entries_convert_items.induct)
    (auto simp: Let_def intro: coercesD coerced_leaf split: prod.splits if_splits sum.splits)

text \<open>What a coercion of other members keeps.\<close>

definition survives :: "bytes list \<Rightarrow> (json \<Rightarrow> bytes \<Rightarrow> field_violation + json) \<Rightarrow> (bytes \<Rightarrow> json \<Rightarrow> bool) \<Rightarrow> bool" where
  "survives names co P =
     ((\<forall>k v v'. P k v \<longrightarrow> k \<in> set names \<longrightarrow> scalar_member (\<lambda>_. True) v' \<longrightarrow> P k v') \<and>
      (\<forall>k v p. P k v \<longrightarrow> k \<notin> set names \<longrightarrow> P k (snd (convert_fields names co v p))))"

lemma survivesD:
  "survives names co P \<Longrightarrow> P k v \<Longrightarrow> k \<in> set names \<Longrightarrow> scalar_member (\<lambda>_. True) v' \<Longrightarrow> P k v'"
  "survives names co P \<Longrightarrow> P k v \<Longrightarrow> k \<notin> set names \<Longrightarrow> convert_fields names co v p = (vs, v') \<Longrightarrow> P k v'"
  unfolding survives_def by blast (metis snd_conv)

lemma convert_fields_keeps:
  "survives names co P \<Longrightarrow> coerces co (\<lambda>_. True) \<Longrightarrow> all_members P t \<Longrightarrow> convert_fields names co t path = (vs, t') \<Longrightarrow>
    all_members P t'"
  "survives names co P \<Longrightarrow> coerces co (\<lambda>_. True) \<Longrightarrow> all_entries P kvs \<Longrightarrow>
    convert_entries names co kvs path = (vs, kvs') \<Longrightarrow> all_entries P kvs'"
  "survives names co P \<Longrightarrow> coerces co (\<lambda>_. True) \<Longrightarrow> all_items P xs \<Longrightarrow> convert_items names co xs i path = (vs, xs') \<Longrightarrow>
    all_items P xs'"
  by (induction names co t path and names co kvs path and names co xs i path arbitrary: vs t' and vs kvs' and vs xs'
      rule: convert_fields_convert_entries_convert_items.induct)
    (auto simp: Let_def intro: coercesD coerced_leaf dest: survivesD split: prod.splits if_splits sum.splits)

lemma convert_fields_scalar: "scalar_member R v \<Longrightarrow> convert_fields names co v p = ([], v)"
  by (auto simp: scalar_member_cases)

lemma survives_typed:
  assumes "set names \<inter> set names' = {}"
  shows "survives names co (typed_member names' R)"
  using assms by (auto simp: survives_def convert_fields_scalar)

lemma survives_key: "survives names co (\<lambda>k v. P k)"
  by (simp add: survives_def)

lemma coerces_duration: "coerces (coerce_duration_field frac) (\<lambda>d. min_int64 \<le> d \<and> d \<le> max_int64)"
  by (auto simp: coerces_def coerce_duration_field_def scalar_member_def int64_bounds dest: parse_duration_range
      split: json.splits if_splits option.splits)

lemma coerces_byte_size: "coerces coerce_byte_size_field (\<lambda>n. 0 \<le> n \<and> n \<le> max_int64)"
  by (auto simp: coerces_def coerce_byte_size_field_def scalar_member_def dest: parse_byte_size_range
      split: json.splits if_splits sum.splits)

lemma coerces_any: "coerces co R \<Longrightarrow> coerces co (\<lambda>_. True)"
  by (force simp: coerces_def scalar_member_cases)

lemma field_names_disjoint: "set duration_fields \<inter> set size_fields = {}"
  by code_simp

lemma field_names_apart: "is_duration k \<Longrightarrow> \<not> is_size k" "is_size k \<Longrightarrow> \<not> is_duration k"
  using field_names_disjoint by blast+

section \<open>Formatting and reading back\<close>

definition int_member :: "(int \<Rightarrow> bool) \<Rightarrow> json \<Rightarrow> bool" where
  "int_member R v = (case v of JInt n \<Rightarrow> R n | _ \<Rightarrow> False)"

lemma int_member_cases: "int_member R v \<longleftrightarrow> (\<exists>n. v = JInt n \<and> R n)"
  by (cases v) (auto simp: int_member_def)

text \<open>\<open>co\<close> reads what \<open>fmt\<close> writes.\<close>

definition reads_back :: "(int \<Rightarrow> bytes option) \<Rightarrow> (json \<Rightarrow> bytes \<Rightarrow> field_violation + json) \<Rightarrow> (int \<Rightarrow> bool) \<Rightarrow> bool" where
  "reads_back fmt co R = (\<forall>n. R n \<longrightarrow> (\<exists>s. fmt n = Some s \<and> (\<forall>p. co (JStr s) p = Inr (JInt n))))"

lemma reads_backE:
  assumes "reads_back fmt co R" "int_member R v"
  obtains n s where "v = JInt n" "fmt n = Some s" "\<And>p. co (JStr s) p = Inr (JInt n)"
  using assms unfolding reads_back_def int_member_cases by blast

lemma format_then_convert:
  "reads_back fmt co R \<Longrightarrow> all_members (\<lambda>k v. k \<in> set names \<longrightarrow> int_member R v) t \<Longrightarrow>
    \<exists>t'. format_fields names fmt t = Some t' \<and> (\<forall>p. convert_fields names co t' p = ([], t))"
  "reads_back fmt co R \<Longrightarrow> all_entries (\<lambda>k v. k \<in> set names \<longrightarrow> int_member R v) kvs \<Longrightarrow>
    \<exists>kvs'. format_entries names fmt kvs = Some kvs' \<and> (\<forall>p. convert_entries names co kvs' p = ([], kvs))"
  "reads_back fmt co R \<Longrightarrow> all_items (\<lambda>k v. k \<in> set names \<longrightarrow> int_member R v) xs \<Longrightarrow>
    \<exists>xs'. format_items names fmt xs = Some xs' \<and> (\<forall>i p. convert_items names co xs' i p = ([], xs))"
proof (induction names fmt t and names fmt kvs and names fmt xs rule: format_fields_format_entries_format_items.induct)
  case (5 names fmt k child kvs)
  obtain kvs' where rest: "format_entries names fmt kvs = Some kvs'" "\<And>p. convert_entries names co kvs' p = ([], kvs)"
    using 5 by auto
  show ?case
  proof (cases "k \<in> set names")
    case True
    with 5(4) have m: "int_member R child" by simp
    obtain n s where "child = JInt n" "fmt n = Some s" "\<And>p. co (JStr s) p = Inr (JInt n)"
      using reads_backE[OF 5(3) m] by blast
    then show ?thesis using rest True by (simp add: json_number_int_def Let_def)
  next
    case False
    then obtain c where "format_fields names fmt child = Some c" "\<And>p. convert_fields names co c p = ([], child)"
      using 5 by auto
    then show ?thesis using rest False by (simp add: Let_def)
  qed
next
  case (7 names fmt x xs)
  then show ?case by (auto simp: Let_def)
qed (auto simp: Let_def)

lemma format_fields_commute:
  "set ns \<inter> set ms = {} \<Longrightarrow> format_fields ns f t = Some a \<Longrightarrow> format_fields ms g t = Some b \<Longrightarrow>
    \<exists>c. format_fields ms g a = Some c \<and> format_fields ns f b = Some c"
  "set ns \<inter> set ms = {} \<Longrightarrow> format_entries ns f kvs = Some as \<Longrightarrow> format_entries ms g kvs = Some bs \<Longrightarrow>
    \<exists>cs. format_entries ms g as = Some cs \<and> format_entries ns f bs = Some cs"
  "set ns \<inter> set ms = {} \<Longrightarrow> format_items ns f xs = Some ys \<Longrightarrow> format_items ms g xs = Some zs \<Longrightarrow>
    \<exists>cs. format_items ms g ys = Some cs \<and> format_items ns f zs = Some cs"
proof (induction ns f t and ns f kvs and ns f xs arbitrary: a b and as bs and ys zs
    rule: format_fields_format_entries_format_items.induct)
  case (5 ns f k child kvs)
  obtain x y as' bs' where x: "as = (k, x) # as'" "bs = (k, y) # bs'" and
    rest: "format_entries ns f kvs = Some as'" "format_entries ms g kvs = Some bs'" and
    ch: "(case (if k \<in> set ns then json_number_int child else None) of
           Some n \<Rightarrow> map_option JStr (f n) | None \<Rightarrow> format_fields ns f child) = Some x"
        "(case (if k \<in> set ms then json_number_int child else None) of
           Some n \<Rightarrow> map_option JStr (g n) | None \<Rightarrow> format_fields ms g child) = Some y"
    using 5(4,5) by auto
  obtain cs where cs: "format_entries ms g as' = Some cs" "format_entries ns f bs' = Some cs"
    using 5(2)[OF 5(3) rest] by blast
  show ?case
  proof (cases "json_number_int child")
    case None
    then have "format_fields ns f child = Some x" "format_fields ms g child = Some y" using ch by (simp_all split: if_splits)
    moreover from this obtain c where "format_fields ms g x = Some c" "format_fields ns f y = Some c"
      using 5(1) 5(3) None by (metis if_cancel)
    moreover have "json_number_int x = None" "json_number_int y = None"
      using None calculation(1,2) by (cases child; auto simp: json_number_int_def)+
    ultimately show ?thesis using x cs by simp
  next
    case (Some n)
    then have leaf: "format_fields ns' f' child = Some child" for ns' f'
      by (cases child) (auto simp: json_number_int_def)
    consider "k \<in> set ns" "k \<notin> set ms" | "k \<notin> set ns" "k \<in> set ms" | "k \<notin> set ns" "k \<notin> set ms"
      using 5(3) by blast
    then show ?thesis using x cs ch Some leaf by cases (auto simp: json_number_int_def)
  qed
next
  case (1 ns f kvs)
  then show ?case by fastforce
next
  case (2 ns f xs)
  then show ?case by fastforce
next
  case (7 ns f x xs)
  then show ?case by fastforce
qed auto

lemma format_fields_typed:
  "all_members (\<lambda>k v. k \<in> set ms \<longrightarrow> int_member R v) t \<Longrightarrow> set ns \<inter> set ms = {} \<Longrightarrow> format_fields ns f t = Some a \<Longrightarrow>
    all_members (\<lambda>k v. k \<in> set ms \<longrightarrow> int_member R v) a"
  "all_entries (\<lambda>k v. k \<in> set ms \<longrightarrow> int_member R v) kvs \<Longrightarrow> set ns \<inter> set ms = {} \<Longrightarrow> format_entries ns f kvs = Some as \<Longrightarrow>
    all_entries (\<lambda>k v. k \<in> set ms \<longrightarrow> int_member R v) as"
  "all_items (\<lambda>k v. k \<in> set ms \<longrightarrow> int_member R v) xs \<Longrightarrow> set ns \<inter> set ms = {} \<Longrightarrow> format_items ns f xs = Some ys \<Longrightarrow>
    all_items (\<lambda>k v. k \<in> set ms \<longrightarrow> int_member R v) ys"
  by (induction ns f t and ns f kvs and ns f xs arbitrary: a and as and ys
      rule: format_fields_format_entries_format_items.induct)
    (auto simp: int_member_cases split: option.splits if_splits)

lemma duration_reads_back:
  "reads_back format_duration (coerce_duration_field frac) (\<lambda>d. min_int64 < d \<and> d \<le> max_int64)"
  unfolding reads_back_def using duration_roundtrip[of _ frac]
  by (fastforce simp: bind_eq_Some_conv coerce_duration_field_def)

lemma byte_size_reads_back:
  "reads_back (\<lambda>n. Some (format_byte_size n)) coerce_byte_size_field (\<lambda>n. 0 \<le> n \<and> n \<le> max_int64)"
  unfolding reads_back_def using byte_size_roundtrip byte_size_not_bare by (simp add: coerce_byte_size_field_def)

definition wire_canonical :: "json \<Rightarrow> bool" where
  "wire_canonical t =
     (all_members (\<lambda>k v. is_duration k \<longrightarrow> int_member (\<lambda>d. min_int64 < d \<and> d \<le> max_int64) v) t \<and>
      all_members (\<lambda>k v. is_size k \<longrightarrow> int_member (\<lambda>n. 0 \<le> n \<and> n \<le> max_int64) v) t)"

lemma wire_canonical_roundtrip:
  "wire_canonical t \<Longrightarrow> \<exists>t'. format_wire_tree t = Some t' \<and> coerce_wire_tree frac t' = ([], t)"
proof -
  assume "wire_canonical t"
  then have d: "all_members (\<lambda>k v. is_duration k \<longrightarrow> int_member (\<lambda>d. min_int64 < d \<and> d \<le> max_int64) v) t"
    and z: "all_members (\<lambda>k v. is_size k \<longrightarrow> int_member (\<lambda>n. 0 \<le> n \<and> n \<le> max_int64) v) t"
    by (simp_all add: wire_canonical_def)
  have apart: "set size_fields \<inter> set duration_fields = {}" using field_names_disjoint by blast
  obtain a where a: "format_fields duration_fields format_duration t = Some a"
    using format_then_convert(1)[OF duration_reads_back d] by blast
  obtain b where b: "format_fields size_fields (\<lambda>n. Some (format_byte_size n)) t = Some b"
    "\<And>p. convert_fields size_fields coerce_byte_size_field b p = ([], t)"
    using format_then_convert(1)[OF byte_size_reads_back z] by blast
  obtain c where c: "format_fields size_fields (\<lambda>n. Some (format_byte_size n)) a = Some c"
    "format_fields duration_fields format_duration b = Some c"
    using format_fields_commute(1)[OF field_names_disjoint a b(1)] by blast
  obtain c' where "format_fields duration_fields format_duration b = Some c'"
    "\<And>p. convert_fields duration_fields (coerce_duration_field frac) c' p = ([], b)"
    using format_then_convert(1)[OF duration_reads_back format_fields_typed(1)[OF d apart b(1)]] by blast
  then show ?thesis using a b c
    by (simp add: format_wire_tree_def convert_duration_numbers_def convert_byte_size_numbers_def coerce_wire_tree_def
        convert_durations_def convert_byte_sizes_def)
qed

text \<open>
  The trees that are formatted come from a decoder with \<^verbatim>\<open>UseNumber\<close>: their numbers are literals.  Their
  durations and byte sizes as integers:
\<close>

fun json_ints :: "bytes list \<Rightarrow> json \<Rightarrow> json"
  and entries_ints :: "bytes list \<Rightarrow> (bytes \<times> json) list \<Rightarrow> (bytes \<times> json) list"
  and items_ints :: "bytes list \<Rightarrow> json list \<Rightarrow> json list" where
  "json_ints names (JObj kvs) = JObj (entries_ints names kvs)"
| "json_ints names (JArr xs) = JArr (items_ints names xs)"
| "json_ints names v = v"
| "entries_ints names [] = []"
| "entries_ints names ((k, child) # kvs) =
     (k, case (if k \<in> set names then json_number_int child else None) of Some n \<Rightarrow> JInt n | None \<Rightarrow> json_ints names child)
     # entries_ints names kvs"
| "items_ints names [] = []"
| "items_ints names (x # xs) = json_ints names x # items_ints names xs"

definition wire_ints :: "json \<Rightarrow> json" where
  "wire_ints t = json_ints duration_fields (json_ints size_fields t)"

definition number_member :: "(int \<Rightarrow> bool) \<Rightarrow> json \<Rightarrow> bool" where
  "number_member R v = (case json_number_int v of Some n \<Rightarrow> R n | None \<Rightarrow> False)"

definition wire_numbers :: "json \<Rightarrow> bool" where
  "wire_numbers t =
     (all_members (\<lambda>k v. is_duration k \<longrightarrow> number_member (\<lambda>d. min_int64 < d \<and> d \<le> max_int64) v) t \<and>
      all_members (\<lambda>k v. is_size k \<longrightarrow> number_member (\<lambda>n. 0 \<le> n \<and> n \<le> max_int64) v) t)"

lemma number_int_simps [simp]:
  "json_number_int (JInt n) = Some n" "json_number_int (json_ints names v) = json_number_int v"
  by (cases v; simp add: json_number_int_def)+

lemma number_leaf: "json_number_int v = Some n \<Longrightarrow> json_ints names v = v \<and> format_fields names fmt v = Some v \<and> all_members P v"
  by (cases v) (auto simp: json_number_int_def)

lemma format_number_int: "format_fields names fmt v = Some c \<Longrightarrow> json_number_int c = json_number_int v"
  by (cases v) (auto simp: json_number_int_def)

lemma format_ints_same:
  "format_fields names fmt (json_ints names t) = format_fields names fmt t"
  "format_entries names fmt (entries_ints names kvs) = format_entries names fmt kvs"
  "format_items names fmt (items_ints names xs) = format_items names fmt xs"
  by (induction names t and names kvs and names xs rule: json_ints_entries_ints_items_ints.induct)
    (auto split: option.splits)

lemma format_ints_other:
  "set ns \<inter> set ms = {} \<Longrightarrow> format_fields ns fmt (json_ints ms t) = map_option (json_ints ms) (format_fields ns fmt t)"
  "set ns \<inter> set ms = {} \<Longrightarrow> format_entries ns fmt (entries_ints ms kvs) = map_option (entries_ints ms) (format_entries ns fmt kvs)"
  "set ns \<inter> set ms = {} \<Longrightarrow> format_items ns fmt (items_ints ms xs) = map_option (items_ints ms) (format_items ns fmt xs)"
proof (induction ms t and ms kvs and ms xs rule: json_ints_entries_ints_items_ints.induct)
  case (5 ms k child kvs)
  have rest: "format_entries ns fmt (entries_ints ms kvs) = map_option (entries_ints ms) (format_entries ns fmt kvs)" using 5 by blast
  show ?case
  proof (cases "json_number_int child")
    case None
    have "format_fields ns fmt (json_ints ms child) = map_option (json_ints ms) (format_fields ns fmt child)" using 5 None by simp
    moreover have "json_number_int c = None" if "format_fields ns fmt child = Some c" for c using format_number_int[OF that] None by simp
    ultimately show ?thesis using None rest
      by (cases "format_fields ns fmt child"; cases "format_entries ns fmt kvs") (auto simp: cons_option_def)
  next
    case (Some n)
    note leaf = number_leaf[OF Some]
    consider "k \<in> set ns" "k \<notin> set ms" | "k \<notin> set ns" "k \<in> set ms" | "k \<notin> set ns" "k \<notin> set ms" using 5(3) by blast
    then show ?thesis
      using rest Some leaf by cases (cases "fmt n"; cases "format_entries ns fmt kvs"; auto simp: cons_option_def)+
  qed
next
  case (7 ms x xs)
  then show ?case by (cases "format_fields ns fmt x"; cases "format_items ns fmt xs") (auto simp: cons_option_def)
qed (simp_all add: option.map_comp o_def)

lemma number_members_ints:
  "all_members (\<lambda>k v. k \<in> set ms \<longrightarrow> number_member R v) t \<Longrightarrow> all_members (\<lambda>k v. k \<in> set ms \<longrightarrow> number_member R v) (json_ints ns t)"
  "all_entries (\<lambda>k v. k \<in> set ms \<longrightarrow> number_member R v) kvs \<Longrightarrow> all_entries (\<lambda>k v. k \<in> set ms \<longrightarrow> number_member R v) (entries_ints ns kvs)"
  "all_items (\<lambda>k v. k \<in> set ms \<longrightarrow> number_member R v) xs \<Longrightarrow> all_items (\<lambda>k v. k \<in> set ms \<longrightarrow> number_member R v) (items_ints ns xs)"
  by (induction ns t and ns kvs and ns xs rule: json_ints_entries_ints_items_ints.induct)
    (auto simp: number_member_def split: option.splits if_splits)

lemma int_members_ints:
  "all_members (\<lambda>k v. k \<in> set ms \<longrightarrow> number_member R v) t \<Longrightarrow> all_members (\<lambda>k v. k \<in> set ms \<longrightarrow> int_member R v) (json_ints ms t)"
  "all_entries (\<lambda>k v. k \<in> set ms \<longrightarrow> number_member R v) kvs \<Longrightarrow> all_entries (\<lambda>k v. k \<in> set ms \<longrightarrow> int_member R v) (entries_ints ms kvs)"
  "all_items (\<lambda>k v. k \<in> set ms \<longrightarrow> number_member R v) xs \<Longrightarrow> all_items (\<lambda>k v. k \<in> set ms \<longrightarrow> int_member R v) (items_ints ms xs)"
  by (induction ms t and ms kvs and ms xs rule: json_ints_entries_ints_items_ints.induct)
    (auto simp: number_member_def int_member_cases split: option.splits if_splits)

lemma int_members_other:
  "set ns \<inter> set ms = {} \<Longrightarrow> all_members (\<lambda>k v. k \<in> set ms \<longrightarrow> int_member R v) t \<Longrightarrow>
     all_members (\<lambda>k v. k \<in> set ms \<longrightarrow> int_member R v) (json_ints ns t)"
  "set ns \<inter> set ms = {} \<Longrightarrow> all_entries (\<lambda>k v. k \<in> set ms \<longrightarrow> int_member R v) kvs \<Longrightarrow>
     all_entries (\<lambda>k v. k \<in> set ms \<longrightarrow> int_member R v) (entries_ints ns kvs)"
  "set ns \<inter> set ms = {} \<Longrightarrow> all_items (\<lambda>k v. k \<in> set ms \<longrightarrow> int_member R v) xs \<Longrightarrow>
     all_items (\<lambda>k v. k \<in> set ms \<longrightarrow> int_member R v) (items_ints ns xs)"
  by (induction ns t and ns kvs and ns xs rule: json_ints_entries_ints_items_ints.induct)
    (auto simp: int_member_cases split: option.splits if_splits)

lemma wire_ints_canonical:
  assumes "wire_numbers t"
  shows "wire_canonical (wire_ints t)"
proof -
  let ?D = "\<lambda>d. min_int64 < d \<and> d \<le> max_int64" and ?S = "\<lambda>n. 0 \<le> n \<and> n \<le> max_int64"
  have "all_members (\<lambda>k v. is_duration k \<longrightarrow> number_member ?D v) (json_ints size_fields t)"
    "all_members (\<lambda>k v. is_size k \<longrightarrow> int_member ?S v) (json_ints size_fields t)"
    using assms number_members_ints(1) int_members_ints(1) by (auto simp: wire_numbers_def)
  then show ?thesis
    using int_members_ints(1)[of duration_fields ?D] int_members_other(1)[OF field_names_disjoint, of ?S]
    by (simp add: wire_canonical_def wire_ints_def)
qed

lemma format_wire_ints: "format_wire_tree (wire_ints t) = format_wire_tree t"
proof -
  have "convert_duration_numbers (wire_ints t) = map_option (json_ints size_fields) (convert_duration_numbers t)"
    by (simp add: convert_duration_numbers_def wire_ints_def format_ints_same(1) format_ints_other(1)[OF field_names_disjoint])
  then show ?thesis
    by (cases "convert_duration_numbers t") (simp_all add: format_wire_tree_def convert_byte_size_numbers_def format_ints_same(1))
qed

text \<open>C20. Formatting a decoded tree, whose numbers are literals as the response encoder reads them, never hangs and
  reads back: when the durations and byte sizes in it are numbers in their ranges, coercing the formatted
  tree finds no violation and gives the tree again, with each of those members as the integer its
  literal stood for and everything else, other numbers included, as it was.\<close>

theorem wire_roundtrip:
  "wire_numbers t \<Longrightarrow> \<exists>t'. format_wire_tree t = Some t' \<and> coerce_wire_tree frac t' = ([], wire_ints t)"
  using wire_canonical_roundtrip[OF wire_ints_canonical, of t frac] by (simp add: format_wire_ints)

lemma wire_roundtrip_witness:
  "\<exists>t'. format_wire_tree (JObj [(''maxWait'', JNumber ''60000000000''), (''n'', JNumber ''3''), (''maxBytes'', JNumber ''5242880'')]) = Some t' \<and>
     coerce_wire_tree (\<lambda>f k un. 0) t' = ([], JObj [(''maxWait'', JInt 60000000000), (''n'', JNumber ''3''), (''maxBytes'', JInt 5242880)])"
proof -
  let ?t = "JObj [(''maxWait'', JNumber ''60000000000''), (''n'', JNumber ''3''), (''maxBytes'', JNumber ''5242880'')]"
  have n: "json_number_int (JNumber ''60000000000'') = Some 60000000000" "json_number_int (JNumber ''5242880'') = Some 5242880"
    unfolding json_number_int_def json.case
    by (subst parse_int64_digits; simp add: is_digit_def nat_of_digits_def digit_val_def byte_val_def max_int64_def)+
  have k: "is_duration ''maxWait''" "\<not> is_size ''maxWait''" "\<not> is_duration ''maxBytes''" "is_size ''maxBytes''" "\<not> is_duration ''n''" "\<not> is_size ''n''"
    by (simp_all add: duration_fields_def size_fields_def)
  have "wire_numbers ?t" by (simp add: wire_numbers_def number_member_def n k int64_bounds)
  moreover have "wire_ints ?t = JObj [(''maxWait'', JInt 60000000000), (''n'', JNumber ''3''), (''maxBytes'', JInt 5242880)]"
    by (simp add: wire_ints_def n k)
  ultimately show ?thesis using wire_roundtrip[of ?t] by simp
qed

end
