(* ===== verification/Config_Decode.thy ===== *)
theory Config_Decode
  imports Config_Tree "HOL-Library.List_Lexorder" "HOL-Library.Char_ord"
begin

text \<open>
  From a document to the typed state (\<^verbatim>\<open>internal/config/decode.go\<close>), the inspection of YAML nodes, the
  YAML rendering of a canonical tree (\<^verbatim>\<open>export.go\<close>) and the folding of member names in change
  requests (\<^verbatim>\<open>wire.go\<close>).  Parsers and the typed unmarshalling are arguments.
\<close>

section \<open>Defaults\<close>

text \<open>
  \<open>in_map k f m\<close> is \<^verbatim>\<open>ensureMap(m, k)\<close> followed by what the code does to the map it returns, \<open>f\<close>:
  nothing when the member is there and is not a map.
\<close>

definition in_map :: "bytes \<Rightarrow> ((bytes \<times> json) list \<Rightarrow> (bytes \<times> json) list) \<Rightarrow> (bytes \<times> json) list \<Rightarrow> (bytes \<times> json) list" where
  "in_map k f m = (case lookup m k of
       Some (JObj sub) \<Rightarrow> AList.update k (JObj (f sub)) m
     | Some _ \<Rightarrow> m
     | None \<Rightarrow> AList.update k (JObj (f [])) m)"

definition set_default :: "bytes \<Rightarrow> json \<Rightarrow> (bytes \<times> json) list \<Rightarrow> (bytes \<times> json) list" where
  "set_default k v m = (if lookup m k = None then AList.update k v m else m)"

fun set_defaults :: "(bytes \<times> json) list \<Rightarrow> (bytes \<times> json) list \<Rightarrow> (bytes \<times> json) list" where
  "set_defaults [] m = m"
| "set_defaults ((k, v) # ds) m = set_defaults ds (set_default k v m)"

definition listeners_defaults :: "(bytes \<times> json) list \<Rightarrow> (bytes \<times> json) list" where
  "listeners_defaults =
     in_map ''management'' (in_map ''tls''
         (set_defaults [(''enabled'', JBool False), (''certFile'', JStr []), (''keyFile'', JStr [])]) \<circ>
       set_defaults [(''address'', JStr '':1080''), (''restPath'', JStr ''/v1''), (''mcpPath'', JStr ''/mcp''),
         (''compatEnabled'', JBool True)]) \<circ>
     in_map ''smtp'' (set_defaults [(''address'', JStr '':1025'')])"

definition smtp_defaults :: "(bytes \<times> json) list \<Rightarrow> (bytes \<times> json) list" where
  "smtp_defaults =
     in_map ''admission'' (set_defaults [(''maxSessions'', JInt 256), (''maxSessionsPerIP'', JInt 32),
       (''maxInFlightData'', JInt 8), (''maxInFlightDataBytes'', JStr ''64MiB''), (''sessionTimeout'', JStr ''10m''),
       (''commandIdle'', JStr ''120s''), (''dataIdle'', JStr ''180s'')]) \<circ>
     in_map ''tls'' (set_defaults [(''mode'', JStr ''off''), (''required'', JBool False), (''certFile'', JStr []),
       (''keyFile'', JStr [])]) \<circ>
     in_map ''auth'' (set_defaults [(''mode'', JStr ''none''), (''username'', JStr []), (''passwordFile'', JStr [])]) \<circ>
     set_defaults [(''hostname'', JStr ''labmail.lab''), (''maxMessageBytes'', JStr ''10MiB''), (''maxRecipients'', JInt 100),
       (''hideExtensions'', JArr [])]"

definition store_defaults :: "(bytes \<times> json) list \<Rightarrow> (bytes \<times> json) list" where
  "store_defaults = set_defaults [(''maxMessages'', JInt 1000), (''maxBytes'', JStr ''256MiB''),
     (''fullPolicy'', JStr ''reject''), (''maxWait'', JStr ''60s''), (''spillDirectory'', JStr []),
     (''spillThreshold'', JStr ''256KiB'')]"

definition management_defaults :: "(bytes \<times> json) list \<Rightarrow> (bytes \<times> json) list" where
  "management_defaults =
     set_defaults [(''originAllowlist'', JArr []), (''bodyLimit'', JStr ''1MiB''), (''requestsPerSecond'', JInt 32),
       (''burst'', JInt 64), (''maxConcurrent'', JInt 256)] \<circ>
     in_map ''mcp'' (set_defaults [(''allowLegacyClients'', JBool False)]) \<circ>
     in_map ''auth'' (in_map ''basic'' (set_defaults [(''username'', JStr []), (''passwordFile'', JStr []),
         (''tokenRef'', JStr [])]) \<circ>
       set_defaults [(''mode'', JStr ''bearer_and_basic''), (''tokens'', JArr [])])"

definition observability_defaults :: "(bytes \<times> json) list \<Rightarrow> (bytes \<times> json) list" where
  "observability_defaults =
     in_map ''audit'' (set_defaults [(''ring'', JInt 128)]) \<circ>
     in_map ''metrics'' (set_defaults [(''listen'', JStr ''127.0.0.1:9090''), (''publicPath'', JBool False)]) \<circ>
     set_defaults [(''logLevel'', JStr ''info'')]"

definition spec_defaults :: "(bytes \<times> json) list \<Rightarrow> (bytes \<times> json) list" where
  "spec_defaults =
     in_map ''observability'' observability_defaults \<circ> in_map ''management'' management_defaults \<circ>
     in_map ''ui'' (set_defaults [(''enabled'', JBool True)]) \<circ> in_map ''store'' store_defaults \<circ>
     in_map ''smtp'' smtp_defaults \<circ> in_map ''listeners'' listeners_defaults"

definition apply_decode_defaults :: "json \<Rightarrow> json" where
  "apply_decode_defaults v = (case v of JObj root \<Rightarrow> JObj (in_map ''spec'' spec_defaults root) | _ \<Rightarrow> v)"

text \<open>What the defaults keep: any property of members that their own members have.\<close>

definition keeps_entries :: "(bytes \<Rightarrow> json \<Rightarrow> bool) \<Rightarrow> ((bytes \<times> json) list \<Rightarrow> (bytes \<times> json) list) \<Rightarrow> bool" where
  "keeps_entries P f = (\<forall>m. all_entries P m \<longrightarrow> all_entries P (f m))"

lemma all_entries_update: "all_entries P m \<Longrightarrow> P k v \<Longrightarrow> all_members P v \<Longrightarrow> all_entries P (AList.update k v m)"
  by (induction m) auto

lemma keeps_comp: "keeps_entries P f \<Longrightarrow> keeps_entries P g \<Longrightarrow> keeps_entries P (f \<circ> g)"
  by (simp add: keeps_entries_def)

lemma keeps_set_defaults: "all_entries P ds \<Longrightarrow> keeps_entries P (set_defaults ds)"
  unfolding keeps_entries_def
proof (induction ds)
  case (Cons d ds)
  then show ?case by (cases d) (auto simp: set_default_def intro: all_entries_update)
qed simp

lemma keeps_in_map:
  assumes "keeps_entries P f" "\<And>sub. P k (JObj sub)"
  shows "keeps_entries P (in_map k f)"
  unfolding keeps_entries_def in_map_def
proof (intro allI impI)
  fix m assume m: "all_entries P m"
  have "all_entries P sub" if "lookup m k = Some (JObj sub)" for sub
    using m map_of_SomeD[OF that] by (force simp: all_entries_set)
  then show "all_entries P (case lookup m k of Some (JObj sub) \<Rightarrow> AList.update k (JObj (f sub)) m | Some _ \<Rightarrow> m
      | None \<Rightarrow> AList.update k (JObj (f [])) m)"
    using m assms by (auto simp: keeps_entries_def intro!: all_entries_update split: option.splits json.splits)
qed

lemmas default_defs = listeners_defaults_def smtp_defaults_def store_defaults_def management_defaults_def
  observability_defaults_def spec_defaults_def

lemma apply_decode_defaults_unreserved:
  assumes "all_members unreserved v"
  shows "all_members unreserved (apply_decode_defaults v)"
proof -
  have "keeps_entries unreserved (in_map ''spec'' spec_defaults)"
    unfolding default_defs
    by (intro keeps_in_map keeps_comp keeps_set_defaults) code_simp+
  then show ?thesis using assms by (auto simp: apply_decode_defaults_def keeps_entries_def split: json.splits)
qed

section \<open>Unknown fields\<close>

text \<open>The Go types the check walks: the fields of a struct by their JSON names.\<close>

datatype go_type = TStruct "(bytes \<times> go_type) list" | TTime | TSlice go_type | TPointer go_type | TMap | TScalar

fun elem_type :: "go_type \<Rightarrow> go_type" where
  "elem_type (TPointer t) = elem_type t"
| "elem_type t = t"

fun unknown_fields :: "json \<Rightarrow> go_type \<Rightarrow> bytes \<Rightarrow> field_violation list"
  and unknown_entries :: "(bytes \<times> json) list \<Rightarrow> (bytes \<times> go_type) list \<Rightarrow> bytes \<Rightarrow> field_violation list"
  and unknown_items :: "json list \<Rightarrow> go_type \<Rightarrow> nat \<Rightarrow> bytes \<Rightarrow> field_violation list" where
  "unknown_fields (JObj kvs) ty path = (case elem_type ty of TStruct fs \<Rightarrow> unknown_entries kvs fs path | _ \<Rightarrow> [])"
| "unknown_fields (JArr xs) ty path = (case elem_type ty of TSlice t \<Rightarrow> unknown_items xs t 0 path | _ \<Rightarrow> [])"
| "unknown_fields _ ty path = []"
| "unknown_entries [] fs path = []"
| "unknown_entries ((k, child) # kvs) fs path =
     (case lookup fs k of
        None \<Rightarrow> [violation (join_path path k) ''unknown_field'' (''unknown field '' @ go_quote k)]
      | Some ft \<Rightarrow> unknown_fields child ft (join_path path k)) @ unknown_entries kvs fs path"
| "unknown_items [] t i path = []"
| "unknown_items (x # xs) t i path = unknown_fields x t (index_path path i) @ unknown_items xs t (Suc i) path"

fun fields_known :: "json \<Rightarrow> go_type \<Rightarrow> bool"
  and entries_known :: "(bytes \<times> json) list \<Rightarrow> (bytes \<times> go_type) list \<Rightarrow> bool"
  and items_known :: "json list \<Rightarrow> go_type \<Rightarrow> bool" where
  "fields_known (JObj kvs) ty = (case elem_type ty of TStruct fs \<Rightarrow> entries_known kvs fs | _ \<Rightarrow> True)"
| "fields_known (JArr xs) ty = (case elem_type ty of TSlice t \<Rightarrow> items_known xs t | _ \<Rightarrow> True)"
| "fields_known _ ty = True"
| "entries_known [] fs = True"
| "entries_known ((k, child) # kvs) fs = ((\<exists>ft \<in> set_option (lookup fs k). fields_known child ft) \<and> entries_known kvs fs)"
| "items_known [] t = True"
| "items_known (x # xs) t = (fields_known x t \<and> items_known xs t)"

lemma unknown_fields_none:
  "unknown_fields v ty path = [] \<longleftrightarrow> fields_known v ty"
  "unknown_entries kvs fs path = [] \<longleftrightarrow> entries_known kvs fs"
  "unknown_items xs t i path = [] \<longleftrightarrow> items_known xs t"
  by (induction v ty path and kvs fs path and xs t i path rule: unknown_fields_unknown_entries_unknown_items.induct)
    (auto split: go_type.splits option.splits)

text \<open>The types of \<^verbatim>\<open>model.State\<close> (\<^verbatim>\<open>internal/model\<close>), a field of a scalar type as \<open>scalars\<close>.\<close>

definition scalars :: "bytes list \<Rightarrow> (bytes \<times> go_type) list" where
  "scalars ns = map (\<lambda>n. (n, TScalar)) ns"

definition listeners_type :: go_type where
  "listeners_type = TStruct [(''smtp'', TStruct (scalars [''address''])),
     (''management'', TStruct (scalars [''address'', ''restPath'', ''mcpPath'', ''compatEnabled''] @
       [(''tls'', TStruct (scalars [''enabled'', ''certFile'', ''keyFile'']))]))]"

definition admission_type :: go_type where
  "admission_type = TStruct (scalars [''maxSessions'', ''maxSessionsPerIP'', ''maxInFlightData'', ''maxInFlightDataBytes'',
     ''sessionTimeout'', ''commandIdle'', ''dataIdle''])"

definition behavior_type :: go_type where
  "behavior_type = TStruct (scalars [''greetingDelay'', ''commandDelay'', ''dropOnConnect'', ''closeAfterVerb''] @
     [(''replies'', TStruct (scalars [''greeting'', ''helo'', ''ehlo'', ''mail'', ''rcpt'', ''data'', ''dataEnd'', ''rset'',
        ''noop'', ''vrfy'', ''auth'', ''starttls'', ''unknown'']))])"

definition smtp_type :: go_type where
  "smtp_type = TStruct (scalars [''hostname'', ''maxMessageBytes'', ''maxRecipients''] @
     [(''hideExtensions'', TSlice TScalar),
      (''auth'', TStruct (scalars [''mode'', ''username'', ''passwordFile''])),
      (''tls'', TStruct (scalars [''mode'', ''required'', ''certFile'', ''keyFile''])),
      (''admission'', admission_type), (''behavior'', behavior_type)])"

definition management_type :: go_type where
  "management_type = TStruct ([(''auth'', TStruct (scalars [''mode''] @
        [(''tokens'', TSlice (TStruct (scalars [''id'', ''secretFile'', ''role''] @ [(''scopes'', TSlice TScalar)]))),
         (''basic'', TStruct (scalars [''username'', ''passwordFile'', ''tokenRef'']))])),
      (''mcp'', TStruct (scalars [''allowLegacyClients''])), (''originAllowlist'', TSlice TScalar)] @
     scalars [''bodyLimit'', ''requestsPerSecond'', ''burst'', ''maxConcurrent''])"

definition state_type :: go_type where
  "state_type = TStruct (scalars [''apiVersion'', ''kind''] @
     [(''metadata'', TStruct (scalars [''name''] @ [(''labels'', TMap)])),
      (''spec'', TStruct [(''listeners'', listeners_type), (''smtp'', smtp_type),
        (''store'', TStruct (scalars [''maxMessages'', ''maxBytes'', ''fullPolicy'', ''maxWait'', ''spillDirectory'',
           ''spillThreshold''])),
        (''ui'', TStruct (scalars [''enabled''])), (''management'', management_type),
        (''observability'', TStruct (scalars [''logLevel''] @
           [(''metrics'', TStruct (scalars [''listen'', ''publicPath''])), (''audit'', TStruct (scalars [''ring'']))]))])])"

section \<open>Decoding\<close>

definition last_index :: "char \<Rightarrow> bytes \<Rightarrow> nat option" where
  "last_index c s = map_option (\<lambda>i. length s - Suc i) (index_byte c (rev s))"

definition map_json_decode_error :: "bytes \<Rightarrow> domain_error" where
  "map_json_decode_error msg =
     (if contains ''unknown field'' msg then
        let field = (case index_byte (CHR 0x22) msg of
            None \<Rightarrow> msg
          | Some i \<Rightarrow> (case last_index (CHR 0x22) msg of
              Some j \<Rightarrow> if j > i then take (j - i - 1) (drop (i + 1) msg) else msg
            | None \<Rightarrow> msg))
        in validation_failed ''unknown fields'' [violation field ''unknown_field'' ''unknown field'']
      else validation_failed ''JSON decode failed'' [violation [] ''invalid_value'' msg])"

definition map_yaml_error :: "bytes \<Rightarrow> domain_error" where
  "map_yaml_error msg =
     (if contains ''not found'' msg \<or> contains ''unknown field'' msg then
        let field = (case index_byte (CHR 0x22) msg of
            None \<Rightarrow> msg
          | Some i \<Rightarrow> (case index_byte (CHR 0x22) (drop (i + 1) msg) of
              Some j \<Rightarrow> take j (drop (i + 1) msg)
            | None \<Rightarrow> msg))
        in validation_failed ''unknown fields''
             [violation field ''unknown_field'' (''unknown field '' @ go_quote field)]
      else validation_failed ''YAML decode failed'' [violation [] ''invalid_value'' msg])"

text \<open>
  \<open>um\<close> is the re-encoding of the tree and its decoding into the typed state, with the decoder's
  error text; \<open>frac\<close> the floating-point part of \<open>time.ParseDuration\<close>.
\<close>

definition decode_raw :: "(int \<Rightarrow> nat \<Rightarrow> int \<Rightarrow> int) \<Rightarrow> (json \<Rightarrow> bytes + 's) \<Rightarrow> json \<Rightarrow> domain_error + 's" where
  "decode_raw frac um raw =
     (let rs = reserved_fields raw [] in
      if rs \<noteq> [] then Inl (validation_failed ''reserved fields'' rs)
      else let (ds, raw1) = convert_durations frac (apply_decode_defaults raw) [] in
      if ds \<noteq> [] then Inl (validation_failed ''invalid durations'' ds)
      else let (bs, raw2) = convert_byte_sizes raw1 [] in
      if bs \<noteq> [] then Inl (validation_failed ''invalid byte sizes'' bs)
      else let us = unknown_fields raw2 state_type [] in
      if us \<noteq> [] then Inl (validation_failed ''unknown fields'' us)
      else case um raw2 of Inl e \<Rightarrow> Inl (map_json_decode_error e) | Inr st \<Rightarrow> Inr st)"

definition admitted_tree :: "json \<Rightarrow> bool" where
  "admitted_tree t = (all_members unreserved t \<and>
     all_members (typed_member duration_fields (\<lambda>d. min_int64 \<le> d \<and> d \<le> max_int64)) t \<and>
     all_members (typed_member size_fields (\<lambda>n. 0 \<le> n \<and> n \<le> max_int64)) t \<and> fields_known t state_type)"

lemma decode_raw_accepts:
  assumes "decode_raw frac um raw = Inr st"
  shows "all_members unreserved raw \<and> (\<exists>t. um t = Inr st \<and> admitted_tree t)"
proof -
  obtain ds t1 where t1: "convert_durations frac (apply_decode_defaults raw) [] = (ds, t1)" by fastforce
  obtain bs t2 where t2: "convert_byte_sizes t1 [] = (bs, t2)" by fastforce
  have acc: "reserved_fields raw [] = []" "ds = []" "bs = []" "unknown_fields t2 state_type [] = []" "um t2 = Inr st"
    using assms by (auto simp: decode_raw_def Let_def t1 t2 split: if_splits sum.splits)
  then have raw: "all_members unreserved raw" by (simp add: reserved_fields_none)
  note d = t1[unfolded convert_durations_def \<open>ds = []\<close>] and z = t2[unfolded convert_byte_sizes_def \<open>bs = []\<close>]
  have u1: "all_members unreserved t1"
    using convert_fields_keeps(1)[OF survives_key coerces_any[OF coerces_duration]
        apply_decode_defaults_unreserved[OF raw] d] .
  have u2: "all_members unreserved t2"
    using convert_fields_keeps(1)[OF survives_key coerces_any[OF coerces_byte_size] u1 z] .
  have d1: "all_members (typed_member duration_fields (\<lambda>d. min_int64 \<le> d \<and> d \<le> max_int64)) t1"
    using convert_fields_typed(1)[OF coerces_duration d] .
  have apart: "set size_fields \<inter> set duration_fields = {}" using field_names_disjoint by blast
  have d2: "all_members (typed_member duration_fields (\<lambda>d. min_int64 \<le> d \<and> d \<le> max_int64)) t2"
    using convert_fields_keeps(1)[OF survives_typed[OF apart] coerces_any[OF coerces_byte_size] d1 z] .
  have "all_members (typed_member size_fields (\<lambda>n. 0 \<le> n \<and> n \<le> max_int64)) t2"
    using convert_fields_typed(1)[OF coerces_byte_size z] .
  then show ?thesis using raw acc u2 d2 unfolding admitted_tree_def unknown_fields_none by blast
qed

section \<open>YAML nodes\<close>

datatype yaml_kind = DocumentNode | SequenceNode | MappingNode | ScalarNode | AliasNode

datatype yaml_node =
  YNode (y_kind: yaml_kind) (y_tag: bytes) (y_value: bytes) (y_anchor: bytes) (y_content: "yaml_node list")

definition pair_violations :: "bytes \<Rightarrow> bytes list \<Rightarrow> bytes \<Rightarrow> field_violation list" where
  "pair_violations name seen path =
     (if name \<in> set seen then [violation (join_path path name) ''duplicate_key'' (''duplicate key '' @ go_quote name)] else []) @
     (let why = reserved_reason (normalize_key name) in
      if why \<noteq> [] then [violation (join_path path name) ''reserved_name'' (reserved_message name why)] else [])"

fun inspect_node :: "yaml_node \<Rightarrow> bytes \<Rightarrow> field_violation list"
  and inspect_all :: "yaml_node list \<Rightarrow> bytes \<Rightarrow> field_violation list"
  and inspect_pairs :: "yaml_node list \<Rightarrow> bytes list \<Rightarrow> bytes \<Rightarrow> field_violation list"
  and inspect_items :: "yaml_node list \<Rightarrow> nat \<Rightarrow> bytes \<Rightarrow> field_violation list" where
  "inspect_node (YNode kind tag value anchor content) path =
     (if kind = AliasNode \<or> anchor \<noteq> []
      then [violation path ''invalid_value'' ''YAML aliases and anchors are not allowed'']
      else case kind of
          DocumentNode \<Rightarrow> inspect_all content path
        | MappingNode \<Rightarrow> inspect_pairs content [] path
        | SequenceNode \<Rightarrow> inspect_items content 0 path
        | _ \<Rightarrow> [])"
| "inspect_all [] path = []"
| "inspect_all (c # cs) path = inspect_node c path @ inspect_all cs path"
| "inspect_pairs (k # v # rest) seen path =
     (let name = y_value k in
      if name = ''<<''
      then violation (join_path path name) ''invalid_value'' ''YAML merge keys are not allowed'' # inspect_pairs rest seen path
      else pair_violations name seen path @ inspect_node k (join_path path name) @ inspect_node v (join_path path name) @
           inspect_pairs rest (name # seen) path)"
| "inspect_pairs _ seen path = []"
| "inspect_items [] i path = []"
| "inspect_items (c # cs) i path = inspect_node c (index_path path i) @ inspect_items cs (Suc i) path"

text \<open>A document the inspection lets through.\<close>

fun clean_node :: "yaml_node \<Rightarrow> bool"
  and clean_all :: "yaml_node list \<Rightarrow> bool"
  and clean_pairs :: "yaml_node list \<Rightarrow> bytes list \<Rightarrow> bool" where
  "clean_node (YNode kind tag value anchor content) = (kind \<noteq> AliasNode \<and> anchor = [] \<and>
     (kind = MappingNode \<longrightarrow> clean_pairs content []) \<and> (kind \<in> {DocumentNode, SequenceNode} \<longrightarrow> clean_all content))"
| "clean_all [] = True"
| "clean_all (c # cs) = (clean_node c \<and> clean_all cs)"
| "clean_pairs (k # v # rest) seen = (y_value k \<noteq> ''<<'' \<and> y_value k \<notin> set seen \<and>
     reserved_reason (normalize_key (y_value k)) = [] \<and> clean_node k \<and> clean_node v \<and> clean_pairs rest (y_value k # seen))"
| "clean_pairs _ seen = True"

lemma inspect_clean:
  "inspect_node n path = [] \<longleftrightarrow> clean_node n"
  "inspect_all cs path = [] \<longleftrightarrow> clean_all cs"
  "inspect_pairs cs seen path = [] \<longleftrightarrow> clean_pairs cs seen"
  "inspect_items cs i path = [] \<longleftrightarrow> clean_all cs"
  by (induction n path and cs path and cs seen path and cs i path
      rule: inspect_node_inspect_all_inspect_pairs_inspect_items.induct)
    (auto simp: Let_def pair_violations_def split: yaml_kind.splits)

text \<open>The rendering of a tree; \<open>sprint\<close> is \<^verbatim>\<open>fmt.Sprint\<close> on the values it has no case for.\<close>

abbreviation yscalar :: "bytes \<Rightarrow> bytes \<Rightarrow> yaml_node" where
  "yscalar tag v \<equiv> YNode ScalarNode tag v [] []"

fun to_yaml_node :: "(json \<Rightarrow> bytes) \<Rightarrow> json \<Rightarrow> yaml_node"
  and yaml_entries :: "(json \<Rightarrow> bytes) \<Rightarrow> (bytes \<times> json) list \<Rightarrow> (bytes \<times> yaml_node) list"
  and yaml_items :: "(json \<Rightarrow> bytes) \<Rightarrow> json list \<Rightarrow> yaml_node list" where
  "to_yaml_node sprint JNull = yscalar ''!!null'' ''null''"
| "to_yaml_node sprint (JBool b) = yscalar ''!!bool'' (if b then ''true'' else ''false'')"
| "to_yaml_node sprint (JStr s) = yscalar ''!!str'' s"
| "to_yaml_node sprint (JNumber s) = yscalar ''!!int'' s"
| "to_yaml_node sprint (JFloat s n) = yscalar ''!!float'' s"
| "to_yaml_node sprint (JInt n) = yscalar ''!!int'' (int_str n)"
| "to_yaml_node sprint (JArr xs) = YNode SequenceNode ''!!seq'' [] [] (yaml_items sprint xs)"
| "to_yaml_node sprint (JObj kvs) = YNode MappingNode ''!!map'' [] []
     (concat (map (\<lambda>(k, n). [yscalar ''!!str'' k, n]) (sort_key fst (yaml_entries sprint kvs))))"
| "to_yaml_node sprint v = yscalar ''!!str'' (trim_space (sprint v))"
| "yaml_entries sprint [] = []"
| "yaml_entries sprint ((k, v) # kvs) = (k, to_yaml_node sprint v) # yaml_entries sprint kvs"
| "yaml_items sprint [] = []"
| "yaml_items sprint (x # xs) = to_yaml_node sprint x # yaml_items sprint xs"

fun distinct_members :: "json \<Rightarrow> bool"
  and distinct_entries :: "(bytes \<times> json) list \<Rightarrow> bool"
  and distinct_items :: "json list \<Rightarrow> bool" where
  "distinct_members (JObj kvs) = (distinct (keys kvs) \<and> distinct_entries kvs)"
| "distinct_members (JArr xs) = distinct_items xs"
| "distinct_members _ = True"
| "distinct_entries [] = True"
| "distinct_entries ((k, v) # kvs) = (distinct_members v \<and> distinct_entries kvs)"
| "distinct_items [] = True"
| "distinct_items (x # xs) = (distinct_members x \<and> distinct_items xs)"

abbreviation exportable :: "bytes \<Rightarrow> json \<Rightarrow> bool" where
  "exportable k v \<equiv> k \<noteq> ''<<'' \<and> reserved_reason (normalize_key k) = []"

lemma clean_pairs_map:
  "clean_pairs (concat (map (\<lambda>(k, n). [yscalar t k, n]) es)) seen \<longleftrightarrow>
     distinct (map fst es) \<and> (\<forall>e \<in> set es. fst e \<notin> set seen) \<and>
     (\<forall>(k, n) \<in> set es. exportable k JNull \<and> clean_node n)"
  by (induction es arbitrary: seen) (auto, force+)

lemma keys_yaml_entries [simp]: "map fst (yaml_entries sprint kvs) = keys kvs"
  by (induction kvs) auto

lemma to_yaml_clean:
  "all_members exportable t \<Longrightarrow> distinct_members t \<Longrightarrow> clean_node (to_yaml_node sprint t)"
  "all_entries exportable kvs \<Longrightarrow> distinct_entries kvs \<Longrightarrow>
     \<forall>(k, n) \<in> set (yaml_entries sprint kvs). exportable k JNull \<and> clean_node n"
  "all_items exportable xs \<Longrightarrow> distinct_items xs \<Longrightarrow> clean_all (yaml_items sprint xs)"
proof (induction sprint t and sprint kvs and sprint xs rule: to_yaml_node_yaml_entries_yaml_items.induct)
  case (8 sprint kvs)
  have "distinct (map fst (sort_key fst (yaml_entries sprint kvs)))"
    using 8(3) by (metis distinct_members.simps(1) distinct_sort keys_yaml_entries distinct_map set_sort distinct_map[of fst]
        inj_on_def)
  then show ?case using 8 by (simp add: clean_pairs_map)
qed auto

lemma export_inspects:
  "all_members exportable t \<Longrightarrow> distinct_members t \<Longrightarrow> inspect_node (to_yaml_node sprint t) path = []"
  by (simp add: inspect_clean to_yaml_clean)

text \<open>\<^verbatim>\<open>stringifyKeys\<close>: \<open>sprint\<close> is \<^verbatim>\<open>fmt.Sprint\<close> of a key.\<close>

fun stringify_keys :: "(json \<Rightarrow> bytes) \<Rightarrow> json \<Rightarrow> json"
  and stringify_entries :: "(json \<Rightarrow> bytes) \<Rightarrow> (bytes \<times> json) list \<Rightarrow> (bytes \<times> json) list"
  and stringify_mixed :: "(json \<Rightarrow> bytes) \<Rightarrow> (json \<times> json) list \<Rightarrow> (bytes \<times> json) list \<Rightarrow> (bytes \<times> json) list"
  and stringify_items :: "(json \<Rightarrow> bytes) \<Rightarrow> json list \<Rightarrow> json list" where
  "stringify_keys sprint (JObj kvs) = JObj (stringify_entries sprint kvs)"
| "stringify_keys sprint (JMixed kvs) = JObj (stringify_mixed sprint kvs [])"
| "stringify_keys sprint (JArr xs) = JArr (stringify_items sprint xs)"
| "stringify_keys sprint v = v"
| "stringify_entries sprint [] = []"
| "stringify_entries sprint ((k, v) # kvs) = (k, stringify_keys sprint v) # stringify_entries sprint kvs"
| "stringify_mixed sprint [] out = out"
| "stringify_mixed sprint ((k, v) # kvs) out =
     stringify_mixed sprint kvs (AList.update (sprint k) (stringify_keys sprint v) out)"
| "stringify_items sprint [] = []"
| "stringify_items sprint (x # xs) = stringify_keys sprint x # stringify_items sprint xs"

section \<open>Documents\<close>

text \<open>\<open>utf8.Valid\<close>.\<close>

definition between :: "nat \<Rightarrow> nat \<Rightarrow> char \<Rightarrow> bool" where
  "between a b c = (a \<le> byte_val c \<and> byte_val c \<le> b)"

fun utf8_valid :: "bytes \<Rightarrow> bool" where
  "utf8_valid [] = True"
| "utf8_valid (c # cs) =
     (if between 0 0x7F c then utf8_valid cs
      else case cs of
          [] \<Rightarrow> False
        | x # xs \<Rightarrow>
            if between 0xC2 0xDF c then between 0x80 0xBF x \<and> utf8_valid xs
            else case xs of
                [] \<Rightarrow> False
              | y # ys \<Rightarrow>
                  if between 0xE0 0xEF c
                  then between (if between 0xE0 0xE0 c then 0xA0 else 0x80) (if between 0xED 0xED c then 0x9F else 0xBF) x \<and>
                       between 0x80 0xBF y \<and> utf8_valid ys
                  else case ys of
                      [] \<Rightarrow> False
                    | z # zs \<Rightarrow> between 0xF0 0xF4 c \<and>
                        between (if between 0xF0 0xF0 c then 0x90 else 0x80) (if between 0xF4 0xF4 c then 0x8F else 0xBF) x \<and>
                        between 0x80 0xBF y \<and> between 0x80 0xBF z \<and> utf8_valid zs)"

declare utf8_valid.simps [simp del]

definition max_document_bytes :: nat where "max_document_bytes = 1048576"

definition strip_bom :: "bytes \<Rightarrow> bytes" where
  "strip_bom = trim_prefix [CHR 0xEF, CHR 0xBB, CHR 0xBF]"

definition looks_like_json :: "bytes \<Rightarrow> bool" where
  "looks_like_json data = (case trim_space data of [] \<Rightarrow> False | c # cs \<Rightarrow> c = CHR ''{'' \<or> c = CHR ''['')"

text \<open>
  The libraries: the JSON decoder (an error text, or the first value and whether more follows); the
  YAML decoder (the first node, whether the input ends after it, the error of the check of the
  top-level keys, and the value of a node); \<^verbatim>\<open>fmt.Sprint\<close>; and \<open>um\<close> and \<open>frac\<close> as above.
\<close>

datatype yaml_first = YamlEOF | YamlError bytes | YamlNode yaml_node

record 's config_libs =
  lib_json :: "bytes \<Rightarrow> bytes + json \<times> bool"
  lib_yaml :: "bytes \<Rightarrow> yaml_first"
  lib_yaml_end :: "bytes \<Rightarrow> bool"
  lib_yaml_top :: "bytes \<Rightarrow> bytes option"
  lib_yaml_value :: "yaml_node \<Rightarrow> bytes + json"
  lib_sprint :: "json \<Rightarrow> bytes"
  lib_unmarshal :: "json \<Rightarrow> bytes + 's"
  lib_frac :: "int \<Rightarrow> nat \<Rightarrow> int \<Rightarrow> int"

definition decode_json :: "'s config_libs \<Rightarrow> bytes \<Rightarrow> domain_error + 's" where
  "decode_json l data = (case lib_json l data of
       Inl e \<Rightarrow> Inl (validation_failed ''JSON decode failed'' [violation [] ''invalid_value'' e])
     | Inr (raw, extra) \<Rightarrow>
         if extra then Inl (validation_failed ''trailing JSON value''
           [violation [] ''invalid_value'' ''document contains more than one JSON value''])
         else decode_raw (lib_frac l) (lib_unmarshal l) raw)"

definition decode_yaml :: "'s config_libs \<Rightarrow> bytes \<Rightarrow> domain_error + 's" where
  "decode_yaml l data = (case lib_yaml l data of
       YamlEOF \<Rightarrow> Inl (validation_failed ''empty document'' [violation [] ''required'' ''document is empty''])
     | YamlError e \<Rightarrow> Inl (map_yaml_error e)
     | YamlNode node \<Rightarrow>
         if \<not> lib_yaml_end l data then Inl (validation_failed ''trailing YAML document''
           [violation [] ''invalid_value'' ''document contains more than one YAML value''])
         else let vs = inspect_node node [] in
         if vs \<noteq> [] then Inl (validation_failed ''invalid YAML document'' vs)
         else case lib_yaml_top l data of
             Some e \<Rightarrow> Inl (map_yaml_error e)
           | None \<Rightarrow> (case lib_yaml_value l node of
               Inl e \<Rightarrow> Inl (validation_failed ''YAML decode failed'' [violation [] ''invalid_value'' e])
             | Inr raw \<Rightarrow> decode_raw (lib_frac l) (lib_unmarshal l) (stringify_keys (lib_sprint l) raw)))"

definition decode :: "'s config_libs \<Rightarrow> bytes \<Rightarrow> domain_error + 's" where
  "decode l data0 =
     (if length data0 > max_document_bytes
      then Inl (validation_failed ''document exceeds size limit'' [violation [] ''document_too_large''
        (''document is '' @ nat_str (length data0) @ '' bytes; max is '' @ nat_str max_document_bytes)])
      else let data = strip_bom (trim_space data0) in
      if data = [] then Inl (validation_failed ''empty document'' [violation [] ''required'' ''document is empty''])
      else if \<not> utf8_valid data
      then Inl (validation_failed ''document is not UTF-8'' [violation [] ''invalid_value'' ''document must be UTF-8''])
      else if looks_like_json data then decode_json l data else decode_yaml l data)"

definition too_large_error :: domain_error where
  "too_large_error = validation_failed ''document exceeds size limit''
     [violation [] ''document_too_large'' ''document exceeds size limit'']"

definition decode_yaml_document :: "'s config_libs \<Rightarrow> bytes \<Rightarrow> domain_error + 's" where
  "decode_yaml_document l data =
     (if length data > max_document_bytes then Inl too_large_error else decode_yaml l (strip_bom data))"

definition decode_json_document :: "'s config_libs \<Rightarrow> bytes \<Rightarrow> domain_error + 's" where
  "decode_json_document l data =
     (if length data > max_document_bytes then Inl too_large_error else decode_json l (strip_bom data))"

text \<open>What the libraries make of an accepted document before the tree is walked.\<close>

definition read_as :: "'s config_libs \<Rightarrow> bytes \<Rightarrow> json \<Rightarrow> bool" where
  "read_as l data raw =
     (if looks_like_json data then lib_json l data = Inr (raw, False)
      else \<exists>n v. lib_yaml l data = YamlNode n \<and> lib_yaml_end l data \<and> clean_node n \<and> lib_yaml_top l data = None \<and>
        lib_yaml_value l n = Inr v \<and> raw = stringify_keys (lib_sprint l) v)"

lemma decode_reads:
  assumes "decode l data0 = Inr st"
  defines "data \<equiv> strip_bom (trim_space data0)"
  shows "length data0 \<le> max_document_bytes \<and> data \<noteq> [] \<and> utf8_valid data \<and>
    (\<exists>raw. read_as l data raw \<and> decode_raw (lib_frac l) (lib_unmarshal l) raw = Inr st)"
proof (cases "looks_like_json data")
  case True
  then show ?thesis using assms
    by (auto simp: decode_def decode_json_def read_as_def Let_def split: if_splits sum.splits)
next
  case False
  then have d: "length data0 \<le> max_document_bytes" "data \<noteq> []" "utf8_valid data" "decode_yaml l data = Inr st"
    using assms by (auto simp: decode_def Let_def split: if_splits)
  then show ?thesis using False
    by (auto simp: decode_yaml_def read_as_def Let_def inspect_clean split: yaml_first.splits if_splits option.splits sum.splits)
qed

text \<open>A document that decodes is at most a mebibyte of UTF-8, read to its end; none of its members
  at any depth has a reserved name; in YAML no alias, anchor, merge key or duplicate key occurs; and
  the typed state is unmarshalled from a tree in which every member is a known field and every
  duration and byte size is an integer in range or null.\<close>

lemma decode_accepts:
  "decode l data = Inr st \<Longrightarrow>
    length data \<le> max_document_bytes \<and> utf8_valid (strip_bom (trim_space data)) \<and>
    (\<exists>raw t. read_as l (strip_bom (trim_space data)) raw \<and> all_members unreserved raw \<and>
       lib_unmarshal l t = Inr st \<and> admitted_tree t)"
proof -
  assume "decode l data = Inr st"
  note r = decode_reads[OF this]
  then obtain raw where "read_as l (strip_bom (trim_space data)) raw"
    "decode_raw (lib_frac l) (lib_unmarshal l) raw = Inr st" by blast
  moreover from decode_raw_accepts[OF this(2)] obtain t where
    "all_members unreserved raw" "lib_unmarshal l t = Inr st" "admitted_tree t" by blast
  ultimately show ?thesis using r by (intro conjI exI[of _ raw] exI[of _ t]) simp_all
qed

definition demo_tree :: json where
  "demo_tree = JObj [(''kind'', JStr ''LabMail''), (''metadata'', JObj [(''name'', JStr ''lab'')]), (''spec'', JNull)]"

definition demo_libs :: "(json \<Rightarrow> bytes + 's) \<Rightarrow> 's config_libs" where
  "demo_libs um = \<lparr> lib_json = (\<lambda>s. if s = ''{}'' then Inr (demo_tree, False) else Inl ''unexpected''),
     lib_yaml = (\<lambda>s. YamlEOF), lib_yaml_end = (\<lambda>s. True), lib_yaml_top = (\<lambda>s. None),
     lib_yaml_value = (\<lambda>n. Inl []), lib_sprint = (\<lambda>v. []), lib_unmarshal = um, lib_frac = (\<lambda>f k un. 0) \<rparr>"

lemma demo_decode:
  assumes "um demo_tree = Inr st"
  shows "decode (demo_libs um) ''{}'' = Inr st"
proof -
  have s: "strip_bom (trim_space ''{}'') = ''{}''" "utf8_valid ''{}''" "looks_like_json ''{}''" by code_simp+
  have "reserved_reason (normalize_key ''kind'') = []" "reserved_reason (normalize_key ''metadata'') = []"
    "reserved_reason (normalize_key ''name'') = []" "reserved_reason (normalize_key ''spec'') = []" by code_simp+
  then have "reserved_fields demo_tree [] = []" by (simp add: demo_tree_def Let_def)
  moreover have "apply_decode_defaults demo_tree = demo_tree"
    by (simp add: demo_tree_def apply_decode_defaults_def in_map_def)
  moreover have "convert_durations (\<lambda>f k un. 0) demo_tree [] = ([], demo_tree)"
    "convert_byte_sizes demo_tree [] = ([], demo_tree)"
    by (simp_all add: demo_tree_def convert_durations_def convert_byte_sizes_def duration_fields_def size_fields_def)
  moreover have "unknown_fields demo_tree state_type [] = []"
    by (simp add: demo_tree_def state_type_def scalars_def)
  ultimately have "decode_json (demo_libs um) ''{}'' = Inr st"
    using assms by (simp add: decode_json_def decode_raw_def demo_libs_def)
  then show ?thesis using s by (simp add: decode_def max_document_bytes_def)
qed

lemma decode_accepts_witness:
  "\<exists>raw t. read_as (demo_libs Inr) ''{}'' raw \<and> all_members unreserved raw \<and>
     lib_unmarshal (demo_libs Inr) t = Inr demo_tree \<and> admitted_tree t"
proof -
  have "strip_bom (trim_space ''{}'') = ''{}''" by code_simp
  then show ?thesis using decode_accepts[OF demo_decode[of Inr, OF refl]] by simp
qed

end
