(* ===== verification/Config_Wire.thy ===== *)
theory Config_Wire
  imports Config_Decode
begin

text \<open>
  Change requests on the wire (\<^verbatim>\<open>internal/config/wire.go\<close>): member names that differ from a duration or
  byte-size name only in case are folded to it inside the operations, then the values are coerced.
  \<^verbatim>\<open>x[canon] = x[k]; delete(x, k)\<close> renames a member in place.
\<close>

section \<open>Folding member names\<close>

definition canonical_field :: "bytes list \<Rightarrow> bytes \<Rightarrow> bytes option" where
  "canonical_field names name = (if name \<in> set names then Some name else find (\<lambda>k. equal_fold k name) names)"

definition canonical_wire_field :: "bytes \<Rightarrow> bytes option" where
  "canonical_wire_field name = (case canonical_field duration_fields name of
       Some c \<Rightarrow> Some c | None \<Rightarrow> canonical_field size_fields name)"

definition fold_group :: "bytes list \<Rightarrow> bytes \<Rightarrow> bytes list" where
  "fold_group ks canon = filter (\<lambda>k. canonical_wire_field k = Some canon) ks"

definition duplicate_folds :: "bytes list \<Rightarrow> bytes \<Rightarrow> field_violation list" where
  "duplicate_folds ks path =
     map (\<lambda>canon. violation (join_path path canon) ''invalid_value'' ''duplicate key'')
       (filter (\<lambda>canon. length (fold_group ks canon) > 1) (remdups (List.map_filter canonical_wire_field ks)))"

definition folded_name :: "bytes list \<Rightarrow> bytes \<Rightarrow> bytes" where
  "folded_name ks k = (case canonical_wire_field k of
       None \<Rightarrow> k
     | Some canon \<Rightarrow> if length (fold_group ks canon) > 1 then k else canon)"

fun fold_wire_keys :: "json \<Rightarrow> bytes \<Rightarrow> field_violation list \<times> json"
  and fold_entries :: "(bytes \<Rightarrow> bytes) \<Rightarrow> (bytes \<times> json) list \<Rightarrow> bytes \<Rightarrow> field_violation list \<times> (bytes \<times> json) list"
  and fold_items :: "json list \<Rightarrow> nat \<Rightarrow> bytes \<Rightarrow> field_violation list \<times> json list" where
  "fold_wire_keys (JObj kvs) path =
     (let (vs, kvs') = fold_entries (folded_name (keys kvs)) kvs path
      in (duplicate_folds (keys kvs) path @ vs, JObj kvs'))"
| "fold_wire_keys (JArr xs) path = (let (vs, xs') = fold_items xs 0 path in (vs, JArr xs'))"
| "fold_wire_keys v path = ([], v)"
| "fold_entries ren [] path = ([], [])"
| "fold_entries ren ((k, v) # kvs) path =
     (let (vs, v') = fold_wire_keys v (join_path path (ren k)); (ws, kvs') = fold_entries ren kvs path
      in (vs @ ws, (ren k, v') # kvs'))"
| "fold_items [] i path = ([], [])"
| "fold_items (x # xs) i path =
     (let (vs, x') = fold_wire_keys x (index_path path i); (ws, xs') = fold_items xs (Suc i) path
      in (vs @ ws, x' # xs'))"

definition fold_operations_member :: "(bytes \<times> json) list \<Rightarrow> field_violation list \<times> (bytes \<times> json) list" where
  "fold_operations_member x = (case filter (\<lambda>k. equal_fold k ''operations'') (keys x) of
       [] \<Rightarrow> ([], x)
     | [k] \<Rightarrow> (case lookup x k of
           Some ops \<Rightarrow> if ops = JNull then ([], x)
             else let (vs, ops') = fold_wire_keys ops ''operations'' in (vs, AList.update k ops' x)
         | None \<Rightarrow> ([], x))
     | _ \<Rightarrow> ([violation ''operations'' ''duplicate_key'' (''duplicate key '' @ go_quote ''operations'')], x))"

definition coerce_wire_change :: "(int \<Rightarrow> nat \<Rightarrow> int \<Rightarrow> int) \<Rightarrow> json \<Rightarrow> field_violation list \<times> json" where
  "coerce_wire_change frac v =
     (let (folded, v') = (case v of
          JObj x \<Rightarrow> (let (vs, x') = fold_operations_member x in (vs, JObj x'))
        | JArr xs \<Rightarrow> fold_wire_keys v []
        | _ \<Rightarrow> ([], v))
      in if folded \<noteq> [] then (folded, v') else coerce_wire_tree frac v')"

abbreviation canonical_name :: "bytes \<Rightarrow> json \<Rightarrow> bool" where
  "canonical_name k v \<equiv> canonical_wire_field k \<in> {None, Some k}"

lemma canonical_field_member: "canonical_field names k = Some c \<Longrightarrow> c \<in> set names"
  by (auto simp: canonical_field_def find_Some_iff split: if_splits)

lemma canonical_names: "\<forall>c \<in> set (duration_fields @ size_fields). canonical_wire_field c = Some c"
  by code_simp

lemma canonical_wire_fixed: "canonical_wire_field k = Some c \<Longrightarrow> canonical_wire_field c = Some c"
  using canonical_names canonical_field_member[of _ k c]
  by (auto simp: canonical_wire_field_def[of k] split: option.splits)

lemma canonical_wire_known: "k \<in> set (duration_fields @ size_fields) \<Longrightarrow> canonical_wire_field k = Some k"
  using canonical_names by blast

lemma folded_name_canonical:
  assumes "duplicate_folds ks path = []" "k \<in> set ks"
  shows "canonical_wire_field (folded_name ks k) \<in> {None, Some (folded_name ks k)}"
proof (cases "canonical_wire_field k")
  case (Some c)
  with assms(2) have "c \<in> set (List.map_filter canonical_wire_field ks)"
    by (force simp: List.map_filter_def)
  then have "\<not> length (fold_group ks c) > 1" using assms(1) by (auto simp: duplicate_folds_def filter_empty_conv)
  then show ?thesis using Some canonical_wire_fixed by (simp add: folded_name_def)
qed (simp add: folded_name_def)

lemma fold_wire_canonical:
  "fold_wire_keys v path = ([], v') \<Longrightarrow> all_members canonical_name v'"
  "fold_entries ren kvs path = ([], kvs') \<Longrightarrow> \<forall>k \<in> set (keys kvs). canonical_wire_field (ren k) \<in> {None, Some (ren k)} \<Longrightarrow>
    all_entries canonical_name kvs'"
  "fold_items xs i path = ([], xs') \<Longrightarrow> all_items canonical_name xs'"
proof (induction v path and ren kvs path and xs i path arbitrary: v' and kvs' and xs'
    rule: fold_wire_keys_fold_entries_fold_items.induct)
  case (1 kvs path)
  then show ?case using folded_name_canonical by (auto simp: Let_def split: prod.splits)
qed (auto simp: Let_def split: prod.splits)

text \<open>A member of a wire document after its coercion.\<close>

definition wire_member :: "bytes \<Rightarrow> json \<Rightarrow> bool" where
  "wire_member k v = (canonical_wire_field k \<in> {None, Some k} \<and>
     (is_duration k \<longrightarrow> scalar_member (\<lambda>d. min_int64 \<le> d \<and> d \<le> max_int64) v) \<and>
     (is_size k \<longrightarrow> scalar_member (\<lambda>n. 0 \<le> n \<and> n \<le> max_int64) v))"

lemma coerced_members:
  assumes "convert_fields duration_fields (coerce_duration_field frac) v p = ([], v1)"
    and "convert_fields size_fields coerce_byte_size_field v1 q = ([], v2)" and "all_members canonical_name v"
  shows "all_members wire_member v2"
proof -
  have apart: "set size_fields \<inter> set duration_fields = {}" using field_names_disjoint by blast
  have "all_members canonical_name v2"
    using convert_fields_keeps(1)[OF survives_key coerces_any[OF coerces_byte_size]
        convert_fields_keeps(1)[OF survives_key coerces_any[OF coerces_duration] assms(3,1)] assms(2)] .
  moreover have "all_members (typed_member duration_fields (\<lambda>d. min_int64 \<le> d \<and> d \<le> max_int64)) v2"
    using convert_fields_keeps(1)[OF survives_typed[OF apart] coerces_any[OF coerces_byte_size]
        convert_fields_typed(1)[OF coerces_duration assms(1)] assms(2)] .
  ultimately have "all_members (\<lambda>k v. canonical_name k v \<and>
      (typed_member duration_fields (\<lambda>d. min_int64 \<le> d \<and> d \<le> max_int64) k v \<and>
       typed_member size_fields (\<lambda>n. 0 \<le> n \<and> n \<le> max_int64) k v)) v2"
    using convert_fields_typed(1)[OF coerces_byte_size assms(2)] by (intro all_members_conj(1))
  then show ?thesis by (rule all_members_mono(1)) (simp add: wire_member_def)
qed

lemma convert_entries_member:
  "convert_entries names co kvs path = ([], kvs') \<Longrightarrow> (k, v') \<in> set kvs' \<Longrightarrow> k \<notin> set names \<Longrightarrow>
    \<exists>v p. (k, v) \<in> set kvs \<and> convert_fields names co v p = ([], v')"
  by (induction kvs arbitrary: kvs') (auto simp: Let_def split: prod.splits if_splits, blast+)

text \<open>The operations of a change request: the list itself, or the members that name it.\<close>

definition operations_of :: "json \<Rightarrow> json list" where
  "operations_of v = (case v of JArr xs \<Rightarrow> [v]
     | JObj x \<Rightarrow> map snd (filter (\<lambda>(k, v). equal_fold k ''operations'') x) | _ \<Rightarrow> [])"

lemma operations_not_scalar: "equal_fold k ''operations'' \<Longrightarrow> k \<notin> set duration_fields \<and> k \<notin> set size_fields"
proof -
  have "\<forall>c \<in> set (duration_fields @ size_fields). \<not> equal_fold c ''operations''" by code_simp
  then show "equal_fold k ''operations'' \<Longrightarrow> k \<notin> set duration_fields \<and> k \<notin> set size_fields" by auto
qed

lemma folded_operations:
  assumes "fold_operations_member x = ([], x')" "distinct (keys x)" "(k, v) \<in> set x'" "equal_fold k ''operations''"
  shows "all_members canonical_name v"
proof (cases "filter (\<lambda>k. equal_fold k ''operations'') (keys x)")
  case Nil
  then show ?thesis using assms by (force simp: fold_operations_member_def filter_empty_conv)
next
  case (Cons k0 ks)
  with assms(1) have ks: "ks = []" by (cases ks) (auto simp: fold_operations_member_def)
  have "set (filter (\<lambda>k. equal_fold k ''operations'') (keys x)) = {k0}" using Cons ks by simp
  then have k0: "equal_fold k' ''operations'' \<and> k' \<in> set (keys x) \<longleftrightarrow> k' = k0" for k'
    unfolding set_filter by blast
  then obtain ops where ops: "lookup x k0 = Some ops" by (metis lookup_None_iff option.exhaust)
  show ?thesis
  proof (cases "ops = JNull")
    case True
    then have "x' = x" using assms(1) Cons ks ops by (simp add: fold_operations_member_def)
    moreover from this have "k = k0" using assms(3,4) k0 by force
    ultimately show ?thesis using assms(2,3) ops True by simp
  next
    case False
    then obtain ops' where o: "fold_wire_keys ops ''operations'' = ([], ops')" "x' = AList.update k0 ops' x"
      using assms(1) Cons ks ops by (auto simp: fold_operations_member_def split: prod.splits)
    have d: "distinct (keys x')" using o assms(2) by (simp add: distinct_keys_update)
    have "keys x' = keys x" using o(2) k0[of k0] by (simp add: update_keys)
    moreover have "k \<in> set (keys x')" using assms(3) by (metis fst_conv image_eqI list.set_map)
    ultimately have "k = k0" using assms(4) k0[of k] by simp
    then have "v = ops'" using assms(3) d o(2) by (metis lookup_update map_of_is_SomeI option.inject)
    then show ?thesis using fold_wire_canonical(1)[OF o(1)] by simp
  qed
qed

text \<open>C22. A change request that is coerced without a violation has, inside its operations, no duration
  or byte size under a name of another case, and every one of them is an integer in range or null.\<close>

theorem wire_change_canonical:
  "coerce_wire_change frac v = ([], v') \<Longrightarrow> (\<And>x. v = JObj x \<Longrightarrow> distinct (keys x)) \<Longrightarrow> ops \<in> set (operations_of v') \<Longrightarrow>
    all_members wire_member ops"
proof -
  assume c: "coerce_wire_change frac v = ([], v')" and dx: "\<And>x. v = JObj x \<Longrightarrow> distinct (keys x)"
    and ops: "ops \<in> set (operations_of v')"
  obtain fv v1 where f: "(case v of JObj x \<Rightarrow> (let (vs, x') = fold_operations_member x in (vs, JObj x'))
        | JArr xs \<Rightarrow> fold_wire_keys v [] | _ \<Rightarrow> ([], v)) = (fv, v1)" by fastforce
  with c obtain v2 where fv: "fv = []" and d: "convert_fields duration_fields (coerce_duration_field frac) v1 [] = ([], v2)"
    and z: "convert_fields size_fields coerce_byte_size_field v2 [] = ([], v')"
    by (auto simp: coerce_wire_change_def coerce_wire_tree_def convert_durations_def convert_byte_sizes_def Let_def
        split: if_splits prod.splits)
  show "all_members wire_member ops"
  proof (cases v)
    case (JArr xs)
    then obtain ys where "v1 = JArr ys" using f by (auto simp: Let_def split: prod.splits)
    then have "ops = v'" using ops d z by (auto simp: operations_of_def Let_def split: prod.splits)
    then show ?thesis using coerced_members[OF d z] fold_wire_canonical(1)[of v "[]" v1] f fv JArr by simp
  next
    case (JObj x)
    then obtain x1 where x1: "fold_operations_member x = ([], x1)" "v1 = JObj x1"
      using f fv by (auto simp: Let_def split: prod.splits)
    then obtain x2 x3 where e: "convert_entries duration_fields (coerce_duration_field frac) x1 [] = ([], x2)"
      "convert_entries size_fields coerce_byte_size_field x2 [] = ([], x3)" "v' = JObj x3"
      using d z by (auto simp: Let_def split: prod.splits)
    obtain k where k: "(k, ops) \<in> set x3" "equal_fold k ''operations''"
      using ops e(3) by (auto simp: operations_of_def)
    obtain w2 q where w2: "(k, w2) \<in> set x2" "convert_fields size_fields coerce_byte_size_field w2 q = ([], ops)"
      using convert_entries_member[OF e(2) k(1)] operations_not_scalar[OF k(2)] by blast
    obtain w1 p where w1: "(k, w1) \<in> set x1" "convert_fields duration_fields (coerce_duration_field frac) w1 p = ([], w2)"
      using convert_entries_member[OF e(1) w2(1)] operations_not_scalar[OF k(2)] by blast
    show ?thesis using coerced_members[OF w1(2) w2(2)] folded_operations[OF x1(1) dx[OF JObj] w1(1) k(2)] by simp
  qed (use f c d z ops in \<open>auto simp: operations_of_def\<close>)
qed

definition demo_change :: json where
  "demo_change = JObj [(''operations'', JArr [JObj [(''MaxBytes'', JStr ''5MiB'')]])]"

definition demo_operations :: json where
  "demo_operations = JArr [JObj [(''maxBytes'', JInt 5242880)]]"

lemma wire_change_canonical_witness: "all_members wire_member demo_operations"
proof -
  have n: "canonical_wire_field ''MaxBytes'' = Some ''maxBytes''" by code_simp
  have p: "parse_byte_size ''5MiB'' = Inr 5242880" "\<not> looks_like_bare_number ''5MiB''" by code_simp+
  have "fold_operations_member [(''operations'', JArr [JObj [(''MaxBytes'', JStr ''5MiB'')]])] =
      ([], [(''operations'', JArr [JObj [(''maxBytes'', JStr ''5MiB'')]])])"
    by (simp add: fold_operations_member_def equal_fold_def folded_name_def duplicate_folds_def fold_group_def
        List.map_filter_def n)
  then have c: "coerce_wire_change (\<lambda>f k un. 0) demo_change = ([], JObj [(''operations'', demo_operations)])"
    by (simp add: coerce_wire_change_def demo_change_def demo_operations_def coerce_wire_tree_def convert_durations_def
        convert_byte_sizes_def duration_fields_def size_fields_def coerce_byte_size_field_def p)
  have ops: "demo_operations \<in> set (operations_of (JObj [(''operations'', demo_operations)]))"
    by (simp add: operations_of_def equal_fold_def)
  show ?thesis by (rule wire_change_canonical[OF c _ ops]) (auto simp: demo_change_def)
qed

end
