(* ===== verification/Config_Validate.thy ===== *)
theory Config_Validate
  imports Config_Decode Inbox Inbox_Inv
begin

text \<open>
  Validation and loading of a desired state (\<^verbatim>\<open>internal/config/validate.go\<close>, \<^verbatim>\<open>normalize.go\<close>, \<^verbatim>\<open>load.go\<close>), with the
  secret-file reader of \<^verbatim>\<open>internal/auth/verifier.go\<close>.  The file system is the argument \<open>files\<close>; the
  parser of URLs is the argument \<open>url\<close>.
\<close>

section \<open>Addresses and files\<close>

text \<open>\<open>net.SplitHostPort\<close>.\<close>

definition split_host_port :: "bytes \<Rightarrow> (bytes \<times> bytes) option" where
  "split_host_port hp = (case last_index (CHR '':'') hp of
       None \<Rightarrow> None
     | Some i \<Rightarrow>
         if hd hp = CHR ''['' then
           (case index_byte (CHR '']'') hp of
              None \<Rightarrow> None
            | Some e \<Rightarrow>
                if e + 1 = i \<and> CHR ''['' \<notin> set (drop 1 hp) \<and> CHR '']'' \<notin> set (drop (e + 1) hp)
                then Some (take (e - 1) (drop 1 hp), drop (i + 1) hp) else None)
         else if CHR '':'' \<in> set (take i hp) \<or> CHR ''['' \<in> set hp \<or> CHR '']'' \<in> set hp then None
         else Some (take i hp, drop (i + 1) hp))"

record file_world =
  fw_exists :: "bytes \<Rightarrow> bool"
  fw_read :: "bytes \<Rightarrow> bytes option"
  fw_error :: "bytes \<Rightarrow> bytes"

record url =
  url_scheme :: bytes
  url_host :: bytes
  url_hostname :: bytes
  url_has_user :: bool
  url_raw_query :: bytes
  url_fragment :: bytes
  url_path :: bytes

datatype secret_line = SecretUnreadable | SecretInvalid | SecretLine bytes

definition usable_line :: "bytes \<Rightarrow> bool" where
  "usable_line l = (l \<noteq> [] \<and> \<not> has_prefix ''#'' l)"

definition read_secret_file :: "file_world \<Rightarrow> bytes \<Rightarrow> secret_line" where
  "read_secret_file fw path = (case fw_read fw path of
       None \<Rightarrow> SecretUnreadable
     | Some b \<Rightarrow> (case find usable_line (map trim_space (split_on LF b)) of
         None \<Rightarrow> SecretInvalid
       | Some l \<Rightarrow> SecretLine l))"

definition usable_secret_line_len :: "file_world \<Rightarrow> bytes \<Rightarrow> nat option \<times> bool" where
  "usable_secret_line_len fw path = (case read_secret_file fw path of
       SecretUnreadable \<Rightarrow> (None, False) | SecretInvalid \<Rightarrow> (None, True) | SecretLine l \<Rightarrow> (Some (length l), False))"

definition min_token_bytes :: nat where "min_token_bytes = 32"

section \<open>Checks\<close>

definition flag :: "bool \<Rightarrow> bytes \<Rightarrow> bytes \<Rightarrow> bytes \<Rightarrow> field_violation list" where
  "flag b p c m = (if b then [violation p c m] else [])"

lemma flag_Nil [simp]: "flag b p c m = [] \<longleftrightarrow> \<not> b"
  by (simp add: flag_def)

abbreviation invalid :: "bool \<Rightarrow> bytes \<Rightarrow> bytes \<Rightarrow> field_violation list" where
  "invalid b p m \<equiv> flag b p ''invalid_value'' m"

abbreviation required :: "bool \<Rightarrow> bytes \<Rightarrow> bytes \<Rightarrow> field_violation list" where
  "required b p m \<equiv> flag b p ''required'' m"

definition require_existing_file :: "file_world \<Rightarrow> bytes \<Rightarrow> bytes \<Rightarrow> field_violation list" where
  "require_existing_file fw path file =
     flag (\<not> fw_exists fw file) path ''unresolved_reference'' ''file does not resolve at load''"

definition validate_file_pair :: "file_world \<Rightarrow> bytes \<Rightarrow> bool \<Rightarrow> bytes \<Rightarrow> bytes \<Rightarrow> field_violation list" where
  "validate_file_pair fw path enabled cert key =
     (if \<not> enabled then invalid (cert \<noteq> [] \<or> key \<noteq> []) path ''certFile/keyFile are illegal when TLS is disabled''
      else if trim_space cert = [] \<or> trim_space key = []
      then [violation path ''required'' ''enabled TLS requires certFile and keyFile'']
      else require_existing_file fw (path @ ''.certFile'') cert @ require_existing_file fw (path @ ''.keyFile'') key)"

definition validate_document :: "state_doc \<Rightarrow> field_violation list" where
  "validate_document st =
     (if sd_api_version st \<noteq> ''labmail.dev/v1alpha1'' then
        (if trim_space (sd_api_version st) = [] then [violation ''apiVersion'' ''required'' ''apiVersion is required'']
         else [violation ''apiVersion'' ''unsupported_version'' (''apiVersion must be '' @ go_quote ''labmail.dev/v1alpha1'')])
      else []) @
     (if sd_kind st \<noteq> ''LabMail'' then
        (if trim_space (sd_kind st) = [] then [violation ''kind'' ''required'' ''kind is required'']
         else [violation ''kind'' ''invalid_value'' (''kind must be '' @ go_quote ''LabMail'')])
      else []) @
     required (trim_space (sd_name st) = []) ''metadata.name'' ''metadata.name is required''"

definition validate_listeners :: "file_world \<Rightarrow> listeners_spec \<Rightarrow> field_violation list" where
  "validate_listeners fw l =
     invalid (ls_smtp_address l \<noteq> [] \<and> split_host_port (ls_smtp_address l) = None)
       ''spec.listeners.smtp.address'' ''SMTP listen address must be host:port'' @
     invalid (ls_mgmt_address l \<noteq> [] \<and> split_host_port (ls_mgmt_address l) = None)
       ''spec.listeners.management.address'' ''management listen address must be host:port'' @
     invalid (ls_rest_path l \<noteq> [] \<and> \<not> has_prefix ''/'' (ls_rest_path l))
       ''spec.listeners.management.restPath'' ''restPath must start with /'' @
     invalid (ls_mcp_path l \<noteq> [] \<and> \<not> has_prefix ''/'' (ls_mcp_path l))
       ''spec.listeners.management.mcpPath'' ''mcpPath must start with /'' @
     validate_file_pair fw ''spec.listeners.management.tls'' (mt_enabled (ls_tls l)) (mt_cert_file (ls_tls l))
       (mt_key_file (ls_tls l))"

definition validate_reply_line :: "bytes \<Rightarrow> bytes \<Rightarrow> field_violation list" where
  "validate_reply_line path raw =
     (if trim_space raw = [] then []
      else case parse_smtp_reply_line raw of Inl e \<Rightarrow> [violation path ''invalid_value'' e] | Inr _ \<Rightarrow> [])"

definition reply_paths :: "reply_overrides \<Rightarrow> (bytes \<times> bytes) list" where
  "reply_paths r = [(''greeting'', ro_greeting r), (''helo'', ro_helo r), (''ehlo'', ro_ehlo r), (''mail'', ro_mail r),
     (''rcpt'', ro_rcpt r), (''data'', ro_data r), (''dataEnd'', ro_data_end r), (''rset'', ro_rset r), (''noop'', ro_noop r),
     (''vrfy'', ro_vrfy r), (''auth'', ro_auth r), (''starttls'', ro_starttls r), (''unknown'', ro_unknown r)]"

definition validate_smtp_behavior :: "smtp_behavior \<Rightarrow> field_violation list" where
  "validate_smtp_behavior b =
     invalid (bh_greeting_delay b < 0 \<or> bh_greeting_delay b > MaxSMTPBehaviorDelay)
       ''spec.smtp.behavior.greetingDelay'' ''greetingDelay must be between 0 and 30s'' @
     invalid (bh_command_delay b < 0 \<or> bh_command_delay b > MaxSMTPBehaviorDelay)
       ''spec.smtp.behavior.commandDelay'' ''commandDelay must be between 0 and 30s'' @
     invalid (trim_space (bh_close_after_verb b) \<noteq> [] \<and> \<not> known_smtp_behavior_verb (trim_space (bh_close_after_verb b)))
       ''spec.smtp.behavior.closeAfterVerb''
       ''closeAfterVerb must be GREETING, HELO, EHLO, MAIL, RCPT, DATA, DATA-END, RSET, NOOP, VRFY, AUTH, STARTTLS, or UNKNOWN'' @
     concat (map (\<lambda>(n, raw). validate_reply_line (''spec.smtp.behavior.replies.'' @ n) raw) (reply_paths (bh_replies b)))"

definition validate_smtp_auth :: "file_world \<Rightarrow> smtp_auth \<Rightarrow> field_violation list" where
  "validate_smtp_auth fw a =
     (if sa_mode a = [] \<or> sa_mode a = ''none''
      then invalid (sa_username a \<noteq> [] \<or> sa_password_file a \<noteq> []) ''spec.smtp.auth''
        ''smtp.auth username/passwordFile are illegal when mode is none''
      else if sa_mode a = ''plain_login''
      then required (trim_space (sa_username a) = []) ''spec.smtp.auth.username'' ''plain_login requires username'' @
        (if trim_space (sa_password_file a) = []
         then [violation ''spec.smtp.auth.passwordFile'' ''required'' ''plain_login requires passwordFile'']
         else require_existing_file fw ''spec.smtp.auth.passwordFile'' (sa_password_file a))
      else [violation ''spec.smtp.auth.mode'' ''invalid_value'' ''smtp.auth.mode must be none or plain_login''])"

definition validate_smtp_tls :: "file_world \<Rightarrow> smtp_tls \<Rightarrow> field_violation list" where
  "validate_smtp_tls fw t =
     (if tl_mode t = [] \<or> tl_mode t = ''off''
      then invalid (tl_required t) ''spec.smtp.tls.required'' ''required is legal only when mode is starttls'' @
        invalid (tl_cert_file t \<noteq> [] \<or> tl_key_file t \<noteq> []) ''spec.smtp.tls''
          ''smtp.tls certFile/keyFile are illegal when mode is off''
      else if tl_mode t = ''starttls''
      then (if trim_space (tl_cert_file t) = [] \<or> trim_space (tl_key_file t) = []
        then [violation ''spec.smtp.tls'' ''required'' ''mode starttls requires certFile and keyFile'']
        else require_existing_file fw ''spec.smtp.tls.certFile'' (tl_cert_file t) @
             require_existing_file fw ''spec.smtp.tls.keyFile'' (tl_key_file t))
      else if tl_mode t = ''implicit''
      then [violation ''spec.smtp.tls.mode'' ''invalid_value''
        ''smtp.tls.mode: implicit is not supported until 1.1; use starttls or a future listeners.smtpImplicit bind'']
      else [violation ''spec.smtp.tls.mode'' ''invalid_value'' ''smtp.tls.mode must be off, starttls, or implicit''])"

definition validate_admission :: "admission_spec \<Rightarrow> field_violation list" where
  "validate_admission a =
     invalid (adm_max_sessions a \<le> 0) ''spec.smtp.admission.maxSessions'' ''maxSessions must be > 0'' @
     invalid (adm_max_sessions_per_ip a \<le> 0) ''spec.smtp.admission.maxSessionsPerIP'' ''maxSessionsPerIP must be > 0'' @
     invalid (adm_max_in_flight_data a \<le> 0) ''spec.smtp.admission.maxInFlightData'' ''maxInFlightData must be > 0'' @
     invalid (adm_max_in_flight_data_bytes a \<le> 0) ''spec.smtp.admission.maxInFlightDataBytes''
       ''maxInFlightDataBytes must be > 0'' @
     invalid (adm_session_timeout a \<le> 0) ''spec.smtp.admission.sessionTimeout'' ''sessionTimeout must be > 0'' @
     invalid (adm_command_idle a \<le> 0) ''spec.smtp.admission.commandIdle'' ''commandIdle must be > 0'' @
     invalid (adm_data_idle a \<le> 0) ''spec.smtp.admission.dataIdle'' ''dataIdle must be > 0''"

fun hide_violations :: "nat \<Rightarrow> bytes list \<Rightarrow> field_violation list" where
  "hide_violations i [] = []"
| "hide_violations i (e # es) = invalid (trim_space e = []) (index_path ''spec.smtp.hideExtensions'' i)
     ''hideExtensions entries must be non-empty'' @ hide_violations (Suc i) es"

definition validate_smtp :: "file_world \<Rightarrow> smtp_spec \<Rightarrow> field_violation list" where
  "validate_smtp fw s =
     required (trim_space (sm_hostname s) = []) ''spec.smtp.hostname'' ''smtp.hostname is required'' @
     invalid (sm_max_message_bytes s \<le> 0) ''spec.smtp.maxMessageBytes''
       ''maxMessageBytes must be > 0 (unbounded is not a lab mode)'' @
     invalid (sm_max_recipients s \<le> 0) ''spec.smtp.maxRecipients'' ''maxRecipients must be > 0'' @
     hide_violations 0 (sm_hide_extensions s) @
     validate_smtp_auth fw (sm_auth s) @ validate_smtp_tls fw (sm_tls s) @
     validate_admission (sm_admission s) @ validate_smtp_behavior (sm_behavior s)"

definition validate_store :: "store_spec \<Rightarrow> field_violation list" where
  "validate_store s =
     invalid (ss_max_messages s \<le> 0) ''spec.store.maxMessages'' ''maxMessages must be > 0'' @
     invalid (ss_max_bytes s \<le> 0) ''spec.store.maxBytes'' ''maxBytes must be > 0'' @
     invalid (ss_full_policy s \<notin> {[], reject_policy, evict_policy}) ''spec.store.fullPolicy''
       ''fullPolicy must be reject or evict_oldest'' @
     invalid (ss_max_wait s < 0) ''spec.store.maxWait'' ''maxWait must be >= 0'' @
     invalid (ss_spill_threshold s < 0) ''spec.store.spillThreshold'' ''spillThreshold must be >= 0''"

definition check_token_secret_length :: "file_world \<Rightarrow> bytes \<Rightarrow> bytes \<Rightarrow> bool \<Rightarrow> field_violation list" where
  "check_token_secret_length fw path file require = (case usable_secret_line_len fw file of
       (None, False) \<Rightarrow>
         flag require path ''unresolved_reference'' (''token secret file does not resolve: '' @ file)
     | (None, True) \<Rightarrow> [violation path ''invalid_value'' ''token secret must be at least 32 bytes'']
     | (Some n, _) \<Rightarrow> invalid (n < min_token_bytes) path ''token secret must be at least 32 bytes'')"

definition basic_password_read :: "bytes \<Rightarrow> bytes \<Rightarrow> bool" where
  "basic_password_read mode username =
     (let m = (if trim_space mode = [] then ''bearer_and_basic'' else trim_space mode)
      in m = ''bearer_and_basic'' \<and> trim_space username \<noteq> [])"

definition check_auth_password_file :: "file_world \<Rightarrow> bytes \<Rightarrow> bytes \<Rightarrow> bool \<Rightarrow> field_violation list" where
  "check_auth_password_file fw path file require =
     (if \<not> require \<or> trim_space file = [] then []
      else flag (fst (usable_secret_line_len fw file) = None) path ''unresolved_reference''
        (''basic password file does not resolve: '' @ file))"

fun scope_violations :: "bytes \<Rightarrow> nat \<Rightarrow> bytes list \<Rightarrow> field_violation list" where
  "scope_violations path i [] = []"
| "scope_violations path i (sc # scs) =
     invalid (\<not> known_scope sc) (index_path (path @ ''.scopes'') i) (''unknown scope '' @ go_quote sc) @
     scope_violations path (Suc i) scs"

text \<open>The walk over the tokens returns the identifiers seen, each with the path of its first use.\<close>

fun token_violations :: "file_world \<Rightarrow> bool \<Rightarrow> nat \<Rightarrow> (bytes \<times> bytes) list \<Rightarrow> token_spec list \<Rightarrow>
    field_violation list \<times> (bytes \<times> bytes) list" where
  "token_violations fw require i ids [] = ([], ids)"
| "token_violations fw require i ids (tok # toks) =
     (let path = index_path ''spec.management.auth.tokens'' i; tid = trim_space (tk_id tok);
          id_vs = (if tid = [] then [violation (path @ ''.id'') ''empty_id'' ''token id is required'']
             else case lookup ids tid of
                 Some prev \<Rightarrow> [violation (path @ ''.id'') ''duplicate_id'' (''duplicate token id (first at '' @ prev @ '')'')]
               | None \<Rightarrow> []);
          ids' = (if tid = [] \<or> lookup ids tid \<noteq> None then ids else AList.update tid (path @ ''.id'') ids);
          file_vs = (if trim_space (tk_secret_file tok) = []
             then [violation (path @ ''.secretFile'') ''required'' ''token secretFile is required'']
             else check_token_secret_length fw (path @ ''.secretFile'') (tk_secret_file tok) require);
          role_vs = invalid (tk_role tok \<noteq> [] \<and> \<not> known_role (tk_role tok)) (path @ ''.role'')
             ''role must be viewer, operator, or administrator'';
          (vs, ids'') = token_violations fw require (Suc i) ids' toks
      in (id_vs @ file_vs @ role_vs @ scope_violations path 0 (tk_scopes tok) @ vs, ids''))"

definition validate_basic :: "file_world \<Rightarrow> bool \<Rightarrow> bytes \<Rightarrow> (bytes \<times> bytes) list \<Rightarrow> basic_spec \<Rightarrow> field_violation list" where
  "validate_basic fw require mode ids b =
     (if bs_username b \<noteq> [] \<or> bs_password_file b \<noteq> [] \<or> bs_token_ref b \<noteq> [] then
        (if trim_space (bs_username b) = [] \<or> trim_space (bs_password_file b) = [] \<or> trim_space (bs_token_ref b) = []
         then [violation ''spec.management.auth.basic'' ''required'' ''basic requires username, passwordFile, and tokenRef'']
         else flag (lookup ids (bs_token_ref b) = None) ''spec.management.auth.basic.tokenRef'' ''unresolved_reference''
           (''basic.tokenRef '' @ bs_token_ref b @ '' does not match a token id'')) @
        (if basic_password_read mode (bs_username b)
         then check_auth_password_file fw ''spec.management.auth.basic.passwordFile'' (bs_password_file b) require else [])
      else [])"

definition origin_allowlist_cap :: nat where "origin_allowlist_cap = 64"

text \<open>\<open>url\<close> is \<^verbatim>\<open>net/url.Parse\<close>.\<close>

definition origin_violation :: "(bytes \<Rightarrow> url option) \<Rightarrow> bytes \<Rightarrow> bytes option" where
  "origin_violation url_parse entry = (let raw = trim_space entry; stripped = trim_right_by (\<lambda>c. c = CHR ''/'') raw in
     if raw = [] then Some ''empty originAllowlist entry''
     else if raw = ''*'' \<or> equal_fold raw ''private'' then None
     else if stripped = ''*'' \<or> equal_fold stripped ''private''
     then Some ''originAllowlist sentinel must be exactly * or private''
     else if CHR ''*'' \<in> set raw then Some ''wildcards other than the sentinel * are not supported''
     else case url_parse raw of
         None \<Rightarrow> Some ''originAllowlist entry is not a valid URL''
       | Some u \<Rightarrow>
           if to_lower (url_scheme u) \<noteq> ''http'' \<and> to_lower (url_scheme u) \<noteq> ''https''
           then Some ''originAllowlist entry must be an http(s) Origin, *, or private''
           else if url_hostname u = [] then Some ''originAllowlist entry host is required''
           else if url_has_user u then Some ''originAllowlist entry must not include userinfo''
           else if url_raw_query u \<noteq> [] \<or> url_fragment u \<noteq> []
           then Some ''originAllowlist entry must not include query or fragment''
           else if url_path u \<noteq> [] \<and> url_path u \<noteq> ''/'' then Some ''originAllowlist entry path must be empty or /''
           else None)"

fun origin_violations :: "(bytes \<Rightarrow> url option) \<Rightarrow> nat \<Rightarrow> bytes list \<Rightarrow> field_violation list" where
  "origin_violations url_parse i [] = []"
| "origin_violations url_parse i (e # es) =
     (case origin_violation url_parse e of
        None \<Rightarrow> []
      | Some m \<Rightarrow> [violation (index_path ''spec.management.originAllowlist'' i) ''invalid_value'' m]) @
     origin_violations url_parse (Suc i) es"

definition validate_origin_allowlist :: "(bytes \<Rightarrow> url option) \<Rightarrow> bytes list \<Rightarrow> field_violation list" where
  "validate_origin_allowlist url_parse xs =
     invalid (length xs > origin_allowlist_cap) ''spec.management.originAllowlist'' ''originAllowlist cap 64'' @
     origin_violations url_parse 0 xs"

definition validate_management :: "file_world \<Rightarrow> (bytes \<Rightarrow> url option) \<Rightarrow> bool \<Rightarrow> mgmt_spec \<Rightarrow> field_violation list" where
  "validate_management fw url_parse require m =
     (let a = mg_auth m; (tvs, ids) = token_violations fw require 0 [] (ma_tokens a) in
      invalid (ma_mode a \<notin> {[], ''bearer'', ''bearer_and_basic'', ''dev-loopback-unauth''}) ''spec.management.auth.mode''
        ''management.auth.mode must be bearer, bearer_and_basic, or dev-loopback-unauth'' @
      tvs @ validate_basic fw require (ma_mode a) ids (ma_basic a) @
      invalid (mg_body_limit m \<le> 0) ''spec.management.bodyLimit'' ''bodyLimit must be > 0'' @
      invalid (mg_requests_per_second m \<le> 0) ''spec.management.requestsPerSecond'' ''requestsPerSecond must be > 0'' @
      invalid (mg_burst m \<le> 0) ''spec.management.burst'' ''burst must be > 0'' @
      invalid (mg_max_concurrent m \<le> 0) ''spec.management.maxConcurrent'' ''maxConcurrent must be > 0'' @
      validate_origin_allowlist url_parse (mg_origin_allowlist m))"

definition validate_observability :: "obs_spec \<Rightarrow> field_violation list" where
  "validate_observability ob =
     invalid (ob_log_level ob \<notin> {[], ''debug'', ''info'', ''warn'', ''error''}) ''spec.observability.logLevel''
       ''logLevel must be debug, info, warn, or error'' @
     invalid (ob_metrics_listen ob \<noteq> [] \<and> split_host_port (ob_metrics_listen ob) = None) ''spec.observability.metrics.listen''
       ''metrics.listen must be host:port or empty'' @
     invalid (ob_audit_ring ob < 0) ''spec.observability.audit.ring'' ''audit.ring must be >= 0''"

definition state_violations :: "file_world \<Rightarrow> (bytes \<Rightarrow> url option) \<Rightarrow> bool \<Rightarrow> state_doc \<Rightarrow> field_violation list" where
  "state_violations fw url_parse require st = (let sp = sd_spec st in
     validate_document st @ validate_listeners fw (sp_listeners sp) @ validate_smtp fw (sp_smtp sp) @
     validate_store (sp_store sp) @ validate_management fw url_parse require (sp_management sp) @
     validate_observability (sp_observability sp))"

text \<open>\<open>None\<close> is a nil state, and the result a nil error.\<close>

definition validate_state :: "file_world \<Rightarrow> (bytes \<Rightarrow> url option) \<Rightarrow> bool \<Rightarrow> state_doc option \<Rightarrow> domain_error option" where
  "validate_state fw url_parse require st0 = (case st0 of
       None \<Rightarrow> Some (validation_failed ''nil state'' [violation [] ''required'' ''state is nil''])
     | Some st \<Rightarrow> (let vs = state_violations fw url_parse require st in
         if vs \<noteq> [] then Some (validation_failed ''Candidate state is invalid.'' vs) else None))"

section \<open>Loading\<close>

text \<open>
  A copy of a state is its value; nil and empty lists are one in the model, so the slices that
  \<^verbatim>\<open>materializeDefaults\<close> fills are lists already.
\<close>

definition normalize_state :: "state_doc option \<Rightarrow> domain_error + state_doc" where
  "normalize_state st = (case st of
       None \<Rightarrow> Inl (validation_failed ''nil state'' [violation [] ''required'' ''state is nil'']) | Some s \<Rightarrow> Inr s)"

definition load :: "state_doc config_libs \<Rightarrow> file_world \<Rightarrow> (bytes \<Rightarrow> url option) \<Rightarrow> bytes \<Rightarrow> domain_error + state_doc" where
  "load l fw url_parse data = (case decode l data of
       Inl e \<Rightarrow> Inl e
     | Inr st \<Rightarrow> (case normalize_state (Some st) of
         Inl e \<Rightarrow> Inl e
       | Inr n \<Rightarrow> (case validate_state fw url_parse False (Some n) of Some e \<Rightarrow> Inl e | None \<Rightarrow> Inr n)))"

definition load_file :: "state_doc config_libs \<Rightarrow> file_world \<Rightarrow> (bytes \<Rightarrow> url option) \<Rightarrow> bytes \<Rightarrow> go_error + state_doc" where
  "load_file l fw url_parse path = (case fw_read fw path of
       None \<Rightarrow> Inl (PlainE (fw_error fw path))
     | Some b \<Rightarrow> (case load l fw url_parse b of Inl e \<Rightarrow> Inl (DomainE (Some e)) | Inr st \<Rightarrow> Inr st))"

text \<open>What the server and the inbox rely on in a state that was validated.\<close>

definition reply_ok :: "bytes \<Rightarrow> bool" where
  "reply_ok raw = (trim_space raw = [] \<or> is_ok (parse_smtp_reply_line raw))"

definition admission_ok :: "admission_spec \<Rightarrow> bool" where
  "admission_ok a = (0 < adm_max_sessions a \<and> 0 < adm_max_sessions_per_ip a \<and> 0 < adm_max_in_flight_data a \<and>
     0 < adm_max_in_flight_data_bytes a \<and> 0 < adm_session_timeout a \<and> 0 < adm_command_idle a \<and> 0 < adm_data_idle a)"

definition behavior_ok :: "smtp_behavior \<Rightarrow> bool" where
  "behavior_ok b = (0 \<le> bh_greeting_delay b \<and> bh_greeting_delay b \<le> MaxSMTPBehaviorDelay \<and>
     0 \<le> bh_command_delay b \<and> bh_command_delay b \<le> MaxSMTPBehaviorDelay \<and> (\<forall>v. reply_ok (reply_override b v)))"

definition smtp_ok :: "smtp_spec \<Rightarrow> bool" where
  "smtp_ok s = (0 < sm_max_message_bytes s \<and> 0 < sm_max_recipients s \<and> sa_mode (sm_auth s) \<in> {[], ''none'', ''plain_login''} \<and>
     tl_mode (sm_tls s) \<in> {[], ''off'', ''starttls''} \<and> admission_ok (sm_admission s) \<and> behavior_ok (sm_behavior s))"

definition store_ok :: "store_spec \<Rightarrow> bool" where
  "store_ok s = is_ok (normalize_options (options_from_spec s))"

lemma validate_reply_line_Nil: "validate_reply_line p raw = [] \<longleftrightarrow> reply_ok raw"
  by (auto simp: validate_reply_line_def reply_ok_def split: sum.splits)

lemma reply_override_known: "reply_override b v = [] \<or> reply_override b v \<in> set (map snd (reply_paths (bh_replies b)))"
  unfolding reply_override_def Let_def reply_paths_def by (simp split: if_split)

lemma validate_behavior_ok:
  assumes "validate_smtp_behavior b = []"
  shows "behavior_ok b"
proof -
  have "\<forall>raw \<in> set (map snd (reply_paths (bh_replies b))). reply_ok raw"
    using assms by (auto simp: validate_smtp_behavior_def validate_reply_line_Nil)
  then have "reply_ok (reply_override b v)" for v
    using reply_override_known[of b v] by (auto simp: reply_ok_def[of "[]"] trim_space_def trim_by_def trim_left_by_def
        trim_right_by_def)
  then show ?thesis using assms by (simp add: behavior_ok_def validate_smtp_behavior_def not_less)
qed

lemma validate_smtp_ok:
  assumes "validate_smtp fw s = []"
  shows "smtp_ok s"
proof -
  have v: "validate_smtp_auth fw (sm_auth s) = []" "validate_smtp_tls fw (sm_tls s) = []"
    "validate_admission (sm_admission s) = []" "validate_smtp_behavior (sm_behavior s) = []"
    "0 < sm_max_message_bytes s" "0 < sm_max_recipients s"
    using assms by (simp_all add: validate_smtp_def not_le)
  have "sa_mode (sm_auth s) \<in> {[], ''none'', ''plain_login''}" "tl_mode (sm_tls s) \<in> {[], ''off'', ''starttls''}"
    using v(1,2) by (auto simp: validate_smtp_auth_def validate_smtp_tls_def split: if_splits)
  moreover have "admission_ok (sm_admission s)" using v(3) by (simp add: validate_admission_def admission_ok_def not_le)
  ultimately show ?thesis using v validate_behavior_ok by (simp add: smtp_ok_def)
qed

lemma validate_store_ok:
  assumes "validate_store s = []"
  shows "store_ok s"
  using assms by (auto simp: validate_store_def store_ok_def normalize_options_def options_from_spec_def Let_def not_le)

definition token_id :: "token_spec \<Rightarrow> bytes" where
  "token_id t = trim_space (tk_id t)"

definition token_ok :: "token_spec \<Rightarrow> bool" where
  "token_ok t = (token_id t \<noteq> [] \<and> trim_space (tk_secret_file t) \<noteq> [] \<and> (tk_role t = [] \<or> known_role (tk_role t)) \<and>
     list_all known_scope (tk_scopes t))"

lemma scope_violations_Nil: "scope_violations path i scs = [] \<longleftrightarrow> list_all known_scope scs"
  by (induction scs arbitrary: i) auto

lemma token_violations_Nil:
  "token_violations fw require i ids toks = ([], ids') \<Longrightarrow> distinct (map token_id toks) \<and> list_all token_ok toks \<and>
    set (map token_id toks) \<inter> set (keys ids) = {} \<and> set (keys ids') = set (keys ids) \<union> set (map token_id toks)"
proof (induction toks arbitrary: i ids)
  case (Cons tok toks)
  let ?p = "index_path ''spec.management.auth.tokens'' i @ ''.id''"
  have new: "token_id tok \<noteq> []" "lookup ids (token_id tok) = None"
    and ok: "trim_space (tk_secret_file tok) \<noteq> []" "tk_role tok = [] \<or> known_role (tk_role tok)"
      "list_all known_scope (tk_scopes tok)"
    and rest: "token_violations fw require (Suc i) (AList.update (token_id tok) ?p ids) toks = ([], ids')"
    using Cons.prems
    by (auto simp: Let_def token_id_def scope_violations_Nil split: prod.splits if_splits option.splits)
  have "token_id tok \<notin> set (keys ids)" using new(2) lookup_None_iff[of ids "token_id tok"] by blast
  then have "set (keys (AList.update (token_id tok) ?p ids)) = insert (token_id tok) (set (keys ids))"
    by (simp add: keys_update_new)
  then show ?case using Cons.IH[OF rest] new ok \<open>token_id tok \<notin> set (keys ids)\<close> by (auto simp: token_ok_def)
qed simp

definition management_ok :: "mgmt_spec \<Rightarrow> bool" where
  "management_ok m = (distinct (map token_id (ma_tokens (mg_auth m))) \<and> list_all token_ok (ma_tokens (mg_auth m)) \<and>
     (bs_token_ref (ma_basic (mg_auth m)) \<noteq> [] \<longrightarrow>
        bs_token_ref (ma_basic (mg_auth m)) \<in> set (map token_id (ma_tokens (mg_auth m)))) \<and>
     0 < mg_body_limit m \<and> 0 < mg_requests_per_second m \<and> 0 < mg_burst m \<and> 0 < mg_max_concurrent m \<and>
     length (mg_origin_allowlist m) \<le> origin_allowlist_cap)"

lemma validate_management_ok:
  assumes "validate_management fw url_parse require m = []"
  shows "management_ok m"
proof -
  let ?a = "mg_auth m"
  obtain tvs ids where t: "token_violations fw require 0 [] (ma_tokens ?a) = (tvs, ids)" by fastforce
  with assms have tvs: "tvs = []" and b: "validate_basic fw require (ma_mode ?a) ids (ma_basic ?a) = []"
    and num: "0 < mg_body_limit m" "0 < mg_requests_per_second m" "0 < mg_burst m" "0 < mg_max_concurrent m"
      "length (mg_origin_allowlist m) \<le> origin_allowlist_cap"
    by (auto simp: validate_management_def validate_origin_allowlist_def Let_def not_less not_le)
  note tn = token_violations_Nil[OF t[unfolded tvs]]
  have "bs_token_ref (ma_basic ?a) \<noteq> [] \<longrightarrow> lookup ids (bs_token_ref (ma_basic ?a)) \<noteq> None"
    using b by (auto simp: validate_basic_def split: if_splits)
  then have "bs_token_ref (ma_basic ?a) \<noteq> [] \<longrightarrow> bs_token_ref (ma_basic ?a) \<in> set (keys ids)"
    unfolding lookup_None_iff by simp
  then show ?thesis using tn num unfolding management_ok_def by auto
qed

lemma validate_sound_holds:
  "validate_state fw url_parse require (Some st) = None \<Longrightarrow>
    store_ok (sp_store (sd_spec st)) \<and> smtp_ok (sp_smtp (sd_spec st)) \<and> management_ok (sp_management (sd_spec st)) \<and>
    0 \<le> ob_audit_ring (sp_observability (sd_spec st))"
proof -
  assume "validate_state fw url_parse require (Some st) = None"
  then have "validate_smtp fw (sp_smtp (sd_spec st)) = []" "validate_store (sp_store (sd_spec st)) = []"
    "validate_management fw url_parse require (sp_management (sd_spec st)) = []"
    "validate_observability (sp_observability (sd_spec st)) = []"
    by (auto simp: validate_state_def state_violations_def Let_def split: if_splits)
  then show ?thesis using validate_smtp_ok validate_store_ok validate_management_ok
    by (auto simp: validate_observability_def)
qed

text \<open>What validation promises beyond the bounds, part by part: references to files resolve, options that
  need each other come together, and names are known.\<close>

definition document_valid :: "state_doc \<Rightarrow> bool" where
  "document_valid st = (sd_api_version st = ''labmail.dev/v1alpha1'' \<and> sd_kind st = ''LabMail'' \<and> trim_space (sd_name st) \<noteq> [])"

definition files_valid :: "file_world \<Rightarrow> bool \<Rightarrow> bytes \<Rightarrow> bytes \<Rightarrow> bool" where
  "files_valid fw on cert key = (if on then trim_space cert \<noteq> [] \<and> trim_space key \<noteq> [] \<and> fw_exists fw cert \<and> fw_exists fw key
     else cert = [] \<and> key = [])"

definition listeners_valid :: "file_world \<Rightarrow> listeners_spec \<Rightarrow> bool" where
  "listeners_valid fw l = ((ls_smtp_address l = [] \<or> split_host_port (ls_smtp_address l) \<noteq> None) \<and>
     (ls_mgmt_address l = [] \<or> split_host_port (ls_mgmt_address l) \<noteq> None) \<and>
     (ls_rest_path l = [] \<or> has_prefix ''/'' (ls_rest_path l)) \<and> (ls_mcp_path l = [] \<or> has_prefix ''/'' (ls_mcp_path l)) \<and>
     files_valid fw (mt_enabled (ls_tls l)) (mt_cert_file (ls_tls l)) (mt_key_file (ls_tls l)))"

definition smtp_valid :: "file_world \<Rightarrow> smtp_spec \<Rightarrow> bool" where
  "smtp_valid fw s = (trim_space (sm_hostname s) \<noteq> [] \<and> (\<forall>x \<in> set (sm_hide_extensions s). trim_space x \<noteq> []) \<and>
     (if sa_mode (sm_auth s) = ''plain_login'' then trim_space (sa_username (sm_auth s)) \<noteq> [] \<and>
        trim_space (sa_password_file (sm_auth s)) \<noteq> [] \<and> fw_exists fw (sa_password_file (sm_auth s))
      else sa_username (sm_auth s) = [] \<and> sa_password_file (sm_auth s) = []) \<and>
     (tl_required (sm_tls s) \<longrightarrow> tl_mode (sm_tls s) = ''starttls'') \<and>
     files_valid fw (tl_mode (sm_tls s) = ''starttls'') (tl_cert_file (sm_tls s)) (tl_key_file (sm_tls s)) \<and>
     (trim_space (bh_close_after_verb (sm_behavior s)) = [] \<or>
      known_smtp_behavior_verb (trim_space (bh_close_after_verb (sm_behavior s)))))"

definition secret_valid :: "file_world \<Rightarrow> bool \<Rightarrow> token_spec \<Rightarrow> bool" where
  "secret_valid fw require t = (case read_secret_file fw (tk_secret_file t) of
       SecretUnreadable \<Rightarrow> \<not> require | SecretInvalid \<Rightarrow> False | SecretLine l \<Rightarrow> 32 \<le> length l)"

definition basic_valid :: "file_world \<Rightarrow> bool \<Rightarrow> mgmt_auth \<Rightarrow> bool" where
  "basic_valid fw require a = (let b = ma_basic a in
     bs_username b = [] \<and> bs_password_file b = [] \<and> bs_token_ref b = [] \<or>
     trim_space (bs_username b) \<noteq> [] \<and> trim_space (bs_password_file b) \<noteq> [] \<and>
     (\<exists>t \<in> set (ma_tokens a). token_id t = bs_token_ref b) \<and>
     (require \<and> trim_space (ma_mode a) \<in> {[], ''bearer_and_basic''} \<longrightarrow>
        (\<exists>l. read_secret_file fw (bs_password_file b) = SecretLine l)))"

definition origin_valid :: "(bytes \<Rightarrow> url option) \<Rightarrow> bytes \<Rightarrow> bool" where
  "origin_valid url_parse entry = (let raw = trim_space entry in
     raw = ''*'' \<or> equal_fold raw ''private'' \<or>
     CHR ''*'' \<notin> set raw \<and> (\<exists>u. url_parse raw = Some u \<and> to_lower (url_scheme u) \<in> {''http'', ''https''} \<and> url_hostname u \<noteq> [] \<and>
       \<not> url_has_user u \<and> url_raw_query u = [] \<and> url_fragment u = [] \<and> url_path u \<in> {[], ''/''}))"

definition management_valid :: "file_world \<Rightarrow> (bytes \<Rightarrow> url option) \<Rightarrow> bool \<Rightarrow> mgmt_spec \<Rightarrow> bool" where
  "management_valid fw url_parse require m = (ma_mode (mg_auth m) \<in> {[], ''bearer'', ''bearer_and_basic'', ''dev-loopback-unauth''} \<and>
     (\<forall>t \<in> set (ma_tokens (mg_auth m)). secret_valid fw require t) \<and> basic_valid fw require (mg_auth m) \<and>
     (\<forall>x \<in> set (mg_origin_allowlist m). origin_valid url_parse x))"

definition observability_valid :: "obs_spec \<Rightarrow> bool" where
  "observability_valid ob = (ob_log_level ob \<in> {[], ''debug'', ''info'', ''warn'', ''error''} \<and>
     (ob_metrics_listen ob = [] \<or> split_host_port (ob_metrics_listen ob) \<noteq> None) \<and> 0 \<le> ob_audit_ring ob)"

lemma validate_document_valid: "validate_document st = [] \<Longrightarrow> document_valid st"
  by (auto simp: validate_document_def document_valid_def split: if_splits)

lemma validate_listeners_valid: "validate_listeners fw l = [] \<Longrightarrow> listeners_valid fw l"
  by (auto simp: validate_listeners_def listeners_valid_def validate_file_pair_def files_valid_def require_existing_file_def
      split: if_splits)

lemma hide_violations_Nil: "hide_violations i es = [] \<longleftrightarrow> (\<forall>x \<in> set es. trim_space x \<noteq> [])"
  by (induction es arbitrary: i) auto

lemma validate_smtp_auth_Nil:
  "validate_smtp_auth fw a = [] \<Longrightarrow> if sa_mode a = ''plain_login''
     then trim_space (sa_username a) \<noteq> [] \<and> trim_space (sa_password_file a) \<noteq> [] \<and> fw_exists fw (sa_password_file a)
     else sa_username a = [] \<and> sa_password_file a = []"
  by (auto simp: validate_smtp_auth_def require_existing_file_def split: if_splits)

lemma validate_smtp_tls_Nil:
  "validate_smtp_tls fw t = [] \<Longrightarrow> (tl_required t \<longrightarrow> tl_mode t = ''starttls'') \<and>
     files_valid fw (tl_mode t = ''starttls'') (tl_cert_file t) (tl_key_file t)"
  by (auto simp: validate_smtp_tls_def files_valid_def require_existing_file_def split: if_splits)

lemma validate_smtp_valid:
  assumes "validate_smtp fw s = []"
  shows "smtp_valid fw s"
proof -
  have "validate_smtp_auth fw (sm_auth s) = []" "validate_smtp_tls fw (sm_tls s) = []" "validate_smtp_behavior (sm_behavior s) = []"
    "trim_space (sm_hostname s) \<noteq> []" "hide_violations 0 (sm_hide_extensions s) = []"
    using assms by (simp_all add: validate_smtp_def)
  then show ?thesis using validate_smtp_auth_Nil validate_smtp_tls_Nil
    by (simp add: smtp_valid_def hide_violations_Nil validate_smtp_behavior_def)
qed

lemma token_violations_secrets:
  "token_violations fw require i ids toks = ([], ids') \<Longrightarrow> \<forall>t \<in> set toks. secret_valid fw require t"
proof (induction toks arbitrary: i ids)
  case (Cons tok toks)
  obtain p where "check_token_secret_length fw p (tk_secret_file tok) require = []"
    and rest: "\<exists>j is. token_violations fw require j is toks = ([], ids')"
    using Cons.prems by (auto simp: Let_def split: prod.splits if_splits)
  then have "secret_valid fw require tok"
    by (auto simp: check_token_secret_length_def usable_secret_line_len_def secret_valid_def min_token_bytes_def not_less
        split: secret_line.splits)
  then show ?case using rest Cons.IH by auto
qed simp

lemma origin_violations_Nil:
  "origin_violations url_parse i es = [] \<Longrightarrow> \<forall>x \<in> set es. origin_violation url_parse x = None"
  by (induction es arbitrary: i) (auto split: option.splits)

lemma origin_violation_None: "origin_violation url_parse x = None \<Longrightarrow> origin_valid url_parse x"
  unfolding origin_violation_def origin_valid_def Let_def by (auto split: if_splits option.splits)

lemma validate_management_valid:
  assumes "validate_management fw url_parse require m = []"
  shows "management_valid fw url_parse require m"
proof -
  let ?a = "mg_auth m" and ?b = "ma_basic (mg_auth m)"
  obtain tvs ids where t: "token_violations fw require 0 [] (ma_tokens ?a) = (tvs, ids)" by fastforce
  with assms have tvs: "tvs = []" and b: "validate_basic fw require (ma_mode ?a) ids ?b = []"
    and mode: "ma_mode ?a \<in> {[], ''bearer'', ''bearer_and_basic'', ''dev-loopback-unauth''}"
    and org: "origin_violations url_parse 0 (mg_origin_allowlist m) = []"
    by (auto simp: validate_management_def validate_origin_allowlist_def Let_def)
  have ids: "set (keys ids) = token_id ` set (ma_tokens ?a)" using token_violations_Nil[OF t[unfolded tvs]] by simp
  have ref: "lookup ids k \<noteq> None \<Longrightarrow> \<exists>t \<in> set (ma_tokens ?a). token_id t = k" for k
    using ids lookup_None_iff[of ids k] by (auto simp: image_iff)
  have "basic_valid fw require ?a"
  proof (cases "bs_username ?b = [] \<and> bs_password_file ?b = [] \<and> bs_token_ref ?b = []")
    case False
    then have 1: "trim_space (bs_username ?b) \<noteq> []" "trim_space (bs_password_file ?b) \<noteq> []"
      "lookup ids (bs_token_ref ?b) \<noteq> None"
      and 2: "basic_password_read (ma_mode ?a) (bs_username ?b) \<Longrightarrow>
        check_auth_password_file fw ''spec.management.auth.basic.passwordFile'' (bs_password_file ?b) require = []"
      using b unfolding validate_basic_def by (auto split: if_splits)
    have "\<exists>l. read_secret_file fw (bs_password_file ?b) = SecretLine l"
      if "require" "trim_space (ma_mode ?a) \<in> {[], ''bearer_and_basic''}"
      using 2 1 that by (auto simp: basic_password_read_def check_auth_password_file_def usable_secret_line_len_def
          split: secret_line.splits if_splits)
    then show ?thesis using 1 ref by (auto simp: basic_valid_def Let_def)
  qed (simp add: basic_valid_def Let_def)
  then show ?thesis using mode token_violations_secrets[OF t[unfolded tvs]] origin_violations_Nil[OF org] origin_violation_None
    by (auto simp: management_valid_def)
qed

lemma validate_observability_valid: "validate_observability ob = [] \<Longrightarrow> observability_valid ob"
  by (auto simp: validate_observability_def observability_valid_def)

text \<open>C17. A state that validates can be served.  Its store options are accepted by the inbox, and its SMTP
  limits, timeouts and caps are positive; every scripted reply is blank or parses to a code from 200 to
  599.  The document has the one API version and kind and a name.  Addresses are host:port pairs and paths
  absolute.  TLS is required only with STARTTLS; TLS and password authentication come with their files,
  which exist, and no file is named for what is off; the verb to close after is a known one.  Tokens
  have distinct names, known roles and scopes, and secrets of 32 bytes or more where their file
  is there, which it must be when secrets are required; basic authentication is complete and refers to a
  token, with a readable password likewise; each of at most 64 origins is a sentinel or a bare http(s) origin.\<close>

theorem validate_sound:
  "validate_state fw url_parse require (Some st) = None \<Longrightarrow>
    store_ok (sp_store (sd_spec st)) \<and> 0 \<le> ss_max_wait (sp_store (sd_spec st)) \<and> 0 \<le> ss_spill_threshold (sp_store (sd_spec st)) \<and>
    smtp_ok (sp_smtp (sd_spec st)) \<and> smtp_valid fw (sp_smtp (sd_spec st)) \<and>
    management_ok (sp_management (sd_spec st)) \<and> management_valid fw url_parse require (sp_management (sd_spec st)) \<and>
    document_valid st \<and> listeners_valid fw (sp_listeners (sd_spec st)) \<and> observability_valid (sp_observability (sd_spec st))"
proof -
  assume v: "validate_state fw url_parse require (Some st) = None"
  then have "validate_document st = []" "validate_listeners fw (sp_listeners (sd_spec st)) = []"
    "validate_smtp fw (sp_smtp (sd_spec st)) = []" "validate_store (sp_store (sd_spec st)) = []"
    "validate_management fw url_parse require (sp_management (sd_spec st)) = []"
    "validate_observability (sp_observability (sd_spec st)) = []"
    by (auto simp: validate_state_def state_violations_def Let_def split: if_splits)
  then show ?thesis
    using validate_sound_holds[OF v] validate_document_valid validate_listeners_valid validate_smtp_valid validate_management_valid
      validate_observability_valid by (simp add: validate_store_def not_less)
qed

definition blank_replies :: reply_overrides where
  "blank_replies = \<lparr> ro_greeting = [], ro_helo = [], ro_ehlo = [], ro_mail = [], ro_rcpt = [], ro_data = [], ro_data_end = [],
     ro_rset = [], ro_noop = [], ro_vrfy = [], ro_auth = [], ro_starttls = [], ro_unknown = [] \<rparr>"

definition demo_spec :: spec where
  "demo_spec = \<lparr>
     sp_listeners = \<lparr> ls_smtp_address = '':1025'', ls_mgmt_address = '':1080'', ls_rest_path = ''/v1'', ls_mcp_path = ''/mcp'',
       ls_compat_enabled = True, ls_tls = \<lparr> mt_enabled = False, mt_cert_file = [], mt_key_file = [] \<rparr> \<rparr>,
     sp_smtp = \<lparr> sm_hostname = ''labmail.lab'', sm_max_message_bytes = 10485760, sm_max_recipients = 100,
       sm_hide_extensions = [], sm_auth = \<lparr> sa_mode = ''none'', sa_username = [], sa_password_file = [] \<rparr>,
       sm_tls = \<lparr> tl_mode = ''off'', tl_required = False, tl_cert_file = [], tl_key_file = [] \<rparr>,
       sm_admission = \<lparr> adm_max_sessions = 256, adm_max_sessions_per_ip = 32, adm_max_in_flight_data = 8,
         adm_max_in_flight_data_bytes = 67108864, adm_session_timeout = 600000000000, adm_command_idle = 120000000000,
         adm_data_idle = 180000000000 \<rparr>,
       sm_behavior = \<lparr> bh_greeting_delay = 0, bh_command_delay = 0, bh_drop_on_connect = False, bh_close_after_verb = [],
         bh_replies = blank_replies \<rparr> \<rparr>,
     sp_store = \<lparr> ss_max_messages = 1000, ss_max_bytes = 268435456, ss_full_policy = ''reject'', ss_max_wait = 60000000000,
       ss_spill_directory = [], ss_spill_threshold = 262144 \<rparr>,
     sp_ui_enabled = True,
     sp_management = \<lparr> mg_auth = \<lparr> ma_mode = ''bearer'', ma_tokens = [\<lparr> tk_id = ''ops'', tk_secret_file = ''/run/ops'',
         tk_role = ''operator'', tk_scopes = [] \<rparr>], ma_basic = \<lparr> bs_username = [], bs_password_file = [], bs_token_ref = [] \<rparr> \<rparr>,
       mg_allow_legacy = False, mg_origin_allowlist = [''private''], mg_body_limit = 1048576, mg_requests_per_second = 32,
       mg_burst = 64, mg_max_concurrent = 256 \<rparr>,
     sp_observability = \<lparr> ob_log_level = ''info'', ob_metrics_listen = ''127.0.0.1:9090'', ob_metrics_public = False,
       ob_audit_ring = 128 \<rparr> \<rparr>"

definition demo_state :: state_doc where
  "demo_state = \<lparr> sd_api_version = ''labmail.dev/v1alpha1'', sd_kind = ''LabMail'', sd_name = ''lab'', sd_labels = [],
     sd_spec = demo_spec \<rparr>"

definition no_files :: file_world where
  "no_files = \<lparr> fw_exists = (\<lambda>p. False), fw_read = (\<lambda>p. None), fw_error = (\<lambda>p. ''no such file'') \<rparr>"

lemma demo_state_valid: "validate_state no_files (\<lambda>u. None) False (Some demo_state) = None"
  by code_simp

lemma validate_sound_witness: "store_ok (sp_store demo_spec) \<and> management_ok (sp_management demo_spec)"
  using validate_sound[OF demo_state_valid] by (simp add: demo_state_def)

end
