(* ===== verification/Audit_Log.thy ===== *)
theory Audit_Log
  imports Config_Tree
begin

text \<open>
  The audit log of \<^verbatim>\<open>internal/audit\<close>: redaction of an event (\<^verbatim>\<open>event.go\<close>, \<^verbatim>\<open>redact.go\<close>), the bounded ring
  (\<^verbatim>\<open>ring.go\<close>) and the fan-out to a hook (\<^verbatim>\<open>sink.go\<close>).  Decoding and encoding of JSON text are arguments;
  the hook answers whether it failed.
\<close>

section \<open>Events and redaction\<close>

record audit_entry =
  ae_path :: bytes
  ae_op :: bytes
  ae_before :: bytes
  ae_after :: bytes

record audit_event =
  au_id :: bytes
  au_time :: int
  au_actor :: bytes
  au_class :: bytes
  au_transport :: bytes
  au_capability :: bytes
  au_reason :: bytes
  au_message :: bytes
  au_previous :: bytes
  au_revision :: bytes
  au_store_generation :: nat
  au_result :: bytes
  au_error_code :: bytes
  au_diff :: "audit_entry list"

definition redacted_mark :: bytes where "redacted_mark = ''[redacted]''"

definition secret_keys :: "bytes list" where
  "secret_keys = [''secret'', ''secretref'', ''token'', ''password'', ''authorization'', ''bearer'', ''credential'',
     ''credentials'', ''apikey'', ''api_key'']"

definition secret_path :: "bytes \<Rightarrow> bool" where
  "secret_path path = (let p = to_lower path in
     list_ex (\<lambda>k. p = k \<or> has_suffix (''.'' @ k) p \<or> has_suffix (''/'' @ k) p) secret_keys)"

fun redact_tree :: "json \<Rightarrow> json"
  and redact_entries :: "(bytes \<times> json) list \<Rightarrow> (bytes \<times> json) list"
  and redact_items :: "json list \<Rightarrow> json list" where
  "redact_tree (JObj kvs) = JObj (redact_entries kvs)"
| "redact_tree (JArr xs) = JArr (redact_items xs)"
| "redact_tree v = v"
| "redact_entries [] = []"
| "redact_entries ((k, v) # kvs) =
     (k, if to_lower k \<in> set secret_keys then JStr redacted_mark else redact_tree v) # redact_entries kvs"
| "redact_items [] = []"
| "redact_items (x # xs) = redact_tree x # redact_items xs"

record json_text =
  jt_decode :: "bytes \<Rightarrow> json option"
  jt_encode :: "json \<Rightarrow> bytes option"

definition redact_json :: "json_text \<Rightarrow> bytes \<Rightarrow> bytes" where
  "redact_json jt raw0 = (let raw = trim_space raw0 in
     if raw = [] \<or> raw = ''null'' then raw
     else case jt_decode jt raw of
         None \<Rightarrow> raw
       | Some tree \<Rightarrow> (case jt_encode jt (redact_tree tree) of None \<Rightarrow> raw | Some out \<Rightarrow> out))"

definition redact_text :: "bytes \<Rightarrow> bytes" where
  "redact_text s = (if s = [] then s else if has_prefix ''bearer '' (to_lower (trim_space s)) then redacted_mark else s)"

definition redact_entry :: "json_text \<Rightarrow> audit_entry \<Rightarrow> audit_entry" where
  "redact_entry jt d = (let q = [CHR 0x22] @ redacted_mark @ [CHR 0x22] in
     \<lparr> ae_path = ae_path d, ae_op = ae_op d,
       ae_before = (if secret_path (ae_path d) then q else redact_json jt (ae_before d)),
       ae_after = (if secret_path (ae_path d) then q else redact_json jt (ae_after d)) \<rparr>)"

definition redact_event :: "json_text \<Rightarrow> audit_event \<Rightarrow> audit_event" where
  "redact_event jt ev = ev \<lparr> au_reason := redact_text (au_reason ev), au_diff := map (redact_entry jt) (au_diff ev) \<rparr>"

text \<open>A tree without secrets: every member with a secret name is the mark.\<close>

definition secret_free :: "json \<Rightarrow> bool" where
  "secret_free = all_members (\<lambda>k v. to_lower k \<in> set secret_keys \<longrightarrow> v = JStr redacted_mark)"

lemma redact_tree_secret_free:
  "all_members (\<lambda>k v. to_lower k \<in> set secret_keys \<longrightarrow> v = JStr redacted_mark) (redact_tree t)"
  "all_entries (\<lambda>k v. to_lower k \<in> set secret_keys \<longrightarrow> v = JStr redacted_mark) (redact_entries kvs)"
  "all_items (\<lambda>k v. to_lower k \<in> set secret_keys \<longrightarrow> v = JStr redacted_mark) (redact_items xs)"
  by (induction t and kvs and xs rule: redact_tree_redact_entries_redact_items.induct) auto

section \<open>The ring\<close>

record ring =
  rg_max :: nat
  rg_next :: nat
  rg_events :: "audit_event list"

definition default_max :: nat where "default_max = 128"

definition new_ring :: "int \<Rightarrow> ring" where
  "new_ring cap = \<lparr> rg_max = (if cap \<le> 0 then default_max else nat cap), rg_next = 0, rg_events = [] \<rparr>"

definition ring_append :: "audit_event \<Rightarrow> ring \<Rightarrow> audit_event \<times> ring" where
  "ring_append ev r = (let n = Suc (rg_next r); ev1 = ev \<lparr> au_id := ''aud-'' @ nat_str n \<rparr>; es = rg_events r @ [ev1]
     in (ev1, r \<lparr> rg_next := n, rg_events := drop (length es - rg_max r) es \<rparr>))"

definition ring_list :: "int \<Rightarrow> ring \<Rightarrow> audit_event list" where
  "ring_list limit r = take (if limit \<le> 0 \<or> limit > 100 then 100 else nat limit) (rev (rg_events r))"

definition ring_get :: "bytes \<Rightarrow> ring \<Rightarrow> audit_event option" where
  "ring_get i r = (if i = [] then None else find (\<lambda>e. au_id e = i) (rev (rg_events r)))"

definition ring_len :: "ring \<Rightarrow> nat" where
  "ring_len r = length (rg_events r)"

record fanout =
  fo_ring :: ring
  fo_hook :: bool
  fo_errs :: nat

definition new_fanout :: "int \<Rightarrow> bool \<Rightarrow> fanout" where
  "new_fanout cap hook = \<lparr> fo_ring = new_ring cap, fo_hook = hook, fo_errs = 0 \<rparr>"

text \<open>\<open>fails\<close> is what the hook answers for this event.\<close>

definition fanout_record :: "json_text \<Rightarrow> bool \<Rightarrow> audit_event \<Rightarrow> fanout \<Rightarrow> audit_event \<times> fanout" where
  "fanout_record jt fails ev f = (let (ev1, r) = ring_append (redact_event jt ev) (fo_ring f)
     in (ev1, f \<lparr> fo_ring := r, fo_errs := (if fo_hook f \<and> fails then Suc (fo_errs f) else fo_errs f) \<rparr>))"

text \<open>The ring holds the last events, numbered without a gap.\<close>

definition ring_inv :: "ring \<Rightarrow> bool" where
  "ring_inv r = (0 < rg_max r \<and> length (rg_events r) = min (rg_next r) (rg_max r) \<and>
     map au_id (rg_events r) = map (\<lambda>n. ''aud-'' @ nat_str (Suc n)) [rg_next r - length (rg_events r)..<rg_next r])"

lemma new_ring_inv: "ring_inv (new_ring cap)"
  by (simp add: ring_inv_def new_ring_def default_max_def)

lemma ring_append_inv:
  assumes "ring_inv r"
  shows "ring_inv (snd (ring_append ev r))"
proof -
  let ?ids = "\<lambda>a b. map (\<lambda>n. ''aud-'' @ nat_str (Suc n)) [a..<b]" and ?l = "length (rg_events r)"
  have l: "?l = min (rg_next r) (rg_max r)" "0 < rg_max r" "map au_id (rg_events r) = ?ids (rg_next r - ?l) (rg_next r)"
    using assms by (simp_all add: ring_inv_def)
  have "?ids (rg_next r - ?l) (rg_next r) @ [''aud-'' @ nat_str (Suc (rg_next r))] = ?ids (rg_next r - ?l) (Suc (rg_next r))"
    by simp
  then have m: "map au_id (rg_events r @ [ev \<lparr> au_id := ''aud-'' @ nat_str (Suc (rg_next r)) \<rparr>]) =
      ?ids (rg_next r - ?l) (Suc (rg_next r))" using l(3) by simp
  have "map au_id (rg_events (snd (ring_append ev r))) = drop (Suc ?l - rg_max r)
      (map au_id (rg_events r @ [ev \<lparr> au_id := ''aud-'' @ nat_str (Suc (rg_next r)) \<rparr>]))"
    by (simp add: ring_append_def Let_def drop_map[symmetric] del: drop_append map_append)
  also have "\<dots> = drop (Suc ?l - rg_max r) (?ids (rg_next r - ?l) (Suc (rg_next r)))" unfolding m ..
  also have "\<dots> = ?ids (rg_next r - ?l + (Suc ?l - rg_max r)) (Suc (rg_next r))"
    by (simp only: drop_map drop_upt)
  finally show ?thesis using l(1,2)
    by (auto simp: ring_inv_def ring_append_def Let_def min_def split: if_splits intro!: arg_cong2[of _ _ _ _ upt])
qed

definition record_all :: "json_text \<Rightarrow> (bool \<times> audit_event) list \<Rightarrow> fanout \<Rightarrow> fanout" where
  "record_all jt evs f = foldl (\<lambda>f (fails, ev). snd (fanout_record jt fails ev f)) f evs"

text \<open>The log the ring is a window of: every event redacted and numbered from one.\<close>

definition full_log :: "json_text \<Rightarrow> (bool \<times> audit_event) list \<Rightarrow> audit_event list" where
  "full_log jt evs = map (\<lambda>(n, fails, ev). redact_event jt ev \<lparr> au_id := ''aud-'' @ nat_str (Suc n) \<rparr>) (enumerate 0 evs)"

lemma full_log_snoc:
  "full_log jt (evs @ [(fails, ev)]) = full_log jt evs @ [redact_event jt ev \<lparr> au_id := ''aud-'' @ nat_str (Suc (length evs)) \<rparr>]"
  by (simp add: full_log_def enumerate_append_eq)

lemma full_log_length [simp]: "length (full_log jt evs) = length evs"
  by (simp add: full_log_def)

lemma record_all_window:
  defines "n \<equiv> \<lambda>cap. if cap \<le> 0 then default_max else nat cap"
  shows "let r = fo_ring (record_all jt evs (new_fanout cap hook)) in
    rg_max r = n cap \<and> rg_next r = length evs \<and> rg_events r = drop (length evs - n cap) (full_log jt evs)"
proof (induction evs rule: rev_induct)
  case Nil
  then show ?case by (simp add: record_all_def new_fanout_def new_ring_def n_def full_log_def)
next
  case (snoc x xs)
  obtain fails ev where x: "x = (fails, ev)" by fastforce
  let ?r = "fo_ring (record_all jt xs (new_fanout cap hook))"
  have ih: "rg_max ?r = n cap" "rg_next ?r = length xs" "rg_events ?r = drop (length xs - n cap) (full_log jt xs)"
    using snoc by (simp_all add: Let_def)
  have "0 < n cap" by (simp add: n_def default_max_def)
  then have "drop (Suc (length xs - (length xs - n cap)) - n cap) (drop (length xs - n cap) (full_log jt xs) @ [e]) =
      drop (Suc (length xs) - n cap) (full_log jt xs @ [e])" for e
    by (cases "length xs < n cap") (auto simp: Suc_diff_le)
  then show ?case using ih
    by (simp add: record_all_def x fanout_record_def ring_append_def Let_def full_log_snoc split: prod.splits)
qed

lemma full_log_ids: "map au_id (full_log jt evs) = map (\<lambda>n. ''aud-'' @ nat_str (Suc n)) [0..<length evs]"
  by (induction evs rule: rev_induct) (auto simp: full_log_snoc, simp add: full_log_def)

lemma find_distinct: "e \<in> set es \<Longrightarrow> distinct (map f es) \<Longrightarrow> find (\<lambda>x. f x = f e) es = Some e"
  by (induction es) (auto simp: rev_image_eqI)

lemma window_get:
  assumes "rg_events r = drop k (full_log jt evs)" "e \<in> set (rg_events r)"
  shows "ring_get (au_id e) r = Some e"
proof -
  have "inj_on (\<lambda>n. ''aud-'' @ nat_str (Suc n)) A" for A by (auto simp: inj_on_def nat_str_inj)
  then have "distinct (map au_id (full_log jt evs))" unfolding full_log_ids by (simp add: distinct_map)
  then have "distinct (map au_id (rev (rg_events r)))" unfolding assms(1) by (simp add: drop_map[symmetric] rev_map[symmetric])
  then have "find (\<lambda>x. au_id x = au_id e) (rev (rg_events r)) = Some e" using assms(2) find_distinct[of e "rev (rg_events r)" au_id] by simp
  moreover have "au_id e \<in> set (map au_id (full_log jt evs))" using assms in_set_dropD by fastforce
  then have "au_id e \<noteq> []" unfolding full_log_ids by auto
  ultimately show ?thesis by (simp add: ring_get_def)
qed

text \<open>C19. Whatever the hook answers, the ring holds the last events recorded, redacted and numbered in
  order without a gap; a page lists them newest first, every one of them is found by its
  identifier, and a redacted tree has no secret member left.\<close>

theorem audit_log:
  "let r = fo_ring (record_all jt evs (new_fanout cap hook)); n = (if cap \<le> 0 then default_max else nat cap) in
     rg_events r = drop (length evs - n) (full_log jt evs) \<and>
     ring_list limit r = take (if limit \<le> 0 \<or> limit > 100 then 100 else nat limit) (rev (drop (length evs - n) (full_log jt evs))) \<and>
     list_all (\<lambda>e. ring_get (au_id e) r = Some e) (rg_events r) \<and> secret_free (redact_tree t)"
  using record_all_window[where evs=evs and cap=cap and jt=jt and hook=hook] window_get redact_tree_secret_free(1)[of t]
  by (auto simp: Let_def ring_list_def list_all_iff secret_free_def)

end
