(* ===== verification/App_State.thy ===== *)
theory App_State
  imports Config_Validate Audit_Log
begin

text \<open>
  What the application service keeps between requests: the snapshots (\<^verbatim>\<open>internal/snapshot\<close>), the compiler of
  a state into one (\<^verbatim>\<open>internal/compiler\<close>), the idempotency cache, the operations of a change and the diff
  of two states (\<^verbatim>\<open>internal/app\<close>).  The digest of a state, its canonical tree and the JSON text of a tree
  are arguments.
\<close>

section \<open>Snapshots\<close>

record snapshot =
  sn_canonical :: state_doc
  sn_revision :: bytes
  sn_bootstrap :: bytes
  sn_generation :: nat
  sn_compiled_at :: int

record snap_store =
  ns_active :: "snapshot option"
  ns_previous :: "snapshot option"
  ns_bootstrap :: "snapshot option"

definition drifted :: "snapshot option \<Rightarrow> bool" where
  "drifted s = (case s of None \<Rightarrow> False | Some s \<Rightarrow> sn_revision s \<noteq> sn_bootstrap s)"

definition new_snap_store :: snap_store where
  "new_snap_store = \<lparr> ns_active = None, ns_previous = None, ns_bootstrap = None \<rparr>"

definition snap_swap :: "snapshot option \<Rightarrow> snap_store \<Rightarrow> snapshot option \<times> snap_store" where
  "snap_swap next s = (ns_active s,
     s \<lparr> ns_active := next, ns_previous := (if ns_active s = None then ns_previous s else ns_active s) \<rparr>)"

definition set_bootstrap :: "snapshot option \<Rightarrow> snap_store \<Rightarrow> snap_store" where
  "set_bootstrap next s = s \<lparr> ns_bootstrap := next \<rparr>"

definition install_bootstrap :: "snapshot option \<Rightarrow> snap_store \<Rightarrow> snapshot option \<times> snap_store" where
  "install_bootstrap next s = (if next = None then (None, s) else snap_swap next (set_bootstrap next s))"

section \<open>Compiling\<close>

text \<open>
  The surroundings of a call: files, the libraries, the digest of the canonical JSON, the canonical
  JSON tree and the text of a tree, the fingerprint of a change, the clock, the state of the
  request's context, what \<^verbatim>\<open>os.Stat\<close> says of the bootstrap file, the authentication preflights, whether
  the audit hook fails, and what other goroutines do to the inbox between the two looks of one call.
\<close>

datatype stat_result = StatOk | StatMissing | StatFail bytes

record app_env =
  ev_files :: file_world
  ev_url :: "bytes \<Rightarrow> url option"
  ev_libs :: "state_doc config_libs"
  ev_io :: io
  ev_digest :: "state_doc \<Rightarrow> bytes"
  ev_tree :: "state_doc \<Rightarrow> json"
  ev_marshal :: "json \<Rightarrow> bytes"
  ev_json :: json_text
  ev_fingerprint :: "bytes \<times> bool \<times> bytes \<times> operation list \<Rightarrow> bytes"
  ev_now :: int
  ev_ctx :: "go_error option"
  ev_stat :: "bytes \<Rightarrow> stat_result"
  ev_preflight :: "mgmt_auth \<Rightarrow> go_error option"
  ev_hook_fails :: bool
  ev_other :: "inbox \<Rightarrow> inbox"

fun go_error_text :: "go_error \<Rightarrow> bytes" where
  "go_error_text (DomainE e) = error_text e"
| "go_error_text (PlainE m) = m"
| "go_error_text (WrapE m e) = m"

definition as_domain_error :: "go_error \<Rightarrow> go_error" where
  "as_domain_error e = (if snd (as_domain e) then e else DomainE (Some (new_error InternalError (go_error_text e))))"

abbreviation domain_e :: "domain_error \<Rightarrow> go_error" where
  "domain_e d \<equiv> DomainE (Some d)"

record compile_opts =
  co_now :: "int option"
  co_bootstrap :: bytes
  co_generation :: nat
  co_require :: bool

definition revision_of :: "app_env \<Rightarrow> state_doc \<Rightarrow> bytes" where
  "revision_of e st = ''sha256:'' @ ev_digest e st"

definition compile :: "app_env \<Rightarrow> state_doc option \<Rightarrow> compile_opts \<Rightarrow> go_error + snapshot" where
  "compile e st opts = (case ev_ctx e of
       Some er \<Rightarrow> Inl er
     | None \<Rightarrow> (case normalize_state st of
         Inl er \<Rightarrow> Inl (domain_e er)
       | Inr n \<Rightarrow> (case validate_state (ev_files e) (ev_url e) (co_require opts) (Some n) of
           Some er \<Rightarrow> Inl (domain_e er)
         | None \<Rightarrow> (let rev = revision_of e n in
             Inr \<lparr> sn_canonical = n, sn_revision = rev,
               sn_bootstrap = (if co_bootstrap opts = [] then rev else co_bootstrap opts),
               sn_generation = co_generation opts,
               sn_compiled_at = (case co_now opts of None \<Rightarrow> ev_now e | Some t \<Rightarrow> t) \<rparr>))))"

definition compile_candidate :: "app_env \<Rightarrow> state_doc \<Rightarrow> snapshot option \<Rightarrow> bool \<Rightarrow> go_error + snapshot" where
  "compile_candidate e st prev require =
     compile e (Some st) (case prev of
         None \<Rightarrow> \<lparr> co_now = Some (ev_now e), co_bootstrap = [], co_generation = 0, co_require = require \<rparr>
       | Some p \<Rightarrow> \<lparr> co_now = Some (ev_now e),
           co_bootstrap = (if sn_bootstrap p = [] then sn_revision p else sn_bootstrap p),
           co_generation = sn_generation p + 1, co_require = require \<rparr>)"

lemma compile_sound:
  assumes "compile e st opts = Inr s"
  shows "\<exists>n. st = Some n \<and> sn_canonical s = n \<and> sn_revision s = revision_of e n \<and> sn_generation s = co_generation opts \<and>
    sn_bootstrap s = (if co_bootstrap opts = [] then revision_of e n else co_bootstrap opts) \<and>
    validate_state (ev_files e) (ev_url e) (co_require opts) (Some n) = None"
  using assms by (auto simp: compile_def normalize_state_def Let_def split: option.splits)

section \<open>Operations of a change\<close>

definition op_path :: "nat \<Rightarrow> bytes" where
  "op_path i = ''operations['' @ nat_str i @ '']''"

definition missing :: "bytes \<Rightarrow> bytes \<Rightarrow> bytes \<Rightarrow> domain_error" where
  "missing what path m = validation_failed (''missing '' @ what) [violation (path @ ''.'' @ what) ''required'' m]"

definition update_smtp :: "(smtp_spec \<Rightarrow> smtp_spec) \<Rightarrow> state_doc \<Rightarrow> state_doc" where
  "update_smtp f st = st \<lparr> sd_spec := (sd_spec st) \<lparr> sp_smtp := f (sp_smtp (sd_spec st)) \<rparr> \<rparr>"

definition apply_one :: "state_doc \<Rightarrow> operation \<Rightarrow> nat \<Rightarrow> domain_error + state_doc" where
  "apply_one st p i = (let path = op_path i in
     if op_name p = ''replaceSMTPAuth'' then (case op_auth p of
         None \<Rightarrow> Inl (missing ''auth'' path ''replaceSMTPAuth requires auth'')
       | Some a \<Rightarrow> Inr (update_smtp (\<lambda>s. s \<lparr> sm_auth := a \<rparr>) st))
     else if op_name p = ''replaceStoreCaps'' then (case op_store p of
         None \<Rightarrow> Inl (missing ''store'' path ''replaceStoreCaps requires store'')
       | Some c \<Rightarrow> Inr (st \<lparr> sd_spec := (sd_spec st) \<lparr> sp_store := (sp_store (sd_spec st)) \<lparr> ss_max_messages := sc_max_messages c,
           ss_max_bytes := sc_max_bytes c, ss_full_policy := sc_full_policy c \<rparr> \<rparr> \<rparr>))
     else if op_name p = ''replaceHideExtensions''
     then Inr (update_smtp (\<lambda>s. s \<lparr> sm_hide_extensions := (case op_hide p of None \<Rightarrow> [] | Some xs \<Rightarrow> xs) \<rparr>) st)
     else if op_name p = ''replaceAdmission'' then (case op_admission p of
         None \<Rightarrow> Inl (missing ''admission'' path ''replaceAdmission requires admission'')
       | Some a \<Rightarrow> Inr (update_smtp (\<lambda>s. s \<lparr> sm_admission := a \<rparr>) st))
     else if op_name p = ''replaceSMTPBehavior'' then (case op_behavior p of
         None \<Rightarrow> Inl (missing ''behavior'' path ''replaceSMTPBehavior requires behavior'')
       | Some b \<Rightarrow> Inr (update_smtp (\<lambda>s. s \<lparr> sm_behavior := b \<rparr>) st))
     else Inl (validation_failed ''unknown operation'' [violation (path @ ''.op'') ''invalid_value'' ''unknown op'']))"

fun apply_operations_from :: "nat \<Rightarrow> state_doc \<Rightarrow> operation list \<Rightarrow> domain_error + state_doc" where
  "apply_operations_from i st [] = Inr st"
| "apply_operations_from i st (p # ps) = (case apply_one st p i of
     Inl er \<Rightarrow> Inl er | Inr st' \<Rightarrow> apply_operations_from (Suc i) st' ps)"

definition apply_operations :: "state_doc \<Rightarrow> operation list \<Rightarrow> domain_error + state_doc" where
  "apply_operations = apply_operations_from 0"

definition any_replace_store_caps :: "operation list \<Rightarrow> bool" where
  "any_replace_store_caps ps = list_ex (\<lambda>p. op_name p = ''replaceStoreCaps'') ps"

definition reject_unimplemented_smtp :: "smtp_spec \<Rightarrow> domain_error option" where
  "reject_unimplemented_smtp s =
     (if sa_mode (sm_auth s) \<notin> {[], ''none'', ''plain_login''}
      then Some (validation_failed ''unsupported smtp.auth.mode'' [violation ''spec.smtp.auth.mode'' ''invalid_value''
        (''smtp.auth.mode '' @ go_quote (sa_mode (sm_auth s)) @ '' is not supported'')])
      else if tl_mode (sm_tls s) \<notin> {[], ''off'', ''starttls''}
      then Some (validation_failed ''smtp.tls.mode implicit is not implemented in 1.0''
        [violation ''spec.smtp.tls.mode'' ''invalid_value''
          (''smtp.tls.mode '' @ go_quote (tl_mode (sm_tls s)) @ '' is not implemented in 1.0'')])
      else None)"

lemma smtp_ok_implemented: "smtp_ok s \<Longrightarrow> reject_unimplemented_smtp s = None"
  by (auto simp: smtp_ok_def reject_unimplemented_smtp_def)

lemma apply_one_store:
  assumes "apply_one st p i = Inr st'" "op_name p \<noteq> ''replaceStoreCaps''"
  shows "sp_store (sd_spec st') = sp_store (sd_spec st)"
  using assms by (auto simp: apply_one_def update_smtp_def Let_def split: if_splits option.splits)

lemma apply_one_spill:
  assumes "apply_one st p i = Inr st'"
  shows "ss_spill_directory (sp_store (sd_spec st')) = ss_spill_directory (sp_store (sd_spec st))"
  using assms by (auto simp: apply_one_def update_smtp_def Let_def split: if_splits option.splits)

lemma apply_operations_store:
  assumes "apply_operations st ps = Inr st'" "\<not> any_replace_store_caps ps"
  shows "sp_store (sd_spec st') = sp_store (sd_spec st)"
proof -
  have "apply_operations_from i st ps = Inr st' \<Longrightarrow> sp_store (sd_spec st') = sp_store (sd_spec st)" for i
    using assms(2)
  proof (induction ps arbitrary: i st)
    case (Cons p ps)
    then obtain st1 where "apply_one st p i = Inr st1" "apply_operations_from (Suc i) st1 ps = Inr st'"
      by (auto split: sum.splits)
    then show ?case using Cons apply_one_store[of st p i st1] by (auto simp: any_replace_store_caps_def)
  qed simp
  then show ?thesis using assms(1) by (simp add: apply_operations_def)
qed

section \<open>The difference of two states\<close>

record diff_entry =
  de_path :: bytes
  de_op :: bytes
  de_before :: "bytes option"
  de_after :: "bytes option"

lemma member_size: "map_of bm k = Some bv \<Longrightarrow> size bv < Suc (size_list (size_prod (\<lambda>x. 0) size) bm)"
  for bm :: "(bytes \<times> json) list"
  by (induction bm) (auto split: if_splits)

function walk_diff :: "(json \<Rightarrow> bytes) \<Rightarrow> json \<Rightarrow> json \<Rightarrow> bytes \<Rightarrow> diff_entry list"
  and walk_items :: "(json \<Rightarrow> bytes) \<Rightarrow> json list \<Rightarrow> json list \<Rightarrow> nat \<Rightarrow> bytes \<Rightarrow> diff_entry list" where
  "walk_diff mj before after path =
     (if mj before = mj after then []
      else case (before, after) of
          (JObj bm, JObj am) \<Rightarrow> concat (map (\<lambda>k. let p = join_path path k in
              case (lookup bm k, lookup am k) of
                (None, None) \<Rightarrow> []
              | (None, Some av) \<Rightarrow> [\<lparr> de_path = p, de_op = ''add'', de_before = None, de_after = Some (mj av) \<rparr>]
              | (Some bv, None) \<Rightarrow> [\<lparr> de_path = p, de_op = ''remove'', de_before = Some (mj bv), de_after = None \<rparr>]
              | (Some bv, Some av) \<Rightarrow> walk_diff mj bv av p)
            (sort (remdups (keys bm @ keys am))))
        | (JArr bl, JArr al) \<Rightarrow> walk_items mj bl al 0 path
        | _ \<Rightarrow> [\<lparr> de_path = path, de_op = ''replace'', de_before = Some (mj before), de_after = Some (mj after) \<rparr>])"
| "walk_items mj [] [] i path = []"
| "walk_items mj [] (a # as) i path =
     \<lparr> de_path = index_path path i, de_op = ''add'', de_before = None, de_after = Some (mj a) \<rparr> # walk_items mj [] as (Suc i) path"
| "walk_items mj (b # bs) [] i path =
     \<lparr> de_path = index_path path i, de_op = ''remove'', de_before = Some (mj b), de_after = None \<rparr> # walk_items mj bs [] (Suc i) path"
| "walk_items mj (b # bs) (a # as) i path = walk_diff mj b a (index_path path i) @ walk_items mj bs as (Suc i) path"
  by pat_completeness auto

termination
  by (relation "measure (\<lambda>x. case x of Inl (mj, b, a, p) \<Rightarrow> size b + size a
      | Inr (mj, bs, as, i, p) \<Rightarrow> size_list size bs + size_list size as)")
    (auto dest!: member_size[OF sym])

definition diff_states :: "app_env \<Rightarrow> state_doc option \<Rightarrow> state_doc \<Rightarrow> diff_entry list" where
  "diff_states e before after = sort_key de_path (walk_diff (ev_marshal e)
     (case before of None \<Rightarrow> JObj [] | Some b \<Rightarrow> ev_tree e b) (ev_tree e after) [])"

definition format_human_diff :: "diff_entry list \<Rightarrow> bytes" where
  "format_human_diff ds = concat (map (\<lambda>d. de_op d @ '' '' @ de_path d @ [LF]) ds)"

end
