(* ===== verification/App_Core.thy ===== *)
theory App_Core
  imports App_State
begin

text \<open>
  The mutations of the application service (\<^verbatim>\<open>internal/app\<close>): the idempotency cache, plan, apply,
  validate, reset, boot and close.  The service's mutex makes each of them one step; other goroutines
  reach the inbox only, and between the two looks an apply takes at it (\<open>ev_other\<close>).  The cache's
  doubly linked list is the list of its entries, the most recently used first, and its map the
  lookup in that list.
\<close>

section \<open>The idempotency cache\<close>

record plan =
  pl_previous :: bytes
  pl_candidate :: bytes
  pl_drifted :: bool
  pl_diff :: "diff_entry list"
  pl_warnings :: "(bytes \<times> bytes) list"
  pl_operations :: "operation list"

record apply_result =
  ar_plan :: plan
  ar_applied :: bool
  ar_generation :: nat
  ar_revision :: bytes
  ar_audit :: bytes

record idemp_entry =
  ie_key :: bytes
  ie_fp :: bytes
  ie_plan :: "plan option"
  ie_apply :: "apply_result option"

record idemp =
  ic_max :: nat
  ic_entries :: "idemp_entry list"

definition default_idempotency_max :: nat where "default_idempotency_max = 256"

definition new_idemp :: "int \<Rightarrow> idemp" where
  "new_idemp cap = \<lparr> ic_max = (if cap \<le> 0 then default_idempotency_max else nat cap), ic_entries = [] \<rparr>"

definition idemp_find :: "bytes \<Rightarrow> idemp \<Rightarrow> idemp_entry option" where
  "idemp_find key c = find (\<lambda>x. ie_key x = key) (ic_entries c)"

definition idemp_remove :: "bytes \<Rightarrow> idemp \<Rightarrow> idemp" where
  "idemp_remove key c = c \<lparr> ic_entries := filter (\<lambda>x. ie_key x \<noteq> key) (ic_entries c) \<rparr>"

definition move_front :: "idemp_entry \<Rightarrow> idemp \<Rightarrow> idemp" where
  "move_front x c = c \<lparr> ic_entries := x # filter (\<lambda>y. ie_key y \<noteq> ie_key x) (ic_entries c) \<rparr>"

definition insert_front :: "idemp_entry \<Rightarrow> idemp \<Rightarrow> idemp" where
  "insert_front x c = (let c1 = move_front x (idemp_remove (ie_key x) c) in c1 \<lparr> ic_entries := take (ic_max c) (ic_entries c1) \<rparr>)"

definition idemp_lookup :: "bytes \<Rightarrow> bytes \<Rightarrow> idemp \<Rightarrow> (domain_error + idemp_entry option) \<times> idemp" where
  "idemp_lookup key fp c =
     (if key = [] then (Inr None, c)
      else case idemp_find key c of
          None \<Rightarrow> (Inr None, c)
        | Some x \<Rightarrow>
            if ie_fp x \<noteq> fp
            then (Inl (new_error IdempotencyConflict ''idempotency key reused with a different request''), c)
            else (Inr (Some x), move_front x c))"

definition store_plan :: "bytes \<Rightarrow> bytes \<Rightarrow> plan \<Rightarrow> idemp \<Rightarrow> idemp" where
  "store_plan key fp p c =
     (if key = [] then c
      else case idemp_find key c of
          Some x \<Rightarrow> if ie_fp x = fp then move_front (x \<lparr> ie_plan := Some p \<rparr>) c
            else insert_front \<lparr> ie_key = key, ie_fp = fp, ie_plan = Some p, ie_apply = None \<rparr> c
        | None \<Rightarrow> insert_front \<lparr> ie_key = key, ie_fp = fp, ie_plan = Some p, ie_apply = None \<rparr> c)"

definition store_apply :: "bytes \<Rightarrow> bytes \<Rightarrow> apply_result \<Rightarrow> idemp \<Rightarrow> idemp" where
  "store_apply key fp r c =
     (if key = [] then c
      else case idemp_find key c of
          Some x \<Rightarrow> if ie_fp x = fp then move_front (x \<lparr> ie_apply := Some r \<rparr>) c
            else insert_front \<lparr> ie_key = key, ie_fp = fp, ie_plan = None, ie_apply = Some r \<rparr> c
        | None \<Rightarrow> insert_front \<lparr> ie_key = key, ie_fp = fp, ie_plan = None, ie_apply = Some r \<rparr> c)"

definition idemp_evict :: "bytes \<Rightarrow> idemp \<Rightarrow> idemp" where
  "idemp_evict key c = (if key = [] then c else idemp_remove key c)"

definition idemp_clear :: "idemp \<Rightarrow> idemp" where
  "idemp_clear c = c \<lparr> ic_entries := [] \<rparr>"

definition idemp_inv :: "idemp \<Rightarrow> bool" where
  "idemp_inv c = (0 < ic_max c \<and> length (ic_entries c) \<le> ic_max c \<and> distinct (map ie_key (ic_entries c)))"

lemma idemp_find_SomeD: "idemp_find key c = Some x \<Longrightarrow> ie_key x = key \<and> x \<in> set (ic_entries c)"
  by (auto simp: idemp_find_def find_Some_iff)

lemma idemp_find_front [simp]: "idemp_find (ie_key x) (c \<lparr> ic_entries := x # xs \<rparr>) = Some x"
  by (simp add: idemp_find_def)

lemma distinct_map_filter: "distinct (map f xs) \<Longrightarrow> distinct (map f (filter P xs))"
  by (induction xs) auto

lemma filter_key_shorter: "x \<in> set xs \<Longrightarrow> ie_key x = k \<Longrightarrow> length (filter (\<lambda>y. ie_key y \<noteq> k) xs) < length xs"
  by (rule length_filter_less) auto

lemma move_front_inv:
  assumes "idemp_inv c" "idemp_find (ie_key x) c \<noteq> None"
  shows "idemp_inv (move_front x c)"
proof -
  obtain y where "y \<in> set (ic_entries c)" "ie_key y = ie_key x" using assms(2) idemp_find_SomeD by blast
  then have "length (filter (\<lambda>y. ie_key y \<noteq> ie_key x) (ic_entries c)) < length (ic_entries c)" by (rule filter_key_shorter)
  then show ?thesis using assms(1) by (auto simp: idemp_inv_def move_front_def distinct_map_filter)
qed

lemma insert_front_inv: "idemp_inv c \<Longrightarrow> idemp_inv (insert_front x c)"
  by (auto simp: idemp_inv_def insert_front_def move_front_def idemp_remove_def Let_def take_map[symmetric]
      intro!: distinct_take distinct_map_filter)

lemma idemp_ops_inv:
  assumes "idemp_inv c"
  shows "idemp_inv (snd (idemp_lookup key fp c))" "idemp_inv (store_plan key fp p c)" "idemp_inv (store_apply key fp r c)"
    "idemp_inv (idemp_evict key c)" "idemp_inv (idemp_clear c)"
proof -
  have mf: "idemp_find key c = Some x \<Longrightarrow> ie_key y = ie_key x \<Longrightarrow> idemp_inv (move_front y c)" for x y
    using move_front_inv[OF assms, of y] idemp_find_SomeD[of key c x] by auto
  show "idemp_inv (snd (idemp_lookup key fp c))"
    using assms mf by (auto simp: idemp_lookup_def split: option.splits)
  show "idemp_inv (store_plan key fp p c)" "idemp_inv (store_apply key fp r c)"
    using assms mf insert_front_inv[OF assms] by (auto simp: store_plan_def store_apply_def split: option.splits)
  have "length (filter P xs) \<le> n" if "length xs \<le> n" for P n and xs :: "idemp_entry list"
    using that length_filter_le[of P xs] by linarith
  then show "idemp_inv (idemp_evict key c)" "idemp_inv (idemp_clear c)"
    using assms by (auto simp: idemp_inv_def idemp_evict_def idemp_remove_def idemp_clear_def distinct_map_filter)
qed

lemma store_apply_found:
  assumes "idemp_inv c" "key \<noteq> []"
  shows "\<exists>x. idemp_find key (store_apply key fp r c) = Some x \<and> ie_fp x = fp \<and> ie_apply x = Some r"
proof -
  have new: "idemp_find key (insert_front y c) = Some y" if "ie_key y = key" for y
    using that assms(1) by (cases "ic_max c") (auto simp: insert_front_def move_front_def idemp_find_def idemp_inv_def Let_def)
  show ?thesis
  proof (cases "idemp_find key c")
    case None
    then show ?thesis using assms(2) new by (simp add: store_apply_def)
  next
    case (Some x)
    then show ?thesis using assms(2) new idemp_find_SomeD[OF Some]
      by (auto simp: store_apply_def move_front_def idemp_find_def)
  qed
qed

section \<open>The service\<close>

record app =
  ap_snaps :: snap_store
  ap_inbox :: "inbox option"
  ap_path :: bytes
  ap_idemp :: idemp
  ap_audit :: fanout

record candidate =
  cd_prev :: "snapshot option"
  cd_next :: snapshot
  cd_ops :: "operation list"
  cd_diff :: "diff_entry list"
  cd_warn :: "(bytes \<times> bytes) list"

record actor =
  ac_id :: bytes
  ac_class :: bytes
  ac_role :: bytes
  ac_scopes :: "bytes list"
  ac_transport :: bytes

definition active_snapshot :: "app \<Rightarrow> go_error + snapshot" where
  "active_snapshot a = (case ns_active (ap_snaps a) of
       None \<Rightarrow> Inl (domain_e (new_error InternalError ''no active snapshot'')) | Some s \<Rightarrow> Inr s)"

definition store_error_text :: "store_error \<Rightarrow> bytes" where
  "store_error_text er = (case er of ErrFull \<Rightarrow> ''store full'' | ErrStaleEpoch \<Rightarrow> ''stale store epoch''
     | ErrTooLarge \<Rightarrow> ''message exceeds store maxBytes'' | ErrNotFound \<Rightarrow> ''message not found''
     | ErrSpill m \<Rightarrow> ''store spill: '' @ m | ErrOverNewCap \<Rightarrow> ''store over new cap''
     | ErrCtx \<Rightarrow> ''context canceled'' | ErrOther m \<Rightarrow> ''store: '' @ m)"

definition over_new_cap :: go_error where
  "over_new_cap = domain_e (new_error StoreOverNewCap ''inbox occupancy exceeds the new store caps'')"

definition map_store_cap_err :: "store_error \<Rightarrow> go_error" where
  "map_store_cap_err er = (if er = ErrOverNewCap then over_new_cap else as_domain_error (PlainE (store_error_text er)))"

definition build_candidate :: "app_env \<Rightarrow> change_set \<Rightarrow> app \<Rightarrow> go_error + candidate" where
  "build_candidate e c a = (case active_snapshot a of
       Inl er \<Rightarrow> Inl er
     | Inr prev \<Rightarrow>
         if cs_expected c = [] then Inl (domain_e (validation_failed ''expectedRevision is required''
           [violation ''expectedRevision'' ''required'' ''expectedRevision is required for plan and apply'']))
         else if cs_expected c \<noteq> sn_revision prev
         then Inl (DomainE (with_remediation ''Re-read GET state and re-plan against the current revision.''
           (Some (revision_conflict ''active revision does not match expectedRevision'' (sn_revision prev)))))
         else (case apply_operations (sn_canonical prev) (cs_operations c) of
             Inl er \<Rightarrow> Inl (domain_e er)
           | Inr st \<Rightarrow> (case reject_unimplemented_smtp (sp_smtp (sd_spec st)) of
               Some er \<Rightarrow> Inl (domain_e er)
             | None \<Rightarrow> (case compile_candidate e st (Some prev) False of
                 Inl er \<Rightarrow> Inl (as_domain_error er)
               | Inr next \<Rightarrow> Inr \<lparr> cd_prev = Some prev, cd_next = next, cd_ops = cs_operations c,
                   cd_diff = diff_states e (Some (sn_canonical prev)) (sn_canonical next), cd_warn = [] \<rparr>))))"

definition evict_warning :: "nat \<Rightarrow> int \<Rightarrow> bytes \<times> bytes" where
  "evict_warning count cap = (''store_evict'', ''apply evicts oldest messages to fit new caps (at least '' @
     int_str (max 0 (int count - cap)) @ '')'')"

text \<open>The stats are read first; when the caps are replaced others may have used the inbox since.\<close>

definition check_store_caps :: "app_env \<Rightarrow> bool \<Rightarrow> bool \<Rightarrow> candidate \<Rightarrow> app \<Rightarrow> (go_error + candidate) \<times> app" where
  "check_store_caps e force apply cand a = (case ap_inbox a of
       None \<Rightarrow> (Inr cand, a)
     | Some m \<Rightarrow>
         if \<not> any_replace_store_caps (cd_ops cand) then (Inr cand, a)
         else let sp = sp_store (sd_spec (sn_canonical (cd_next cand))); stats = memory_stats m;
                  over = (int (st_count stats) > ss_max_messages sp \<or> st_bytes stats > ss_max_bytes sp);
                  replace = (\<lambda>cand. if apply then (case replace_caps (ev_io e) (options_from_spec sp) force (ev_other e m) of
                       (Some er, m') \<Rightarrow> (Inl (map_store_cap_err er), a \<lparr> ap_inbox := Some m' \<rparr>)
                     | (None, m') \<Rightarrow> (Inr cand, a \<lparr> ap_inbox := Some m' \<rparr>)) else (Inr cand, a))
              in if \<not> over then replace cand
                 else if ss_full_policy sp \<noteq> evict_policy \<and> \<not> force then (Inl over_new_cap, a)
                 else replace (cand \<lparr> cd_warn := cd_warn cand @ [evict_warning (st_count stats) (ss_max_messages sp)] \<rparr>))"

definition plan_from :: "candidate \<Rightarrow> plan" where
  "plan_from c = \<lparr> pl_previous = (case cd_prev c of None \<Rightarrow> [] | Some s \<Rightarrow> sn_revision s),
     pl_candidate = sn_revision (cd_next c), pl_drifted = drifted (Some (cd_next c)), pl_diff = cd_diff c,
     pl_warnings = cd_warn c, pl_operations = cd_ops c \<rparr>"

definition forget_on_conflict :: "bytes \<Rightarrow> go_error \<Rightarrow> app \<Rightarrow> app" where
  "forget_on_conflict key er a = (case as_domain er of
       (Some d, True) \<Rightarrow> if err_code d = RevisionConflict then a \<lparr> ap_idemp := idemp_evict key (ap_idemp a) \<rparr> else a
     | _ \<Rightarrow> a)"

definition fingerprint_change :: "app_env \<Rightarrow> change_set \<Rightarrow> bytes" where
  "fingerprint_change e c = ev_fingerprint e (cs_expected c, cs_force c, cs_reason c, cs_operations c)"

definition plan_locked :: "app_env \<Rightarrow> change_set \<Rightarrow> app \<Rightarrow> (go_error + plan) \<times> app" where
  "plan_locked e c a0 = (let fp = fingerprint_change e c; key = cs_key c; (hit, ic) = idemp_lookup key fp (ap_idemp a0);
       a = a0 \<lparr> ap_idemp := ic \<rparr> in
     case hit of
       Inl er \<Rightarrow> (Inl (domain_e er), a)
     | Inr x \<Rightarrow> (case Option.bind x ie_plan of
         Some p \<Rightarrow> (Inr p, a)
       | None \<Rightarrow> (case build_candidate e c a of
           Inl er \<Rightarrow> (Inl er, forget_on_conflict key er a)
         | Inr cand \<Rightarrow> (case check_store_caps e (cs_force c) False cand a of
             (Inl er, a1) \<Rightarrow> (Inl er, a1)
           | (Inr cand1, a1) \<Rightarrow> (let p = plan_from cand1 in
               (Inr p, a1 \<lparr> ap_idemp := store_plan key fp p (ap_idemp a1) \<rparr>))))))"

definition app_plan :: "app_env \<Rightarrow> change_set \<Rightarrow> app \<Rightarrow> (go_error + plan) \<times> app" where
  "app_plan e c a = (case ev_ctx e of Some er \<Rightarrow> (Inl er, a) | None \<Rightarrow> plan_locked e c a)"

definition to_audit_diff :: "diff_entry list \<Rightarrow> audit_entry list" where
  "to_audit_diff ds = map (\<lambda>d. \<lparr> ae_path = de_path d, ae_op = de_op d,
     ae_before = (case de_before d of None \<Rightarrow> [] | Some b \<Rightarrow> b), ae_after = (case de_after d of None \<Rightarrow> [] | Some b \<Rightarrow> b) \<rparr>) ds"

definition record_audit :: "app_env \<Rightarrow> audit_event \<Rightarrow> app \<Rightarrow> bytes \<times> app" where
  "record_audit e ev a = (let ev1 = (if au_result ev = [] then ev \<lparr> au_result := ''ok'' \<rparr> else ev);
       (ev2, f) = fanout_record (ev_json e) (ev_hook_fails e) ev1 (ap_audit a) in (au_id ev2, a \<lparr> ap_audit := f \<rparr>))"

definition change_event :: "app_env \<Rightarrow> actor \<Rightarrow> bytes \<Rightarrow> bytes \<Rightarrow> snapshot option \<Rightarrow> snapshot \<Rightarrow> nat \<Rightarrow> diff_entry list \<Rightarrow>
    audit_event" where
  "change_event e ac cap reason prev next sgen ds = \<lparr> au_id = [], au_time = ev_now e, au_actor = ac_id ac,
     au_class = ac_class ac, au_transport = ac_transport ac, au_capability = cap, au_reason = reason, au_message = [],
     au_previous = (case prev of None \<Rightarrow> [] | Some s \<Rightarrow> sn_revision s), au_revision = sn_revision next,
     au_store_generation = sgen, au_result = ''ok'', au_error_code = [], au_diff = to_audit_diff ds \<rparr>"

text \<open>Installing the next snapshot, the audit record and the result, in the order of the code.\<close>

definition commit_change :: "app_env \<Rightarrow> actor \<Rightarrow> change_set \<Rightarrow> candidate \<Rightarrow> app \<Rightarrow> apply_result \<times> app" where
  "commit_change e ac c cand a = (let (prev, snaps) = snap_swap (Some (cd_next cand)) (ap_snaps a); next = cd_next cand;
       (aid, a1) = record_audit e (change_event e ac ''changes.apply'' (cs_reason c) prev next 0 (cd_diff cand))
         (a \<lparr> ap_snaps := snaps \<rparr>)
     in (\<lparr> ar_plan = plan_from cand, ar_applied = True, ar_generation = sn_generation next, ar_revision = sn_revision next,
           ar_audit = aid \<rparr>, a1))"

definition apply_locked :: "app_env \<Rightarrow> actor \<Rightarrow> change_set \<Rightarrow> app \<Rightarrow> (go_error + apply_result) \<times> app" where
  "apply_locked e ac c a0 = (let fp = fingerprint_change e c; key = cs_key c; (hit, ic) = idemp_lookup key fp (ap_idemp a0);
       a = a0 \<lparr> ap_idemp := ic \<rparr> in
     case hit of
       Inl er \<Rightarrow> (Inl (domain_e er), a)
     | Inr x \<Rightarrow> (case Option.bind x ie_apply of
         Some r \<Rightarrow> (case active_snapshot a of
             Inl er \<Rightarrow> (Inl er, a)
           | Inr snap \<Rightarrow>
               if ar_revision r \<noteq> sn_revision snap
               then (Inl (domain_e (new_error IdempotencyConflict
                 ''idempotency key was applied at a different runtime revision'')), a)
               else (Inr r, a))
       | None \<Rightarrow> (case build_candidate e c a of
           Inl er \<Rightarrow> (Inl er, forget_on_conflict key er a)
         | Inr cand \<Rightarrow> (case check_store_caps e (cs_force c) True cand a of
             (Inl er, a1) \<Rightarrow> (Inl er, a1)
           | (Inr cand1, a1) \<Rightarrow> (let (r, a2) = commit_change e ac c cand1 a1 in
               (Inr r, a2 \<lparr> ap_idemp := store_apply key fp r (ap_idemp a2) \<rparr>))))))"

definition app_apply :: "app_env \<Rightarrow> actor \<Rightarrow> change_set \<Rightarrow> app \<Rightarrow> (go_error + apply_result) \<times> app" where
  "app_apply e ac c a = (case ev_ctx e of Some er \<Rightarrow> (Inl er, a) | None \<Rightarrow> apply_locked e ac c a)"

definition app_validate :: "app_env \<Rightarrow> state_doc option \<Rightarrow> operation list \<Rightarrow> app \<Rightarrow> go_error + plan" where
  "app_validate e st ops a = (case ev_ctx e of
       Some er \<Rightarrow> Inl er
     | None \<Rightarrow> (case (case st of Some s \<Rightarrow> Inr (s, ns_active (ap_snaps a))
           | None \<Rightarrow> (case active_snapshot a of Inl er \<Rightarrow> Inl er | Inr s \<Rightarrow> Inr (sn_canonical s, Some s))) of
         Inl er \<Rightarrow> Inl er
       | Inr (base, prev) \<Rightarrow> (case apply_operations base ops of
           Inl er \<Rightarrow> Inl (domain_e er)
         | Inr st1 \<Rightarrow> (case reject_unimplemented_smtp (sp_smtp (sd_spec st1)) of
             Some er \<Rightarrow> Inl (domain_e er)
           | None \<Rightarrow> (case compile_candidate e st1 prev True of
               Inl er \<Rightarrow> Inl (as_domain_error er)
             | Inr next \<Rightarrow> Inr (plan_from \<lparr> cd_prev = prev, cd_next = next, cd_ops = ops,
                 cd_diff = diff_states e (case prev of Some p \<Rightarrow> Some (sn_canonical p) | None \<Rightarrow> st) (sn_canonical next),
                 cd_warn = [] \<rparr>))))))"

section \<open>Reset, boot and close\<close>

definition load_bootstrap_candidate :: "app_env \<Rightarrow> nat \<Rightarrow> app \<Rightarrow> go_error + snapshot" where
  "load_bootstrap_candidate e gen a =
     (let opts = \<lparr> co_now = Some (ev_now e), co_bootstrap = [], co_generation = gen, co_require = False \<rparr>;
          finish = (\<lambda>st. case compile e (Some st) opts of Inl er \<Rightarrow> Inl (as_domain_error er) | Inr s \<Rightarrow> Inr s)
      in if ap_path a \<noteq> [] then
           (case ev_stat e (ap_path a) of
              StatMissing \<Rightarrow> Inl (domain_e (validation_failed ''bootstrap file unavailable''
                [violation ''bootstrapPath'' ''required'' ''bootstrap file is missing; active snapshot unchanged'']))
            | StatFail m \<Rightarrow> Inl (domain_e (new_error InternalError (''stat bootstrap: '' @ m)))
            | StatOk \<Rightarrow> (case load_file (ev_libs e) (ev_files e) (ev_url e) (ap_path a) of
                Inl er \<Rightarrow> Inl (as_domain_error er) | Inr st \<Rightarrow> finish st))
         else case ns_bootstrap (ap_snaps a) of
             None \<Rightarrow> Inl (domain_e (validation_failed ''no bootstrap snapshot''
               [violation ''bootstrap'' ''required'' ''no bootstrap path or snapshot to reset to'']))
           | Some b \<Rightarrow> finish (sn_canonical b))"

definition store_generation :: "app \<Rightarrow> nat" where
  "store_generation a = (case ap_inbox a of None \<Rightarrow> 0 | Some m \<Rightarrow> ib_generation m)"

text \<open>\<^verbatim>\<open>CheckOptions\<close> and \<^verbatim>\<open>ResetTo\<close>: the inbox is wiped and takes the new options.\<close>

definition reset_inbox :: "app_env \<Rightarrow> store_spec \<Rightarrow> app \<Rightarrow> go_error option \<times> app" where
  "reset_inbox e sp a = (case ap_inbox a of
       None \<Rightarrow> (None, a)
     | Some m \<Rightarrow> (case check_options (ev_io e) (options_from_spec sp) of
         Inl er \<Rightarrow> (Some (as_domain_error (PlainE (store_error_text er))), a)
       | Inr op \<Rightarrow> (case reset_to (ev_io e) op (ev_other e m) of
           (Some er, m') \<Rightarrow> (Some (as_domain_error (PlainE (store_error_text er))), a \<lparr> ap_inbox := Some m' \<rparr>)
         | (None, m') \<Rightarrow> (None, a \<lparr> ap_inbox := Some m' \<rparr>))))"

definition commit_reset :: "app_env \<Rightarrow> actor \<Rightarrow> bytes \<Rightarrow> snapshot \<Rightarrow> diff_entry list \<Rightarrow> app \<Rightarrow> apply_result \<times> app" where
  "commit_reset e ac reason next ds a = (let (displaced, snaps) = snap_swap (Some next) (ap_snaps a);
       a1 = a \<lparr> ap_snaps := set_bootstrap (Some next) snaps, ap_idemp := idemp_clear (ap_idemp a) \<rparr>;
       p = plan_from \<lparr> cd_prev = displaced, cd_next = next, cd_ops = [], cd_diff = ds, cd_warn = [] \<rparr>;
       (aid, a2) = record_audit e (change_event e ac ''state.reset'' reason displaced next (store_generation a1) ds) a1
     in (\<lparr> ar_plan = p, ar_applied = True, ar_generation = sn_generation next, ar_revision = sn_revision next,
           ar_audit = aid \<rparr>, a2))"

definition reset_locked :: "app_env \<Rightarrow> actor \<Rightarrow> bytes \<Rightarrow> app \<Rightarrow> (go_error + apply_result) \<times> app" where
  "reset_locked e ac reason a = (let prev = ns_active (ap_snaps a);
       gen = (case prev of None \<Rightarrow> 0 | Some p \<Rightarrow> sn_generation p + 1) in
     case load_bootstrap_candidate e gen a of
       Inl er \<Rightarrow> (Inl er, a)
     | Inr next \<Rightarrow> (let ds = diff_states e (map_option sn_canonical prev) (sn_canonical next); sp = sd_spec (sn_canonical next) in
         case reject_unimplemented_smtp (sp_smtp sp) of
           Some er \<Rightarrow> (Inl (domain_e er), a)
         | None \<Rightarrow> (case ev_preflight e (mg_auth (sp_management sp)) of
             Some er \<Rightarrow> (Inl (as_domain_error er), a)
           | None \<Rightarrow> (case reset_inbox e (sp_store sp) a of
               (Some er, a1) \<Rightarrow> (Inl er, a1)
             | (None, a1) \<Rightarrow> (let (r, a2) = commit_reset e ac reason next ds a1 in (Inr r, a2))))))"

definition app_reset :: "app_env \<Rightarrow> actor \<Rightarrow> bytes \<Rightarrow> app \<Rightarrow> (go_error + apply_result) \<times> app" where
  "app_reset e ac reason a = (case ev_ctx e of Some er \<Rightarrow> (Inl er, a) | None \<Rightarrow> reset_locked e ac reason a)"

definition new_app :: "snap_store \<Rightarrow> inbox option \<Rightarrow> bytes \<Rightarrow> int \<Rightarrow> int \<Rightarrow> bool \<Rightarrow> app" where
  "new_app snaps inbox path idemp_max audit_max hook =
     (let am = (if audit_max \<le> 0 then (case ns_active snaps of
            Some s \<Rightarrow> (let r = ob_audit_ring (sp_observability (sd_spec (sn_canonical s))) in if r > 0 then r else int default_max)
          | None \<Rightarrow> int default_max) else audit_max)
      in \<lparr> ap_snaps = snaps, ap_inbox = inbox, ap_path = path, ap_idemp = new_idemp idemp_max, ap_audit = new_fanout am hook \<rparr>)"

text \<open>Boot without a caller's inbox or snapshot store, on the disk \<open>d\<close>.\<close>

definition boot :: "app_env \<Rightarrow> bytes \<Rightarrow> int \<Rightarrow> int \<Rightarrow> bool \<Rightarrow> disk \<Rightarrow> go_error + app" where
  "boot e path idemp_max audit_max hook d =
     (if path = [] then Inl (domain_e (validation_failed ''bootstrap path is required''
        [violation ''bootstrapPath'' ''required'' ''bootstrap path is required'']))
      else case load_file (ev_libs e) (ev_files e) (ev_url e) path of
          Inl er \<Rightarrow> Inl (as_domain_error er)
        | Inr st \<Rightarrow> (case compile e (Some st) \<lparr> co_now = None, co_bootstrap = [], co_generation = 0, co_require = False \<rparr> of
            Inl er \<Rightarrow> Inl (as_domain_error er)
          | Inr snap \<Rightarrow> (case new_memory (ev_io e) (options_from_spec (sp_store (sd_spec (sn_canonical snap)))) d of
              Inl er \<Rightarrow> Inl (as_domain_error (PlainE (store_error_text er)))
            | Inr m \<Rightarrow> Inr (new_app (snd (install_bootstrap (Some snap) new_snap_store)) (Some m) path idemp_max audit_max hook))))"

definition app_close :: "app_env \<Rightarrow> app \<Rightarrow> app" where
  "app_close e a = a \<lparr> ap_inbox := map_option (wipe (ev_io e)) (ap_inbox a) \<rparr>"

text \<open>Reading the state.\<close>

record state_view =
  vw_bootstrap :: bytes
  vw_runtime :: bytes
  vw_generation :: nat
  vw_store_generation :: nat
  vw_drifted :: bool
  vw_loaded_at :: int
  vw_count :: nat
  vw_bytes :: int
  vw_canonical :: state_doc

definition get_state :: "app_env \<Rightarrow> app \<Rightarrow> go_error + state_view" where
  "get_state e a = (case ev_ctx e of
       Some er \<Rightarrow> Inl er
     | None \<Rightarrow> (case active_snapshot a of
         Inl er \<Rightarrow> Inl er
       | Inr s \<Rightarrow> (let st = map_option memory_stats (ap_inbox a) in
           Inr \<lparr> vw_bootstrap = sn_bootstrap s, vw_runtime = sn_revision s, vw_generation = sn_generation s,
             vw_store_generation = (case st of None \<Rightarrow> 0 | Some t \<Rightarrow> st_generation t), vw_drifted = drifted (Some s),
             vw_loaded_at = sn_compiled_at s, vw_count = (case st of None \<Rightarrow> 0 | Some t \<Rightarrow> st_count t),
             vw_bytes = (case st of None \<Rightarrow> 0 | Some t \<Rightarrow> st_bytes t), vw_canonical = sn_canonical s \<rparr>)))"

record export =
  ex_format :: bytes
  ex_body :: bytes
  ex_revision :: bytes
  ex_bootstrap :: bytes
  ex_drifted :: bool
  ex_human :: bytes

text \<open>\<open>yaml\<close> encodes a node (\<^verbatim>\<open>CanonicalYAML\<close>); the JSON body is the text of the canonical tree.\<close>

definition app_export :: "app_env \<Rightarrow> (yaml_node \<Rightarrow> bytes) \<Rightarrow> bytes \<Rightarrow> app \<Rightarrow> go_error + export" where
  "app_export e yaml format0 a = (case ev_ctx e of
       Some er \<Rightarrow> Inl er
     | None \<Rightarrow> (case active_snapshot a of
         Inl er \<Rightarrow> Inl er
       | Inr s \<Rightarrow> (let format = (if format0 = [] then ''yaml'' else format0) in
           if format \<noteq> ''yaml'' \<and> format \<noteq> ''json''
           then Inl (domain_e (validation_failed ''unknown export format''
             [violation ''format'' ''invalid_value'' ''format must be yaml or json'']))
           else let tree = ev_tree e (sn_canonical s);
                    boot = (case ns_bootstrap (ap_snaps a) of Some b \<Rightarrow> sn_canonical b | None \<Rightarrow> sn_canonical s)
                in Inr \<lparr> ex_format = format,
                     ex_body = (if format = ''json'' then ev_marshal e tree else yaml (to_yaml_node (lib_sprint (ev_libs e)) tree)),
                     ex_revision = sn_revision s, ex_bootstrap = sn_bootstrap s, ex_drifted = drifted (Some s),
                     ex_human = format_human_diff (diff_states e (Some boot) (sn_canonical s)) \<rparr>)))"

end
