(* ===== verification/App_Props.thy ===== *)
theory App_Props
  imports App_Core Inbox_Steps
begin

text \<open>
  What the application service promises.  The inbox is seen through a locale of a store with options:
  what a refused and a done replacement and a reset leave behind; the inbox is its interpretation.
  The invariant of the service follows, then the effect of apply and reset, and retries.
\<close>

declare split_paired_All [simp del] split_paired_Ex [simp del]

section \<open>The store behind the service\<close>

locale capped_store =
  fixes inv :: "'m \<Rightarrow> bool" and settings :: "'m \<Rightarrow> options" and empty :: "'m \<Rightarrow> bool"
    and replace :: "options \<Rightarrow> bool \<Rightarrow> 'm \<Rightarrow> store_error option \<times> 'm"
    and reset :: "options \<Rightarrow> 'm \<Rightarrow> store_error option \<times> 'm"
  assumes replace_inv: "inv m \<Longrightarrow> inv (snd (replace opts force m))"
    and replace_refused: "inv m \<Longrightarrow> fst (replace opts force m) \<noteq> None \<Longrightarrow> snd (replace opts force m) = m"
    and replace_done: "inv m \<Longrightarrow> normalize_options opts = Inr op \<Longrightarrow> fst (replace opts force m) = None \<Longrightarrow>
      settings (snd (replace opts force m)) = (settings m) \<lparr> o_max_messages := o_max_messages op,
        o_max_bytes := o_max_bytes op, o_full_policy := o_full_policy op \<rparr>"
    and reset_inv: "inv m \<Longrightarrow> inv (snd (reset opts m))"
    and reset_done: "inv m \<Longrightarrow> normalize_options opts = Inr op \<Longrightarrow>
      fst (reset opts m) = None \<and> settings (snd (reset opts m)) = op \<and> empty (snd (reset opts m))"
begin

text \<open>What others may do to the store without the service: anything but changing its options.\<close>

definition quiet :: "('m \<Rightarrow> 'm) \<Rightarrow> bool" where
  "quiet f = (\<forall>m. inv m \<longrightarrow> inv (f m) \<and> settings (f m) = settings m)"

lemma quietD: "quiet f \<Longrightarrow> inv m \<Longrightarrow> inv (f m) \<and> settings (f m) = settings m"
  by (simp add: quiet_def)

lemma replace_after:
  assumes q: "quiet f" and m: "inv m" "normalize_options opts = Inr op"
    and same: "o_max_wait op = o_max_wait (settings m)" "o_spill_dir op = o_spill_dir (settings m)"
      "o_spill_threshold op = o_spill_threshold (settings m)"
  shows "inv (snd (replace opts force (f m))) \<and>
    (case fst (replace opts force (f m)) of
       None \<Rightarrow> settings (snd (replace opts force (f m))) = op
     | Some e \<Rightarrow> snd (replace opts force (f m)) = f m \<and> settings (f m) = settings m)"
proof -
  note fm = quietD[OF q m(1)]
  show ?thesis
  proof (cases "fst (replace opts force (f m))")
    case None
    then have "settings (snd (replace opts force (f m))) = (settings m) \<lparr> o_max_messages := o_max_messages op,
        o_max_bytes := o_max_bytes op, o_full_policy := o_full_policy op \<rparr>"
      using replace_done[OF _ m(2)] fm by simp
    also have "\<dots> = op" using same by simp
    finally show ?thesis using None fm replace_inv by simp
  next
    case (Some e)
    then show ?thesis using replace_refused[of "f m" opts force] fm replace_inv by simp
  qed
qed

lemma reset_after:
  assumes "quiet f" "inv m" "normalize_options opts = Inr op"
  shows "fst (reset opts (f m)) = None \<and> inv (snd (reset opts (f m))) \<and> settings (snd (reset opts (f m))) = op \<and>
    empty (snd (reset opts (f m)))"
  using reset_done[OF _ assms(3), of "f m"] reset_inv[of "f m"] quietD[OF assms(1,2)] by simp

end

definition inbox_empty :: "inbox \<Rightarrow> bool" where
  "inbox_empty m = (ib_order m = [] \<and> ib_by_id m = [] \<and> ib_bytes m = 0)"

interpretation ibx: capped_store inbox_inv inbox_options inbox_empty "replace_caps io" "reset_to io"
  for io
proof (unfold_locales, goal_cases)
  case (1 m opts force)
  then show ?case by (rule replace_caps_inv)
next
  case (2 m opts force)
  then show ?case using replace_caps_outcome[of m io opts force] by blast
next
  case (3 m opts op force)
  then show ?case by (simp add: replace_caps_options)
next
  case (4 m opts)
  then show ?case by (rule reset_to_inv)
next
  case (5 m opts op)
  then show ?case
    by (simp add: reset_to_def Let_def inbox_options_def install_options_def inbox_empty_def clear_inbox_def)
qed

text \<open>The calls of the mail path and of the message API are quiet.\<close>

definition quiet_inbox :: "(inbox \<Rightarrow> inbox) \<Rightarrow> bool" where
  "quiet_inbox f = (\<forall>m. inbox_inv m \<longrightarrow> inbox_inv (f m) \<and> inbox_options (f m) = inbox_options m)"

lemma quiet_inbox_quiet: "ibx.quiet f \<longleftrightarrow> quiet_inbox f"
  by (simp add: ibx.quiet_def quiet_inbox_def)

fun mail_call :: "store_call \<Rightarrow> bool" where
  "mail_call (ReplaceCapsCall op force) = False"
| "mail_call (ConfigureCall op) = False"
| "mail_call (ResetToCall op) = False"
| "mail_call c = True"

lemma remove_locked_options [simp]: "inbox_options (remove_locked io k e m) = inbox_options m"
  by (simp add: inbox_options_def)

lemma fold_remove_options [simp]: "inbox_options (fold (\<lambda>k. remove_locked io k e) ids m) = inbox_options m"
  by (induction ids arbitrary: m) simp_all

lemma mail_call_quiet: "mail_call c \<Longrightarrow> quiet_inbox (run_call io c)"
  unfolding quiet_inbox_def
proof (intro allI impI conjI)
  fix m assume c: "mail_call c" "inbox_inv m"
  then show "inbox_inv (run_call io c m)" by (intro run_call_inv)
  show "inbox_options (run_call io c m) = inbox_options m"
    using c(1)
    by (cases c) (auto simp: memory_delete_def delete_all_def mark_read_def mark_all_read_def memory_get_def wipe_def
        clear_inbox_def subscribe_def cancel_sub_def receive_event_def set_read_def Let_def
        split: option.splits sum.splits, (simp_all add: inbox_options_def)?)
qed

lemma insert_commit_options:
  assumes "insert_commit io pd m = (r, m')"
  shows "inbox_options m' = inbox_options m"
  using assms by (auto simp: insert_commit_def Let_def inbox_options_def index_new_def evict_until_fits_def
      split: if_splits option.splits prod.splits)

section \<open>The invariant of the service\<close>

definition settings_of :: "snapshot \<Rightarrow> options + options" where
  "settings_of s = (case normalize_options (options_from_spec (sp_store (sd_spec (sn_canonical s)))) of
     Inl er \<Rightarrow> Inl (options_from_spec (sp_store (sd_spec (sn_canonical s)))) | Inr op \<Rightarrow> Inr op)"

text \<open>A snapshot as the compiler makes it for the digest \<open>dg\<close>.\<close>

definition snap_ok :: "(state_doc \<Rightarrow> bytes) \<Rightarrow> snapshot \<Rightarrow> bool" where
  "snap_ok dg s = (sn_revision s = ''sha256:'' @ dg (sn_canonical s) \<and> store_ok (sp_store (sd_spec (sn_canonical s))) \<and>
     smtp_ok (sp_smtp (sd_spec (sn_canonical s))) \<and> management_ok (sp_management (sd_spec (sn_canonical s))))"

definition snaps_ok :: "(state_doc \<Rightarrow> bytes) \<Rightarrow> snap_store \<Rightarrow> bool" where
  "snaps_ok dg n = (\<exists>s b. ns_active n = Some s \<and> ns_bootstrap n = Some b \<and> snap_ok dg s \<and> snap_ok dg b \<and>
     sn_bootstrap s = sn_revision b \<and> sn_generation b \<le> sn_generation s \<and>
     pred_option (\<lambda>p. sn_generation p < sn_generation s) (ns_previous n))"

definition app_inv :: "(state_doc \<Rightarrow> bytes) \<Rightarrow> app \<Rightarrow> bool" where
  "app_inv dg a = (snaps_ok dg (ap_snaps a) \<and> idemp_inv (ap_idemp a) \<and> ring_inv (fo_ring (ap_audit a)) \<and>
     pred_option (\<lambda>m. inbox_inv m \<and> Some (Inr (inbox_options m)) = map_option settings_of (ns_active (ap_snaps a))) (ap_inbox a))"

lemma settings_of_ok: "snap_ok dg s \<Longrightarrow> \<exists>op. settings_of s = Inr op \<and>
    normalize_options (options_from_spec (sp_store (sd_spec (sn_canonical s)))) = Inr op"
  by (auto simp: snap_ok_def store_ok_def settings_of_def is_ok_def split: sum.splits)

lemma compile_snap_ok:
  assumes "compile e st opts = Inr s"
  shows "snap_ok (ev_digest e) s"
  using compile_sound[OF assms] validate_sound_holds by (auto simp: snap_ok_def revision_of_def)

text \<open>Two store specifications that differ in the caps only agree in the other settings.\<close>

lemma same_other_settings:
  assumes "normalize_options (options_from_spec s) = Inr op" "normalize_options (options_from_spec s') = Inr op'"
    and "ss_max_wait s' = ss_max_wait s" "ss_spill_directory s' = ss_spill_directory s"
      "ss_spill_threshold s' = ss_spill_threshold s"
  shows "o_max_wait op' = o_max_wait op \<and> o_spill_dir op' = o_spill_dir op \<and> o_spill_threshold op' = o_spill_threshold op"
  using assms by (auto simp: normalize_options_def options_from_spec_def Let_def split: if_splits)

lemma apply_one_settings:
  assumes "apply_one st p i = Inr st'"
  shows "ss_max_wait (sp_store (sd_spec st')) = ss_max_wait (sp_store (sd_spec st)) \<and>
    ss_spill_directory (sp_store (sd_spec st')) = ss_spill_directory (sp_store (sd_spec st)) \<and>
    ss_spill_threshold (sp_store (sd_spec st')) = ss_spill_threshold (sp_store (sd_spec st))"
  using assms by (auto simp: apply_one_def update_smtp_def Let_def split: if_splits option.splits)

lemma apply_operations_settings:
  assumes "apply_operations st ps = Inr st'"
  shows "ss_max_wait (sp_store (sd_spec st')) = ss_max_wait (sp_store (sd_spec st)) \<and>
    ss_spill_directory (sp_store (sd_spec st')) = ss_spill_directory (sp_store (sd_spec st)) \<and>
    ss_spill_threshold (sp_store (sd_spec st')) = ss_spill_threshold (sp_store (sd_spec st))"
proof -
  have "apply_operations_from i st ps = Inr st' \<Longrightarrow> ?thesis" for i
  proof (induction ps arbitrary: i st)
    case (Cons p ps)
    then obtain st1 where "apply_one st p i = Inr st1" "apply_operations_from (Suc i) st1 ps = Inr st'"
      by (auto split: sum.splits)
    then show ?case using Cons.IH[of "Suc i" st1] apply_one_settings[of st p i st1] by simp
  qed simp
  then show ?thesis using assms by (simp add: apply_operations_def)
qed

lemma build_candidate_cases:
  assumes "build_candidate e c a = Inr cand"
  shows "\<exists>prev st. ns_active (ap_snaps a) = Some prev \<and> cs_expected c = sn_revision prev \<and>
    apply_operations (sn_canonical prev) (cs_operations c) = Inr st \<and> sn_canonical (cd_next cand) = st \<and>
    cd_prev cand = Some prev \<and> cd_ops cand = cs_operations c \<and> snap_ok (ev_digest e) (cd_next cand) \<and>
    sn_generation (cd_next cand) = sn_generation prev + 1 \<and>
    sn_bootstrap (cd_next cand) = (if sn_bootstrap prev = [] then
       (if sn_revision prev = [] then sn_revision (cd_next cand) else sn_revision prev) else sn_bootstrap prev)"
proof -
  obtain prev where p: "ns_active (ap_snaps a) = Some prev" "cs_expected c = sn_revision prev"
    using assms by (auto simp: build_candidate_def active_snapshot_def split: option.splits if_splits)
  obtain st where st: "apply_operations (sn_canonical prev) (cs_operations c) = Inr st"
    using assms p by (auto simp: build_candidate_def active_snapshot_def split: if_splits sum.splits)
  obtain nx where n: "compile_candidate e st (Some prev) False = Inr nx" "cd_next cand = nx"
    "cd_prev cand = Some prev" "cd_ops cand = cs_operations c"
    using assms p st by (auto simp: build_candidate_def active_snapshot_def split: if_splits sum.splits option.splits)
  note cs = compile_sound[OF n(1)[unfolded compile_candidate_def]]
  have ok: "snap_ok (ev_digest e) nx" using n(1) unfolding compile_candidate_def by (rule compile_snap_ok)
  show ?thesis using p st n cs ok by auto
qed

text \<open>The state of the inbox after an apply took its look at it: unchanged, or what others made of it.\<close>

definition inbox_kept :: "app_env \<Rightarrow> app \<Rightarrow> inbox option \<Rightarrow> bool" where
  "inbox_kept e a ib = (ib = ap_inbox a \<or> ib = map_option (ev_other e) (ap_inbox a))"

definition inbox_set :: "snapshot \<Rightarrow> inbox option \<Rightarrow> bool" where
  "inbox_set s ib = pred_option (\<lambda>m. inbox_inv m \<and> Inr (inbox_options m) = settings_of s) ib"

lemma check_store_caps_cases:
  assumes inv: "app_inv (ev_digest e) a" and q: "quiet_inbox (ev_other e)"
    and b: "build_candidate e c a = Inr cand" and ch: "check_store_caps e force True cand a = (r, a1)"
  shows "(\<exists>er. r = Inl er \<and> inbox_kept e a (ap_inbox a1) \<and> a1 = a \<lparr> ap_inbox := ap_inbox a1 \<rparr>) \<or>
    (\<exists>w. r = Inr (cand \<lparr> cd_warn := w \<rparr>) \<and> a1 = a \<lparr> ap_inbox := ap_inbox a1 \<rparr> \<and> inbox_set (cd_next cand) (ap_inbox a1))"
proof (cases "ap_inbox a")
  case None
  then show ?thesis using ch by (auto simp: check_store_caps_def inbox_set_def intro!: exI[of _ "cd_warn cand"])
next
  case (Some m)
  obtain prev st where bc: "ns_active (ap_snaps a) = Some prev"
    "apply_operations (sn_canonical prev) (cs_operations c) = Inr st" "sn_canonical (cd_next cand) = st"
    "cd_ops cand = cs_operations c" "snap_ok (ev_digest e) (cd_next cand)"
    using build_candidate_cases[OF b] by blast
  have m: "inbox_inv m" "settings_of prev = Inr (inbox_options m)" and pk: "snap_ok (ev_digest e) prev"
    using inv Some bc(1) by (auto simp: app_inv_def snaps_ok_def)
  obtain op where op: "settings_of (cd_next cand) = Inr op" "normalize_options (options_from_spec (sp_store (sd_spec st))) = Inr op"
    using settings_of_ok[OF bc(5)] bc(3) by auto
  have old: "normalize_options (options_from_spec (sp_store (sd_spec (sn_canonical prev)))) = Inr (inbox_options m)"
    using settings_of_ok[OF pk] m(2) by simp
  show ?thesis
  proof (cases "any_replace_store_caps (cs_operations c)")
    case False
    then have "op = inbox_options m" using apply_operations_store[OF bc(2)] old op(2) by simp
    then show ?thesis using ch Some False bc(4) m(1) op(1)
      by (auto simp: check_store_caps_def inbox_set_def intro!: exI[of _ "cd_warn cand"])
  next
    case True
    note so = same_other_settings[OF old op(2)] 
    have same: "o_max_wait op = o_max_wait (inbox_options m)" "o_spill_dir op = o_spill_dir (inbox_options m)"
      "o_spill_threshold op = o_spill_threshold (inbox_options m)"
      using so apply_operations_settings[OF bc(2)] by simp_all
    note ra = ibx.replace_after[OF quiet_inbox_quiet[THEN iffD2, OF q] m(1) op(2) same, where io = "ev_io e" and force = force]
    show ?thesis using ch Some True bc(3,4) ra op(1)
      by (auto simp: check_store_caps_def Let_def inbox_kept_def inbox_set_def split: if_splits prod.splits option.splits
          intro: exI[of _ "cd_warn cand"])
  qed
qed

lemma record_audit_fields:
  assumes "record_audit e ev a = (i, a')"
  shows "ap_snaps a' = ap_snaps a \<and> ap_inbox a' = ap_inbox a \<and> ap_path a' = ap_path a \<and> ap_idemp a' = ap_idemp a \<and>
    (ring_inv (fo_ring (ap_audit a)) \<longrightarrow> ring_inv (fo_ring (ap_audit a')))"
  using assms ring_append_inv[of "fo_ring (ap_audit a)"]
  by (auto simp: record_audit_def fanout_record_def Let_def split: prod.splits if_splits) (metis snd_conv)+

lemma commit_change_fields:
  assumes "commit_change e ac c cand a = (r, a')"
  shows "ap_snaps a' = snd (snap_swap (Some (cd_next cand)) (ap_snaps a)) \<and> ap_inbox a' = ap_inbox a \<and> ap_path a' = ap_path a \<and>
    ap_idemp a' = ap_idemp a \<and> (ring_inv (fo_ring (ap_audit a)) \<longrightarrow> ring_inv (fo_ring (ap_audit a'))) \<and>
    ar_revision r = sn_revision (cd_next cand) \<and> ar_generation r = sn_generation (cd_next cand) \<and> ar_plan r = plan_from cand"
  using assms by (auto simp: commit_change_def Let_def split: prod.splits dest!: record_audit_fields)

lemma forget_fields [simp]:
  "ap_snaps (forget_on_conflict key er a) = ap_snaps a" "ap_inbox (forget_on_conflict key er a) = ap_inbox a"
  "ap_audit (forget_on_conflict key er a) = ap_audit a" "ap_path (forget_on_conflict key er a) = ap_path a"
  "idemp_inv (ap_idemp a) \<Longrightarrow> idemp_inv (ap_idemp (forget_on_conflict key er a))"
  by (auto simp: forget_on_conflict_def idemp_ops_inv split: option.splits prod.splits bool.splits)

lemma build_candidate_idemp [simp]: "build_candidate e c (a \<lparr> ap_idemp := ic \<rparr>) = build_candidate e c a"
  by (simp add: build_candidate_def active_snapshot_def)

lemma app_inv_idemp: "app_inv dg a \<Longrightarrow> idemp_inv ic \<Longrightarrow> app_inv dg (a \<lparr> ap_idemp := ic \<rparr>)"
  by (simp add: app_inv_def)

text \<open>The three outcomes of an apply: refused, replayed, done.\<close>

lemma app_apply_cases:
  assumes inv: "app_inv (ev_digest e) a" and q: "quiet_inbox (ev_other e)" and ap: "app_apply e ac c a = (res, a')"
  obtains (refused) er where "res = Inl er" "ap_snaps a' = ap_snaps a" "ap_audit a' = ap_audit a" "ap_path a' = ap_path a"
      "inbox_kept e a (ap_inbox a')" "idemp_inv (ap_idemp a')"
  | (replayed) r where "res = Inr r" "ap_snaps a' = ap_snaps a" "ap_audit a' = ap_audit a" "ap_path a' = ap_path a"
      "ap_inbox a' = ap_inbox a" "idemp_inv (ap_idemp a')"
      "\<exists>x. idemp_find (cs_key c) (ap_idemp a) = Some x \<and> ie_fp x = fingerprint_change e c \<and> ie_apply x = Some r"
      "\<exists>x. idemp_find (cs_key c) (ap_idemp a') = Some x \<and> ie_fp x = fingerprint_change e c \<and> ie_apply x = Some r"
      "map_option sn_revision (ns_active (ap_snaps a)) = Some (ar_revision r)"
  | (applied) r cand w where "res = Inr r" "build_candidate e c a = Inr cand"
      "ap_snaps a' = snd (snap_swap (Some (cd_next cand)) (ap_snaps a))" "inbox_set (cd_next cand) (ap_inbox a')"
      "ap_path a' = ap_path a" "ring_inv (fo_ring (ap_audit a'))"
      "ap_idemp a' = store_apply (cs_key c) (fingerprint_change e c) r
         (snd (idemp_lookup (cs_key c) (fingerprint_change e c) (ap_idemp a)))"
      "ar_revision r = sn_revision (cd_next cand)" "ar_generation r = sn_generation (cd_next cand)"
      "ar_plan r = plan_from (cand \<lparr> cd_warn := w \<rparr>)"
proof (cases "ev_ctx e")
  case (Some er)
  then show ?thesis using refused[of er] ap inv by (simp add: app_apply_def inbox_kept_def app_inv_def)
next
  case None
  let ?fp = "fingerprint_change e c"
  obtain hit ic where h: "idemp_lookup (cs_key c) ?fp (ap_idemp a) = (hit, ic)" by fastforce
  have ic: "idemp_inv ic" using idemp_ops_inv(1)[of "ap_idemp a" "cs_key c" ?fp] inv h by (simp add: app_inv_def)
  let ?a = "a \<lparr> ap_idemp := ic \<rparr>"
  have al: "apply_locked e ac c a = (res, a')" using ap None by (simp add: app_apply_def)
  show ?thesis
  proof (cases hit)
    case (Inl er)
    then show ?thesis using refused[of "domain_e er"] al h ic by (auto simp: apply_locked_def inbox_kept_def)
  next
    case (Inr x)
    show ?thesis
    proof (cases "Option.bind x ie_apply")
      case (Some r)
      then obtain y where y: "x = Some y" "ie_apply y = Some r" by (auto simp: bind_eq_Some_conv)
      have f: "idemp_find (cs_key c) (ap_idemp a) = Some y" "ie_fp y = ?fp"
        using h Inr y(1) by (auto simp: idemp_lookup_def split: if_splits option.splits)
      have "ic = move_front y (ap_idemp a)" "ie_key y = cs_key c"
        using h Inr y(1) f(1) idemp_find_SomeD[OF f(1)] by (auto simp: idemp_lookup_def split: if_splits option.splits)
      then have g: "idemp_find (cs_key c) ic = Some y" by (simp add: move_front_def idemp_find_def)
      show ?thesis
        using al h Inr y f g ic refused replayed[of r]
        by (auto simp: apply_locked_def active_snapshot_def inbox_kept_def Let_def split: option.splits if_splits)
    next
      case new: None
      show ?thesis
      proof (cases "build_candidate e c a")
        case (Inl er)
        then show ?thesis using al h Inr new ic refused[of er] by (auto simp: apply_locked_def inbox_kept_def Let_def)
      next
        case bc: (Inr cand)
        obtain r1 a1 where ch: "check_store_caps e (cs_force c) True cand ?a = (r1, a1)" by fastforce
        have bc': "build_candidate e c ?a = Inr cand" using bc by simp
        from check_store_caps_cases[OF app_inv_idemp[OF inv ic] q bc' ch]
        show ?thesis
        proof (elim disjE exE conjE)
          fix er assume er: "r1 = Inl er" "inbox_kept e ?a (ap_inbox a1)" "a1 = ?a \<lparr> ap_inbox := ap_inbox a1 \<rparr>"
          have a1: "ap_snaps a1 = ap_snaps a" "ap_path a1 = ap_path a" "ap_audit a1 = ap_audit a" "ap_idemp a1 = ic"
            by (subst er(3), simp)+
          have "res = Inl er" "a' = a1" using al h Inr new bc ch er(1) by (auto simp: apply_locked_def Let_def)
          then show ?thesis using a1 er(2) ic by (intro refused[of er]) (simp_all add: inbox_kept_def)
        next
          fix w assume w: "r1 = Inr (cand \<lparr> cd_warn := w \<rparr>)" "a1 = ?a \<lparr> ap_inbox := ap_inbox a1 \<rparr>"
            "inbox_set (cd_next cand) (ap_inbox a1)"
          obtain r a2 where cm: "commit_change e ac c (cand \<lparr> cd_warn := w \<rparr>) a1 = (r, a2)" by fastforce
          note cf = commit_change_fields[OF cm]
          have a1: "ap_snaps a1 = ap_snaps a" "ap_path a1 = ap_path a" "ap_audit a1 = ap_audit a" "ap_idemp a1 = ic"
            by (subst w(2), simp)+
          have "res = Inr r" "a' = a2 \<lparr> ap_idemp := store_apply (cs_key c) ?fp r (ap_idemp a2) \<rparr>"
            using al h Inr new bc ch w(1) cm by (auto simp: apply_locked_def Let_def)
          then show ?thesis using cf a1 w(3) bc h inv by (intro applied[of r cand w]) (auto simp: app_inv_def)
        qed
      qed
    qed
  qed
qed

lemma swap_snaps_ok:
  assumes "snaps_ok dg n" "ns_active n = Some prev" "snap_ok dg s" "sn_generation s = sn_generation prev + 1"
    and "sn_bootstrap s = (if sn_bootstrap prev = [] then
      (if sn_revision prev = [] then sn_revision s else sn_revision prev) else sn_bootstrap prev)"
  shows "snaps_ok dg (snd (snap_swap (Some s) n))"
proof -
  obtain b where b: "ns_bootstrap n = Some b" "snap_ok dg b" "sn_bootstrap prev = sn_revision b"
    "sn_generation b \<le> sn_generation prev" using assms(1,2) by (auto simp: snaps_ok_def)
  have "sn_bootstrap prev \<noteq> []" using b(2,3) by (simp add: snap_ok_def)
  then show ?thesis using assms b by (simp add: snaps_ok_def snap_swap_def)
qed

lemma app_apply_inv:
  assumes inv: "app_inv (ev_digest e) a" and q: "quiet_inbox (ev_other e)" and ap: "app_apply e ac c a = (res, a')"
  shows "app_inv (ev_digest e) a'"
  using inv q ap
proof (cases rule: app_apply_cases)
  case (refused er)
  then show ?thesis using inv q
    by (cases "ap_inbox a") (auto simp: app_inv_def inbox_kept_def quiet_inbox_def)
next
  case (replayed r)
  then show ?thesis using inv by (simp add: app_inv_def)
next
  case (applied r cand w)
  obtain prev where p: "ns_active (ap_snaps a) = Some prev" "snap_ok (ev_digest e) (cd_next cand)"
    "sn_generation (cd_next cand) = sn_generation prev + 1"
    "sn_bootstrap (cd_next cand) = (if sn_bootstrap prev = [] then
       (if sn_revision prev = [] then sn_revision (cd_next cand) else sn_revision prev) else sn_bootstrap prev)"
    using build_candidate_cases[OF applied(2)] by blast
  have "snaps_ok (ev_digest e) (ap_snaps a')"
    unfolding applied(3) using inv p by (intro swap_snaps_ok) (auto simp: app_inv_def)
  moreover have "ns_active (ap_snaps a') = Some (cd_next cand)" by (simp add: applied(3) snap_swap_def)
  moreover have "idemp_inv (ap_idemp a')"
    unfolding applied(7) using inv by (intro idemp_ops_inv) (simp add: app_inv_def)
  ultimately show ?thesis using applied(4,6) by (auto simp: app_inv_def inbox_set_def)
qed

lemma check_store_caps_dry: "snd (check_store_caps e force False cand a) = a"
  by (auto simp: check_store_caps_def Let_def split: option.splits)

text \<open>A plan changes the idempotency cache only.\<close>

lemma app_plan_fields:
  assumes "idemp_inv (ap_idemp a)" "app_plan e c a = (res, a')"
  shows "ap_snaps a' = ap_snaps a \<and> ap_inbox a' = ap_inbox a \<and> ap_audit a' = ap_audit a \<and> ap_path a' = ap_path a \<and>
    idemp_inv (ap_idemp a')"
proof (cases "ev_ctx e")
  case None
  let ?fp = "fingerprint_change e c"
  obtain hit ic where h: "idemp_lookup (cs_key c) ?fp (ap_idemp a) = (hit, ic)" by fastforce
  have ic: "idemp_inv ic" using idemp_ops_inv(1)[OF assms(1), of "cs_key c" ?fp] h by simp
  have d: "check_store_caps e (cs_force c) False cand a0 = (r, a1) \<Longrightarrow> a1 = a0" for cand a0 r a1
    using check_store_caps_dry[of e "cs_force c" cand a0] by simp
  show ?thesis using assms(2) None h ic
    by (auto simp: app_plan_def plan_locked_def Let_def idemp_ops_inv split: sum.splits option.splits prod.splits dest!: d)
qed (use assms in \<open>simp add: app_plan_def\<close>)

section \<open>Reset and boot\<close>

lemma reset_inbox_cases:
  assumes inv: "app_inv dg a" and q: "quiet_inbox (ev_other e)" and r: "reset_inbox e sp a = (res, a1)"
  shows "(\<exists>er. res = Some er \<and> a1 = a) \<or>
    (res = None \<and> a1 = a \<lparr> ap_inbox := ap_inbox a1 \<rparr> \<and> (ap_inbox a1 = None \<longleftrightarrow> ap_inbox a = None) \<and>
     pred_option (\<lambda>m. inbox_inv m \<and> inbox_empty m \<and> normalize_options (options_from_spec sp) = Inr (inbox_options m)) (ap_inbox a1))"
proof (cases "ap_inbox a")
  case None
  then show ?thesis using r by (auto simp: reset_inbox_def)
next
  case (Some m)
  then have m: "inbox_inv m" using inv by (simp add: app_inv_def)
  show ?thesis
  proof (cases "check_options (ev_io e) (options_from_spec sp)")
    case (Inl er)
    then show ?thesis using r Some by (auto simp: reset_inbox_def)
  next
    case (Inr op)
    then have n: "normalize_options (options_from_spec sp) = Inr op"
      by (auto simp: check_options_def split: sum.splits option.splits)
    note ra = ibx.reset_after[OF quiet_inbox_quiet[THEN iffD2, OF q] m normalize_options_idem[OF n], where io = "ev_io e"]
    then show ?thesis using r Some Inr n by (cases "reset_to (ev_io e) op (ev_other e m)") (auto simp: reset_inbox_def)
  qed
qed

lemma load_bootstrap_sound:
  assumes "load_bootstrap_candidate e gen a = Inr s"
  shows "snap_ok (ev_digest e) s \<and> sn_generation s = gen \<and> sn_bootstrap s = sn_revision s"
proof -
  let ?opts = "\<lparr> co_now = Some (ev_now e), co_bootstrap = [], co_generation = gen, co_require = False \<rparr>"
  obtain st where "compile e (Some st) ?opts = Inr s"
    using assms by (auto simp: load_bootstrap_candidate_def Let_def split: if_splits stat_result.splits sum.splits option.splits)
  then show ?thesis using compile_snap_ok compile_sound by fastforce
qed

lemma app_reset_cases:
  assumes inv: "app_inv (ev_digest e) a" and q: "quiet_inbox (ev_other e)" and ap: "app_reset e ac reason a = (res, a')"
  obtains (refused) er where "res = Inl er" "a' = a"
  | (reset) r s prev where "res = Inr r" "ns_active (ap_snaps a) = Some prev"
      "load_bootstrap_candidate e (sn_generation prev + 1) a = Inr s"
      "ap_snaps a' = \<lparr> ns_active = Some s, ns_previous = Some prev, ns_bootstrap = Some s \<rparr>"
      "ap_inbox a' = None \<longleftrightarrow> ap_inbox a = None"
      "pred_option (\<lambda>m. inbox_inv m \<and> inbox_empty m \<and> Inr (inbox_options m) = settings_of s) (ap_inbox a')"
      "ap_idemp a' = idemp_clear (ap_idemp a)" "ring_inv (fo_ring (ap_audit a'))"
      "ar_revision r = sn_revision s"
proof (cases "ev_ctx e")
  case (Some er)
  then show ?thesis using refused[of er] ap by (simp add: app_reset_def)
next
  case None
  then have al: "reset_locked e ac reason a = (res, a')" using ap by (simp add: app_reset_def)
  obtain prev where p: "ns_active (ap_snaps a) = Some prev" using inv by (auto simp: app_inv_def snaps_ok_def)
  let ?g = "sn_generation prev + 1"
  show ?thesis
  proof (cases "load_bootstrap_candidate e ?g a")
    case (Inl er)
    then show ?thesis using refused[of er] al p by (simp add: reset_locked_def)
  next
    case (Inr s)
    let ?sp = "sd_spec (sn_canonical s)" and ?ds = "diff_states e (Some (sn_canonical prev)) (sn_canonical s)"
    note ls = load_bootstrap_sound[OF Inr]
    have imp: "reject_unimplemented_smtp (sp_smtp ?sp) = None" using ls by (simp add: snap_ok_def smtp_ok_implemented)
    show ?thesis
    proof (cases "ev_preflight e (mg_auth (sp_management ?sp))")
      case (Some er)
      then show ?thesis using refused[of "as_domain_error er"] al p Inr imp by (auto simp: reset_locked_def Let_def)
    next
      case pre: None
      obtain rr a1 where ri: "reset_inbox e (sp_store ?sp) a = (rr, a1)" by fastforce
      from reset_inbox_cases[OF inv q ri] show ?thesis
      proof (elim disjE exE conjE)
        fix er assume "rr = Some er" "a1 = a"
        then show ?thesis using refused[of er] al p Inr imp pre ri by (auto simp: reset_locked_def Let_def)
      next
        assume ok: "rr = None" "a1 = a \<lparr> ap_inbox := ap_inbox a1 \<rparr>" "ap_inbox a1 = None \<longleftrightarrow> ap_inbox a = None"
          "pred_option (\<lambda>m. inbox_inv m \<and> inbox_empty m \<and>
             normalize_options (options_from_spec (sp_store ?sp)) = Inr (inbox_options m)) (ap_inbox a1)"
        have a1: "ap_snaps a1 = ap_snaps a" "ap_idemp a1 = ap_idemp a" "ap_audit a1 = ap_audit a" by (subst ok(2), simp)+
        obtain r a2 where cm: "commit_reset e ac reason s ?ds a1 = (r, a2)" by fastforce
        then have fin: "res = Inr r" "a' = a2" using al p Inr imp pre ri ok(1) by (auto simp: reset_locked_def Let_def)
        have f: "ap_snaps a2 = \<lparr> ns_active = Some s, ns_previous = Some prev, ns_bootstrap = Some s \<rparr>"
          "ap_inbox a2 = ap_inbox a1" "ap_idemp a2 = idemp_clear (ap_idemp a)" "ring_inv (fo_ring (ap_audit a2))"
          "ar_revision r = sn_revision s"
          using cm a1 p inv
          by (auto simp: commit_reset_def Let_def snap_swap_def set_bootstrap_def app_inv_def split: prod.splits
              dest!: record_audit_fields)
        have "pred_option (\<lambda>m. inbox_inv m \<and> inbox_empty m \<and> Inr (inbox_options m) = settings_of s) (ap_inbox a2)"
          unfolding f(2) using ok(4) by (cases "ap_inbox a1") (auto simp: settings_of_def)
        then show ?thesis using fin f ok(3) p Inr by (intro reset[of r prev s]) simp_all
      qed
    qed
  qed
qed

lemma app_reset_inv:
  assumes inv: "app_inv (ev_digest e) a" and q: "quiet_inbox (ev_other e)" and ap: "app_reset e ac reason a = (res, a')"
  shows "app_inv (ev_digest e) a'"
  using inv q ap
proof (cases rule: app_reset_cases)
  case (reset r s prev)
  note ls = load_bootstrap_sound[OF reset(3)]
  have "idemp_inv (ap_idemp a')" unfolding reset(7) using inv by (simp add: app_inv_def idemp_ops_inv)
  then show ?thesis using ls reset(4,8) reset(6)
    by (auto simp: app_inv_def snaps_ok_def elim: option.pred_mono_strong)
qed (use inv in simp)

lemma boot_inv:
  assumes "boot e path idemp_max audit_max hook d = Inr a"
  shows "app_inv (ev_digest e) a"
proof -
  obtain st s m where s: "compile e (Some st) \<lparr> co_now = None, co_bootstrap = [], co_generation = 0, co_require = False \<rparr> = Inr s"
    and m: "new_memory (ev_io e) (options_from_spec (sp_store (sd_spec (sn_canonical s)))) d = Inr m"
    and a: "a = new_app (snd (install_bootstrap (Some s) new_snap_store)) (Some m) path idemp_max audit_max hook"
    using assms by (auto simp: boot_def split: if_splits sum.splits)
  have ok: "snap_ok (ev_digest e) s" "sn_bootstrap s = sn_revision s" using compile_snap_ok[OF s] compile_sound[OF s] by auto
  have "Inr (inbox_options m) = settings_of s"
    using m by (auto simp: new_memory_def settings_of_def inbox_options_def split: sum.splits option.splits prod.splits)
  then show ?thesis using ok new_memory_inv[OF m] unfolding a
    by (auto simp: app_inv_def new_app_def Let_def snaps_ok_def install_bootstrap_def snap_swap_def set_bootstrap_def
        new_snap_store_def idemp_inv_def new_idemp_def default_idempotency_max_def new_fanout_def new_ring_inv)
qed

section \<open>Runs of the service\<close>

inductive app_step :: "(state_doc \<Rightarrow> bytes) \<Rightarrow> app \<Rightarrow> app \<Rightarrow> bool" for dg where
  step_plan: "app_plan e c a = (r, a') \<Longrightarrow> ev_digest e = dg \<Longrightarrow> app_step dg a a'"
| step_apply: "app_apply e ac c a = (r, a') \<Longrightarrow> ev_digest e = dg \<Longrightarrow> quiet_inbox (ev_other e) \<Longrightarrow> app_step dg a a'"
| step_reset: "app_reset e ac reason a = (r, a') \<Longrightarrow> ev_digest e = dg \<Longrightarrow> quiet_inbox (ev_other e) \<Longrightarrow> app_step dg a a'"
| step_mail: "mail_call call \<Longrightarrow> app_step dg a (a \<lparr> ap_inbox := map_option (run_call io call) (ap_inbox a) \<rparr>)"
| step_insert: "ap_inbox a = Some m \<Longrightarrow> insert_commit io pd m = (r, m') \<Longrightarrow> 0 \<le> pd_candidate pd \<Longrightarrow>
    msg_id (pd_msg pd) \<notin> set (ib_order m) \<Longrightarrow> app_step dg a (a \<lparr> ap_inbox := Some m' \<rparr>)"

inductive app_reach :: "(state_doc \<Rightarrow> bytes) \<Rightarrow> app \<Rightarrow> bool" for dg where
  reach_boot: "boot e path idemp_max audit_max hook d = Inr a \<Longrightarrow> ev_digest e = dg \<Longrightarrow> app_reach dg a"
| reach_app: "app_reach dg a \<Longrightarrow> app_step dg a a' \<Longrightarrow> app_reach dg a'"

lemma app_step_inv: "app_step dg a a' \<Longrightarrow> app_inv dg a \<Longrightarrow> app_inv dg a'"
proof (induction rule: app_step.induct)
  case (step_plan e c a r a')
  then show ?case using app_plan_fields[of a e c r a'] by (auto simp: app_inv_def)
next
  case (step_apply e ac c a r a')
  then show ?case using app_apply_inv by blast
next
  case (step_reset e ac reason a r a')
  then show ?case using app_reset_inv by blast
next
  case (step_mail call a io)
  then show ?case using mail_call_quiet[OF step_mail(1), of io]
    by (cases "ap_inbox a") (auto simp: app_inv_def quiet_inbox_def)
next
  case (step_insert a m io pd r m')
  then have "inbox_inv m'" using insert_commit_inv[of m pd io] by (auto simp: app_inv_def)
  then show ?case using step_insert insert_commit_options[OF step_insert(2)] by (auto simp: app_inv_def)
qed

lemma app_reach_inv: "app_reach dg a \<Longrightarrow> app_inv dg a"
  by (induction rule: app_reach.induct) (auto dest: boot_inv app_step_inv)

end
