(* ===== verification/App_Service.thy ===== *)
theory App_Service
  imports App_Props
begin

text \<open>
  The promises of the control plane's service over every run of it: what holds of its snapshots and its
  inbox, what an apply and a reset do, and what a retried request finds.
\<close>

declare split_paired_All [simp del] split_paired_Ex [simp del]

lemma settings_of_Inr: "Inr op = settings_of s \<Longrightarrow>
    normalize_options (options_from_spec (sp_store (sd_spec (sn_canonical s)))) = Inr op"
  by (simp add: settings_of_def split: sum.splits)

section \<open>Retries\<close>

lemma replay_hit:
  assumes "idemp_find (cs_key c) (ap_idemp a) = Some x" "ie_fp x = fingerprint_change e c" "ie_apply x = Some r"
    and "cs_key c \<noteq> []" "ev_ctx e = None" "map_option sn_revision (ns_active (ap_snaps a)) = Some (ar_revision r)"
  shows "app_apply e ac c a = (Inr r, a \<lparr> ap_idemp := move_front x (ap_idemp a) \<rparr>)"
  using assms by (auto simp: app_apply_def apply_locked_def idemp_lookup_def active_snapshot_def Let_def)

lemma applied_entry:
  assumes inv: "app_inv (ev_digest e) a" and q: "quiet_inbox (ev_other e)" and ap: "app_apply e ac c a = (Inr r, a1)"
    and key: "cs_key c \<noteq> []"
  shows "(\<exists>x. idemp_find (cs_key c) (ap_idemp a1) = Some x \<and> ie_fp x = fingerprint_change e c \<and> ie_apply x = Some r) \<and>
    map_option sn_revision (ns_active (ap_snaps a1)) = Some (ar_revision r)"
  using inv q ap
proof (cases rule: app_apply_cases)
  case (replayed r')
  then show ?thesis by auto
next
  case (applied r' cand w)
  have "idemp_inv (snd (idemp_lookup (cs_key c) (fingerprint_change e c) (ap_idemp a)))"
    using inv by (simp add: app_inv_def idemp_ops_inv)
  from store_apply_found[OF this key] show ?thesis
    using applied(1,3,7,8) by (auto simp: snap_swap_def)
qed simp

text \<open>A conflict is what a request with a stale revision gets.\<close>

definition is_conflict :: "go_error \<Rightarrow> bool" where
  "is_conflict er = (case as_domain er of (Some d, True) \<Rightarrow> err_code d = RevisionConflict | _ \<Rightarrow> False)"

lemma stale_candidate:
  assumes "ns_active (ap_snaps a) = Some s" "cs_expected c \<noteq> []" "cs_expected c \<noteq> sn_revision s"
  obtains er where "build_candidate e c a = Inl er" "is_conflict er"
  using assms by (auto simp: build_candidate_def active_snapshot_def is_conflict_def with_remediation_def)

lemma forget_conflict: "is_conflict er \<Longrightarrow> forget_on_conflict key er a = a \<lparr> ap_idemp := idemp_evict key (ap_idemp a) \<rparr>"
  by (auto simp: is_conflict_def forget_on_conflict_def split: option.splits prod.splits bool.splits)

lemma unplanned_entry:
  assumes "idemp_find key c = None" "key \<noteq> []" "idemp_inv c"
  shows "\<exists>x. idemp_find key (store_apply key fp r c) = Some x \<and> ie_fp x = fp \<and> ie_plan x = None"
proof -
  obtain n where "ic_max c = Suc n" using assms(3) by (cases "ic_max c") (auto simp: idemp_inv_def)
  then show ?thesis using assms
    by (simp add: store_apply_def insert_front_def move_front_def idemp_find_def Let_def)
qed

lemma stale_plan_evicts:
  assumes x: "idemp_find (cs_key c) (ap_idemp a) = Some x" "ie_fp x = fingerprint_change e c" "ie_plan x = None"
    and key: "cs_key c \<noteq> []" and ctx: "ev_ctx e = None"
    and stale: "ns_active (ap_snaps a) = Some s" "cs_expected c \<noteq> []" "cs_expected c \<noteq> sn_revision s"
  shows "\<exists>er. app_plan e c a = (Inl er, a \<lparr> ap_idemp := idemp_remove (cs_key c) (move_front x (ap_idemp a)) \<rparr>) \<and> is_conflict er"
proof -
  obtain er where er: "build_candidate e c a = Inl er" "is_conflict er" using stale_candidate[OF stale, where e = e] by blast
  then show ?thesis using x key ctx
    by (auto simp: app_plan_def plan_locked_def idemp_lookup_def Let_def forget_conflict idemp_evict_def)
qed

lemma stale_apply_conflicts:
  assumes "idemp_find (cs_key c) (ap_idemp a) = None" and key: "cs_key c \<noteq> []" and ctx: "ev_ctx e = None"
    and stale: "ns_active (ap_snaps a) = Some s" "cs_expected c \<noteq> []" "cs_expected c \<noteq> sn_revision s"
  shows "\<exists>er. fst (app_apply e ac c a) = Inl er \<and> is_conflict er"
proof -
  obtain er where er: "build_candidate e c a = Inl er" "is_conflict er" using stale_candidate[OF stale, where e = e] by blast
  then show ?thesis using assms(1) key ctx
    by (auto simp: app_apply_def apply_locked_def idemp_lookup_def Let_def)
qed

lemma reused_key:
  assumes "idemp_find (cs_key c) (ap_idemp a) = Some x" "ie_fp x \<noteq> fingerprint_change e c" "cs_key c \<noteq> []" "ev_ctx e = None"
  shows "app_apply e ac c a =
    (Inl (domain_e (new_error IdempotencyConflict ''idempotency key reused with a different request'')), a)"
  using assms by (simp add: app_apply_def apply_locked_def idemp_lookup_def Let_def)

section \<open>A service that runs\<close>

definition quiet_files :: file_world where
  "quiet_files = \<lparr> fw_exists = (\<lambda>p. False), fw_read = (\<lambda>p. if p = ''/c'' then Some ''{}'' else None), fw_error = (\<lambda>p. ''no such file'') \<rparr>"

definition demo_digest :: "state_doc \<Rightarrow> bytes" where
  "demo_digest st = int_str (ss_max_messages (sp_store (sd_spec st)))"

definition demo_env :: app_env where
  "demo_env = \<lparr> ev_files = quiet_files, ev_url = (\<lambda>u. None), ev_libs = demo_libs (\<lambda>t. Inr demo_state), ev_io = good_io,
     ev_digest = demo_digest, ev_tree = (\<lambda>st. JNull), ev_marshal = (\<lambda>t. ''null''),
     ev_json = \<lparr> jt_decode = (\<lambda>b. None), jt_encode = (\<lambda>t. None) \<rparr>, ev_fingerprint = (\<lambda>(r, f, s, ps). r @ s), ev_now = 5,
     ev_ctx = None, ev_stat = (\<lambda>p. StatOk), ev_preflight = (\<lambda>m. None), ev_hook_fails = False, ev_other = (\<lambda>m. m) \<rparr>"

lemma demo_env_sel [simp]:
  "ev_files demo_env = quiet_files" "ev_url demo_env = (\<lambda>u. None)" "ev_libs demo_env = demo_libs (\<lambda>t. Inr demo_state)"
  "ev_io demo_env = good_io" "ev_digest demo_env = demo_digest" "ev_now demo_env = 5" "ev_ctx demo_env = None"
  "ev_preflight demo_env = (\<lambda>m. None)" "ev_other demo_env = (\<lambda>m. m)" "ev_stat demo_env = (\<lambda>p. StatOk)"
  by (simp_all add: demo_env_def)

definition demo_revision :: bytes where
  "demo_revision = ''sha256:1000''"

definition demo_change_set :: change_set where
  "demo_change_set = \<lparr> cs_expected = demo_revision, cs_key = ''k1'', cs_reason = ''more'', cs_force = False,
     cs_operations = [\<lparr> op_name = ''replaceStoreCaps'', op_auth = None,
       op_store = Some \<lparr> sc_max_messages = 20, sc_max_bytes = 4096, sc_full_policy = ''reject'' \<rparr>,
       op_hide = None, op_admission = None, op_behavior = None \<rparr>] \<rparr>"

definition demo_snapshot :: snapshot where
  "demo_snapshot = \<lparr> sn_canonical = demo_state, sn_revision = demo_revision, sn_bootstrap = demo_revision,
     sn_generation = 0, sn_compiled_at = 5 \<rparr>"

definition demo_inbox :: inbox where
  "demo_inbox = (case new_memory good_io (options_from_spec (sp_store demo_spec)) [] of Inr m \<Rightarrow> m)"

definition demo_app :: app where
  "demo_app = new_app (snd (install_bootstrap (Some demo_snapshot) new_snap_store)) (Some demo_inbox) ''/c'' 0 0 False"

lemma demo_rev: "revision_of demo_env demo_state = demo_revision"
  by (simp add: revision_of_def demo_digest_def demo_state_def demo_spec_def demo_revision_def int_str_def
      nat_str.simps digit_char_eval[unfolded One_nat_def])

lemma demo_valid: "validate_state quiet_files (\<lambda>u. None) False (Some demo_state) = None"
  by code_simp

lemma demo_load: "load_file (ev_libs demo_env) (ev_files demo_env) (ev_url demo_env) ''/c'' = Inr demo_state"
  using demo_valid demo_decode[of "\<lambda>t. Inr demo_state", OF refl]
  by (simp add: load_file_def load_def quiet_files_def normalize_state_def)

lemma demo_boot: "boot demo_env ''/c'' 0 0 False [] = Inr demo_app"
proof -
  have c: "compile demo_env (Some demo_state) \<lparr> co_now = None, co_bootstrap = [], co_generation = 0, co_require = False \<rparr>
      = Inr demo_snapshot"
    using demo_valid demo_rev by (simp add: compile_def normalize_state_def Let_def demo_snapshot_def)
  have "case new_memory good_io (options_from_spec (sp_store demo_spec)) [] of Inr m \<Rightarrow> True | _ \<Rightarrow> False" by code_simp
  then have "\<exists>m. new_memory good_io (options_from_spec (sp_store demo_spec)) [] = Inr m" by (simp split: sum.splits)
  then show ?thesis using demo_load c
    by (auto simp: boot_def demo_app_def demo_inbox_def demo_snapshot_def demo_state_def)
qed

lemma demo_app_reach: "app_reach demo_digest demo_app"
  by (rule reach_boot[OF demo_boot]) simp

lemma demo_quiet: "quiet_inbox (ev_other demo_env)"
  by (simp add: quiet_inbox_def)

section \<open>Properties\<close>

text \<open>C14. In every run of the service from its boot - plans, applies and resets by any callers, mail
  coming and going in between - an active and a bootstrap snapshot are installed, both validated and
  named by the digest of their state; the state has drifted exactly when their revisions differ; the
  inbox satisfies its invariant under exactly the options of the active snapshot; and the
  idempotency cache is within its bound.\<close>

theorem service_invariant:
  "app_reach dg a \<Longrightarrow>
    \<exists>s b. ns_active (ap_snaps a) = Some s \<and> ns_bootstrap (ap_snaps a) = Some b \<and>
      sn_revision s = ''sha256:'' @ dg (sn_canonical s) \<and> sn_revision b = ''sha256:'' @ dg (sn_canonical b) \<and>
      (drifted (Some s) \<longleftrightarrow> sn_revision s \<noteq> sn_revision b) \<and>
      store_ok (sp_store (sd_spec (sn_canonical s))) \<and> smtp_ok (sp_smtp (sd_spec (sn_canonical s))) \<and>
      management_ok (sp_management (sd_spec (sn_canonical s))) \<and>
      store_ok (sp_store (sd_spec (sn_canonical b))) \<and> smtp_ok (sp_smtp (sd_spec (sn_canonical b))) \<and>
      management_ok (sp_management (sd_spec (sn_canonical b))) \<and>
      pred_option (\<lambda>m. inbox_inv m \<and> normalize_options (options_from_spec (sp_store (sd_spec (sn_canonical s)))) =
        Inr (inbox_options m)) (ap_inbox a) \<and>
      length (ic_entries (ap_idemp a)) \<le> ic_max (ap_idemp a)"
proof -
  assume "app_reach dg a"
  then have inv: "app_inv dg a" by (rule app_reach_inv)
  then obtain s b where s: "ns_active (ap_snaps a) = Some s" "ns_bootstrap (ap_snaps a) = Some b" "snap_ok dg s" "snap_ok dg b"
    "sn_bootstrap s = sn_revision b" by (auto simp: app_inv_def snaps_ok_def)
  have "pred_option (\<lambda>m. inbox_inv m \<and> normalize_options (options_from_spec (sp_store (sd_spec (sn_canonical s)))) =
        Inr (inbox_options m)) (ap_inbox a)"
    using inv s(1) by (auto simp: app_inv_def elim!: option.pred_mono_strong intro: settings_of_Inr)
  then show ?thesis using s inv
    by (intro exI[of _ s] exI[of _ b]) (simp add: drifted_def snap_ok_def app_inv_def idemp_inv_def)
qed

lemma service_invariant_witness: "\<exists>s. ns_active (ap_snaps demo_app) = Some s \<and> length (ic_entries (ap_idemp demo_app)) \<le> 256"
  using service_invariant[OF demo_app_reach]
  by (auto simp: demo_app_def new_app_def Let_def new_idemp_def default_idempotency_max_def)

text \<open>C15. An apply has three outcomes.  Refused, it leaves the snapshots and the audit log alone and the
  inbox as others left it.  Replayed, it changes none of them and returns the result that was stored
  under the same key and request.  Done, the caller knew the active revision, the new active snapshot
  is the old state under the requested operations with the next generation, the old one is kept as
  the previous, and the inbox has the new options.\<close>

theorem apply_effect:
  "app_reach (ev_digest e) a \<Longrightarrow> quiet_inbox (ev_other e) \<Longrightarrow> app_apply e ac c a = (res, a') \<Longrightarrow>
    case res of
      Inl er \<Rightarrow> ap_snaps a' = ap_snaps a \<and> ap_audit a' = ap_audit a \<and> inbox_kept e a (ap_inbox a')
    | Inr r \<Rightarrow>
        ap_snaps a' = ap_snaps a \<and> ap_audit a' = ap_audit a \<and> ap_inbox a' = ap_inbox a \<and>
        (\<exists>x. idemp_find (cs_key c) (ap_idemp a) = Some x \<and> ie_fp x = fingerprint_change e c \<and> ie_apply x = Some r) \<or>
        (\<exists>prev s. ns_active (ap_snaps a) = Some prev \<and> cs_expected c = sn_revision prev \<and>
          apply_operations (sn_canonical prev) (cs_operations c) = Inr (sn_canonical s) \<and>
          sn_generation s = sn_generation prev + 1 \<and> ar_revision r = sn_revision s \<and>
          ap_snaps a' = (ap_snaps a) \<lparr> ns_active := Some s, ns_previous := Some prev \<rparr> \<and> inbox_set s (ap_inbox a'))"
proof -
  assume reach: "app_reach (ev_digest e) a" and q: "quiet_inbox (ev_other e)" and ap: "app_apply e ac c a = (res, a')"
  from app_reach_inv[OF reach] q ap show ?thesis
  proof (cases rule: app_apply_cases)
    case (applied r cand w)
    obtain prev where "ns_active (ap_snaps a) = Some prev" "cs_expected c = sn_revision prev"
      "apply_operations (sn_canonical prev) (cs_operations c) = Inr (sn_canonical (cd_next cand))"
      "sn_generation (cd_next cand) = sn_generation prev + 1"
      using build_candidate_cases[OF applied(2)] by blast
    then show ?thesis using applied(1,3,4,8)
      by (simp, intro disjI2 exI[of _ "cd_next cand"]) (simp add: snap_swap_def)
  qed simp_all
qed

lemma demo_candidate: "\<exists>cand. build_candidate demo_env demo_change_set demo_app = Inr cand"
proof -
  let ?st = "demo_state \<lparr> sd_spec := demo_spec \<lparr> sp_store := (sp_store demo_spec) \<lparr> ss_max_messages := 20, ss_max_bytes := 4096,
    ss_full_policy := ''reject'' \<rparr> \<rparr> \<rparr>"
  have "apply_operations demo_state (cs_operations demo_change_set) = Inr ?st" by code_simp
  moreover have "reject_unimplemented_smtp (sp_smtp (sd_spec ?st)) = None" by code_simp
  moreover have "validate_state quiet_files (\<lambda>u. None) False (Some ?st) = None" by code_simp
  moreover have "ns_active (ap_snaps demo_app) = Some demo_snapshot"
    by (simp add: demo_app_def new_app_def Let_def install_bootstrap_def snap_swap_def set_bootstrap_def new_snap_store_def)
  ultimately show ?thesis
    by (simp add: build_candidate_def active_snapshot_def demo_snapshot_def demo_change_set_def demo_revision_def
        compile_candidate_def compile_def normalize_state_def Let_def)
qed

definition demo_actor :: actor where
  "demo_actor = \<lparr> ac_id = ''op'', ac_class = ''human'', ac_role = ''administrator'', ac_scopes = [''mail.admin''], ac_transport = ''rest'' \<rparr>"

definition small_store_spec :: store_spec where
  "small_store_spec = (sp_store demo_spec) \<lparr> ss_max_messages := 20, ss_max_bytes := 4096, ss_full_policy := ''reject'' \<rparr>"

lemma demo_replace: "\<exists>m'. replace_caps good_io (options_from_spec small_store_spec) False demo_inbox = (None, m')"
proof -
  have "fst (replace_caps good_io (options_from_spec small_store_spec) False demo_inbox) = None" by code_simp
  then show ?thesis by (cases "replace_caps good_io (options_from_spec small_store_spec) False demo_inbox") simp
qed

lemma demo_apply: "\<exists>r a'. app_apply demo_env ac demo_change_set demo_app = (Inr r, a')"
proof -
  obtain cand where c: "build_candidate demo_env demo_change_set demo_app = Inr cand" using demo_candidate by blast
  obtain st where st: "sn_canonical (cd_next cand) = st" "cd_ops cand = cs_operations demo_change_set"
    "apply_operations demo_state (cs_operations demo_change_set) = Inr st"
    using build_candidate_cases[OF c]
    by (auto simp: demo_app_def new_app_def Let_def install_bootstrap_def snap_swap_def set_bootstrap_def new_snap_store_def
        demo_snapshot_def)
  have sp: "sp_store (sd_spec st) = small_store_spec" using st(3)
    by (auto simp: apply_operations_def apply_one_def demo_change_set_def demo_state_def small_store_spec_def Let_def)
  have cap: "int (st_count (memory_stats demo_inbox)) \<le> ss_max_messages small_store_spec"
    "st_bytes (memory_stats demo_inbox) \<le> ss_max_bytes small_store_spec" by code_simp+
  obtain m' where m': "replace_caps good_io (options_from_spec small_store_spec) False demo_inbox = (None, m')"
    using demo_replace by blast
  have "check_store_caps demo_env False True cand (demo_app \<lparr> ap_idemp := ic \<rparr>) =
    (Inr cand, demo_app \<lparr> ap_idemp := ic, ap_inbox := Some m' \<rparr>)" for ic
    using cap m' st(1,2) sp
    by (simp add: check_store_caps_def demo_app_def new_app_def Let_def any_replace_store_caps_def demo_change_set_def not_less)
  then show ?thesis using c
    by (simp add: app_apply_def apply_locked_def idemp_lookup_def idemp_find_def demo_app_def new_app_def new_idemp_def
        Let_def demo_change_set_def split: prod.splits)
qed

lemma demo_active: "ns_active (ap_snaps demo_app) = Some demo_snapshot"
  by (simp add: demo_app_def new_app_def Let_def install_bootstrap_def snap_swap_def set_bootstrap_def new_snap_store_def)

lemma demo_fresh: "idemp_find key (ap_idemp demo_app) = None"
  by (simp add: demo_app_def new_app_def Let_def new_idemp_def idemp_find_def)

lemma demo_reach_env: "app_reach (ev_digest demo_env) demo_app"
  using demo_app_reach by simp

lemma apply_effect_witness:
  "\<exists>r a' s. app_apply demo_env demo_actor demo_change_set demo_app = (Inr r, a') \<and> ns_active (ap_snaps a') = Some s \<and>
    sn_generation s = 1 \<and> ar_revision r = sn_revision s \<and> ns_previous (ap_snaps a') = Some demo_snapshot"
proof -
  obtain r a' where ap: "app_apply demo_env demo_actor demo_change_set demo_app = (Inr r, a')" using demo_apply by blast
  from apply_effect[OF demo_reach_env demo_quiet ap] show ?thesis
    using ap by (auto simp: demo_active demo_fresh demo_snapshot_def)
qed

text \<open>C16. A client that repeats an apply it was answered - same key, same request - gets that answer again and
  changes nothing, whatever mail came and went in between; the same key with another request is
  refused.\<close>

theorem apply_replay:
  "app_reach (ev_digest e) a \<Longrightarrow> quiet_inbox (ev_other e) \<Longrightarrow> cs_key c \<noteq> [] \<Longrightarrow> app_apply e ac c a = (Inr r, a1) \<Longrightarrow>
    ev_ctx e' = None \<Longrightarrow> cs_key c' = cs_key c \<Longrightarrow>
    (\<exists>ic. app_apply e' ac' c' (a1 \<lparr> ap_inbox := ib \<rparr>) =
      (if fingerprint_change e' c' = fingerprint_change e c then (Inr r, a1 \<lparr> ap_inbox := ib, ap_idemp := ic \<rparr>)
       else (Inl (domain_e (new_error IdempotencyConflict ''idempotency key reused with a different request'')),
         a1 \<lparr> ap_inbox := ib \<rparr>)))"
proof -
  assume reach: "app_reach (ev_digest e) a" and q: "quiet_inbox (ev_other e)" and key: "cs_key c \<noteq> []"
    and ap: "app_apply e ac c a = (Inr r, a1)" and ctx: "ev_ctx e' = None" and key': "cs_key c' = cs_key c"
  obtain x where x: "idemp_find (cs_key c) (ap_idemp a1) = Some x" "ie_fp x = fingerprint_change e c" "ie_apply x = Some r"
    and rev: "map_option sn_revision (ns_active (ap_snaps a1)) = Some (ar_revision r)"
    using applied_entry[OF app_reach_inv[OF reach] q ap key] by blast
  show ?thesis
  proof (cases "fingerprint_change e' c' = fingerprint_change e c")
    case True
    then show ?thesis using replay_hit[of c' "a1 \<lparr> ap_inbox := ib \<rparr>" x e' r ac'] x rev key key' ctx by auto
  next
    case False
    then show ?thesis using reused_key[of c' "a1 \<lparr> ap_inbox := ib \<rparr>" x e' ac'] x key key' ctx by simp
  qed
qed

lemma apply_replay_witness:
  "\<exists>r a1 ic. app_apply demo_env demo_actor demo_change_set demo_app = (Inr r, a1) \<and>
    app_apply demo_env demo_actor demo_change_set (a1 \<lparr> ap_inbox := None \<rparr>) = (Inr r, a1 \<lparr> ap_inbox := None, ap_idemp := ic \<rparr>)"
proof -
  obtain r a1 where ap: "app_apply demo_env demo_actor demo_change_set demo_app = (Inr r, a1)" using demo_apply by blast
  have "cs_key demo_change_set \<noteq> []" "ev_ctx demo_env = None" by (simp_all add: demo_change_set_def)
  from apply_replay[OF demo_reach_env demo_quiet this(1) ap this(2) refl, of demo_actor None] show ?thesis
    using ap by auto
qed

text \<open>A reset either changes nothing or makes the freshly loaded bootstrap document the active and the
  bootstrap snapshot, with the next generation and the old snapshot as the previous one, so that
  nothing has drifted; the inbox is empty under that document's options and every stored
  idempotency key is forgotten.\<close>

lemma reset_effect:
  "app_reach (ev_digest e) a \<Longrightarrow> quiet_inbox (ev_other e) \<Longrightarrow> app_reset e ac reason a = (res, a') \<Longrightarrow>
    case res of
      Inl er \<Rightarrow> a' = a
    | Inr r \<Rightarrow> \<exists>prev s. ns_active (ap_snaps a) = Some prev \<and>
        load_bootstrap_candidate e (sn_generation prev + 1) a = Inr s \<and>
        ap_snaps a' = \<lparr> ns_active = Some s, ns_previous = Some prev, ns_bootstrap = Some s \<rparr> \<and>
        sn_generation s = sn_generation prev + 1 \<and> sn_revision s = ''sha256:'' @ ev_digest e (sn_canonical s) \<and>
        \<not> drifted (Some s) \<and> ar_revision r = sn_revision s \<and> ic_entries (ap_idemp a') = [] \<and>
        (ap_inbox a' = None \<longleftrightarrow> ap_inbox a = None) \<and>
        pred_option (\<lambda>m. inbox_inv m \<and> inbox_empty m \<and>
          normalize_options (options_from_spec (sp_store (sd_spec (sn_canonical s)))) = Inr (inbox_options m)) (ap_inbox a')"
proof -
  assume reach: "app_reach (ev_digest e) a" and q: "quiet_inbox (ev_other e)" and ap: "app_reset e ac reason a = (res, a')"
  from app_reach_inv[OF reach] q ap show ?thesis
  proof (cases rule: app_reset_cases)
    case (reset r s prev)
    have "pred_option (\<lambda>m. inbox_inv m \<and> inbox_empty m \<and>
        normalize_options (options_from_spec (sp_store (sd_spec (sn_canonical s)))) = Inr (inbox_options m)) (ap_inbox a')"
      using reset(6) by (rule option.pred_mono_strong) (auto intro: settings_of_Inr)
    then show ?thesis using reset load_bootstrap_sound[OF reset(3)]
      by (simp add: drifted_def snap_ok_def idemp_clear_def)
  qed simp
qed

lemma demo_reset_inbox: "fst (reset_inbox demo_env (sp_store (sd_spec demo_state)) demo_app) = None"
proof -
  have "case check_options good_io (options_from_spec (sp_store demo_spec)) of
      Inr op \<Rightarrow> fst (reset_to good_io op demo_inbox) = None | _ \<Rightarrow> False" by code_simp
  then show ?thesis
    by (auto simp: reset_inbox_def demo_app_def new_app_def demo_state_def Let_def split: option.splits prod.splits sum.splits)
qed

lemma demo_reset: "\<exists>r a'. app_reset demo_env ac reason demo_app = (Inr r, a')"
proof -
  have "\<exists>s. load_bootstrap_candidate demo_env (Suc 0) demo_app = Inr s \<and> sn_canonical s = demo_state"
    using demo_load demo_valid by (simp add: load_bootstrap_candidate_def compile_def normalize_state_def demo_app_def new_app_def Let_def)
  then obtain s where s: "load_bootstrap_candidate demo_env (Suc 0) demo_app = Inr s" "sn_canonical s = demo_state" by blast
  have rj: "reject_unimplemented_smtp (sp_smtp (sd_spec demo_state)) = None" by code_simp
  have "fst (reset_inbox demo_env (sp_store (sd_spec demo_state)) demo_app) = None" by (rule demo_reset_inbox)
  then obtain a1 where "reset_inbox demo_env (sp_store (sd_spec demo_state)) demo_app = (None, a1)"
    by (cases "reset_inbox demo_env (sp_store (sd_spec demo_state)) demo_app") auto
  then show ?thesis using s rj
    by (simp add: app_reset_def reset_locked_def demo_active demo_snapshot_def Let_def split: prod.splits)
qed

lemma reset_effect_witness:
  "\<exists>r a' s. app_reset demo_env demo_actor ''again'' demo_app = (Inr r, a') \<and> ns_active (ap_snaps a') = Some s \<and>
    ns_bootstrap (ap_snaps a') = Some s \<and> sn_generation s = 1 \<and> ic_entries (ap_idemp a') = []"
proof -
  obtain r a' where ap: "app_reset demo_env demo_actor ''again'' demo_app = (Inr r, a')" using demo_reset by blast
  from reset_effect[OF demo_reach_env demo_quiet ap] show ?thesis using ap by (auto simp: demo_active demo_snapshot_def)
qed

text \<open>A plan repeated with a key that was just applied forgets that key: the plan is refused because the
  revision it expects is no longer active, and from then on the exact retry of the apply is
  refused with the same conflict instead of being answered with the stored result.\<close>

lemma plan_after_apply_forgets:
  "app_reach (ev_digest e) a \<Longrightarrow> quiet_inbox (ev_other e) \<Longrightarrow> cs_key c \<noteq> [] \<Longrightarrow> idemp_find (cs_key c) (ap_idemp a) = None \<Longrightarrow>
    app_apply e ac c a = (Inr r, a1) \<Longrightarrow> ar_revision r \<noteq> cs_expected c \<Longrightarrow> ev_ctx e = None \<Longrightarrow>
    \<exists>er a2 er'. app_plan e c a1 = (Inl er, a2) \<and> is_conflict er \<and> idemp_find (cs_key c) (ap_idemp a2) = None \<and>
      fst (app_apply e ac c a2) = Inl er' \<and> is_conflict er'"
proof -
  assume reach: "app_reach (ev_digest e) a" and q: "quiet_inbox (ev_other e)" and key: "cs_key c \<noteq> []"
    and fresh: "idemp_find (cs_key c) (ap_idemp a) = None" and ap: "app_apply e ac c a = (Inr r, a1)"
    and rev: "ar_revision r \<noteq> cs_expected c" and ctx: "ev_ctx e = None"
  from app_reach_inv[OF reach] q ap show ?thesis
  proof (cases rule: app_apply_cases)
    case (applied r' cand w)
    obtain prev where prev: "ns_active (ap_snaps a) = Some prev" "cs_expected c = sn_revision prev"
      using build_candidate_cases[OF applied(2)] by blast
    have ne: "cs_expected c \<noteq> []"
      using prev app_reach_inv[OF reach] by (auto simp: app_inv_def snaps_ok_def snap_ok_def)
    have act: "ns_active (ap_snaps a1) = Some (cd_next cand)" "cs_expected c \<noteq> sn_revision (cd_next cand)"
      using applied(1,3,8) rev by (auto simp: snap_swap_def)
    have inv: "idemp_inv (ap_idemp a)" using app_reach_inv[OF reach] by (simp add: app_inv_def)
    have "snd (idemp_lookup (cs_key c) (fingerprint_change e c) (ap_idemp a)) = ap_idemp a"
      using fresh by (simp add: idemp_lookup_def)
    then obtain x where x: "idemp_find (cs_key c) (ap_idemp a1) = Some x" "ie_fp x = fingerprint_change e c" "ie_plan x = None"
      using unplanned_entry[OF fresh key inv, of "fingerprint_change e c" r'] applied(7) by auto
    let ?a2 = "a1 \<lparr> ap_idemp := idemp_remove (cs_key c) (move_front x (ap_idemp a1)) \<rparr>"
    have gone: "idemp_find (cs_key c) (ap_idemp ?a2) = None" by (auto simp: idemp_find_def idemp_remove_def find_None_iff)
    have act2: "ns_active (ap_snaps ?a2) = Some (cd_next cand)" using act(1) by simp
    show ?thesis
      using stale_plan_evicts[OF x key ctx act(1) ne act(2)] stale_apply_conflicts[OF gone key ctx act2 ne act(2), where ac = ac]
        gone by blast
  qed (use fresh in auto)
qed

lemma demo_new_revision:
  assumes "app_apply demo_env ac demo_change_set demo_app = (Inr r, a1)"
  shows "ar_revision r \<noteq> cs_expected demo_change_set"
proof -
  have inv: "app_inv (ev_digest demo_env) demo_app" using demo_reach_env by (rule app_reach_inv)
  have ne: "''sha256:'' @ demo_digest (demo_state \<lparr> sd_spec := demo_spec \<lparr> sp_store := small_store_spec \<rparr> \<rparr>) \<noteq> demo_revision"
    by (simp add: demo_digest_def small_store_spec_def int_str_def nat_str.simps digit_char_eval[unfolded One_nat_def] demo_revision_def)
  from inv demo_quiet assms show ?thesis
  proof (cases rule: app_apply_cases)
    case (applied r' cand w)
    obtain st where st: "apply_operations demo_state (cs_operations demo_change_set) = Inr st" "sn_canonical (cd_next cand) = st"
      "sn_revision (cd_next cand) = ''sha256:'' @ demo_digest st"
      using build_candidate_cases[OF applied(2)] by (auto simp: demo_active demo_snapshot_def snap_ok_def)
    then have "demo_digest st = demo_digest (demo_state \<lparr> sd_spec := demo_spec \<lparr> sp_store := small_store_spec \<rparr> \<rparr>)"
      by (auto simp: apply_operations_def apply_one_def demo_change_set_def small_store_spec_def demo_digest_def Let_def)
    then show ?thesis using ne st applied(1,8) by (auto simp: demo_change_set_def)
  qed (simp_all add: demo_fresh)
qed

lemma plan_after_apply_forgets_witness:
  "\<exists>r a1 er a2. app_apply demo_env demo_actor demo_change_set demo_app = (Inr r, a1) \<and>
    app_plan demo_env demo_change_set a1 = (Inl er, a2) \<and> is_conflict er"
proof -
  obtain r a1 where ap: "app_apply demo_env demo_actor demo_change_set demo_app = (Inr r, a1)" using demo_apply by blast
  have "cs_key demo_change_set \<noteq> []" "ev_ctx demo_env = None" by (simp_all add: demo_change_set_def)
  from plan_after_apply_forgets[OF demo_reach_env demo_quiet this(1) demo_fresh ap demo_new_revision[OF ap] this(2)] show ?thesis
    using ap by blast
qed

end
