(* ===== verification/App_Messages.thy ===== *)
theory App_Messages
  imports App_Core Listing
begin

text \<open>
  Reading and deleting messages through the service (\<^verbatim>\<open>internal/app/messages.go\<close>, \<^verbatim>\<open>extract.go\<close>, \<^verbatim>\<open>audit.go\<close>
  and the status of \<^verbatim>\<open>export.go\<close>).  These calls do not take the service's mutex, so what other
  goroutines do to the inbox (\<open>ev_other\<close>) falls between a check and the call it guards.  The matches of
  the four frozen regular expressions are arguments.
\<close>

section \<open>Errors of the store\<close>

definition map_store_err :: "store_error \<Rightarrow> go_error" where
  "map_store_err er = (case er of
       ErrNotFound \<Rightarrow> domain_e (new_error NotFound ''message not found'')
     | ErrFull \<Rightarrow> domain_e (new_error StoreFull ''inbox is full'')
     | ErrOverNewCap \<Rightarrow> domain_e (new_error StoreOverNewCap ''inbox occupancy exceeds the new store caps'')
     | _ \<Rightarrow> as_domain_error (PlainE (store_error_text er)))"

definition require_inbox :: "app \<Rightarrow> go_error + inbox" where
  "require_inbox a = (case ap_inbox a of
       None \<Rightarrow> Inl (domain_e (new_error InternalError ''no inbox'')) | Some m \<Rightarrow> Inr m)"

definition match_store_generation :: "nat option \<Rightarrow> app \<Rightarrow> go_error option" where
  "match_store_generation expected a = (case (expected, ap_inbox a) of
       (Some g, Some m) \<Rightarrow> if ib_generation m \<noteq> g
         then Some (domain_e (revision_conflict ''store generation does not match'' (nat_str (ib_generation m)))) else None
     | _ \<Rightarrow> None)"

section \<open>Reads\<close>

definition list_messages :: "app_env \<Rightarrow> (bytes \<Rightarrow> int option) \<Rightarrow> list_query \<Rightarrow> app \<Rightarrow> go_error + list_result" where
  "list_messages e ulid_time q a = (case ev_ctx e of
       Some er \<Rightarrow> Inl er
     | None \<Rightarrow> (case require_inbox a of
         Inl er \<Rightarrow> Inl er
       | Inr m \<Rightarrow> (case memory_list (ev_io e) ulid_time q m (ib_disk (ev_other e m)) of
           Inl er \<Rightarrow> Inl (PlainE (store_error_text er)) | Inr r \<Rightarrow> Inr r)))"

definition get_message :: "app_env \<Rightarrow> bytes \<Rightarrow> bool \<Rightarrow> app \<Rightarrow> (go_error + message) \<times> app" where
  "get_message e mid mark a = (case ev_ctx e of
       Some er \<Rightarrow> (Inl er, a)
     | None \<Rightarrow> (case require_inbox a of
         Inl er \<Rightarrow> (Inl er, a)
       | Inr m \<Rightarrow> (let m2 = ev_other e m; (r, m3) = memory_get (ev_io e) mid mark m (ib_disk m2) m2; a1 = a \<lparr> ap_inbox := Some m3 \<rparr>
           in (case r of Inl er \<Rightarrow> (Inl (map_store_err er), a1) | Inr msg \<Rightarrow> (Inr msg, a1)))))"

section \<open>Deletions and read marks\<close>

definition message_event :: "app_env \<Rightarrow> actor \<Rightarrow> bytes \<Rightarrow> bytes \<Rightarrow> nat \<Rightarrow> audit_event" where
  "message_event e ac cap mid sgen = \<lparr> au_id = [], au_time = ev_now e, au_actor = ac_id ac, au_class = ac_class ac,
     au_transport = ac_transport ac, au_capability = cap, au_reason = [], au_message = mid, au_previous = [], au_revision = [],
     au_store_generation = sgen, au_result = ''ok'', au_error_code = [], au_diff = [] \<rparr>"

definition delete_message :: "app_env \<Rightarrow> actor \<Rightarrow> bytes \<Rightarrow> nat option \<Rightarrow> app \<Rightarrow> go_error option \<times> app" where
  "delete_message e ac mid expected a = (case ev_ctx e of
       Some er \<Rightarrow> (Some er, a)
     | None \<Rightarrow> (case require_inbox a of
         Inl er \<Rightarrow> (Some er, a)
       | Inr m \<Rightarrow> (case match_store_generation expected a of
           Some er \<Rightarrow> (Some er, a)
         | None \<Rightarrow> (case memory_delete (ev_io e) mid (ev_other e m) of
             (Some er, m1) \<Rightarrow> (Some (map_store_err er), a \<lparr> ap_inbox := Some m1 \<rparr>)
           | (None, m1) \<Rightarrow> (None, snd (record_audit e (message_event e ac ''messages.delete'' mid (ib_generation m1))
               (a \<lparr> ap_inbox := Some m1 \<rparr>)))))))"

definition clear_messages :: "app_env \<Rightarrow> actor \<Rightarrow> nat option \<Rightarrow> app \<Rightarrow> (go_error + nat) \<times> app" where
  "clear_messages e ac expected a = (case ev_ctx e of
       Some er \<Rightarrow> (Inl er, a)
     | None \<Rightarrow> (case require_inbox a of
         Inl er \<Rightarrow> (Inl er, a)
       | Inr m \<Rightarrow> (case match_store_generation expected a of
           Some er \<Rightarrow> (Inl er, a)
         | None \<Rightarrow> (let (n, m1) = delete_all (ev_io e) (ev_other e m) in
             (Inr n, snd (record_audit e (message_event e ac ''messages.clear'' [] (ib_generation m1)) (a \<lparr> ap_inbox := Some m1 \<rparr>)))))))"

definition app_mark_read :: "app_env \<Rightarrow> bytes \<Rightarrow> app \<Rightarrow> go_error option \<times> app" where
  "app_mark_read e mid a = (case ev_ctx e of
       Some er \<Rightarrow> (Some er, a)
     | None \<Rightarrow> (case require_inbox a of
         Inl er \<Rightarrow> (Some er, a)
       | Inr m \<Rightarrow> (let (er, m1) = mark_read mid m in (map_option map_store_err er, a \<lparr> ap_inbox := Some m1 \<rparr>))))"

definition app_mark_all_read :: "app_env \<Rightarrow> app \<Rightarrow> (go_error + nat) \<times> app" where
  "app_mark_all_read e a = (case ev_ctx e of
       Some er \<Rightarrow> (Inl er, a)
     | None \<Rightarrow> (case require_inbox a of
         Inl er \<Rightarrow> (Inl er, a)
       | Inr m \<Rightarrow> (let (n, m1) = mark_all_read m in (Inr n, a \<lparr> ap_inbox := Some m1 \<rparr>))))"

section \<open>Waiting\<close>

definition wait_timed_out :: go_error where
  "wait_timed_out = domain_e (new_error Timeout ''wait timed out'')"

text \<open>
  How long the store is waited on: the request's timeout or the default, capped by the configured
  maximum and by what is left of the request's own deadline.  \<open>None\<close> is a deadline that has passed.
\<close>

definition wait_timeout :: "int \<Rightarrow> int option \<Rightarrow> app \<Rightarrow> int option" where
  "wait_timeout requested remain a =
     (let t0 = (if requested \<le> 0 then 10 * 1000000000 else requested);
          mx = (case ns_active (ap_snaps a) of
              None \<Rightarrow> 60 * 1000000000
            | Some s \<Rightarrow> (let w = ss_max_wait (sp_store (sd_spec (sn_canonical s))) in if w > 0 then w else 60 * 1000000000));
          t1 = (if t0 > mx then mx else t0)
      in case remain of
          None \<Rightarrow> Some t1
        | Some r \<Rightarrow> if r \<le> 0 then None else Some (if r < t1 then r else t1))"

text \<open>
  \<open>ev_ctx\<close> is what \<^verbatim>\<open>ctx.Err\<close> says before the wait and \<open>cancelled\<close> whether that error is a deadline or a
  cancellation; \<open>observe\<close> gives what the loop sees of the inbox until the timeout.
\<close>

definition app_wait :: "app_env \<Rightarrow> bool \<Rightarrow> int \<Rightarrow> int option \<Rightarrow> message_filter \<Rightarrow> (int \<Rightarrow> wait_obs list) \<Rightarrow> app \<Rightarrow>
    (go_error + message) option" where
  "app_wait e cancelled requested remain f observe a = (case ev_ctx e of
       Some er \<Rightarrow> Some (Inl (if cancelled then wait_timed_out else er))
     | None \<Rightarrow> (case require_inbox a of
         Inl er \<Rightarrow> Some (Inl er)
       | Inr m \<Rightarrow> (case wait_timeout requested remain a of
           None \<Rightarrow> Some (Inl wait_timed_out)
         | Some t \<Rightarrow> map_option (\<lambda>r. case r of
               Inl er \<Rightarrow> Inl (if er = ErrCtx then wait_timed_out else map_store_err er)
             | Inr msg \<Rightarrow> Inr msg) (wait_loop (ev_io e) f m (observe t)))))"

section \<open>Audit queries\<close>

definition query_audit :: "app_env \<Rightarrow> int \<Rightarrow> app \<Rightarrow> go_error + audit_event list" where
  "query_audit e limit a = (case ev_ctx e of
       Some er \<Rightarrow> Inl er | None \<Rightarrow> Inr (ring_list limit (fo_ring (ap_audit a))))"

definition get_audit :: "app_env \<Rightarrow> bytes \<Rightarrow> app \<Rightarrow> go_error + audit_event" where
  "get_audit e aid a = (case ev_ctx e of
       Some er \<Rightarrow> Inl er
     | None \<Rightarrow> (case ring_get aid (fo_ring (ap_audit a)) of
         None \<Rightarrow> Inl (domain_e (new_error NotFound (''audit event '' @ aid @ '' not found''))) | Some ev \<Rightarrow> Inr ev))"

section \<open>Extraction of links and codes\<close>

record patterns =
  px_url_plain :: "bytes \<Rightarrow> bytes list"
  px_url_attr :: "bytes \<Rightarrow> bytes list"
  px_otp_near :: "bytes \<Rightarrow> (bytes \<times> nat) list"
  px_otp_query :: "bytes \<Rightarrow> (bytes \<times> nat) list"

record extracted_token =
  xt_kind :: bytes
  xt_value :: bytes
  xt_context :: bytes

definition extract_url_cap :: nat where "extract_url_cap = 32"
definition extract_token_cap :: nat where "extract_token_cap = 16"
definition extract_ctx_runes :: nat where "extract_ctx_runes = 120"

definition line_at :: "bytes \<Rightarrow> nat \<Rightarrow> bytes" where
  "line_at s idx0 = (let idx = min idx0 (length s);
       start = rev (takeWhile (\<lambda>c. c \<noteq> LF) (rev (take idx s))); rest = takeWhile (\<lambda>c. c \<noteq> LF) (drop idx s)
     in trim_right_by (\<lambda>c. c = CR) (start @ rest))"

text \<open>How many bytes beyond the first one the first rune of a text has: none for a byte that starts no rune.\<close>

definition rune_tail :: "bytes \<Rightarrow> nat" where
  "rune_tail s = (if utf8_valid (take 1 s) then 0
     else if utf8_valid (take 2 s) then 1
     else if utf8_valid (take 3 s) then 2
     else if utf8_valid (take 4 s) then 3 else 0)"

fun truncate_runes :: "bytes \<Rightarrow> nat \<Rightarrow> bytes" where
  "truncate_runes s 0 = []"
| "truncate_runes [] (Suc n) = []"
| "truncate_runes (c # cs) (Suc n) =
     c # take (rune_tail (c # cs)) cs @ truncate_runes (drop (rune_tail (c # cs)) cs) n"

definition add_url :: "bytes \<Rightarrow> bytes list \<Rightarrow> bytes list" where
  "add_url u urls = (if u = [] \<or> u \<in> set urls \<or> length urls \<ge> extract_url_cap then urls else urls @ [u])"

definition add_token :: "bytes \<Rightarrow> bytes \<Rightarrow> bytes \<times> nat \<Rightarrow> extracted_token list \<Rightarrow> extracted_token list" where
  "add_token kind body hit toks = (let (v, idx) = hit in
     if v = [] \<or> length toks \<ge> extract_token_cap then toks
     else if list_ex (\<lambda>t. xt_kind t = kind \<and> xt_value t = v) toks then toks
     else toks @ [\<lparr> xt_kind = kind, xt_value = v, xt_context = truncate_runes (line_at body idx) extract_ctx_runes \<rparr>])"

definition extract_body :: "patterns \<Rightarrow> bytes \<Rightarrow> extracted_token list \<Rightarrow> extracted_token list" where
  "extract_body px body toks =
     fold (add_token ''otp_query'' body) (px_otp_query px body)
       (fold (add_token ''otp_digits'' body) (px_otp_near px body) toks)"

definition extract_message :: "patterns \<Rightarrow> bytes \<Rightarrow> bytes \<Rightarrow> bytes list \<times> extracted_token list" where
  "extract_message px txt html =
     (fold add_url (px_url_attr px html) (fold add_url (px_url_plain px txt) []),
      extract_body px html (extract_body px txt []))"

definition app_extract :: "app_env \<Rightarrow> patterns \<Rightarrow> bytes \<Rightarrow> app \<Rightarrow>
    (go_error + (bytes list \<times> extracted_token list)) \<times> app" where
  "app_extract e px mid a = (case get_message e mid False a of
       (Inl er, a1) \<Rightarrow> (Inl er, a1)
     | (Inr msg, a1) \<Rightarrow> (Inr (extract_message px (msg_text msg) (msg_html msg)), a1))"

section \<open>Health and status\<close>

record facts =
  ft_process_down :: bool
  ft_smtp_bound :: bool
  ft_store_up :: bool
  ft_mgmt_bound :: bool
  ft_mgmt_off :: bool

record probe =
  pb_live :: bool
  pb_ready :: bool
  pb_warnings :: "(bytes \<times> bytes) list"

definition max_warnings :: nat where "max_warnings = 16"

definition add_warning :: "bytes \<Rightarrow> bytes \<Rightarrow> (bytes \<times> bytes) list \<Rightarrow> (bytes \<times> bytes) list" where
  "add_warning code m ws = (if length ws \<ge> max_warnings then ws else ws @ [(code, m)])"

definition evaluate :: "facts \<Rightarrow> probe" where
  "evaluate f = (let live = \<not> ft_process_down f; mgmt_ok = (ft_mgmt_bound f \<or> ft_mgmt_off f);
       unbound = add_warning ''listener_unbound'' ''a required listener is not bound'';
       w1 = (if ft_smtp_bound f then [] else unbound (add_warning ''smtp_unbound'' ''SMTP listener is not bound'' []));
       w2 = (if ft_store_up f then w1 else add_warning ''store_down'' ''message store is not initialized'' w1);
       w3 = (if mgmt_ok then w2
             else let w = add_warning ''management_unbound'' ''management listener is not bound'' w2 in
               if ft_smtp_bound f then unbound w else w)
     in \<lparr> pb_live = live, pb_ready = (live \<and> ft_smtp_bound f \<and> ft_store_up f \<and> mgmt_ok), pb_warnings = w3 \<rparr>)"

text \<open>The listeners' facts come from a callback when one is set; without one the listeners count as up when
  there is an inbox.\<close>

definition health_facts :: "facts option \<Rightarrow> app \<Rightarrow> facts" where
  "health_facts health a = (let up = (ap_inbox a \<noteq> None) in case health of
       Some f \<Rightarrow> f \<lparr> ft_store_up := up \<rparr>
     | None \<Rightarrow> \<lparr> ft_process_down = False, ft_smtp_bound = up, ft_store_up = up, ft_mgmt_bound = up, ft_mgmt_off = False \<rparr>)"

record status =
  su_ready :: bool
  su_revisions :: revision_status
  su_unread :: nat
  su_epoch :: nat

text \<open>\<open>stamp\<close> renders a time.\<close>

definition app_status :: "app_env \<Rightarrow> facts option \<Rightarrow> (int \<Rightarrow> bytes) \<Rightarrow> app \<Rightarrow> go_error + status" where
  "app_status e health stamp a = (case ev_ctx e of
       Some er \<Rightarrow> Inl er
     | None \<Rightarrow> (case active_snapshot a of
         Inl er \<Rightarrow> Inl er
       | Inr s \<Rightarrow> (let st = map_option memory_stats (ap_inbox a) in Inr
           \<lparr> su_ready = pb_ready (evaluate (health_facts health a)),
             su_revisions = \<lparr> rs_bootstrap = sn_bootstrap s, rs_runtime = sn_revision s, rs_generation = sn_generation s,
               rs_store_generation = (case st of None \<Rightarrow> 0 | Some t \<Rightarrow> st_generation t), rs_drifted = drifted (Some s),
               rs_message_count = (case st of None \<Rightarrow> 0 | Some t \<Rightarrow> st_count t),
               rs_store_bytes = (case st of None \<Rightarrow> 0 | Some t \<Rightarrow> st_bytes t),
               rs_loaded_at = stamp (sn_compiled_at s) \<rparr>,
             su_unread = (case st of None \<Rightarrow> 0 | Some t \<Rightarrow> st_unread t),
             su_epoch = (case st of None \<Rightarrow> 0 | Some t \<Rightarrow> st_epoch t) \<rparr>)))"

section \<open>Lemmas\<close>

text \<open>A message call changes the inbox and the audit log only.\<close>

lemma record_audit_only: "snd (record_audit e ev a) = a \<lparr> ap_audit := ap_audit (snd (record_audit e ev a)) \<rparr>"
  by (simp add: record_audit_def Let_def split: prod.splits)

lemma rune_tail_le: "rune_tail (c # cs) \<le> 3"
  by (simp add: rune_tail_def)

lemma add_token_cap: "length toks \<le> extract_token_cap \<Longrightarrow> length (add_token kind body h toks) \<le> extract_token_cap"
  by (auto simp: add_token_def extract_token_cap_def split: prod.splits)

lemma fold_add_token_cap: "length toks \<le> extract_token_cap \<Longrightarrow> length (fold (add_token kind body) hs toks) \<le> extract_token_cap"
  by (induction hs arbitrary: toks) (auto intro: add_token_cap)

lemma fold_add_url: "length urls \<le> extract_url_cap \<Longrightarrow> distinct urls \<Longrightarrow>
    length (fold add_url us urls) \<le> extract_url_cap \<and> distinct (fold add_url us urls)"
  by (induction us arbitrary: urls) (auto simp: add_url_def extract_url_cap_def)

text \<open>An extraction has at most 32 distinct links and 16 codes, whatever the message holds.\<close>

lemma extract_bounded:
  "length (fst (extract_message px txt html)) \<le> 32 \<and> distinct (fst (extract_message px txt html)) \<and>
    length (snd (extract_message px txt html)) \<le> 16"
proof -
  have "length (snd (extract_message px txt html)) \<le> extract_token_cap"
    unfolding extract_message_def extract_body_def snd_conv by (intro fold_add_token_cap) simp
  moreover have u: "length (fold add_url (px_url_plain px txt) []) \<le> extract_url_cap \<and> distinct (fold add_url (px_url_plain px txt) [])"
    by (intro fold_add_url) simp_all
  moreover have "length (fst (extract_message px txt html)) \<le> extract_url_cap \<and> distinct (fst (extract_message px txt html))"
    unfolding extract_message_def fst_conv using u by (intro fold_add_url) simp_all
  ultimately show ?thesis by (simp add: extract_token_cap_def extract_url_cap_def)
qed

lemma wait_timeout_bound:
  assumes "wait_timeout requested remain a = Some t"
  shows "0 < t \<and> (requested > 0 \<longrightarrow> t \<le> requested) \<and> (\<forall>r. remain = Some r \<longrightarrow> t \<le> r) \<and>
    (\<forall>s. ns_active (ap_snaps a) = Some s \<longrightarrow> 0 < ss_max_wait (sp_store (sd_spec (sn_canonical s))) \<longrightarrow>
      t \<le> ss_max_wait (sp_store (sd_spec (sn_canonical s))))"
  using assms by (auto simp: wait_timeout_def Let_def split: option.splits if_splits)

end
