(* ===== verification/Net_Addr.thy ===== *)
theory Net_Addr
  imports Prelude
begin

text \<open>
  IP addresses as the standard library reads them (\<^verbatim>\<open>net/netip\<close>, \<^verbatim>\<open>net.ParseIP\<close>): the loopback and private
  tests of the authentication code rest on them.  An address is the list of its 4 or 16 bytes.
\<close>

definition hex_val :: "char \<Rightarrow> int option" where
  "hex_val c = (let n = of_char c in
     if 48 \<le> n \<and> n \<le> 57 then Some (n - 48)
     else if 97 \<le> n \<and> n \<le> 102 then Some (n - 87)
     else if 65 \<le> n \<and> n \<le> 70 then Some (n - 55) else None)"

definition v4_field :: "bytes \<Rightarrow> int option" where
  "v4_field s = (let n = foldl (\<lambda>n c. n * 10 + (of_char c - 48)) (0 :: int) s in
     if s \<noteq> [] \<and> list_all is_digit s \<and> (tl s = [] \<or> hd s \<noteq> CHR ''0'') \<and> n \<le> 255 then Some n else None)"

definition parse_v4 :: "bytes \<Rightarrow> int list option" where
  "parse_v4 s = (case map v4_field (split_on (CHR ''.'') s) of
       [Some a, Some b, Some c, Some d] \<Rightarrow> Some [a, b, c, d] | _ \<Rightarrow> None)"

fun hex_group :: "int \<Rightarrow> nat \<Rightarrow> bytes \<Rightarrow> (int \<times> nat \<times> bytes) option" where
  "hex_group acc k [] = Some (acc, k, [])"
| "hex_group acc k (c # cs) = (case hex_val c of
       None \<Rightarrow> Some (acc, k, c # cs)
     | Some v \<Rightarrow> if k > 3 then None else hex_group (acc * 16 + v) (Suc k) cs)"

lemma hex_group_length: "hex_group acc k s = Some (a, n, rest) \<Longrightarrow> length rest + n = length s + k"
  by (induction acc k s rule: hex_group.induct) (auto split: option.splits if_splits)

text \<open>
  The groups of an IPv6 address after an optional leading \<^verbatim>\<open>::\<close>: the bytes read so far, where the
  ellipsis stands among them, and the rest of the text.
\<close>

function v6_groups :: "int list \<Rightarrow> nat option \<Rightarrow> bytes \<Rightarrow> (int list \<times> nat option \<times> bytes) option" where
  "v6_groups bs el s =
     (if length bs \<ge> 16 then Some (bs, el, s)
      else case hex_group 0 0 s of
          None \<Rightarrow> None
        | Some (acc, n, rest) \<Rightarrow>
            if n = 0 then None
            else if rest \<noteq> [] \<and> hd rest = CHR ''.'' then
              (if (el = None \<and> length bs \<noteq> 12) \<or> length bs + 4 > 16 then None
               else case parse_v4 s of None \<Rightarrow> None | Some v \<Rightarrow> Some (bs @ v, el, []))
            else let bs1 = bs @ [acc div 256, acc mod 256] in
              if rest = [] then Some (bs1, el, [])
              else if hd rest \<noteq> CHR '':'' \<or> length rest = 1 then None
              else if hd (tl rest) = CHR '':'' then
                (if el \<noteq> None then None
                 else if length rest = 2 then Some (bs1, Some (length bs1), [])
                 else v6_groups bs1 (Some (length bs1)) (drop 2 rest))
              else v6_groups bs1 el (tl rest))"
  by pat_completeness auto
termination by (relation "measure (\<lambda>(bs, el, s). 16 - length bs)") auto

declare v6_groups.simps [simp del]

definition v6_expand :: "int list \<Rightarrow> nat option \<Rightarrow> int list option" where
  "v6_expand bs el = (if length bs < 16 then (case el of
         None \<Rightarrow> None | Some e \<Rightarrow> Some (take e bs @ replicate (16 - length bs) 0 @ drop e bs))
     else if el \<noteq> None then None else Some bs)"

text \<open>The bytes and the zone.\<close>

definition parse_v6 :: "bytes \<Rightarrow> (int list \<times> bytes) option" where
  "parse_v6 inp = (let (s, zone, has_zone) = cut (CHR ''%'') inp in
     if has_zone \<and> zone = [] then None
     else if s = ''::'' then Some (replicate 16 0, zone)
     else let lead = has_prefix ''::'' s in
       case v6_groups [] (if lead then Some 0 else None) (if lead then drop 2 s else s) of
           None \<Rightarrow> None
         | Some (bs, el, rest) \<Rightarrow> if rest \<noteq> [] then None
             else (case v6_expand bs el of None \<Rightarrow> None | Some a \<Rightarrow> Some (a, zone)))"

text \<open>\<^verbatim>\<open>netip.ParseAddr\<close> decides by the first of the three characters it meets.\<close>

definition parse_addr :: "bytes \<Rightarrow> (int list \<times> bytes) option" where
  "parse_addr s = (case find (\<lambda>c. c \<in> {CHR ''.'', CHR '':'', CHR ''%''}) s of
       Some c \<Rightarrow> if c = CHR ''.'' then map_option (\<lambda>a. (a, [])) (parse_v4 s)
         else if c = CHR '':'' then parse_v6 s else None
     | None \<Rightarrow> None)"

definition parse_ip :: "bytes \<Rightarrow> int list option" where
  "parse_ip s = (case parse_addr s of Some (a, []) \<Rightarrow> Some a | _ \<Rightarrow> None)"

definition unmap :: "int list \<Rightarrow> int list" where
  "unmap a = (if length a = 16 \<and> take 12 a = replicate 10 0 @ [255, 255] then drop 12 a else a)"

definition ip_loopback :: "int list \<Rightarrow> bool" where
  "ip_loopback a = (let u = unmap a in if length u = 4 then u ! 0 = 127 else u = replicate 15 0 @ [1])"

definition ip_private :: "int list \<Rightarrow> bool" where
  "ip_private a = (let u = unmap a in
     if length u = 4 then u ! 0 = 10 \<or> (u ! 0 = 172 \<and> u ! 1 div 16 = 1) \<or> (u ! 0 = 192 \<and> u ! 1 = 168)
     else length u = 16 \<and> u ! 0 div 2 = 126)"

section \<open>Lemmas\<close>

lemma parse_v4_length: "parse_v4 s = Some a \<Longrightarrow> length a = 4"
  by (auto simp: parse_v4_def split: list.splits option.splits)

lemma v6_groups_le: "v6_groups bs el s = Some (bs', el', rest) \<Longrightarrow> length bs \<le> 16 \<Longrightarrow> even (length bs) \<Longrightarrow>
    length bs' \<le> 16"
proof (induction bs el s rule: v6_groups.induct)
  case (1 bs el s)
  have ev: "length bs < 16 \<Longrightarrow> length bs + 2 \<le> 16" using 1(5) by presburger
  show ?case
  proof (cases "length bs \<ge> 16")
    case True
    then show ?thesis using 1(3,4) by (simp add: v6_groups.simps)
  next
    case False
    then obtain acc n r where h: "hex_group 0 0 s = Some (acc, n, r)" "n \<noteq> 0"
      using 1(3) by (subst (asm) v6_groups.simps) (auto split: option.splits if_splits)
    note IH1 = 1(1)[OF False h(1) refl refl] and IH2 = 1(2)[OF False h(1) refl refl]
    show ?thesis
      using 1(3) False h ev IH1 IH2 1(5)
      by (subst (asm) v6_groups.simps) (auto simp: Let_def split: option.splits if_splits dest: parse_v4_length)
  qed
qed

text \<open>An expanded IPv6 address has 16 bytes.\<close>

lemma v6_expand_length: "v6_expand bs el = Some a \<Longrightarrow> length bs \<le> 16 \<Longrightarrow> (\<And>e. el = Some e \<Longrightarrow> e \<le> length bs) \<Longrightarrow> length a = 16"
  by (auto simp: v6_expand_def split: if_splits option.splits)

lemma loopback_examples:
  "map_option ip_loopback (parse_ip ''127.0.0.1'') = Some True" "map_option ip_loopback (parse_ip ''::1'') = Some True"
  "map_option ip_loopback (parse_ip ''::ffff:127.0.0.1'') = Some True" "map_option ip_loopback (parse_ip ''10.0.0.1'') = Some False"
  "parse_ip ''127.0.0.01'' = None" "parse_ip ''1.2.3'' = None" "parse_ip ''1::2::3'' = None"
  "map_option ip_private (parse_ip ''fd00::1'') = Some True" "map_option ip_private (parse_ip ''172.31.0.9'') = Some True"
  by code_simp+

end
