(* ===== verification/Auth_Verifier.thy ===== *)
theory Auth_Verifier
  imports Config_Validate Net_Addr Smtp_Args
begin

text \<open>
  Authentication of the control plane (\<^verbatim>\<open>internal/auth\<close>): the verifier compiled from the configuration, bearer
  tokens, HTTP Basic and the unauthenticated loopback mode, scopes, and the origin check.  SHA-256 is
  the argument \<open>dg\<close>, URL parsing the argument of the origin check.  Locks and the loops that
  compare in constant time are sequential code here; hooks of \<^verbatim>\<open>OnIdentityChange\<close> are what \<open>replace\<close>
  reports.
\<close>

declare split_paired_All [simp del] split_paired_Ex [simp del]

section \<open>Principals and scopes\<close>

record principal =
  pr_id :: bytes
  pr_class :: bytes
  pr_role :: bytes
  pr_scopes :: "bytes list"

definition has_scope :: "bytes list \<Rightarrow> bytes \<Rightarrow> bool" where
  "has_scope scopes want = (want = [] \<or> list_ex (\<lambda>s. s = ''mail.admin'' \<or> s = want) scopes)"

definition forbidden :: "bytes \<Rightarrow> domain_error" where
  "forbidden m = new_error Forbidden m"

fun authorize_scopes :: "bytes list \<Rightarrow> bytes list \<Rightarrow> domain_error option" where
  "authorize_scopes scopes [] = None"
| "authorize_scopes scopes (want # wanted) =
     (if has_scope scopes want then authorize_scopes scopes wanted else Some (forbidden (''missing scope '' @ want)))"

definition all_scopes :: "bytes list" where
  "all_scopes = [''mail.read'', ''mail.write'', ''mail.admin'', ''mail.audit.read'']"

definition default_scopes :: "bytes \<Rightarrow> bytes list" where
  "default_scopes role =
     (if role = ''viewer'' then [''mail.read'']
      else if role = ''operator'' then [''mail.read'', ''mail.write'']
      else if role = ''administrator'' then all_scopes else [])"

definition expand_scopes :: "bytes \<Rightarrow> bytes list \<Rightarrow> bytes \<times> bytes list" where
  "expand_scopes role scopes = (let role1 = (if role = [] then ''administrator'' else role) in
     (role1, if scopes \<noteq> [] then scopes else default_scopes role1))"

section \<open>Compiling a verifier\<close>

record stored_token =
  vt_id :: bytes
  vt_role :: bytes
  vt_scopes :: "bytes list"
  vt_digest :: bytes

record basic_cred =
  bc_username :: bytes
  bc_password :: bytes
  bc_index :: nat

record verifier =
  vf_mode :: bytes
  vf_tokens :: "stored_token list"
  vf_basic :: "basic_cred option"

definition auth_violation :: "bytes \<Rightarrow> bytes \<Rightarrow> bytes \<Rightarrow> bytes \<Rightarrow> domain_error" where
  "auth_violation title path code m = validation_failed title [violation (''spec.management.auth.'' @ path) code m]"

definition token_index :: "bytes \<Rightarrow> stored_token list \<Rightarrow> nat option" where
  "token_index k ts = (case dropWhile (\<lambda>i. vt_id (ts ! i) \<noteq> k) [0..<length ts] of [] \<Rightarrow> None | i # is \<Rightarrow> Some i)"

definition compile_token :: "file_world \<Rightarrow> (bytes \<Rightarrow> bytes) \<Rightarrow> token_spec \<Rightarrow> stored_token list \<Rightarrow>
    domain_error + stored_token" where
  "compile_token fw dg tok done1 = (let path = (\<lambda>f. index_path ''tokens'' (length done1) @ f); key = trim_space (tk_id tok) in
     if key = [] then Inl (auth_violation ''token id is required'' (path ''.id'') ''empty_id'' ''token id is required'')
     else if list_ex (\<lambda>t. vt_id t = key) done1
     then Inl (auth_violation ''duplicate token id'' (path ''.id'') ''duplicate_id'' ''duplicate token id'')
     else case read_secret_file fw (tk_secret_file tok) of
         SecretLine raw \<Rightarrow>
           if length raw < min_token_bytes
           then Inl (auth_violation ''token entropy is below 256 bits'' (path ''.secretFile'') ''invalid_value''
             ''token secret must be at least 32 bytes'')
           else (case find (\<lambda>t. vt_digest t = dg raw) done1 of
               Some other \<Rightarrow> Inl (auth_violation ''duplicate token value'' (path ''.secretFile'') ''duplicate_id''
                 (''token value matches '' @ vt_id other))
             | None \<Rightarrow>
                 if tk_role tok \<noteq> [] \<and> \<not> known_role (tk_role tok)
                 then Inl (auth_violation ''unknown role'' (path ''.role'') ''invalid_value''
                   ''role must be viewer, operator, or administrator'')
                 else let (role, scopes) = expand_scopes (tk_role tok) (tk_scopes tok)
                      in Inr \<lparr> vt_id = key, vt_role = role, vt_scopes = scopes, vt_digest = dg raw \<rparr>)
       | _ \<Rightarrow> Inl (auth_violation ''token secret is unavailable'' (path ''.secretFile'') ''unresolved_reference''
             (''token secret file does not resolve: '' @ tk_secret_file tok)))"

fun compile_tokens :: "file_world \<Rightarrow> (bytes \<Rightarrow> bytes) \<Rightarrow> token_spec list \<Rightarrow> stored_token list \<Rightarrow>
    domain_error + stored_token list" where
  "compile_tokens fw dg [] done1 = Inr done1"
| "compile_tokens fw dg (tok # toks) done1 = (case compile_token fw dg tok done1 of
       Inl er \<Rightarrow> Inl er | Inr t \<Rightarrow> compile_tokens fw dg toks (done1 @ [t]))"

definition compile_basic :: "file_world \<Rightarrow> (bytes \<Rightarrow> bytes) \<Rightarrow> bytes \<Rightarrow> basic_spec \<Rightarrow> stored_token list \<Rightarrow>
    domain_error + basic_cred option" where
  "compile_basic fw dg mode b toks =
     (if mode \<noteq> ''bearer_and_basic'' \<or> trim_space (bs_username b) = [] then Inr None
      else case token_index (trim_space (bs_token_ref b)) toks of
          None \<Rightarrow> Inl (auth_violation ''basic.tokenRef does not match a token id'' ''basic.tokenRef'' ''unresolved_reference''
            ''basic.tokenRef does not match a token id'')
        | Some i \<Rightarrow> (case read_secret_file fw (bs_password_file b) of
              SecretLine pw \<Rightarrow>
                if pw = [] then Inl (auth_violation ''basic password is empty'' ''basic.passwordFile'' ''required''
                  ''basic password is empty'')
                else Inr (Some \<lparr> bc_username = trim_space (bs_username b), bc_password = dg pw, bc_index = i \<rparr>)
            | _ \<Rightarrow> Inl (auth_violation ''basic password is unavailable'' ''basic.passwordFile'' ''unresolved_reference''
                  (''basic password file does not resolve: '' @ bs_password_file b))))"

definition from_spec :: "file_world \<Rightarrow> (bytes \<Rightarrow> bytes) \<Rightarrow> mgmt_auth \<Rightarrow> domain_error + verifier" where
  "from_spec fw dg sp = (let m = trim_space (ma_mode sp); mode = (if m = [] then ''bearer_and_basic'' else m) in
     if mode \<notin> {''bearer'', ''bearer_and_basic'', ''dev-loopback-unauth''}
     then Inl (auth_violation ''unknown auth mode'' ''mode'' ''invalid_value'' ''unknown auth mode'')
     else case compile_tokens fw dg (ma_tokens sp) [] of
         Inl er \<Rightarrow> Inl er
       | Inr toks \<Rightarrow> (case compile_basic fw dg mode (ma_basic sp) toks of
           Inl er \<Rightarrow> Inl er
         | Inr b \<Rightarrow> Inr \<lparr> vf_mode = mode, vf_tokens = toks, vf_basic = b \<rparr>))"

definition preflight :: "file_world \<Rightarrow> (bytes \<Rightarrow> bytes) \<Rightarrow> mgmt_auth \<Rightarrow> domain_error option" where
  "preflight fw dg sp = (case from_spec fw dg sp of Inl er \<Rightarrow> Some er | Inr v \<Rightarrow> None)"

section \<open>Replacing a verifier\<close>

definition same_scopes :: "bytes list \<Rightarrow> bytes list \<Rightarrow> bool" where
  "same_scopes a b = (sort a = sort b)"

text \<open>The index by id keeps the last token of an id, as the Go map does.\<close>

definition equivalent :: "verifier \<Rightarrow> verifier \<Rightarrow> bool" where
  "equivalent v w = (vf_mode v = vf_mode w \<and> length (vf_tokens v) = length (vf_tokens w) \<and>
     list_all (\<lambda>t. case find (\<lambda>x. vt_id x = vt_id t) (rev (vf_tokens v)) of
         None \<Rightarrow> False
       | Some got \<Rightarrow> vt_digest got = vt_digest t \<and> vt_role got = vt_role t \<and> same_scopes (vt_scopes got) (vt_scopes t))
       (vf_tokens w) \<and>
     (case (vf_basic v, vf_basic w) of
         (None, None) \<Rightarrow> True
       | (Some a, Some b) \<Rightarrow> bc_username a = bc_username b \<and> bc_index a = bc_index b \<and> bc_password a = bc_password b
       | _ \<Rightarrow> False))"

text \<open>The new verifier and whether the hooks run.\<close>

definition replace_verifier :: "verifier \<Rightarrow> verifier \<Rightarrow> verifier \<times> bool" where
  "replace_verifier nxt v = (nxt, \<not> equivalent v nxt)"

definition basic_enabled :: "verifier \<Rightarrow> bool" where
  "basic_enabled v = (vf_mode v = ''bearer_and_basic'' \<and> vf_basic v \<noteq> None)"

section \<open>Authenticating a request\<close>

record auth_request =
  rq_authorization :: bytes
  rq_remote :: bytes
  rq_allow_basic :: bool

definition unauthenticated :: domain_error where
  "unauthenticated = new_error Unauthenticated ''authentication required''"

definition is_loopback :: "bytes \<Rightarrow> bool" where
  "is_loopback remote = (let h0 = trim_space remote; host = (case split_host_port h0 of Some (h, p) \<Rightarrow> h | None \<Rightarrow> h0) in
     host = ''localhost'' \<or> (case parse_addr host of Some (a, zone) \<Rightarrow> ip_loopback a | None \<Rightarrow> False))"

definition principal_of :: "stored_token \<Rightarrow> principal" where
  "principal_of t = \<lparr> pr_id = vt_id t, pr_class = ''token'', pr_role = vt_role t, pr_scopes = vt_scopes t \<rparr>"

definition loopback_principal :: principal where
  "loopback_principal = \<lparr> pr_id = ''loopback'', pr_class = ''loopback'', pr_role = ''administrator'', pr_scopes = all_scopes \<rparr>"

text \<open>The scan keeps the number of matches and the last of them.\<close>

fun scan_tokens :: "bytes \<Rightarrow> stored_token list \<Rightarrow> nat \<Rightarrow> stored_token option \<Rightarrow> nat \<times> stored_token option" where
  "scan_tokens d [] found hit = (found, hit)"
| "scan_tokens d (t # ts) found hit =
     (if vt_digest t = d then scan_tokens d ts (Suc found) (Some t) else scan_tokens d ts found hit)"

definition lookup_bearer :: "(bytes \<Rightarrow> bytes) \<Rightarrow> verifier \<Rightarrow> bytes \<Rightarrow> domain_error + principal" where
  "lookup_bearer dg v secret =
     (if secret = [] \<or> SP \<in> set secret \<or> TAB \<in> set secret then Inl unauthenticated
      else case scan_tokens (dg secret) (vf_tokens v) 0 None of
          (Suc 0, Some t) \<Rightarrow> Inr (principal_of t)
        | _ \<Rightarrow> Inl unauthenticated)"

definition parse_basic :: "bytes \<Rightarrow> (bytes \<times> bytes) option" where
  "parse_basic payload =
     (case (case b64_decode True payload of
         Some raw \<Rightarrow> Some raw
       | None \<Rightarrow> b64_decode True (payload @ replicate ((4 - length payload mod 4) mod 4) (CHR ''=''))) of
       None \<Rightarrow> None
     | Some raw \<Rightarrow> (let (u, p, ok) = cut (CHR '':'') raw in if ok then Some (u, p) else None))"

definition lookup_basic :: "(bytes \<Rightarrow> bytes) \<Rightarrow> verifier \<Rightarrow> bytes \<Rightarrow> domain_error + principal" where
  "lookup_basic dg v payload =
     (let (want_user, want_pass, i) = (case vf_basic v of None \<Rightarrow> ([], dg [], 0) | Some b \<Rightarrow> (bc_username b, bc_password b, bc_index b))
      in case parse_basic payload of
          None \<Rightarrow> Inl unauthenticated
        | Some (user, pass) \<Rightarrow>
            if dg user = dg want_user \<and> dg pass = want_pass \<and> i < length (vf_tokens v)
            then Inr (principal_of (vf_tokens v ! i)) else Inl unauthenticated)"

definition authenticate :: "(bytes \<Rightarrow> bytes) \<Rightarrow> verifier option \<Rightarrow> auth_request \<Rightarrow> domain_error + principal" where
  "authenticate dg vo rq = (case vo of
       None \<Rightarrow> Inl unauthenticated
     | Some v \<Rightarrow> (let h = trim_space (rq_authorization rq) in
         if h = [] then
           (if vf_mode v = ''dev-loopback-unauth'' \<and> is_loopback (rq_remote rq) then Inr loopback_principal
            else Inl unauthenticated)
         else let (scheme, rest0, ok) = cut SP h; rest = trim_space rest0 in
           if \<not> ok then Inl unauthenticated
           else if equal_fold scheme ''Bearer'' then lookup_bearer dg v rest
           else if equal_fold scheme ''Basic'' then
             (if \<not> rq_allow_basic rq \<or> vf_basic v = None \<or> vf_mode v \<noteq> ''bearer_and_basic'' then Inl unauthenticated
              else lookup_basic dg v rest)
           else Inl unauthenticated))"

definition authenticate_bearer :: "(bytes \<Rightarrow> bytes) \<Rightarrow> verifier option \<Rightarrow> bytes \<Rightarrow> domain_error + principal" where
  "authenticate_bearer dg vo secret = (case vo of None \<Rightarrow> Inl unauthenticated | Some v \<Rightarrow> lookup_bearer dg v (trim_space secret))"

section \<open>Origins\<close>

definition is_loopback_host :: "bytes \<Rightarrow> bool" where
  "is_loopback_host host = (let h = trim_space host in
     h = ''localhost'' \<or> (case parse_ip h of Some a \<Rightarrow> ip_loopback a | None \<Rightarrow> False))"

definition is_private_origin_host :: "bytes \<Rightarrow> bool" where
  "is_private_origin_host host = (case parse_ip (trim_space host) of Some a \<Rightarrow> ip_private a | None \<Rightarrow> False)"

definition origin_matches :: "bytes \<Rightarrow> bytes \<Rightarrow> bool" where
  "origin_matches got want = (let norm = (\<lambda>s. trim_right_by (\<lambda>c. c = CHR ''/'') (trim_space s)) in equal_fold (norm got) (norm want))"

definition check_origin :: "(bytes \<Rightarrow> url option) \<Rightarrow> bytes \<Rightarrow> bytes list \<Rightarrow> domain_error option" where
  "check_origin url_parse origin0 allowlist = (let origin = trim_space origin0; no = Some (forbidden ''origin is not allowed'') in
     if origin = [] then None
     else case url_parse origin of
         None \<Rightarrow> no
       | Some u \<Rightarrow>
           if url_host u = [] then no
           else if to_lower (url_scheme u) \<noteq> ''http'' \<and> to_lower (url_scheme u) \<noteq> ''https'' then no
           else if is_loopback_host (url_hostname u) then None
           else if list_ex (\<lambda>allowed. let raw = trim_space allowed in
               raw = ''*'' \<or> (equal_fold raw ''private'' \<and> is_private_origin_host (url_hostname u)) \<or>
               origin_matches origin allowed) allowlist then None
           else no)"

section \<open>What a compiled verifier holds\<close>

definition token_compiled :: "file_world \<Rightarrow> (bytes \<Rightarrow> bytes) \<Rightarrow> token_spec \<Rightarrow> stored_token \<Rightarrow> bool" where
  "token_compiled fw dg tok t = (\<exists>l. read_secret_file fw (tk_secret_file tok) = SecretLine l \<and> min_token_bytes \<le> length l \<and>
     t = \<lparr> vt_id = token_id tok, vt_role = fst (expand_scopes (tk_role tok) (tk_scopes tok)),
       vt_scopes = snd (expand_scopes (tk_role tok) (tk_scopes tok)), vt_digest = dg l \<rparr>)"

lemma compile_token_sound:
  assumes "compile_token fw dg tok ts = Inr t"
  shows "token_compiled fw dg tok t \<and> vt_id t \<notin> vt_id ` set ts \<and> vt_digest t \<notin> vt_digest ` set ts"
  using assms
  by (auto simp: compile_token_def token_compiled_def token_id_def Let_def list_ex_iff find_None_iff
      split: if_splits secret_line.splits option.splits prod.splits)

lemma compile_tokens_sound:
  "compile_tokens fw dg toks done1 = Inr ts \<Longrightarrow> distinct (map vt_id done1) \<Longrightarrow> distinct (map vt_digest done1) \<Longrightarrow>
    \<exists>new. ts = done1 @ new \<and> list_all2 (token_compiled fw dg) toks new \<and> distinct (map vt_id ts) \<and> distinct (map vt_digest ts)"
proof (induction toks arbitrary: done1)
  case (Cons tok toks)
  then obtain t where t: "compile_token fw dg tok done1 = Inr t" "compile_tokens fw dg toks (done1 @ [t]) = Inr ts"
    by (auto split: sum.splits)
  note cs = compile_token_sound[OF t(1)]
  obtain new where "ts = (done1 @ [t]) @ new" "list_all2 (token_compiled fw dg) toks new" "distinct (map vt_id ts)"
    "distinct (map vt_digest ts)"
    using Cons.IH[OF t(2)] Cons.prems(2,3) cs by auto
  then show ?case using cs by (intro exI[of _ "t # new"]) simp
qed simp

lemma token_index_Some: "token_index k ts = Some i \<Longrightarrow> i < length ts \<and> vt_id (ts ! i) = k"
proof -
  assume a: "token_index k ts = Some i"
  let ?d = "dropWhile (\<lambda>i. vt_id (ts ! i) \<noteq> k) [0..<length ts]"
  obtain js where d: "?d = i # js" using a by (auto simp: token_index_def split: list.splits)
  then have "i \<in> set [0..<length ts]" by (metis list.set_intros(1) set_dropWhileD)
  moreover have "vt_id (ts ! i) = k" using hd_dropWhile[of "\<lambda>i. vt_id (ts ! i) \<noteq> k" "[0..<length ts]"] d by force
  ultimately show ?thesis by simp
qed

text \<open>The Basic credential of a verifier: the configured name, the digest of the password file's line, and
  the token that \<^verbatim>\<open>tokenRef\<close> names.\<close>

definition basic_compiled :: "file_world \<Rightarrow> (bytes \<Rightarrow> bytes) \<Rightarrow> basic_spec \<Rightarrow> stored_token list \<Rightarrow> basic_cred \<Rightarrow> bool" where
  "basic_compiled fw dg b ts bc = (bc_username bc = trim_space (bs_username b) \<and> bc_username bc \<noteq> [] \<and>
     (\<exists>pw. read_secret_file fw (bs_password_file b) = SecretLine pw \<and> bc_password bc = dg pw) \<and>
     bc_index bc < length ts \<and> vt_id (ts ! bc_index bc) = trim_space (bs_token_ref b))"

lemma from_spec_sound:
  assumes "from_spec fw dg sp = Inr v"
  shows "list_all2 (token_compiled fw dg) (ma_tokens sp) (vf_tokens v) \<and> distinct (map vt_id (vf_tokens v)) \<and>
    distinct (map vt_digest (vf_tokens v)) \<and> pred_option (basic_compiled fw dg (ma_basic sp) (vf_tokens v)) (vf_basic v) \<and>
    (vf_basic v \<noteq> None \<longrightarrow> vf_mode v = ''bearer_and_basic'') \<and>
    vf_mode v = (if trim_space (ma_mode sp) = [] then ''bearer_and_basic'' else trim_space (ma_mode sp))"
proof -
  let ?m = "if trim_space (ma_mode sp) = [] then ''bearer_and_basic'' else trim_space (ma_mode sp)"
  obtain toks b where c: "compile_tokens fw dg (ma_tokens sp) [] = Inr toks" "compile_basic fw dg ?m (ma_basic sp) toks = Inr b"
    "v = \<lparr> vf_mode = ?m, vf_tokens = toks, vf_basic = b \<rparr>"
    using assms by (auto simp: from_spec_def Let_def split: if_splits sum.splits)
  have "pred_option (basic_compiled fw dg (ma_basic sp) toks) b \<and> (b \<noteq> None \<longrightarrow> ?m = ''bearer_and_basic'')"
    using c(2) by (auto simp: compile_basic_def basic_compiled_def split: if_splits option.splits secret_line.splits
        dest: token_index_Some)
  then show ?thesis using compile_tokens_sound[OF c(1)] c(3) by auto
qed

lemma scan_tokens_absent: "d \<notin> vt_digest ` set ts \<Longrightarrow> scan_tokens d ts n hit = (n, hit)"
  by (induction ts arbitrary: n hit) auto

lemma scan_tokens_hit: "scan_tokens d ts n hit = (m, Some t) \<Longrightarrow> (t \<in> set ts \<and> vt_digest t = d) \<or> hit = Some t"
  by (induction ts arbitrary: n hit) (auto split: if_splits)

lemma scan_tokens_distinct:
  "t \<in> set ts \<Longrightarrow> vt_digest t = d \<Longrightarrow> distinct (map vt_digest ts) \<Longrightarrow> scan_tokens d ts 0 None = (Suc 0, Some t)"
proof (induction ts)
  case (Cons x ts)
  then show ?case using scan_tokens_absent[of d ts "Suc 0"] by (cases "x = t") (auto simp: rev_image_eqI)
qed simp

lemma lookup_bearer_iff:
  assumes "distinct (map vt_digest (vf_tokens v))"
  shows "lookup_bearer dg v secret = Inr p \<longleftrightarrow>
    secret \<noteq> [] \<and> SP \<notin> set secret \<and> TAB \<notin> set secret \<and> (\<exists>t \<in> set (vf_tokens v). vt_digest t = dg secret \<and> p = principal_of t)"
proof
  assume l: "lookup_bearer dg v secret = Inr p"
  then obtain t where "scan_tokens (dg secret) (vf_tokens v) 0 None = (Suc 0, Some t)" "p = principal_of t"
    by (auto simp: lookup_bearer_def split: if_splits prod.splits nat.splits option.splits)
  then show "secret \<noteq> [] \<and> SP \<notin> set secret \<and> TAB \<notin> set secret \<and> (\<exists>t \<in> set (vf_tokens v). vt_digest t = dg secret \<and> p = principal_of t)"
    using scan_tokens_hit[of "dg secret" "vf_tokens v" 0 None "Suc 0" t] l by (auto simp: lookup_bearer_def split: if_splits)
next
  assume "secret \<noteq> [] \<and> SP \<notin> set secret \<and> TAB \<notin> set secret \<and> (\<exists>t \<in> set (vf_tokens v). vt_digest t = dg secret \<and> p = principal_of t)"
  then show "lookup_bearer dg v secret = Inr p"
    using scan_tokens_distinct[OF _ _ assms] by (auto simp: lookup_bearer_def)
qed

end
