(* ===== verification/Auth_Sessions.thy ===== *)
theory Auth_Sessions
  imports Auth_Verifier
begin

text \<open>
  The table of UI sessions (\<^verbatim>\<open>internal/auth/session.go\<close>).  Times are nanoseconds; the clock and the random
  cookie, CSRF secret and public id are arguments.  The table is an association list, so the
  iteration order of the Go map is the order of the list.
\<close>

declare map_of_eq_Some_iff [simp del]

record session_config =
  sc_idle :: int
  sc_absolute :: int
  sc_max :: int

definition default_session_config :: session_config where
  "default_session_config = \<lparr> sc_idle = 4 * 3600 * 1000000000, sc_absolute = 12 * 3600 * 1000000000, sc_max = 64 \<rparr>"

record ui_session =
  us_id :: bytes
  us_token_id :: bytes
  us_role :: bytes
  us_scopes :: "bytes list"
  us_created :: int
  us_last_seen :: int

record session_record =
  sr_public :: ui_session
  sr_csrf :: bytes
  sr_created :: int
  sr_last_seen :: int

record session_table =
  sx_sessions :: "(bytes \<times> session_record) list"
  sx_cfg :: session_config

definition new_session_table :: "session_config \<Rightarrow> session_table" where
  "new_session_table cfg = (let d = default_session_config in
     \<lparr> sx_sessions = [], sx_cfg = \<lparr> sc_idle = (if sc_idle cfg \<le> 0 then sc_idle d else sc_idle cfg),
         sc_absolute = (if sc_absolute cfg \<le> 0 then sc_absolute d else sc_absolute cfg),
         sc_max = (if sc_max cfg \<le> 0 then sc_max d else sc_max cfg) \<rparr> \<rparr>)"

definition expired :: "session_config \<Rightarrow> session_record \<Rightarrow> int \<Rightarrow> bool" where
  "expired cfg r now = (if now - sr_last_seen r > sc_idle cfg then True else now - sr_created r > sc_absolute cfg)"

definition expire_sessions :: "int \<Rightarrow> session_table \<Rightarrow> session_table" where
  "expire_sessions now s = s \<lparr> sx_sessions := filter (\<lambda>(k, r). \<not> expired (sx_cfg s) r now) (sx_sessions s) \<rparr>"

fun oldest_session :: "(bytes \<times> session_record) list \<Rightarrow> (bytes \<times> int) option \<Rightarrow> bytes" where
  "oldest_session [] best = (case best of None \<Rightarrow> [] | Some (k, t) \<Rightarrow> k)"
| "oldest_session ((k, r) # rs) best =
     (if best = None \<or> sr_last_seen r < snd (the best) then oldest_session rs (Some (k, sr_last_seen r))
      else oldest_session rs best)"

definition evict_oldest_session :: "session_table \<Rightarrow> session_table" where
  "evict_oldest_session s = (let k = oldest_session (sx_sessions s) None in
     if k \<noteq> [] then s \<lparr> sx_sessions := AList.delete k (sx_sessions s) \<rparr> else s)"

definition make_room :: "int \<Rightarrow> session_table \<Rightarrow> session_table" where
  "make_room now s = (let s1 = expire_sessions now s in
     if int (length (sx_sessions s1)) \<ge> sc_max (sx_cfg s1) then evict_oldest_session s1 else s1)"

text \<open>The cookie, the CSRF secret and the public id are what \<^verbatim>\<open>randomHex\<close> gave.\<close>

definition create_session :: "bytes \<Rightarrow> bytes \<Rightarrow> bytes \<Rightarrow> int \<Rightarrow> principal \<Rightarrow> session_table \<Rightarrow> ui_session \<times> session_table" where
  "create_session cookie csrf pid now p s =
     (let pub = \<lparr> us_id = pid, us_token_id = pr_id p, us_role = pr_role p, us_scopes = pr_scopes p, us_created = now,
            us_last_seen = now \<rparr>;
          s2 = make_room now s
      in (pub, s2 \<lparr> sx_sessions := AList.update cookie
           \<lparr> sr_public = pub, sr_csrf = csrf, sr_created = now, sr_last_seen = now \<rparr> (sx_sessions s2) \<rparr>))"

definition delete_session :: "bytes \<Rightarrow> session_table \<Rightarrow> session_table" where
  "delete_session cookie s = (if cookie = [] then s else s \<lparr> sx_sessions := AList.delete cookie (sx_sessions s) \<rparr>)"

definition clear_sessions :: "session_table \<Rightarrow> session_table" where
  "clear_sessions s = s \<lparr> sx_sessions := [] \<rparr>"

definition live_session :: "bytes \<Rightarrow> int \<Rightarrow> session_table \<Rightarrow> session_record option \<times> session_table" where
  "live_session cookie now s =
     (if cookie = [] then (None, s)
      else case lookup (sx_sessions s) cookie of
          None \<Rightarrow> (None, s)
        | Some r \<Rightarrow> if expired (sx_cfg s) r now then (None, s \<lparr> sx_sessions := AList.delete cookie (sx_sessions s) \<rparr>)
            else (Some r, s))"

definition lookup_session :: "bytes \<Rightarrow> int \<Rightarrow> session_table \<Rightarrow> (ui_session \<times> bytes) option \<times> session_table" where
  "lookup_session cookie now s = (case live_session cookie now s of
       (None, s1) \<Rightarrow> (None, s1)
     | (Some r, s1) \<Rightarrow> (let pub = (sr_public r) \<lparr> us_last_seen := now \<rparr> in
         (Some (pub, sr_csrf r), s1 \<lparr> sx_sessions := AList.update cookie (r \<lparr> sr_public := pub, sr_last_seen := now \<rparr>)
           (sx_sessions s1) \<rparr>)))"

definition view_session :: "bytes \<Rightarrow> int \<Rightarrow> session_table \<Rightarrow> ui_session option \<times> session_table" where
  "view_session cookie now s = (case live_session cookie now s of
       (None, s1) \<Rightarrow> (None, s1) | (Some r, s1) \<Rightarrow> (Some (sr_public r), s1))"

definition valid_csrf :: "(bytes \<Rightarrow> bytes) \<Rightarrow> bytes \<Rightarrow> bytes \<Rightarrow> int \<Rightarrow> session_table \<Rightarrow> bool \<times> session_table" where
  "valid_csrf dg cookie presented now s =
     (if cookie = [] \<or> presented = [] then (False, s)
      else case live_session cookie now s of
          (None, s1) \<Rightarrow> (False, s1) | (Some r, s1) \<Rightarrow> (dg (sr_csrf r) = dg presented, s1))"

definition max_age :: "session_table \<Rightarrow> int" where
  "max_age s = sc_absolute (sx_cfg s) div 1000000000"

definition expires_at :: "session_table \<Rightarrow> ui_session \<Rightarrow> int" where
  "expires_at s u = (let idle = us_last_seen u + sc_idle (sx_cfg s); abs1 = us_created u + sc_absolute (sx_cfg s) in
     if idle < abs1 then idle else abs1)"

definition unsafe_method :: "bytes \<Rightarrow> bool" where
  "unsafe_method m = (m \<in> {''POST'', ''PUT'', ''PATCH'', ''DELETE''})"

definition principal_from_session :: "ui_session \<Rightarrow> principal" where
  "principal_from_session u = \<lparr> pr_id = us_token_id u, pr_class = ''token'', pr_role = us_role u, pr_scopes = us_scopes u \<rparr>"

section \<open>Runs of the table\<close>

datatype session_call =
    CreateSession bytes bytes bytes int principal
  | LookupSession bytes int
  | ViewSession bytes int
  | CheckCsrf bytes bytes int
  | DeleteSession bytes
  | ClearSessions

fun run_session_call :: "(bytes \<Rightarrow> bytes) \<Rightarrow> session_call \<Rightarrow> session_table \<Rightarrow> session_table" where
  "run_session_call dg (CreateSession c x i now p) s = snd (create_session c x i now p s)"
| "run_session_call dg (LookupSession c now) s = snd (lookup_session c now s)"
| "run_session_call dg (ViewSession c now) s = snd (view_session c now s)"
| "run_session_call dg (CheckCsrf c x now) s = snd (valid_csrf dg c x now s)"
| "run_session_call dg (DeleteSession c) s = delete_session c s"
| "run_session_call dg ClearSessions s = clear_sessions s"

definition run_sessions :: "(bytes \<Rightarrow> bytes) \<Rightarrow> session_call list \<Rightarrow> session_table \<Rightarrow> session_table" where
  "run_sessions dg cs s = foldl (\<lambda>s c. run_session_call dg c s) s cs"

text \<open>
  What a history of calls says of a record: it was made by a creation of its cookie, after which the
  cookie was neither created again, deleted nor cleared, and the last lookup that found it, or the
  creation, is when it was last seen.
\<close>

fun ends_session :: "bytes \<Rightarrow> session_call \<Rightarrow> bool" where
  "ends_session k (CreateSession c x i now p) = (c = k)"
| "ends_session k (DeleteSession c) = (c = k)"
| "ends_session k ClearSessions = True"
| "ends_session k _ = False"

definition issued :: "session_call list \<Rightarrow> bytes \<Rightarrow> session_record \<Rightarrow> bool" where
  "issued cs k r = (\<exists>pre post x i p. cs = pre @ CreateSession k x i (sr_created r) p # post \<and>
     list_all (\<lambda>c. \<not> ends_session k c) post \<and> sr_csrf r = x \<and>
     (sr_last_seen r = sr_created r \<or> LookupSession k (sr_last_seen r) \<in> set post) \<and>
     sr_public r = \<lparr> us_id = i, us_token_id = pr_id p, us_role = pr_role p, us_scopes = pr_scopes p, us_created = sr_created r,
       us_last_seen = sr_last_seen r \<rparr>)"

definition table_ok :: "session_call list \<Rightarrow> session_table \<Rightarrow> bool" where
  "table_ok cs s = (distinct (keys (sx_sessions s)) \<and> (\<forall>k r. lookup (sx_sessions s) k = Some r \<longrightarrow> issued cs k r))"

lemma issued_later: "issued cs k r \<Longrightarrow> \<not> ends_session k c \<Longrightarrow> issued (cs @ [c]) k r"
proof -
  assume "issued cs k r" "\<not> ends_session k c"
  then obtain pre post x i p where "cs = pre @ CreateSession k x i (sr_created r) p # post"
     "list_all (\<lambda>c. \<not> ends_session k c) (post @ [c])" "sr_csrf r = x"
     "sr_last_seen r = sr_created r \<or> LookupSession k (sr_last_seen r) \<in> set (post @ [c])"
     "sr_public r = \<lparr> us_id = i, us_token_id = pr_id p, us_role = pr_role p, us_scopes = pr_scopes p, us_created = sr_created r,
       us_last_seen = sr_last_seen r \<rparr>" by (auto simp: issued_def)
  then show ?thesis unfolding issued_def by (intro exI[of _ pre] exI[of _ "post @ [c]"]) auto
qed

lemma issued_touched:
  assumes "issued cs k r"
  shows "issued (cs @ [LookupSession k now]) k (r \<lparr> sr_public := (sr_public r) \<lparr> us_last_seen := now \<rparr>, sr_last_seen := now \<rparr>)"
proof -
  obtain pre post x i p where "cs = pre @ CreateSession k x i (sr_created r) p # post"
     "list_all (\<lambda>c. \<not> ends_session k c) post" "sr_csrf r = x"
     "sr_public r = \<lparr> us_id = i, us_token_id = pr_id p, us_role = pr_role p, us_scopes = pr_scopes p, us_created = sr_created r,
       us_last_seen = sr_last_seen r \<rparr>" using assms by (auto simp: issued_def)
  then show ?thesis unfolding issued_def
    by (intro exI[of _ pre] exI[of _ "post @ [LookupSession k now]"] exI[of _ x] exI[of _ i] exI[of _ p]) simp
qed

lemma lookup_filter_kv: "distinct (keys xs) \<Longrightarrow> lookup (filter P xs) k = Some r \<Longrightarrow> lookup xs k = Some r"
proof (induction xs)
  case (Cons x xs)
  have "k \<in> set (keys xs)" if "lookup (filter P xs) k = Some r" using that by (force dest: map_of_SomeD)
  then show ?case using Cons by (cases x) (auto split: if_splits)
qed simp

lemma distinct_keys_filter: "distinct (keys xs) \<Longrightarrow> distinct (keys (filter P xs))"
  by (induction xs) auto

lemma oldest_session_in: "xs \<noteq> [] \<or> best \<noteq> None \<Longrightarrow>
    oldest_session xs best \<in> set (keys xs) \<or> (\<exists>b. best = Some b \<and> oldest_session xs best = fst b)"
proof (induction xs arbitrary: best)
  case Nil
  then show ?case by (auto split: option.splits)
next
  case (Cons x xs)
  obtain k r where x: "x = (k, r)" by fastforce
  show ?case using Cons.IH[of "Some (k, sr_last_seen r)"] Cons.IH[of best] by (auto simp: x)
qed

definition table_inv :: "session_table \<Rightarrow> bool" where
  "table_inv s = (distinct (keys (sx_sessions s)) \<and> lookup (sx_sessions s) [] = None \<and> 0 < sc_max (sx_cfg s) \<and>
     int (length (sx_sessions s)) \<le> sc_max (sx_cfg s))"

lemma length_delete_in: "k \<in> set (keys xs) \<Longrightarrow> length (AList.delete k xs) < length xs"
  by (auto simp: AList.delete_eq intro!: length_filter_less)

lemma length_delete_le: "length (AList.delete k xs) \<le> length xs"
  by (simp add: AList.delete_eq)

lemma length_update_le: "length (AList.update k v xs) \<le> Suc (length xs)"
  by (induction xs) auto

lemma length_update_in: "k \<in> set (keys xs) \<Longrightarrow> length (AList.update k v xs) = length xs"
  by (induction xs) auto

text \<open>The parts of a creation: what is expired or evicted goes, nothing else changes.\<close>

lemma make_room_inv:
  assumes inv: "table_inv s"
  shows "table_inv (make_room now s) \<and> int (length (sx_sessions (make_room now s))) < sc_max (sx_cfg s) \<and>
    sx_cfg (make_room now s) = sx_cfg s \<and>
    (\<forall>k r. lookup (sx_sessions (make_room now s)) k = Some r \<longrightarrow> lookup (sx_sessions s) k = Some r)"
proof -
  obtain xs where xs: "xs = filter (\<lambda>(k, r). \<not> expired (sx_cfg s) r now) (sx_sessions s)" by blast
  have s1: "expire_sessions now s = s \<lparr> sx_sessions := xs \<rparr>" by (simp add: expire_sessions_def xs)
  have i: "distinct (keys (sx_sessions s))" "lookup (sx_sessions s) [] = None" "0 < sc_max (sx_cfg s)"
    "int (length (sx_sessions s)) \<le> sc_max (sx_cfg s)" using inv by (simp_all add: table_inv_def)
  have d: "distinct (keys xs)" unfolding xs by (rule distinct_keys_filter[OF i(1)])
  have len: "length xs \<le> length (sx_sessions s)" by (simp add: xs)
  have sub: "lookup xs k = Some r \<Longrightarrow> lookup (sx_sessions s) k = Some r" for k r
    unfolding xs by (rule lookup_filter_kv[OF i(1)])
  have ne: "lookup xs [] = None" using sub[of "[]"] i(2) by (cases "lookup xs []") auto
  show ?thesis
  proof (cases "int (length xs) \<ge> sc_max (sx_cfg s)")
    case True
    let ?k = "oldest_session xs None"
    have "xs \<noteq> []" using True i(3) by auto
    then have k: "?k \<in> set (keys xs)" using oldest_session_in[of xs None] by simp
    then have "?k \<noteq> []" using ne lookup_None_iff[of xs "[]"] by metis
    then have "make_room now s = s \<lparr> sx_sessions := AList.delete ?k xs \<rparr>"
      using True by (simp add: make_room_def s1 evict_oldest_session_def)
    moreover have "int (length (AList.delete ?k xs)) < sc_max (sx_cfg s)" using length_delete_in[OF k] len i(4) by linarith
    ultimately show ?thesis using d ne sub i(3) by (simp add: table_inv_def distinct_keys_delete)
  next
    case False
    then have "make_room now s = s \<lparr> sx_sessions := xs \<rparr>" by (simp add: make_room_def s1)
    then show ?thesis using False d ne sub i(3) by (simp add: table_inv_def)
  qed
qed

lemma delete_inv: "table_inv s \<Longrightarrow> table_inv (s \<lparr> sx_sessions := AList.delete k (sx_sessions s) \<rparr>)"
  using length_delete_le[of k "sx_sessions s"] by (simp add: table_inv_def distinct_keys_delete)

lemma live_session_cases:
  obtains (dead) "fst (live_session k now s) = None"
      "snd (live_session k now s) = s \<or> snd (live_session k now s) = s \<lparr> sx_sessions := AList.delete k (sx_sessions s) \<rparr>"
  | (live) r where "live_session k now s = (Some r, s)" "lookup (sx_sessions s) k = Some r" "\<not> expired (sx_cfg s) r now" "k \<noteq> []"
proof (cases "k \<noteq> [] \<and> (\<exists>r. lookup (sx_sessions s) k = Some r \<and> \<not> expired (sx_cfg s) r now)")
  case True
  then show ?thesis using live by (auto simp: live_session_def)
next
  case False
  then show ?thesis using dead by (auto simp: live_session_def split: option.splits)
qed

fun nonempty_cookie :: "session_call \<Rightarrow> bool" where
  "nonempty_cookie (CreateSession c x i now p) = (c \<noteq> [])"
| "nonempty_cookie _ = True"

text \<open>One call keeps the invariant and says of every record that is left what it was before or was made.\<close>

lemma session_call_step:
  assumes inv: "table_inv s" and ok: "nonempty_cookie c" and iss: "\<And>k r. lookup (sx_sessions s) k = Some r \<Longrightarrow> issued cs k r"
  shows "table_inv (run_session_call dg c s) \<and> sx_cfg (run_session_call dg c s) = sx_cfg s \<and>
    (\<forall>k r. lookup (sx_sessions (run_session_call dg c s)) k = Some r \<longrightarrow> issued (cs @ [c]) k r)"
proof (cases c)
  case (CreateSession k x i now p)
  let ?s2 = "make_room now s"
  note mr = make_room_inv[OF inv, of now]
  have "issued (cs @ [CreateSession k x i now p]) k \<lparr> sr_public = \<lparr> us_id = i, us_token_id = pr_id p, us_role = pr_role p,
      us_scopes = pr_scopes p, us_created = now, us_last_seen = now \<rparr>, sr_csrf = x, sr_created = now, sr_last_seen = now \<rparr>"
    unfolding issued_def by (intro exI[of _ cs] exI[of _ "[]"] exI[of _ x] exI[of _ i] exI[of _ p]) simp
  moreover have "issued (cs @ [CreateSession k x i now p]) k' r" if "lookup (sx_sessions ?s2) k' = Some r" "k' \<noteq> k" for k' r
    using that mr iss by (intro issued_later) auto
  moreover have "int (length (AList.update k v (sx_sessions ?s2))) \<le> sc_max (sx_cfg s)" for v
    using length_update_le[of k v "sx_sessions ?s2"] mr by linarith
  ultimately show ?thesis
    using mr ok CreateSession by (simp add: create_session_def Let_def table_inv_def distinct_keys_update)
next
  case (LookupSession k now)
  show ?thesis
  proof (cases rule: live_session_cases[of k now s])
    case dead
    then show ?thesis using LookupSession iss delete_inv[OF inv, of k] inv
      by (cases "live_session k now s") (auto simp: lookup_session_def intro!: issued_later split: if_splits)
  next
    case (live r)
    have kin: "k \<in> set (keys (sx_sessions s))" using live(2) by (metis lookup_None_iff option.distinct(1))
    show ?thesis using LookupSession live iss inv issued_touched[OF iss[OF live(2)], of now] kin
      by (auto simp: lookup_session_def Let_def table_inv_def length_update_in intro!: issued_later)
  qed
next
  case (ViewSession k now)
  then show ?thesis using iss inv delete_inv[OF inv, of k]
    by (cases rule: live_session_cases[of k now s])
      (auto simp: view_session_def intro!: issued_later split: prod.splits option.splits if_splits)
next
  case (CheckCsrf k x now)
  then show ?thesis using iss inv delete_inv[OF inv, of k]
    by (cases rule: live_session_cases[of k now s])
      (auto simp: valid_csrf_def intro!: issued_later split: prod.splits option.splits if_splits)
next
  case (DeleteSession k)
  then show ?thesis using iss inv delete_inv[OF inv, of k]
    by (auto simp: delete_session_def table_inv_def intro!: issued_later split: if_splits)
next
  case ClearSessions
  then show ?thesis using inv by (simp add: clear_sessions_def table_inv_def)
qed

lemma run_sessions_inv:
  assumes "list_all nonempty_cookie cs"
  shows "table_inv (run_sessions dg cs (new_session_table cfg)) \<and>
    sx_cfg (run_sessions dg cs (new_session_table cfg)) = sx_cfg (new_session_table cfg) \<and>
    (\<forall>k r. lookup (sx_sessions (run_sessions dg cs (new_session_table cfg))) k = Some r \<longrightarrow> issued cs k r)"
  using assms
proof (induction cs rule: rev_induct)
  case Nil
  then show ?case by (simp add: run_sessions_def new_session_table_def Let_def table_inv_def default_session_config_def)
next
  case (snoc c cs)
  then show ?case using session_call_step[of "run_sessions dg cs (new_session_table cfg)" c cs dg]
    by (auto simp: run_sessions_def)
qed

end
