(* ===== verification/Auth_Props.thy ===== *)
theory Auth_Props
  imports Auth_Sessions
begin

text \<open>
  What authentication promises: who a request can be, that every configured token works, where the
  comparison of two verifiers misses a change, and which requests a session cookie stands for.
\<close>

section \<open>Verifiers\<close>

definition token_principal :: "token_spec \<Rightarrow> principal" where
  "token_principal tok = \<lparr> pr_id = token_id tok, pr_class = ''token'', pr_role = fst (expand_scopes (tk_role tok) (tk_scopes tok)),
     pr_scopes = snd (expand_scopes (tk_role tok) (tk_scopes tok)) \<rparr>"

lemma token_compiled_principal: "token_compiled fw dg tok t \<Longrightarrow> principal_of t = token_principal tok"
  by (auto simp: token_compiled_def principal_of_def token_principal_def)

lemma compiled_token_of:
  assumes "list_all2 (token_compiled fw dg) toks ts" "t \<in> set ts"
  shows "\<exists>tok \<in> set toks. token_compiled fw dg tok t"
  using assms by (auto simp: list_all2_conv_all_nth set_conv_nth)

lemma token_compiled_of:
  assumes "list_all2 (token_compiled fw dg) toks ts" "tok \<in> set toks"
  shows "\<exists>t \<in> set ts. token_compiled fw dg tok t"
  using assms by (auto simp: list_all2_conv_all_nth set_conv_nth)

text \<open>What a request has to present to be the principal of a configured token.\<close>

definition presents_bearer :: "file_world \<Rightarrow> (bytes \<Rightarrow> bytes) \<Rightarrow> token_spec \<Rightarrow> bytes \<Rightarrow> bool" where
  "presents_bearer fw dg tok header = (\<exists>scheme rest l. cut SP (trim_space header) = (scheme, rest, True) \<and>
     equal_fold scheme ''Bearer'' \<and> read_secret_file fw (tk_secret_file tok) = SecretLine l \<and> min_token_bytes \<le> length l \<and>
     dg (trim_space rest) = dg l)"

definition presents_basic :: "file_world \<Rightarrow> (bytes \<Rightarrow> bytes) \<Rightarrow> mgmt_auth \<Rightarrow> token_spec \<Rightarrow> bytes \<Rightarrow> bool" where
  "presents_basic fw dg sp tok header = (\<exists>scheme rest user pass pw. cut SP (trim_space header) = (scheme, rest, True) \<and>
     equal_fold scheme ''Basic'' \<and> parse_basic (trim_space rest) = Some (user, pass) \<and>
     dg user = dg (trim_space (bs_username (ma_basic sp))) \<and> trim_space (bs_username (ma_basic sp)) \<noteq> [] \<and>
     read_secret_file fw (bs_password_file (ma_basic sp)) = SecretLine pw \<and> dg pass = dg pw \<and>
     token_id tok = trim_space (bs_token_ref (ma_basic sp)))"

lemma lookup_basic_sound:
  assumes v: "from_spec fw dg sp = Inr v" and b: "vf_basic v = Some bc" and l: "lookup_basic dg v payload = Inr p"
    and h: "cut SP (trim_space header) = (scheme, rest, True)" "equal_fold scheme ''Basic''" "payload = trim_space rest"
  shows "\<exists>tok \<in> set (ma_tokens sp). p = token_principal tok \<and> presents_basic fw dg sp tok header"
proof -
  note fs = from_spec_sound[OF v]
  obtain user pass where u: "parse_basic payload = Some (user, pass)" "dg user = dg (bc_username bc)" "dg pass = bc_password bc"
    "bc_index bc < length (vf_tokens v)" "p = principal_of (vf_tokens v ! bc_index bc)"
    using l b by (auto simp: lookup_basic_def split: option.splits if_splits)
  obtain tok where tok: "tok \<in> set (ma_tokens sp)" "token_compiled fw dg tok (vf_tokens v ! bc_index bc)"
    using compiled_token_of fs u(4) nth_mem by blast
  have "basic_compiled fw dg (ma_basic sp) (vf_tokens v) bc" using fs b by simp
  then show ?thesis using u tok h token_compiled_principal[OF tok(2)]
    by (intro bexI[OF _ tok(1)]) (auto simp: presents_basic_def basic_compiled_def token_compiled_def)
qed

lemma usable_secret: "read_secret_file fw path = SecretLine l \<Longrightarrow> l \<noteq> [] \<and> \<not> is_space (hd l) \<and> \<not> is_space (last l)"
  using trim_by_ends[of is_space]
  by (auto simp: read_secret_file_def usable_line_def find_Some_iff trim_space_def split: option.splits)

lemma space_B: "\<not> is_space (CHR ''B'')"
  by (simp add: is_space_def byte_val_def)

lemma bearer_header:
  assumes "l \<noteq> []" "\<not> is_space (hd l)" "\<not> is_space (last l)"
  shows "trim_space (''Bearer '' @ l) = ''Bearer '' @ l" "cut SP (''Bearer '' @ l) = (''Bearer'', l, True)" "trim_space l = l"
proof -
  show "trim_space (''Bearer '' @ l) = ''Bearer '' @ l"
    unfolding trim_space_def using assms space_B by (intro trim_by_id) simp
  show "cut SP (''Bearer '' @ l) = (''Bearer'', l, True)" by simp
  show "trim_space l = l" using assms by (simp add: trim_space_def trim_by_id)
qed

lemma lookup_bearer_sound:
  assumes v: "from_spec fw dg sp = Inr v" and l: "lookup_bearer dg v (trim_space rest) = Inr p"
    and h: "cut SP (trim_space header) = (scheme, rest, True)" "equal_fold scheme ''Bearer''"
  shows "\<exists>tok \<in> set (ma_tokens sp). p = token_principal tok \<and> presents_bearer fw dg tok header"
proof -
  note fs = from_spec_sound[OF v]
  obtain t where t: "t \<in> set (vf_tokens v)" "vt_digest t = dg (trim_space rest)" "p = principal_of t"
    using l fs by (subst (asm) lookup_bearer_iff) auto
  obtain tok where "tok \<in> set (ma_tokens sp)" "token_compiled fw dg tok t" using compiled_token_of fs t(1) by blast
  then show ?thesis using t h token_compiled_principal by (intro bexI[of _ tok]) (auto simp: presents_bearer_def token_compiled_def)
qed

lemma bearer_accepted:
  assumes v: "from_spec fw dg sp = Inr v" and tok: "tok \<in> set (ma_tokens sp)"
    and l: "read_secret_file fw (tk_secret_file tok) = SecretLine l" "SP \<notin> set l" "TAB \<notin> set l"
  shows "authenticate dg (Some v) \<lparr> rq_authorization = ''Bearer '' @ l, rq_remote = remote, rq_allow_basic = ab \<rparr> =
    Inr (token_principal tok)"
proof -
  note fs = from_spec_sound[OF v]
  obtain t where t: "t \<in> set (vf_tokens v)" "token_compiled fw dg tok t" using token_compiled_of fs tok by blast
  have "vt_digest t = dg l \<and> token_principal tok = principal_of t"
    using t(2) l(1) token_compiled_principal[OF t(2)] by (auto simp: token_compiled_def)
  then have "lookup_bearer dg v l = Inr (token_principal tok)"
    using fs t(1) l usable_secret[OF l(1)] by (subst lookup_bearer_iff) auto
  then show ?thesis using bearer_header[of l] usable_secret[OF l(1)] by (simp add: authenticate_def Let_def)
qed

text \<open>C24. A request is the loopback administrator only without credentials, in the loopback mode and from a
  loopback address; otherwise it is a configured token, which it has presented as a bearer secret
  with the digest of the token's secret file or, through the Basic credential that refers to the
  token, with the digests of the configured name and password file.  And every configured token
  without blanks in its secret is accepted, with exactly its identity and scopes.\<close>

theorem authenticate_sound:
  "from_spec fw dg sp = Inr v \<Longrightarrow>
    (\<forall>rq p. authenticate dg (Some v) rq = Inr p \<longrightarrow>
      (p = loopback_principal \<and> trim_space (rq_authorization rq) = [] \<and> trim_space (ma_mode sp) = ''dev-loopback-unauth'' \<and>
         is_loopback (rq_remote rq)) \<or>
      (\<exists>tok \<in> set (ma_tokens sp). p = token_principal tok \<and>
         (presents_bearer fw dg tok (rq_authorization rq) \<or>
          rq_allow_basic rq \<and> trim_space (ma_mode sp) \<in> {[], ''bearer_and_basic''} \<and>
            presents_basic fw dg sp tok (rq_authorization rq)))) \<and>
    (\<forall>tok \<in> set (ma_tokens sp). \<forall>l remote ab. read_secret_file fw (tk_secret_file tok) = SecretLine l \<longrightarrow>
      SP \<notin> set l \<longrightarrow> TAB \<notin> set l \<longrightarrow>
      authenticate dg (Some v) \<lparr> rq_authorization = ''Bearer '' @ l, rq_remote = remote, rq_allow_basic = ab \<rparr> =
        Inr (token_principal tok))"
proof -
  assume v: "from_spec fw dg sp = Inr v"
  note fs = from_spec_sound[OF v]
  have mode: "vf_mode v = (if trim_space (ma_mode sp) = [] then ''bearer_and_basic'' else trim_space (ma_mode sp))" using fs by blast
  have "(p = loopback_principal \<and> trim_space (rq_authorization rq) = [] \<and> trim_space (ma_mode sp) = ''dev-loopback-unauth'' \<and>
         is_loopback (rq_remote rq)) \<or>
      (\<exists>tok \<in> set (ma_tokens sp). p = token_principal tok \<and>
         (presents_bearer fw dg tok (rq_authorization rq) \<or>
          rq_allow_basic rq \<and> trim_space (ma_mode sp) \<in> {[], ''bearer_and_basic''} \<and>
            presents_basic fw dg sp tok (rq_authorization rq)))"
    if a: "authenticate dg (Some v) rq = Inr p" for rq p
  proof (cases "trim_space (rq_authorization rq) = []")
    case True
    then show ?thesis using a mode by (auto simp: authenticate_def split: if_splits)
  next
    case False
    obtain scheme rest where c: "cut SP (trim_space (rq_authorization rq)) = (scheme, rest, True)"
      using a False by (cases "cut SP (trim_space (rq_authorization rq))") (auto simp: authenticate_def Let_def split: if_splits)
    have "equal_fold scheme ''Bearer'' \<and> lookup_bearer dg v (trim_space rest) = Inr p \<or>
      equal_fold scheme ''Basic'' \<and> rq_allow_basic rq \<and> vf_mode v = ''bearer_and_basic'' \<and> (\<exists>bc. vf_basic v = Some bc) \<and>
        lookup_basic dg v (trim_space rest) = Inr p"
      using a False c by (auto simp: authenticate_def Let_def split: if_splits)
    moreover have "vf_mode v = ''bearer_and_basic'' \<Longrightarrow> trim_space (ma_mode sp) \<in> {[], ''bearer_and_basic''}"
      using mode by (auto split: if_splits)
    ultimately show ?thesis
      using lookup_bearer_sound[OF v _ c, of p] lookup_basic_sound[OF v _ _ c _ refl, of _ p] by blast
  qed
  then show ?thesis using bearer_accepted[OF v] by blast
qed

definition secret_a :: bytes where "secret_a = replicate 32 (CHR ''a'')"
definition secret_b :: bytes where "secret_b = replicate 32 (CHR ''b'')"

definition secret_files :: file_world where
  "secret_files = \<lparr> fw_exists = (\<lambda>p. True), fw_read = (\<lambda>p. if p = ''/a'' then Some secret_a else if p = ''/b'' then Some secret_b
     else if p = ''/pw'' then Some ''hush'' else None), fw_error = (\<lambda>p. []) \<rparr>"

definition token_a :: token_spec where
  "token_a = \<lparr> tk_id = ''root'', tk_secret_file = ''/a'', tk_role = ''administrator'', tk_scopes = [] \<rparr>"
definition token_b :: token_spec where
  "token_b = \<lparr> tk_id = ''guest'', tk_secret_file = ''/b'', tk_role = ''viewer'', tk_scopes = [] \<rparr>"

definition auth_spec_of :: "token_spec list \<Rightarrow> bytes \<Rightarrow> mgmt_auth" where
  "auth_spec_of toks ref = \<lparr> ma_mode = [], ma_tokens = toks,
     ma_basic = \<lparr> bs_username = ''ann'', bs_password_file = ''/pw'', bs_token_ref = ref \<rparr> \<rparr>"

definition verifier_of :: "mgmt_auth \<Rightarrow> verifier" where
  "verifier_of sp = (case from_spec secret_files (\<lambda>s. s) sp of Inr v \<Rightarrow> v | Inl er \<Rightarrow> \<lparr> vf_mode = [], vf_tokens = [], vf_basic = None \<rparr>)"

definition ann_request :: auth_request where
  "ann_request = \<lparr> rq_authorization = ''Basic YW5uOmh1c2g='', rq_remote = ''10.0.0.1:99'', rq_allow_basic = True \<rparr>"

lemma demo_verifier: "from_spec secret_files (\<lambda>s. s) (auth_spec_of [token_a, token_b] ''root'') =
    Inr (verifier_of (auth_spec_of [token_a, token_b] ''root''))"
proof -
  have "is_ok (from_spec secret_files (\<lambda>s. s) (auth_spec_of [token_a, token_b] ''root''))" by code_simp
  then show ?thesis by (auto simp: verifier_of_def is_ok_def split: sum.splits)
qed

lemma authenticate_sound_witness:
  "authenticate (\<lambda>s. s) (Some (verifier_of (auth_spec_of [token_a, token_b] ''root'')))
     \<lparr> rq_authorization = ''Bearer '' @ secret_b, rq_remote = [], rq_allow_basic = False \<rparr> = Inr (token_principal token_b)"
proof -
  have f: "read_secret_file secret_files ''/b'' = SecretLine secret_b" "SP \<notin> set secret_b" "TAB \<notin> set secret_b" by code_simp+
  show ?thesis using conjunct2[OF authenticate_sound[OF demo_verifier]] f by (auto simp: auth_spec_of_def token_b_def)
qed

text \<open>The comparison that decides whether sessions survive a reload misses a change: the tokens in another
  order and the Basic credential pointed at the other one compile to a verifier that counts as
  equivalent, although the same Basic request is another principal with fewer scopes under it.  So a
  reload that takes administration away from the Basic user leaves its open sessions as they were.\<close>

lemma equivalent_misses_basic:
  "\<exists>v w p q. from_spec secret_files (\<lambda>s. s) (auth_spec_of [token_a, token_b] ''root'') = Inr v \<and>
    from_spec secret_files (\<lambda>s. s) (auth_spec_of [token_b, token_a] ''guest'') = Inr w \<and> equivalent v w \<and>
    replace_verifier w v = (w, False) \<and> authenticate (\<lambda>s. s) (Some v) ann_request = Inr p \<and>
    authenticate (\<lambda>s. s) (Some w) ann_request = Inr q \<and> has_scope (pr_scopes p) ''mail.write'' \<and> \<not> has_scope (pr_scopes q) ''mail.write''"
proof -
  let ?v = "verifier_of (auth_spec_of [token_a, token_b] ''root'')" and ?w = "verifier_of (auth_spec_of [token_b, token_a] ''guest'')"
  have "is_ok (from_spec secret_files (\<lambda>s. s) (auth_spec_of [token_b, token_a] ''guest''))" by code_simp
  then have w: "from_spec secret_files (\<lambda>s. s) (auth_spec_of [token_b, token_a] ''guest'') = Inr ?w"
    by (auto simp: verifier_of_def is_ok_def split: sum.splits)
  have "authenticate (\<lambda>s. s) (Some ?v) ann_request = Inr (token_principal token_a)"
    "authenticate (\<lambda>s. s) (Some ?w) ann_request = Inr (token_principal token_b)" "equivalent ?v ?w"
    "has_scope (pr_scopes (token_principal token_a)) ''mail.write''" "\<not> has_scope (pr_scopes (token_principal token_b)) ''mail.write''"
    by code_simp+
  then show ?thesis using w demo_verifier by (auto simp: replace_verifier_def)
qed

section \<open>Sessions\<close>

definition session_limits :: "session_config \<Rightarrow> session_config" where
  "session_limits cfg = sx_cfg (new_session_table cfg)"

text \<open>A session that is found was issued by the history and is within its times.\<close>

lemma found_session:
  assumes "list_all nonempty_cookie cs" and s: "s = run_sessions dg cs (new_session_table cfg)"
    and f: "fst (live_session k now s) = Some r"
  shows "issued cs k r \<and> now - sr_created r \<le> sc_absolute (session_limits cfg) \<and>
    now - sr_last_seen r \<le> sc_idle (session_limits cfg)"
proof (cases rule: live_session_cases[of k now s])
  case (live q)
  then show ?thesis using f run_sessions_inv[OF assms(1), of dg cfg]
    by (auto simp: s session_limits_def expired_def split: if_splits)
qed (use f in simp)

text \<open>The cookie \<open>k\<close> was given to \<open>p\<close> with the secret \<open>x\<close> at \<open>t0\<close>, and \<open>post\<close> is what happened since.\<close>

definition session_since :: "session_call list \<Rightarrow> bytes \<Rightarrow> bytes \<Rightarrow> principal \<Rightarrow> int \<Rightarrow> session_call list \<Rightarrow> bool" where
  "session_since cs k x p t0 post = (\<exists>pre i. cs = pre @ CreateSession k x i t0 p # post \<and> list_all (\<lambda>c. \<not> ends_session k c) post)"

definition as_token :: "principal \<Rightarrow> principal" where
  "as_token p = p \<lparr> pr_class := ''token'' \<rparr>"

lemma issued_since:
  assumes "issued cs k r"
  shows "\<exists>p post. session_since cs k (sr_csrf r) p (sr_created r) post \<and>
    (sr_last_seen r = sr_created r \<or> LookupSession k (sr_last_seen r) \<in> set post) \<and>
    principal_from_session ((sr_public r) \<lparr> us_last_seen := t \<rparr>) = as_token p"
  using assms by (fastforce simp: issued_def session_since_def principal_from_session_def as_token_def)

lemma lookup_session_found: "fst (lookup_session k now s) = Some (u, x) \<Longrightarrow>
    \<exists>r. fst (live_session k now s) = Some r \<and> u = (sr_public r) \<lparr> us_last_seen := now \<rparr> \<and> x = sr_csrf r"
  by (auto simp: lookup_session_def Let_def split: prod.splits option.splits)

lemma valid_csrf_found: "fst (valid_csrf dg k y now s) \<Longrightarrow> \<exists>r. fst (live_session k now s) = Some r \<and> dg (sr_csrf r) = dg y"
  by (auto simp: valid_csrf_def split: prod.splits option.splits if_splits)

text \<open>C25. Through any calls in any order, at any times: the table never holds more than its limit, and a session
  that a cookie finds was created under that cookie for a principal, whose identity, role and scopes
  it still has, not longer ago than the absolute lifetime and last used not longer ago than the idle
  time, and neither that session was deleted nor the table cleared since; a CSRF check that passes
  was shown the secret that creation gave out.\<close>

theorem session_sound:
  "list_all nonempty_cookie cs \<Longrightarrow>
    let s = run_sessions dg cs (new_session_table cfg); lim = session_limits cfg in
      int (length (sx_sessions s)) \<le> sc_max lim \<and>
      (fst (lookup_session k now s) = Some (u, x) \<longrightarrow>
        (\<exists>p t0 t post. session_since cs k x p t0 post \<and> principal_from_session u = as_token p \<and>
          now - t0 \<le> sc_absolute lim \<and> now - t \<le> sc_idle lim \<and> (t = t0 \<or> LookupSession k t \<in> set post))) \<and>
      (fst (valid_csrf dg k y now s) \<longrightarrow>
        (\<exists>p t0 post x. session_since cs k x p t0 post \<and> now - t0 \<le> sc_absolute lim \<and> dg y = dg x))"
proof -
  assume ok: "list_all nonempty_cookie cs"
  define s where "s = run_sessions dg cs (new_session_table cfg)"
  have "\<exists>p t0 t post. session_since cs k x p t0 post \<and> principal_from_session u = as_token p \<and>
      now - t0 \<le> sc_absolute (session_limits cfg) \<and> now - t \<le> sc_idle (session_limits cfg) \<and> (t = t0 \<or> LookupSession k t \<in> set post)"
    if l: "fst (lookup_session k now s) = Some (u, x)"
  proof -
    obtain r where r: "fst (live_session k now s) = Some r" "u = (sr_public r) \<lparr> us_last_seen := now \<rparr>" "x = sr_csrf r"
      using lookup_session_found[OF l] by blast
    then show ?thesis using found_session[OF ok s_def r(1)] issued_since[of cs k r now] by metis
  qed
  moreover have "\<exists>p t0 post x. session_since cs k x p t0 post \<and> now - t0 \<le> sc_absolute (session_limits cfg) \<and> dg y = dg x"
    if l: "fst (valid_csrf dg k y now s)"
  proof -
    obtain r where r: "fst (live_session k now s) = Some r" "dg (sr_csrf r) = dg y" using valid_csrf_found[OF l] by blast
    then show ?thesis using found_session[OF ok s_def r(1)] issued_since[of cs k r] by metis
  qed
  moreover have "int (length (sx_sessions s)) \<le> sc_max (session_limits cfg)"
    using run_sessions_inv[OF ok, of dg cfg] unfolding s_def[symmetric] table_inv_def session_limits_def by metis
  ultimately show ?thesis by (simp add: s_def[symmetric])
qed

definition login_history :: "session_call list" where
  "login_history = [CreateSession ''c1'' ''x1'' ''i1'' 10 (token_principal token_b), LookupSession ''c1'' 20]"

definition login_config :: session_config where
  "login_config = \<lparr> sc_idle = 0, sc_absolute = 0, sc_max = 0 \<rparr>"

lemma session_sound_witness:
  "\<exists>p t0 post. session_since login_history ''c1'' ''x1'' p t0 post \<and> 30 - t0 \<le> sc_absolute (session_limits login_config)"
proof -
  have ok: "list_all nonempty_cookie login_history" by (simp add: login_history_def)
  have "case fst (lookup_session ''c1'' 30 (run_sessions (\<lambda>s. s) login_history (new_session_table login_config)))
      of Some (u, x) \<Rightarrow> x = ''x1'' | None \<Rightarrow> False" by code_simp
  then obtain u where "fst (lookup_session ''c1'' 30 (run_sessions (\<lambda>s. s) login_history (new_session_table login_config))) = Some (u, ''x1'')"
    by (auto split: option.splits)
  then show ?thesis using session_sound[OF ok, of "\<lambda>s. s" login_config "''c1''" 30 u "''x1''"]
    unfolding Let_def by blast
qed

end
