(* ===== verification/Api_Catalog.thy ===== *)
theory Api_Catalog
  imports Prelude
begin

text \<open>
  The capability registry (\<^verbatim>\<open>internal/capabilities\<close>): the frozen table of what the control plane offers, its
  indexes and its check at start-up.  \<open>no_capability\<close> is the zero value a composite literal of the
  table starts from.  The maps of the registry are association lists; copies of a row are the row.
\<close>

section \<open>Capabilities\<close>

record rest_binding =
  rb_method :: bytes
  rb_path :: bytes

record mcp_binding =
  mb_tools :: "bytes list"
  mb_resources :: "bytes list"

record capability =
  cap_id :: bytes
  cap_title :: bytes
  cap_version :: bytes
  cap_description :: bytes
  cap_input :: "bytes option"
  cap_output :: "bytes option"
  cap_scopes :: "bytes list"
  cap_mutating :: bool
  cap_idempotent :: bool
  cap_rest_only :: bool
  cap_different :: bool
  cap_rest :: "rest_binding list"
  cap_mcp :: "mcp_binding option"
  cap_methods :: "bytes list"

definition no_capability :: capability where
  "no_capability = \<lparr> cap_id = [], cap_title = [], cap_version = [], cap_description = [], cap_input = None, cap_output = None,
     cap_scopes = [], cap_mutating = False, cap_idempotent = False, cap_rest_only = False, cap_different = False,
     cap_rest = [], cap_mcp = None, cap_methods = [] \<rparr>"

definition rest_ref :: "rest_binding \<Rightarrow> bytes" where
  "rest_ref b = (if rb_method b = [] then rb_path b else rb_method b @ '' '' @ rb_path b)"

definition catalog :: "capability list" where
  "catalog = [
  no_capability \<lparr> cap_id := ''health.live'', cap_title := ''Health live'', cap_version := ''v1'',
      cap_description := ''Process liveness. Not an MCP tool.'', cap_idempotent := True, cap_rest_only := True,
      cap_rest := [rest_binding.make ''GET'' ''/v1/health/live''] \<rparr>,
  no_capability \<lparr> cap_id := ''health.ready'', cap_title := ''Health ready'', cap_version := ''v1'',
      cap_description := ''SMTP bound, store initialized, and management bound or explicitly off. Not an MCP tool.'',
      cap_idempotent := True, cap_rest_only := True,
      cap_rest := [rest_binding.make ''GET'' ''/v1/health/ready''] \<rparr>,
  no_capability \<lparr> cap_id := ''version.get'', cap_title := ''Version'', cap_version := ''v1'',
      cap_description := ''Build and protocol versions.'', cap_scopes := [''mail.read''], cap_idempotent := True,
      cap_output := Some ''Version'', cap_rest := [rest_binding.make ''GET'' ''/v1/version''],
      cap_mcp := Some (mcp_binding.make [''mail_version_get''] []), cap_methods := [''Version''] \<rparr>,
  no_capability \<lparr> cap_id := ''capabilities.get'', cap_title := ''Capabilities'', cap_version := ''v1'',
      cap_description := ''Capability list and protocol metadata.'', cap_scopes := [''mail.read''],
      cap_idempotent := True, cap_output := Some ''CapabilityView'',
      cap_rest := [rest_binding.make ''GET'' ''/v1/capabilities''],
      cap_mcp := Some (mcp_binding.make [''mail_capabilities_get''] [''labmail://capabilities'']),
      cap_methods := [''Capabilities''] \<rparr>,
  no_capability \<lparr> cap_id := ''status.get'', cap_title := ''Agent status'', cap_version := ''v1'',
      cap_description := ''Listeners, store stats, and revisions.'', cap_scopes := [''mail.read''],
      cap_idempotent := True, cap_output := Some ''Status'',
      cap_rest := [rest_binding.make ''GET'' ''/v1/status''],
      cap_mcp := Some (mcp_binding.make [''mail_status_get''] [''labmail://status'']),
      cap_methods := [''Status''] \<rparr>,
  no_capability \<lparr> cap_id := ''schema.get'', cap_title := ''Config schema'', cap_version := ''v1'',
      cap_description := ''Published v1alpha1 config JSON Schema.'', cap_scopes := [''mail.read''],
      cap_idempotent := True, cap_rest := [rest_binding.make ''GET'' ''/v1/schema/config''],
      cap_mcp := Some (mcp_binding.make [''mail_schema_get''] [''labmail://schema/config'']),
      cap_methods := [''ConfigSchema''] \<rparr>,
  no_capability \<lparr> cap_id := ''state.get'', cap_title := ''Get state'', cap_version := ''v1'',
      cap_description := ''Redacted spec plus revision metadata.'', cap_scopes := [''mail.read''],
      cap_idempotent := True, cap_output := Some ''StateView'',
      cap_rest := [rest_binding.make ''GET'' ''/v1/state''],
      cap_mcp := Some (mcp_binding.make [''mail_state_get''] [''labmail://state'']),
      cap_methods := [''GetState''] \<rparr>,
  no_capability \<lparr> cap_id := ''state.validate'', cap_title := ''Validate'', cap_version := ''v1'',
      cap_description := ''Validate a candidate document and/or operations without writing.'',
      cap_scopes := [''mail.admin''], cap_idempotent := True, cap_input := Some ''ValidateIn'',
      cap_output := Some ''Plan'', cap_rest := [rest_binding.make ''POST'' ''/v1/state:validate''],
      cap_mcp := Some (mcp_binding.make [''mail_state_validate''] []), cap_methods := [''Validate''] \<rparr>,
  no_capability \<lparr> cap_id := ''state.export'', cap_title := ''Export'', cap_version := ''v1'',
      cap_description := ''Canonical desired-state export plus drift material.'', cap_scopes := [''mail.admin''],
      cap_idempotent := True, cap_output := Some ''Export'',
      cap_rest := [rest_binding.make ''GET'' ''/v1/state:export''],
      cap_mcp := Some (mcp_binding.make [''mail_state_export''] []), cap_methods := [''Export''] \<rparr>,
  no_capability \<lparr> cap_id := ''state.reset'', cap_title := ''Reset'', cap_version := ''v1'',
      cap_description := ''Reread the bootstrap mount, wipe the inbox, and swap. Never writes the file.'',
      cap_scopes := [''mail.admin''], cap_mutating := True, cap_input := Some ''ResetIn'',
      cap_output := Some ''ApplyResult'', cap_rest := [rest_binding.make ''POST'' ''/v1/state:reset''],
      cap_mcp := Some (mcp_binding.make [''mail_state_reset''] []), cap_methods := [''Reset''] \<rparr>,
  no_capability \<lparr> cap_id := ''changes.plan'', cap_title := ''Plan'', cap_version := ''v1'',
      cap_description := ''Dry-run operations against the active snapshot.'', cap_scopes := [''mail.admin''],
      cap_idempotent := True, cap_input := Some ''ChangeIn'', cap_output := Some ''Plan'',
      cap_rest := [rest_binding.make ''POST'' ''/v1/changes:plan''],
      cap_mcp := Some (mcp_binding.make [''mail_change_plan''] []), cap_methods := [''Plan''] \<rparr>,
  no_capability \<lparr> cap_id := ''changes.apply'', cap_title := ''Apply'', cap_version := ''v1'',
      cap_description := ''Apply operations. expectedRevision is required.'', cap_scopes := [''mail.admin''],
      cap_mutating := True, cap_idempotent := True, cap_input := Some ''ChangeIn'',
      cap_output := Some ''ApplyResult'', cap_rest := [rest_binding.make ''POST'' ''/v1/changes:apply''],
      cap_mcp := Some (mcp_binding.make [''mail_change_apply''] []), cap_methods := [''Apply''] \<rparr>,
  no_capability \<lparr> cap_id := ''session.create'', cap_title := ''Create session'', cap_version := ''v1'',
      cap_description := ''Cookie + CSRF session for the inbox UI. Accepts bearer or basic.'',
      cap_mutating := True, cap_rest_only := True,
      cap_rest := [rest_binding.make ''POST'' ''/v1/session''] \<rparr>,
  no_capability \<lparr> cap_id := ''session.delete'', cap_title := ''Delete session'', cap_version := ''v1'',
      cap_description := ''Clear the inbox UI session cookie.'', cap_mutating := True, cap_idempotent := True,
      cap_rest_only := True, cap_rest := [rest_binding.make ''DELETE'' ''/v1/session''] \<rparr>,
  no_capability \<lparr> cap_id := ''session.get'', cap_title := ''Get session'', cap_version := ''v1'',
      cap_description := ''Current session principal (cookie or bearer).'', cap_idempotent := True,
      cap_rest_only := True, cap_rest := [rest_binding.make ''GET'' ''/v1/session''] \<rparr>,
  no_capability \<lparr> cap_id := ''events.stream'', cap_title := ''Events stream'', cap_version := ''v1'',
      cap_description := ''REST SSE inbox events. MCP uses subscriptions/listen URI-only notify.'',
      cap_scopes := [''mail.read''], cap_idempotent := True, cap_different := True,
      cap_rest := [rest_binding.make ''GET'' ''/v1/events/stream''],
      cap_mcp := Some (mcp_binding.make [] [''labmail://messages'']), cap_methods := [''Subscribe''] \<rparr>,
  no_capability \<lparr> cap_id := ''messages.list'', cap_title := ''List messages'', cap_version := ''v1'',
      cap_description := ''Cursor-paginated inbox list. HMAC cursors bind storeGeneration.'',
      cap_scopes := [''mail.read''], cap_idempotent := True, cap_output := Some ''MessageList'',
      cap_rest := [rest_binding.make ''GET'' ''/v1/messages''],
      cap_mcp := Some (mcp_binding.make [''mail_messages_list''] [''labmail://messages'']),
      cap_methods := [''ListMessages''] \<rparr>,
  no_capability \<lparr> cap_id := ''messages.get'', cap_title := ''Get message'', cap_version := ''v1'',
      cap_description := ''Full message. markRead defaults to false on the native path.'',
      cap_scopes := [''mail.read''], cap_idempotent := True, cap_output := Some ''Message'',
      cap_rest := [rest_binding.make ''GET'' ''/v1/messages/{id}''],
      cap_mcp := Some (mcp_binding.make [''mail_message_get''] [''labmail://messages/{id}'']),
      cap_methods := [''GetMessage''] \<rparr>,
  no_capability \<lparr> cap_id := ''messages.raw'', cap_title := ''Raw message'', cap_version := ''v1'',
      cap_description := ''RFC 822 source (message/rfc822).'', cap_scopes := [''mail.read''],
      cap_idempotent := True, cap_rest := [rest_binding.make ''GET'' ''/v1/messages/{id}/raw''],
      cap_mcp := Some (mcp_binding.make [''mail_message_raw_get''] []), cap_methods := [''GetMessage''] \<rparr>,
  no_capability \<lparr> cap_id := ''messages.html'', cap_title := ''HTML body'', cap_version := ''v1'',
      cap_description := ''Raw HTML body with no CSP. Not the sandboxed preview.'',
      cap_scopes := [''mail.read''], cap_idempotent := True,
      cap_rest := [rest_binding.make ''GET'' ''/v1/messages/{id}/html''],
      cap_mcp := Some (mcp_binding.make [''mail_message_html_get''] []), cap_methods := [''GetMessage''] \<rparr>,
  no_capability \<lparr> cap_id := ''messages.preview'', cap_title := ''HTML preview'', cap_version := ''v1'',
      cap_description := ''CSP document for the sandboxed iframe. cid: rewritten to data: URLs.'',
      cap_scopes := [''mail.read''], cap_idempotent := True, cap_rest_only := True,
      cap_rest := [rest_binding.make ''GET'' ''/v1/messages/{id}/preview''],
      cap_methods := [''GetMessage''] \<rparr>,
  no_capability \<lparr> cap_id := ''messages.delete'', cap_title := ''Delete message'', cap_version := ''v1'',
      cap_description := ''Delete one message by id.'', cap_scopes := [''mail.write''], cap_mutating := True,
      cap_idempotent := True, cap_rest := [rest_binding.make ''DELETE'' ''/v1/messages/{id}''],
      cap_mcp := Some (mcp_binding.make [''mail_message_delete''] []), cap_methods := [''DeleteMessage''] \<rparr>,
  no_capability \<lparr> cap_id := ''messages.clear'', cap_title := ''Clear inbox'', cap_version := ''v1'',
      cap_description := ''Delete every message. Does not bump epoch.'', cap_scopes := [''mail.write''],
      cap_mutating := True, cap_idempotent := True, cap_rest := [rest_binding.make ''DELETE'' ''/v1/messages''],
      cap_mcp := Some (mcp_binding.make [''mail_messages_clear''] []), cap_methods := [''ClearMessages''] \<rparr>,
  no_capability \<lparr> cap_id := ''messages.read_all'', cap_title := ''Mark all read'', cap_version := ''v1'',
      cap_description := ''Set every read bit. Does not bump storeGeneration.'', cap_scopes := [''mail.write''],
      cap_mutating := True, cap_idempotent := True,
      cap_rest := [rest_binding.make ''POST'' ''/v1/messages:read-all''],
      cap_mcp := Some (mcp_binding.make [''mail_messages_read_all''] []),
      cap_methods := [''MarkAllRead''] \<rparr>,
  no_capability \<lparr> cap_id := ''messages.read'', cap_title := ''Mark message read'', cap_version := ''v1'',
      cap_description := ''Set one message read bit. Does not bump storeGeneration.'',
      cap_scopes := [''mail.write''], cap_mutating := True, cap_idempotent := True,
      cap_rest := [rest_binding.make ''POST'' ''/v1/messages/{id}:read''],
      cap_mcp := Some (mcp_binding.make [''mail_message_read''] []), cap_methods := [''MarkRead''] \<rparr>,
  no_capability \<lparr> cap_id := ''messages.wait'', cap_title := ''Wait for message'', cap_version := ''v1'',
      cap_description := ''Block until a matching message arrives or the timeout fires.'',
      cap_scopes := [''mail.read''], cap_idempotent := True, cap_input := Some ''WaitIn'',
      cap_output := Some ''Message'', cap_rest := [rest_binding.make ''POST'' ''/v1/messages:wait''],
      cap_mcp := Some (mcp_binding.make [''mail_messages_wait''] []), cap_methods := [''Wait''] \<rparr>,
  no_capability \<lparr> cap_id := ''messages.extract'', cap_title := ''Extract tokens'', cap_version := ''v1'',
      cap_description := ''Extract URLs and OTP-like tokens using the frozen RE2 set.'',
      cap_scopes := [''mail.read''], cap_idempotent := True, cap_output := Some ''ExtractResult'',
      cap_rest := [rest_binding.make ''POST'' ''/v1/messages/{id}:extract''],
      cap_mcp := Some (mcp_binding.make [''mail_message_extract''] []), cap_methods := [''Extract''] \<rparr>,
  no_capability \<lparr> cap_id := ''attachments.get'', cap_title := ''Get attachment'', cap_version := ''v1'',
      cap_description := ''Download one attachment. Content-Disposition: attachment.'',
      cap_scopes := [''mail.read''], cap_idempotent := True,
      cap_rest := [rest_binding.make ''GET'' ''/v1/messages/{id}/attachments/{attId}''],
      cap_mcp := Some (mcp_binding.make [''mail_attachment_get''] []), cap_methods := [''GetMessage''] \<rparr>,
  no_capability \<lparr> cap_id := ''audit.list'', cap_title := ''Audit list'', cap_version := ''v1'',
      cap_description := ''Query recent in-memory audit events.'', cap_scopes := [''mail.audit.read''],
      cap_idempotent := True, cap_input := Some ''AuditQuery'', cap_output := Some ''AuditList'',
      cap_rest := [rest_binding.make ''GET'' ''/v1/audit''],
      cap_mcp := Some (mcp_binding.make [''mail_audit_query''] [''labmail://audit/recent'']),
      cap_methods := [''QueryAudit''] \<rparr>,
  no_capability \<lparr> cap_id := ''audit.get'', cap_title := ''Audit get'', cap_version := ''v1'',
      cap_description := ''Get one audit event by ID.'', cap_scopes := [''mail.audit.read''],
      cap_idempotent := True, cap_output := Some ''AuditEvent'',
      cap_rest := [rest_binding.make ''GET'' ''/v1/audit/{eventId}''],
      cap_mcp := Some (mcp_binding.make [''mail_audit_get''] []), cap_methods := [''GetAudit''] \<rparr>,
  no_capability \<lparr> cap_id := ''metrics.get'', cap_title := ''Metrics'', cap_version := ''v1'',
      cap_description := ''OpenMetrics text. Served only when observability.metrics.publicPath is true.'',
      cap_scopes := [''mail.read''], cap_idempotent := True, cap_rest_only := True,
      cap_rest := [rest_binding.make ''GET'' ''/v1/metrics''] \<rparr>]"

section \<open>The registry\<close>

record indexes =
  ix_all :: "capability list"
  ix_by_id :: "(bytes \<times> capability) list"
  ix_by_rest :: "(bytes \<times> capability) list"
  ix_by_tool :: "(bytes \<times> capability list) list"
  ix_by_res :: "(bytes \<times> capability) list"

fun index_rest :: "capability \<Rightarrow> rest_binding list \<Rightarrow> (bytes \<times> capability) list \<Rightarrow> bytes + (bytes \<times> capability) list" where
  "index_rest c [] m = Inr m"
| "index_rest c (b # bs) m =
     (if lookup m (rest_ref b) \<noteq> None then Inl (''capabilities: duplicate REST binding '' @ rest_ref b)
      else index_rest c bs (AList.update (rest_ref b) c m))"

definition index_tool :: "capability \<Rightarrow> bytes \<Rightarrow> (bytes \<times> capability list) list \<Rightarrow> (bytes \<times> capability list) list" where
  "index_tool c t m = AList.update t ((case lookup m t of None \<Rightarrow> [] | Some cs \<Rightarrow> cs) @ [c]) m"

definition index_resource :: "capability \<Rightarrow> bytes \<Rightarrow> (bytes \<times> capability) list \<Rightarrow> (bytes \<times> capability) list" where
  "index_resource c r m = (if lookup m r \<noteq> None then m else AList.update r c m)"

text \<open>\<open>Inl\<close> is the panic of a duplicate.\<close>

fun index_all :: "capability list \<Rightarrow> indexes \<Rightarrow> bytes + indexes" where
  "index_all [] ix = Inr ix"
| "index_all (c # cs) ix =
     (if lookup (ix_by_id ix) (cap_id c) \<noteq> None then Inl (''capabilities: duplicate id '' @ cap_id c)
      else case index_rest c (cap_rest c) (ix_by_rest ix) of
          Inl m \<Rightarrow> Inl m
        | Inr rm \<Rightarrow> (let ix1 = ix \<lparr> ix_by_id := AList.update (cap_id c) c (ix_by_id ix), ix_by_rest := rm \<rparr> in
            index_all cs (case cap_mcp c of
                None \<Rightarrow> ix1
              | Some mb \<Rightarrow> ix1 \<lparr> ix_by_tool := fold (index_tool c) (mb_tools mb) (ix_by_tool ix1),
                  ix_by_res := fold (index_resource c) (mb_resources mb) (ix_by_res ix1) \<rparr>)))"

definition new_indexes :: "capability list \<Rightarrow> bytes + indexes" where
  "new_indexes caps = index_all caps \<lparr> ix_all = caps, ix_by_id = [], ix_by_rest = [], ix_by_tool = [], ix_by_res = [] \<rparr>"

definition registry :: indexes where
  "registry = (case new_indexes catalog of Inr ix \<Rightarrow> ix
     | Inl m \<Rightarrow> \<lparr> ix_all = [], ix_by_id = [], ix_by_rest = [], ix_by_tool = [], ix_by_res = [] \<rparr>)"

definition lookup_cap :: "bytes \<Rightarrow> capability option" where
  "lookup_cap i = lookup (ix_by_id registry) i"

definition lookup_rest :: "bytes \<Rightarrow> bytes \<Rightarrow> capability option" where
  "lookup_rest m p = lookup (ix_by_rest registry) (rest_ref \<lparr> rb_method = m, rb_path = p \<rparr>)"

definition lookup_tool :: "bytes \<Rightarrow> capability list" where
  "lookup_tool t = (case lookup (ix_by_tool registry) t of None \<Rightarrow> [] | Some cs \<Rightarrow> cs)"

definition lookup_resource :: "bytes \<Rightarrow> capability option" where
  "lookup_resource r = lookup (ix_by_res registry) r"

text \<open>The first occurrence of each name, in order.\<close>

definition first_seen :: "bytes list \<Rightarrow> bytes list" where
  "first_seen xs = rev (remdups (rev xs))"

definition tool_names :: "bytes list" where
  "tool_names = first_seen (concat (map (\<lambda>c. case cap_mcp c of None \<Rightarrow> [] | Some mb \<Rightarrow> mb_tools mb) (ix_all registry)))"

definition resource_names :: "bytes list" where
  "resource_names = first_seen (concat (map (\<lambda>c. case cap_mcp c of None \<Rightarrow> [] | Some mb \<Rightarrow> mb_resources mb) (ix_all registry)))"

record discovery =
  ds_name :: bytes
  ds_version :: bytes
  ds_description :: bytes
  ds_mutating :: bool
  ds_idempotent :: bool

definition discovery_names :: "capability \<Rightarrow> bytes list" where
  "discovery_names c = (case cap_mcp c of
       None \<Rightarrow> [cap_id c]
     | Some mb \<Rightarrow> if cap_rest_only c \<or> mb_tools mb = [] then [cap_id c] else mb_tools mb)"

fun discovery_from :: "bytes list \<Rightarrow> (capability \<times> bytes) list \<Rightarrow> discovery list" where
  "discovery_from seen [] = []"
| "discovery_from seen ((c, n) # xs) =
     (if n \<in> set seen then discovery_from seen xs
      else \<lparr> ds_name = n, ds_version = cap_version c, ds_description = cap_description c, ds_mutating = cap_mutating c,
          ds_idempotent = cap_idempotent c \<rparr> # discovery_from (n # seen) xs)"

definition discovery_list :: "discovery list" where
  "discovery_list = discovery_from [] (concat (map (\<lambda>c. map (Pair c) (discovery_names c)) (ix_all registry)))"

definition session_capability :: "bytes \<Rightarrow> bool" where
  "session_capability i = (i \<in> {''session.create'', ''session.delete'', ''session.get''})"

definition table_row_count :: nat where "table_row_count = 31"

definition has_mcp :: "capability \<Rightarrow> bool" where
  "has_mcp c = (case cap_mcp c of None \<Rightarrow> False | Some mb \<Rightarrow> mb_tools mb \<noteq> [] \<or> mb_resources mb \<noteq> [])"

definition validate_capability :: "capability \<Rightarrow> bytes option" where
  "validate_capability c =
     (if cap_id c = [] \<or> cap_title c = [] \<or> cap_version c = [] then Some (''capability missing id/title/version'')
      else if cap_rest c = [] then Some (cap_id c @ '': no REST binding'')
      else if cap_rest_only c then
        (if has_mcp c then Some (cap_id c @ '': REST-only row must not declare MCP tools/resources'') else None)
      else if cap_different c then
        (if has_mcp c then None else Some (cap_id c @ '': different-binding row needs MCP tools or resources''))
      else case cap_mcp c of
          None \<Rightarrow> Some (cap_id c @ '': missing MCP tool'')
        | Some mb \<Rightarrow> if mb_tools mb = [] then Some (cap_id c @ '': missing MCP tool'') else None)"

definition validate_catalog :: "capability list \<Rightarrow> bytes option" where
  "validate_catalog caps =
     (if length caps \<noteq> table_row_count then Some ''catalog has the wrong number of rows''
      else case List.map_filter validate_capability caps of [] \<Rightarrow> None | m # ms \<Rightarrow> Some m)"

section \<open>What the registry holds\<close>

definition rest_refs :: "capability \<Rightarrow> bytes list" where
  "rest_refs c = map rest_ref (cap_rest c)"

lemma index_rest_sound:
  "index_rest c bs m = Inr m' \<Longrightarrow> distinct (map rest_ref bs) \<and> (\<forall>k \<in> rest_ref ` set bs. lookup m k = None) \<and>
    (\<forall>k. lookup m' k = (if k \<in> rest_ref ` set bs then Some c else lookup m k))"
proof (induction bs arbitrary: m)
  case (Cons b bs)
  then have n: "lookup m (rest_ref b) = None" and r: "index_rest c bs (AList.update (rest_ref b) c m) = Inr m'"
    by (auto split: if_splits)
  show ?case using Cons.IH[OF r] n by (auto split: if_splits)
qed auto

text \<open>
  Whatever table is indexed without a panic: its ids and REST bindings are distinct and looking one up
  gives the row that has it.
\<close>

lemma index_all_sound:
  "index_all cs ix = Inr ix' \<Longrightarrow> distinct (map cap_id cs) \<and> (\<forall>c \<in> set cs. lookup (ix_by_id ix) (cap_id c) = None) \<and>
    distinct (concat (map rest_refs cs)) \<and> (\<forall>k \<in> set (concat (map rest_refs cs)). lookup (ix_by_rest ix) k = None) \<and>
    ix_all ix' = ix_all ix \<and>
    (\<forall>i. lookup (ix_by_id ix') i = (case find (\<lambda>c. cap_id c = i) cs of None \<Rightarrow> lookup (ix_by_id ix) i | Some c \<Rightarrow> Some c)) \<and>
    (\<forall>k. lookup (ix_by_rest ix') k = (case find (\<lambda>c. k \<in> set (rest_refs c)) cs of
       None \<Rightarrow> lookup (ix_by_rest ix) k | Some c \<Rightarrow> Some c))"
proof (induction cs arbitrary: ix)
  case (Cons c cs)
  let ?ix = "\<lambda>rm. ix \<lparr> ix_by_id := AList.update (cap_id c) c (ix_by_id ix), ix_by_rest := rm \<rparr>"
  obtain rm where n: "lookup (ix_by_id ix) (cap_id c) = None" and r: "index_rest c (cap_rest c) (ix_by_rest ix) = Inr rm"
    and a: "index_all cs (case cap_mcp c of None \<Rightarrow> ?ix rm | Some mb \<Rightarrow> ?ix rm
      \<lparr> ix_by_tool := fold (index_tool c) (mb_tools mb) (ix_by_tool (?ix rm)),
        ix_by_res := fold (index_resource c) (mb_resources mb) (ix_by_res (?ix rm)) \<rparr>) = Inr ix'"
    using Cons.prems by (auto simp: Let_def split: if_splits sum.splits)
  obtain ix1 where x: "index_all cs ix1 = Inr ix'" "ix_all ix1 = ix_all ix"
      "ix_by_id ix1 = AList.update (cap_id c) c (ix_by_id ix)" "ix_by_rest ix1 = rm"
    using a by (cases "cap_mcp c") auto
  have fnd: "find P cs = None" if "\<forall>y \<in> set cs. \<not> P y" for P using that by (induction cs) auto
  note IH = Cons.IH[OF x(1), unfolded x(3,4)]
  have idx: "\<forall>d \<in> set cs. cap_id d \<noteq> cap_id c \<and> lookup (ix_by_id ix) (cap_id d) = None"
    using IH by (metis lookup_update option.distinct(1))
  have dr: "distinct (rest_refs c)" using index_rest_sound[OF r] by (simp add: rest_refs_def)
  have rr: "\<forall>k \<in> set (rest_refs c). lookup rm k = Some c \<and> lookup (ix_by_rest ix) k = None"
    using index_rest_sound[OF r] by (auto simp: rest_refs_def)
  have ro: "k \<notin> set (rest_refs c) \<Longrightarrow> lookup rm k = lookup (ix_by_rest ix) k" for k
    using index_rest_sound[OF r] by (auto simp: rest_refs_def)
  have cs: "\<forall>d \<in> set cs. \<forall>k \<in> set (rest_refs d). k \<notin> set (rest_refs c) \<and> lookup (ix_by_rest ix) k = None"
  proof (intro ballI)
    fix d k assume "d \<in> set cs" "k \<in> set (rest_refs d)"
    then have "lookup rm k = None" using IH by auto
    then show "k \<notin> set (rest_refs c) \<and> lookup (ix_by_rest ix) k = None" using rr ro[of k] by auto
  qed
  have f1: "find (\<lambda>d. cap_id d = cap_id c) cs = None" using idx by (intro fnd) auto
  have f2: "k \<in> set (rest_refs c) \<Longrightarrow> find (\<lambda>d. k \<in> set (rest_refs d)) cs = None" for k using cs by (intro fnd) auto
  have ids: "distinct (map cap_id (c # cs))" "\<forall>d \<in> set (c # cs). lookup (ix_by_id ix) (cap_id d) = None"
    using IH idx n by auto
  have refs: "distinct (concat (map rest_refs (c # cs)))" "\<forall>k \<in> set (concat (map rest_refs (c # cs))). lookup (ix_by_rest ix) k = None"
    using IH cs rr dr by auto
  have by_id: "\<forall>i. lookup (ix_by_id ix') i = (case find (\<lambda>d. cap_id d = i) (c # cs) of
      None \<Rightarrow> lookup (ix_by_id ix) i | Some d \<Rightarrow> Some d)"
    using IH f1 by (auto split: option.splits)
  have by_rest: "\<forall>k. lookup (ix_by_rest ix') k = (case find (\<lambda>d. k \<in> set (rest_refs d)) (c # cs) of
      None \<Rightarrow> lookup (ix_by_rest ix) k | Some d \<Rightarrow> Some d)"
  proof
    fix k show "lookup (ix_by_rest ix') k = (case find (\<lambda>d. k \<in> set (rest_refs d)) (c # cs) of
      None \<Rightarrow> lookup (ix_by_rest ix) k | Some d \<Rightarrow> Some d)"
      using IH f2[of k] rr ro[of k] by (cases "k \<in> set (rest_refs c)") (auto split: option.splits)
  qed
  have all: "ix_all ix' = ix_all ix" using IH x(2) by simp
  show ?case by (rule conjI[OF ids(1) conjI[OF ids(2) conjI[OF refs(1) conjI[OF refs(2) conjI[OF all conjI[OF by_id by_rest]]]]]])
qed auto

lemma index_rest_total:
  "distinct (map rest_ref bs) \<Longrightarrow> \<forall>k \<in> rest_ref ` set bs. lookup m k = None \<Longrightarrow> \<exists>m'. index_rest c bs m = Inr m'"
proof (induction bs arbitrary: m)
  case (Cons b bs)
  then have "\<exists>m'. index_rest c bs (AList.update (rest_ref b) c m) = Inr m'" by (intro Cons.IH) (auto simp: image_iff)
  then show ?case using Cons.prems by auto
qed simp

lemma index_all_total:
  "distinct (map cap_id cs) \<Longrightarrow> \<forall>c \<in> set cs. lookup (ix_by_id ix) (cap_id c) = None \<Longrightarrow>
    distinct (concat (map rest_refs cs)) \<Longrightarrow> \<forall>k \<in> set (concat (map rest_refs cs)). lookup (ix_by_rest ix) k = None \<Longrightarrow>
    \<exists>ix'. index_all cs ix = Inr ix'"
proof (induction cs arbitrary: ix)
  case (Cons c cs)
  obtain rm where r: "index_rest c (cap_rest c) (ix_by_rest ix) = Inr rm"
    using index_rest_total[of "cap_rest c" "ix_by_rest ix" c] Cons.prems(3,4) by (auto simp: rest_refs_def)
  have ro: "k \<notin> set (rest_refs c) \<Longrightarrow> lookup rm k = lookup (ix_by_rest ix) k" for k
    using index_rest_sound[OF r] by (auto simp: rest_refs_def)
  have "\<forall>k \<in> set (concat (map rest_refs cs)). k \<notin> set (rest_refs c) \<and> lookup (ix_by_rest ix) k = None"
    using Cons.prems(3,4) by auto
  then have "\<forall>k \<in> set (concat (map rest_refs cs)). lookup rm k = None" using ro by metis
  then have "\<exists>ix'. index_all cs ix1 = Inr ix'" if "ix_by_id ix1 = AList.update (cap_id c) c (ix_by_id ix)" "ix_by_rest ix1 = rm"
    for ix1 using Cons.prems that by (intro Cons.IH) (auto simp: image_iff)
  then show ?case using Cons.prems(2) r by (auto simp: Let_def split: option.splits)
qed simp

lemma catalog_ids: "distinct (map cap_id catalog)"
  by code_simp

lemma catalog_refs: "distinct (concat (map rest_refs catalog))"
  by code_simp

lemma catalog_indexed: "\<exists>ix. new_indexes catalog = Inr ix"
  unfolding new_indexes_def using catalog_ids catalog_refs by (intro index_all_total) simp_all

lemma catalog_ok: "validate_catalog catalog = None"
  by code_simp

text \<open>The table passes its own check at start-up and its indexing does not panic: ids and REST
  bindings are distinct, and a lookup by id or by method and path gives exactly the row of the table
  that has it.\<close>

lemma registry_sound:
  "validate_catalog catalog = None \<and> new_indexes catalog = Inr registry \<and> distinct (map cap_id catalog) \<and>
    distinct (concat (map rest_refs catalog)) \<and> lookup_cap i = find (\<lambda>c. cap_id c = i) catalog \<and>
    lookup_rest m p = find (\<lambda>c. rest_ref \<lparr> rb_method = m, rb_path = p \<rparr> \<in> set (rest_refs c)) catalog"
proof -
  obtain ix where ix: "new_indexes catalog = Inr ix" using catalog_indexed by blast
  then have "registry = ix" by (simp add: registry_def)
  then show ?thesis using index_all_sound[OF ix[unfolded new_indexes_def]] catalog_ok ix
    by (auto simp: lookup_cap_def lookup_rest_def split: option.splits)
qed

end
