(* ===== verification/Rest_Routes.thy ===== *)
theory Rest_Routes
  imports Api_Catalog
begin

text \<open>
  The route table of the management API (\<^verbatim>\<open>internal/control/rest/mux.go\<close>): the path templates of the registry
  compiled to segments, and the match of a request's path.  \<open>Inl ()\<close> is the panic of a slice whose bounds
  cross.
\<close>

section \<open>Compiling the table\<close>

record path_seg =
  ps_wild :: bytes
  ps_lit :: bytes
  ps_suffix :: bytes

record route =
  rt_method :: bytes
  rt_path :: bytes
  rt_segs :: "path_seg list"
  rt_cap :: capability
  rt_binding :: rest_binding

definition compile_seg :: "bytes \<Rightarrow> path_seg" where
  "compile_seg p = (case (index_byte (CHR ''{'') p, index_byte (CHR ''}'') p) of
       (Some l, Some r) \<Rightarrow>
         if r > l then \<lparr> ps_wild = take (r - (l + 1)) (drop (l + 1) p), ps_lit = take l p, ps_suffix = drop (r + 1) p \<rparr>
         else \<lparr> ps_wild = [], ps_lit = p, ps_suffix = [] \<rparr>
     | _ \<Rightarrow> \<lparr> ps_wild = [], ps_lit = p, ps_suffix = [] \<rparr>)"

definition path_parts :: "bytes \<Rightarrow> bytes list" where
  "path_parts path = (let p = trim_prefix ''/'' path in if p = [] then [] else split_on (CHR ''/'') p)"

definition compile_path :: "bytes \<Rightarrow> path_seg list" where
  "compile_path path = map compile_seg (path_parts path)"

definition compile_routes :: "capability list \<Rightarrow> route list" where
  "compile_routes caps = concat (map (\<lambda>c. map (\<lambda>b. \<lparr> rt_method = to_upper (rb_method b), rt_path = rb_path b,
     rt_segs = compile_path (rb_path b), rt_cap = c, rt_binding = b \<rparr>) (cap_rest c)) caps)"

section \<open>Matching\<close>

type_synonym path_params = "(bytes \<times> bytes) list"

fun match_parts :: "path_seg list \<Rightarrow> bytes list \<Rightarrow> path_params \<Rightarrow> unit + path_params option" where
  "match_parts (s # ss) (p # ps) ks =
     (if ps_wild s = [] then (if p \<noteq> ps_lit s then Inr None else match_parts ss ps ks)
      else if \<not> has_prefix (ps_lit s) p \<or> \<not> has_suffix (ps_suffix s) p then Inr None
      else if length (ps_lit s) + length (ps_suffix s) > length p then Inl ()
      else let val = take (length p - length (ps_suffix s) - length (ps_lit s)) (drop (length (ps_lit s)) p)
        in if val = [] then Inr None else match_parts ss ps (AList.update (ps_wild s) val ks))"
| "match_parts ss ps ks = Inr (Some ks)"

definition match_segs :: "path_seg list \<Rightarrow> bytes \<Rightarrow> unit + path_params option" where
  "match_segs segs path = (let parts = path_parts path in
     if length parts \<noteq> length segs then Inr None else match_parts segs parts [])"

text \<open>The last route whose path fits, the parameters, whether a path fits and whether its method does.\<close>

fun match_route_from :: "route list \<Rightarrow> bytes \<Rightarrow> bytes \<Rightarrow> route option \<Rightarrow>
    unit + (route option \<times> path_params \<times> bool)" where
  "match_route_from [] meth path hit = Inr (hit, [], False)"
| "match_route_from (r # rs) meth path hit = (case match_segs (rt_segs r) path of
       Inl u \<Rightarrow> Inl u
     | Inr None \<Rightarrow> match_route_from rs meth path hit
     | Inr (Some ks) \<Rightarrow> if rt_method r = meth then Inr (Some r, ks, True) else match_route_from rs meth path (Some r))"

definition match_route :: "route list \<Rightarrow> bytes \<Rightarrow> bytes \<Rightarrow> unit + (route option \<times> path_params \<times> bool)" where
  "match_route routes meth path = match_route_from routes (to_upper meth) path None"

definition allowed_methods :: "route list \<Rightarrow> bytes \<Rightarrow> bytes" where
  "allowed_methods routes path = join '', '' (first_seen (map rt_method
     (filter (\<lambda>r. match_segs (rt_segs r) path \<notin> {Inl (), Inr None}) routes)))"

definition routes :: "route list" where
  "routes = compile_routes (ix_all registry)"

section \<open>Lemmas\<close>

text \<open>What a segment says of a part, and a segment filled with a parameter.\<close>

definition seg_fits :: "path_seg \<Rightarrow> bytes \<Rightarrow> bool" where
  "seg_fits s p = (if ps_wild s = [] then p = ps_lit s
     else \<exists>v. v \<noteq> [] \<and> p = ps_lit s @ v @ ps_suffix s)"

definition fill_seg :: "path_params \<Rightarrow> path_seg \<Rightarrow> bytes" where
  "fill_seg ks s = (if ps_wild s = [] then ps_lit s
     else ps_lit s @ (case lookup ks (ps_wild s) of None \<Rightarrow> [] | Some v \<Rightarrow> v) @ ps_suffix s)"

text \<open>No slice of a route panics when nothing stands before its wildcard, and its wildcards are distinct.\<close>

definition segs_ok :: "path_seg list \<Rightarrow> bool" where
  "segs_ok ss = (list_all (\<lambda>s. ps_wild s = [] \<or> ps_lit s = []) ss \<and> distinct (filter (\<lambda>w. w \<noteq> []) (map ps_wild ss)))"

text \<open>Two segments no part fits both of, and two templates no path fits both of.\<close>

definition seg_apart :: "path_seg \<Rightarrow> path_seg \<Rightarrow> bool" where
  "seg_apart s t =
     (if ps_wild s = [] then (if ps_wild t = [] then ps_lit s \<noteq> ps_lit t else \<not> has_suffix (ps_suffix t) (ps_lit s))
      else if ps_wild t = [] then \<not> has_suffix (ps_suffix s) (ps_lit t)
      else \<not> has_suffix (ps_suffix s) (ps_suffix t) \<and> \<not> has_suffix (ps_suffix t) (ps_suffix s))"

definition segs_apart :: "path_seg list \<Rightarrow> path_seg list \<Rightarrow> bool" where
  "segs_apart ss ts = (length ss \<noteq> length ts \<or> list_ex (\<lambda>(s, t). seg_apart s t) (zip ss ts))"

fun routes_apart :: "route list \<Rightarrow> bool" where
  "routes_apart [] = True"
| "routes_apart (r # rs) = (list_all (\<lambda>q. rt_method q = rt_method r \<longrightarrow> segs_apart (rt_segs r) (rt_segs q)) rs \<and> routes_apart rs)"

lemma seg_split:
  assumes "has_prefix l p" "has_suffix s p" "length l + length s \<le> length p"
  shows "p = l @ take (length p - length s - length l) (drop (length l) p) @ s"
proof -
  obtain r where p: "p = l @ r" using assms(1) has_prefix_iff by blast
  obtain q where q: "p = q @ s" using assms(2) has_suffix_iff by blast
  have "drop (length p - length s) p = s" by (simp add: q)
  then have "drop (length r - length s) r = s" using p assms(3) by simp
  then have "r = take (length r - length s) r @ s" by (metis append_take_drop_id)
  moreover have "length p - length s - length l = length r - length s" by (simp add: p)
  ultimately show ?thesis by (simp add: p)
qed

lemma suffix_comparable: "has_suffix a p \<Longrightarrow> has_suffix b p \<Longrightarrow> has_suffix a b \<or> has_suffix b a"
  by (auto simp: has_suffix_iff append_eq_append_conv2)

lemma seg_apart_sound:
  assumes "seg_fits s p" "seg_fits t p"
  shows "\<not> seg_apart s t"
  using assms suffix_comparable[of "ps_suffix s" p "ps_suffix t"]
  by (auto simp: seg_fits_def seg_apart_def has_suffix_iff split: if_splits)

lemma segs_apart_sound:
  assumes "list_all2 seg_fits ss ps" "list_all2 seg_fits ts ps"
  shows "\<not> segs_apart ss ts"
proof -
  have "length ss = length ts" using assms by (simp add: list_all2_lengthD)
  moreover have "\<not> seg_apart s t" if z: "(s, t) \<in> set (zip ss ts)" for s t
  proof -
    obtain i where "i < length ss" "s = ss ! i" "t = ts ! i" using z by (auto simp: set_zip)
    then show ?thesis using assms seg_apart_sound[of s "ps ! i" t] calculation by (auto simp: list_all2_conv_all_nth)
  qed
  ultimately show ?thesis by (auto simp: segs_apart_def list_ex_iff)
qed

lemma match_parts_total:
  "list_all (\<lambda>s. ps_wild s = [] \<or> ps_lit s = []) ss \<Longrightarrow> length ps = length ss \<Longrightarrow>
    \<exists>res. match_parts ss ps ks = Inr res \<and> (res \<noteq> None \<longleftrightarrow> list_all2 seg_fits ss ps)"
proof (induction ss ps ks rule: match_parts.induct)
  case (1 s ss p ps ks)
  show ?case
  proof (cases "ps_wild s = [] \<or> \<not> has_suffix (ps_suffix s) p")
    case True
    then show ?thesis using 1 by (auto simp: seg_fits_def has_suffix_iff)
  next
    case False
    then obtain v where v: "p = v @ ps_suffix s" by (auto simp: has_suffix_iff)
    have l: "ps_lit s = []" using False 1(3) by simp
    show ?thesis
    proof (cases "v = []")
      case True
      then show ?thesis using False l v by (auto simp: seg_fits_def Let_def)
    next
      case v2: False
      have w: "ps_wild s \<noteq> []" and x: "has_suffix (ps_suffix s) p" using False by auto
      have t: "take (length p - length (ps_suffix s) - length (ps_lit s)) (drop (length (ps_lit s)) p) = v"
        and n: "\<not> length (ps_lit s) + length (ps_suffix s) > length p" by (simp_all add: l v)
      have vn: "take (length p - length (ps_suffix s) - length (ps_lit s)) (drop (length (ps_lit s)) p) \<noteq> []"
        unfolding t by (rule v2)
      have step: "match_parts (s # ss) (p # ps) ks = match_parts ss ps (AList.update (ps_wild s) v ks)"
        using w x n v2 t by (simp add: l)
      have ih: "\<exists>res. match_parts ss ps (AList.update (ps_wild s) v ks) = Inr res \<and> (res \<noteq> None \<longleftrightarrow> list_all2 seg_fits ss ps)"
        using 1(2)[OF w _ n refl vn, unfolded t] 1(3,4) x l by simp
      have f: "seg_fits s p" using w v v2 l by (auto simp: seg_fits_def)
      show ?thesis unfolding step using ih f by simp
    qed
  qed
qed auto

lemma match_parts_fill:
  "match_parts ss ps ks = Inr (Some ks') \<Longrightarrow> length ps = length ss \<Longrightarrow> distinct (filter (\<lambda>w. w \<noteq> []) (map ps_wild ss)) \<Longrightarrow>
    map (fill_seg ks') ss = ps \<and> (\<forall>w. w \<notin> set (map ps_wild ss) \<or> w = [] \<longrightarrow> lookup ks' w = lookup ks w)"
proof (induction ss ps ks rule: match_parts.induct)
  case (1 s ss p ps ks)
  show ?case
  proof (cases "ps_wild s = []")
    case True
    then show ?thesis using 1 by (auto simp: fill_seg_def split: if_splits)
  next
    case False
    let ?v = "take (length p - length (ps_suffix s) - length (ps_lit s)) (drop (length (ps_lit s)) p)"
    have m: "has_prefix (ps_lit s) p" "has_suffix (ps_suffix s) p" "length (ps_lit s) + length (ps_suffix s) \<le> length p" "?v \<noteq> []"
        "match_parts ss ps (AList.update (ps_wild s) ?v ks) = Inr (Some ks')"
      using 1(3) False by (auto simp: Let_def split: if_splits)
    have ih: "map (fill_seg ks') ss = ps \<and> (\<forall>w. w \<notin> set (map ps_wild ss) \<or> w = [] \<longrightarrow>
        lookup ks' w = lookup (AList.update (ps_wild s) ?v ks) w)"
      using 1(2)[OF False _ _ refl _ m(5)] m(1-4) 1(4,5) False by auto
    then have "lookup ks' (ps_wild s) = Some ?v" using 1(5) False by auto
    then have "fill_seg ks' s = p" using False seg_split[OF m(1-3)] by (simp add: fill_seg_def)
    then show ?thesis using ih False by auto
  qed
qed auto

definition route_fits :: "bytes \<Rightarrow> route \<Rightarrow> bool" where
  "route_fits path r = list_all2 seg_fits (rt_segs r) (path_parts path)"

lemma match_segs_total:
  assumes "segs_ok (rt_segs r)"
  shows "\<exists>res. match_segs (rt_segs r) path = Inr res \<and> (res \<noteq> None \<longleftrightarrow> route_fits path r)"
proof (cases "length (path_parts path) = length (rt_segs r)")
  case True
  then show ?thesis using assms match_parts_total[of "rt_segs r" "path_parts path" "[]"]
    by (simp add: match_segs_def segs_ok_def route_fits_def)
qed (auto simp: match_segs_def route_fits_def dest: list_all2_lengthD)

lemma match_segs_fill:
  assumes "segs_ok segs" "match_segs segs path = Inr (Some ks)"
  shows "map (fill_seg ks) segs = path_parts path"
  using assms match_parts_fill[of segs "path_parts path" "[]" ks]
  by (auto simp: match_segs_def segs_ok_def Let_def split: if_splits)

text \<open>What the scan of a table answers: a hit of the method, or none and whether any path fits.\<close>

definition route_answer :: "route list \<Rightarrow> bytes \<Rightarrow> bytes \<Rightarrow> route option \<Rightarrow> route option \<times> path_params \<times> bool \<Rightarrow> bool" where
  "route_answer rs meth path hit ans = (case ans of (out, ks, ok) \<Rightarrow>
     if ok then \<exists>r. out = Some r \<and> r \<in> set rs \<and> route_fits path r \<and> rt_method r = meth \<and> match_segs (rt_segs r) path = Inr (Some ks)
     else list_all (\<lambda>r. \<not> (route_fits path r \<and> rt_method r = meth)) rs \<and>
       (out = None \<longleftrightarrow> hit = None \<and> list_all (\<lambda>r. \<not> route_fits path r) rs))"

lemma route_answer_skip: "route_answer rs meth path hit ans \<Longrightarrow> \<not> route_fits path r \<Longrightarrow> route_answer (r # rs) meth path hit ans"
  by (auto simp: route_answer_def split: prod.splits if_splits)

lemma route_answer_pass:
  "route_answer rs meth path (Some r) ans \<Longrightarrow> rt_method r \<noteq> meth \<Longrightarrow> route_fits path r \<Longrightarrow> route_answer (r # rs) meth path hit ans"
  by (auto simp: route_answer_def split: prod.splits if_splits)

lemma match_route_from_sound:
  "\<forall>r \<in> set rs. segs_ok (rt_segs r) \<Longrightarrow> \<exists>ans. match_route_from rs meth path hit = Inr ans \<and> route_answer rs meth path hit ans"
proof (induction rs arbitrary: hit)
  case Nil
  then show ?case by (simp add: route_answer_def)
next
  case (Cons r rs)
  obtain res where res: "match_segs (rt_segs r) path = Inr res" "res \<noteq> None \<longleftrightarrow> route_fits path r"
    using match_segs_total[of r path] Cons.prems by auto
  have ih: "\<exists>ans. match_route_from rs meth path h = Inr ans \<and> route_answer rs meth path h ans" for h
    using Cons.IH Cons.prems by simp
  show ?case
  proof (cases res)
    case None
    then show ?thesis using ih[of hit] res route_answer_skip by auto
  next
    case (Some ks)
    show ?thesis
    proof (cases "rt_method r = meth")
      case True
      then show ?thesis using Some res by (auto simp: route_answer_def)
    next
      case False
      then show ?thesis using Some ih[of "Some r"] res route_answer_pass by auto
    qed
  qed
qed

lemma routes_apart_unique:
  "routes_apart rs \<Longrightarrow> q \<in> set rs \<Longrightarrow> r \<in> set rs \<Longrightarrow> route_fits path q \<Longrightarrow> route_fits path r \<Longrightarrow> rt_method q = rt_method r \<Longrightarrow> q = r"
proof (induction rs)
  case (Cons x xs)
  have False if "y \<in> set xs" "route_fits path x" "route_fits path y" "rt_method x = rt_method y" for y
    using that Cons.prems(1) segs_apart_sound[of "rt_segs x" "path_parts path" "rt_segs y"]
    by (auto simp: list_all_iff route_fits_def)
  then show ?case using Cons by (metis routes_apart.simps(2) set_ConsD)
qed simp

lemma ix_all_registry: "ix_all registry = catalog"
  using catalog_indexed index_all_sound[of catalog] by (auto simp: registry_def new_indexes_def)

lemma routes_catalog: "routes = compile_routes catalog"
  by (simp add: routes_def ix_all_registry)

lemma routes_ok: "list_all (\<lambda>r. segs_ok (rt_segs r)) routes"
  unfolding routes_catalog by code_simp

lemma routes_disjoint: "routes_apart routes"
  unfolding routes_catalog by code_simp

text \<open>C28.  Routing is a function of the request: it never panics, and whatever the method and the path,
  either exactly one route of the table has the method and fits the path, that route is found and its
  template filled with the parameters gives back the path's segments; or none has, and then the answer
  tells a path no route fits from one that other methods of the table serve.\<close>

theorem routing_unique:
  "\<exists>hit ks ok. match_route routes meth path = Inr (hit, ks, ok) \<and>
    (if ok then \<exists>r. hit = Some r \<and> {q \<in> set routes. route_fits path q \<and> rt_method q = to_upper meth} = {r} \<and>
         map (fill_seg ks) (rt_segs r) = path_parts path
     else {q \<in> set routes. route_fits path q \<and> rt_method q = to_upper meth} = {} \<and>
         (hit = None \<longleftrightarrow> {q \<in> set routes. route_fits path q} = {}))"
proof -
  have ok: "\<forall>r \<in> set routes. segs_ok (rt_segs r)" using routes_ok by (simp add: list_all_iff)
  obtain out ks good where m: "match_route routes meth path = Inr (out, ks, good)"
    and s: "route_answer routes (to_upper meth) path None (out, ks, good)"
    using match_route_from_sound[OF ok, of "to_upper meth" path None] by (auto simp: match_route_def)
  show ?thesis
  proof (cases good)
    case True
    then obtain r where r: "out = Some r" "r \<in> set routes" "route_fits path r" "rt_method r = to_upper meth"
        "match_segs (rt_segs r) path = Inr (Some ks)" using s by (auto simp: route_answer_def)
    have "q = r" if q: "q \<in> set routes" "route_fits path q" "rt_method q = to_upper meth" for q
      using routes_apart_unique[OF routes_disjoint q(1) r(2) q(2) r(3)] q(3) r(4) by simp
    then have "{q \<in> set routes. route_fits path q \<and> rt_method q = to_upper meth} = {r}" using r(2-4) by blast
    moreover have "map (fill_seg ks) (rt_segs r) = path_parts path" using match_segs_fill[OF _ r(5)] ok r(2) by blast
    ultimately show ?thesis using m r(1) True by (intro exI[of _ out] exI[of _ ks] exI[of _ True]) simp
  next
    case False
    then show ?thesis using m s by (intro exI[of _ out] exI[of _ ks] exI[of _ False]) (auto simp: route_answer_def list_all_iff)
  qed
qed

end
