(* ===== verification/Rest_Cursor.thy ===== *)
theory Rest_Cursor
  imports Smtp_Args Domain_Err
begin

text \<open>
  The list cursors of the management API (\<^verbatim>\<open>internal/control/rest/cursor.go\<close>): a message id and the store
  generation under a MAC, in the URL alphabet of base64 without padding.  HMAC-SHA256 is the argument
  \<open>hmac\<close>, of a key and a text.
\<close>

section \<open>Base64 in the URL alphabet\<close>

definition b64_char :: "nat \<Rightarrow> char" where
  "b64_char n = (if n < 26 then char_of (n + 65) else if n < 52 then char_of (n + 71) else if n < 62 then char_of (n - 4)
     else if n = 62 then CHR ''-'' else CHR ''_'')"

fun b64url_encode :: "bytes \<Rightarrow> bytes" where
  "b64url_encode [] = []"
| "b64url_encode [a] = [b64_char (byte_val a div 4), b64_char (byte_val a mod 4 * 16)]"
| "b64url_encode [a, b] = [b64_char (byte_val a div 4), b64_char (byte_val a mod 4 * 16 + byte_val b div 16),
     b64_char (byte_val b mod 16 * 4)]"
| "b64url_encode (a # b # c # rest) = [b64_char (byte_val a div 4), b64_char (byte_val a mod 4 * 16 + byte_val b div 16),
     b64_char (byte_val b mod 16 * 4 + byte_val c div 64), b64_char (byte_val c mod 64)] @ b64url_encode rest"

definition std_char :: "char \<Rightarrow> char" where
  "std_char c = (if c = CHR ''-'' then CHR ''+'' else if c = CHR ''_'' then CHR ''/'' else c)"

definition b64url_decode :: "bytes \<Rightarrow> bytes option" where
  "b64url_decode s = (if CHR ''+'' \<in> set s \<or> CHR ''/'' \<in> set s then None else b64_decode False (map std_char s))"

section \<open>Cursors\<close>

definition cursor_id_len :: nat where "cursor_id_len = 26"
definition cursor_gen_len :: nat where "cursor_gen_len = 8"
definition cursor_mac_len :: nat where "cursor_mac_len = 32"
definition cursor_raw_len :: nat where "cursor_raw_len = cursor_id_len + cursor_gen_len + cursor_mac_len"

fun be_bytes :: "nat \<Rightarrow> nat \<Rightarrow> bytes" where
  "be_bytes 0 g = []"
| "be_bytes (Suc n) g = be_bytes n (g div 256) @ [char_of (g mod 256)]"

definition be_value :: "bytes \<Rightarrow> nat" where
  "be_value s = foldl (\<lambda>v c. v * 256 + byte_val c) 0 s"

text \<open>\<^verbatim>\<open>copy\<close> of a text into the first \<open>n\<close> bytes of a zeroed buffer.\<close>

definition copy_into :: "nat \<Rightarrow> bytes \<Rightarrow> bytes" where
  "copy_into n s = take n s @ replicate (n - length s) (CHR 0x00)"

definition encode_cursor :: "(bytes \<Rightarrow> bytes \<Rightarrow> bytes) \<Rightarrow> bytes \<Rightarrow> bytes \<Rightarrow> nat \<Rightarrow> bytes" where
  "encode_cursor hmac key mid gen =
     (if mid = [] then []
      else let head = take cursor_id_len (copy_into cursor_raw_len mid) @ be_bytes cursor_gen_len gen
           in b64url_encode (head @ copy_into cursor_mac_len (hmac key head)))"

definition invalid_cursor :: domain_error where
  "invalid_cursor = validation_failed ''invalid cursor'' [\<lparr> fv_path = ''cursor'', fv_code = ''invalid_value'',
     fv_message = ''cursor is not a valid LabMail list cursor'' \<rparr>]"

definition decode_cursor :: "(bytes \<Rightarrow> bytes \<Rightarrow> bytes) \<Rightarrow> bytes \<Rightarrow> bytes \<Rightarrow> domain_error + bytes \<times> nat" where
  "decode_cursor hmac key cur =
     (if cur = [] then Inr ([], 0)
      else case b64url_decode cur of
          None \<Rightarrow> Inl invalid_cursor
        | Some raw \<Rightarrow>
            if length raw \<noteq> cursor_raw_len then Inl invalid_cursor
            else let head = take (cursor_id_len + cursor_gen_len) raw in
              if hmac key head \<noteq> drop (cursor_id_len + cursor_gen_len) raw
              then Inl (new_error CursorStale ''list cursor is not valid for this process'')
              else Inr (take cursor_id_len raw, be_value (drop cursor_id_len head)))"

section \<open>Round trips\<close>

lemma char_eq_val: "c = d \<longleftrightarrow> byte_val c = byte_val d"
  by (simp add: byte_val_inj)

lemma b64_sextet:
  assumes "n < 64"
  shows "b64_val (std_char (b64_char n)) = Some n" "b64_char n \<notin> {CHR ''+'', CHR ''/''}" "std_char (b64_char n) \<notin> {CR, LF}"
proof -
  have v: "byte_val (b64_char n) = (if n < 26 then n + 65 else if n < 52 then n + 71 else if n < 62 then n - 4
      else if n = 62 then 45 else 95)"
    using assms by (simp add: b64_char_def byte_val_char_of) (simp add: byte_val_def)
  have w: "byte_val (std_char c) = (if byte_val c = 45 then 43 else if byte_val c = 95 then 47 else byte_val c)" for c
    by (auto simp: std_char_def char_eq_val byte_val_def)
  show "b64_val (std_char (b64_char n)) = Some n" using assms by (auto simp: b64_val_def Let_def w v)
  show "b64_char n \<notin> {CHR ''+'', CHR ''/''}" using assms by (auto simp: char_eq_val v) (auto simp: byte_val_def)
  show "std_char (b64_char n) \<notin> {CR, LF}" using assms by (auto simp: char_eq_val w v) (auto simp: byte_val_def)
qed

lemma nibbles: "byte_val c div 4 < 64" "byte_val c div 16 < 16" "byte_val c div 64 < 4"
  using byte_val_less[of c] by (simp_all add: less_mult_imp_div_less)

lemma remainders: "byte_val c mod 4 < 4" "byte_val c mod 16 < 16" "byte_val c mod 64 < 64"
  by simp_all

lemma sextets:
  "byte_val a div 4 < 64" "byte_val a mod 4 * 16 < 64" "byte_val a mod 4 * 16 + byte_val b div 16 < 64" "byte_val b mod 16 * 4 < 64"
  "byte_val b mod 16 * 4 + byte_val c div 64 < 64" "byte_val c mod 64 < 64"
  using nibbles[of a] nibbles[of b] nibbles[of c] remainders[of a] remainders[of b] remainders[of c] by linarith+

lemma pack16: "d < 16 \<Longrightarrow> (m * 16 + d) div 16 = m" "d < 16 \<Longrightarrow> (m * 16 + d) mod 16 = d" for d m :: nat
  by simp_all

lemma pack4: "d < 4 \<Longrightarrow> (m * 4 + d) div 4 = m" "d < 4 \<Longrightarrow> (m * 4 + d) mod 4 = d" for d m :: nat
  by simp_all

lemma char_of_byte_val: "char_of (byte_val c) = c"
  by (simp add: byte_val_def)

lemma b64_url_quanta: "b64_quanta False (map std_char (b64url_encode s)) = Some s"
proof (induction s rule: b64url_encode.induct)
  case (2 a)
  have "b64_two (byte_val a div 4) (byte_val a mod 4 * 16) = [a]"
    by (simp add: b64_two_def char_of_byte_val)
  then show ?case using b64_sextet(1)[OF sextets(1)[of a]] b64_sextet(1)[OF sextets(2)[of a]] by simp
next
  case (3 a b)
  have e: "(byte_val a mod 4 * 16 + byte_val b div 16) div 16 = byte_val a mod 4"
    "(byte_val a mod 4 * 16 + byte_val b div 16) mod 16 = byte_val b div 16"
    by (rule pack16[OF nibbles(2)])+
  have "b64_three (byte_val a div 4) (byte_val a mod 4 * 16 + byte_val b div 16) (byte_val b mod 16 * 4) = [a, b]"
    by (simp add: b64_three_def e mod_less[OF nibbles(2)] char_of_byte_val)
  then show ?case using b64_sextet(1)[OF sextets(1)[of a]] b64_sextet(1)[OF sextets(3)[of a b]] b64_sextet(1)[OF sextets(4)[of b]]
    by simp
next
  case (4 a b c rest)
  have e: "(byte_val a mod 4 * 16 + byte_val b div 16) div 16 = byte_val a mod 4"
    "(byte_val a mod 4 * 16 + byte_val b div 16) mod 16 = byte_val b div 16"
    "(byte_val b mod 16 * 4 + byte_val c div 64) div 4 = byte_val b mod 16"
    "(byte_val b mod 16 * 4 + byte_val c div 64) mod 4 = byte_val c div 64"
    by (rule pack16[OF nibbles(2)] pack4[OF nibbles(3)])+
  have "b64_four (byte_val a div 4) (byte_val a mod 4 * 16 + byte_val b div 16) (byte_val b mod 16 * 4 + byte_val c div 64)
      (byte_val c mod 64) = [a, b, c]"
    by (simp add: b64_four_def e mod_less[OF nibbles(2)] mod_less[OF nibbles(3)] char_of_byte_val)
  then show ?case using 4 b64_sextet(1)[OF sextets(1)[of a]] b64_sextet(1)[OF sextets(3)[of a b]]
      b64_sextet(1)[OF sextets(5)[of b c]] b64_sextet(1)[OF sextets(6)[of c]] by simp
qed simp

lemma b64url_encode_chars: "x \<in> set (b64url_encode s) \<Longrightarrow> \<exists>n < 64. x = b64_char n"
  by (induction s rule: b64url_encode.induct) (auto intro: sextets)

lemma b64url_roundtrip: "b64url_decode (b64url_encode s) = Some s"
proof -
  have "x \<notin> {CHR ''+'', CHR ''/''} \<and> std_char x \<notin> {CR, LF}" if x: "x \<in> set (b64url_encode s)" for x
  proof -
    obtain n where n: "n < 64" and xn: "x = b64_char n" using b64url_encode_chars[OF x] by blast
    show ?thesis unfolding xn using b64_sextet(2,3)[OF n] by simp
  qed
  then have "filter (\<lambda>c. c \<noteq> CR \<and> c \<noteq> LF) (map std_char (b64url_encode s)) = map std_char (b64url_encode s)"
    "CHR ''+'' \<notin> set (b64url_encode s)" "CHR ''/'' \<notin> set (b64url_encode s)"
    by (auto simp: filter_id_conv)
  then show ?thesis by (simp add: b64url_decode_def b64_decode_def b64_url_quanta)
qed

lemma length_be_bytes [simp]: "length (be_bytes n g) = n"
  by (induction n arbitrary: g) auto

lemma be_value_bytes: "g < 256 ^ n \<Longrightarrow> be_value (be_bytes n g) = g"
proof (induction n arbitrary: g)
  case (Suc n)
  then have "g div 256 < 256 ^ n" by (simp add: less_mult_imp_div_less mult.commute)
  then have "be_value (be_bytes n (g div 256)) = g div 256" by (rule Suc.IH)
  then show ?case by (simp add: be_value_def byte_val_def)
qed (simp add: be_value_def)

lemma copy_into_exact: "length s = n \<Longrightarrow> copy_into n s = s"
  by (simp add: copy_into_def)

text \<open>A cursor names its message and its generation, whatever the key and the MAC: under the key it was
  made with, decoding gives both back.  Under another key it is refused as stale whenever the two MACs
  of its content differ, so rotating the key at a reset retires every cursor handed out before.\<close>

lemma cursor_roundtrip:
  assumes "length mid = 26" "gen < 2 ^ 64" "\<And>k t. length (hmac k t) = 32"
  shows "decode_cursor hmac key (encode_cursor hmac key mid gen) = Inr (mid, gen) \<and>
    (hmac key2 (mid @ be_bytes 8 gen) \<noteq> hmac key (mid @ be_bytes 8 gen) \<longrightarrow>
      decode_cursor hmac key2 (encode_cursor hmac key mid gen) = Inl (new_error CursorStale ''list cursor is not valid for this process''))"
proof -
  let ?head = "mid @ be_bytes 8 gen"
  have ne: "mid \<noteq> []" using assms(1) by auto
  have "take 26 (copy_into 66 mid) = mid" using assms(1) by (simp add: copy_into_def)
  then have enc: "encode_cursor hmac key mid gen = b64url_encode (?head @ hmac key ?head)"
    using ne assms(3) by (simp add: encode_cursor_def copy_into_exact cursor_id_len_def cursor_gen_len_def cursor_mac_len_def
        cursor_raw_len_def)
  moreover have "b64url_encode (?head @ hmac key ?head) \<noteq> []" using ne b64url_roundtrip[of "?head @ hmac key ?head"]
    by (metis append_is_Nil_conv b64url_roundtrip b64url_encode.simps(1) option.inject)
  moreover have "be_value (be_bytes 8 gen) = gen" using assms(2) by (intro be_value_bytes) simp
  ultimately show ?thesis using assms(1,3)
    by (auto simp: decode_cursor_def b64url_roundtrip cursor_id_len_def cursor_gen_len_def cursor_mac_len_def cursor_raw_len_def)
qed

definition demo_hmac :: "bytes \<Rightarrow> bytes \<Rightarrow> bytes" where
  "demo_hmac k t = take 32 (k @ replicate 32 (CHR ''0''))"

lemma cursor_roundtrip_witness:
  "decode_cursor demo_hmac ''k1'' (encode_cursor demo_hmac ''k1'' ''01ARZ3NDEKTSV4RRFFQ69G5FAV'' 7) = Inr (''01ARZ3NDEKTSV4RRFFQ69G5FAV'', 7) \<and>
    decode_cursor demo_hmac ''k2'' (encode_cursor demo_hmac ''k1'' ''01ARZ3NDEKTSV4RRFFQ69G5FAV'' 7)
      = Inl (new_error CursorStale ''list cursor is not valid for this process'')"
proof -
  have "demo_hmac ''k2'' t \<noteq> demo_hmac ''k1'' t" for t by (simp add: demo_hmac_def)
  then show ?thesis
    using cursor_roundtrip[of "''01ARZ3NDEKTSV4RRFFQ69G5FAV''" 7 demo_hmac "''k1''" "''k2''"] by (simp add: demo_hmac_def)
qed

end
