(* ===== verification/Rest_Server.thy ===== *)
theory Rest_Server
  imports Auth_Sessions App_Messages Rest_Routes Rest_Cursor Config_Wire
begin

text \<open>
  The management API's server (\<^verbatim>\<open>internal/control/rest\<close>): what it keeps, the gates before a handler
  (\<^verbatim>\<open>server.go\<close>, \<^verbatim>\<open>auth.go\<close>), UI sessions and the reading of requests (\<^verbatim>\<open>session.go\<close>, \<^verbatim>\<open>request.go\<close>).  A
  request is a value: its query, headers and cookie are what \<^verbatim>\<open>Get\<close> and \<^verbatim>\<open>Cookie\<close> return.  The rate limiter's
  answer, the decoders of JSON and of request bodies, RFC 3339 times, random values and the handlers
  mounted beside the API are arguments; \<open>hq_body_fault\<close> is a read of the body that fails after \<open>hq_body\<close>, \<open>Some True\<close>
  for one that ends early.  One request is handled at a time; others in progress are
  the number of taken slots.
\<close>

section \<open>Requests and responses\<close>

record http_request =
  hq_method :: bytes
  hq_path :: bytes
  hq_query :: "bytes \<Rightarrow> bytes"
  hq_header :: "bytes \<Rightarrow> bytes"
  hq_cookie :: "bytes option"
  hq_remote :: bytes
  hq_tls :: bool
  hq_body :: bytes
  hq_body_fault :: "bool option"

record session_cookie =
  ck_value :: bytes
  ck_secure :: bool
  ck_max_age :: int

record message_list =
  ml_revision :: bytes
  ml_generation :: nat
  ml_items :: "message list"
  ml_next :: "bytes option"

datatype payload =
    NoBody
  | ProblemBody problem
  | HealthBody bytes
  | VersionBody
  | CapabilitiesBody "discovery list"
  | StatusBody bool status "(bytes \<times> bytes) list"
  | StateBody state_view
  | PlanBody plan
  | ApplyBody apply_result
  | ExportBody export
  | SessionBody bytes int
  | SessionViewBody bytes bytes "bytes list" "(bytes \<times> int) option"
  | MessagesBody message_list
  | MessageBody message
  | CountBody bytes nat
  | ExtractBody "bytes list" "extracted_token list"
  | AuditBody "audit_event list"
  | AuditEventBody audit_event
  | RawBody bytes
  | MetricsBody
  | StreamBody
  | Waiting
  | JsonBody json

record http_response =
  hr_status :: int
  hr_headers :: "(bytes \<times> bytes) list"
  hr_cookie :: "session_cookie option"
  hr_payload :: payload

definition write_json :: "int \<Rightarrow> (bytes \<times> bytes) list \<Rightarrow> payload \<Rightarrow> http_response" where
  "write_json code hs p = \<lparr> hr_status = code, hr_headers = hs @ [(''Content-Type'', ''application/json; charset=utf-8''),
     (''Cache-Control'', ''no-store'')], hr_cookie = None, hr_payload = p \<rparr>"

definition write_bytes :: "(bytes \<times> bytes) list \<Rightarrow> bytes \<Rightarrow> bytes \<Rightarrow> http_response" where
  "write_bytes hs ctype body = \<lparr> hr_status = 200, hr_headers = hs @ (if ctype = [] then [] else [(''Content-Type'', ctype)]),
     hr_cookie = None, hr_payload = RawBody body \<rparr>"

definition no_content :: http_response where
  "no_content = \<lparr> hr_status = 204, hr_headers = [], hr_cookie = None, hr_payload = NoBody \<rparr>"

section \<open>The server\<close>

record rest_config =
  rc_max_body :: int
  rc_max_concurrent :: int
  rc_origins :: "app \<Rightarrow> bytes list"
  rc_cookie_secure :: bool
  rc_live :: "bool option"
  rc_ready :: "bool option"
  rc_metrics :: bool

record rest_server =
  sv_app :: app
  sv_auth :: "verifier option"
  sv_sessions :: session_table
  sv_key :: bytes
  sv_inflight :: nat
  sv_closed :: bool

record change_request =
  cq_expected :: bytes
  cq_key :: bytes
  cq_reason :: bytes
  cq_force :: bool
  cq_operations :: "operation list"
  cq_state :: bytes

record wait_request =
  wq_filter :: message_filter
  wq_after :: bytes
  wq_before :: bytes
  wq_timeout :: bytes

text \<open>
  \<open>re_json\<close> is the first JSON value of a body and whether the body ends with it, or whether the text
  ended too early; \<open>re_change\<close> and its like decode a tree into the request struct, or give the text of
  the error.
\<close>

record rest_env =
  re_app :: app_env
  re_digest :: "bytes \<Rightarrow> bytes"
  re_hmac :: "bytes \<Rightarrow> bytes \<Rightarrow> bytes"
  re_rate :: "bytes \<Rightarrow> bool"
  re_request_id :: bytes
  re_random :: "(bytes \<times> bytes \<times> bytes) option"
  re_new_key :: "bytes option"
  re_health :: "facts option"
  re_json :: "bytes \<Rightarrow> bool + json \<times> bool"
  re_change :: "json \<Rightarrow> bytes + change_request"
  re_reset :: "json \<Rightarrow> bytes + bytes"
  re_delete :: "json \<Rightarrow> bytes + nat option"
  re_wait :: "json \<Rightarrow> bytes + wait_request"
  re_time :: "bytes \<Rightarrow> int option"
  re_stamp :: "int \<Rightarrow> bytes"
  re_yaml :: "yaml_node \<Rightarrow> bytes"
  re_ulid :: "bytes \<Rightarrow> int option"
  re_patterns :: patterns
  re_observe :: "int \<Rightarrow> wait_obs list"
  re_remain :: "int option"
  re_cancelled :: bool
  re_schema :: "bytes option"
  re_flusher :: bool
  re_mount :: "http_request \<Rightarrow> (rest_server \<Rightarrow> http_response \<times> rest_server) option"
  re_ui :: "(http_request \<Rightarrow> http_response) option"
  re_ui_enabled :: bool

definition challenges :: "rest_server \<Rightarrow> bytes list" where
  "challenges sv = ''Bearer realm=\"labmail\"'' #
     (case sv_auth sv of None \<Rightarrow> [] | Some v \<Rightarrow> if basic_enabled v then [''Basic realm=\"labmail\"''] else [])"

definition write_problem :: "rest_server \<Rightarrow> bytes \<Rightarrow> go_error \<Rightarrow> http_response" where
  "write_problem sv inst er = (let p = problem_from (Some er) inst in
     \<lparr> hr_status = p_status p,
       hr_headers = (if p_status p = 401 then map (Pair ''WWW-Authenticate'') (challenges sv) else []) @
         [(''Content-Type'', ''application/problem+json'')],
       hr_cookie = None, hr_payload = ProblemBody p \<rparr>)"

definition rest_error :: "go_error \<Rightarrow> go_error" where
  "rest_error er = (if snd (as_domain er) then er else domain_e (new_error InternalError ''internal error''))"

section \<open>Authentication\<close>

datatype stream_cred =
    CredBearer bytes
  | CredBasic bytes bytes
  | CredCookie bytes
  | CredLoopback bytes

definition actor_of :: "principal \<Rightarrow> bytes \<Rightarrow> actor" where
  "actor_of p transport = \<lparr> ac_id = pr_id p, ac_class = pr_class p, ac_role = pr_role p, ac_scopes = pr_scopes p,
     ac_transport = transport \<rparr>"

definition stub_actor :: "http_request \<Rightarrow> actor" where
  "stub_actor rq = (let h = trim_space (hq_header rq ''Authorization'') in
     \<lparr> ac_id = (if h = [] then ''anonymous'' else if has_prefix ''bearer '' (to_lower h) then ''bearer''
         else if has_prefix ''basic '' (to_lower h) then ''basic'' else ''anonymous''),
       ac_class = ''administrator'', ac_role = [], ac_scopes = [], ac_transport = ''rest'' \<rparr>)"

definition probe_actor :: actor where
  "probe_actor = \<lparr> ac_id = ''probe'', ac_class = ''startup'', ac_role = [], ac_scopes = [], ac_transport = ''rest'' \<rparr>"

text \<open>The actor of a request, the credential a stream is bound to, and the sessions after the lookup.\<close>

definition rest_authenticate :: "rest_env \<Rightarrow> http_request \<Rightarrow> bool \<Rightarrow> rest_server \<Rightarrow>
    (domain_error + actor \<times> stream_cred option) \<times> rest_server" where
  "rest_authenticate e rq skip sv =
     (if skip then (Inr (probe_actor, None), sv)
      else case sv_auth sv of
          None \<Rightarrow> (Inr (stub_actor rq, None), sv)
        | Some v \<Rightarrow> (let hdr = trim_space (hq_header rq ''Authorization''); now = ev_now (re_app e);
              loop = (\<lambda>s. case authenticate (re_digest e) (Some v)
                    \<lparr> rq_authorization = [], rq_remote = hq_remote rq, rq_allow_basic = False \<rparr> of
                  Inl er \<Rightarrow> (Inl er, s)
                | Inr p \<Rightarrow> (Inr (actor_of p ''rest'', Some (CredLoopback (hq_remote rq))), s))
            in if hdr \<noteq> [] then
                 (case authenticate (re_digest e) (Some v)
                      \<lparr> rq_authorization = hdr, rq_remote = hq_remote rq, rq_allow_basic = basic_enabled v \<rparr> of
                    Inl er \<Rightarrow> (Inl er, sv)
                  | Inr p \<Rightarrow> (let (scheme, rest, ok) = cut SP hdr; secret = trim_space rest in
                      (Inr (actor_of p ''rest'',
                         Some (if equal_fold scheme ''Basic'' then CredBasic secret (hq_remote rq) else CredBearer secret)), sv)))
               else case hq_cookie rq of
                   None \<Rightarrow> loop sv
                 | Some c \<Rightarrow>
                     if c = [] then loop sv
                     else (case lookup_session c now (sv_sessions sv) of
                         (None, t) \<Rightarrow> loop (sv \<lparr> sv_sessions := t \<rparr>)
                       | (Some (u, csrf), t) \<Rightarrow> (Inr (actor_of (principal_from_session u) ''rest'', Some (CredCookie c)),
                           sv \<lparr> sv_sessions := t \<rparr>))))"

definition rest_authorize :: "rest_env \<Rightarrow> http_request \<Rightarrow> actor \<Rightarrow> capability \<Rightarrow> rest_server \<Rightarrow>
    domain_error option \<times> rest_server" where
  "rest_authorize e rq ac c sv =
     (if sv_auth sv = None then (None, sv)
      else case authorize_scopes (ac_scopes ac) (cap_scopes c) of
          Some er \<Rightarrow> (Some er, sv)
        | None \<Rightarrow>
            if \<not> unsafe_method (hq_method rq) then (None, sv)
            else if trim_space (hq_header rq ''Authorization'') \<noteq> [] then (None, sv)
            else case hq_cookie rq of
                None \<Rightarrow> (None, sv)
              | Some k \<Rightarrow>
                  if k = [] then (None, sv)
                  else let (ok, t) = valid_csrf (re_digest e) k (hq_header rq ''X-LabMail-CSRF'') (ev_now (re_app e)) (sv_sessions sv)
                    in (if ok then None else Some (forbidden ''CSRF token is missing or invalid''), sv \<lparr> sv_sessions := t \<rparr>))"

section \<open>Hooks of a change\<close>

text \<open>The new verifier is compiled from the live snapshot; a change of identities clears the sessions.\<close>

definition reload_auth :: "rest_env \<Rightarrow> rest_server \<Rightarrow> rest_server" where
  "reload_auth e sv = (case sv_auth sv of
       None \<Rightarrow> sv
     | Some v \<Rightarrow> (case ns_active (ap_snaps (sv_app sv)) of
         None \<Rightarrow> sv
       | Some s \<Rightarrow> (case from_spec (ev_files (re_app e)) (re_digest e) (mg_auth (sp_management (sd_spec (sn_canonical s)))) of
           Inl er \<Rightarrow> sv
         | Inr nxt \<Rightarrow> (let (w, changed) = replace_verifier nxt v in
             sv \<lparr> sv_auth := Some w, sv_sessions := (if changed then clear_sessions (sv_sessions sv) else sv_sessions sv) \<rparr>))))"

definition rotate_cursors :: "rest_env \<Rightarrow> rest_server \<Rightarrow> rest_server" where
  "rotate_cursors e sv = (case re_new_key e of None \<Rightarrow> sv | Some k \<Rightarrow> sv \<lparr> sv_key := k \<rparr>)"

section \<open>Reading requests\<close>

datatype body_fault = BodyTooLarge | BodyEnds | BodyFails

definition decode_error :: "body_fault \<Rightarrow> go_error" where
  "decode_error f = domain_e (case f of
       BodyTooLarge \<Rightarrow> validation_failed ''request body too large''
         [violation [] ''document_too_large'' ''request body exceeds the management limit'']
     | BodyEnds \<Rightarrow> validation_failed ''request body is required'' [violation [] ''invalid_value'' ''request body is not valid JSON'']
     | BodyFails \<Rightarrow> validation_failed ''invalid JSON'' [violation [] ''invalid_value'' ''request body is not valid JSON''])"

definition read_body :: "rest_config \<Rightarrow> http_request \<Rightarrow> body_fault + bytes" where
  "read_body cfg rq = (if int (length (hq_body rq)) > rc_max_body cfg then Inl BodyTooLarge
     else case hq_body_fault rq of
         Some early \<Rightarrow> Inl (if early then BodyEnds else BodyFails)
       | None \<Rightarrow> Inr (hq_body rq))"

abbreviation QUOTE :: char where "QUOTE \<equiv> CHR 0x22"

definition quoted_part :: "bytes \<Rightarrow> bytes" where
  "quoted_part m = (case (index_byte QUOTE m, index_byte QUOTE (rev m)) of
       (Some i, Some k) \<Rightarrow> (let j = length m - 1 - k in if j > i then take (j - (i + 1)) (drop (i + 1) m) else m)
     | _ \<Rightarrow> m)"

definition map_strict_error :: "bytes \<Rightarrow> go_error" where
  "map_strict_error m = (if contains ''unknown field'' m
     then domain_e (validation_failed ''unknown fields'' [violation (quoted_part m) ''unknown_field'' ''unknown field''])
     else decode_error BodyFails)"

definition decode_bytes :: "rest_env \<Rightarrow> (json \<Rightarrow> bytes + 'a) \<Rightarrow> bytes \<Rightarrow> go_error + 'a" where
  "decode_bytes e strict body = (case re_json e body of
       Inl early \<Rightarrow> Inl (decode_error (if early then BodyEnds else BodyFails))
     | Inr (tree, single) \<Rightarrow>
         if \<not> single then Inl (domain_e (validation_failed ''request body must contain a single JSON value''
           [violation [] ''invalid_value'' ''trailing JSON is not allowed'']))
         else let (vs, tree1) = coerce_wire_change (lib_frac (ev_libs (re_app e))) tree in
           if vs \<noteq> [] then Inl (domain_e (validation_failed ''invalid request body'' vs))
           else case strict tree1 of Inl m \<Rightarrow> Inl (map_strict_error m) | Inr x \<Rightarrow> Inr x)"

definition check_json_content_type :: "http_request \<Rightarrow> go_error option" where
  "check_json_content_type rq = (let ct = hq_header rq ''Content-Type'' in
     if ct = [] then Some (domain_e (validation_failed ''content type is required''
       [violation ''content-type'' ''required'' ''POST bodies must be application/json'']))
     else if \<not> equal_fold (trim_space (hd (split_on (CHR '';'') ct))) ''application/json''
     then Some (domain_e (validation_failed ''unsupported content type''
       [violation ''content-type'' ''invalid_value'' ''expected application/json'']))
     else None)"

definition decode_json_body :: "rest_env \<Rightarrow> rest_config \<Rightarrow> http_request \<Rightarrow> (json \<Rightarrow> bytes + 'a) \<Rightarrow> go_error + 'a" where
  "decode_json_body e cfg rq strict = (case check_json_content_type rq of
       Some er \<Rightarrow> Inl er
     | None \<Rightarrow> (case read_body cfg rq of
         Inl f \<Rightarrow> Inl (decode_error f)
       | Inr body \<Rightarrow>
           if trim_space body = [] then Inl (domain_e (validation_failed ''request body is required''
             [violation [] ''invalid_value'' ''request body is required'']))
           else decode_bytes e strict body))"

definition decode_json_optional :: "rest_env \<Rightarrow> rest_config \<Rightarrow> http_request \<Rightarrow> (json \<Rightarrow> bytes + 'a) \<Rightarrow> 'a \<Rightarrow> go_error + 'a" where
  "decode_json_optional e cfg rq strict zero = (case read_body cfg rq of
       Inl f \<Rightarrow> Inl (decode_error f)
     | Inr body \<Rightarrow>
         if trim_space body = [] then Inr zero
         else case check_json_content_type rq of
             Some er \<Rightarrow> Inl er | None \<Rightarrow> decode_bytes e strict body)"

definition if_match :: "http_request \<Rightarrow> bytes" where
  "if_match rq = (let v = trim_by (\<lambda>c. c = QUOTE) (hq_header rq ''If-Match'') in if equal_fold v ''*'' then [] else v)"

definition expected_revision :: "http_request \<Rightarrow> bytes \<Rightarrow> bytes" where
  "expected_revision rq body = (if body \<noteq> [] then body
     else if if_match rq \<noteq> [] then if_match rq
     else trim_space (hq_header rq ''X-LabMail-Expected-Revision''))"

definition idempotency_key :: "http_request \<Rightarrow> bytes \<Rightarrow> bytes" where
  "idempotency_key rq body = (if body \<noteq> [] then body else trim_space (hq_header rq ''Idempotency-Key''))"

definition decode_candidate_state :: "rest_env \<Rightarrow> bytes \<Rightarrow> domain_error + state_doc option" where
  "decode_candidate_state e raw0 = (let raw = trim_space raw0 in
     if raw = [] \<or> raw = ''null'' then Inr None
     else case decode_json (ev_libs (re_app e)) raw of Inl er \<Rightarrow> Inl er | Inr st \<Rightarrow> Inr (Some st))"

definition read_change :: "rest_env \<Rightarrow> rest_config \<Rightarrow> http_request \<Rightarrow> go_error + change_set" where
  "read_change e cfg rq = (case decode_json_body e cfg rq (re_change e) of
       Inl er \<Rightarrow> Inl er
     | Inr q \<Rightarrow> Inr \<lparr> cs_expected = expected_revision rq (cq_expected q), cs_key = idempotency_key rq (cq_key q),
         cs_reason = cq_reason q, cs_force = cq_force q, cs_operations = cq_operations q \<rparr>)"

definition parse_store_generation :: "bytes \<Rightarrow> go_error + nat" where
  "parse_store_generation raw = (case parse_uint64 (trim_space raw) of
       None \<Rightarrow> Inl (domain_e (validation_failed ''invalid expectedStoreGeneration''
         [violation ''expectedStoreGeneration'' ''invalid_value'' ''expectedStoreGeneration must be an integer'']))
     | Some n \<Rightarrow> Inr n)"

definition delete_in :: "rest_env \<Rightarrow> rest_config \<Rightarrow> http_request \<Rightarrow> go_error + nat option" where
  "delete_in e cfg rq = (case read_body cfg rq of
       Inl f \<Rightarrow> Inl (decode_error f)
     | Inr raw \<Rightarrow> (case (if trim_space raw = [] then Inr None
           else case (if trim_space (hq_header rq ''Content-Type'') = [] then None else check_json_content_type rq) of
               Some er \<Rightarrow> Inl er | None \<Rightarrow> decode_bytes e (re_delete e) raw) of
         Inl er \<Rightarrow> Inl er
       | Inr (Some n) \<Rightarrow> Inr (Some n)
       | Inr None \<Rightarrow> (let q = hq_query rq ''expectedStoreGeneration''; r = (if q \<noteq> [] then q else if_match rq) in
           if r = [] then Inr None
           else case parse_store_generation r of Inl er \<Rightarrow> Inl er | Inr n \<Rightarrow> Inr (Some n))))"

definition parse_bool :: "bytes \<Rightarrow> bool option" where
  "parse_bool s = (if s \<in> {''1'', ''t'', ''T'', ''TRUE'', ''true'', ''True''} then Some True
     else if s \<in> {''0'', ''f'', ''F'', ''FALSE'', ''false'', ''False''} then Some False else None)"

definition invalid_query :: "bytes \<Rightarrow> bytes \<Rightarrow> bytes \<Rightarrow> go_error" where
  "invalid_query title path m = domain_e (validation_failed title [violation path ''invalid_value'' m])"

definition parse_limit :: "bytes \<Rightarrow> go_error + int" where
  "parse_limit raw = (if raw = [] then Inr 0
     else case parse_int64 raw of
         None \<Rightarrow> Inl (invalid_query ''invalid limit'' ''limit'' ''limit must be a non-negative integer'')
       | Some n \<Rightarrow> if n < 0 then Inl (invalid_query ''invalid limit'' ''limit'' ''limit must be a non-negative integer'') else Inr n)"

definition parse_optional_time :: "rest_env \<Rightarrow> bytes \<Rightarrow> bytes \<Rightarrow> go_error + int" where
  "parse_optional_time e raw field = (if raw = [] then Inr 0
     else case re_time e raw of
         None \<Rightarrow> Inl (invalid_query ''invalid timestamp'' field (field @ '' must be RFC3339'')) | Some t \<Rightarrow> Inr t)"

definition list_query_from_request :: "rest_env \<Rightarrow> http_request \<Rightarrow> go_error + list_query" where
  "list_query_from_request e rq = (let qs = hq_query rq; raw = qs ''unread'' in
     if raw \<noteq> [] \<and> parse_bool raw = None then Inl (invalid_query ''invalid unread'' ''unread'' ''unread must be true or false'')
     else case parse_optional_time e (qs ''after'') ''after'' of
         Inl er \<Rightarrow> Inl er
       | Inr after \<Rightarrow> (case parse_optional_time e (qs ''before'') ''before'' of
           Inl er \<Rightarrow> Inl er
         | Inr before \<Rightarrow> (case parse_limit (qs ''limit'') of
             Inl er \<Rightarrow> Inl er
           | Inr n \<Rightarrow> Inr \<lparr> q_filter = \<lparr> f_to = qs ''to'', f_from = qs ''from'', f_subject = qs ''subject'',
               f_subject_contains = qs ''subjectContains'', f_unread = parse_bool raw, f_after = after, f_before = before \<rparr>,
               q_cursor = qs ''cursor'', q_limit = n \<rparr>)))"

definition mark_read_from_query :: "http_request \<Rightarrow> go_error + bool" where
  "mark_read_from_query rq = (let raw = hq_query rq ''markRead'' in
     if raw = [] then Inr False
     else case parse_bool raw of
         None \<Rightarrow> Inl (invalid_query ''invalid markRead'' ''markRead'' ''markRead must be true or false'') | Some b \<Rightarrow> Inr b)"

end
