(* ===== verification/Text_Runes.thy ===== *)
theory Text_Runes
  imports Config_Decode
begin

text \<open>
  Go's walk over a string by runes (\<^verbatim>\<open>for _, r := range s\<close>), with a byte that starts no rune read as
  \<^verbatim>\<open>utf8.RuneError\<close> of width 1, the rune classes the source asks for, \<^verbatim>\<open>path.Base\<close>, hexadecimal and the padded
  standard base64 alphabet.
\<close>

section \<open>Runes\<close>

text \<open>The width of the rune a string starts with, \<open>None\<close> when its first byte starts none.\<close>

definition rune_width :: "bytes \<Rightarrow> nat option" where
  "rune_width s = find (\<lambda>n. n \<le> length s \<and> utf8_valid (take n s)) [1, 2, 3, 4]"

definition is_rune :: "bytes \<Rightarrow> bool" where
  "is_rune r = (rune_width r = Some (length r))"

definition rune_error :: bytes where
  "rune_error = [CHR 0xEF, CHR 0xBF, CHR 0xBD]"

text \<open>\<^verbatim>\<open>unicode.IsSpace\<close> of a rune beyond ASCII.\<close>

definition wide_space :: "bytes \<Rightarrow> bool" where
  "wide_space r = (r \<in> set [[CHR 0xC2, CHR 0x85], [CHR 0xC2, CHR 0xA0], [CHR 0xE1, CHR 0x9A, CHR 0x80],
       [CHR 0xE2, CHR 0x80, CHR 0xA8], [CHR 0xE2, CHR 0x80, CHR 0xA9], [CHR 0xE2, CHR 0x80, CHR 0xAF],
       [CHR 0xE2, CHR 0x81, CHR 0x9F], [CHR 0xE3, CHR 0x80, CHR 0x80]]
     \<or> (take 2 r = [CHR 0xE2, CHR 0x80] \<and> length r = 3 \<and> between 0x80 0x8A (last r)))"

lemma rune_width_bounds: "rune_width s = Some k \<Longrightarrow> 0 < k \<and> k \<le> length s \<and> k \<le> 4"
  by (auto simp: rune_width_def split: if_splits)

lemma is_rune_take: "rune_width s = Some k \<Longrightarrow> is_rune (take k s)"
  by (auto simp: rune_width_def is_rune_def split: if_splits)

lemma is_rune_length: "is_rune r \<Longrightarrow> 0 < length r \<and> length r \<le> 4"
  by (auto simp: is_rune_def dest: rune_width_bounds)

lemma is_rune_not_Nil [simp]: "is_rune r \<Longrightarrow> r \<noteq> []"
  using is_rune_length by fastforce

lemma rune_width_append: "is_rune r \<Longrightarrow> rune_width (r @ t) = Some (length r)"
  by (auto simp: rune_width_def is_rune_def split: if_splits)

lemma is_rune_ascii: "byte_val c < 128 \<Longrightarrow> is_rune [c]"
  by (simp add: is_rune_def rune_width_def utf8_valid.simps between_def)

text \<open>A string as \<^verbatim>\<open>encoding/json\<close> writes it: a byte that starts no rune becomes U+FFFD.\<close>

function to_valid :: "bytes \<Rightarrow> bytes" where
  "to_valid s = (if s = [] then []
     else case rune_width s of None \<Rightarrow> rune_error @ to_valid (tl s) | Some k \<Rightarrow> take k s @ to_valid (drop k s))"
  by pat_completeness auto
termination by (relation "measure length") (auto dest: rune_width_bounds)

declare to_valid.simps [simp del]

section \<open>Paths and hexadecimal\<close>

text \<open>\<^verbatim>\<open>path.Base\<close>.\<close>

definition path_base :: "bytes \<Rightarrow> bytes" where
  "path_base p = (if p = [] then ''.''
     else let q = trim_right_by (\<lambda>c. c = CHR ''/'') p; b = last (split_on (CHR ''/'') q) in if b = [] then ''/'' else b)"

lemma path_base_plain: "CHR ''/'' \<notin> set p \<Longrightarrow> p \<noteq> [] \<Longrightarrow> path_base p = p"
proof -
  assume a: "CHR ''/'' \<notin> set p" "p \<noteq> []"
  then have "last p \<noteq> CHR ''/''" using last_in_set by metis
  then have "trim_right_by (\<lambda>c. c = CHR ''/'') p = p" by (intro trim_right_by_id) simp
  with a show ?thesis by (simp add: path_base_def split_on_no_sep)
qed

text \<open>\<^verbatim>\<open>path.Clean\<close>: the elements of a path, with the kept ones on a stack.\<close>

fun clean_parts :: "bool \<Rightarrow> bytes list \<Rightarrow> bytes list \<Rightarrow> bytes list" where
  "clean_parts rooted stack [] = rev stack"
| "clean_parts rooted stack (p # ps) =
     (if p = [] \<or> p = ''.'' then clean_parts rooted stack ps
      else if p = ''..'' then
        (case stack of
           [] \<Rightarrow> clean_parts rooted (if rooted then [] else [p]) ps
         | q # qs \<Rightarrow> if q = ''..'' then clean_parts rooted (p # stack) ps else clean_parts rooted qs ps)
      else clean_parts rooted (p # stack) ps)"

definition path_clean :: "bytes \<Rightarrow> bytes" where
  "path_clean p = (if p = [] then ''.''
     else if hd p = CHR ''/'' then CHR ''/'' # join ''/'' (clean_parts True [] (split_on (CHR ''/'') (tl p)))
     else let out = join ''/'' (clean_parts False [] (split_on (CHR ''/'') p)) in if out = [] then ''.'' else out)"

text \<open>\<^verbatim>\<open>path.Ext\<close>: from the last dot of the last element on.\<close>

definition path_ext :: "bytes \<Rightarrow> bytes" where
  "path_ext p = (let b = last (split_on (CHR ''/'') p) in
     if CHR ''.'' \<in> set b then CHR ''.'' # last (split_on (CHR ''.'') b) else [])"

definition hex_digit :: "nat \<Rightarrow> char" where
  "hex_digit n = (if n < 10 then char_of (n + 48) else char_of (n + 87))"

definition hex_encode :: "bytes \<Rightarrow> bytes" where
  "hex_encode s = concat (map (\<lambda>c. [hex_digit (byte_val c div 16), hex_digit (byte_val c mod 16)]) s)"

end
