(* ===== verification/Html_Preview.thy ===== *)
theory Html_Preview
  imports Mail_Model Rest_Cursor Text_Runes
begin

text \<open>
  \<^verbatim>\<open>internal/preview\<close>: the references of an HTML body to its own parts (\<^verbatim>\<open>cid:\<close>) become \<^verbatim>\<open>data:\<close> URLs.  The two
  regular expressions of the file are written out as the texts they match: \<^verbatim>\<open>(?i)cid:([^"'>\s]+)\<close>, whose
  leftmost match takes the longest run, and the media type.
\<close>

section \<open>Standard base64\<close>

definition b64std_encode :: "bytes \<Rightarrow> bytes" where
  "b64std_encode s = map std_char (b64url_encode s) @ replicate ((3 - length s mod 3) mod 3) (CHR ''='')"

section \<open>Media types\<close>

text \<open>
  Ignoring case, the classes with letters also match the long s (U+017F) and the Kelvin sign (U+212A); a text
  is cut into those two and single bytes.
\<close>

definition long_s :: bytes where "long_s = [CHR 0xC5, CHR 0xBF]"
definition kelvin :: bytes where "kelvin = [CHR 0xE2, CHR 0x84, CHR 0xAA]"

fun media_units :: "bytes \<Rightarrow> bytes list" where
  "media_units [] = []"
| "media_units [c] = [[c]]"
| "media_units [c, d] = (if [c, d] = long_s then [[c, d]] else [[c], [d]])"
| "media_units (c # d # e # s) =
     (if [c, d] = long_s then [c, d] # media_units (e # s)
      else if [c, d, e] = kelvin then [c, d, e] # media_units s
      else [c] # media_units (d # e # s))"

definition alnum_unit :: "bytes \<Rightarrow> bool" where
  "alnum_unit u = (u = long_s \<or> u = kelvin \<or>
     (length u = 1 \<and> (let n = byte_val (lower_char (hd u)) in (97 \<le> n \<and> n \<le> 122) \<or> (48 \<le> n \<and> n \<le> 57))))"

definition token_unit :: "bytes \<Rightarrow> bool" where
  "token_unit u = (alnum_unit u \<or> (length u = 1 \<and> hd u \<in> set ''!#$&-^_.+''))"

definition media_part :: "bytes list \<Rightarrow> bool" where
  "media_part us = (us \<noteq> [] \<and> alnum_unit (hd us) \<and> list_all token_unit (tl us) \<and> length us \<le> 127)"

definition media_token :: "bytes \<Rightarrow> bool" where
  "media_token s = (let us = media_units s; a = takeWhile (\<lambda>u. u \<noteq> ''/'') us in
     length a < length us \<and> media_part a \<and> media_part (drop (Suc (length a)) us))"

definition lower_unit :: "bytes \<Rightarrow> bytes" where
  "lower_unit u = (if u = kelvin then ''k'' else to_lower u)"

definition data_type :: "bytes \<Rightarrow> bytes" where
  "data_type ct0 = (let ct = trim_space (hd (split_on (CHR '';'') ct0)) in
     if \<not> media_token ct then ''application/octet-stream'' else concat (map lower_unit (media_units ct)))"

section \<open>References\<close>

definition max_part :: nat where "max_part = 2097152"

definition normalize_cid :: "bytes \<Rightarrow> bytes" where
  "normalize_cid s = trim_by (\<lambda>c. c = CHR ''<'' \<or> c = CHR ''>'') (trim_prefix ''cid:'' (to_lower (trim_space s)))"

definition cid_keys :: "bytes \<Rightarrow> bytes list" where
  "cid_keys cid = (let n = normalize_cid cid in if n = [] then [] else [n, to_lower n])"

definition parts_by_cid :: "attachment list \<Rightarrow> (bytes \<times> attachment) list" where
  "parts_by_cid atts = fold (\<lambda>a. fold (\<lambda>k. AList.update k a) (cid_keys (at_content_id a))) atts []"

definition cid_stop :: "char \<Rightarrow> bool" where
  "cid_stop c = (c \<in> {CHR 0x22, CHR 0x27, CHR ''>'', TAB, LF, CHR 0x0C, CR, SP})"

text \<open>Whether a match starts here; its run is what the group holds.\<close>

definition cid_match :: "bytes \<Rightarrow> bool" where
  "cid_match s = (equal_fold (take 4 s) ''cid:'' \<and> drop 4 s \<noteq> [] \<and> \<not> cid_stop (hd (drop 4 s)))"

definition cid_run :: "bytes \<Rightarrow> bytes" where
  "cid_run s = takeWhile (\<lambda>c. \<not> cid_stop c) (drop 4 s)"

definition data_url :: "attachment \<Rightarrow> bytes" where
  "data_url a = ''data:'' @ data_type (at_content_type a) @ '';base64,'' @ b64std_encode (at_data a)"

definition replacement :: "(bytes \<times> attachment) list \<Rightarrow> bytes \<Rightarrow> bytes" where
  "replacement ps m = (case lookup ps (normalize_cid (cid_run m)) of
       None \<Rightarrow> m
     | Some a \<Rightarrow> if at_data a = [] \<or> length (at_data a) > max_part then m else data_url a)"

function replace_cids :: "(bytes \<times> attachment) list \<Rightarrow> bytes \<Rightarrow> bytes" where
  "replace_cids ps s =
     (if s = [] then []
      else if cid_match s
      then replacement ps (take (4 + length (cid_run s)) s) @ replace_cids ps (drop (4 + length (cid_run s)) s)
      else hd s # replace_cids ps (tl s))"
  by pat_completeness auto
termination by (relation "measure (\<lambda>(ps, s). length s)") auto

declare replace_cids.simps [simp del]

definition rewrite_cid :: "bytes \<Rightarrow> attachment list \<Rightarrow> bytes" where
  "rewrite_cid html atts = (if html = [] then html else replace_cids (parts_by_cid atts) html)"

section \<open>What is inserted\<close>

text \<open>Bytes that neither end an attribute value nor open a tag.\<close>

abbreviation inert :: "char \<Rightarrow> bool" where
  "inert c \<equiv> \<not> cid_stop c \<and> c \<noteq> CHR ''<''"

lemma inert_values: "inert c \<longleftrightarrow> byte_val c \<notin> {34, 39, 62, 9, 10, 12, 13, 32, 60}"
  by (simp add: cid_stop_def char_eq_val) (simp add: byte_val_def)

lemma b64std_encode_inert: "c \<in> set (b64std_encode s) \<Longrightarrow> inert c"
proof -
  have "inert (std_char (b64_char n))" if n: "n < 64" for n
  proof -
    have "byte_val (b64_char n) = (if n < 26 then n + 65 else if n < 52 then n + 71 else if n < 62 then n - 4
        else if n = 62 then 45 else 95)"
      using n by (simp add: b64_char_def byte_val_char_of) (simp add: byte_val_def)
    then have "45 \<le> byte_val (b64_char n) \<and> byte_val (b64_char n) \<noteq> 60 \<and> byte_val (b64_char n) \<noteq> 62"
      using n by (auto split: if_splits)
    moreover have "byte_val (std_char (b64_char n)) \<in> {43, 47} \<or> byte_val (std_char (b64_char n)) = byte_val (b64_char n)"
      by (auto simp: std_char_def byte_val_def)
    ultimately show ?thesis unfolding inert_values by auto
  qed
  moreover assume "c \<in> set (b64std_encode s)"
  ultimately show ?thesis using b64url_encode_chars
    by (auto simp: b64std_encode_def inert_values byte_val_def)
qed

lemma token_unit_inert: "token_unit u \<Longrightarrow> c \<in> set (lower_unit u) \<Longrightarrow> inert c"
proof -
  assume t: "token_unit u" and c: "c \<in> set (lower_unit u)"
  consider "u = long_s" | "u = kelvin" | d where "u = [d]" using t
    by (auto simp: token_unit_def alnum_unit_def length_Suc_conv)
  then show ?thesis
  proof cases
    case 3
    then have c': "c = lower_char d" using c by (auto simp: lower_unit_def kelvin_def to_lower_def)
    consider "alnum_unit u" | "d \<in> set ''!#$&-^_.+''" using t 3 by (auto simp: token_unit_def)
    then show ?thesis
    proof cases
      case 1
      then have "let n = byte_val (lower_char d) in (97 \<le> n \<and> n \<le> 122) \<or> (48 \<le> n \<and> n \<le> 57)"
        using 3 by (auto simp: alnum_unit_def long_s_def kelvin_def)
      then show ?thesis by (auto simp: inert_values c' Let_def)
    next
      case 2
      then show ?thesis by (auto simp: inert_values c' lower_char_def byte_val_def)
    qed
  qed (use c in \<open>auto simp: lower_unit_def long_s_def kelvin_def to_lower_def lower_char_def cid_stop_def byte_val_def\<close>)
qed

lemma media_part_units: "media_part us \<Longrightarrow> u \<in> set us \<Longrightarrow> token_unit u"
  by (cases us) (auto simp: media_part_def token_unit_def list_all_iff)

lemma data_type_inert: "c \<in> set (data_type ct) \<Longrightarrow> inert c"
proof -
  assume c: "c \<in> set (data_type ct)"
  let ?t = "trim_space (hd (split_on (CHR '';'') ct))"
  show ?thesis
  proof (cases "media_token ?t")
    case True
    define us where "us = media_units ?t"
    define a where "a = takeWhile (\<lambda>u. u \<noteq> ''/'') us"
    have m: "length a < length us" "media_part a" "media_part (drop (Suc (length a)) us)"
      using True by (auto simp: media_token_def us_def a_def Let_def)
    have us: "us = a @ us ! length a # drop (Suc (length a)) us"
      using m(1) takeWhile_dropWhile_id[of "\<lambda>u. u \<noteq> ''/''" us] unfolding a_def
      by (metis Cons_nth_drop_Suc dropWhile_eq_drop)
    have "us ! length a = ''/''" using m(1) nth_length_takeWhile[of "\<lambda>u. u \<noteq> ''/''" us] unfolding a_def by simp
    then have "set us = set a \<union> insert ''/'' (set (drop (Suc (length a)) us))" using arg_cong[OF us, of set] by simp
    then have "u \<in> set us \<Longrightarrow> token_unit u \<or> u = ''/''" for u using media_part_units m(2,3) by auto
    moreover have "x \<in> set (lower_unit ''/'') \<Longrightarrow> inert x" for x
      by (simp add: lower_unit_def kelvin_def to_lower_def lower_char_def cid_stop_def byte_val_def)
    moreover obtain u where "u \<in> set us" "c \<in> set (lower_unit u)"
      using c True by (auto simp: data_type_def us_def Let_def)
    ultimately show ?thesis using token_unit_inert by blast
  next
    case False
    then show ?thesis using c by (auto simp: data_type_def Let_def inert_values byte_val_def)
  qed
qed

lemma data_url_inert: "c \<in> set (data_url a) \<Longrightarrow> inert c"
  using data_type_inert[of c "at_content_type a"] b64std_encode_inert[of c "at_data a"]
  by (auto simp: data_url_def) (auto simp: cid_stop_def)

text \<open>A match holds no byte that ends an attribute.\<close>

lemma cid_match_parts:
  assumes "cid_match s"
  shows "s = take 4 s @ cid_run s @ drop (4 + length (cid_run s)) s" "take (4 + length (cid_run s)) s = take 4 s @ cid_run s"
    "c \<in> set (take 4 s @ cid_run s) \<Longrightarrow> \<not> cid_stop c"
proof -
  have p: "drop 4 s = cid_run s @ drop (length (cid_run s)) (drop 4 s)"
    by (metis append_eq_conv_conj cid_run_def takeWhile_dropWhile_id)
  then show "s = take 4 s @ cid_run s @ drop (4 + length (cid_run s)) s"
    by (metis add.commute append_take_drop_id drop_drop)
  then show "take (4 + length (cid_run s)) s = take 4 s @ cid_run s"
    using p by (metis append_eq_conv_conj take_add)
  have "to_lower (take 4 s) = ''cid:''" using assms by (simp add: cid_match_def equal_fold_def to_lower_def lower_char_def byte_val_def)
  then have l: "x \<in> set (take 4 s) \<Longrightarrow> lower_char x \<in> set ''cid:''" for x by (metis image_eqI list.set_map to_lower_def)
  have "\<not> cid_stop x" if "lower_char x \<in> set ''cid:''" for x
  proof
    assume "cid_stop x"
    then have "lower_char x = x" by (auto simp: cid_stop_def lower_char_def byte_val_def)
    then show False using that \<open>cid_stop x\<close> by (auto simp: cid_stop_def)
  qed
  then show "c \<in> set (take 4 s @ cid_run s) \<Longrightarrow> \<not> cid_stop c"
    using l set_takeWhileD[of c "\<lambda>c. \<not> cid_stop c" "drop 4 s"] by (auto simp: cid_run_def)
qed

lemma replacement_cases: "replacement ps m = m \<or> (\<exists>a. replacement ps m = data_url a)"
  by (auto simp: replacement_def split: option.splits)

lemma replace_cids_Nil [simp]: "replace_cids ps [] = []"
  by (simp add: replace_cids.simps)

lemma replace_cids_skip: "\<not> cid_match (c # t) \<Longrightarrow> replace_cids ps (c # t) = c # replace_cids ps t"
  by (subst replace_cids.simps) simp

lemma replace_cids_match: "cid_match s \<Longrightarrow>
    replace_cids ps s = replacement ps (take 4 s @ cid_run s) @ replace_cids ps (drop (4 + length (cid_run s)) s)"
  using cid_match_parts(2)[of s] by (subst replace_cids.simps) (auto simp: cid_match_def)

lemma replace_cids_confined:
  "filter cid_stop (replace_cids ps s) = filter cid_stop s \<and>
   length (filter (\<lambda>c. c = CHR ''<'') (replace_cids ps s)) \<le> length (filter (\<lambda>c. c = CHR ''<'') s)"
proof (induction ps s rule: replace_cids.induct)
  case (1 ps s)
  show ?case
  proof (cases "s \<noteq> [] \<and> cid_match s")
    case True
    define m where "m = take 4 s @ cid_run s"
    define t where "t = drop (4 + length (cid_run s)) s"
    note p = cid_match_parts[OF conjunct2[OF True]]
    have s: "s = m @ t" using p(1) by (simp add: m_def t_def)
    have r: "replace_cids ps s = replacement ps m @ replace_cids ps t"
      using replace_cids_match[OF conjunct2[OF True], of ps] by (simp add: m_def t_def)
    have "filter cid_stop m = []" using p(3) by (auto simp: m_def filter_empty_conv)
    moreover have "filter cid_stop (replacement ps m) = []" "length (filter (\<lambda>c. c = CHR ''<'') (replacement ps m))
        \<le> length (filter (\<lambda>c. c = CHR ''<'') m)"
      using replacement_cases[of ps m] data_url_inert calculation by (auto simp: filter_empty_conv)
    moreover have "filter cid_stop (replace_cids ps t) = filter cid_stop t \<and>
        length (filter (\<lambda>c. c = CHR ''<'') (replace_cids ps t)) \<le> length (filter (\<lambda>c. c = CHR ''<'') t)"
      using 1(1) True by (simp add: t_def)
    ultimately show ?thesis unfolding r by (simp add: s)
  next
    case False
    then show ?thesis using 1(2) by (cases s) (auto simp: replace_cids_skip)
  qed
qed

text \<open>C35.  Inlining cannot break out of where the reference stood: whatever the content types, the data and the
  content ids a sender chose, the rewritten document has the same quotes, closing brackets and white
  space in the same order, and opens no tag the document did not open.\<close>

theorem preview_confined:
  "filter cid_stop (rewrite_cid html atts) = filter cid_stop html \<and>
   length (filter (\<lambda>c. c = CHR ''<'') (rewrite_cid html atts)) \<le> length (filter (\<lambda>c. c = CHR ''<'') html)"
  using replace_cids_confined by (simp add: rewrite_cid_def)

section \<open>What a reference shows\<close>

lemma b64std_quanta: "b64_quanta True (b64std_encode s) = Some s"
proof (induction s rule: b64url_encode.induct)
  case (2 a)
  have "b64_two (byte_val a div 4) (byte_val a mod 4 * 16) = [a]"
    by (simp add: b64_two_def char_of_byte_val)
  then show ?case using b64_sextet(1)[OF sextets(1)[of a]] b64_sextet(1)[OF sextets(2)[of a]]
    by (simp add: b64std_encode_def numeral_2_eq_2)
next
  case (3 a b)
  have e: "(byte_val a mod 4 * 16 + byte_val b div 16) div 16 = byte_val a mod 4"
    "(byte_val a mod 4 * 16 + byte_val b div 16) mod 16 = byte_val b div 16"
    by (rule pack16[OF nibbles(2)])+
  have "b64_three (byte_val a div 4) (byte_val a mod 4 * 16 + byte_val b div 16) (byte_val b mod 16 * 4) = [a, b]"
    by (simp add: b64_three_def e mod_less[OF nibbles(2)] char_of_byte_val)
  moreover have "std_char (b64_char n) \<noteq> CHR ''=''" if "n < 64" for n
    using b64_sextet(1)[OF that] by (auto simp: b64_val_def byte_val_def)
  ultimately show ?case using b64_sextet(1)[OF sextets(1)[of a]] b64_sextet(1)[OF sextets(3)[of a b]] b64_sextet(1)[OF sextets(4)[of b]]
      sextets(4)[of b] by (simp add: b64std_encode_def)
next
  case (4 a b c rest)
  have e: "(byte_val a mod 4 * 16 + byte_val b div 16) div 16 = byte_val a mod 4"
    "(byte_val a mod 4 * 16 + byte_val b div 16) mod 16 = byte_val b div 16"
    "(byte_val b mod 16 * 4 + byte_val c div 64) div 4 = byte_val b mod 16"
    "(byte_val b mod 16 * 4 + byte_val c div 64) mod 4 = byte_val c div 64"
    by (rule pack16[OF nibbles(2)] pack4[OF nibbles(3)])+
  have "b64_four (byte_val a div 4) (byte_val a mod 4 * 16 + byte_val b div 16) (byte_val b mod 16 * 4 + byte_val c div 64)
      (byte_val c mod 64) = [a, b, c]"
    by (simp add: b64_four_def e mod_less[OF nibbles(2)] mod_less[OF nibbles(3)] char_of_byte_val)
  moreover have "std_char (b64_char n) \<noteq> CHR ''=''" if "n < 64" for n
    using b64_sextet(1)[OF that] by (auto simp: b64_val_def byte_val_def)
  moreover have "(3 - length (a # b # c # rest) mod 3) mod 3 = (3 - length rest mod 3) mod 3" by simp
  ultimately show ?case using 4 b64_sextet(1)[OF sextets(1)[of a]] b64_sextet(1)[OF sextets(3)[of a b]]
      b64_sextet(1)[OF sextets(5)[of b c]] b64_sextet(1)[OF sextets(6)[of c]] sextets(5)[of b c] sextets(6)[of c]
    by (simp add: b64std_encode_def)
qed (simp add: b64std_encode_def)

lemma b64std_roundtrip: "b64_decode True (b64std_encode s) = Some s"
proof -
  have "filter (\<lambda>c. c \<noteq> CR \<and> c \<noteq> LF) (b64std_encode s) = b64std_encode s"
    using b64std_encode_inert by (fastforce simp: filter_id_conv cid_stop_def)
  then show ?thesis by (simp add: b64_decode_def b64std_quanta)
qed

text \<open>A match that starts in a text needs a colon three bytes on.\<close>

lemma cid_match_colon:
  assumes "cid_match s"
  shows "3 < length s \<and> s ! 3 = CHR '':''"
proof -
  have l: "3 < length s" using assms by (auto simp: cid_match_def)
  have "to_lower (take 4 s) = ''cid:''" using assms by (simp add: cid_match_def equal_fold_def to_lower_def lower_char_def byte_val_def)
  then have "lower_char (s ! 3) = CHR '':''" using l nth_map[of 3 "take 4 s" lower_char] by (simp add: to_lower_def)
  then show ?thesis using l by (auto simp: lower_char_def Let_def byte_val_def split: if_splits)
    (auto simp: char_eq_val byte_val_def)
qed

lemma replace_cids_before:
  assumes "CHR '':'' \<notin> set pre"
  shows "replace_cids ps (pre @ ''cid:'' @ t) = pre @ replace_cids ps (''cid:'' @ t)"
  using assms
proof (induction pre)
  case (Cons c pre)
  have "\<not> cid_match ((c # pre) @ ''cid:'' @ t)"
  proof
    assume "cid_match ((c # pre) @ ''cid:'' @ t)"
    then have "((c # pre) @ ''cid:'' @ t) ! 3 = CHR '':''" using cid_match_colon by blast
    moreover have "((c # pre) @ ''cid:'' @ t) ! 3 \<noteq> CHR '':''"
    proof (cases "3 < length (c # pre)")
      case True
      then have "pre ! 2 \<in> set pre" by simp
      then have "pre ! 2 \<noteq> CHR '':''" using Cons.prems by (metis list.set_intros(2))
      then show ?thesis using True by (simp add: nth_append)
    next
      case False
      then show ?thesis by (cases pre; cases "tl pre") auto
    qed
    ultimately show False by simp
  qed
  then show ?case using Cons replace_cids_skip by simp
qed simp

text \<open>The first reference of a document to a part it carries shows that part: the reference becomes a URL whose
  base64 text decodes to the attachment's bytes, and the rest of the document is rewritten as before.\<close>

lemma preview_inlines:
  assumes "CHR '':'' \<notin> set pre" "name \<noteq> []" "\<And>c. c \<in> set name \<Longrightarrow> \<not> cid_stop c" "cid_stop q"
    and "lookup (parts_by_cid atts) (normalize_cid name) = Some a" "at_data a \<noteq> []" "length (at_data a) \<le> max_part"
  shows "rewrite_cid (pre @ ''cid:'' @ name @ q # post) atts =
      pre @ ''data:'' @ data_type (at_content_type a) @ '';base64,'' @ b64std_encode (at_data a) @ rewrite_cid (q # post) atts \<and>
    b64_decode True (b64std_encode (at_data a)) = Some (at_data a)"
proof -
  let ?s = "''cid:'' @ name @ q # post"
  have run: "cid_run ?s = name" using assms(3,4) by (simp add: cid_run_def takeWhile_append)
  have m: "cid_match ?s" using assms(2,3) by (cases name) (auto simp: cid_match_def)
  have "cid_run (''cid:'' @ name) = name" using assms(3) by (simp add: cid_run_def takeWhile_eq_all_conv)
  then have "replacement (parts_by_cid atts) (''cid:'' @ name) = data_url a" using assms(5-7) by (simp add: replacement_def)
  moreover have rest: "drop (4 + length name) ?s = q # post"
    using drop_drop[of "length name" 4 ?s] by (simp add: add.commute)
  ultimately have "replace_cids (parts_by_cid atts) ?s = data_url a @ replace_cids (parts_by_cid atts) (q # post)"
    using replace_cids_match[OF m, of "parts_by_cid atts"] by (simp add: run[simplified] rest[simplified])
  then show ?thesis using replace_cids_before[OF assms(1)] by (simp add: rewrite_cid_def data_url_def b64std_roundtrip)
qed

definition demo_part :: attachment where
  "demo_part = \<lparr> at_id = ''att-1'', at_filename = ''a.png'', at_content_type = ''image/PNG; name=x'', at_content_id = ''<logo@x>'',
     at_disposition = ''inline'', at_size = 3, at_checksum = [], at_data = ''png'' \<rparr>"

lemma preview_inlines_witness:
  "rewrite_cid (''<img src='' @ ''cid:'' @ ''logo@x'' @ CHR ''>'' # []) [demo_part] = ''<img src=data:image/png;base64,cG5n>''"
proof -
  have l: "lookup (parts_by_cid [demo_part]) (normalize_cid ''logo@x'') = Some demo_part" by code_simp
  have "\<And>c. c \<in> set ''logo@x'' \<Longrightarrow> \<not> cid_stop c" by (auto simp: cid_stop_def)
  then have "rewrite_cid (''<img src='' @ ''cid:'' @ ''logo@x'' @ CHR ''>'' # []) [demo_part] =
      ''<img src='' @ ''data:'' @ data_type (at_content_type demo_part) @ '';base64,'' @ b64std_encode (at_data demo_part) @
      rewrite_cid (CHR ''>'' # []) [demo_part]"
    using preview_inlines[OF _ _ _ _ l, of "''<img src=''" "CHR ''>''" "[]"] by (simp add: cid_stop_def demo_part_def max_part_def)
  moreover have "data_type (at_content_type demo_part) = ''image/png''" "b64std_encode (at_data demo_part) = ''cG5n''"
    "rewrite_cid (CHR ''>'' # []) [demo_part] = ''>''"
    by code_simp+
  ultimately show ?thesis by simp
qed

end
