(* ===== verification/Rest_Handlers.thy ===== *)
theory Rest_Handlers
  imports Rest_Server Html_Preview
begin

text \<open>
  The handlers of the management API (\<^verbatim>\<open>handlers.go\<close>, \<^verbatim>\<open>messages.go\<close>, \<^verbatim>\<open>preview.go\<close>, \<^verbatim>\<open>session.go\<close>, \<^verbatim>\<open>events.go\<close>), their
  dispatch by capability and the request's path through the gates (\<^verbatim>\<open>serveHTTP\<close>).  The JSON forms of
  the answers (\<^verbatim>\<open>dto.go\<close>) are left as the values they are made from.
\<close>

type_synonym handled = "http_response \<times> rest_server"

definition fail_with :: "bytes \<Rightarrow> go_error \<Rightarrow> rest_server \<Rightarrow> handled" where
  "fail_with inst er sv = (write_problem sv inst er, sv)"

text \<open>The answer to a call of the service: its error as a problem, or the response made from its value.\<close>

definition answer :: "bytes \<Rightarrow> go_error + 'a \<Rightarrow> ('a \<Rightarrow> http_response) \<Rightarrow> rest_server \<Rightarrow> handled" where
  "answer inst r ok sv = (case r of Inl er \<Rightarrow> fail_with inst (rest_error er) sv | Inr x \<Rightarrow> (ok x, sv))"

abbreviation with_app :: "rest_server \<Rightarrow> app \<Rightarrow> rest_server" where
  "with_app sv a \<equiv> sv \<lparr> sv_app := a \<rparr>"

definition internal :: "bytes \<Rightarrow> go_error" where
  "internal m = domain_e (new_error InternalError m)"

section \<open>Health, status and state\<close>

definition is_live :: "rest_config \<Rightarrow> rest_server \<Rightarrow> bool" where
  "is_live cfg sv = (case rc_live cfg of Some b \<Rightarrow> b | None \<Rightarrow> \<not> sv_closed sv)"

definition is_ready :: "rest_env \<Rightarrow> rest_config \<Rightarrow> rest_server \<Rightarrow> bool" where
  "is_ready e cfg sv = (case rc_ready cfg of
       Some b \<Rightarrow> b
     | None \<Rightarrow> (case app_status (re_app e) (re_health e) (re_stamp e) (sv_app sv) of Inl er \<Rightarrow> False | Inr st \<Rightarrow> su_ready st))"

definition handle_health_live :: "rest_config \<Rightarrow> rest_server \<Rightarrow> handled" where
  "handle_health_live cfg sv =
     ((if is_live cfg sv then write_json 200 [] (HealthBody ''ok'') else write_json 503 [] (HealthBody ''down'')), sv)"

definition handle_health_ready :: "rest_env \<Rightarrow> rest_config \<Rightarrow> rest_server \<Rightarrow> handled" where
  "handle_health_ready e cfg sv =
     ((if is_ready e cfg sv then write_json 200 [] (HealthBody ''ok'') else write_json 503 [] (HealthBody ''not ready'')), sv)"

definition handle_status :: "rest_env \<Rightarrow> rest_config \<Rightarrow> bytes \<Rightarrow> rest_server \<Rightarrow> handled" where
  "handle_status e cfg inst sv = (case app_status (re_app e) (re_health e) (re_stamp e) (sv_app sv) of
       Inl er \<Rightarrow> fail_with inst (rest_error er) sv
     | Inr st \<Rightarrow> answer inst (get_state (re_app e) (sv_app sv)) (\<lambda>v. write_json 200 []
         (StatusBody (is_ready e cfg sv) st
           [(''smtp'', ls_smtp_address (sp_listeners (sd_spec (vw_canonical v)))),
            (''management'', ls_mgmt_address (sp_listeners (sd_spec (vw_canonical v))))])) sv)"

definition handle_schema :: "rest_env \<Rightarrow> bytes \<Rightarrow> rest_server \<Rightarrow> handled" where
  "handle_schema e inst sv = (case re_schema e of
       None \<Rightarrow> fail_with inst (internal ''schema unavailable'') sv
     | Some b \<Rightarrow> (write_bytes [] ''application/schema+json'' b, sv))"

definition revision_header :: "bytes \<Rightarrow> (bytes \<times> bytes) list" where
  "revision_header r = (if r = [] then [] else [(''X-LabMail-Revision'', r)])"

definition handle_get_state :: "rest_env \<Rightarrow> bytes \<Rightarrow> rest_server \<Rightarrow> handled" where
  "handle_get_state e inst sv = answer inst (get_state (re_app e) (sv_app sv))
     (\<lambda>v. write_json 200 (revision_header (vw_runtime v)) (StateBody v)) sv"

definition handle_export :: "rest_env \<Rightarrow> http_request \<Rightarrow> bytes \<Rightarrow> rest_server \<Rightarrow> handled" where
  "handle_export e rq inst sv = (let f = to_lower (hq_query rq ''format'') in
     if f \<notin> {[], ''yaml'', ''yml'', ''json''}
     then fail_with inst (invalid_query ''unknown export format'' ''format'' ''format must be yaml or json'') sv
     else answer inst (app_export (re_app e) (re_yaml e) (if f = ''json'' then ''json'' else ''yaml'') (sv_app sv)) (\<lambda>x.
         if f \<noteq> ''json'' then write_bytes (revision_header (ex_revision x)) ''application/yaml'' (ex_body x)
         else write_json 200 (revision_header (ex_revision x)) (ExportBody x)) sv)"

section \<open>Changes\<close>

definition handle_validate :: "rest_env \<Rightarrow> rest_config \<Rightarrow> http_request \<Rightarrow> bytes \<Rightarrow> rest_server \<Rightarrow> handled" where
  "handle_validate e cfg rq inst sv = (case decode_json_body e cfg rq (re_change e) of
       Inl er \<Rightarrow> fail_with inst er sv
     | Inr q \<Rightarrow> (case decode_candidate_state e (cq_state q) of
         Inl er \<Rightarrow> fail_with inst (domain_e er) sv
       | Inr st \<Rightarrow> answer inst (app_validate (re_app e) st (cq_operations q) (sv_app sv)) (\<lambda>p. write_json 200 [] (PlanBody p)) sv))"

definition handle_plan :: "rest_env \<Rightarrow> rest_config \<Rightarrow> http_request \<Rightarrow> bytes \<Rightarrow> rest_server \<Rightarrow> handled" where
  "handle_plan e cfg rq inst sv = (case read_change e cfg rq of
       Inl er \<Rightarrow> fail_with inst er sv
     | Inr c \<Rightarrow> (let (r, a) = app_plan (re_app e) c (sv_app sv) in
         answer inst r (\<lambda>p. write_json 200 [] (PlanBody p)) (with_app sv a)))"

text \<open>The hooks run after the service has let go of its lock, before the answer is written.\<close>

definition handle_apply :: "rest_env \<Rightarrow> rest_config \<Rightarrow> http_request \<Rightarrow> bytes \<Rightarrow> actor \<Rightarrow> rest_server \<Rightarrow> handled" where
  "handle_apply e cfg rq inst ac sv = (case read_change e cfg rq of
       Inl er \<Rightarrow> fail_with inst er sv
     | Inr c \<Rightarrow> (case app_apply (re_app e) ac c (sv_app sv) of
         (Inl er, a) \<Rightarrow> fail_with inst (rest_error er) (with_app sv a)
       | (Inr r, a) \<Rightarrow> (write_json 200 (revision_header (ar_revision r)) (ApplyBody r), reload_auth e (with_app sv a))))"

definition handle_reset :: "rest_env \<Rightarrow> rest_config \<Rightarrow> http_request \<Rightarrow> bytes \<Rightarrow> actor \<Rightarrow> rest_server \<Rightarrow> handled" where
  "handle_reset e cfg rq inst ac sv = (case decode_json_optional e cfg rq (re_reset e) [] of
       Inl er \<Rightarrow> fail_with inst er sv
     | Inr reason \<Rightarrow> (case app_reset (re_app e) ac reason (sv_app sv) of
         (Inl er, a) \<Rightarrow> fail_with inst (rest_error er) (with_app sv a)
       | (Inr r, a) \<Rightarrow> (write_json 200 [] (ApplyBody r), reload_auth e (rotate_cursors e (with_app sv a)))))"

section \<open>Sessions\<close>

definition set_cookie :: "rest_config \<Rightarrow> http_request \<Rightarrow> bytes \<Rightarrow> int \<Rightarrow> session_cookie" where
  "set_cookie cfg rq value age = \<lparr> ck_value = value, ck_secure = (if rc_cookie_secure cfg then True else hq_tls rq), ck_max_age = age \<rparr>"

definition handle_session_create :: "rest_env \<Rightarrow> rest_config \<Rightarrow> http_request \<Rightarrow> bytes \<Rightarrow> actor \<Rightarrow> rest_server \<Rightarrow> handled" where
  "handle_session_create e cfg rq inst ac sv = (case re_random e of
       None \<Rightarrow> fail_with inst (internal ''session material unavailable'') sv
     | Some (cookie, csrf, pid) \<Rightarrow>
         (let p = \<lparr> pr_id = ac_id ac, pr_class = ac_class ac, pr_role = ac_role ac, pr_scopes = ac_scopes ac \<rparr>;
              (u, t) = create_session cookie csrf pid (ev_now (re_app e)) p (sv_sessions sv)
          in ((write_json 200 [] (SessionBody csrf (expires_at t u))) \<lparr> hr_cookie := Some (set_cookie cfg rq cookie (max_age t)) \<rparr>,
              sv \<lparr> sv_sessions := t \<rparr>)))"

definition handle_session_get :: "rest_env \<Rightarrow> http_request \<Rightarrow> actor \<Rightarrow> rest_server \<Rightarrow> handled" where
  "handle_session_get e rq ac sv = (let body = (\<lambda>x. write_json 200 [] (SessionViewBody (ac_id ac) (ac_role ac) (ac_scopes ac) x)) in
     case hq_cookie rq of
       None \<Rightarrow> (body None, sv)
     | Some c \<Rightarrow> (case lookup_session c (ev_now (re_app e)) (sv_sessions sv) of
         (None, t) \<Rightarrow> (body None, sv \<lparr> sv_sessions := t \<rparr>)
       | (Some (u, csrf), t) \<Rightarrow> (body (Some (csrf, expires_at t u)), sv \<lparr> sv_sessions := t \<rparr>)))"

definition handle_session_delete :: "rest_config \<Rightarrow> http_request \<Rightarrow> rest_server \<Rightarrow> handled" where
  "handle_session_delete cfg rq sv =
     (no_content \<lparr> hr_headers := [(''Cache-Control'', ''no-store'')], hr_cookie := Some (set_cookie cfg rq [] (- 1)) \<rparr>,
      case hq_cookie rq of None \<Rightarrow> sv | Some c \<Rightarrow> sv \<lparr> sv_sessions := delete_session c (sv_sessions sv) \<rparr>)"

section \<open>Messages\<close>

definition stale_cursor :: go_error where
  "stale_cursor = domain_e (new_error CursorStale ''list cursor is stale; restart the list'')"

definition handle_list_messages :: "rest_env \<Rightarrow> http_request \<Rightarrow> bytes \<Rightarrow> rest_server \<Rightarrow> handled" where
  "handle_list_messages e rq inst sv = (case list_query_from_request e rq of
       Inl er \<Rightarrow> fail_with inst er sv
     | Inr q \<Rightarrow> (case decode_cursor (re_hmac e) (sv_key sv) (q_cursor q) of
         Inl er \<Rightarrow> fail_with inst (domain_e er) sv
       | Inr (mid, gen) \<Rightarrow> (case list_messages (re_app e) (re_ulid e) (if q_cursor q = [] then q else q \<lparr> q_cursor := mid \<rparr>) (sv_app sv) of
           Inl er \<Rightarrow> fail_with inst (rest_error er) sv
         | Inr res \<Rightarrow>
             if q_cursor q \<noteq> [] \<and> gen \<noteq> lr_generation res then fail_with inst stale_cursor sv
             else (write_json 200 [] (MessagesBody \<lparr>
                 ml_revision = (case get_state (re_app e) (sv_app sv) of Inl er \<Rightarrow> [] | Inr v \<Rightarrow> vw_runtime v),
                 ml_generation = lr_generation res, ml_items = lr_items res,
                 ml_next = (if lr_next res = [] then None
                   else Some (encode_cursor (re_hmac e) (sv_key sv) (lr_next res) (lr_generation res))) \<rparr>), sv))))"

definition with_message :: "rest_env \<Rightarrow> bytes \<Rightarrow> bytes \<Rightarrow> bool \<Rightarrow> (message \<Rightarrow> http_response) \<Rightarrow> rest_server \<Rightarrow> handled" where
  "with_message e inst mid mark ok sv = (let (r, a) = get_message (re_app e) mid mark (sv_app sv) in
     answer inst r ok (with_app sv a))"

definition handle_get_message :: "rest_env \<Rightarrow> http_request \<Rightarrow> bytes \<Rightarrow> bytes \<Rightarrow> rest_server \<Rightarrow> handled" where
  "handle_get_message e rq inst mid sv = (case mark_read_from_query rq of
       Inl er \<Rightarrow> fail_with inst er sv
     | Inr mark \<Rightarrow> with_message e inst mid mark (\<lambda>m. write_json 200 [] (MessageBody m)) sv)"

definition nosniff :: "(bytes \<times> bytes) list" where
  "nosniff = [(''X-Content-Type-Options'', ''nosniff'')]"

definition handle_raw :: "rest_env \<Rightarrow> bytes \<Rightarrow> bytes \<Rightarrow> rest_server \<Rightarrow> handled" where
  "handle_raw e inst mid sv = with_message e inst mid False (\<lambda>m. write_bytes nosniff ''message/rfc822'' (msg_raw m)) sv"

definition handle_html :: "rest_env \<Rightarrow> bytes \<Rightarrow> bytes \<Rightarrow> rest_server \<Rightarrow> handled" where
  "handle_html e inst mid sv = with_message e inst mid False (\<lambda>m. write_bytes [] ''text/html; charset=utf-8'' (msg_html m)) sv"

definition preview_csp :: bytes where
  "preview_csp = ''default-src '' @ [CHR 0x27] @ ''none'' @ [CHR 0x27] @ ''; img-src data:; style-src '' @ [CHR 0x27] @
     ''unsafe-inline'' @ [CHR 0x27]"

definition handle_preview :: "rest_env \<Rightarrow> bytes \<Rightarrow> bytes \<Rightarrow> rest_server \<Rightarrow> handled" where
  "handle_preview e inst mid sv = with_message e inst mid False (\<lambda>m. \<lparr> hr_status = 200,
       hr_headers = [(''Content-Type'', ''text/html; charset=utf-8''), (''Content-Security-Policy'', preview_csp)] @ nosniff @
         [(''Content-Disposition'', ''inline'')],
       hr_cookie = None, hr_payload = RawBody (rewrite_cid (msg_html m) (msg_attachments m)) \<rparr>) sv"

definition handle_delete_message :: "rest_env \<Rightarrow> rest_config \<Rightarrow> http_request \<Rightarrow> bytes \<Rightarrow> actor \<Rightarrow> bytes \<Rightarrow> rest_server \<Rightarrow> handled" where
  "handle_delete_message e cfg rq inst ac mid sv = (case delete_in e cfg rq of
       Inl er \<Rightarrow> fail_with inst er sv
     | Inr expected \<Rightarrow> (case delete_message (re_app e) ac mid expected (sv_app sv) of
         (Some er, a) \<Rightarrow> fail_with inst (rest_error er) (with_app sv a) | (None, a) \<Rightarrow> (no_content, with_app sv a)))"

definition handle_clear :: "rest_env \<Rightarrow> rest_config \<Rightarrow> http_request \<Rightarrow> bytes \<Rightarrow> actor \<Rightarrow> rest_server \<Rightarrow> handled" where
  "handle_clear e cfg rq inst ac sv = (case delete_in e cfg rq of
       Inl er \<Rightarrow> fail_with inst er sv
     | Inr expected \<Rightarrow> (let (r, a) = clear_messages (re_app e) ac expected (sv_app sv) in
         answer inst r (\<lambda>n. write_json 200 [] (CountBody ''deleted'' n)) (with_app sv a)))"

definition handle_read_all :: "rest_env \<Rightarrow> bytes \<Rightarrow> rest_server \<Rightarrow> handled" where
  "handle_read_all e inst sv = (let (r, a) = app_mark_all_read (re_app e) (sv_app sv) in
     answer inst r (\<lambda>n. write_json 200 [] (CountBody ''updated'' n)) (with_app sv a))"

definition handle_mark_read :: "rest_env \<Rightarrow> bytes \<Rightarrow> bytes \<Rightarrow> rest_server \<Rightarrow> handled" where
  "handle_mark_read e inst mid sv = (case app_mark_read (re_app e) mid (sv_app sv) of
       (Some er, a) \<Rightarrow> fail_with inst (rest_error er) (with_app sv a) | (None, a) \<Rightarrow> (no_content, with_app sv a))"

definition handle_wait :: "rest_env \<Rightarrow> rest_config \<Rightarrow> http_request \<Rightarrow> bytes \<Rightarrow> rest_server \<Rightarrow> handled" where
  "handle_wait e cfg rq inst sv = (case decode_json_body e cfg rq (re_wait e) of
       Inl er \<Rightarrow> fail_with inst er sv
     | Inr q \<Rightarrow> (case parse_optional_time e (wq_after q) ''filter.after'' of
         Inl er \<Rightarrow> fail_with inst er sv
       | Inr after \<Rightarrow> (case parse_optional_time e (wq_before q) ''filter.before'' of
           Inl er \<Rightarrow> fail_with inst er sv
         | Inr before \<Rightarrow> (let bad = invalid_query ''invalid timeout'' ''timeout'' ''timeout must use Go duration syntax'' in
             case (if wq_timeout q = [] then Some 0
               else case parse_duration (lib_frac (ev_libs (re_app e))) (wq_timeout q) of
                   None \<Rightarrow> None | Some d \<Rightarrow> if d < 0 then None else Some d) of
               None \<Rightarrow> fail_with inst bad sv
             | Some t \<Rightarrow> (case app_wait (re_app e) (re_cancelled e) t (re_remain e)
                   ((wq_filter q) \<lparr> f_after := after, f_before := before \<rparr>) (re_observe e) (sv_app sv) of
                 None \<Rightarrow> (no_content \<lparr> hr_status := 0, hr_payload := Waiting \<rparr>, sv)
               | Some r \<Rightarrow> answer inst r (\<lambda>m. write_json 200 [] (MessageBody m)) sv)))))"

definition handle_extract :: "rest_env \<Rightarrow> bytes \<Rightarrow> bytes \<Rightarrow> rest_server \<Rightarrow> handled" where
  "handle_extract e inst mid sv = (let (r, a) = app_extract (re_app e) (re_patterns e) mid (sv_app sv) in
     answer inst r (\<lambda>(urls, toks). write_json 200 [] (ExtractBody urls toks)) (with_app sv a))"

definition sanitize_download_name :: "bytes \<Rightarrow> bytes" where
  "sanitize_download_name name = (let n = map (\<lambda>c. if c = CHR ''/'' \<or> c = CHR 0x5C then CHR ''_'' else c)
       (filter (\<lambda>c. c \<noteq> QUOTE) name) in if n = [] then ''attachment'' else n)"

definition attachment_response :: "attachment \<Rightarrow> http_response" where
  "attachment_response att = (let name = (if at_filename att = [] then path_base (at_id att) else at_filename att);
       ct = (if at_content_type att = [] then ''application/octet-stream'' else at_content_type att)
     in \<lparr> hr_status = 200, hr_headers = [(''Content-Type'', ct),
            (''Content-Disposition'', ''attachment; filename='' @ [QUOTE] @ sanitize_download_name name @ [QUOTE])] @ nosniff,
          hr_cookie = None, hr_payload = RawBody (at_data att) \<rparr>)"

definition handle_attachment :: "rest_env \<Rightarrow> bytes \<Rightarrow> bytes \<Rightarrow> bytes \<Rightarrow> rest_server \<Rightarrow> handled" where
  "handle_attachment e inst mid aid sv = (case get_message (re_app e) mid False (sv_app sv) of
       (Inl er, a) \<Rightarrow> fail_with inst (rest_error er) (with_app sv a)
     | (Inr m, a) \<Rightarrow> (case find (\<lambda>x. at_id x = aid) (msg_attachments m) of
         None \<Rightarrow> fail_with inst (domain_e (new_error NotFound ''attachment not found'')) (with_app sv a)
       | Some att \<Rightarrow> (attachment_response att, with_app sv a)))"

section \<open>Audit, metrics and events\<close>

definition handle_audit_list :: "rest_env \<Rightarrow> http_request \<Rightarrow> bytes \<Rightarrow> rest_server \<Rightarrow> handled" where
  "handle_audit_list e rq inst sv = (case parse_limit (hq_query rq ''limit'') of
       Inl er \<Rightarrow> fail_with inst er sv
     | Inr n \<Rightarrow> answer inst (query_audit (re_app e) n (sv_app sv)) (\<lambda>evs. write_json 200 [] (AuditBody evs)) sv)"

definition handle_audit_get :: "rest_env \<Rightarrow> bytes \<Rightarrow> bytes \<Rightarrow> rest_server \<Rightarrow> handled" where
  "handle_audit_get e inst aid sv = answer inst (get_audit (re_app e) aid (sv_app sv)) (\<lambda>ev. write_json 200 [] (AuditEventBody ev)) sv"

definition handle_metrics :: "rest_config \<Rightarrow> bytes \<Rightarrow> rest_server \<Rightarrow> handled" where
  "handle_metrics cfg inst sv =
     (if \<not> rc_metrics cfg then fail_with inst (domain_e (new_error NotFound ''metrics public path is disabled'')) sv
      else (\<lparr> hr_status = 200, hr_headers = [(''Content-Type'', ''application/openmetrics-text; version=1.0.0; charset=utf-8'')],
              hr_cookie = None, hr_payload = MetricsBody \<rparr>, sv))"

text \<open>The head of the answer; what is written after it is the loop below.\<close>

definition handle_events :: "rest_env \<Rightarrow> bytes \<Rightarrow> rest_server \<Rightarrow> handled" where
  "handle_events e inst sv =
     (if \<not> re_flusher e then fail_with inst (rest_error (PlainE ''streaming unsupported'')) sv
      else (\<lparr> hr_status = 200, hr_headers = [(''Content-Type'', ''text/event-stream''), (''Cache-Control'', ''no-cache''),
              (''Connection'', ''keep-alive'')], hr_cookie = None, hr_payload = StreamBody \<rparr>, sv))"

section \<open>The event stream\<close>

text \<open>Whether the credential that opened a stream still opens it, with the sessions after the look at them.\<close>

definition stream_scopes_ok :: "bytes list \<Rightarrow> bool" where
  "stream_scopes_ok scopes = (case lookup_cap ''events.stream'' of
       None \<Rightarrow> False | Some c \<Rightarrow> authorize_scopes scopes (cap_scopes c) = None)"

definition cookie_stream_live :: "bytes \<Rightarrow> int \<Rightarrow> rest_server \<Rightarrow> bool \<times> rest_server" where
  "cookie_stream_live c now sv =
     (if c = [] then (False, sv)
      else case view_session c now (sv_sessions sv) of
          (None, t) \<Rightarrow> (False, sv \<lparr> sv_sessions := t \<rparr>)
        | (Some u, t) \<Rightarrow> (stream_scopes_ok (us_scopes u), sv \<lparr> sv_sessions := t \<rparr>))"

definition bearer_stream_live :: "(bytes \<Rightarrow> bytes) \<Rightarrow> bytes \<Rightarrow> rest_server \<Rightarrow> bool" where
  "bearer_stream_live dg secret sv =
     (if secret = [] then False
      else case authenticate_bearer dg (sv_auth sv) secret of Inl er \<Rightarrow> False | Inr p \<Rightarrow> stream_scopes_ok (pr_scopes p))"

definition basic_stream_live :: "(bytes \<Rightarrow> bytes) \<Rightarrow> bytes \<Rightarrow> bytes \<Rightarrow> rest_server \<Rightarrow> bool" where
  "basic_stream_live dg secret remote sv = (case sv_auth sv of
       None \<Rightarrow> False
     | Some v \<Rightarrow>
         if secret = [] then False
         else case authenticate dg (Some v) \<lparr> rq_authorization = ''Basic '' @ secret, rq_remote = remote,
             rq_allow_basic = basic_enabled v \<rparr> of
           Inl er \<Rightarrow> False | Inr p \<Rightarrow> stream_scopes_ok (pr_scopes p))"

definition loopback_stream_live :: "(bytes \<Rightarrow> bytes) \<Rightarrow> bytes \<Rightarrow> rest_server \<Rightarrow> bool" where
  "loopback_stream_live dg remote sv = (case sv_auth sv of
       None \<Rightarrow> False
     | Some v \<Rightarrow>
         if vf_mode v \<noteq> ''dev-loopback-unauth'' \<or> \<not> is_loopback remote then False
         else case authenticate dg (Some v) \<lparr> rq_authorization = [], rq_remote = remote, rq_allow_basic = False \<rparr> of
           Inl er \<Rightarrow> False | Inr p \<Rightarrow> stream_scopes_ok (pr_scopes p))"

definition stream_live :: "(bytes \<Rightarrow> bytes) \<Rightarrow> stream_cred option \<Rightarrow> int \<Rightarrow> rest_server \<Rightarrow> bool \<times> rest_server" where
  "stream_live dg cred now sv = (case cred of
       None \<Rightarrow> (sv_auth sv = None, sv)
     | Some (CredCookie c) \<Rightarrow> cookie_stream_live c now sv
     | Some (CredBearer secret) \<Rightarrow> (bearer_stream_live dg secret sv, sv)
     | Some (CredBasic secret remote) \<Rightarrow> (basic_stream_live dg secret remote sv, sv)
     | Some (CredLoopback remote) \<Rightarrow> (loopback_stream_live dg remote sv, sv))"

text \<open>
  What wakes the loop: the request is done, a heartbeat, an event or the end of the events.  Between two
  wake-ups other requests may change the server: each comes with the time and the server it finds.
  The chunks written are listed.
\<close>

datatype wake = WakeDone | WakeBeat | WakeEvent bytes bytes | WakeClosed

fun stream_loop :: "(bytes \<Rightarrow> bytes) \<Rightarrow> stream_cred option \<Rightarrow> (wake \<times> int \<times> rest_server) list \<Rightarrow> bytes list" where
  "stream_loop dg cred [] = []"
| "stream_loop dg cred ((w, now, sv) # ws) = (case w of
       WakeDone \<Rightarrow> []
     | WakeBeat \<Rightarrow> if fst (stream_live dg cred now sv) then ('': heartbeat'' @ [LF, LF]) # stream_loop dg cred ws else []
     | WakeClosed \<Rightarrow> stream_loop dg cred ws
     | WakeEvent kind data \<Rightarrow>
         if fst (stream_live dg cred now sv)
         then (''event: '' @ kind @ [LF] @ ''data: '' @ data @ [LF, LF]) # stream_loop dg cred ws else [])"

section \<open>Dispatch\<close>

definition rest_dispatch :: "rest_env \<Rightarrow> rest_config \<Rightarrow> http_request \<Rightarrow> bytes \<Rightarrow> actor \<Rightarrow> bytes \<Rightarrow> (bytes \<Rightarrow> bytes) \<Rightarrow> rest_server \<Rightarrow> handled" where
  "rest_dispatch e cfg rq inst ac cap par sv =
     (if ev_ctx (re_app e) \<noteq> None then fail_with inst (internal ''request canceled'') sv
      else if cap = ''health.live'' then handle_health_live cfg sv
      else if cap = ''health.ready'' then handle_health_ready e cfg sv
      else if cap = ''version.get'' then (write_json 200 [] VersionBody, sv)
      else if cap = ''capabilities.get'' then (write_json 200 [] (CapabilitiesBody discovery_list), sv)
      else if cap = ''status.get'' then handle_status e cfg inst sv
      else if cap = ''schema.get'' then handle_schema e inst sv
      else if cap = ''state.get'' then handle_get_state e inst sv
      else if cap = ''state.validate'' then handle_validate e cfg rq inst sv
      else if cap = ''changes.plan'' then handle_plan e cfg rq inst sv
      else if cap = ''changes.apply'' then handle_apply e cfg rq inst ac sv
      else if cap = ''session.create'' then handle_session_create e cfg rq inst ac sv
      else if cap = ''session.delete'' then handle_session_delete cfg rq sv
      else if cap = ''session.get'' then handle_session_get e rq ac sv
      else if cap = ''state.export'' then handle_export e rq inst sv
      else if cap = ''state.reset'' then handle_reset e cfg rq inst ac sv
      else if cap = ''events.stream'' then handle_events e inst sv
      else if cap = ''messages.list'' then handle_list_messages e rq inst sv
      else if cap = ''messages.get'' then handle_get_message e rq inst (par ''id'') sv
      else if cap = ''messages.raw'' then handle_raw e inst (par ''id'') sv
      else if cap = ''messages.html'' then handle_html e inst (par ''id'') sv
      else if cap = ''messages.preview'' then handle_preview e inst (par ''id'') sv
      else if cap = ''messages.delete'' then handle_delete_message e cfg rq inst ac (par ''id'') sv
      else if cap = ''messages.clear'' then handle_clear e cfg rq inst ac sv
      else if cap = ''messages.read_all'' then handle_read_all e inst sv
      else if cap = ''messages.read'' then handle_mark_read e inst (par ''id'') sv
      else if cap = ''messages.wait'' then handle_wait e cfg rq inst sv
      else if cap = ''messages.extract'' then handle_extract e inst (par ''id'') sv
      else if cap = ''attachments.get'' then handle_attachment e inst (par ''id'') (par ''attId'') sv
      else if cap = ''audit.list'' then handle_audit_list e rq inst sv
      else if cap = ''audit.get'' then handle_audit_get e inst (par ''eventId'') sv
      else if cap = ''metrics.get'' then handle_metrics cfg inst sv
      else fail_with inst (domain_e (new_error NotFound ''not found'')) sv)"

section \<open>The way of a request\<close>

definition param :: "path_params \<Rightarrow> bytes \<Rightarrow> bytes" where
  "param ks k = (case lookup ks k of None \<Rightarrow> [] | Some v \<Rightarrow> v)"

definition is_health_cap :: "capability \<Rightarrow> bool" where
  "is_health_cap c = (cap_id c = ''health.live'' \<or> cap_id c = ''health.ready'')"

definition is_mount_health_path :: "bytes \<Rightarrow> bool" where
  "is_mount_health_path p = (trim_suffix ''/'' p = ''/healthz'')"

definition is_native_relay_path :: "bytes \<Rightarrow> bool" where
  "is_native_relay_path p = list_ex (\<lambda>s. equal_fold s ''relay'') (split_on (CHR ''/'') (trim_by (\<lambda>c. c = CHR ''/'') p))"

definition too_many :: go_error where
  "too_many = domain_e (new_error RateLimited ''too many management requests'')"

text \<open>A matched route: the rate limit, who asks, whether they may, and the handler.\<close>

definition serve_route :: "rest_env \<Rightarrow> rest_config \<Rightarrow> http_request \<Rightarrow> bytes \<Rightarrow> route \<Rightarrow> path_params \<Rightarrow> rest_server \<Rightarrow> handled" where
  "serve_route e cfg rq inst r ks sv = (let c = rt_cap r in
     if \<not> is_health_cap c \<and> \<not> re_rate e (hq_remote rq) then fail_with inst too_many sv
     else case rest_authenticate e rq (is_health_cap c) sv of
         (Inl er, sv1) \<Rightarrow> fail_with inst (domain_e er) sv1
       | (Inr (ac, cred), sv1) \<Rightarrow> (case rest_authorize e rq ac c sv1 of
           (Some er, sv2) \<Rightarrow> fail_with inst (domain_e er) sv2
         | (None, sv2) \<Rightarrow> rest_dispatch e cfg rq inst ac (cap_id c) (param ks) sv2))"

text \<open>The embedded UI answers what no route matches, but never a path of the management interfaces.\<close>

definition reserved_management_path :: "bytes \<Rightarrow> bool" where
  "reserved_management_path p0 = (let p = path_clean (CHR ''/'' # p0) in
     p = ''/v1'' \<or> has_prefix ''/v1/'' p \<or> p = ''/mcp'' \<or> has_prefix ''/mcp/'' p \<or> p = ''/email'' \<or> has_prefix ''/email/'' p \<or>
     p = ''/healthz'' \<or> has_prefix ''/healthz/'' p \<or> p = ''/config'' \<or> has_prefix ''/config/'' p \<or>
     p = ''/.well-known'' \<or> has_prefix ''/.well-known/'' p)"

definition try_ui :: "rest_env \<Rightarrow> http_request \<Rightarrow> bytes \<Rightarrow> rest_server \<Rightarrow> http_response option" where
  "try_ui e rq inst sv = (case re_ui e of
       None \<Rightarrow> None
     | Some ui \<Rightarrow>
         if reserved_management_path (hq_path rq) \<or> \<not> re_ui_enabled e then None
         else if \<not> re_rate e (hq_remote rq) then Some (fst (fail_with inst too_many sv))
         else Some (ui rq))"

definition serve_native :: "rest_env \<Rightarrow> rest_config \<Rightarrow> http_request \<Rightarrow> bytes \<Rightarrow> rest_server \<Rightarrow> handled" where
  "serve_native e cfg rq inst sv =
     (if is_native_relay_path (hq_path rq)
      then fail_with inst (domain_e (new_error ReceiveOnly ''LabMail is receive-only; relay is not implemented'')) sv
      else case match_route routes (hq_method rq) (hq_path rq) of
          Inl u \<Rightarrow> fail_with inst (internal ''internal error'') sv
        | Inr (None, ks, ok) \<Rightarrow> (case try_ui e rq inst sv of
              Some resp \<Rightarrow> (resp, sv) | None \<Rightarrow> fail_with inst (domain_e (new_error NotFound ''not found'')) sv)
        | Inr (Some r, ks, ok) \<Rightarrow>
            if \<not> ok then (let (resp, s) = fail_with inst (domain_e (new_error MethodNotAllowed ''method not allowed'')) sv in
                (resp \<lparr> hr_headers := (''Allow'', allowed_methods routes (hq_path rq)) # hr_headers resp \<rparr>, s))
            else serve_route e cfg rq inst r ks sv)"

definition serve_admitted :: "rest_env \<Rightarrow> rest_config \<Rightarrow> http_request \<Rightarrow> bytes \<Rightarrow> rest_server \<Rightarrow> handled" where
  "serve_admitted e cfg rq inst sv = (case re_mount e rq of
       Some h \<Rightarrow>
         if \<not> is_mount_health_path (hq_path rq) \<and> \<not> re_rate e (hq_remote rq) then fail_with inst too_many sv
         else h sv
     | None \<Rightarrow> serve_native e cfg rq inst sv)"

definition request_id :: "rest_env \<Rightarrow> http_request \<Rightarrow> bytes" where
  "request_id e rq = (let i = hq_header rq ''X-Request-ID'' in if i \<noteq> [] then i else re_request_id e)"

text \<open>A mounted handler has set the header to an id of its own.\<close>

definition add_request_id :: "bytes \<Rightarrow> http_response \<Rightarrow> http_response" where
  "add_request_id rid resp = (if lookup (hr_headers resp) ''X-Request-ID'' \<noteq> None then resp
     else resp \<lparr> hr_headers := (''X-Request-ID'', rid) # hr_headers resp \<rparr>)"

definition serve_http :: "rest_env \<Rightarrow> rest_config \<Rightarrow> http_request \<Rightarrow> rest_server \<Rightarrow> handled" where
  "serve_http e cfg rq sv = (let rid = request_id e rq; inst = ''urn:labmail:request:'' @ rid;
       (resp, sv1) = (case check_origin (ev_url (re_app e)) (hq_header rq ''Origin'') (rc_origins cfg (sv_app sv)) of
           Some er \<Rightarrow> fail_with inst (domain_e er) sv
         | None \<Rightarrow>
             if hq_method rq = ''OPTIONS'' then fail_with inst (domain_e (forbidden ''CORS is disabled'')) sv
             else if int (sv_inflight sv) \<ge> rc_max_concurrent cfg
             then fail_with inst (domain_e (new_error RateLimited ''too many concurrent management requests'')) sv
             else let (r, s) = serve_admitted e cfg rq inst (sv \<lparr> sv_inflight := sv_inflight sv + 1 \<rparr>)
               in (r, s \<lparr> sv_inflight := sv_inflight s - 1 \<rparr>))
     in (add_request_id rid resp, sv1))"

end
