(* ===== verification/Rest_Props.thy ===== *)
theory Rest_Props
  imports Rest_Handlers App_Service
begin

text \<open>
  What the management API promises: a request changes the service only with a credential that carries
  the scope, a stream ends with the credential that opened it, and a UI session is its creator.
\<close>

declare split_paired_All [simp del] split_paired_Ex [simp del]

section \<open>Who may change the service\<close>

text \<open>
  What gives a request its principal: the Authorization header alone when there is one; else a live
  session, whose CSRF token an unsafe method must repeat; else the unauthenticated loopback mode.
\<close>

definition grants :: "(bytes \<Rightarrow> bytes) \<Rightarrow> verifier \<Rightarrow> session_table \<Rightarrow> int \<Rightarrow> http_request \<Rightarrow> principal \<Rightarrow> bool" where
  "grants dg v t now rq p = (let h = trim_space (hq_header rq ''Authorization''); x = hq_header rq ''X-LabMail-CSRF'' in
     if h \<noteq> [] then authenticate dg (Some v) \<lparr> rq_authorization = h, rq_remote = hq_remote rq, rq_allow_basic = basic_enabled v \<rparr> = Inr p
     else (\<exists>c u csrf. hq_cookie rq = Some c \<and> c \<noteq> [] \<and> fst (lookup_session c now t) = Some (u, csrf) \<and> p = principal_from_session u \<and>
           (unsafe_method (hq_method rq) \<longrightarrow> x \<noteq> [] \<and> dg csrf = dg x)) \<or>
       (vf_mode v = ''dev-loopback-unauth'' \<and> is_loopback (hq_remote rq) \<and> p = loopback_principal))"

lemma fail_with_app [simp]: "snd (fail_with inst er sv) = sv"
  by (simp add: fail_with_def)

lemma answer_app [simp]: "snd (answer inst r ok sv) = sv"
  by (simp add: answer_def split: sum.splits)

lemma rest_authenticate_app: "rest_authenticate e rq skip sv = (res, sv1) \<Longrightarrow> sv_app sv1 = sv_app sv \<and> sv_auth sv1 = sv_auth sv"
  by (auto simp: rest_authenticate_def Let_def split: if_splits option.splits sum.splits prod.splits)

lemma rest_authorize_app: "rest_authorize e rq ac c sv = (res, sv1) \<Longrightarrow> sv_app sv1 = sv_app sv"
  by (auto simp: rest_authorize_def Let_def split: if_splits option.splits prod.splits)

lemma authorize_scopes_None: "authorize_scopes scopes ws = None \<longleftrightarrow> list_all (has_scope scopes) ws"
  by (induction scopes ws rule: authorize_scopes.induct) auto

lemma same_inbox: "ap_inbox a = Some m \<Longrightarrow> a \<lparr> ap_inbox := Some m \<rparr> = a"
  by (cases a) simp

lemma get_message_pure:
  assumes "ev_other e = (\<lambda>m. m)"
  shows "snd (get_message e mid False a) = a"
proof -
  have "snd (memory_get (ev_io e) mid False m d m) = m" for m d
    by (simp add: memory_get_def Let_def split: option.splits sum.splits)
  then show ?thesis using assms
    by (auto simp: get_message_def require_inbox_def Let_def same_inbox split: option.splits prod.splits sum.splits) (metis same_inbox snd_conv)+
qed

lemma with_message_pure:
  assumes "ev_other (re_app e) = (\<lambda>m. m)"
  shows "snd (with_message e inst mid False ok sv) = sv"
  using get_message_pure[OF assms, of mid "sv_app sv"] by (auto simp: with_message_def split: prod.splits)

definition mutating :: "bytes list" where
  "mutating = [''changes.plan'', ''changes.apply'', ''state.reset'', ''messages.delete'', ''messages.clear'', ''messages.read_all'',
     ''messages.read'']"

text \<open>Every other capability's handler leaves the service as it is, but a get that marks its message read.\<close>

lemmas reading_defs = handle_health_live_def handle_health_ready_def handle_status_def handle_schema_def handle_get_state_def
  handle_validate_def handle_export_def handle_session_create_def handle_session_get_def handle_session_delete_def
  handle_list_messages_def handle_wait_def handle_audit_list_def handle_audit_get_def handle_metrics_def handle_events_def

lemma reading_handlers:
  "sv_app (snd (handle_health_live cfg sv)) = sv_app sv" "sv_app (snd (handle_health_ready e cfg sv)) = sv_app sv"
  "sv_app (snd (handle_status e cfg inst sv)) = sv_app sv" "sv_app (snd (handle_schema e inst sv)) = sv_app sv"
  "sv_app (snd (handle_get_state e inst sv)) = sv_app sv" "sv_app (snd (handle_validate e cfg rq inst sv)) = sv_app sv"
  "sv_app (snd (handle_export e rq inst sv)) = sv_app sv" "sv_app (snd (handle_session_create e cfg rq inst ac sv)) = sv_app sv"
  "sv_app (snd (handle_session_get e rq ac sv)) = sv_app sv" "sv_app (snd (handle_session_delete cfg rq sv)) = sv_app sv"
  "sv_app (snd (handle_list_messages e rq inst sv)) = sv_app sv" "sv_app (snd (handle_wait e cfg rq inst sv)) = sv_app sv"
  "sv_app (snd (handle_audit_list e rq inst sv)) = sv_app sv" "sv_app (snd (handle_audit_get e inst aid sv)) = sv_app sv"
  "sv_app (snd (handle_metrics cfg inst sv)) = sv_app sv" "sv_app (snd (handle_events e inst sv)) = sv_app sv"
  unfolding reading_defs by (simp_all add: Let_def split: sum.splits option.splits prod.splits)

lemma message_handlers:
  assumes "ev_other (re_app e) = (\<lambda>m. m)"
  shows "sv_app (snd (handle_raw e inst mid sv)) = sv_app sv" "sv_app (snd (handle_html e inst mid sv)) = sv_app sv"
    "sv_app (snd (handle_preview e inst mid sv)) = sv_app sv" "sv_app (snd (handle_extract e inst mid sv)) = sv_app sv"
    "sv_app (snd (handle_attachment e inst mid aid sv)) = sv_app sv"
    "mark_read_from_query rq \<noteq> Inr True \<Longrightarrow> sv_app (snd (handle_get_message e rq inst mid sv)) = sv_app sv"
proof -
  show "sv_app (snd (handle_raw e inst mid sv)) = sv_app sv" "sv_app (snd (handle_html e inst mid sv)) = sv_app sv"
    "sv_app (snd (handle_preview e inst mid sv)) = sv_app sv"
    by (simp_all add: handle_raw_def handle_html_def handle_preview_def with_message_pure[OF assms])
  show "mark_read_from_query rq \<noteq> Inr True \<Longrightarrow> sv_app (snd (handle_get_message e rq inst mid sv)) = sv_app sv"
    by (auto simp: handle_get_message_def with_message_pure[OF assms] split: sum.splits)
  show "sv_app (snd (handle_extract e inst mid sv)) = sv_app sv" "sv_app (snd (handle_attachment e inst mid aid sv)) = sv_app sv"
    using get_message_pure[OF assms, of mid "sv_app sv"]
    by (auto simp: handle_extract_def handle_attachment_def app_extract_def split: prod.splits sum.splits option.splits)
qed

lemma dispatch_reads:
  assumes "ev_other (re_app e) = (\<lambda>m. m)" "cap \<notin> set mutating" "cap = ''messages.get'' \<Longrightarrow> mark_read_from_query rq \<noteq> Inr True"
  shows "sv_app (snd (rest_dispatch e cfg rq inst ac cap par sv)) = sv_app sv"
  using assms(2,3) by (simp add: rest_dispatch_def reading_handlers message_handlers[OF assms(1)] mutating_def)

text \<open>A cookie that authenticates and passes the CSRF check names a live session with that token.\<close>

lemma valid_csrf_after_lookup:
  assumes "lookup_session c now t = (Some (u, csrf), t1)" "fst (valid_csrf dg c x now t1)"
  shows "x \<noteq> [] \<and> dg csrf = dg x"
proof -
  obtain r where "live_session c now t = (Some r, t)" "csrf = sr_csrf r" "c \<noteq> []"
    "t1 = t \<lparr> sx_sessions := AList.update c (r \<lparr> sr_public := (sr_public r) \<lparr> us_last_seen := now \<rparr>, sr_last_seen := now \<rparr>) (sx_sessions t) \<rparr>"
    using assms(1) by (auto simp: lookup_session_def live_session_def Let_def split: if_splits option.splits)
  then show ?thesis using assms(2) by (auto simp: valid_csrf_def live_session_def split: if_splits)
qed

lemma admitted_grants:
  assumes v: "sv_auth sv = Some v"
    and auth: "rest_authenticate e rq False sv = (Inr (ac, cred), sv1)"
    and ok: "rest_authorize e rq ac c sv1 = (None, sv2)"
  shows "\<exists>p. ac = actor_of p ''rest'' \<and> grants (re_digest e) v (sv_sessions sv) (ev_now (re_app e)) rq p \<and>
    list_all (has_scope (pr_scopes p)) (cap_scopes c)"
proof -
  have v1: "sv_auth sv1 \<noteq> None" using rest_authenticate_app[OF auth] v by simp
  have sc: "list_all (has_scope (ac_scopes ac)) (cap_scopes c)"
    using ok v1 by (auto simp: rest_authorize_def authorize_scopes_None[symmetric] split: option.splits if_splits)
  have act: "ac_scopes (actor_of p t) = pr_scopes p" for p t by (simp add: actor_of_def)
  let ?h = "trim_space (hq_header rq ''Authorization'')"
  let ?now = "ev_now (re_app e)"
  have loop: "vf_mode v = ''dev-loopback-unauth'' \<and> is_loopback (hq_remote rq) \<and> p = loopback_principal"
    if "authenticate (re_digest e) (Some v) \<lparr> rq_authorization = [], rq_remote = hq_remote rq, rq_allow_basic = False \<rparr> = Inr p" for p
    using that by (auto simp: authenticate_def trim_space_def trim_by_def trim_right_by_def trim_left_by_def split: if_splits)
  show ?thesis
  proof (cases "?h = []")
    case False
    then obtain p where "authenticate (re_digest e) (Some v)
        \<lparr> rq_authorization = ?h, rq_remote = hq_remote rq, rq_allow_basic = basic_enabled v \<rparr> = Inr p" "ac = actor_of p ''rest''"
      using auth v by (auto simp: rest_authenticate_def Let_def split: sum.splits prod.splits)
    then show ?thesis using False sc act by (intro exI[of _ p]) (simp add: grants_def)
  next
    case True
    show ?thesis
    proof (cases "\<exists>k u x t1. hq_cookie rq = Some k \<and> k \<noteq> [] \<and> lookup_session k ?now (sv_sessions sv) = (Some (u, x), t1)")
      case live: True
      then obtain k u x t1 where k: "hq_cookie rq = Some k" "k \<noteq> []" "lookup_session k ?now (sv_sessions sv) = (Some (u, x), t1)"
        by blast
      then have a: "ac = actor_of (principal_from_session u) ''rest''" "sv1 = sv \<lparr> sv_sessions := t1 \<rparr>"
        using auth v True by (auto simp: rest_authenticate_def Let_def)
      have "unsafe_method (hq_method rq) \<Longrightarrow> fst (valid_csrf (re_digest e) k (hq_header rq ''X-LabMail-CSRF'') ?now t1)"
        using ok v1 True k a by (auto simp: rest_authorize_def Let_def split: option.splits if_splits prod.splits)
      then show ?thesis using valid_csrf_after_lookup[OF k(3)] k a sc act True
        by (intro exI[of _ "principal_from_session u"]) (auto simp: grants_def)
    next
      case dead: False
      then obtain p where "authenticate (re_digest e) (Some v)
          \<lparr> rq_authorization = [], rq_remote = hq_remote rq, rq_allow_basic = False \<rparr> = Inr p" "ac = actor_of p ''rest''"
        using auth v True by (auto simp: rest_authenticate_def Let_def split: sum.splits option.splits if_splits prod.splits)
      then show ?thesis using loop sc act True by (intro exI[of _ p]) (simp add: grants_def)
    qed
  qed
qed

text \<open>A capability whose handler changes the service asks for \<^verbatim>\<open>mail.write\<close> or \<^verbatim>\<open>mail.admin\<close>.\<close>

lemma catalog_mutating:
  "list_all (\<lambda>c. (cap_id c \<in> set mutating \<longrightarrow> cap_scopes c \<in> {[''mail.write''], [''mail.admin'']}) \<and>
    (cap_id c = ''messages.get'' \<longrightarrow> cap_scopes c = [''mail.read''])) catalog"
  by code_simp

lemma route_cap: "r \<in> set routes \<Longrightarrow> rt_cap r \<in> set catalog"
  by (auto simp: routes_catalog compile_routes_def)

lemma admin_writes: "has_scope s ''mail.admin'' \<Longrightarrow> has_scope s ''mail.write''"
  by (auto simp: has_scope_def list_ex_iff)

lemma mutating_scope:
  assumes "c \<in> set catalog" "cap_id c \<in> set mutating" "list_all (has_scope s) (cap_scopes c)"
  shows "has_scope s ''mail.write''"
  using assms catalog_mutating admin_writes by (auto simp: list_all_iff)

lemma serve_route_change:
  assumes v: "sv_auth sv = Some v" and quiet: "ev_other (re_app e) = (\<lambda>m. m)" and r: "r \<in> set routes"
    and changed: "sv_app (snd (serve_route e cfg rq inst r ks sv)) \<noteq> sv_app sv"
  shows "\<exists>p. grants (re_digest e) v (sv_sessions sv) (ev_now (re_app e)) rq p \<and> list_all (has_scope (pr_scopes p)) (cap_scopes (rt_cap r)) \<and>
    (has_scope (pr_scopes p) ''mail.write'' \<or> cap_id (rt_cap r) = ''messages.get'' \<and> mark_read_from_query rq = Inr True)"
proof -
  let ?c = "rt_cap r"
  obtain ac cred sv1 where a: "rest_authenticate e rq (is_health_cap ?c) sv = (Inr (ac, cred), sv1)"
    and z: "\<exists>sv2. rest_authorize e rq ac ?c sv1 = (None, sv2) \<and>
      sv_app (snd (rest_dispatch e cfg rq inst ac (cap_id ?c) (param ks) sv2)) \<noteq> sv_app sv"
    using changed rest_authenticate_app rest_authorize_app
    by (fastforce simp: serve_route_def Let_def split: if_splits sum.splits prod.splits option.splits)
  then obtain sv2 where z: "rest_authorize e rq ac ?c sv1 = (None, sv2)"
      "sv_app (snd (rest_dispatch e cfg rq inst ac (cap_id ?c) (param ks) sv2)) \<noteq> sv_app sv2"
    using rest_authenticate_app[OF a] rest_authorize_app by fastforce
  have m: "cap_id ?c \<in> set mutating \<or> cap_id ?c = ''messages.get'' \<and> mark_read_from_query rq = Inr True"
    using dispatch_reads[OF quiet, of "cap_id ?c" rq cfg inst ac "param ks" sv2] z(2) by blast
  then have "\<not> is_health_cap ?c" by (auto simp: is_health_cap_def mutating_def)
  then obtain p where "grants (re_digest e) v (sv_sessions sv) (ev_now (re_app e)) rq p" "list_all (has_scope (pr_scopes p)) (cap_scopes ?c)"
    using admitted_grants[OF v _ z(1)] a by auto
  then show ?thesis using m mutating_scope[OF route_cap[OF r]] by blast
qed

lemma serve_native_change:
  assumes v: "sv_auth sv = Some v" and quiet: "ev_other (re_app e) = (\<lambda>m. m)"
    and changed: "sv_app (snd (serve_native e cfg rq inst sv)) \<noteq> sv_app sv"
  shows "\<exists>r ks p. match_route routes (hq_method rq) (hq_path rq) = Inr (Some r, ks, True) \<and> r \<in> set routes \<and> route_fits (hq_path rq) r \<and>
    rt_method r = to_upper (hq_method rq) \<and>
    grants (re_digest e) v (sv_sessions sv) (ev_now (re_app e)) rq p \<and> list_all (has_scope (pr_scopes p)) (cap_scopes (rt_cap r)) \<and>
    (has_scope (pr_scopes p) ''mail.write'' \<or> cap_id (rt_cap r) = ''messages.get'' \<and> mark_read_from_query rq = Inr True)"
proof -
  have ok: "\<forall>r \<in> set routes. segs_ok (rt_segs r)" using routes_ok by (simp add: list_all_iff)
  obtain out ks hit where m0: "match_route routes (hq_method rq) (hq_path rq) = Inr (out, ks, hit)"
      and ans: "route_answer routes (to_upper (hq_method rq)) (hq_path rq) None (out, ks, hit)"
    using match_route_from_sound[OF ok, of "to_upper (hq_method rq)" "hq_path rq" None] by (auto simp: match_route_def)
  have nr: "\<not> is_native_relay_path (hq_path rq)" using changed by (auto simp: serve_native_def)
  have "out \<noteq> None" using changed nr m0 by (auto simp: serve_native_def split: option.splits)
  then obtain r where r: "out = Some r" by auto
  have h: hit
  proof (rule ccontr)
    assume "\<not> hit"
    then show False using changed nr m0 r by (simp add: serve_native_def fail_with_def)
  qed
  have m: "match_route routes (hq_method rq) (hq_path rq) = Inr (Some r, ks, True)"
      "sv_app (snd (serve_route e cfg rq inst r ks sv)) \<noteq> sv_app sv"
    using changed nr m0 r h by (auto simp: serve_native_def)
  have "route_answer routes (to_upper (hq_method rq)) (hq_path rq) None (Some r, ks, True)" using ans r h by simp
  then have "r \<in> set routes" "route_fits (hq_path rq) r" "rt_method r = to_upper (hq_method rq)" by (auto simp: route_answer_def)
  then show ?thesis using serve_route_change[OF v quiet _ m(2)] m(1) by blast
qed

text \<open>C23.  Whatever a request does to the service through the management API - its configuration, its inbox,
  its replay cache or its audit log - it does with a credential.  If the service is not what it was, then
  the request matched a route of the table, its principal came from the Authorization header, from a
  live session whose CSRF token an unsafe method repeated, or from the loopback mode, the principal has
  every scope the capability asks for, and has \<^verbatim>\<open>mail.write\<close> or \<^verbatim>\<open>mail.admin\<close>; the one exception is a
  read of a message that asks to mark it read, for which \<^verbatim>\<open>mail.read\<close> is enough.\<close>

theorem rest_change_authorized:
  assumes "sv_auth sv = Some v" "re_mount e rq = None" "ev_other (re_app e) = (\<lambda>m. m)"
    and "sv_app (snd (serve_http e cfg rq sv)) \<noteq> sv_app sv"
  shows "\<exists>r p. r \<in> set routes \<and> route_fits (hq_path rq) r \<and> rt_method r = to_upper (hq_method rq) \<and>
    grants (re_digest e) v (sv_sessions sv) (ev_now (re_app e)) rq p \<and> list_all (has_scope (pr_scopes p)) (cap_scopes (rt_cap r)) \<and>
    (has_scope (pr_scopes p) ''mail.write'' \<or> cap_id (rt_cap r) = ''messages.get'' \<and> mark_read_from_query rq = Inr True)"
proof -
  let ?sv = "sv \<lparr> sv_inflight := sv_inflight sv + 1 \<rparr>"
  let ?inst = "''urn:labmail:request:'' @ request_id e rq"
  have "sv_app (snd (serve_admitted e cfg rq ?inst ?sv)) \<noteq> sv_app sv"
    using assms(4) by (auto simp: serve_http_def Let_def fail_with_def split: option.splits if_splits prod.splits)
  then have "sv_app (snd (serve_native e cfg rq ?inst ?sv)) \<noteq> sv_app ?sv" using assms(2) by (simp add: serve_admitted_def)
  from serve_native_change[OF _ assms(3) this] show ?thesis using assms(1) by auto
qed

section \<open>A server that answers\<close>

definition demo_verifier :: verifier where
  "demo_verifier = \<lparr> vf_mode = ''bearer'', vf_tokens = [\<lparr> vt_id = ''ci'', vt_role = ''operator'', vt_scopes = [''mail.write''],
     vt_digest = ''secret'' \<rparr>], vf_basic = None \<rparr>"

definition demo_rest :: rest_server where
  "demo_rest = \<lparr> sv_app = demo_app, sv_auth = Some demo_verifier, sv_sessions = new_session_table default_session_config,
     sv_key = ''k'', sv_inflight = 0, sv_closed = False \<rparr>"

definition demo_config :: rest_config where
  "demo_config = \<lparr> rc_max_body = 1048576, rc_max_concurrent = 256, rc_origins = (\<lambda>a. []), rc_cookie_secure = False,
     rc_live = None, rc_ready = None, rc_metrics = False \<rparr>"

definition demo_rest_env :: rest_env where
  "demo_rest_env = \<lparr> re_app = demo_env, re_digest = (\<lambda>s. s), re_hmac = demo_hmac, re_rate = (\<lambda>r. True), re_request_id = ''r1'',
     re_random = Some (''cookie'', ''csrf'', ''s1''), re_new_key = None, re_health = None, re_json = (\<lambda>b. Inl True),
     re_change = (\<lambda>j. Inl []), re_reset = (\<lambda>j. Inl []), re_delete = (\<lambda>j. Inl []), re_wait = (\<lambda>j. Inl []), re_time = (\<lambda>s. None),
     re_stamp = (\<lambda>t. []), re_yaml = (\<lambda>n. []), re_ulid = (\<lambda>s. None), re_patterns = \<lparr> px_url_plain = (\<lambda>s. []), px_url_attr = (\<lambda>s. []),
       px_otp_near = (\<lambda>s. []), px_otp_query = (\<lambda>s. []) \<rparr>, re_observe = (\<lambda>t. []), re_remain = None, re_cancelled = False,
     re_schema = None, re_flusher = True, re_mount = (\<lambda>rq. None), re_ui = None, re_ui_enabled = True \<rparr>"

definition demo_request :: "bytes \<Rightarrow> bytes \<Rightarrow> (bytes \<times> bytes) list \<Rightarrow> bytes option \<Rightarrow> http_request" where
  "demo_request m p hs ck = \<lparr> hq_method = m, hq_path = p, hq_query = (\<lambda>k. []), hq_header = param hs, hq_cookie = ck,
     hq_remote = ''10.0.0.9:4711'', hq_tls = False, hq_body = [], hq_body_fault = None \<rparr>"

lemma demo_match_clear: "\<exists>r ks. match_route routes ''DELETE'' ''/v1/messages'' = Inr (Some r, ks, True) \<and>
    cap_id (rt_cap r) = ''messages.clear'' \<and> cap_scopes (rt_cap r) = [''mail.write'']"
proof -
  have "case match_route (compile_routes catalog) ''DELETE'' ''/v1/messages'' of
      Inr (Some r, ks, True) \<Rightarrow> cap_id (rt_cap r) = ''messages.clear'' \<and> cap_scopes (rt_cap r) = [''mail.write''] | _ \<Rightarrow> False"
    by code_simp
  then show ?thesis unfolding routes_catalog by (auto split: sum.splits option.splits prod.splits bool.splits)
qed

lemma record_audit_changes: "snd (record_audit e ev a) \<noteq> a"
proof
  assume "snd (record_audit e ev a) = a"
  then have "rg_next (fo_ring (ap_audit (snd (record_audit e ev a)))) = rg_next (fo_ring (ap_audit a))" by simp
  then show False by (simp add: record_audit_def fanout_record_def ring_append_def Let_def split: prod.splits)
qed

lemma clear_changes:
  assumes "ap_inbox a = Some m" "ev_ctx e = None"
  shows "snd (clear_messages e ac None a) \<noteq> a"
proof
  assume "snd (clear_messages e ac None a) = a"
  then have "rg_next (fo_ring (ap_audit (snd (clear_messages e ac None a)))) = rg_next (fo_ring (ap_audit a))" by simp
  then show False using assms
    by (simp add: clear_messages_def require_inbox_def match_store_generation_def record_audit_def fanout_record_def ring_append_def
        Let_def split: prod.splits option.splits)
qed

definition demo_delete :: http_request where
  "demo_delete = demo_request ''DELETE'' ''/v1/messages'' [(''Authorization'', ''Bearer secret'')] None"

lemma demo_delete_sel [simp]:
  "hq_method demo_delete = ''DELETE''" "hq_path demo_delete = ''/v1/messages''" "hq_cookie demo_delete = None"
  "hq_header demo_delete = param [(''Authorization'', ''Bearer secret'')]" "hq_remote demo_delete = ''10.0.0.9:4711''"
  "hq_body demo_delete = []" "hq_body_fault demo_delete = None" "hq_query demo_delete = (\<lambda>k. [])"
  by (simp_all add: demo_delete_def demo_request_def)

lemma demo_rest_sel [simp]:
  "sv_app demo_rest = demo_app" "sv_auth demo_rest = Some demo_verifier" "sv_inflight demo_rest = 0"
  "re_app demo_rest_env = demo_env" "re_digest demo_rest_env = (\<lambda>s. s)" "re_mount demo_rest_env rq = None" "re_rate demo_rest_env r"
  "rc_max_concurrent demo_config = 256" "rc_max_body demo_config = 1048576" "rc_origins demo_config = (\<lambda>a. [])"
  by (simp_all add: demo_rest_def demo_rest_env_def demo_config_def)

definition demo_principal :: principal where
  "demo_principal = \<lparr> pr_id = ''ci'', pr_class = ''token'', pr_role = ''operator'', pr_scopes = [''mail.write''] \<rparr>"

lemma demo_auth:
  "authenticate (\<lambda>s. s) (Some demo_verifier) \<lparr> rq_authorization = ''Bearer secret'', rq_remote = ''10.0.0.9:4711'',
     rq_allow_basic = basic_enabled demo_verifier \<rparr> = Inr demo_principal"
  by code_simp

lemma demo_header: "trim_space (param [(''Authorization'', ''Bearer secret'')] ''Authorization'') = ''Bearer secret''"
  by code_simp

lemma demo_no_header: "k \<noteq> ''Authorization'' \<Longrightarrow> param [(''Authorization'', ''Bearer secret'')] k = []"
  by (simp add: param_def)

lemma demo_delete_changes: "sv_app (snd (serve_http demo_rest_env demo_config demo_delete demo_rest)) \<noteq> sv_app demo_rest"
proof -
  obtain r ks where r: "match_route routes ''DELETE'' ''/v1/messages'' = Inr (Some r, ks, True)"
    "cap_id (rt_cap r) = ''messages.clear''" "cap_scopes (rt_cap r) = [''mail.write'']" using demo_match_clear by blast
  define sv where "sv = demo_rest \<lparr> sv_inflight := sv_inflight demo_rest + 1 \<rparr>"
  have sv: "sv_app sv = demo_app" "sv_auth sv = Some demo_verifier" by (simp_all add: sv_def)
  obtain cred where a: "rest_authenticate demo_rest_env demo_delete False sv = (Inr (actor_of demo_principal ''rest'', cred), sv)"
    by (simp add: rest_authenticate_def sv demo_header demo_auth Let_def split: prod.splits)
  have z: "rest_authorize demo_rest_env demo_delete (actor_of demo_principal ''rest'') (rt_cap r) sv = (None, sv)"
    by (simp add: rest_authorize_def sv r actor_of_def demo_principal_def has_scope_def demo_header)
  have d: "delete_in demo_rest_env demo_config demo_delete = Inr None"
    by (simp add: delete_in_def read_body_def if_match_def demo_no_header trim_space_def trim_by_def trim_left_by_def trim_right_by_def
        equal_fold_def to_lower_def Let_def)
  have "ap_inbox demo_app = Some demo_inbox" by (simp add: demo_app_def new_app_def Let_def)
  then have c: "snd (clear_messages demo_env ac None demo_app) \<noteq> demo_app" for ac by (rule clear_changes) simp
  have "sv_app (snd (serve_route demo_rest_env demo_config demo_delete inst r ks sv)) \<noteq> demo_app" for inst
    using c[of "actor_of demo_principal ''rest''"]
    by (simp add: serve_route_def is_health_cap_def r a z rest_dispatch_def handle_clear_def d sv case_prod_beta)
  moreover have "\<not> is_native_relay_path ''/v1/messages''" by code_simp
  moreover have "check_origin (ev_url demo_env) [] [] = None"
    by (simp add: check_origin_def trim_space_def trim_by_def trim_left_by_def trim_right_by_def)
  ultimately show ?thesis
    by (simp add: serve_http_def serve_admitted_def serve_native_def r demo_no_header sv_def Let_def case_prod_beta)
qed

lemma rest_change_authorized_witness:
  "sv_app (snd (serve_http demo_rest_env demo_config demo_delete demo_rest)) \<noteq> sv_app demo_rest \<and>
    (\<exists>r (p :: principal). r \<in> set routes \<and> route_fits ''/v1/messages'' r \<and> list_all (has_scope (pr_scopes p)) (cap_scopes (rt_cap r)) \<and>
      has_scope (pr_scopes p) ''mail.write'')"
proof -
  have "mark_read_from_query demo_delete = Inr False" by (simp add: mark_read_from_query_def)
  moreover have q: "ev_other (re_app demo_rest_env) = (\<lambda>m. m)" by simp
  ultimately obtain r and p :: principal where "r \<in> set routes" "route_fits (hq_path demo_delete) r" "list_all (has_scope (pr_scopes p)) (cap_scopes (rt_cap r))"
      "has_scope (pr_scopes p) ''mail.write''"
    using rest_change_authorized[OF demo_rest_sel(2) demo_rest_sel(6) q demo_delete_changes] by auto
  then show ?thesis using demo_delete_changes demo_delete_sel(2) by metis
qed

section \<open>UI sessions\<close>

text \<open>C26.  A UI session is its creator.  Whoever may create one gets a cookie and a CSRF token; a later request
  with that cookie alone, before the idle and the absolute limit, is the same id with the same role and
  the same scopes.  What it may do then is decided: scopes that are missing refuse it; with the scopes, a
  safe method passes, and an unsafe one passes exactly when it presents the token that was given out
  with the cookie (tokens are compared by digest), and is refused as forbidden without one or with another.\<close>

theorem session_roundtrip:
  assumes "sv_auth sv = Some v" "re_random e = Some (c, x, i)" "c \<noteq> []"
    and "hq_cookie rq2 = Some c" "trim_space (hq_header rq2 ''Authorization'') = []"
    and "0 \<le> dt" "dt \<le> sc_idle (sx_cfg (sv_sessions sv))" "dt \<le> sc_absolute (sx_cfg (sv_sessions sv))"
    and "ev_now (re_app e2) = ev_now (re_app e) + dt"
    and "handle_session_create e cfg rq inst ac sv = (resp, sv1)" "rest_authenticate e2 rq2 False sv1 = (res, sv2)"
  shows "map_option ck_value (hr_cookie resp) = Some c \<and>
    res = Inr (ac \<lparr> ac_class := ''token'', ac_transport := ''rest'' \<rparr>, Some (CredCookie c)) \<and>
    fst (rest_authorize e2 rq2 ac cap sv2) = (case authorize_scopes (ac_scopes ac) (cap_scopes cap) of
        Some er \<Rightarrow> Some er
      | None \<Rightarrow> if hq_method rq2 \<in> {''POST'', ''PUT'', ''PATCH'', ''DELETE''} \<and>
            (hq_header rq2 ''X-LabMail-CSRF'' = [] \<or> re_digest e2 (hq_header rq2 ''X-LabMail-CSRF'') \<noteq> re_digest e2 x)
          then Some (forbidden ''CSRF token is missing or invalid'') else None)"
proof -
  let ?start = "ev_now (re_app e)" and ?later = "ev_now (re_app e2)" and ?cfg = "sx_cfg (sv_sessions sv)"
  define p where "p = \<lparr> pr_id = ac_id ac, pr_class = ac_class ac, pr_role = ac_role ac, pr_scopes = ac_scopes ac \<rparr>"
  obtain u t where u: "create_session c x i ?start p (sv_sessions sv) = (u, t)" by fastforce
  have cfg: "sx_cfg (make_room ?start (sv_sessions sv)) = ?cfg"
    by (simp add: make_room_def expire_sessions_def evict_oldest_session_def Let_def)
  define r where "r = \<lparr> sr_public = u, sr_csrf = x, sr_created = ?start, sr_last_seen = ?start \<rparr>"
  have t: "lookup (sx_sessions t) c = Some r" "sx_cfg t = ?cfg"
      "u = \<lparr> us_id = i, us_token_id = ac_id ac, us_role = ac_role ac, us_scopes = ac_scopes ac, us_created = ?start, us_last_seen = ?start \<rparr>"
    using u cfg by (auto simp: create_session_def Let_def p_def r_def)
  have sv1: "sv1 = sv \<lparr> sv_sessions := t \<rparr>" "map_option ck_value (hr_cookie resp) = Some c"
    using assms(2,10) u by (auto simp: handle_session_create_def p_def[symmetric] write_json_def set_cookie_def)
  define r2 where "r2 = r \<lparr> sr_public := u \<lparr> us_last_seen := ?later \<rparr>, sr_last_seen := ?later \<rparr>"
  define t2 where "t2 = t \<lparr> sx_sessions := AList.update c r2 (sx_sessions t) \<rparr>"
  have l: "lookup_session c ?later t = (Some (u \<lparr> us_last_seen := ?later \<rparr>, x), t2)"
    using assms(3,6-9) t by (simp add: lookup_session_def live_session_def expired_def r_def r2_def t2_def Let_def)
  have sv2: "res = Inr (actor_of (principal_from_session (u \<lparr> us_last_seen := ?later \<rparr>)) ''rest'', Some (CredCookie c))"
      "sv2 = sv \<lparr> sv_sessions := t2 \<rparr>"
    using assms(1,3-5,11) l by (auto simp: rest_authenticate_def sv1 Let_def)
  let ?h = "hq_header rq2 ''X-LabMail-CSRF''"
  have csrf: "valid_csrf (re_digest e2) c ?h ?later t2 = (?h \<noteq> [] \<and> re_digest e2 ?h = re_digest e2 x, t2)"
    using assms(3,6-9) t by (auto simp: valid_csrf_def live_session_def expired_def r_def r2_def t2_def)
  have k: "sv_auth sv2 \<noteq> None" "sv_sessions sv2 = t2" using assms(1) by (simp_all add: sv2)
  have "fst (rest_authorize e2 rq2 ac cap sv2) = (case authorize_scopes (ac_scopes ac) (cap_scopes cap) of
        Some er \<Rightarrow> Some er
      | None \<Rightarrow> if hq_method rq2 \<in> {''POST'', ''PUT'', ''PATCH'', ''DELETE''} \<and> (?h = [] \<or> re_digest e2 ?h \<noteq> re_digest e2 x)
          then Some (forbidden ''CSRF token is missing or invalid'') else None)"
    using k csrf assms(3-5) unfolding rest_authorize_def unsafe_method_def
    by (cases "authorize_scopes (ac_scopes ac) (cap_scopes cap)") simp_all
  then show ?thesis using sv1 sv2 t(3) by (simp add: actor_of_def principal_from_session_def)
qed

definition demo_owner :: actor where
  "demo_owner = actor_of demo_principal ''rest''"

lemma session_roundtrip_witness:
  "let (resp, sv1) = handle_session_create demo_rest_env demo_config demo_delete [] demo_owner demo_rest;
     rq2 = (\<lambda>h. demo_request ''POST'' ''/v1/messages:read-all'' h (Some ''cookie''));
     judge = (\<lambda>h. fst (rest_authorize demo_rest_env (rq2 h) demo_owner (hd catalog) (snd (rest_authenticate demo_rest_env (rq2 h) False sv1))))
   in map_option ck_value (hr_cookie resp) = Some ''cookie'' \<and>
     judge [(''X-LabMail-CSRF'', ''csrf'')] = None \<and> judge [] = Some (forbidden ''CSRF token is missing or invalid'') \<and>
     judge [(''X-LabMail-CSRF'', ''other'')] = Some (forbidden ''CSRF token is missing or invalid'')"
proof -
  let ?rq2 = "\<lambda>h. demo_request ''POST'' ''/v1/messages:read-all'' h (Some ''cookie'')"
  obtain resp sv1 where c: "handle_session_create demo_rest_env demo_config demo_delete [] demo_owner demo_rest = (resp, sv1)" by fastforce
  have r: "re_random demo_rest_env = Some (''cookie'', ''csrf'', ''s1'')" "hq_cookie (?rq2 h) = Some ''cookie''"
    "hq_method (?rq2 h) = ''POST''" "re_digest demo_rest_env = (\<lambda>s. s)" for h
    by (simp_all add: demo_rest_env_def demo_request_def)
  have s: "0 \<le> sc_idle (sx_cfg (sv_sessions demo_rest))" "0 \<le> sc_absolute (sx_cfg (sv_sessions demo_rest))"
    by (simp_all add: demo_rest_def new_session_table_def default_session_config_def Let_def)
  have z: "authorize_scopes (ac_scopes demo_owner) (cap_scopes (hd catalog)) = None"
    by (simp add: catalog_def no_capability_def)
  have h: "trim_space (hq_header (?rq2 [(''X-LabMail-CSRF'', x)]) ''Authorization'') = []"
    "hq_header (?rq2 [(''X-LabMail-CSRF'', x)]) ''X-LabMail-CSRF'' = x" for x
    by (simp_all add: demo_request_def param_def trim_space_def trim_by_def trim_left_by_def trim_right_by_def)
  have h0: "trim_space (hq_header (?rq2 []) ''Authorization'') = []" "hq_header (?rq2 []) ''X-LabMail-CSRF'' = []" by code_simp+
  note use = session_roundtrip[OF demo_rest_sel(2) r(1) _ r(2) _ order_refl s add_0_right[symmetric] c prod.collapse[symmetric], where cap = "hd catalog"]
  show ?thesis
    using use[OF _ h(1)[of "''csrf''"]] use[OF _ h0(1)] use[OF _ h(1)[of "''other''"]] c
    by (simp add: z h h0 r Let_def case_prod_beta)
qed

section \<open>The end of a stream\<close>

text \<open>The user and password of a Basic credential are the ones the verifier was compiled with.\<close>

definition basic_accepts :: "(bytes \<Rightarrow> bytes) \<Rightarrow> verifier \<Rightarrow> bytes \<Rightarrow> bool" where
  "basic_accepts dg v s \<longleftrightarrow> basic_enabled v \<and> (\<exists>b user pass. vf_basic v = Some b \<and> parse_basic (trim_space s) = Some (user, pass) \<and>
     dg user = dg (bc_username b) \<and> dg pass = bc_password b)"

definition revoked :: "(bytes \<Rightarrow> bytes) \<Rightarrow> stream_cred \<Rightarrow> int \<Rightarrow> rest_server \<Rightarrow> bool" where
  "revoked dg cred now sv = (case cred of
       CredBearer s \<Rightarrow> (case sv_auth sv of None \<Rightarrow> True | Some v \<Rightarrow> dg (trim_space s) \<notin> vt_digest ` set (vf_tokens v))
     | CredBasic s remote \<Rightarrow> (case sv_auth sv of None \<Rightarrow> True | Some v \<Rightarrow> \<not> basic_accepts dg v s)
     | CredCookie c \<Rightarrow> (case lookup (sx_sessions (sv_sessions sv)) c of
         None \<Rightarrow> True | Some r \<Rightarrow> expired (sx_cfg (sv_sessions sv)) r now)
     | CredLoopback remote \<Rightarrow> (case sv_auth sv of None \<Rightarrow> True | Some v \<Rightarrow> vf_mode v \<noteq> ''dev-loopback-unauth''))"

lemma trim_basic:
  "trim_space (''Basic '' @ s) = (if trim_right_by is_space s = [] then ''Basic'' else ''Basic '' @ trim_right_by is_space s)"
proof (cases "\<exists>x \<in> set s. \<not> is_space x")
  case True
  then have "trim_right_by is_space s \<noteq> []" by (auto simp: trim_right_by_def dropWhile_eq_Nil_conv)
  then show ?thesis using True
    by (simp add: trim_space_def trim_by_def trim_left_by_def trim_right_by_def dropWhile_append is_space_def byte_val_def)
next
  case False
  then have "trim_right_by is_space s = []" by (auto simp: trim_right_by_def dropWhile_eq_Nil_conv)
  then show ?thesis using False
    by (simp add: trim_space_def trim_by_def trim_left_by_def trim_right_by_def dropWhile_append is_space_def byte_val_def)
qed

lemma trim_right_space: "trim_space (trim_right_by is_space s) = trim_space s"
proof (cases "\<exists>x \<in> set s. \<not> is_space x")
  case True
  then obtain xs x ys where s: "s = xs @ x # ys" "\<not> is_space x" "\<forall>y \<in> set ys. is_space y"
    using split_list_last_prop[of s "\<lambda>x. \<not> is_space x"] by auto
  have ys: "dropWhile is_space (rev ys) = []" using s(3) by (simp add: dropWhile_eq_Nil_conv)
  have "trim_right_by is_space s = xs @ [x]" using s(2) ys unfolding s(1) by (simp add: trim_right_by_def dropWhile_append)
  moreover have "dropWhile is_space s = dropWhile is_space (xs @ [x]) @ ys"
    using s(2) unfolding s(1) by (simp add: dropWhile_append)
  moreover have "dropWhile is_space (xs @ [x]) \<noteq> []" "last (dropWhile is_space (xs @ [x])) = x"
    using s(2) by (auto simp: dropWhile_append dropWhile_eq_Nil_conv)
  moreover from this obtain zs where "dropWhile is_space (xs @ [x]) = zs @ [x]" by (metis append_butlast_last_id)
  ultimately show ?thesis using s(2) ys by (simp add: trim_space_def trim_by_def trim_left_by_def trim_right_by_def dropWhile_append)
next
  case False
  then have d: "dropWhile is_space s = []" "dropWhile is_space (rev s) = []" by (auto simp: dropWhile_eq_Nil_conv)
  show ?thesis unfolding trim_space_def trim_by_def trim_left_by_def trim_right_by_def d by simp
qed

lemma basic_accepted:
  assumes "authenticate dg (Some v) \<lparr> rq_authorization = ''Basic '' @ s, rq_remote = remote, rq_allow_basic = basic_enabled v \<rparr> = Inr p"
  shows "basic_accepts dg v s"
proof -
  have f: "\<not> equal_fold ''Basic'' ''Bearer''" by code_simp
  let ?r = "trim_right_by is_space s"
  have n: "\<not> SP \<in> set ''Basic''" "cut SP ''Basic'' = (''Basic'', [], False)" by simp_all
  show ?thesis
  proof (cases "?r = []")
    case True
    then have "trim_space (''Basic '' @ s) = ''Basic''" unfolding trim_basic by simp
    then show ?thesis using assms n unfolding authenticate_def Let_def auth_request.simps option.case by (simp del: append.simps)
  next
    case False
    then have t: "trim_space (''Basic '' @ s) = ''Basic '' @ ?r" unfolding trim_basic by simp
    have c: "cut SP (''Basic '' @ ?r) = (''Basic'', ?r, True)" by simp
    have "(if \<not> basic_enabled v \<or> vf_basic v = None \<or> vf_mode v \<noteq> ''bearer_and_basic'' then Inl unauthenticated
        else lookup_basic dg v (trim_space ?r)) = Inr p"
      using assms f unfolding authenticate_def Let_def auth_request.simps option.case t c prod.case by simp
    then show ?thesis
      by (auto simp: basic_accepts_def lookup_basic_def trim_right_space Let_def split: option.splits if_splits prod.splits)
  qed
qed

lemma revoked_dead:
  assumes "revoked dg cred now sv"
  shows "\<not> fst (stream_live dg (Some cred) now sv)"
proof (cases cred)
  case (CredBearer s)
  then show ?thesis using assms
    by (auto simp: revoked_def stream_live_def bearer_stream_live_def authenticate_bearer_def lookup_bearer_def scan_tokens_absent
        split: option.splits)
next
  case (CredBasic s remote)
  then show ?thesis using assms basic_accepted[of dg _ s remote]
    by (auto simp: revoked_def stream_live_def basic_stream_live_def split: option.splits sum.splits)
next
  case (CredCookie c)
  then show ?thesis using assms
    by (auto simp: revoked_def stream_live_def cookie_stream_live_def view_session_def live_session_def split: option.splits)
next
  case (CredLoopback remote)
  then show ?thesis using assms by (auto simp: revoked_def stream_live_def loopback_stream_live_def split: option.splits)
qed

lemma stream_loop_dead:
  assumes "\<not> fst (stream_live dg cred now sv)" "w \<noteq> WakeClosed"
  shows "stream_loop dg cred (pre @ (w, now, sv) # post) = stream_loop dg cred pre"
proof (induction pre)
  case Nil
  then show ?case using assms by (cases w) simp_all
next
  case (Cons x pre)
  obtain a b s where "x = (a, b, s)" by (cases x) auto
  then show ?case using Cons by (cases a) simp_all
qed

text \<open>C27.  A stream ends with its credential.  Once the hook of an applied change or a reset has loaded a
  verifier without it - the bearer token's digest is gone, Basic is off or its user or password is another,
  the loopback mode is over, or the identities changed under a session's cookie - nothing is written to the stream any more, neither
  events nor heartbeats, whatever wakes it first and whatever comes later.\<close>

theorem stream_ends_with_credential:
  assumes "sv_auth sv = Some v" "ns_active (ap_snaps (sv_app sv)) = Some s"
    and "from_spec (ev_files (re_app e)) (re_digest e) (mg_auth (sp_management (sd_spec (sn_canonical s)))) = Inr nxt"
    and "case cred of CredBearer t \<Rightarrow> dg (trim_space t) \<notin> vt_digest ` set (vf_tokens nxt) | CredBasic t remote \<Rightarrow> \<not> basic_accepts dg nxt t
      | CredCookie c \<Rightarrow> \<not> equivalent v nxt | CredLoopback remote \<Rightarrow> vf_mode nxt \<noteq> ''dev-loopback-unauth''"
    and "w \<noteq> WakeClosed"
  shows "stream_loop dg (Some cred) (pre @ (w, now, reload_auth e sv) # post) = stream_loop dg (Some cred) pre"
proof -
  have r: "reload_auth e sv = sv \<lparr> sv_auth := Some nxt,
      sv_sessions := (if \<not> equivalent v nxt then clear_sessions (sv_sessions sv) else sv_sessions sv) \<rparr>"
    using assms(1-3) by (simp add: reload_auth_def replace_verifier_def)
  have "revoked dg cred now (reload_auth e sv)"
    unfolding r using assms(4) by (cases cred) (auto simp: revoked_def clear_sessions_def)
  then show ?thesis using stream_loop_dead[OF revoked_dead assms(5)] by blast
qed

definition demo_wakes :: "(wake \<times> int \<times> rest_server) list" where
  "demo_wakes = [(WakeBeat, 1, demo_rest)]"

definition ops_files :: file_world where
  "ops_files = \<lparr> fw_exists = (\<lambda>p. True), fw_read = (\<lambda>p. Some ''0123456789abcdef0123456789abcdef''), fw_error = (\<lambda>p. []) \<rparr>"

definition reload_env :: rest_env where
  "reload_env = demo_rest_env \<lparr> re_app := demo_env \<lparr> ev_files := ops_files \<rparr> \<rparr>"

lemma stream_ends_with_credential_witness:
  "stream_loop (\<lambda>s. s) (Some (CredBearer ''secret''))
     (demo_wakes @ (WakeEvent ''message.created'' ''{}'', 2, reload_auth reload_env demo_rest) # demo_wakes) =
   stream_loop (\<lambda>s. s) (Some (CredBearer ''secret'')) demo_wakes"
proof -
  have "case from_spec ops_files (\<lambda>s. s) (mg_auth (sp_management (sd_spec demo_state))) of
      Inr nxt \<Rightarrow> ''secret'' \<notin> vt_digest ` set (vf_tokens nxt) | _ \<Rightarrow> False" by code_simp
  then obtain nxt where n: "from_spec ops_files (\<lambda>s. s) (mg_auth (sp_management (sd_spec demo_state))) = Inr nxt"
      "''secret'' \<notin> vt_digest ` set (vf_tokens nxt)" by (auto split: sum.splits)
  have "ns_active (ap_snaps (sv_app demo_rest)) = Some demo_snapshot"
    by (simp add: demo_app_def new_app_def install_bootstrap_def snap_swap_def set_bootstrap_def new_snap_store_def Let_def)
  moreover have "trim_space ''secret'' = ''secret''" by code_simp
  ultimately show ?thesis
    using n stream_ends_with_credential[OF demo_rest_sel(2), where s = demo_snapshot and e = reload_env and nxt = nxt and
      cred = "CredBearer ''secret''" and dg = "\<lambda>s. s" and w = "WakeEvent ''message.created'' ''{}''"]
    by (simp add: demo_snapshot_def reload_env_def)
qed

end
