(* ===== verification/Mime_Message.thy ===== *)
theory Mime_Message
  imports Mail_Model Text_Runes
begin

text \<open>
  \<^verbatim>\<open>internal/mimeparse\<close>: how the bytes of a message become a \<^verbatim>\<open>model.Message\<close>, and how a client's file name
  becomes one that is safe to offer for download.

  The package \<^verbatim>\<open>go-message\<close> splits the text into a header and parts and decodes them.  It is an argument:
  \<open>created\<close> holds what its constructor, its header methods and each \<^verbatim>\<open>NextPart\<close> gave, any of which may be
  an error or a panic.  The digest is an argument too.
\<close>

section \<open>What the reader answers\<close>

text \<open>A method that returns a value and an error gives both; the code looks at the value even then.\<close>

record mime_header =
  mh_fields :: "(bytes \<times> bytes) list"
  mh_subject :: "bytes \<times> bytes option"
  mh_addresses :: "bytes \<Rightarrow> (bytes \<times> bytes) option list \<times> bytes option"
  mh_message_id :: "bytes + bytes"
  mh_reply_ids :: "bytes + bytes list"
  mh_date :: "bytes + int"
  mh_get :: "bytes \<Rightarrow> bytes"

record part_header =
  ph_type :: "bytes \<times> bytes option"
  ph_disposition :: bytes
  ph_param_filename :: bytes
  ph_filename :: "bytes \<times> bytes option"
  ph_content_id :: bytes

datatype part_kind = InlinePart part_header | AttachmentPart part_header | OtherPart

datatype mime_read =
    ReadEOF
  | ReadError bytes
  | ReadPanic bytes
  | ReadNil
  | ReadPart part_kind "bytes + bytes"

datatype created = CreateError bytes | CreatePanic bytes | Created mime_header "mime_read list"

section \<open>File names\<close>

definition max_filename_runes :: nat where "max_filename_runes = 200"

definition odd_chars :: bytes where
  "odd_chars = [CHR ''/'', CHR '':'', CHR ''*'', CHR ''?'', CHR 0x22, CHR ''<'', CHR ''>'', CHR ''|'']"

definition dropped_rune :: "bytes \<Rightarrow> bool" where
  "dropped_rune r = (r = rune_error \<or> (length r = 1 \<and> (byte_val (hd r) < 32 \<or> byte_val (hd r) = 127)))"

definition written_rune :: "bytes \<Rightarrow> bytes" where
  "written_rune r = (if length r = 1 \<and> hd r \<in> set odd_chars then ''_'' else if wide_space r then '' '' else r)"

text \<open>The loop over the runes, with the number it may still write.\<close>

function clean_runes :: "nat \<Rightarrow> bytes \<Rightarrow> bytes" where
  "clean_runes n s =
     (if n = 0 \<or> s = [] then []
      else case rune_width s of
          None \<Rightarrow> clean_runes n (tl s)
        | Some k \<Rightarrow>
            if dropped_rune (take k s) then clean_runes n (drop k s)
            else written_rune (take k s) @ clean_runes (n - 1) (drop k s))"
  by pat_completeness auto
termination by (relation "measure (\<lambda>(n, s). length s)") (auto dest: rune_width_bounds)

declare clean_runes.simps [simp del]

definition sanitize_filename :: "bytes \<Rightarrow> bytes" where
  "sanitize_filename name =
     (let base = path_base (map (\<lambda>c. if c = CHR 0x5C then CHR ''/'' else c) (trim_space name));
          out = trim_space (clean_runes max_filename_runes base)
      in if out = [] \<or> out = ''.'' \<or> out = ''..'' then ''attachment'' else out)"

section \<open>Parsing\<close>

definition append_warning :: "bytes \<Rightarrow> message \<Rightarrow> message" where
  "append_warning w m = (let t = trim_space w in
     if t = [] then m
     else if msg_parse_warning m = [] then m \<lparr> msg_parse_warning := t \<rparr>
     else if contains t (msg_parse_warning m) then m
     else m \<lparr> msg_parse_warning := msg_parse_warning m @ ''; '' @ t \<rparr>)"

definition warn_option :: "bytes option \<Rightarrow> message \<Rightarrow> message" where
  "warn_option e m = (case e of None \<Rightarrow> m | Some w \<Rightarrow> append_warning w m)"

definition strip_angles :: "bytes \<Rightarrow> bytes" where
  "strip_angles s = trim_suffix ''>'' (trim_prefix ''<'' (trim_space s))"

definition address_list :: "mime_header \<Rightarrow> bytes \<Rightarrow> message \<Rightarrow> address list \<times> message" where
  "address_list h key m = (case mh_addresses h key of (as, e) \<Rightarrow>
     (map (\<lambda>(n, a). \<lparr> ad_name = n, ad_address = a \<rparr>) (List.map_filter id as),
      warn_option (map_option (\<lambda>w. key @ '': '' @ w) e) m))"

definition priority_of :: "mime_header \<Rightarrow> bytes" where
  "priority_of h = (let imp = to_lower (trim_space (mh_get h ''Importance'')); xp = trim_space (mh_get h ''X-Priority'') in
     if imp = ''high'' \<or> imp = ''highest'' then ''high''
     else if imp = ''low'' \<or> imp = ''lowest'' then ''low''
     else case xp of
         [] \<Rightarrow> ''normal''
       | c # cs \<Rightarrow> if c \<in> {CHR ''1'', CHR ''2''} then ''high'' else if c \<in> {CHR ''4'', CHR ''5''} then ''low'' else ''normal'')"

definition fill_addresses :: "mime_header \<Rightarrow> message \<Rightarrow> message" where
  "fill_addresses h m =
     (let (fs, m1) = address_list h ''From'' m;
          (ts, m2) = address_list h ''To'' (m1 \<lparr> msg_from := fs \<rparr>);
          (cs, m3) = address_list h ''Cc'' (m2 \<lparr> msg_to := ts \<rparr>);
          (bs, m4) = address_list h ''Bcc'' (m3 \<lparr> msg_cc := cs \<rparr>);
          (rs, m5) = address_list h ''Reply-To'' (m4 \<lparr> msg_bcc := bs \<rparr>)
      in m5 \<lparr> msg_reply_to := rs \<rparr>)"

definition fill_envelope_headers :: "mime_header \<Rightarrow> message \<Rightarrow> message" where
  "fill_envelope_headers h m =
     (let m1 = m \<lparr> msg_headers := msg_headers m @ map (\<lambda>(k, v). \<lparr> hd_name = k, hd_value = v \<rparr>) (mh_fields h) \<rparr>;
          m2 = (case mh_subject h of
                 (s, None) \<Rightarrow> m1 \<lparr> msg_subject := s \<rparr>
               | (s, Some w) \<Rightarrow> (let w1 = append_warning w m1 in if s \<noteq> [] then w1 \<lparr> msg_subject := s \<rparr> else w1));
          m3 = fill_addresses h m2;
          m4 = (case mh_message_id h of Inl w \<Rightarrow> append_warning w m3 | Inr i \<Rightarrow> m3 \<lparr> msg_message_id := i \<rparr>);
          m5 = (case mh_reply_ids h of
                 Inl w \<Rightarrow> append_warning w m4 | Inr [] \<Rightarrow> m4 | Inr (i # is) \<Rightarrow> m4 \<lparr> msg_in_reply_to := i \<rparr>);
          m6 = (case mh_date h of Inl w \<Rightarrow> append_warning w m5 | Inr d \<Rightarrow> m5 \<lparr> msg_date := d \<rparr>)
      in m6 \<lparr> msg_priority := priority_of h \<rparr>)"

definition add_attachment :: "(bytes \<Rightarrow> bytes) \<Rightarrow> bytes \<Rightarrow> bytes \<Rightarrow> bytes \<Rightarrow> bytes \<Rightarrow> bytes \<Rightarrow> message \<Rightarrow> message" where
  "add_attachment dg filename ctype cid disp body m = m \<lparr> msg_attachments := msg_attachments m @
     [\<lparr> at_id = [], at_filename = sanitize_filename filename,
        at_content_type = (if ctype = [] then ''application/octet-stream'' else ctype), at_content_id = cid,
        at_disposition = (if disp \<noteq> ''inline'' then ''attachment'' else disp), at_size = int (length body),
        at_checksum = hex_encode (dg body), at_data = body \<rparr>] \<rparr>"

definition consume_inline :: "(bytes \<Rightarrow> bytes) \<Rightarrow> part_header \<Rightarrow> bytes \<Rightarrow> message \<Rightarrow> message" where
  "consume_inline dg h body m0 =
     (let m = warn_option (snd (ph_type h)) m0;
          media = to_lower (if fst (ph_type h) = [] then ''text/plain'' else fst (ph_type h));
          disp = ph_disposition h; filename = ph_param_filename h; cid = strip_angles (ph_content_id h);
          shown = (if disp = [] then ''inline'' else disp);
          as_attach = (disp = ''attachment'' \<or> filename \<noteq> [] \<or> cid \<noteq> [])
      in if has_prefix ''text/plain'' media \<and> \<not> as_attach then m \<lparr> msg_text := body \<rparr>
         else if has_prefix ''text/html'' media then
           (let m1 = m \<lparr> msg_html := body \<rparr> in
            if \<not> as_attach then m1 else add_attachment dg filename media cid shown body m1)
         else if has_prefix ''text/plain'' media then
           (let m1 = (if msg_text m = [] then m \<lparr> msg_text := body \<rparr> else m) in
            if as_attach then add_attachment dg filename media cid shown body m1 else m1)
         else add_attachment dg filename media cid shown body m)"

definition consume_attachment_header :: "(bytes \<Rightarrow> bytes) \<Rightarrow> part_header \<Rightarrow> bytes \<Rightarrow> message \<Rightarrow> message" where
  "consume_attachment_header dg h body m =
     (let m1 = warn_option (snd (ph_type h)) m;
          ctype = (if fst (ph_type h) = [] then ''application/octet-stream'' else fst (ph_type h));
          m2 = warn_option (snd (ph_filename h)) m1;
          disp = (if ph_disposition h = [] then ''attachment'' else ph_disposition h)
      in add_attachment dg (fst (ph_filename h)) (to_lower ctype) (strip_angles (ph_content_id h)) disp body m2)"

definition consume_part :: "(bytes \<Rightarrow> bytes) \<Rightarrow> part_kind \<Rightarrow> bytes + bytes \<Rightarrow> message \<Rightarrow> message" where
  "consume_part dg k b m = (case b of
       Inl w \<Rightarrow> append_warning w m
     | Inr body \<Rightarrow> (case k of
           InlinePart h \<Rightarrow> consume_inline dg h body m
         | AttachmentPart h \<Rightarrow> consume_attachment_header dg h body m
         | OtherPart \<Rightarrow> add_attachment dg ''attachment'' ''application/octet-stream'' [] ''attachment'' body m))"

fun read_parts :: "(bytes \<Rightarrow> bytes) \<Rightarrow> mime_read list \<Rightarrow> message \<Rightarrow> message" where
  "read_parts dg [] m = m"
| "read_parts dg (r # rs) m = (case r of
       ReadEOF \<Rightarrow> m
     | ReadError w \<Rightarrow> append_warning w m
     | ReadPanic w \<Rightarrow> append_warning (''panic: '' @ w) m
     | ReadNil \<Rightarrow> read_parts dg rs m
     | ReadPart k b \<Rightarrow> read_parts dg rs (consume_part dg k b m))"

definition mime_parse :: "(bytes \<Rightarrow> bytes) \<Rightarrow> (bytes \<Rightarrow> created) \<Rightarrow> bytes \<Rightarrow> message" where
  "mime_parse dg create raw =
     (let m = empty_message \<lparr> msg_raw := raw, msg_size := int (length raw), msg_priority := ''normal'' \<rparr> in
      if trim_space raw = [] then m \<lparr> msg_parse_warning := ''empty message'' \<rparr>
      else case create raw of
          CreateError w \<Rightarrow> m \<lparr> msg_parse_warning := w \<rparr>
        | CreatePanic w \<Rightarrow> append_warning (''panic: '' @ w) m
        | Created h rs \<Rightarrow> read_parts dg rs (fill_envelope_headers h m))"

section \<open>Safe file names\<close>

text \<open>A rune the loop over a name leaves as it is.\<close>

definition kept_rune :: "bytes \<Rightarrow> bool" where
  "kept_rune r = (is_rune r \<and> \<not> dropped_rune r \<and> written_rune r = r)"

lemma kept_ascii: "32 \<le> byte_val c \<Longrightarrow> byte_val c < 127 \<Longrightarrow> c \<notin> set odd_chars \<Longrightarrow> kept_rune [c]"
  by (simp add: kept_rune_def is_rune_ascii dropped_rune_def rune_error_def written_rune_def wide_space_def)

lemma kept_plain: "kept_rune ''_''" "kept_rune '' ''"
  by (rule kept_ascii; simp add: byte_val_def odd_chars_def)+

lemma written_kept: "is_rune r \<Longrightarrow> \<not> dropped_rune r \<Longrightarrow> kept_rune (written_rune r)"
  using kept_plain by (auto simp: written_rune_def kept_rune_def)

lemma clean_runes_shape:
  "\<exists>rs. clean_runes n s = concat rs \<and> length rs \<le> n \<and> (\<forall>r \<in> set rs. kept_rune r)"
proof (induction n s rule: clean_runes.induct)
  case (1 n s)
  show ?case
  proof (cases "n = 0 \<or> s = []")
    case True
    then show ?thesis by (intro exI[of _ "[]"]) (auto simp: clean_runes.simps)
  next
    case False
    show ?thesis
    proof (cases "rune_width s")
      case None
      with False 1 show ?thesis by (subst clean_runes.simps) simp
    next
      case (Some k)
      show ?thesis
      proof (cases "dropped_rune (take k s)")
        case True
        with False Some 1 show ?thesis by (subst clean_runes.simps) simp
      next
        case keep: False
        then obtain rs where rs: "clean_runes (n - 1) (drop k s) = concat rs" "length rs \<le> n - 1" "\<forall>r \<in> set rs. kept_rune r"
          using False Some 1 by blast
        have "clean_runes n s = concat (written_rune (take k s) # rs)"
          using False Some keep rs(1) by (subst clean_runes.simps) simp
        moreover have "kept_rune (written_rune (take k s))" using is_rune_take[OF Some] keep by (rule written_kept)
        ultimately show ?thesis using rs(2,3) False by (intro exI[of _ "written_rune (take k s) # rs"]) auto
      qed
    qed
  qed
qed

lemma clean_runes_fixed: "\<forall>r \<in> set rs. kept_rune r \<Longrightarrow> length rs \<le> n \<Longrightarrow> clean_runes n (concat rs) = concat rs"
proof (induction rs arbitrary: n)
  case (Cons r rs)
  then have "is_rune r" "\<not> dropped_rune r" "written_rune r = r" by (auto simp: kept_rune_def)
  moreover have "clean_runes (n - 1) (concat rs) = concat rs" using Cons by simp
  ultimately show ?case using Cons.prems by (subst clean_runes.simps) (simp add: rune_width_append)
qed (simp add: clean_runes.simps)

lemma clean_runes_bytes: "set (clean_runes n s) \<subseteq> insert (CHR ''_'') (insert SP (set s))"
proof (induction n s rule: clean_runes.induct)
  case (1 n s)
  have sub: "set (tl s) \<subseteq> set s" "set (drop k s) \<subseteq> set s" for k
    by (cases s; auto) (auto dest: in_set_dropD)
  have w: "set (written_rune (take k s)) \<subseteq> insert (CHR ''_'') (insert SP (set s))" for k
    by (auto simp: written_rune_def dest: in_set_takeD)
  show ?case
  proof (cases "n = 0 \<or> s = []")
    case True
    then show ?thesis by (subst clean_runes.simps) auto
  next
    case False
    show ?thesis
    proof (cases "rune_width s")
      case None
      then have "clean_runes n s = clean_runes n (tl s)" using False by (subst clean_runes.simps) simp
      then show ?thesis using 1(1)[OF False None] sub(1) by auto
    next
      case (Some k)
      then have "clean_runes n s = (if dropped_rune (take k s) then clean_runes n (drop k s)
          else written_rune (take k s) @ clean_runes (n - 1) (drop k s))"
        using False by (subst clean_runes.simps) simp
      then show ?thesis using 1(2,3)[OF False Some] sub(2)[of k] w[of k] by (cases "dropped_rune (take k s)") auto
    qed
  qed
qed

text \<open>A rune of several bytes has none of the ASCII range.\<close>

lemma wide_rune_bytes:
  assumes "is_rune r" "length r \<noteq> 1"
  shows "\<forall>c \<in> set r. 128 \<le> byte_val c"
proof -
  have v: "utf8_valid r" "\<not> utf8_valid (take 1 r)" and l: "1 < length r" "length r \<le> 4"
    using assms by (auto simp: is_rune_def rune_width_def split: if_splits)
  obtain c cs where r: "r = c # cs" using l by (cases r) auto
  then obtain x xs where cs: "cs = x # xs" using l by (cases cs) auto
  have c: "\<not> between 0 0x7F c" using v(2) by (auto simp: r utf8_valid.simps)
  have short: "n \<in> {1, 2, 3} \<Longrightarrow> n < length r \<Longrightarrow> \<not> utf8_valid (take n r)" for n
    using assms l by (auto simp: is_rune_def rune_width_def split: if_splits)
  note valid = utf8_valid.simps
  show ?thesis
  proof (cases "between 0xC2 0xDF c")
    case True
    then have "utf8_valid [c, x]" using v(1) c by (simp add: r cs valid)
    then have "xs = []" using short[of 2] by (cases xs) (auto simp: r cs)
    then show ?thesis using v(1) c True by (auto simp: r cs valid between_def)
  next
    case two: False
    then obtain y ys where ys: "xs = y # ys" using v(1) c by (cases xs) (auto simp: r cs valid)
    show ?thesis
    proof (cases "between 0xE0 0xEF c")
      case True
      then have "utf8_valid [c, x, y]" using v(1) c two by (simp add: r cs ys valid)
      then have "ys = []" using short[of 3] by (cases ys) (auto simp: r cs ys)
      then show ?thesis using v(1) c two True by (auto simp: r cs ys valid between_def split: if_splits)
    next
      case False
      then obtain z zs where zs: "ys = z # zs" using v(1) c two by (cases ys) (auto simp: r cs ys valid)
      then have "zs = []" using l by (simp add: r cs ys)
      then show ?thesis using v(1) c two False by (auto simp: r cs ys zs valid between_def split: if_splits)
    qed
  qed
qed

lemma kept_bytes:
  assumes "kept_rune r" "c \<in> set r"
  shows "c \<notin> set odd_chars \<and> 32 \<le> byte_val c \<and> byte_val c \<noteq> 127"
proof (cases "length r = 1")
  case True
  then have r: "r = [c]" using assms(2) by (cases r) auto
  have "c \<notin> set odd_chars"
  proof
    assume "c \<in> set odd_chars"
    then have "[c] = ''_''" using assms(1) by (simp add: r kept_rune_def written_rune_def)
    then show False using \<open>c \<in> set odd_chars\<close> by (simp add: odd_chars_def)
  qed
  then show ?thesis using assms(1) by (auto simp: r kept_rune_def dropped_rune_def)
next
  case False
  then have "128 \<le> byte_val c" using wide_rune_bytes assms by (auto simp: kept_rune_def)
  moreover have "\<forall>x \<in> set odd_chars. byte_val x < 128" by (simp add: odd_chars_def byte_val_def)
  ultimately show ?thesis by fastforce
qed

lemma kept_ends: "kept_rune r \<Longrightarrow> r = '' '' \<or> (\<not> is_space (hd r) \<and> \<not> is_space (last r))"
proof -
  assume k: "kept_rune r"
  then have ne: "r \<noteq> []" by (auto simp: kept_rune_def)
  have "r = '' ''" if c: "c \<in> set r" "is_space c" for c
  proof -
    have v: "byte_val c = 32" using kept_bytes[OF k c(1)] c(2) by (auto simp: is_space_def Let_def)
    then have "length r = 1" using wide_rune_bytes c(1) k by (fastforce simp: kept_rune_def)
    then have "r = [c]" using c(1) by (auto simp: length_Suc_conv)
    moreover have "c = SP" using v byte_val_inj[of c SP] by (simp add: byte_val_def)
    ultimately show ?thesis by simp
  qed
  then show ?thesis using ne by (meson hd_in_set last_in_set)
qed

lemma is_space_SP [simp]: "is_space SP"
  by (simp add: is_space_def byte_val_def)

lemma trim_left_kept: "\<forall>r \<in> set rs. kept_rune r \<Longrightarrow>
    \<exists>ts. trim_left_by is_space (concat rs) = concat ts \<and> set ts \<subseteq> set rs \<and> length ts \<le> length rs"
proof (induction rs)
  case (Cons r rs)
  show ?case
  proof (cases "r = '' ''")
    case True
    then obtain ts where "trim_left_by is_space (concat rs) = concat ts" "set ts \<subseteq> set rs" "length ts \<le> length rs"
      using Cons by auto
    then show ?thesis using True by (intro exI[of _ ts]) (auto simp: trim_left_by_def)
  next
    case False
    then have "\<not> is_space (hd r)" "r \<noteq> []" using Cons.prems kept_ends[of r] by (auto simp: kept_rune_def)
    then have "trim_left_by is_space (concat (r # rs)) = concat (r # rs)" by (intro trim_left_by_id) (cases r, auto)
    then show ?thesis by (intro exI[of _ "r # rs"]) simp
  qed
qed (simp add: trim_left_by_def)

lemma trim_right_kept: "\<forall>r \<in> set rs. kept_rune r \<Longrightarrow>
    \<exists>ts. trim_right_by is_space (concat rs) = concat ts \<and> set ts \<subseteq> set rs \<and> length ts \<le> length rs"
proof (induction rs rule: rev_induct)
  case (snoc r rs)
  show ?case
  proof (cases "r = '' ''")
    case True
    then obtain ts where "trim_right_by is_space (concat rs) = concat ts" "set ts \<subseteq> set rs" "length ts \<le> length rs"
      using snoc by auto
    then show ?thesis using True by (intro exI[of _ ts]) (auto simp: trim_right_by_def)
  next
    case False
    then have "\<not> is_space (last r)" "r \<noteq> []" using snoc.prems kept_ends[of r] by (auto simp: kept_rune_def)
    then have "trim_right_by is_space (concat (rs @ [r])) = concat (rs @ [r])" by (intro trim_right_by_id) simp
    then show ?thesis by (intro exI[of _ "rs @ [r]"]) simp
  qed
qed (simp add: trim_right_by_def)

lemma trim_kept: "\<forall>r \<in> set rs. kept_rune r \<Longrightarrow>
    \<exists>ts. trim_space (concat rs) = concat ts \<and> (\<forall>r \<in> set ts. kept_rune r) \<and> length ts \<le> length rs"
proof -
  assume k: "\<forall>r \<in> set rs. kept_rune r"
  obtain us where us: "trim_left_by is_space (concat rs) = concat us" "set us \<subseteq> set rs" "length us \<le> length rs"
    using trim_left_kept[OF k] by blast
  then obtain ts where "trim_right_by is_space (concat us) = concat ts" "set ts \<subseteq> set us" "length ts \<le> length us"
    using trim_right_kept[of us] k by blast
  then show ?thesis using us k by (intro exI[of _ ts]) (auto simp: trim_space_def trim_by_def)
qed

lemma path_base_bytes: "set (path_base p) \<subseteq> insert (CHR ''.'') (insert (CHR ''/'') (set p))"
proof -
  have "set w \<subseteq> set q" if "w \<in> set (split_on (CHR ''/'') q)" for w q
    using that by (induction q arbitrary: w) (fastforce split: list.splits if_splits)+
  then have "set (last (split_on (CHR ''/'') (trim_right_by (\<lambda>c. c = CHR ''/'') p))) \<subseteq> set p"
    using set_trim_right_by[of "\<lambda>c. c = CHR ''/''" p] by (metis last_in_set order_trans split_on_not_Nil)
  then show ?thesis by (auto simp: path_base_def Let_def)
qed

text \<open>What a sanitised name is made of; such a name is not changed again.\<close>

definition safe_name :: "bytes \<Rightarrow> bool" where
  "safe_name s = ((\<exists>rs. s = concat rs \<and> (\<forall>r \<in> set rs. kept_rune r) \<and> length rs \<le> max_filename_runes) \<and> trim_space s = s \<and>
     CHR 0x5C \<notin> set s \<and> s \<notin> {[], ''.'', ''..''})"

lemma safe_name_bytes:
  assumes "safe_name s"
  shows "set s \<inter> set odd_chars = {}" "c \<in> set s \<Longrightarrow> 32 \<le> byte_val c \<and> byte_val c \<noteq> 127" "length s \<le> 800"
proof -
  obtain rs where rs: "s = concat rs" "\<forall>r \<in> set rs. kept_rune r" "length rs \<le> 200"
    using assms by (auto simp: safe_name_def max_filename_runes_def)
  show "set s \<inter> set odd_chars = {}" "c \<in> set s \<Longrightarrow> 32 \<le> byte_val c \<and> byte_val c \<noteq> 127"
    using rs kept_bytes by fastforce+
  have "\<forall>r \<in> set rs. length r \<le> 4" using rs(2) is_rune_length by (auto simp: kept_rune_def)
  then have "length (concat rs) \<le> 4 * length rs" by (induction rs) auto
  then show "length s \<le> 800" using rs by simp
qed

lemma sanitize_safe: "safe_name s \<Longrightarrow> sanitize_filename s = s"
proof -
  assume s: "safe_name s"
  then have "CHR ''/'' \<notin> set s" "s \<noteq> []" using safe_name_bytes(1)[OF s] by (auto simp: odd_chars_def safe_name_def)
  moreover have "map (\<lambda>c. if c = CHR 0x5C then CHR ''/'' else c) s = s"
    using s by (intro map_idI) (auto simp: safe_name_def)
  moreover have "clean_runes max_filename_runes s = s" using s clean_runes_fixed by (auto simp: safe_name_def)
  ultimately show ?thesis using s by (simp add: sanitize_filename_def safe_name_def path_base_plain)
qed

lemma attachment_safe: "safe_name ''attachment''"
proof -
  have "\<forall>r \<in> set (map (\<lambda>c. [c]) ''attachment''). kept_rune r" by (simp; intro conjI kept_ascii; simp add: byte_val_def odd_chars_def)
  moreover have "''attachment'' = concat (map (\<lambda>c. [c]) ''attachment'')" by simp
  moreover have "length (map (\<lambda>c. [c]) ''attachment'') \<le> max_filename_runes" by (simp add: max_filename_runes_def)
  ultimately have "\<exists>rs. ''attachment'' = concat rs \<and> (\<forall>r \<in> set rs. kept_rune r) \<and> length rs \<le> max_filename_runes" by blast
  then show ?thesis by (simp add: safe_name_def trim_space_def trim_by_id is_space_def byte_val_def)
qed

lemma sanitize_is_safe: "safe_name (sanitize_filename name)"
proof -
  define base where "base = path_base (map (\<lambda>c. if c = CHR 0x5C then CHR ''/'' else c) (trim_space name))"
  obtain rs where rs: "clean_runes max_filename_runes base = concat rs" "length rs \<le> max_filename_runes" "\<forall>r \<in> set rs. kept_rune r"
    using clean_runes_shape by blast
  then obtain ts where ts: "trim_space (concat rs) = concat ts" "\<forall>r \<in> set ts. kept_rune r" "length ts \<le> length rs"
    using trim_kept[of rs] by blast
  have "CHR 0x5C \<notin> set base" using path_base_bytes unfolding base_def by fastforce
  then have "CHR 0x5C \<notin> set (concat rs)" using clean_runes_bytes[of max_filename_runes base] rs(1) by auto
  then have "CHR 0x5C \<notin> set (trim_space (concat rs))" using set_trim_by[of is_space "concat rs"] unfolding trim_space_def by blast
  moreover have "trim_space (trim_space (concat rs)) = trim_space (concat rs)" by (simp add: trim_space_def)
  ultimately have "safe_name (trim_space (concat rs))" if "trim_space (concat rs) \<notin> {[], ''.'', ''..''}"
    using that ts rs(2) unfolding safe_name_def by (metis order_trans)
  then show ?thesis using attachment_safe rs(1) by (auto simp: sanitize_filename_def base_def Let_def)
qed

text \<open>C34.  A client's file name becomes one that is safe to offer: never empty and never a directory, no path
  separator of either kind, no quote, no control character and none of the characters shells and file
  systems treat specially, at most 200 runes; and a sanitised name is left alone.\<close>

theorem filename_safe:
  "sanitize_filename name \<notin> {[], ''.'', ''..''} \<and> set (sanitize_filename name) \<inter> set (CHR 0x5C # odd_chars) = {} \<and>
   list_all (\<lambda>c. 32 \<le> byte_val c \<and> byte_val c \<noteq> 127) (sanitize_filename name) \<and> length (sanitize_filename name) \<le> 800 \<and>
   sanitize_filename (sanitize_filename name) = sanitize_filename name"
  using sanitize_is_safe[of name] safe_name_bytes[OF sanitize_is_safe[of name]] sanitize_safe[OF sanitize_is_safe[of name]]
  by (auto simp: safe_name_def list_all_iff)

section \<open>What a parse keeps\<close>

definition attachment_ok :: "(bytes \<Rightarrow> bytes) \<Rightarrow> attachment \<Rightarrow> bool" where
  "attachment_ok dg a = (safe_name (at_filename a) \<and> at_content_type a \<noteq> [] \<and>
     (at_disposition a = ''inline'' \<or> at_disposition a = ''attachment'') \<and> at_size a = int (length (at_data a)) \<and>
     at_checksum a = hex_encode (dg (at_data a)) \<and> at_id a = [])"

text \<open>What no step of a parse touches once the message is begun.\<close>

definition parsed_ok :: "(bytes \<Rightarrow> bytes) \<Rightarrow> bytes \<Rightarrow> message \<Rightarrow> bool" where
  "parsed_ok dg raw m = (msg_raw m = raw \<and> msg_size m = int (length raw) \<and> msg_id m = [] \<and> received_at m = 0 \<and>
     \<not> msg_read m \<and> msg_envelope m = empty_envelope \<and> list_all (attachment_ok dg) (msg_attachments m) \<and>
     msg_priority m \<in> {''high'', ''low'', ''normal''})"

text \<open>Whether the body of an inline part is shown as text or HTML only; the bodies that must end up in
  attachments, in order, up to where reading stops.\<close>

definition shown_only :: "part_header \<Rightarrow> bool" where
  "shown_only h = (let media = to_lower (if fst (ph_type h) = [] then ''text/plain'' else fst (ph_type h)) in
     (has_prefix ''text/plain'' media \<or> has_prefix ''text/html'' media) \<and> ph_disposition h \<noteq> ''attachment'' \<and>
     ph_param_filename h = [] \<and> strip_angles (ph_content_id h) = [])"

fun attached_bodies :: "mime_read list \<Rightarrow> bytes list" where
  "attached_bodies (ReadNil # rs) = attached_bodies rs"
| "attached_bodies (ReadPart k (Inl w) # rs) = attached_bodies rs"
| "attached_bodies (ReadPart (InlinePart h) (Inr b) # rs) =
     (if shown_only h then attached_bodies rs else b # attached_bodies rs)"
| "attached_bodies (ReadPart k (Inr b) # rs) = b # attached_bodies rs"
| "attached_bodies rs = []"

lemma append_warning_frame [frame]:
  "msg_attachments (append_warning w m) = msg_attachments m" "parsed_ok dg raw (append_warning w m) = parsed_ok dg raw m"
  "msg_attachments (warn_option e m) = msg_attachments m" "parsed_ok dg raw (warn_option e m) = parsed_ok dg raw m"
  by (auto simp: append_warning_def warn_option_def parsed_ok_def Let_def split: option.splits)

lemma address_list_frame [frame]:
  "msg_attachments (snd (address_list h k m)) = msg_attachments m" "parsed_ok dg raw (snd (address_list h k m)) = parsed_ok dg raw m"
  by (auto simp: address_list_def frame split: prod.splits)

lemma parsed_fields [frame]:
  "parsed_ok dg raw (m \<lparr> msg_from := x \<rparr>) = parsed_ok dg raw m" "parsed_ok dg raw (m \<lparr> msg_to := x \<rparr>) = parsed_ok dg raw m"
  "parsed_ok dg raw (m \<lparr> msg_cc := x \<rparr>) = parsed_ok dg raw m" "parsed_ok dg raw (m \<lparr> msg_bcc := x \<rparr>) = parsed_ok dg raw m"
  "parsed_ok dg raw (m \<lparr> msg_reply_to := x \<rparr>) = parsed_ok dg raw m" "parsed_ok dg raw (m \<lparr> msg_headers := y \<rparr>) = parsed_ok dg raw m"
  "parsed_ok dg raw (m \<lparr> msg_subject := z \<rparr>) = parsed_ok dg raw m" "parsed_ok dg raw (m \<lparr> msg_message_id := z \<rparr>) = parsed_ok dg raw m"
  "parsed_ok dg raw (m \<lparr> msg_in_reply_to := z \<rparr>) = parsed_ok dg raw m" "parsed_ok dg raw (m \<lparr> msg_date := t \<rparr>) = parsed_ok dg raw m"
  "parsed_ok dg raw (m \<lparr> msg_text := z \<rparr>) = parsed_ok dg raw m" "parsed_ok dg raw (m \<lparr> msg_html := z \<rparr>) = parsed_ok dg raw m"
  "parsed_ok dg raw (m \<lparr> msg_parse_warning := z \<rparr>) = parsed_ok dg raw m"
  by (simp_all add: parsed_ok_def)

lemma fill_headers_frame:
  "msg_attachments (fill_envelope_headers h m) = msg_attachments m"
  "parsed_ok dg raw m \<Longrightarrow> parsed_ok dg raw (fill_envelope_headers h m)"
proof -
  have p: "priority_of h \<in> {''high'', ''low'', ''normal''}"
    by (auto simp: priority_of_def Let_def split: list.splits)
  have a: "msg_attachments (fill_addresses h x) = msg_attachments x \<and> parsed_ok dg raw (fill_addresses h x) = parsed_ok dg raw x" for x
    by (simp add: fill_addresses_def case_prod_beta Let_def frame)
  then show "msg_attachments (fill_envelope_headers h m) = msg_attachments m"
    by (simp add: fill_envelope_headers_def Let_def frame split: sum.splits prod.splits list.splits option.splits)
  have q: "parsed_ok dg raw x \<Longrightarrow> parsed_ok dg raw (x \<lparr> msg_priority := priority_of h \<rparr>)" for x
    using p by (simp add: parsed_ok_def)
  show "parsed_ok dg raw m \<Longrightarrow> parsed_ok dg raw (fill_envelope_headers h m)" using a
    by (simp add: fill_envelope_headers_def Let_def q frame split: sum.splits prod.splits list.splits option.splits)
qed

lemma add_attachment_ok:
  "map at_data (msg_attachments (add_attachment dg f c i d b m)) = map at_data (msg_attachments m) @ [b]"
  "parsed_ok dg raw m \<Longrightarrow> parsed_ok dg raw (add_attachment dg f c i d b m)"
  using sanitize_is_safe by (auto simp: add_attachment_def parsed_ok_def attachment_ok_def)

lemma consume_part_ok:
  "map at_data (msg_attachments (consume_part dg k b m)) = map at_data (msg_attachments m) @ attached_bodies [ReadPart k b]"
  "parsed_ok dg raw m \<Longrightarrow> parsed_ok dg raw (consume_part dg k b m)"
  by (cases k; cases b; auto simp: consume_part_def consume_inline_def consume_attachment_header_def Let_def shown_only_def
      add_attachment_ok frame)+

lemma attached_bodies_part: "attached_bodies (ReadPart k b # rs) = attached_bodies [ReadPart k b] @ attached_bodies rs"
  by (cases k; cases b) auto

lemma read_parts_ok:
  "map at_data (msg_attachments (read_parts dg rs m)) = map at_data (msg_attachments m) @ attached_bodies rs"
  "parsed_ok dg raw m \<Longrightarrow> parsed_ok dg raw (read_parts dg rs m)"
proof (induction rs arbitrary: m)
  case (Cons r rs)
  { case 1 then show ?case
      by (cases r) (auto simp: frame Cons consume_part_ok(1) attached_bodies_part[of _ _ rs] simp del: attached_bodies.simps(2,3,4)) }
  { case 2 then show ?case by (cases r) (auto simp: frame Cons consume_part_ok(2)) }
qed simp_all

text \<open>C33.  Whatever the MIME library makes of a message, even when it fails or panics half way: the raw bytes
  are kept with their length, nothing a session or the store fills in is touched, every attachment has a
  safe name, a type, one of the two dispositions, the size and checksum of its bytes; and the attachments
  are, in order, exactly the bodies read that are not shown as text or HTML only.\<close>

theorem parse_sound:
  "parsed_ok dg raw (mime_parse dg create raw) \<and>
   map at_data (msg_attachments (mime_parse dg create raw)) =
     (if trim_space raw = [] then [] else case create raw of Created h rs \<Rightarrow> attached_bodies rs | _ \<Rightarrow> [])"
proof -
  let ?m = "empty_message \<lparr> msg_raw := raw, msg_size := int (length raw), msg_priority := ''normal'' \<rparr>"
  have m: "parsed_ok dg raw ?m" "msg_attachments ?m = []" by (simp_all add: parsed_ok_def empty_message_def)
  then show ?thesis
    by (auto simp: mime_parse_def Let_def frame fill_headers_frame read_parts_ok split: created.splits)
qed

end
