(* ===== verification/Compat_Api.thy ===== *)
theory Compat_Api
  imports Rest_Handlers Mime_Message
begin

text \<open>
  \<^verbatim>\<open>internal/control/compat\<close>: the API of the older program \<^verbatim>\<open>maildev\<close> over the same service, mounted by the
  management listener at \<^verbatim>\<open>/email\<close>, \<^verbatim>\<open>/healthz\<close> and \<^verbatim>\<open>/config\<close>.  It shares the verifier with the native API and
  knows no sessions.

  Answers are JSON trees.  The text of a time and Go's \<^verbatim>\<open>fmt.Sprint\<close> of a tree that is neither text nor
  boolean are arguments, and so is what other goroutines did to the inbox before each page of a listing.
\<close>

record compat_config =
  cc_principal :: "(http_request \<Rightarrow> actor) option"
  cc_origins :: "app \<Rightarrow> bytes list"
  cc_ready :: "bool option"

record compat_env =
  ce_rest :: rest_env
  ce_query :: "http_request \<Rightarrow> (bytes \<times> bytes list) list"
  ce_millis :: "int \<Rightarrow> bytes"
  ce_sprint :: "json \<Rightarrow> bytes"
  ce_between :: "nat \<Rightarrow> inbox \<Rightarrow> inbox"
  ce_request_id :: bytes

abbreviation ce_app :: "compat_env \<Rightarrow> app_env" where
  "ce_app e \<equiv> re_app (ce_rest e)"

section \<open>Authentication\<close>

definition compat_actor_of :: "principal \<Rightarrow> actor" where
  "compat_actor_of p = actor_of p ''compat''"

definition stub_principal :: "http_request \<Rightarrow> actor" where
  "stub_principal rq = (let h = trim_space (hq_header rq ''Authorization'');
       actor = \<lparr> ac_id = ''anonymous'', ac_class = ''administrator'', ac_role = [], ac_scopes = [], ac_transport = ''compat'' \<rparr>
     in if h = [] then actor
        else if has_prefix ''bearer '' (to_lower h) then actor \<lparr> ac_id := ''bearer'' \<rparr>
        else if has_prefix ''basic '' (to_lower h) then actor \<lparr> ac_id := ''basic'' \<rparr>
        else actor)"

definition compat_authenticate :: "compat_env \<Rightarrow> compat_config \<Rightarrow> http_request \<Rightarrow> rest_server \<Rightarrow> domain_error + actor" where
  "compat_authenticate e cc rq sv = (case cc_principal cc of
       Some f \<Rightarrow> Inr (f rq)
     | None \<Rightarrow> (case sv_auth sv of
         None \<Rightarrow> Inr (stub_principal rq)
       | Some v \<Rightarrow> (case authenticate (re_digest (ce_rest e)) (Some v) \<lparr> rq_authorization = hq_header rq ''Authorization'',
             rq_remote = hq_remote rq, rq_allow_basic = basic_enabled v \<rparr> of
           Inl er \<Rightarrow> Inl er | Inr p \<Rightarrow> Inr (compat_actor_of p))))"

definition write_method :: "bytes \<Rightarrow> bool" where
  "write_method m = (m = ''DELETE'' \<or> m = ''POST'' \<or> m = ''PUT'' \<or> m = ''PATCH'')"

definition compat_authorize :: "actor \<Rightarrow> bool \<Rightarrow> rest_server \<Rightarrow> domain_error option" where
  "compat_authorize ac write sv =
     (if sv_auth sv = None then None
      else authorize_scopes (ac_scopes ac) [if write then ''mail.write'' else ''mail.read''])"

section \<open>The shape of an email\<close>

definition jstr :: "bytes \<Rightarrow> json" where
  "jstr s = JStr (to_valid s)"

fun rune_cut :: "bytes \<Rightarrow> nat \<Rightarrow> nat" where
  "rune_cut s 0 = 0"
| "rune_cut s (Suc n) = (if between 0x80 0xBF (s ! Suc n) then rune_cut s n else Suc n)"

definition text_prefix_bytes :: nat where "text_prefix_bytes = 2048"

definition prefix_bytes :: "bytes \<Rightarrow> nat \<Rightarrow> bytes" where
  "prefix_bytes s n = (if n = 0 \<or> length s \<le> n then s else take (rune_cut s n) s)"

definition from_addrs :: "address list \<Rightarrow> json" where
  "from_addrs as = JArr (map (\<lambda>a. JObj [(''address'', jstr (ad_address a)), (''name'', jstr (ad_name a))]) as)"

definition from_atts :: "attachment list \<Rightarrow> json" where
  "from_atts as = JArr (map (\<lambda>a. JObj [(''fileName'', jstr (at_filename a)), (''contentType'', jstr (at_content_type a)),
     (''contentDisposition'', jstr (at_disposition a)), (''contentId'', jstr (at_content_id a)),
     (''checksum'', jstr (at_checksum a))]) as)"

definition header_map :: "header list \<Rightarrow> (bytes \<times> bytes) list" where
  "header_map hs = fold (\<lambda>h m. let k = to_lower (hd_name h) in case lookup m k of
       Some prev \<Rightarrow> AList.update k (prev @ [LF] @ hd_value h) m
     | None \<Rightarrow> AList.update k (hd_value h) m) hs []"

definition format_time :: "compat_env \<Rightarrow> int \<Rightarrow> bytes" where
  "format_time e t = (if t = 0 then [] else ce_millis e t)"

definition from_email :: "compat_env \<Rightarrow> message \<Rightarrow> bool \<Rightarrow> bool \<Rightarrow> json" where
  "from_email e m listed text_prefix = JObj [
     (''id'', jstr (msg_id m)), (''time'', jstr (format_time e (received_at m))),
     (''from'', from_addrs (msg_from m)), (''to'', from_addrs (msg_to m)), (''cc'', from_addrs (msg_cc m)),
     (''bcc'', from_addrs (msg_bcc m)), (''subject'', jstr (msg_subject m)),
     (''text'', jstr (if listed then (if text_prefix then prefix_bytes (msg_text m) text_prefix_bytes else []) else msg_text m)),
     (''html'', jstr (if listed then [] else msg_html m)),
     (''headers'', JObj (map (\<lambda>(k, v). (to_valid k, jstr v)) (header_map (msg_headers m)))),
     (''read'', JBool (msg_read m)),
     (''messageId'', jstr (trim_by (\<lambda>c. c = CHR ''<'' \<or> c = CHR ''>'') (msg_message_id m))),
     (''priority'', jstr (if msg_priority m = [] then ''normal'' else msg_priority m)),
     (''attachments'', from_atts (msg_attachments m)),
     (''envelope'', JObj [(''from'', jstr (env_from (msg_envelope m))), (''to'', JArr (map jstr (env_to (msg_envelope m)))),
       (''host'', jstr (env_helo (msg_envelope m))), (''remoteAddress'', jstr (env_remote (msg_envelope m)))])]"

section \<open>The query\<close>

text \<open>A path of names separated by dots; over an array it is looked up in every element.  Absence is null.\<close>

function lookup_path :: "json \<Rightarrow> bytes \<Rightarrow> json" where
  "lookup_path v path =
     (if path = [] then v
      else let (head, rest, found) = cut (CHR ''.'') path in
        case v of
          JObj ms \<Rightarrow> (case lookup ms head of
              None \<Rightarrow> JNull | Some nxt \<Rightarrow> if rest = [] then nxt else lookup_path nxt rest)
        | JArr xs \<Rightarrow> JArr (map (\<lambda>x. lookup_path x path) xs)
        | _ \<Rightarrow> JNull)"
  by pat_completeness auto
termination
  by (relation "measure (\<lambda>(v, p). size v)") (auto dest!: member_size simp: less_Suc_eq_le size_list_estimation')

declare lookup_path.simps [simp del]

fun value_matches :: "(json \<Rightarrow> bytes) \<Rightarrow> json \<Rightarrow> bytes \<Rightarrow> bool" where
  "value_matches sprint JNull want = False"
| "value_matches sprint (JStr s) want = (s = want)"
| "value_matches sprint (JBool b) want = ((if b then ''true'' else ''false'') = want)"
| "value_matches sprint (JArr xs) want = list_ex (\<lambda>x. value_matches sprint x want) xs"
| "value_matches sprint v want = (sprint v = want)"

definition match_query :: "compat_env \<Rightarrow> json \<Rightarrow> (bytes \<times> bytes list) list \<Rightarrow> bool" where
  "match_query e item qs = list_all (\<lambda>(k, vs). k = ''skip'' \<or> k = ''text'' \<or>
     list_all (\<lambda>want. value_matches (ce_sprint e) (lookup_path item k) want) vs) qs"

definition parse_skip :: "bytes \<Rightarrow> nat" where
  "parse_skip raw = (if raw = [] then 0
     else case parse_int64 raw of None \<Rightarrow> 0 | Some n \<Rightarrow> if n < 0 then 0 else nat n)"

definition query_get :: "(bytes \<times> bytes list) list \<Rightarrow> bytes \<Rightarrow> bytes" where
  "query_get qs k = (case lookup qs k of Some (v # vs) \<Rightarrow> v | _ \<Rightarrow> [])"

section \<open>Listing\<close>

definition list_page_size :: int where "list_page_size = 200"

definition list_page_budget :: "int \<Rightarrow> nat" where
  "list_page_budget max_messages = (let n = (if max_messages \<le> 0 then 1000 else max_messages)
     in nat ((n + list_page_size - 1) div list_page_size + 1))"

text \<open>The inbox a page finds.\<close>

definition app_between :: "compat_env \<Rightarrow> nat \<Rightarrow> app \<Rightarrow> app" where
  "app_between e page a = a \<lparr> ap_inbox := map_option (ce_between e page) (ap_inbox a) \<rparr>"

fun list_pages :: "compat_env \<Rightarrow> message_filter \<Rightarrow> nat \<Rightarrow> nat \<Rightarrow> bytes \<Rightarrow> app \<Rightarrow> go_error + message list" where
  "list_pages e f 0 page cursor a = Inr []"
| "list_pages e f (Suc n) page cursor a = (let b = app_between e page a in
     case list_messages (ce_app e) (re_ulid (ce_rest e)) \<lparr> q_filter = f, q_cursor = cursor, q_limit = list_page_size \<rparr> b of
       Inl er \<Rightarrow> Inl er
     | Inr res \<Rightarrow>
         if lr_next res = [] \<or> lr_next res = cursor then Inr (lr_items res)
         else (case list_pages e f n (Suc page) (lr_next res) b of
             Inl er \<Rightarrow> Inl er | Inr rest \<Rightarrow> Inr (lr_items res @ rest)))"

definition list_all_messages :: "compat_env \<Rightarrow> message_filter \<Rightarrow> app \<Rightarrow> go_error + message list" where
  "list_all_messages e f a = (let budget = (case get_state (ce_app e) a of
         Inl er \<Rightarrow> list_page_budget 0
       | Inr v \<Rightarrow> list_page_budget (ss_max_messages (sp_store (sd_spec (vw_canonical v)))))
     in list_pages e f budget 0 [] a)"

section \<open>Handlers\<close>

definition compat_json :: "int \<Rightarrow> json \<Rightarrow> http_response" where
  "compat_json code j = \<lparr> hr_status = code, hr_headers = [(''Content-Type'', ''application/json; charset=utf-8'')],
     hr_cookie = None, hr_payload = JsonBody j \<rparr>"

definition compat_list :: "compat_env \<Rightarrow> http_request \<Rightarrow> bytes \<Rightarrow> rest_server \<Rightarrow> handled" where
  "compat_list e rq inst sv = (let qs = ce_query e rq in
     answer inst (list_all_messages e (empty_filter \<lparr> f_subject := query_get qs ''subject'' \<rparr>) (sv_app sv))
       (\<lambda>ms. compat_json 200 (JArr (drop (parse_skip (query_get qs ''skip''))
         (filter (\<lambda>item. match_query e item qs) (map (\<lambda>m. from_email e m True (query_get qs ''text'' = ''1'')) ms))))) sv)"

definition compat_get :: "compat_env \<Rightarrow> bytes \<Rightarrow> bytes \<Rightarrow> rest_server \<Rightarrow> handled" where
  "compat_get e inst mid sv = with_message (ce_rest e) inst mid True (\<lambda>m. compat_json 200 (from_email e m False False)) sv"

definition compat_delete :: "compat_env \<Rightarrow> bytes \<Rightarrow> actor \<Rightarrow> bytes \<Rightarrow> rest_server \<Rightarrow> handled" where
  "compat_delete e inst ac mid sv = (case delete_message (ce_app e) ac mid None (sv_app sv) of
       (Some er, a) \<Rightarrow> fail_with inst (rest_error er) (with_app sv a)
     | (None, a) \<Rightarrow> (compat_json 200 (JBool True), with_app sv a))"

definition compat_clear :: "compat_env \<Rightarrow> bytes \<Rightarrow> actor \<Rightarrow> rest_server \<Rightarrow> handled" where
  "compat_clear e inst ac sv = (let (r, a) = clear_messages (ce_app e) ac None (sv_app sv) in
     answer inst r (\<lambda>n. compat_json 200 (JBool True)) (with_app sv a))"

definition compat_html :: "compat_env \<Rightarrow> bytes \<Rightarrow> bytes \<Rightarrow> rest_server \<Rightarrow> handled" where
  "compat_html e inst mid sv = with_message (ce_rest e) inst mid True (\<lambda>m. \<lparr> hr_status = 200,
       hr_headers = (''Content-Security-Policy'', preview_csp) # nosniff @ [(''Content-Disposition'', ''inline''),
         (''Content-Type'', ''text/html; charset=utf-8'')],
       hr_cookie = None, hr_payload = RawBody (rewrite_cid (msg_html m) (msg_attachments m)) \<rparr>) sv"

definition compat_attachment :: "compat_env \<Rightarrow> bytes \<Rightarrow> bytes \<Rightarrow> bytes \<Rightarrow> rest_server \<Rightarrow> handled" where
  "compat_attachment e inst mid filename sv = (case get_message (ce_app e) mid False (sv_app sv) of
       (Inl er, a) \<Rightarrow> fail_with inst (rest_error er) (with_app sv a)
     | (Inr m, a) \<Rightarrow> (case find (\<lambda>x. at_filename x = sanitize_filename filename) (msg_attachments m) of
         None \<Rightarrow> fail_with inst (domain_e (new_error NotFound ''attachment not found'')) (with_app sv a)
       | Some att \<Rightarrow> (\<lparr> hr_status = 200,
           hr_headers = [(''Content-Type'', if at_content_type att = [] then ''application/octet-stream'' else at_content_type att),
             (''Content-Disposition'', ''attachment; filename='' @ [CHR 0x22] @ sanitize_filename (at_filename att) @ [CHR 0x22])] @ nosniff,
           hr_cookie = None, hr_payload = RawBody (at_data att) \<rparr>, with_app sv a)))"

definition compat_ready :: "compat_env \<Rightarrow> compat_config \<Rightarrow> rest_server \<Rightarrow> bool" where
  "compat_ready e cc sv = (case cc_ready cc of
       Some b \<Rightarrow> b
     | None \<Rightarrow> (case app_status (ce_app e) (re_health (ce_rest e)) (re_stamp (ce_rest e)) (sv_app sv) of
         Inl er \<Rightarrow> False | Inr st \<Rightarrow> su_ready st))"

definition compat_healthz :: "compat_env \<Rightarrow> compat_config \<Rightarrow> rest_server \<Rightarrow> handled" where
  "compat_healthz e cc sv =
     ((if \<not> compat_ready e cc sv then compat_json 503 (JObj [(''status'', JStr ''not ready'')])
       else compat_json 200 (JObj [(''status'', JStr ''ok'')])), sv)"

definition compat_config_view :: "compat_env \<Rightarrow> bytes \<Rightarrow> rest_server \<Rightarrow> handled" where
  "compat_config_view e inst sv = (case get_state (ce_app e) (sv_app sv) of
       Inl er \<Rightarrow> fail_with inst er sv
     | Inr v \<Rightarrow> (let sp = sd_spec (vw_canonical v) in (compat_json 200 (JObj [
         (''smtp'', JObj [(''address'', jstr (ls_smtp_address (sp_listeners sp)))]),
         (''web'', JObj [(''address'', jstr (ls_mgmt_address (sp_listeners sp)))]),
         (''receiveOnly'', JBool True), (''hostname'', jstr (sm_hostname (sp_smtp sp)))]), sv)))"

section \<open>The way of a request\<close>

definition split_path :: "bytes \<Rightarrow> bytes list" where
  "split_path p = (let q = trim_by (\<lambda>c. c = CHR ''/'') p in if q = [] then [] else split_on (CHR ''/'') q)"

definition is_relay_path :: "bytes list \<Rightarrow> bool" where
  "is_relay_path parts = (length parts \<ge> 3 \<and> parts ! 0 = ''email'' \<and> equal_fold (parts ! 2) ''relay'')"

definition refuse_method :: "bytes \<Rightarrow> bytes \<Rightarrow> rest_server \<Rightarrow> handled" where
  "refuse_method inst allow sv =
     (let (resp, s) = fail_with inst (domain_e (new_error MethodNotAllowed ''method not allowed'')) sv
      in (resp \<lparr> hr_headers := (''Allow'', allow) # hr_headers resp \<rparr>, s))"

definition require_method :: "http_request \<Rightarrow> bytes \<Rightarrow> bytes \<Rightarrow> (rest_server \<Rightarrow> handled) \<Rightarrow> rest_server \<Rightarrow> handled" where
  "require_method rq inst want f sv = (if hq_method rq \<noteq> want then refuse_method inst want sv else f sv)"

definition compat_dispatch :: "compat_env \<Rightarrow> compat_config \<Rightarrow> http_request \<Rightarrow> bytes \<Rightarrow> actor \<Rightarrow> bytes list \<Rightarrow> rest_server \<Rightarrow> handled" where
  "compat_dispatch e cc rq inst ac parts sv =
     (if parts = [''healthz''] then require_method rq inst ''GET'' (compat_healthz e cc) sv
      else if parts = [''config''] then require_method rq inst ''GET'' (compat_config_view e inst) sv
      else if parts = [''email''] then
        (if hq_method rq = ''GET'' then compat_list e rq inst sv else refuse_method inst ''GET'' sv)
      else if parts = [''email'', ''all''] then require_method rq inst ''DELETE'' (compat_clear e inst ac) sv
      else if length parts = 2 \<and> parts ! 0 = ''email'' then
        (if hq_method rq = ''GET'' then compat_get e inst (parts ! 1) sv
         else if hq_method rq = ''DELETE'' then compat_delete e inst ac (parts ! 1) sv
         else refuse_method inst ''GET, DELETE'' sv)
      else if length parts = 3 \<and> parts ! 0 = ''email'' \<and> parts ! 2 = ''html'' then
        require_method rq inst ''GET'' (compat_html e inst (parts ! 1)) sv
      else if length parts \<ge> 4 \<and> parts ! 0 = ''email'' \<and> parts ! 2 = ''attachment'' then
        require_method rq inst ''GET'' (compat_attachment e inst (parts ! 1) (join ''/'' (drop 3 parts))) sv
      else fail_with inst (domain_e (new_error NotFound ''not found'')) sv)"

definition compat_route :: "compat_env \<Rightarrow> compat_config \<Rightarrow> http_request \<Rightarrow> bytes \<Rightarrow> actor \<Rightarrow> bytes list \<Rightarrow> rest_server \<Rightarrow> handled" where
  "compat_route e cc rq inst ac parts sv =
     (if is_relay_path parts
      then fail_with inst (domain_e (new_error ReceiveOnly ''LabMail is receive-only; relay is not implemented'')) sv
      else compat_dispatch e cc rq inst ac parts sv)"

definition no_actor :: actor where
  "no_actor = \<lparr> ac_id = [], ac_class = [], ac_role = [], ac_scopes = [], ac_transport = [] \<rparr>"

definition serve_compat :: "compat_env \<Rightarrow> compat_config \<Rightarrow> http_request \<Rightarrow> rest_server \<Rightarrow> handled" where
  "serve_compat e cc rq sv =
     (let h = hq_header rq ''X-Request-ID''; rid = (if h \<noteq> [] then h else ce_request_id e); inst = ''urn:labmail:request:'' @ rid;
          parts = split_path (hq_path rq);
          (resp, s) = (case check_origin (ev_url (ce_app e)) (hq_header rq ''Origin'') (cc_origins cc (sv_app sv)) of
              Some er \<Rightarrow> fail_with inst (domain_e er) sv
            | None \<Rightarrow>
                if hq_method rq = ''OPTIONS'' then fail_with inst (domain_e (forbidden ''CORS is disabled'')) sv
                else if parts = [''healthz''] then compat_route e cc rq inst no_actor parts sv
                else (case compat_authenticate e cc rq sv of
                    Inl er \<Rightarrow> fail_with inst (domain_e er) sv
                  | Inr ac \<Rightarrow> (case compat_authorize ac (write_method (hq_method rq)) sv of
                      Some er \<Rightarrow> fail_with inst (domain_e er) sv
                    | None \<Rightarrow> compat_route e cc rq inst ac parts sv)))
      in (add_request_id rid resp, s))"

text \<open>The paths it is registered at; the pattern that ends in a slash covers everything below it.\<close>

definition compat_mount :: "compat_env \<Rightarrow> compat_config \<Rightarrow> http_request \<Rightarrow> (rest_server \<Rightarrow> handled) option" where
  "compat_mount e cc rq = (let p = hq_path rq in
     if p = ''/email'' \<or> has_prefix ''/email/'' p \<or> p = ''/healthz'' \<or> p = ''/config'' then Some (serve_compat e cc rq) else None)"

end
