(* ===== verification/Compat_Props.thy ===== *)
theory Compat_Props
  imports Compat_Api Rest_Props Inbox_Props
begin

text \<open>
  What the older API promises: its list is the whole inbox, page by page, and it changes the service only for
  a caller whose scope covers the method.
\<close>

section \<open>The whole inbox\<close>

text \<open>An environment in which nothing else runs and the disk answers.\<close>

definition calm_env :: "compat_env \<Rightarrow> bool" where
  "calm_env e = (ev_ctx (ce_app e) = None \<and> ev_other (ce_app e) = (\<lambda>m. m) \<and> ev_io (ce_app e) = good_io \<and>
     ce_between e = (\<lambda>k m. m))"

text \<open>The message an id stands for: the one accepted, with the read mark the store has put on it.\<close>

definition kept_message :: "accepted \<Rightarrow> inbox \<Rightarrow> bytes \<Rightarrow> message" where
  "kept_message G m k = (the (lookup G k)) \<lparr> msg_read := msg_read (r_msg (the (lookup (ib_by_id m) k))) \<rparr>"

lemma load_all_kept:
  assumes "\<forall>k \<in> set (ib_order m). \<exists>r. lookup (ib_by_id m) k = Some r \<and> rec_ok G (ib_disk m) k r"
  shows "set ks \<subseteq> set (ib_order m) \<Longrightarrow> load_all good_io (ib_disk m) (recs m ks) = Inr (map (kept_message G m) ks)"
proof (induction ks)
  case (Cons k ks)
  then obtain r where r: "lookup (ib_by_id m) k = Some r" "rec_ok G (ib_disk m) k r" using assms by auto
  then have "load_spill good_io r (ib_disk m) = Inr (kept_message G m k)" by (auto simp: rec_ok_def kept_message_def)
  then show ?case using Cons r by (simp add: recs_def)
qed (simp add: recs_def)

lemma after_cursor_passed:
  assumes "core_inv m" "cid \<in> set (ib_order m)" "cid \<noteq> []"
  shows "cid \<notin> set (after_cursor m cid)"
proof -
  have d: "distinct (rev (ib_order m))" using core_invD(2)[OF assms(1)] by simp
  obtain xs ys where xs: "rev (ib_order m) = xs @ cid # ys" "cid \<notin> set xs"
    using assms(2) split_list_first[of cid "rev (ib_order m)"] by auto
  then have "dropWhile (\<lambda>k. k \<noteq> cid) (rev (ib_order m)) = cid # ys" by (auto simp: dropWhile_append)
  then show ?thesis using d xs assms(3) by (simp add: after_cursor_def)
qed

lemma set_after_cursor: "set (after_cursor m cid) \<subseteq> set (ib_order m)"
proof -
  have tl: "x \<in> set (tl xs) \<Longrightarrow> x \<in> set xs" for x :: bytes and xs by (cases xs) auto
  show ?thesis by (auto simp: after_cursor_def dest!: tl set_dropWhileD)
qed

lemma list_pages_complete:
  assumes calm: "calm_env e" and m: "ap_inbox a = Some m" and core: "core_inv m" "[] \<notin> set (ib_order m)"
    and ok: "\<forall>k \<in> set (ib_order m). \<exists>r. lookup (ib_by_id m) k = Some r \<and> rec_ok G (ib_disk m) k r"
  shows "cursor = [] \<or> cursor \<in> set (ib_order m) \<Longrightarrow> length (matches m f (after_cursor m cursor)) \<le> 200 * n \<Longrightarrow> 0 < n \<Longrightarrow>
    list_pages e f n page cursor a = Inr (map (kept_message G m) (matches m f (after_cursor m cursor)))"
proof (induction n arbitrary: page cursor)
  case (Suc n)
  define hits where "hits = matches m f (after_cursor m cursor)"
  let ?q = "\<lparr> q_filter = f, q_cursor = cursor, q_limit = list_page_size \<rparr>"
  have a: "app_between e page a = a" using calm m by (simp add: calm_env_def app_between_def same_inbox)
  have lim: "list_limit list_page_size = 200" by (simp add: list_limit_def list_page_size_def DefaultListLimit_def MaxListLimit_def)
  have sub: "set hits \<subseteq> set (ib_order m)" using set_after_cursor by (fastforce simp: hits_def matches_def)
  have pg: "list_page (re_ulid (ce_rest e)) ?q m = (recs m (take 200 hits), if length hits \<le> 200 then [] else hits ! 199)"
    using list_page_spec[of m ?q "re_ulid (ce_rest e)"] core(1) Suc.prems(1) lim by (simp add: hits_def Let_def)
  have "load_all good_io (ib_disk m) (recs m (take 200 hits)) = Inr (map (kept_message G m) (take 200 hits))"
    using load_all_kept[OF ok] sub by (meson order_trans set_take_subset)
  then have res: "list_messages (ce_app e) (re_ulid (ce_rest e)) ?q (app_between e page a) =
      Inr \<lparr> lr_items = map (kept_message G m) (take 200 hits), lr_next = (if length hits \<le> 200 then [] else hits ! 199),
        lr_generation = ib_generation m \<rparr>"
    using calm m by (simp add: list_messages_def a require_inbox_def memory_list_def pg calm_env_def)
  show ?case
  proof (cases "length hits \<le> 200")
    case True
    then show ?thesis using res by (simp add: Let_def hits_def)
  next
    case False
    then have i: "199 < length (matches m f (after_cursor m cursor))" by (simp add: hits_def)
    note nxt = matches_after_hit[OF core(1) Suc.prems(1) i core(2)]
    have "hits ! 199 \<in> set (after_cursor m cursor)"
      using i nth_mem[OF i] by (auto simp: hits_def matches_def)
    then have "hits ! 199 \<noteq> cursor" using after_cursor_passed[OF core(1)] Suc.prems(1) nxt by (auto simp: hits_def)
    moreover have "length (drop 200 hits) \<le> 200 * n" "0 < n" using Suc.prems(2) False by (auto simp: hits_def)
    then have "list_pages e f n (Suc page) (hits ! 199) a = Inr (map (kept_message G m) (drop 200 hits))"
      using Suc.IH[of "hits ! 199" "Suc page"] nxt by (simp add: hits_def)
    ultimately show ?thesis using res False nxt
      by (simp add: Let_def a hits_def flip: map_append)
  qed
qed simp

lemma page_budget: "0 < list_page_budget n \<and> (0 < n \<longrightarrow> n \<le> 200 * int (list_page_budget n))"
proof -
  let ?k = "if n \<le> 0 then 1000 else n"
  have "?k \<le> 200 * ((?k + 199) div 200) + 200" "0 \<le> (?k + 199) div 200" by auto
  then show ?thesis by (auto simp: list_page_budget_def list_page_size_def Let_def)
qed

text \<open>C32.  \<^verbatim>\<open>GET /email\<close> is the whole inbox.  For any inbox the store can reach, within the cap the active
  state sets, the listing of the older API - pages of 200 by cursor, within its page budget - is every
  message kept, newest first, each with the content it was accepted with; for a query by subject, those of
  them that match.\<close>

theorem compat_lists_inbox:
  assumes "calm_env e" "sys_reach parse (m, P, G)" "parse_ok parse" "ap_inbox a = Some m"
    and "get_state (ce_app e) a = Inr v"
    and "int (length (ib_order m)) \<le> ss_max_messages (sp_store (sd_spec (vw_canonical v)))"
  shows "list_all_messages e f a = Inr (map (kept_message G m) (matches m f (rev (ib_order m)))) \<and>
    (f = empty_filter \<longrightarrow> matches m f (rev (ib_order m)) = rev (ib_order m))"
proof -
  note r = reach_no_empty_id[OF assms(2,3)]
  let ?n = "ss_max_messages (sp_store (sd_spec (vw_canonical v)))"
  have ac: "after_cursor m [] = rev (ib_order m)" by (simp add: after_cursor_def)
  have "length (matches m f (rev (ib_order m))) \<le> length (ib_order m)"
    using length_filter_le unfolding matches_def by (metis length_rev)
  then have "length (matches m f (after_cursor m [])) \<le> 200 * list_page_budget ?n"
    using assms(6) page_budget[of ?n] by (cases "ib_order m") (auto simp: ac)
  then have "list_pages e f (list_page_budget ?n) 0 [] a = Inr (map (kept_message G m) (matches m f (rev (ib_order m))))"
    using list_pages_complete[OF assms(1,4), of G "[]" f "list_page_budget ?n" 0] r page_budget[of ?n] by (simp add: ac)
  moreover have "matches m empty_filter (rev (ib_order m)) = rev (ib_order m)"
    using r by (auto simp: matches_def filter_id_conv empty_filter_matches split: option.splits)
  ultimately show ?thesis using assms(5) by (simp add: list_all_messages_def)
qed

definition demo_compat_env :: compat_env where
  "demo_compat_env = \<lparr> ce_rest = demo_rest_env, ce_query = (\<lambda>rq. []), ce_millis = (\<lambda>t. []), ce_sprint = (\<lambda>j. []),
     ce_between = (\<lambda>k m. m), ce_request_id = ''c1'' \<rparr>"

lemma demo_compat_sel [simp]: "ce_rest demo_compat_env = demo_rest_env" "calm_env demo_compat_env"
  by (simp_all add: demo_compat_env_def calm_env_def)

lemma compat_lists_inbox_witness:
  "list_all_messages demo_compat_env empty_filter (demo_app \<lparr> ap_inbox := Some Inbox_Props.demo_inbox \<rparr>) =
     Inr (map (kept_message [(demo_ulid, demo_stored)] Inbox_Props.demo_inbox) [demo_ulid])"
proof -
  let ?a = "demo_app \<lparr> ap_inbox := Some Inbox_Props.demo_inbox \<rparr>"
  obtain v where v: "get_state demo_env ?a = Inr v" "vw_canonical v = demo_state"
    using demo_active by (simp add: get_state_def active_snapshot_def demo_snapshot_def)
  have o: "ib_order Inbox_Props.demo_inbox = [demo_ulid]" by (simp add: Inbox_Props.demo_inbox_def)
  have "int (length (ib_order Inbox_Props.demo_inbox)) \<le> ss_max_messages (sp_store (sd_spec (vw_canonical v)))"
    by (simp add: o v(2) demo_state_def demo_spec_def)
  then show ?thesis
    using compat_lists_inbox[OF demo_compat_sel(2) Inbox_Props.demo_reach demo_sizes(2), of ?a v empty_filter] v(1) by (simp add: o)
qed

section \<open>Who may change the service\<close>

lemma delete_fail [simp]: "snd (refuse_method inst allow sv) = sv"
  by (simp add: refuse_method_def case_prod_beta)

lemma healthz_app: "sv_app (snd (compat_route e cc rq inst ac [''healthz''] sv)) = sv_app sv"
  by (simp add: compat_route_def is_relay_path_def compat_dispatch_def require_method_def compat_healthz_def)

lemma serve_compat_admitted:
  assumes "sv_app (snd (serve_compat e cc rq sv)) \<noteq> sv_app sv"
  shows "\<exists>ac inst. compat_authenticate e cc rq sv = Inr ac \<and> compat_authorize ac (write_method (hq_method rq)) sv = None \<and>
    sv_app (snd (serve_compat e cc rq sv)) = sv_app (snd (compat_route e cc rq inst ac (split_path (hq_path rq)) sv))"
  using assms by (auto simp: serve_compat_def Let_def case_prod_beta healthz_app split: option.splits sum.splits if_splits)

lemma serve_compat_app:
  assumes "sv_app (snd (serve_compat e cc rq sv)) \<noteq> sv_app sv" "cc_principal cc = None" "sv_auth sv = Some v"
  shows "\<exists>p inst. authenticate (re_digest (ce_rest e)) (Some v) \<lparr> rq_authorization = hq_header rq ''Authorization'',
      rq_remote = hq_remote rq, rq_allow_basic = basic_enabled v \<rparr> = Inr p \<and>
      authorize_scopes (pr_scopes p) [if write_method (hq_method rq) then ''mail.write'' else ''mail.read''] = None \<and>
      sv_app (snd (serve_compat e cc rq sv)) = sv_app (snd (compat_dispatch e cc rq inst (compat_actor_of p) (split_path (hq_path rq)) sv))"
proof -
  obtain ac inst where ac: "compat_authenticate e cc rq sv = Inr ac" "compat_authorize ac (write_method (hq_method rq)) sv = None"
    "sv_app (snd (serve_compat e cc rq sv)) = sv_app (snd (compat_route e cc rq inst ac (split_path (hq_path rq)) sv))"
    using serve_compat_admitted[OF assms(1)] by blast
  then have "\<not> is_relay_path (split_path (hq_path rq))" using assms(1) by (auto simp: compat_route_def)
  moreover obtain p where "authenticate (re_digest (ce_rest e)) (Some v) \<lparr> rq_authorization = hq_header rq ''Authorization'',
      rq_remote = hq_remote rq, rq_allow_basic = basic_enabled v \<rparr> = Inr p" "ac = compat_actor_of p"
    using ac(1) assms(2,3) by (auto simp: compat_authenticate_def split: sum.splits)
  ultimately show ?thesis using ac(2,3) assms(3)
    by (auto simp: compat_route_def compat_authorize_def compat_actor_of_def actor_of_def)
qed

lemma compat_reads:
  assumes "ev_other (ce_app e) = (\<lambda>m. m)"
  shows "sv_app (snd (compat_list e rq inst sv)) = sv_app sv" "sv_app (snd (compat_attachment e inst mid f sv)) = sv_app sv"
    "sv_app (snd (compat_healthz e cc sv)) = sv_app sv" "sv_app (snd (compat_config_view e inst sv)) = sv_app sv"
  using get_message_pure[OF assms, of mid "sv_app sv"]
  by (auto simp: compat_list_def compat_attachment_def compat_healthz_def compat_config_view_def Let_def
      split: sum.splits prod.splits option.splits)

text \<open>Only a deletion and a read that marks its message leave another service behind.\<close>

lemma compat_dispatch_changes:
  assumes "ev_other (ce_app e) = (\<lambda>m. m)" "sv_app (snd (compat_dispatch e cc rq inst ac parts sv)) \<noteq> sv_app sv"
  shows "(hq_method rq = ''DELETE'' \<and> length parts = 2) \<or>
    (hq_method rq = ''GET'' \<and> (\<exists>mid. parts \<in> {[''email'', mid], [''email'', mid, ''html'']} \<and>
      sv_app (snd (compat_dispatch e cc rq inst ac parts sv)) = snd (get_message (ce_app e) mid True (sv_app sv))))"
proof -
  have two: "length parts = 2 \<and> parts ! 0 = ''email'' \<Longrightarrow> parts = [''email'', parts ! 1]"
    by (auto simp: numeral_2_eq_2 length_Suc_conv)
  have three: "length parts = 3 \<and> parts ! 0 = ''email'' \<and> parts ! 2 = ''html'' \<Longrightarrow> parts = [''email'', parts ! 1, ''html'']"
    by (auto simp: numeral_3_eq_3 length_Suc_conv)
  have marks: "sv_app (snd (compat_get e inst mid sv)) = snd (get_message (ce_app e) mid True (sv_app sv))"
    "sv_app (snd (compat_html e inst mid sv)) = snd (get_message (ce_app e) mid True (sv_app sv))" for mid
    by (simp_all add: compat_get_def compat_html_def with_message_def case_prod_beta)
  show ?thesis using assms(2) two three
    by (auto simp: compat_dispatch_def require_method_def compat_reads[OF assms(1)] marks split: if_splits)
qed

text \<open>The message with the read mark set, everything else of the inbox as it was.\<close>

definition marked_inbox :: "bytes \<Rightarrow> stored \<Rightarrow> inbox \<Rightarrow> inbox" where
  "marked_inbox mid r m = m \<lparr> ib_by_id := AList.update mid (r \<lparr> r_msg := (r_msg r) \<lparr> msg_read := True \<rparr> \<rparr>) (ib_by_id m) \<rparr>"

lemma marked_only:
  assumes "ev_other e = (\<lambda>m. m)" "snd (get_message e mid True a) \<noteq> a"
  shows "\<exists>m r. ap_inbox a = Some m \<and> lookup (ib_by_id m) mid = Some r \<and>
    snd (get_message e mid True a) = a \<lparr> ap_inbox := Some (marked_inbox mid r m) \<rparr>"
proof -
  have "ev_ctx e = None" using assms(2) by (auto simp: get_message_def split: option.splits)
  moreover obtain m where m: "ap_inbox a = Some m"
    using assms(2) by (cases "ap_inbox a") (auto simp: get_message_def require_inbox_def split: option.splits)
  ultimately have g: "snd (get_message e mid True a) = a \<lparr> ap_inbox := Some (snd (memory_get (ev_io e) mid True m (ib_disk m) m)) \<rparr>"
    using assms(1) by (simp add: get_message_def require_inbox_def Let_def case_prod_beta split: sum.split)
  then have "snd (memory_get (ev_io e) mid True m (ib_disk m) m) \<noteq> m" using assms(2) m by (auto simp: same_inbox)
  then obtain r where "lookup (ib_by_id m) mid = Some r" "snd (memory_get (ev_io e) mid True m (ib_disk m) m) = marked_inbox mid r m"
    by (auto simp: memory_get_def set_read_def marked_inbox_def split: option.splits sum.splits)
  then show ?thesis using g m by simp
qed

text \<open>C30.  Whatever a request to the older API changes in the service, its caller was authenticated by the
  Authorization header and by nothing else; a deletion had the scope to write mail, and a reader changes
  the read mark of the message its path names and nothing else: no message comes, goes, moves or
  becomes another, and the configuration, the audit log and the rest of the service stay as they are.\<close>

theorem compat_change_authorized:
  assumes "sv_auth sv = Some v" "cc_principal cc = None" "ev_other (ce_app e) = (\<lambda>m. m)"
    and "sv_app (snd (serve_compat e cc rq sv)) \<noteq> sv_app sv"
  shows "\<exists>p. authenticate (re_digest (ce_rest e)) (Some v) \<lparr> rq_authorization = hq_header rq ''Authorization'',
      rq_remote = hq_remote rq, rq_allow_basic = basic_enabled v \<rparr> = Inr p \<and>
    ((hq_method rq = ''DELETE'' \<and> has_scope (pr_scopes p) ''mail.write'') \<or>
     (hq_method rq = ''GET'' \<and> has_scope (pr_scopes p) ''mail.read'' \<and>
      (\<exists>mid m r. split_path (hq_path rq) \<in> {[''email'', mid], [''email'', mid, ''html'']} \<and> ap_inbox (sv_app sv) = Some m \<and>
         lookup (ib_by_id m) mid = Some r \<and> sv_app (snd (serve_compat e cc rq sv)) = (sv_app sv) \<lparr> ap_inbox := Some
           (m \<lparr> ib_by_id := AList.update mid (r \<lparr> r_msg := (r_msg r) \<lparr> msg_read := True \<rparr> \<rparr>) (ib_by_id m) \<rparr>) \<rparr>)))"
proof -
  obtain p inst where p: "authenticate (re_digest (ce_rest e)) (Some v) \<lparr> rq_authorization = hq_header rq ''Authorization'',
      rq_remote = hq_remote rq, rq_allow_basic = basic_enabled v \<rparr> = Inr p"
    "list_all (has_scope (pr_scopes p)) [if write_method (hq_method rq) then ''mail.write'' else ''mail.read'']"
    "sv_app (snd (serve_compat e cc rq sv)) = sv_app (snd (compat_dispatch e cc rq inst (compat_actor_of p) (split_path (hq_path rq)) sv))"
    using serve_compat_app[OF assms(4,2,1)] unfolding authorize_scopes_None by blast
  from compat_dispatch_changes[OF assms(3) assms(4)[unfolded p(3)]] show ?thesis
  proof (elim disjE conjE exE)
    assume "hq_method rq = ''DELETE''"
    then show ?thesis using p(1,2) by (intro exI[of _ p]) (simp add: write_method_def)
  next
    fix mid
    assume g: "hq_method rq = ''GET''" "split_path (hq_path rq) \<in> {[''email'', mid], [''email'', mid, ''html'']}"
      "sv_app (snd (compat_dispatch e cc rq inst (compat_actor_of p) (split_path (hq_path rq)) sv)) =
        snd (get_message (ce_app e) mid True (sv_app sv))"
    then have "has_scope (pr_scopes p) ''mail.read''" using p(2) by (simp add: write_method_def)
    moreover have "snd (get_message (ce_app e) mid True (sv_app sv)) \<noteq> sv_app sv" using assms(4) p(3) g(3) by simp
    ultimately show ?thesis using p(1) g(1,2) marked_only[OF assms(3)] unfolding p(3) g(3) marked_inbox_def by blast
  qed
qed

definition demo_email_delete :: http_request where
  "demo_email_delete = demo_request ''DELETE'' ''/email/all'' [(''Authorization'', ''Bearer secret'')] None"

definition demo_compat :: compat_config where
  "demo_compat = \<lparr> cc_principal = None, cc_origins = (\<lambda>a. []), cc_ready = None \<rparr>"

lemma compat_change_authorized_witness:
  "\<exists>(p :: principal). authenticate (\<lambda>s. s) (Some demo_verifier) \<lparr> rq_authorization = ''Bearer secret'', rq_remote = ''10.0.0.9:4711'',
     rq_allow_basic = basic_enabled demo_verifier \<rparr> = Inr p \<and> has_scope (pr_scopes p) ''mail.write''"
proof -
  have sp: "split_path ''/email/all'' = [''email'', ''all'']" by code_simp
  have h: "hq_header demo_email_delete ''Authorization'' = ''Bearer secret''" "hq_header demo_email_delete ''Origin'' = []"
    "hq_method demo_email_delete = ''DELETE''" "hq_path demo_email_delete = ''/email/all''" "hq_remote demo_email_delete = ''10.0.0.9:4711''"
    by (simp_all add: demo_email_delete_def demo_request_def param_def)
  have og: "check_origin u [] os = None" for u os by (simp add: check_origin_def trim_space_def trim_by_def trim_left_by_def trim_right_by_def)
  have au: "authorize_scopes [''mail.write''] [''mail.write''] = None" by code_simp
  have "compat_route demo_compat_env demo_compat demo_email_delete i ac [''email'', ''all''] demo_rest =
      compat_clear demo_compat_env i ac demo_rest" for i ac
    by (simp add: compat_route_def is_relay_path_def compat_dispatch_def require_method_def h)
  then have "sv_app (snd (serve_compat demo_compat_env demo_compat demo_email_delete demo_rest)) =
      snd (clear_messages demo_env (compat_actor_of demo_principal) None demo_app)"
    using demo_auth au
    by (simp add: serve_compat_def Let_def h sp og demo_compat_def compat_authenticate_def compat_authorize_def
        write_method_def compat_actor_of_def actor_of_def demo_principal_def compat_clear_def case_prod_beta)
  then have "sv_app (snd (serve_compat demo_compat_env demo_compat demo_email_delete demo_rest)) \<noteq> sv_app demo_rest"
    using clear_changes[of demo_app _ demo_env] by (simp add: demo_app_def new_app_def Let_def)
  then show ?thesis
    using compat_change_authorized[of demo_rest demo_verifier demo_compat demo_compat_env demo_email_delete]
    by (simp add: demo_compat_def h)
qed

end
