(* ===== verification/Mcp_Server.thy ===== *)
theory Mcp_Server
  imports Rest_Handlers
begin

text \<open>
  \<^verbatim>\<open>internal/control/mcp\<close>: the same service for agents, over the Model Context Protocol.

  The official SDK decodes the JSON-RPC of an admitted request, checks a tool's input against its schema and
  calls back; it is an argument, \<open>me_sdk\<close>, which gives the callback a request leads to with its decoded
  input.  Of the environment, what REST uses too is taken from there.  Results are the values their JSON is
  made from.
\<close>

section \<open>The server\<close>

record mcp_config =
  mc_max_body :: int
  mc_max_concurrent :: int
  mc_origins :: "app \<Rightarrow> bytes list"
  mc_legacy :: bool

record mcp_server =
  mv_app :: app
  mv_auth :: "verifier option"
  mv_key :: bytes
  mv_inflight :: nat
  mv_closed :: bool
  mv_secret :: bytes
  mv_fixed :: "actor option"

text \<open>The inputs of the tools, in one record: a tool reads the members its struct has.\<close>

record tool_in =
  ti_id :: bytes
  ti_att_id :: bytes
  ti_format :: bytes
  ti_expected :: bytes
  ti_key :: bytes
  ti_reason :: bytes
  ti_force :: bool
  ti_operations :: bytes
  ti_state :: bytes
  ti_generation :: "nat option"
  ti_filter :: message_filter
  ti_after :: bytes
  ti_before :: bytes
  ti_cursor :: bytes
  ti_limit :: int
  ti_mark_read :: bool
  ti_timeout :: bytes

datatype sdk_call = ToolCall bytes tool_in | ResourceRead bytes | ResourceSubscribe bytes | SdkOther

text \<open>
  \<open>me_json\<close> decodes the first JSON value of a text and says whether the text ends there, or gives the error;
  \<open>me_operations\<close> decodes a tree into operations; \<open>me_meta\<close> is the protocol version a body's \<^verbatim>\<open>_meta\<close> names;
  \<open>me_deadline\<close> says whether a context that is done ran out of time.
\<close>

record mcp_env =
  me_rest :: rest_env
  me_sdk :: "http_request \<Rightarrow> sdk_call"
  me_json :: "bytes \<Rightarrow> bytes + json \<times> bool"
  me_operations :: "json \<Rightarrow> bytes + operation list"
  me_meta :: "bytes \<Rightarrow> bytes"
  me_deadline :: bool

abbreviation me_app :: "mcp_env \<Rightarrow> app_env" where
  "me_app e \<equiv> re_app (me_rest e)"

datatype mcp_result =
    ToolOk payload
  | ToolError rpc_error
  | ResourceText bytes payload
  | RpcFail rpc_error
  | Subscribed
  | SdkAnswer

definition as_domain_error :: "go_error \<Rightarrow> go_error" where
  "as_domain_error er = rest_error er"

definition tool_error :: "go_error \<Rightarrow> mcp_result" where
  "tool_error er = ToolError (jsonrpc_from (Some (as_domain_error er)))"

definition rpc_error_of :: "go_error \<Rightarrow> mcp_result" where
  "rpc_error_of er = RpcFail (jsonrpc_from (Some (as_domain_error er)))"

section \<open>Who is calling\<close>

definition mcp_actor_of :: "principal \<Rightarrow> actor" where
  "mcp_actor_of p = actor_of p ''mcp''"

definition bearer_only :: domain_error where
  "bearer_only = new_error Unauthenticated ''MCP accepts bearer tokens only''"

definition anonymous :: actor where
  "anonymous = \<lparr> ac_id = ''anonymous'', ac_class = ''administrator'', ac_role = [], ac_scopes = [], ac_transport = ''mcp'' \<rparr>"

definition stub_mcp_actor :: "http_request \<Rightarrow> domain_error + actor" where
  "stub_mcp_actor rq = (let h = trim_space (hq_header rq ''Authorization''); lower = to_lower h in
     if h = [] then Inr anonymous
     else if has_prefix ''basic '' lower then Inl bearer_only
     else if has_prefix ''bearer '' lower then Inr (anonymous \<lparr> ac_id := ''bearer'' \<rparr>)
     else Inl bearer_only)"

definition mcp_authenticate :: "mcp_env \<Rightarrow> http_request \<Rightarrow> mcp_server \<Rightarrow> domain_error + actor" where
  "mcp_authenticate e rq mv = (case mv_auth mv of
       None \<Rightarrow> stub_mcp_actor rq
     | Some v \<Rightarrow> (let h = trim_space (hq_header rq ''Authorization'') in
         if h \<noteq> [] \<and> has_prefix ''basic '' (to_lower h) then Inl bearer_only
         else case authenticate (re_digest (me_rest e)) (Some v)
             \<lparr> rq_authorization = h, rq_remote = hq_remote rq, rq_allow_basic = False \<rparr> of
           Inl er \<Rightarrow> Inl er | Inr p \<Rightarrow> Inr (mcp_actor_of p)))"

definition with_transport :: "actor \<Rightarrow> actor" where
  "with_transport ac = (if ac_transport ac = [] then ac \<lparr> ac_transport := ''mcp'' \<rparr> else ac)"

text \<open>The actor a call runs as: the one of its request, else the fixed one of a stdio server, else nobody in
  particular, with no scopes.\<close>

definition actor_from :: "actor option \<Rightarrow> mcp_server \<Rightarrow> actor" where
  "actor_from ctx mv = (let a = (case ctx of Some x \<Rightarrow> x
         | None \<Rightarrow> \<lparr> ac_id = [], ac_class = [], ac_role = [], ac_scopes = [], ac_transport = [] \<rparr>) in
     if ac_id a \<noteq> [] \<or> ac_class a \<noteq> [] then with_transport a
     else case mv_fixed mv of
         Some f \<Rightarrow> with_transport f
       | None \<Rightarrow> (let b = with_transport a in
           if ac_id b = [] then b \<lparr> ac_id := ''anonymous'', ac_class := ''administrator'' \<rparr> else b))"

definition authorize_resource :: "actor \<Rightarrow> bytes \<Rightarrow> mcp_server \<Rightarrow> domain_error option" where
  "authorize_resource ac uri mv =
     (if mv_auth mv = None then None
      else case (case lookup_resource uri of
            Some c \<Rightarrow> Some c
          | None \<Rightarrow> if has_prefix ''labmail://messages/'' uri then lookup_cap ''messages.get'' else None) of
          None \<Rightarrow> Some (new_error NotFound ''not found'')
        | Some c \<Rightarrow> authorize_scopes (ac_scopes ac) (cap_scopes c))"

definition authorize_tool :: "actor \<Rightarrow> bytes \<Rightarrow> mcp_server \<Rightarrow> domain_error option" where
  "authorize_tool ac name mv =
     (if mv_auth mv = None then None
      else case lookup_tool name of [] \<Rightarrow> None | c # cs \<Rightarrow> authorize_scopes (ac_scopes ac) (cap_scopes c))"

section \<open>Hooks of a change\<close>

definition refresh_stdio_actor :: "mcp_env \<Rightarrow> mcp_server \<Rightarrow> mcp_server" where
  "refresh_stdio_actor e mv =
     (if mv_auth mv = None then mv
      else if mv_secret mv \<noteq> [] then
        (case authenticate_bearer (re_digest (me_rest e)) (mv_auth mv) (mv_secret mv) of
           Inl er \<Rightarrow> mv \<lparr> mv_fixed := None \<rparr> | Inr p \<Rightarrow> mv \<lparr> mv_fixed := Some (mcp_actor_of p) \<rparr>)
      else mv \<lparr> mv_fixed := None \<rparr>)"

definition mcp_reload_auth :: "mcp_env \<Rightarrow> mcp_server \<Rightarrow> mcp_server" where
  "mcp_reload_auth e mv = (case mv_auth mv of
       None \<Rightarrow> mv
     | Some v \<Rightarrow> (case ns_active (ap_snaps (mv_app mv)) of
         None \<Rightarrow> mv
       | Some s \<Rightarrow> (case from_spec (ev_files (me_app e)) (re_digest (me_rest e)) (mg_auth (sp_management (sd_spec (sn_canonical s)))) of
           Inl er \<Rightarrow> mv
         | Inr nxt \<Rightarrow> (let (w, changed) = replace_verifier nxt v; mv1 = mv \<lparr> mv_auth := Some w \<rparr>
             in if changed then refresh_stdio_actor e mv1 else mv1))))"

definition mcp_rotate_cursors :: "mcp_env \<Rightarrow> mcp_server \<Rightarrow> mcp_server" where
  "mcp_rotate_cursors e mv = (case re_new_key (me_rest e) of None \<Rightarrow> mv | Some k \<Rightarrow> mv \<lparr> mv_key := k \<rparr>)"

section \<open>Inputs\<close>

definition mcp_encode_cursor :: "mcp_env \<Rightarrow> mcp_server \<Rightarrow> bytes \<Rightarrow> nat \<Rightarrow> bytes" where
  "mcp_encode_cursor e mv mid gen = encode_cursor (re_hmac (me_rest e)) (mv_key mv) mid gen"

definition mcp_decode_cursor :: "mcp_env \<Rightarrow> mcp_server \<Rightarrow> bytes \<Rightarrow> domain_error + bytes \<times> nat" where
  "mcp_decode_cursor e mv cur = decode_cursor (re_hmac (me_rest e)) (mv_key mv) cur"

definition trim_space_json :: "bytes \<Rightarrow> bytes" where
  "trim_space_json raw = trim_by (\<lambda>c. c = SP \<or> c = LF \<or> c = CR \<or> c = TAB) raw"

definition operations_error :: "bytes \<Rightarrow> go_error" where
  "operations_error m = domain_e (validation_failed ''invalid operations'' [violation ''operations'' ''invalid_value'' m])"

definition decode_operations :: "mcp_env \<Rightarrow> bytes \<Rightarrow> go_error + operation list" where
  "decode_operations e raw = (let t = trim_space_json raw in
     if t = [] \<or> t = ''null'' then Inr []
     else case me_json e t of
         Inl m \<Rightarrow> Inl (operations_error m)
       | Inr (tree, single) \<Rightarrow>
           if \<not> single then Inl (operations_error ''trailing JSON is not allowed'')
           else let (vs, tree1) = coerce_wire_change (lib_frac (ev_libs (me_app e))) tree in
             if vs \<noteq> [] then Inl (domain_e (validation_failed ''invalid operations'' vs))
             else case me_operations e tree1 of Inl m \<Rightarrow> Inl (operations_error m) | Inr ops \<Rightarrow> Inr ops)"

definition mcp_candidate_state :: "mcp_env \<Rightarrow> bytes \<Rightarrow> domain_error + state_doc option" where
  "mcp_candidate_state e raw0 = (let raw = trim_space_json raw0 in
     if raw = [] \<or> raw = ''null'' then Inr None
     else case decode_json (ev_libs (me_app e)) raw of Inl er \<Rightarrow> Inl er | Inr st \<Rightarrow> Inr (Some st))"

definition to_change :: "mcp_env \<Rightarrow> tool_in \<Rightarrow> go_error + change_set" where
  "to_change e x = (case decode_operations e (ti_operations x) of
       Inl er \<Rightarrow> Inl er
     | Inr ops \<Rightarrow> Inr \<lparr> cs_expected = ti_expected x, cs_key = ti_key x, cs_reason = ti_reason x, cs_force = ti_force x,
         cs_operations = ops \<rparr>)"

definition to_validate :: "mcp_env \<Rightarrow> tool_in \<Rightarrow> go_error + state_doc option \<times> operation list" where
  "to_validate e x = (case mcp_candidate_state e (ti_state x) of
       Inl er \<Rightarrow> Inl (domain_e er)
     | Inr st \<Rightarrow> (case decode_operations e (ti_operations x) of Inl er \<Rightarrow> Inl er | Inr ops \<Rightarrow> Inr (st, ops)))"

definition mcp_optional_time :: "mcp_env \<Rightarrow> bytes \<Rightarrow> bytes \<Rightarrow> go_error + int" where
  "mcp_optional_time e raw field = (if raw = [] then Inr 0
     else case re_time (me_rest e) raw of
         None \<Rightarrow> Inl (domain_e (validation_failed ''invalid timestamp'' [violation field ''invalid_value'' (field @ '' must be RFC3339'')]))
       | Some t \<Rightarrow> Inr t)"

definition times_into :: "mcp_env \<Rightarrow> bytes \<Rightarrow> bytes \<Rightarrow> tool_in \<Rightarrow> go_error + message_filter" where
  "times_into e after_field before_field x = (case mcp_optional_time e (ti_after x) after_field of
       Inl er \<Rightarrow> Inl er
     | Inr a \<Rightarrow> (case mcp_optional_time e (ti_before x) before_field of
         Inl er \<Rightarrow> Inl er | Inr b \<Rightarrow> Inr ((ti_filter x) \<lparr> f_after := a, f_before := b \<rparr>)))"

definition list_filter :: "mcp_env \<Rightarrow> tool_in \<Rightarrow> go_error + message_filter" where
  "list_filter e x = times_into e ''after'' ''before'' x"

definition to_wait :: "mcp_env \<Rightarrow> tool_in \<Rightarrow> go_error + message_filter \<times> int" where
  "to_wait e x = (case times_into e ''filter.after'' ''filter.before'' x of
       Inl er \<Rightarrow> Inl er
     | Inr f \<Rightarrow>
         if ti_timeout x = [] then Inr (f, 0)
         else (let bad = domain_e (validation_failed ''invalid timeout''
               [violation ''timeout'' ''invalid_value'' ''timeout must use Go duration syntax''])
             in case parse_duration (lib_frac (ev_libs (me_app e))) (ti_timeout x) of
                 None \<Rightarrow> Inl bad | Some d \<Rightarrow> if d < 0 then Inl bad else Inr (f, d)))"

definition id_required :: go_error where
  "id_required = domain_e (validation_failed ''id is required'' [violation ''id'' ''required'' ''id is required''])"

end
