(* ===== verification/Mcp_Tools.thy ===== *)
theory Mcp_Tools
  imports Mcp_Server
begin

text \<open>
  The tools (\<^verbatim>\<open>tools.go\<close>), the resources (\<^verbatim>\<open>resources.go\<close>) and the way of a request through the gates of the
  adapter (\<^verbatim>\<open>server.go\<close>, \<^verbatim>\<open>protocol.go\<close>, \<^verbatim>\<open>listen.go\<close>).
\<close>

type_synonym tool_run = "(go_error + payload) \<times> mcp_server"

section \<open>Answers of the service\<close>

definition tool_answer :: "go_error + 'a \<Rightarrow> ('a \<Rightarrow> payload) \<Rightarrow> mcp_server \<Rightarrow> tool_run" where
  "tool_answer r f mv = ((case r of Inl er \<Rightarrow> Inl er | Inr x \<Rightarrow> Inr (f x)), mv)"

abbreviation mv_with :: "mcp_server \<Rightarrow> app \<Rightarrow> mcp_server" where
  "mv_with mv a \<equiv> mv \<lparr> mv_app := a \<rparr>"

definition ok_json :: payload where
  "ok_json = JsonBody (JObj [(''ok'', JBool True)])"

text \<open>A count of zero is left out.\<close>

definition count_json :: "bytes \<Rightarrow> nat \<Rightarrow> payload" where
  "count_json k n = JsonBody (JObj (if n = 0 then [] else [(k, JInt (int n))]))"

definition status_dto :: "mcp_env \<Rightarrow> mcp_server \<Rightarrow> go_error + payload" where
  "status_dto e mv = (case app_status (me_app e) (re_health (me_rest e)) (re_stamp (me_rest e)) (mv_app mv) of
       Inl er \<Rightarrow> Inl er
     | Inr st \<Rightarrow> (case get_state (me_app e) (mv_app mv) of
         Inl er \<Rightarrow> Inl er
       | Inr v \<Rightarrow> Inr (StatusBody (su_ready st) st
           [(''smtp'', ls_smtp_address (sp_listeners (sd_spec (vw_canonical v)))),
            (''management'', ls_mgmt_address (sp_listeners (sd_spec (vw_canonical v))))])))"

definition mcp_list_messages :: "mcp_env \<Rightarrow> tool_in \<Rightarrow> mcp_server \<Rightarrow> go_error + payload" where
  "mcp_list_messages e x mv = (case list_filter e x of
       Inl er \<Rightarrow> Inl er
     | Inr f \<Rightarrow> (case (if ti_cursor x = [] then Inr ([], 0) else mcp_decode_cursor e mv (ti_cursor x)) of
         Inl er \<Rightarrow> Inl (domain_e er)
       | Inr (mid, gen) \<Rightarrow> (case list_messages (me_app e) (re_ulid (me_rest e))
             \<lparr> q_filter = f, q_cursor = mid, q_limit = ti_limit x \<rparr> (mv_app mv) of
           Inl er \<Rightarrow> Inl er
         | Inr res \<Rightarrow>
             if ti_cursor x \<noteq> [] \<and> gen \<noteq> lr_generation res then Inl stale_cursor
             else Inr (MessagesBody \<lparr>
               ml_revision = (case get_state (me_app e) (mv_app mv) of Inl er \<Rightarrow> [] | Inr v \<Rightarrow> vw_runtime v),
               ml_generation = lr_generation res, ml_items = lr_items res,
               ml_next = (if lr_next res = [] then None else Some (mcp_encode_cursor e mv (lr_next res) (lr_generation res))) \<rparr>))))"

section \<open>The tools\<close>

definition tool_schema :: "mcp_env \<Rightarrow> mcp_server \<Rightarrow> tool_run" where
  "tool_schema e mv = ((case re_schema (me_rest e) of
       None \<Rightarrow> Inl (internal ''schema unavailable'')
     | Some b \<Rightarrow> (case me_json e b of
         Inr (doc, True) \<Rightarrow> Inr (JsonBody doc) | _ \<Rightarrow> Inl (internal ''internal error''))), mv)"

definition tool_validate :: "mcp_env \<Rightarrow> tool_in \<Rightarrow> mcp_server \<Rightarrow> tool_run" where
  "tool_validate e x mv = (case to_validate e x of
       Inl er \<Rightarrow> (Inl (as_domain_error er), mv)
     | Inr (st, ops) \<Rightarrow> tool_answer (app_validate (me_app e) st ops (mv_app mv)) PlanBody mv)"

definition tool_plan :: "mcp_env \<Rightarrow> tool_in \<Rightarrow> mcp_server \<Rightarrow> tool_run" where
  "tool_plan e x mv = (case to_change e x of
       Inl er \<Rightarrow> (Inl (as_domain_error er), mv)
     | Inr c \<Rightarrow> (let (r, a) = app_plan (me_app e) c (mv_app mv) in tool_answer r PlanBody (mv_with mv a)))"

definition tool_apply :: "mcp_env \<Rightarrow> actor \<Rightarrow> tool_in \<Rightarrow> mcp_server \<Rightarrow> tool_run" where
  "tool_apply e ac x mv = (case to_change e x of
       Inl er \<Rightarrow> (Inl (as_domain_error er), mv)
     | Inr c \<Rightarrow> (case app_apply (me_app e) ac c (mv_app mv) of
         (Inl er, a) \<Rightarrow> (Inl er, mv_with mv a)
       | (Inr r, a) \<Rightarrow> (Inr (ApplyBody r), mcp_reload_auth e (mv_with mv a))))"

definition tool_export :: "mcp_env \<Rightarrow> tool_in \<Rightarrow> mcp_server \<Rightarrow> tool_run" where
  "tool_export e x mv = (let f = to_lower (ti_format x) in
     if f \<notin> {[], ''yaml'', ''yml'', ''json''}
     then (Inl (domain_e (validation_failed ''unknown export format''
       [violation ''format'' ''invalid_value'' ''format must be yaml or json''])), mv)
     else tool_answer (app_export (me_app e) (re_yaml (me_rest e)) (if f = ''json'' then ''json'' else ''yaml'') (mv_app mv)) ExportBody mv)"

definition tool_reset :: "mcp_env \<Rightarrow> actor \<Rightarrow> tool_in \<Rightarrow> mcp_server \<Rightarrow> tool_run" where
  "tool_reset e ac x mv = (case app_reset (me_app e) ac (ti_reason x) (mv_app mv) of
       (Inl er, a) \<Rightarrow> (Inl er, mv_with mv a)
     | (Inr r, a) \<Rightarrow> (Inr (ApplyBody r), mcp_reload_auth e (mcp_rotate_cursors e (mv_with mv a))))"

definition with_id :: "tool_in \<Rightarrow> (bytes \<Rightarrow> mcp_server \<Rightarrow> tool_run) \<Rightarrow> mcp_server \<Rightarrow> tool_run" where
  "with_id x f mv = (if ti_id x = [] then (Inl id_required, mv) else f (ti_id x) mv)"

definition tool_message :: "mcp_env \<Rightarrow> bool \<Rightarrow> (message \<Rightarrow> payload) \<Rightarrow> bytes \<Rightarrow> mcp_server \<Rightarrow> tool_run" where
  "tool_message e mark f mid mv = (let (r, a) = get_message (me_app e) mid mark (mv_app mv) in tool_answer r f (mv_with mv a))"

definition raw_body_json :: "message \<Rightarrow> payload" where
  "raw_body_json m = JsonBody (JObj [(''id'', JStr (to_valid (msg_id m))), (''contentType'', JStr ''message/rfc822''),
     (''body'', JStr (to_valid (msg_raw m)))])"

definition html_body_json :: "message \<Rightarrow> payload" where
  "html_body_json m = JsonBody (JObj [(''id'', JStr (to_valid (msg_id m))), (''html'', JStr (to_valid (msg_html m)))])"

definition tool_delete :: "mcp_env \<Rightarrow> actor \<Rightarrow> nat option \<Rightarrow> bytes \<Rightarrow> mcp_server \<Rightarrow> tool_run" where
  "tool_delete e ac expected mid mv = (case delete_message (me_app e) ac mid expected (mv_app mv) of
       (Some er, a) \<Rightarrow> (Inl er, mv_with mv a) | (None, a) \<Rightarrow> (Inr ok_json, mv_with mv a))"

definition tool_clear :: "mcp_env \<Rightarrow> actor \<Rightarrow> tool_in \<Rightarrow> mcp_server \<Rightarrow> tool_run" where
  "tool_clear e ac x mv = (let (r, a) = clear_messages (me_app e) ac (ti_generation x) (mv_app mv) in
     tool_answer r (count_json ''deleted'') (mv_with mv a))"

definition tool_read_all :: "mcp_env \<Rightarrow> mcp_server \<Rightarrow> tool_run" where
  "tool_read_all e mv = (let (r, a) = app_mark_all_read (me_app e) (mv_app mv) in
     tool_answer r (count_json ''updated'') (mv_with mv a))"

definition tool_read :: "mcp_env \<Rightarrow> bytes \<Rightarrow> mcp_server \<Rightarrow> tool_run" where
  "tool_read e mid mv = (case app_mark_read (me_app e) mid (mv_app mv) of
       (Some er, a) \<Rightarrow> (Inl er, mv_with mv a) | (None, a) \<Rightarrow> (Inr ok_json, mv_with mv a))"

definition tool_wait :: "mcp_env \<Rightarrow> tool_in \<Rightarrow> mcp_server \<Rightarrow> tool_run" where
  "tool_wait e x mv = (case to_wait e x of
       Inl er \<Rightarrow> (Inl er, mv)
     | Inr (f, t) \<Rightarrow> (case app_wait (me_app e) (re_cancelled (me_rest e)) t (re_remain (me_rest e)) f (re_observe (me_rest e)) (mv_app mv) of
         None \<Rightarrow> (Inr Waiting, mv) | Some r \<Rightarrow> tool_answer r MessageBody mv))"

definition tool_extract :: "mcp_env \<Rightarrow> bytes \<Rightarrow> mcp_server \<Rightarrow> tool_run" where
  "tool_extract e mid mv = (let (r, a) = app_extract (me_app e) (re_patterns (me_rest e)) mid (mv_app mv) in
     tool_answer r (\<lambda>(urls, toks). ExtractBody urls toks) (mv_with mv a))"

definition omit_empty :: "bytes \<Rightarrow> bytes \<Rightarrow> (bytes \<times> json) list" where
  "omit_empty k v = (if v = [] then [] else [(k, JStr (to_valid v))])"

definition attachment_json :: "attachment \<Rightarrow> payload" where
  "attachment_json a = JsonBody (JObj ([(''id'', JStr (to_valid (at_id a))),
     (''filename'', JStr (to_valid (if at_filename a = [] then path_base (at_id a) else at_filename a))),
     (''contentType'', JStr (to_valid (if at_content_type a = [] then ''application/octet-stream'' else at_content_type a)))] @
     omit_empty ''contentId'' (at_content_id a) @ omit_empty ''disposition'' (at_disposition a) @
     [(''size'', JInt (at_size a)), (''checksum'', JStr (to_valid (at_checksum a))), (''data'', JStr (b64std_encode (at_data a)))]))"

definition tool_attachment :: "mcp_env \<Rightarrow> tool_in \<Rightarrow> mcp_server \<Rightarrow> tool_run" where
  "tool_attachment e x mv =
     (if ti_id x = [] \<or> ti_att_id x = []
      then (Inl (domain_e (validation_failed ''id and attId are required'' [violation ''attId'' ''required'' ''id and attId are required''])), mv)
      else case get_message (me_app e) (ti_id x) False (mv_app mv) of
          (Inl er, a) \<Rightarrow> (Inl er, mv_with mv a)
        | (Inr m, a) \<Rightarrow> (case find (\<lambda>y. at_id y = ti_att_id x) (msg_attachments m) of
            None \<Rightarrow> (Inl (domain_e (new_error NotFound ''attachment not found'')), mv_with mv a)
          | Some att \<Rightarrow> (Inr (attachment_json att), mv_with mv a)))"

section \<open>Registration\<close>

text \<open>The annotations a tool is registered with: its name, whether it changes state and whether it is idempotent.\<close>

definition registered_tools :: "(bytes \<times> bool \<times> bool) list" where
  "registered_tools = [
     (''mail_version_get'', False, True), (''mail_capabilities_get'', False, True), (''mail_status_get'', False, True),
     (''mail_schema_get'', False, True), (''mail_state_get'', False, True), (''mail_state_validate'', False, True),
     (''mail_change_plan'', False, True), (''mail_change_apply'', True, True), (''mail_state_export'', False, True),
     (''mail_state_reset'', True, False), (''mail_messages_list'', False, True), (''mail_message_get'', False, True),
     (''mail_message_raw_get'', False, True), (''mail_message_html_get'', False, True), (''mail_message_delete'', True, True),
     (''mail_messages_clear'', True, True), (''mail_messages_read_all'', True, True), (''mail_message_read'', True, True),
     (''mail_messages_wait'', False, True), (''mail_message_extract'', False, True), (''mail_attachment_get'', False, True),
     (''mail_audit_query'', False, True), (''mail_audit_get'', False, True)]"

definition run_tool :: "mcp_env \<Rightarrow> actor \<Rightarrow> bytes \<Rightarrow> tool_in \<Rightarrow> mcp_server \<Rightarrow> tool_run" where
  "run_tool e ac name x mv =
     (if name = ''mail_version_get'' then (Inr VersionBody, mv)
      else if name = ''mail_capabilities_get'' then (Inr (CapabilitiesBody discovery_list), mv)
      else if name = ''mail_status_get'' then (status_dto e mv, mv)
      else if name = ''mail_schema_get'' then tool_schema e mv
      else if name = ''mail_state_get'' then tool_answer (get_state (me_app e) (mv_app mv)) StateBody mv
      else if name = ''mail_state_validate'' then tool_validate e x mv
      else if name = ''mail_change_plan'' then tool_plan e x mv
      else if name = ''mail_change_apply'' then tool_apply e ac x mv
      else if name = ''mail_state_export'' then tool_export e x mv
      else if name = ''mail_state_reset'' then tool_reset e ac x mv
      else if name = ''mail_messages_list'' then (mcp_list_messages e x mv, mv)
      else if name = ''mail_message_get'' then with_id x (tool_message e (ti_mark_read x) MessageBody) mv
      else if name = ''mail_message_raw_get'' then with_id x (tool_message e False raw_body_json) mv
      else if name = ''mail_message_html_get'' then with_id x (tool_message e False html_body_json) mv
      else if name = ''mail_message_delete'' then with_id x (tool_delete e ac (ti_generation x)) mv
      else if name = ''mail_messages_clear'' then tool_clear e ac x mv
      else if name = ''mail_messages_read_all'' then tool_read_all e mv
      else if name = ''mail_message_read'' then with_id x (tool_read e) mv
      else if name = ''mail_messages_wait'' then tool_wait e x mv
      else if name = ''mail_message_extract'' then with_id x (tool_extract e) mv
      else if name = ''mail_attachment_get'' then tool_attachment e x mv
      else if name = ''mail_audit_query'' then tool_answer (query_audit (me_app e) (ti_limit x) (mv_app mv)) AuditBody mv
      else if name = ''mail_audit_get'' then
        with_id x (\<lambda>i s. tool_answer (get_audit (me_app e) i (mv_app s)) AuditEventBody s) mv
      else (Inl (internal ''unknown tool''), mv))"

definition canceled_error :: "bool \<Rightarrow> go_error" where
  "canceled_error deadline = (if deadline then domain_e (new_error Timeout ''request deadline exceeded'')
     else internal ''request canceled'')"

text \<open>The wrapper every tool is registered in.  The SDK answers a name that is not registered itself.\<close>

definition call_tool :: "mcp_env \<Rightarrow> actor option \<Rightarrow> bytes \<Rightarrow> tool_in \<Rightarrow> mcp_server \<Rightarrow> mcp_result \<times> mcp_server" where
  "call_tool e ctx name x mv =
     (if name \<notin> fst ` set registered_tools then (SdkAnswer, mv)
      else if ev_ctx (me_app e) \<noteq> None then (tool_error (canceled_error (me_deadline e)), mv)
      else let ac = actor_from ctx mv in
        case authorize_tool ac name mv of
          Some er \<Rightarrow> (tool_error (domain_e er), mv)
        | None \<Rightarrow> (case run_tool e ac name x mv of
            (Inl er, mv1) \<Rightarrow> (tool_error er, mv1) | (Inr p, mv1) \<Rightarrow> (ToolOk p, mv1)))"

section \<open>Resources\<close>

definition empty_input :: tool_in where
  "empty_input = \<lparr> ti_id = [], ti_att_id = [], ti_format = [], ti_expected = [], ti_key = [], ti_reason = [], ti_force = False,
     ti_operations = [], ti_state = [], ti_generation = None, ti_filter = empty_filter, ti_after = [], ti_before = [], ti_cursor = [],
     ti_limit = 0, ti_mark_read = False, ti_timeout = [] \<rparr>"

definition sum_map :: "('a \<Rightarrow> 'b) \<Rightarrow> 'e + 'a \<Rightarrow> 'e + 'b" where
  "sum_map f r = (case r of Inl er \<Rightarrow> Inl er | Inr x \<Rightarrow> Inr (f x))"

definition resource_body :: "mcp_env \<Rightarrow> bytes \<Rightarrow> mcp_server \<Rightarrow> (go_error + bytes \<times> payload) \<times> mcp_server" where
  "resource_body e uri mv = (let js = Pair ''application/json'' in
     if uri = ''labmail://capabilities'' then (Inr (js (CapabilitiesBody discovery_list)), mv)
     else if uri = ''labmail://status'' then (sum_map js (status_dto e mv), mv)
     else if uri = ''labmail://schema/config'' then
       ((case re_schema (me_rest e) of None \<Rightarrow> Inl (PlainE ''schema unavailable'') | Some b \<Rightarrow> Inr (''application/schema+json'', RawBody b)), mv)
     else if uri = ''labmail://state'' then (sum_map (\<lambda>v. js (StateBody v)) (get_state (me_app e) (mv_app mv)), mv)
     else if uri = ''labmail://messages'' then (sum_map js (mcp_list_messages e empty_input mv), mv)
     else if has_prefix ''labmail://messages/'' uri then
       (let i = trim_prefix ''labmail://messages/'' uri in
        if i = [] \<or> CHR ''/'' \<in> set i then (Inl (domain_e (new_error NotFound ''resource not found'')), mv)
        else (let (r, a) = get_message (me_app e) i False (mv_app mv) in (sum_map (\<lambda>m. js (MessageBody m)) r, mv_with mv a)))
     else if uri = ''labmail://audit/recent'' then (sum_map (\<lambda>evs. js (AuditBody evs)) (query_audit (me_app e) 0 (mv_app mv)), mv)
     else (Inl (domain_e (new_error NotFound ''resource not found'')), mv))"

definition read_resource :: "mcp_env \<Rightarrow> actor option \<Rightarrow> bytes \<Rightarrow> mcp_server \<Rightarrow> mcp_result \<times> mcp_server" where
  "read_resource e ctx uri mv =
     (if ev_ctx (me_app e) \<noteq> None then (rpc_error_of (internal ''request canceled''), mv)
      else case authorize_resource (actor_from ctx mv) uri mv of
          Some er \<Rightarrow> (rpc_error_of (domain_e er), mv)
        | None \<Rightarrow> (case resource_body e uri mv of
            (Inl er, mv1) \<Rightarrow> (rpc_error_of er, mv1) | (Inr (mime, p), mv1) \<Rightarrow> (ResourceText mime p, mv1)))"

definition on_subscribe :: "mcp_env \<Rightarrow> actor option \<Rightarrow> bytes \<Rightarrow> mcp_server \<Rightarrow> mcp_result" where
  "on_subscribe e ctx uri mv = (case authorize_resource (actor_from ctx mv) uri mv of
       Some er \<Rightarrow> rpc_error_of (domain_e er) | None \<Rightarrow> Subscribed)"

definition serve_call :: "mcp_env \<Rightarrow> actor option \<Rightarrow> sdk_call \<Rightarrow> mcp_server \<Rightarrow> mcp_result \<times> mcp_server" where
  "serve_call e ctx c mv = (case c of
       ToolCall name x \<Rightarrow> call_tool e ctx name x mv
     | ResourceRead uri \<Rightarrow> read_resource e ctx uri mv
     | ResourceSubscribe uri \<Rightarrow> (on_subscribe e ctx uri mv, mv)
     | SdkOther \<Rightarrow> (SdkAnswer, mv))"

section \<open>The way of a request\<close>

definition protocol_version :: bytes where
  "protocol_version = ''2026-07-28''"

definition validate_protocol_version :: "http_request \<Rightarrow> domain_error option" where
  "validate_protocol_version rq = (let ver = trim_space (hq_header rq ''Mcp-Protocol-Version'') in
     if ver = [] then Some (validation_failed (''MCP-Protocol-Version is required; only '' @ protocol_version @ '' is supported'')
       [violation ''MCP-Protocol-Version'' ''required'' (''only '' @ protocol_version @ '' is supported'')])
     else if ver \<noteq> protocol_version
     then Some (validation_failed (''unsupported MCP protocol version '' @ ver @ ''; only '' @ protocol_version @ '' is supported'')
       [violation ''MCP-Protocol-Version'' ''invalid_value'' (''only '' @ protocol_version @ '' is supported'')])
     else None)"

text \<open>\<^verbatim>\<open>subscriptions/listen\<close> keeps the pin even for legacy clients; a pin in the body is promoted to the header.\<close>

definition enforce_listen_pin :: "mcp_env \<Rightarrow> mcp_config \<Rightarrow> http_request \<Rightarrow> domain_error + http_request" where
  "enforce_listen_pin e cfg rq = (let hv = trim_space (hq_header rq ''Mcp-Protocol-Version'') in
     if hv = protocol_version then Inr rq
     else case hq_body_fault rq of
         Some b \<Rightarrow> Inl (validation_failed ''parse error'' [])
       | None \<Rightarrow>
           if int (length (hq_body rq)) > mc_max_body cfg then Inl (validation_failed ''request body too large'' [])
           else let meta = trim_space (me_meta e (hq_body rq)) in
             if meta \<noteq> protocol_version
             then Inl (validation_failed (''subscriptions/listen requires protocol '' @ protocol_version) [])
             else if hv = [] then Inr (rq \<lparr> hq_header := (hq_header rq)(''Mcp-Protocol-Version'' := protocol_version) \<rparr>)
             else Inr rq)"

datatype mcp_reply = RpcReply int rpc_error | SdkReply mcp_result

definition write_rpc :: "int \<Rightarrow> go_error \<Rightarrow> mcp_reply" where
  "write_rpc code er = RpcReply code (jsonrpc_from (Some (as_domain_error er)))"

definition mcp_admitted :: "mcp_env \<Rightarrow> mcp_config \<Rightarrow> http_request \<Rightarrow> mcp_server \<Rightarrow> mcp_reply \<times> mcp_server" where
  "mcp_admitted e cfg rq mv =
     (if \<not> re_rate (me_rest e) (hq_remote rq) then (write_rpc 429 too_many, mv)
      else case (if mc_legacy cfg then None else validate_protocol_version rq) of
          Some er \<Rightarrow> (write_rpc 400 (domain_e er), mv)
        | None \<Rightarrow> (case mcp_authenticate e rq mv of
            Inl er \<Rightarrow> (write_rpc (if err_code er = Forbidden then 403 else 401) (domain_e er), mv)
          | Inr ac \<Rightarrow> (case (if trim_space (hq_header rq ''Mcp-Method'') = ''subscriptions/listen''
                then enforce_listen_pin e cfg rq else Inr rq) of
              Inl er \<Rightarrow> (write_rpc 400 (domain_e er), mv)
            | Inr rq1 \<Rightarrow> (let (r, mv1) = serve_call e (Some ac) (me_sdk e rq1) mv in (SdkReply r, mv1)))))"

definition serve_mcp :: "mcp_env \<Rightarrow> mcp_config \<Rightarrow> http_request \<Rightarrow> mcp_server \<Rightarrow> mcp_reply \<times> mcp_server" where
  "serve_mcp e cfg rq mv =
     (if mv_closed mv then (write_rpc 503 (internal ''server closed''), mv)
      else case check_origin (ev_url (me_app e)) (hq_header rq ''Origin'') (mc_origins cfg (mv_app mv)) of
          Some er \<Rightarrow> (write_rpc 403 (domain_e er), mv)
        | None \<Rightarrow>
            if hq_method rq \<noteq> ''POST'' then (write_rpc 405 (domain_e (new_error MethodNotAllowed ''method not allowed'')), mv)
            else if int (mv_inflight mv) \<ge> mc_max_concurrent cfg
            then (write_rpc 429 (domain_e (new_error RateLimited ''too many concurrent management requests'')), mv)
            else let (r, s) = mcp_admitted e cfg rq (mv \<lparr> mv_inflight := mv_inflight mv + 1 \<rparr>)
              in (r, s \<lparr> mv_inflight := mv_inflight s - 1 \<rparr>))"

end
