(* ===== verification/Mcp_Props.thy ===== *)
theory Mcp_Props
  imports Mcp_Tools Rest_Props
begin

text \<open>
  What the agent interface promises: its tools are the ones of the capability registry, a call changes the
  service only for a caller that holds the tool's scopes, and a stdio server has no other caller than the
  principal its secret authenticates as.
\<close>

section \<open>The tools and the registry\<close>

definition mutating_tools :: "bytes list" where
  "mutating_tools = [''mail_change_plan'', ''mail_change_apply'', ''mail_state_reset'', ''mail_message_delete'', ''mail_messages_clear'',
     ''mail_messages_read_all'', ''mail_message_read'']"

definition cap_tools :: "capability \<Rightarrow> bytes list" where
  "cap_tools c = (case cap_mcp c of None \<Rightarrow> [] | Some mb \<Rightarrow> mb_tools mb)"

definition tools_in :: "capability list \<Rightarrow> bytes \<Rightarrow> capability list" where
  "tools_in cs t = concat (map (\<lambda>c. map (\<lambda>_. c) (filter ((=) t) (cap_tools c))) cs)"

definition indexed :: "(bytes \<times> capability list) list \<Rightarrow> bytes \<Rightarrow> capability list" where
  "indexed m t = (case lookup m t of None \<Rightarrow> [] | Some cs \<Rightarrow> cs)"

lemma index_tool_fold: "indexed (fold (index_tool c) ts m) t = indexed m t @ map (\<lambda>_. c) (filter ((=) t) ts)"
proof (induction ts arbitrary: m)
  case (Cons u ts)
  have "indexed (index_tool c u m) t = indexed m t @ (if t = u then [c] else [])"
    by (simp add: indexed_def index_tool_def split: option.splits)
  then show ?case by (simp add: Cons.IH)
qed simp

lemma index_all_tools: "index_all cs ix = Inr ix' \<Longrightarrow> indexed (ix_by_tool ix') t = indexed (ix_by_tool ix) t @ tools_in cs t"
proof (induction cs arbitrary: ix)
  case (Cons c cs)
  obtain ix1 where "index_all cs ix1 = Inr ix'" "ix_by_tool ix1 = fold (index_tool c) (cap_tools c) (ix_by_tool ix)"
    using Cons.prems by (auto simp: Let_def cap_tools_def split: if_splits sum.splits option.splits)
  then show ?case using Cons.IH[of ix1] by (simp add: index_tool_fold tools_in_def)
qed (simp add: tools_in_def)

lemma registry_index: "index_all catalog \<lparr> ix_all = catalog, ix_by_id = [], ix_by_rest = [], ix_by_tool = [], ix_by_res = [] \<rparr> = Inr registry"
  using catalog_indexed by (auto simp: registry_def new_indexes_def)

lemma lookup_tool_catalog: "lookup_tool t = tools_in catalog t"
  using index_all_tools[OF registry_index] by (simp add: lookup_tool_def indexed_def)

lemma tool_names_catalog: "tool_names = first_seen (concat (map cap_tools catalog))"
  using index_all_sound[OF registry_index] by (simp add: tool_names_def cap_tools_def[abs_def])

text \<open>One pass over the table: every registered tool against the one capability that binds it.\<close>

lemma tools_checked:
  "list_all (\<lambda>(name, mut, idem). case tools_in catalog name of
     [c] \<Rightarrow> cap_mutating c = mut \<and> cap_idempotent c = idem \<and> cap_scopes c \<noteq> [] \<and> [] \<notin> set (cap_scopes c) \<and>
       (name \<in> set mutating_tools \<longrightarrow> cap_scopes c \<in> {[''mail.write''], [''mail.admin'']})
   | _ \<Rightarrow> False) registered_tools"
  by code_simp

lemma tool_bound:
  assumes "(name, mut, idem) \<in> set registered_tools"
  shows "\<exists>c. lookup_tool name = [c] \<and> cap_mutating c = mut \<and> cap_idempotent c = idem \<and> cap_scopes c \<noteq> [] \<and> [] \<notin> set (cap_scopes c) \<and>
    (name \<in> set mutating_tools \<longrightarrow> cap_scopes c \<in> {[''mail.write''], [''mail.admin'']})"
proof -
  have "case tools_in catalog name of
     [c] \<Rightarrow> cap_mutating c = mut \<and> cap_idempotent c = idem \<and> cap_scopes c \<noteq> [] \<and> [] \<notin> set (cap_scopes c) \<and>
       (name \<in> set mutating_tools \<longrightarrow> cap_scopes c \<in> {[''mail.write''], [''mail.admin'']})
   | _ \<Rightarrow> False" using tools_checked assms by (fastforce simp: list_all_iff)
  then show ?thesis by (simp add: lookup_tool_catalog split: list.splits)
qed

lemma tools_named: "distinct (map fst registered_tools)" "set (map fst registered_tools) = set (concat (map cap_tools catalog))"
  by code_simp+

text \<open>C40.  The tools the server registers are the tools of the capability registry: the same names, each
  once, each bound to exactly one capability, and with the annotations - whether the tool changes state and
  whether it is idempotent - that the capability has.  So the scopes a call is checked against always
  exist, and are the ones the REST binding of the same capability asks for.\<close>

theorem mcp_surface:
  "distinct (map fst registered_tools) \<and> set (map fst registered_tools) = set tool_names \<and>
   list_all (\<lambda>(name, mut, idem). length (lookup_tool name) = 1 \<and>
     list_all (\<lambda>c. cap_mutating c = mut \<and> cap_idempotent c = idem \<and> cap_scopes c \<noteq> []) (lookup_tool name)) registered_tools"
proof -
  have "set tool_names = set (concat (map cap_tools catalog))" by (simp add: tool_names_catalog first_seen_def)
  moreover have "length (lookup_tool name) = 1 \<and>
      list_all (\<lambda>c. cap_mutating c = mut \<and> cap_idempotent c = idem \<and> cap_scopes c \<noteq> []) (lookup_tool name)"
    if "(name, mut, idem) \<in> set registered_tools" for name mut idem using tool_bound[OF that] by auto
  ultimately show ?thesis using tools_named by (auto simp: list_all_iff)
qed

section \<open>Who may change the service\<close>

lemma tool_answer_state [simp]: "snd (tool_answer r f mv) = mv"
  by (simp add: tool_answer_def)

lemma with_id_app: "(\<And>i. mv_app (snd (f i mv)) = mv_app mv) \<Longrightarrow> mv_app (snd (with_id x f mv)) = mv_app mv"
  by (simp add: with_id_def)

lemma reading_tools:
  "mv_app (snd (tool_schema e mv)) = mv_app mv" "mv_app (snd (tool_validate e x mv)) = mv_app mv"
  "mv_app (snd (tool_export e x mv)) = mv_app mv" "mv_app (snd (tool_wait e x mv)) = mv_app mv"
  by (simp_all add: tool_schema_def tool_validate_def tool_export_def tool_wait_def Let_def split: sum.splits option.splits prod.splits)

lemma message_tools:
  assumes "ev_other (me_app e) = (\<lambda>m. m)"
  shows "mv_app (snd (tool_message e False f mid mv)) = mv_app mv" "mv_app (snd (tool_extract e mid mv)) = mv_app mv"
    "mv_app (snd (tool_attachment e x mv)) = mv_app mv"
  using get_message_pure[OF assms, of _ "mv_app mv"]
  by (auto simp: tool_message_def tool_extract_def tool_attachment_def app_extract_def case_prod_beta split: sum.splits option.splits)

lemma run_tool_reads:
  assumes "ev_other (me_app e) = (\<lambda>m. m)" "name \<notin> set mutating_tools" "name = ''mail_message_get'' \<Longrightarrow> \<not> ti_mark_read x"
  shows "mv_app (snd (run_tool e ac name x mv)) = mv_app mv"
  using assms(2,3)
  by (simp add: run_tool_def mutating_tools_def reading_tools message_tools[OF assms(1)] with_id_app)

lemma resource_reads:
  assumes "ev_other (me_app e) = (\<lambda>m. m)"
  shows "mv_app (snd (read_resource e ctx uri mv)) = mv_app mv"
proof -
  have "mv_app (snd (resource_body e uri mv)) = mv_app mv"
    using get_message_pure[OF assms, of _ "mv_app mv"] by (simp add: resource_body_def Let_def case_prod_beta)
  then show ?thesis by (auto simp: read_resource_def split: option.splits sum.splits prod.splits)
qed

text \<open>The capability of a tool that changes the service asks for \<^verbatim>\<open>mail.write\<close> or \<^verbatim>\<open>mail.admin\<close>.\<close>

lemma tool_scoped:
  assumes "name \<in> fst ` set registered_tools"
  shows "\<exists>c. lookup_tool name = [c] \<and> (name \<in> set mutating_tools \<longrightarrow> list_all (has_scope s) (cap_scopes c) \<longrightarrow> has_scope s ''mail.write'') \<and>
    \<not> list_all (has_scope []) (cap_scopes c)"
proof -
  obtain m i where "(name, m, i) \<in> set registered_tools" using assms by auto
  from tool_bound[OF this] show ?thesis using admin_writes by (auto simp: has_scope_def list_ex_iff neq_Nil_conv)
qed

lemma call_tool_change:
  assumes auth: "mv_auth mv \<noteq> None" and quiet: "ev_other (me_app e) = (\<lambda>m. m)"
    and changed: "mv_app (snd (call_tool e ctx name x mv)) \<noteq> mv_app mv"
  shows "\<exists>c. lookup_tool name = [c] \<and> list_all (has_scope (ac_scopes (actor_from ctx mv))) (cap_scopes c) \<and>
    (has_scope (ac_scopes (actor_from ctx mv)) ''mail.write'' \<or> name = ''mail_message_get'' \<and> ti_mark_read x) \<and>
    ac_scopes (actor_from ctx mv) \<noteq> []"
proof -
  let ?ac = "actor_from ctx mv"
  have reg: "name \<in> fst ` set registered_tools" 
  proof (rule ccontr)
    assume "name \<notin> fst ` set registered_tools"
    then show False using changed by (simp add: call_tool_def)
  qed
  have ok: "authorize_tool ?ac name mv = None" and run: "mv_app (snd (run_tool e ?ac name x mv)) \<noteq> mv_app mv"
    using changed by (auto simp: call_tool_def Let_def split: if_splits option.splits sum.splits prod.splits)
  obtain c where c: "lookup_tool name = [c]"
      "name \<in> set mutating_tools \<longrightarrow> list_all (has_scope (ac_scopes ?ac)) (cap_scopes c) \<longrightarrow> has_scope (ac_scopes ?ac) ''mail.write''"
      "\<not> list_all (has_scope []) (cap_scopes c)"
    using tool_scoped[OF reg] by blast
  moreover have "list_all (has_scope (ac_scopes ?ac)) (cap_scopes c)"
    using ok auth c(1) by (simp add: authorize_tool_def authorize_scopes_None)
  ultimately show ?thesis using run run_tool_reads[OF quiet, of name x ?ac mv] by metis
qed

lemma serve_call_change:
  assumes "mv_auth mv \<noteq> None" "ev_other (me_app e) = (\<lambda>m. m)" "mv_app (snd (serve_call e ctx call mv)) \<noteq> mv_app mv"
  shows "\<exists>name x c. call = ToolCall name x \<and> lookup_tool name = [c] \<and>
    list_all (has_scope (ac_scopes (actor_from ctx mv))) (cap_scopes c) \<and>
    (has_scope (ac_scopes (actor_from ctx mv)) ''mail.write'' \<or> name = ''mail_message_get'' \<and> ti_mark_read x) \<and> ac_scopes (actor_from ctx mv) \<noteq> []"
  using assms call_tool_change[OF assms(1,2)] resource_reads[OF assms(2)]
  by (cases call) (auto simp: serve_call_def)

text \<open>A principal always has a class, so a request's own actor is the one its calls run as.\<close>

lemma authenticate_class: "authenticate dg vo rq = Inr p \<Longrightarrow> pr_class p \<noteq> []"
  by (auto simp: authenticate_def lookup_bearer_def lookup_basic_def principal_of_def loopback_principal_def Let_def
      split: option.splits if_splits prod.splits nat.splits)

lemma actor_from_principal: "pr_class p \<noteq> [] \<Longrightarrow> ac_scopes (actor_from (Some (mcp_actor_of p)) mv) = pr_scopes p"
  by (simp add: actor_from_def with_transport_def mcp_actor_of_def actor_of_def)

lemma mcp_authenticate_principal:
  assumes "mv_auth mv = Some v" "mcp_authenticate e rq mv = Inr ac"
  shows "\<exists>p. ac = mcp_actor_of p \<and> authenticate (re_digest (me_rest e)) (Some v)
    \<lparr> rq_authorization = trim_space (hq_header rq ''Authorization''), rq_remote = hq_remote rq, rq_allow_basic = False \<rparr> = Inr p"
  using assms by (auto simp: mcp_authenticate_def Let_def split: if_splits sum.splits)

text \<open>C29.  Whatever a request does to the service through the agent interface - its configuration, its inbox,
  its replay cache or its audit log - it does as an authenticated principal.  If the service is not what it
  was, the request was a POST that named a registered tool; its Authorization header authenticates as a
  bearer token, or it has none and comes from the loopback in the unauthenticated mode, never as a basic
  user; and the principal has every scope of the tool's capability, and \<^verbatim>\<open>mail.write\<close> or \<^verbatim>\<open>mail.admin\<close>
  unless the call is a read of a message that asks to mark it read.\<close>

theorem mcp_change_authorized:
  assumes "mv_auth mv = Some v" "ev_other (me_app e) = (\<lambda>m. m)"
    and "mv_app (snd (serve_mcp e cfg rq mv)) \<noteq> mv_app mv"
  shows "\<exists>rq1 name x c p. me_sdk e rq1 = ToolCall name x \<and> lookup_tool name = [c] \<and> hq_method rq = ''POST'' \<and> hq_body rq1 = hq_body rq \<and>
    authenticate (re_digest (me_rest e)) (Some v) \<lparr> rq_authorization = trim_space (hq_header rq ''Authorization''),
      rq_remote = hq_remote rq, rq_allow_basic = False \<rparr> = Inr p \<and>
    list_all (has_scope (pr_scopes p)) (cap_scopes c) \<and>
    (has_scope (pr_scopes p) ''mail.write'' \<or> name = ''mail_message_get'' \<and> ti_mark_read x)"
proof -
  let ?mv = "mv \<lparr> mv_inflight := mv_inflight mv + 1 \<rparr>"
  have post: "hq_method rq = ''POST''" and "mv_app (snd (mcp_admitted e cfg rq ?mv)) \<noteq> mv_app ?mv"
    using assms(3) by (auto simp: serve_mcp_def Let_def split: if_splits option.splits prod.splits)
  then obtain ac rq1 where ac: "mcp_authenticate e rq ?mv = Inr ac"
      and rq1: "(if trim_space (hq_header rq ''Mcp-Method'') = ''subscriptions/listen'' then enforce_listen_pin e cfg rq else Inr rq) = Inr rq1"
      and run: "mv_app (snd (serve_call e (Some ac) (me_sdk e rq1) ?mv)) \<noteq> mv_app ?mv"
    by (fastforce simp: mcp_admitted_def Let_def split: if_splits option.splits sum.splits prod.splits)
  have body: "hq_body rq1 = hq_body rq"
    using rq1 by (auto simp: enforce_listen_pin_def Let_def split: if_splits option.splits)
  obtain p where p: "ac = mcp_actor_of p" "authenticate (re_digest (me_rest e)) (Some v)
      \<lparr> rq_authorization = trim_space (hq_header rq ''Authorization''), rq_remote = hq_remote rq, rq_allow_basic = False \<rparr> = Inr p"
    using mcp_authenticate_principal[OF _ ac] assms(1) by auto
  have "ac_scopes (actor_from (Some ac) ?mv) = pr_scopes p"
    using actor_from_principal[OF authenticate_class[OF p(2)]] p(1) by simp
  then show ?thesis using serve_call_change[OF _ assms(2) run] assms(1) post body p(2) by auto
qed

definition demo_mcp :: mcp_server where
  "demo_mcp = \<lparr> mv_app = demo_app, mv_auth = Some demo_verifier, mv_key = ''k'', mv_inflight = 0, mv_closed = False,
     mv_secret = ''secret'', mv_fixed = None \<rparr>"

definition demo_mcp_config :: mcp_config where
  "demo_mcp_config = \<lparr> mc_max_body = 1048576, mc_max_concurrent = 256, mc_origins = (\<lambda>a. []), mc_legacy = True \<rparr>"

definition demo_mcp_env :: mcp_env where
  "demo_mcp_env = \<lparr> me_rest = demo_rest_env, me_sdk = (\<lambda>rq. ToolCall ''mail_messages_clear'' empty_input), me_json = (\<lambda>b. Inl []),
     me_operations = (\<lambda>j. Inl []), me_meta = (\<lambda>b. []), me_deadline = False \<rparr>"

definition demo_mcp_request :: http_request where
  "demo_mcp_request = demo_request ''POST'' ''/mcp'' [(''Authorization'', ''Bearer secret'')] None"

lemma demo_mcp_sel [simp]:
  "mv_app demo_mcp = demo_app" "mv_auth demo_mcp = Some demo_verifier" "mv_inflight demo_mcp = 0" "mv_secret demo_mcp = ''secret''"
  "me_app demo_mcp_env = demo_env" "me_rest demo_mcp_env = demo_rest_env" "me_sdk demo_mcp_env rq = ToolCall ''mail_messages_clear'' empty_input"
  by (simp_all add: demo_mcp_def demo_mcp_env_def)

lemma demo_scopes: "\<exists>c. lookup_tool ''mail_messages_clear'' = [c] \<and> cap_scopes c = [''mail.write'']"
proof -
  have "map cap_scopes (tools_in catalog ''mail_messages_clear'') = [[''mail.write'']]" by code_simp
  then show ?thesis by (auto simp: lookup_tool_catalog)
qed

lemma demo_registered: "''mail_messages_clear'' \<in> fst ` set registered_tools"
  by code_simp

lemma demo_clear_call:
  assumes "mv_app mv = demo_app" "mv_auth mv \<noteq> None" "has_scope (ac_scopes (actor_from ctx mv)) ''mail.write''"
    and "me_app e = demo_env \<lparr> ev_files := fw \<rparr>"
  shows "mv_app (snd (serve_call e ctx (ToolCall ''mail_messages_clear'' empty_input) mv)) \<noteq> demo_app"
proof -
  obtain c where c: "lookup_tool ''mail_messages_clear'' = [c]" "cap_scopes c = [''mail.write'']" using demo_scopes by blast
  have a: "authorize_tool (actor_from ctx mv) ''mail_messages_clear'' mv = None"
    using c assms(2,3) by (simp add: authorize_tool_def authorize_scopes_None)
  have t: "ti_generation empty_input = None" by (simp add: empty_input_def)
  have "mv_app (snd (serve_call e ctx (ToolCall ''mail_messages_clear'' empty_input) mv)) =
      snd (clear_messages (me_app e) (actor_from ctx mv) None demo_app)"
    using assms(1,4) demo_registered a t
    by (simp add: serve_call_def call_tool_def Let_def demo_env_def run_tool_def tool_clear_def case_prod_beta split: sum.splits)
  then show ?thesis using clear_changes[of demo_app _ "me_app e"] assms(4) by (simp add: demo_app_def new_app_def Let_def demo_env_def)
qed

lemma demo_env_files: "demo_env = demo_env \<lparr> ev_files := quiet_files \<rparr>"
  by (simp add: demo_env_def)

lemma mcp_change_authorized_witness:
  "\<exists>rq1 name x c (p :: principal). me_sdk demo_mcp_env rq1 = ToolCall name x \<and> lookup_tool name = [c] \<and>
    hq_method demo_mcp_request = ''POST'' \<and> hq_body rq1 = hq_body demo_mcp_request \<and>
    authenticate (re_digest (me_rest demo_mcp_env)) (Some demo_verifier)
      \<lparr> rq_authorization = trim_space (hq_header demo_mcp_request ''Authorization''),
      rq_remote = hq_remote demo_mcp_request, rq_allow_basic = False \<rparr> = Inr p \<and>
    list_all (has_scope (pr_scopes p)) (cap_scopes c) \<and>
    (has_scope (pr_scopes p) ''mail.write'' \<or> name = ''mail_message_get'' \<and> ti_mark_read x)"
proof -
  let ?h = "trim_space ''Bearer secret''"
  have h: "hq_header demo_mcp_request ''Authorization'' = ''Bearer secret''" "hq_header demo_mcp_request ''Origin'' = []"
    "hq_header demo_mcp_request ''Mcp-Method'' = []" "hq_method demo_mcp_request = ''POST''" "hq_remote demo_mcp_request = ''10.0.0.9:4711''"
    by (simp_all add: demo_mcp_request_def demo_request_def param_def)
  have t: "?h = ''Bearer secret''" "has_prefix ''basic '' (to_lower ''Bearer secret'') = False" "trim_space [] \<noteq> ''subscriptions/listen''"
    by code_simp+
  have au: "authenticate (\<lambda>s. s) (Some demo_verifier) \<lparr> rq_authorization = ''Bearer secret'', rq_remote = ''10.0.0.9:4711'',
      rq_allow_basic = False \<rparr> = Inr demo_principal" by code_simp
  have og: "check_origin u [] os = None" for u os by (simp add: check_origin_def trim_space_def trim_by_def trim_left_by_def trim_right_by_def)
  let ?mv = "demo_mcp \<lparr> mv_inflight := 1 \<rparr>" and ?ac = "mcp_actor_of demo_principal"
  have sc: "ac_scopes (actor_from (Some ?ac) ?mv) = [''mail.write'']"
    using actor_from_principal[of demo_principal ?mv] by (simp add: demo_principal_def)
  have "mv_app (snd (serve_mcp demo_mcp_env demo_mcp_config demo_mcp_request demo_mcp)) =
      mv_app (snd (serve_call demo_mcp_env (Some ?ac) (ToolCall ''mail_messages_clear'' empty_input) ?mv))"
    using h t au og by (simp add: serve_mcp_def mcp_admitted_def mcp_authenticate_def Let_def demo_mcp_config_def case_prod_beta demo_mcp_def)
  then have "mv_app (snd (serve_mcp demo_mcp_env demo_mcp_config demo_mcp_request demo_mcp)) \<noteq> mv_app demo_mcp"
    using demo_clear_call[of ?mv "Some ?ac" demo_mcp_env quiet_files] sc demo_env_files by (simp add: has_scope_def)
  then show ?thesis using mcp_change_authorized[of demo_mcp demo_verifier demo_mcp_env demo_mcp_config demo_mcp_request]
    by (simp add: demo_env_def)
qed

section \<open>A server over stdio\<close>

lemma refreshed_actor:
  assumes "mv_auth mv = Some v" "mv1 = refresh_stdio_actor e mv" "ac_scopes (actor_from None mv1) \<noteq> []"
  shows "mv_secret mv \<noteq> [] \<and> (\<exists>p. authenticate_bearer (re_digest (me_rest e)) (Some v) (mv_secret mv) = Inr p \<and>
    ac_scopes (actor_from None mv1) = pr_scopes p)"
proof (cases "mv_fixed mv1")
  case None
  then show ?thesis using assms(3) by (simp add: actor_from_def with_transport_def Let_def)
next
  case (Some f)
  then obtain p where p: "mv_secret mv \<noteq> []" "authenticate_bearer (re_digest (me_rest e)) (Some v) (mv_secret mv) = Inr p"
      "f = mcp_actor_of p"
    using assms(1,2) by (auto simp: refresh_stdio_actor_def split: if_splits sum.splits)
  then show ?thesis using Some by (simp add: actor_from_def with_transport_def mcp_actor_of_def actor_of_def)
qed

text \<open>C31.  A stdio server, whose requests carry no credential, acts as the actor it was started with only until
  the identities change.  Once a reload has loaded a verifier that is not equivalent to the one before, a
  tool call that changes the service means that the server's secret is a bearer credential of that new
  verifier, of a principal with the scopes of the tool.  With a secret that was revoked, or without a
  secret, as a server in the loopback mode is started, no tool call changes anything any more.\<close>

theorem stdio_actor_current:
  assumes "mv_auth mv = Some v" "ns_active (ap_snaps (mv_app mv)) = Some s"
    and "from_spec (ev_files (me_app e)) (re_digest (me_rest e)) (mg_auth (sp_management (sd_spec (sn_canonical s)))) = Inr nxt"
    and "\<not> equivalent v nxt" "ev_other (me_app e) = (\<lambda>m. m)"
    and "mv1 = mcp_reload_auth e mv" "mv_app (snd (serve_call e None call mv1)) \<noteq> mv_app mv1"
  shows "\<exists>name x c p. call = ToolCall name x \<and> lookup_tool name = [c] \<and> mv_secret mv \<noteq> [] \<and>
    authenticate_bearer (re_digest (me_rest e)) (Some nxt) (mv_secret mv) = Inr p \<and>
    list_all (has_scope (pr_scopes p)) (cap_scopes c) \<and>
    (has_scope (pr_scopes p) ''mail.write'' \<or> name = ''mail_message_get'' \<and> ti_mark_read x)"
proof -
  let ?mv = "mv \<lparr> mv_auth := Some nxt \<rparr>"
  have mv1: "mv1 = refresh_stdio_actor e ?mv"
    using assms(1-4,6) by (simp add: mcp_reload_auth_def replace_verifier_def)
  have auth: "mv_auth mv1 \<noteq> None" unfolding mv1 by (auto simp: refresh_stdio_actor_def split: sum.splits)
  obtain name x c where c: "call = ToolCall name x" "lookup_tool name = [c]"
      "list_all (has_scope (ac_scopes (actor_from None mv1))) (cap_scopes c)"
      "has_scope (ac_scopes (actor_from None mv1)) ''mail.write'' \<or> name = ''mail_message_get'' \<and> ti_mark_read x"
      "ac_scopes (actor_from None mv1) \<noteq> []"
    using serve_call_change[OF auth assms(5,7)] by blast
  then show ?thesis using refreshed_actor[of ?mv nxt mv1 e] mv1 by auto
qed

text \<open>A server that was started in the loopback mode is given the operator's secret by a reload.\<close>

definition ops_secret :: bytes where
  "ops_secret = ''0123456789abcdef0123456789abcdef''"

definition reload_mcp_env :: mcp_env where
  "reload_mcp_env = demo_mcp_env \<lparr> me_rest := reload_env \<rparr>"

lemma stdio_actor_current_witness:
  "\<exists>name x c (p :: principal) nxt. ToolCall ''mail_messages_clear'' empty_input = ToolCall name x \<and> lookup_tool name = [c] \<and>
    authenticate_bearer (\<lambda>s. s) (Some nxt) ops_secret = Inr p \<and> list_all (has_scope (pr_scopes p)) (cap_scopes c)"
proof -
  let ?mv = "demo_mcp \<lparr> mv_secret := ops_secret \<rparr>"
  have "case from_spec ops_files (\<lambda>s. s) (mg_auth (sp_management (sd_spec demo_state))) of
      Inr nxt \<Rightarrow> \<not> equivalent demo_verifier nxt \<and> (case authenticate_bearer (\<lambda>s. s) (Some nxt) ops_secret of
        Inr p \<Rightarrow> has_scope (pr_scopes p) ''mail.write'' | _ \<Rightarrow> False) | _ \<Rightarrow> False" by code_simp
  then obtain nxt p where n: "from_spec ops_files (\<lambda>s. s) (mg_auth (sp_management (sd_spec demo_state))) = Inr nxt"
      "\<not> equivalent demo_verifier nxt" "authenticate_bearer (\<lambda>s. s) (Some nxt) ops_secret = Inr p"
      "has_scope (pr_scopes p) ''mail.write''" by (auto split: sum.splits)
  have sel: "me_app reload_mcp_env = demo_env \<lparr> ev_files := ops_files \<rparr>" "re_digest (me_rest reload_mcp_env) = (\<lambda>s. s)"
    by (simp_all add: reload_mcp_env_def reload_env_def)
  have s: "ns_active (ap_snaps (mv_app ?mv)) = Some demo_snapshot"
    by (simp add: demo_app_def new_app_def install_bootstrap_def snap_swap_def set_bootstrap_def new_snap_store_def Let_def)
  have f: "from_spec (ev_files (me_app reload_mcp_env)) (re_digest (me_rest reload_mcp_env))
      (mg_auth (sp_management (sd_spec (sn_canonical demo_snapshot)))) = Inr nxt"
    using n(1) by (simp add: sel demo_snapshot_def)
  define mv1 where "mv1 = mcp_reload_auth reload_mcp_env ?mv"
  have "ops_secret \<noteq> []" by (simp add: ops_secret_def)
  then have mv1: "mv1 = ?mv \<lparr> mv_auth := Some nxt, mv_fixed := Some (mcp_actor_of p) \<rparr>"
    using s f n(2,3) by (simp add: mv1_def mcp_reload_auth_def replace_verifier_def refresh_stdio_actor_def sel)
  have "has_scope (ac_scopes (actor_from None mv1)) ''mail.write''"
    using n(4) by (simp add: mv1 actor_from_def with_transport_def mcp_actor_of_def actor_of_def)
  then have "mv_app (snd (serve_call reload_mcp_env None (ToolCall ''mail_messages_clear'' empty_input) mv1)) \<noteq> mv_app mv1"
    using demo_clear_call[of mv1 None reload_mcp_env ops_files] sel by (simp add: mv1)
  from stdio_actor_current[OF _ s f _ _ mv1_def this, of demo_verifier] n(2) show ?thesis
    by (auto simp: sel demo_env_def)
qed

end
