(* ===== verification/Rate_Limit.thy ===== *)
theory Rate_Limit
  imports Config_Validate Complex_Main
begin

text \<open>
  The token bucket that limits management requests per remote host (\<^verbatim>\<open>control/rest/auth.go\<close>, and its copy in
  \<^verbatim>\<open>control/mcp/auth.go\<close>).  A request's answer is what the servers' models take as \<open>re_rate\<close>.  The source
  computes in float64; the model computes in rationals, without the rounding.  Times are nanoseconds.
\<close>

section \<open>The limiter\<close>

record rate_bucket =
  rb_tokens :: rat
  rb_last :: int

record rate_limiter =
  rl_disabled :: bool
  rl_rate :: rat
  rl_burst :: rat
  rl_buckets :: "(bytes \<times> rate_bucket) list"

definition new_limiter :: "rat \<Rightarrow> rat \<Rightarrow> rate_limiter" where
  "new_limiter rate burst =
     (if rate < 0 then \<lparr> rl_disabled = True, rl_rate = 0, rl_burst = 0, rl_buckets = [] \<rparr>
      else \<lparr> rl_disabled = False, rl_rate = (if rate = 0 then 32 else rate), rl_burst = (if burst = 0 then 64 else burst), rl_buckets = [] \<rparr>)"

definition idle_for :: "rate_limiter \<Rightarrow> int" where
  "idle_for l = (if rl_rate l > 0 then (let x = 1000000000 * (rl_burst l / rl_rate l) * 4; refill = (if x < 0 then \<lceil>x\<rceil> else \<lfloor>x\<rfloor>)
       in if refill > 30000000000 then refill else 30000000000)
     else 30000000000)"

definition evict_idle :: "int \<Rightarrow> rate_limiter \<Rightarrow> rate_limiter" where
  "evict_idle now l = l \<lparr> rl_buckets := filter (\<lambda>(k, b). now - rb_last b \<le> idle_for l) (rl_buckets l) \<rparr>"

definition remote_key :: "bytes \<Rightarrow> bytes" where
  "remote_key remote = (case split_host_port remote of Some (host, port) \<Rightarrow> host | None \<Rightarrow> remote)"

definition bucket_of :: "int \<Rightarrow> bytes \<Rightarrow> rate_limiter \<Rightarrow> rate_bucket" where
  "bucket_of now key l = (case lookup (rl_buckets l) key of None \<Rightarrow> \<lparr> rb_tokens = rl_burst l, rb_last = now \<rparr> | Some b \<Rightarrow> b)"

definition refilled :: "int \<Rightarrow> rate_limiter \<Rightarrow> rate_bucket \<Rightarrow> rat" where
  "refilled now l b = (let t = rb_tokens b + of_int (now - rb_last b) / 1000000000 * rl_rate l in if t > rl_burst l then rl_burst l else t)"

definition put_bucket :: "int \<Rightarrow> bytes \<Rightarrow> rat \<Rightarrow> rate_limiter \<Rightarrow> rate_limiter" where
  "put_bucket now key n l = l \<lparr> rl_buckets := AList.update key \<lparr> rb_tokens = n, rb_last = now \<rparr> (rl_buckets l) \<rparr>"

definition limiter_allow :: "int \<Rightarrow> bytes \<Rightarrow> rate_limiter \<Rightarrow> bool \<times> rate_limiter" where
  "limiter_allow now remote l =
     (if rl_disabled l then (True, l)
      else let key = remote_key remote; l1 = evict_idle now l; tokens = refilled now l1 (bucket_of now key l1)
        in if tokens < 1 then (False, put_bucket now key tokens l1) else (True, put_bucket now key (tokens - 1) l1))"

text \<open>The agent interface has its own copy of the code.\<close>

definition mcp_new_limiter :: "rat \<Rightarrow> rat \<Rightarrow> rate_limiter" where
  "mcp_new_limiter rate burst = new_limiter rate burst"

definition mcp_limiter_allow :: "int \<Rightarrow> bytes \<Rightarrow> rate_limiter \<Rightarrow> bool \<times> rate_limiter" where
  "mcp_limiter_allow now remote l = limiter_allow now remote l"

section \<open>What a host may still send\<close>

text \<open>The tokens a host has at a time; one without a bucket has them all.\<close>

definition tokens_at :: "bytes \<Rightarrow> int \<Rightarrow> rate_limiter \<Rightarrow> rat" where
  "tokens_at k t l = (case lookup (rl_buckets l) k of
       None \<Rightarrow> rl_burst l
     | Some b \<Rightarrow> min (rl_burst l) (rb_tokens b + of_int (t - rb_last b) / 1000000000 * rl_rate l))"

definition limiter_ok :: "int \<Rightarrow> rate_limiter \<Rightarrow> bool" where
  "limiter_ok now l \<longleftrightarrow> \<not> rl_disabled l \<and> 0 < rl_rate l \<and> 0 < rl_burst l \<and> distinct (keys (rl_buckets l)) \<and>
     (\<forall>b \<in> snd ` set (rl_buckets l). 0 \<le> rb_tokens b \<and> rb_last b \<le> now)"

lemma values_update: "snd ` set (AList.update k v m) \<subseteq> insert v (snd ` set m)"
  by (induction m) auto

lemma lookup_filter: "distinct (keys m) \<Longrightarrow>
    lookup (filter (\<lambda>(k, b). P b) m) k = (case lookup m k of None \<Rightarrow> None | Some b \<Rightarrow> if P b then Some b else None)"
  by (induction m) (auto simp: lookup_None_iff image_iff split: option.splits)

text \<open>A bucket that is evicted was full again.\<close>

lemma idle_is_full:
  assumes "0 < rl_rate l" "0 < rl_burst l" "idle_for l < d"
  shows "rl_burst l \<le> of_int d / 1000000000 * rl_rate l"
proof -
  define x where "x = rl_burst l / rl_rate l"
  have x: "0 < x" using assms(1,2) by (simp add: x_def)
  have "\<lfloor>1000000000 * x * 4\<rfloor> \<le> idle_for l" using assms(1) x by (simp add: idle_for_def Let_def x_def[symmetric])
  then have "\<lfloor>1000000000 * x * 4\<rfloor> < d" using assms(3) by simp
  then have "1000000000 * x * 4 < of_int d" by (simp add: floor_less_iff)
  then have "x \<le> of_int d / 1000000000" using x by simp
  then have "x * rl_rate l \<le> of_int d / 1000000000 * rl_rate l" using assms(1) by (intro mult_right_mono) simp_all
  then show ?thesis using assms(1) by (simp add: x_def)
qed

lemma evict_frame [simp]:
  "rl_rate (evict_idle now l) = rl_rate l" "rl_burst (evict_idle now l) = rl_burst l" "rl_disabled (evict_idle now l) = rl_disabled l"
  by (simp_all add: evict_idle_def)

lemma evict_ok: "limiter_ok now l \<Longrightarrow> limiter_ok now (evict_idle now l)"
  by (auto simp: limiter_ok_def evict_idle_def distinct_map_filter)

lemma evict_tokens:
  assumes "limiter_ok now l" "now \<le> t"
  shows "tokens_at k t (evict_idle now l) = tokens_at k t l"
proof (cases "lookup (rl_buckets l) k")
  case None
  then show ?thesis using assms(1) by (simp add: tokens_at_def evict_idle_def lookup_filter limiter_ok_def)
next
  case (Some b)
  have d: "distinct (keys (rl_buckets l))" "0 < rl_rate l" "0 < rl_burst l" using assms(1) by (auto simp: limiter_ok_def)
  have b: "0 \<le> rb_tokens b" using assms(1) Some by (force simp: limiter_ok_def dest: map_of_SomeD)
  show ?thesis
  proof (cases "now - rb_last b \<le> idle_for l")
    case True
    then show ?thesis using Some d by (simp add: tokens_at_def evict_idle_def lookup_filter)
  next
    case False
    then have "rl_burst l \<le> of_int (t - rb_last b) / 1000000000 * rl_rate l"
      using idle_is_full[OF d(2,3), of "t - rb_last b"] assms(2) by simp
    then have "tokens_at k t l = rl_burst l" using Some b by (simp add: tokens_at_def min_def)
    then show ?thesis using False Some d by (simp add: tokens_at_def evict_idle_def lookup_filter)
  qed
qed

lemma tokens_later:
  assumes "limiter_ok now l" "now \<le> t"
  shows "tokens_at k t l = min (rl_burst l) (tokens_at k now l + of_int (t - now) / 1000000000 * rl_rate l)"
proof -
  have nn: "0 \<le> of_int (t - now) / 1000000000 * rl_rate l" using assms by (simp add: limiter_ok_def)
  have split: "of_int (t - u) / 1000000000 * rl_rate l = of_int (now - u) / 1000000000 * rl_rate l + of_int (t - now) / 1000000000 * rl_rate l" for u
    by (simp add: field_simps)
  show ?thesis
  proof (cases "lookup (rl_buckets l) k")
    case None
    then show ?thesis using nn by (simp add: tokens_at_def)
  next
    case (Some b)
    have "min B (x + (p + q)) = min B (min B (x + p) + q)" if "0 \<le> q" for B x p q :: rat using that by (auto simp: min_def)
    from this[OF nn] show ?thesis using Some unfolding tokens_at_def by (simp only: option.case split[of "rb_last b"])
  qed
qed

lemma tokens_nonneg: "limiter_ok now l \<Longrightarrow> 0 \<le> tokens_at k now l"
  by (force simp: tokens_at_def limiter_ok_def split: option.splits dest: map_of_SomeD)

text \<open>What a request does: it is let through when its host has a token, which it takes; other hosts keep theirs.\<close>

lemma allow_effect:
  assumes ok: "limiter_ok now l" and a: "limiter_allow now remote l = (admitted, l1)"
  shows "limiter_ok now l1 \<and> rl_rate l1 = rl_rate l \<and> rl_burst l1 = rl_burst l \<and>
    (admitted \<longleftrightarrow> 1 \<le> tokens_at (remote_key remote) now l) \<and>
    tokens_at k now l1 = tokens_at k now l - (if k = remote_key remote \<and> admitted then 1 else 0) \<and>
    (now \<le> t \<longrightarrow> k \<noteq> remote_key remote \<longrightarrow> tokens_at k t l1 = tokens_at k t l)"
proof -
  let ?key = "remote_key remote" and ?e = "evict_idle now l"
  have eok: "limiter_ok now ?e" using evict_ok[OF ok] .
  have nd: "\<not> rl_disabled l" and pos: "0 < rl_burst l" using ok by (auto simp: limiter_ok_def)
  define n where "n = tokens_at ?key now l"
  have n: "n = tokens_at ?key now ?e" "0 \<le> n" "n \<le> rl_burst l"
    using evict_tokens[OF ok, of now ?key] tokens_nonneg[OF ok] by (auto simp: n_def tokens_at_def split: option.splits)
  define put where "put m = put_bucket now ?key m ?e" for m
  have "n = refilled now ?e (bucket_of now ?key ?e)"
    unfolding n(1) using pos by (auto simp: tokens_at_def refilled_def bucket_of_def min_def Let_def split: option.splits)
  then have out: "(admitted, l1) = (if n < 1 then (False, put n) else (True, put (n - 1)))"
    using a nd by (simp add: limiter_allow_def Let_def put_def split: if_splits)
  have put_ok: "limiter_ok now (put m)" if "0 \<le> m" for m
  proof -
    have "\<forall>b \<in> insert \<lparr> rb_tokens = m, rb_last = now \<rparr> (snd ` set (rl_buckets ?e)). 0 \<le> rb_tokens b \<and> rb_last b \<le> now"
      using eok that by (simp add: limiter_ok_def)
    then have "\<forall>b \<in> snd ` set (rl_buckets (put m)). 0 \<le> rb_tokens b \<and> rb_last b \<le> now"
      using subsetD[OF values_update[of ?key "\<lparr> rb_tokens = m, rb_last = now \<rparr>" "rl_buckets ?e"]] unfolding put_def put_bucket_def
      by (metis rate_limiter.select_convs(4) rate_limiter.surjective rate_limiter.update_convs(4))
    then show ?thesis using eok by (auto simp: limiter_ok_def put_def put_bucket_def distinct_keys_update)
  qed
  have frame: "rl_rate (put m) = rl_rate l" "rl_burst (put m) = rl_burst l" for m by (simp_all add: put_def put_bucket_def)
  have put_key: "tokens_at ?key now (put m) = min (rl_burst l) m" for m by (simp add: tokens_at_def put_def put_bucket_def)
  have put_other: "k \<noteq> ?key \<Longrightarrow> tokens_at k u (put m) = tokens_at k u ?e" for m u by (simp add: tokens_at_def put_def put_bucket_def cong: option.case_cong)
  have other: "k \<noteq> ?key \<Longrightarrow> now \<le> u \<Longrightarrow> tokens_at k u (put m) = tokens_at k u l" for m u
    using put_other evict_tokens[OF ok] by simp
  show ?thesis using out n put_ok frame put_key other[of now] other[of t] unfolding n_def[symmetric]
    by (cases "n < 1"; cases "k = ?key") (auto simp: n_def[symmetric])
qed

section \<open>What a host gets\<close>

fun rate_run :: "(int \<times> bytes) list \<Rightarrow> rate_limiter \<Rightarrow> bool list \<times> rate_limiter" where
  "rate_run [] l = ([], l)"
| "rate_run ((t, r) # cs) l = (case limiter_allow t r l of (a, l1) \<Rightarrow> case rate_run cs l1 of (as, l2) \<Rightarrow> (a # as, l2))"

definition answers_of :: "bytes \<Rightarrow> (int \<times> bytes) list \<Rightarrow> rate_limiter \<Rightarrow> bool list" where
  "answers_of k cs l = map snd (filter (\<lambda>((t, r), a). remote_key r = k) (zip cs (fst (rate_run cs l))))"

definition period_length :: "(int \<times> bytes) list \<Rightarrow> int" where
  "period_length cs = (if cs = [] then 0 else fst (last cs) - fst (hd cs))"

lemma rate_run_length: "length (fst (rate_run cs l)) = length cs"
  by (induction cs l rule: rate_run.induct) (auto split: prod.splits)

lemma answers_cons:
  "answers_of k ((t, r) # cs) l = (if remote_key r = k then [fst (limiter_allow t r l)] else []) @ answers_of k cs (snd (limiter_allow t r l))"
  by (simp add: answers_of_def split: prod.splits)

lemma run_snd: "snd (rate_run ((t, r) # cs) l) = snd (rate_run cs (snd (limiter_allow t r l)))"
  by (simp split: prod.splits)

lemma limiter_later: "limiter_ok now l \<Longrightarrow> now \<le> t \<Longrightarrow> limiter_ok t l"
  by (force simp: limiter_ok_def)

lemma run_ok: "limiter_ok t0 l \<Longrightarrow> sorted (t0 # map fst cs) \<Longrightarrow>
    limiter_ok (last (t0 # map fst cs)) (snd (rate_run cs l)) \<and> rl_rate (snd (rate_run cs l)) = rl_rate l \<and> rl_burst (snd (rate_run cs l)) = rl_burst l"
proof (induction cs arbitrary: t0 l)
  case (Cons c cs)
  obtain t r where c: "c = (t, r)" by (cases c)
  obtain a l1 where a: "limiter_allow t r l = (a, l1)" by fastforce
  have "limiter_ok t l" using limiter_later[OF Cons.prems(1), of t] Cons.prems(2) c by simp
  from allow_effect[OF this a] have l1: "limiter_ok t l1" "rl_rate l1 = rl_rate l" "rl_burst l1 = rl_burst l" by blast+
  have "sorted (t # map fst cs)" using Cons.prems(2) c by simp
  from Cons.IH[OF l1(1) this] show ?case using l1 by (simp add: c a run_snd del: rate_run.simps)
qed simp

text \<open>Tokens taken are never more than the tokens there were and those that flowed in.\<close>

lemma admitted_bound:
  assumes "limiter_ok t0 l" "sorted (t0 # map fst cs)"
  shows "of_nat (length (filter (\<lambda>a. a) (answers_of k cs l))) + tokens_at k (last (t0 # map fst cs)) (snd (rate_run cs l)) \<le>
    tokens_at k t0 l + of_int (last (t0 # map fst cs) - t0) / 1000000000 * rl_rate l"
  using assms
proof (induction cs arbitrary: t0 l)
  case Nil
  then show ?case by (simp add: answers_of_def)
next
  case (Cons c cs)
  obtain t r where c: "c = (t, r)" by (cases c)
  obtain a l1 where a: "limiter_allow t r l = (a, l1)" by fastforce
  have le: "t0 \<le> t" using Cons.prems(2) c by simp
  have ok: "limiter_ok t l" using limiter_later[OF Cons.prems(1) le] .
  from allow_effect[OF ok a] have l1: "limiter_ok t l1" "rl_rate l1 = rl_rate l"
    and tk: "tokens_at k t l1 = tokens_at k t l - (if k = remote_key r \<and> a then 1 else 0)" by blast+
  have "sorted (t # map fst cs)" using Cons.prems(2) c by simp
  from Cons.IH[OF l1(1) this]
  have ih: "of_nat (length (filter (\<lambda>a. a) (answers_of k cs l1))) + tokens_at k (last (t # map fst cs)) (snd (rate_run cs l1)) \<le>
    tokens_at k t l1 + of_int (last (t # map fst cs) - t) / 1000000000 * rl_rate l" unfolding l1(2) .
  have fill: "tokens_at k t l \<le> tokens_at k t0 l + of_int (t - t0) / 1000000000 * rl_rate l"
    using tokens_later[OF Cons.prems(1) le, of k] by (simp add: min_def)
  have time: "of_int (u - t0) / 1000000000 * rl_rate l = of_int (t - t0) / 1000000000 * rl_rate l + of_int (u - t) / 1000000000 * rl_rate l" for u
    by (simp add: field_simps)
  define w :: nat where "w = (if k = remote_key r \<and> a then 1 else 0)"
  have w: "tokens_at k t l1 = tokens_at k t l - of_nat w" using tk by (simp add: w_def)
  have cnt: "length (filter (\<lambda>a. a) (answers_of k (c # cs) l)) = w + length (filter (\<lambda>a. a) (answers_of k cs l1))"
    by (simp add: c answers_cons a w_def)
  have lst: "last (t0 # map fst (c # cs)) = last (t # map fst cs)" "snd (rate_run (c # cs) l) = snd (rate_run cs l1)"
    by (simp_all add: c a run_snd del: rate_run.simps)
  show ?case unfolding cnt lst time[of "last (t # map fst cs)"] using ih fill unfolding w of_nat_add by linarith
qed

text \<open>Two limiters a host cannot tell apart.\<close>

definition same_for :: "bytes \<Rightarrow> int \<Rightarrow> rate_limiter \<Rightarrow> rate_limiter \<Rightarrow> bool" where
  "same_for k now l m \<longleftrightarrow> limiter_ok now l \<and> limiter_ok now m \<and> rl_rate l = rl_rate m \<and> rl_burst l = rl_burst m \<and>
     tokens_at k now l = tokens_at k now m"

lemma same_for_later:
  assumes "same_for k now l m" "now \<le> t"
  shows "same_for k t l m"
  using assms tokens_later[of now l t k] tokens_later[of now m t k] limiter_later[of now _ t] by (simp add: same_for_def)

lemma answers_alone:
  assumes "same_for k t0 l m" "sorted (t0 # map fst cs)"
  shows "answers_of k cs l = answers_of k (filter (\<lambda>(t, r). remote_key r = k) cs) m"
  using assms
proof (induction cs arbitrary: t0 l m)
  case Nil
  then show ?case by (simp add: answers_of_def)
next
  case (Cons c cs)
  obtain t r where c: "c = (t, r)" by (cases c)
  obtain a l1 where a: "limiter_allow t r l = (a, l1)" by fastforce
  obtain b m1 where b: "limiter_allow t r m = (b, m1)" by fastforce
  have same: "same_for k t l m" using same_for_later[OF Cons.prems(1)] Cons.prems(2) c by simp
  then have ok: "limiter_ok t l" "limiter_ok t m" by (simp_all add: same_for_def)
  have srt: "sorted (t # map fst cs)" using Cons.prems(2) c by simp
  have l1: "limiter_ok t l1" "rl_rate l1 = rl_rate l" "rl_burst l1 = rl_burst l" "a \<longleftrightarrow> 1 \<le> tokens_at (remote_key r) t l"
      "tokens_at k t l1 = tokens_at k t l - (if k = remote_key r \<and> a then 1 else 0)"
    using allow_effect[OF ok(1) a] by blast+
  have m1: "limiter_ok t m1" "rl_rate m1 = rl_rate m" "rl_burst m1 = rl_burst m" "b \<longleftrightarrow> 1 \<le> tokens_at (remote_key r) t m"
      "tokens_at k t m1 = tokens_at k t m - (if k = remote_key r \<and> b then 1 else 0)"
    using allow_effect[OF ok(2) b] by blast+
  show ?case
  proof (cases "remote_key r = k")
    case True
    then have "a = b" using same l1(4) m1(4) by (simp add: same_for_def)
    moreover have "same_for k t l1 m1" using same l1 m1 True \<open>a = b\<close> by (simp add: same_for_def)
    ultimately show ?thesis using Cons.IH[OF _ srt] True by (simp add: c answers_cons a b)
  next
    case False
    then have "same_for k t l1 m" using same l1 ok(2) by (simp add: same_for_def)
    then show ?thesis using Cons.IH[OF _ srt] False by (simp add: c answers_cons a)
  qed
qed

lemma new_limiter_ok: "0 < rate \<Longrightarrow> 0 < burst \<Longrightarrow> limiter_ok t (new_limiter rate burst)"
  by (simp add: limiter_ok_def new_limiter_def)

text \<open>The limiter bounds what any host gets, and no host takes it from another.  With a positive rate and burst,
  whatever requests came before, among any requests of a period the ones of a host that are let through are
  at most the burst and the rate times the length of the period - forgetting a host that was idle never gives
  it more - and the answers a host gets are the ones it would get if it were the only one.\<close>

lemma rate_bounded:
  assumes "0 < rate" "0 < burst" "sorted (map fst (before @ period))"
  shows "let l = snd (rate_run before (new_limiter rate burst)) in
    of_nat (length (filter (\<lambda>a. a) (answers_of k period l))) \<le> burst + of_int (period_length period) / 1000000000 * rate \<and>
    answers_of k (before @ period) (new_limiter rate burst) =
      answers_of k (filter (\<lambda>(t, r). remote_key r = k) (before @ period)) (new_limiter rate burst)"
proof -
  let ?new = "new_limiter rate burst"
  define l where "l = snd (rate_run before ?new)"
  define start where "start = (if before = [] then (if period = [] then 0 else fst (hd period)) else fst (hd before))"
  have srt: "sorted (start # map fst (before @ period))"
    using assms(3) by (cases before; cases period) (auto simp: start_def)
  have new: "limiter_ok start ?new" "rl_rate ?new = rate" "rl_burst ?new = burst"
    using new_limiter_ok[OF assms(1,2)] assms(1,2) by (simp_all add: new_limiter_def[of rate])
  have alone: "answers_of k (before @ period) ?new = answers_of k (filter (\<lambda>(t, r). remote_key r = k) (before @ period)) ?new"
    using new(1) srt by (intro answers_alone[of k start]) (simp_all add: same_for_def)
  have "sorted (start # map fst before)" using srt by (simp add: sorted_append)
  from run_ok[OF new(1) this] have l: "limiter_ok (last (start # map fst before)) l" "rl_rate l = rate" "rl_burst l = burst"
    by (simp_all add: l_def new)
  have "of_nat (length (filter (\<lambda>a. a) (answers_of k period l))) \<le> burst + of_int (period_length period) / 1000000000 * rate"
  proof (cases period)
    case Nil
    then show ?thesis using assms(2) by (simp add: answers_of_def period_length_def)
  next
    case (Cons c cs)
    let ?t = "fst c"
    have "last (start # map fst before) \<le> ?t" using srt Cons by (cases before rule: rev_cases) (auto simp: sorted_append)
    then have ok: "limiter_ok ?t l" using limiter_later[OF l(1)] by simp
    have s2: "sorted (?t # map fst period)" using srt Cons by (simp add: sorted_append)
    have tk: "tokens_at k ?t l \<le> burst" using l(3) by (simp add: tokens_at_def split: option.splits)
    have lst: "last (?t # map fst period) - ?t = period_length period" using Cons by (simp add: period_length_def last_map)
    have "0 \<le> tokens_at k (last (?t # map fst period)) (snd (rate_run period l))"
      using run_ok[OF ok s2] tokens_nonneg by blast
    then show ?thesis using admitted_bound[OF ok s2, of k, unfolded lst l(2)] tk by linarith
  qed
  then show ?thesis using alone by (simp add: l_def)
qed

text \<open>Three requests of a host with one token, and one of another.\<close>

lemma rate_bounded_witness:
  "let cs = [(0, ''a''), (0, ''b''), (500000000, ''a''), (1000000000, ''a'')]; l = snd (rate_run [] (new_limiter 1 1)) in
    of_nat (length (filter (\<lambda>a. a) (answers_of ''a'' cs l))) \<le> (1 :: rat) + of_int (period_length cs) / 1000000000 * 1 \<and>
    answers_of ''a'' ([] @ cs) (new_limiter 1 1) = answers_of ''a'' (filter (\<lambda>(t, r). remote_key r = ''a'') ([] @ cs)) (new_limiter 1 1)"
  unfolding Let_def by (rule rate_bounded[unfolded Let_def]) simp_all

end
