(* ===== verification/Web_Ui.thy ===== *)
theory Web_Ui
  imports Rest_Props
begin

text \<open>
  \<^verbatim>\<open>internal/web\<close>: the embedded single-page application.  The embedded tree is an argument from a path to a
  file or a directory, and so is the table of media types; \<^verbatim>\<open>http.ServeContent\<close>, which answers ranges and
  conditions, is the whole file here.
\<close>

section \<open>The handler\<close>

record web_file =
  wf_dir :: bool
  wf_content :: bytes

type_synonym web_tree = "bytes \<Rightarrow> web_file option"

definition web_reserved :: "bytes \<Rightarrow> bool" where
  "web_reserved p0 = (let p = path_clean (CHR ''/'' # p0) in
     p = ''/v1'' \<or> has_prefix ''/v1/'' p \<or> p = ''/mcp'' \<or> has_prefix ''/mcp/'' p \<or> p = ''/email'' \<or> has_prefix ''/email/'' p \<or>
     p = ''/healthz'' \<or> has_prefix ''/healthz/'' p \<or> p = ''/config'' \<or> has_prefix ''/config/'' p \<or>
     p = ''/.well-known'' \<or> has_prefix ''/.well-known/'' p)"

definition safe_rel :: "bytes \<Rightarrow> bytes option" where
  "safe_rel p = (if contains ''..'' p \<or> CHR 0x5C \<in> set p then None
     else if p = [] \<or> p = ''/'' then Some ''index.html''
     else if \<not> has_prefix ''/'' p then None
     else let clean = path_clean p in
       if clean = ''/'' then Some ''index.html''
       else if contains ''..'' clean then None
       else Some (trim_prefix ''/'' clean))"

text \<open>A dash, then at least eight characters before the last dot.\<close>

definition hashed_asset :: "bytes \<Rightarrow> bool" where
  "hashed_asset rel = (let b = path_base rel in
     CHR ''-'' \<in> set b \<and> (let rest = last (split_on (CHR ''-'') b) in
       CHR ''.'' \<in> set rest \<and> length rest - length (last (split_on (CHR ''.'') rest)) - 1 \<ge> 8))"

definition plain_error :: "int \<Rightarrow> bytes \<Rightarrow> http_response" where
  "plain_error code m = \<lparr> hr_status = code, hr_headers = [(''Content-Type'', ''text/plain; charset=utf-8''),
     (''X-Content-Type-Options'', ''nosniff'')], hr_cookie = None, hr_payload = RawBody (m @ [LF]) \<rparr>"

definition page_not_found :: http_response where
  "page_not_found = plain_error 404 ''404 page not found''"

definition serve_file :: "web_tree \<Rightarrow> (bytes \<Rightarrow> bytes) \<Rightarrow> bytes \<Rightarrow> bool \<Rightarrow> http_response" where
  "serve_file fs media name hashed = (case fs name of
       None \<Rightarrow> page_not_found
     | Some f \<Rightarrow> (let cc = (if hashed then [(''Cache-Control'', ''public, max-age=31536000, immutable'')]
           else if name = ''index.html'' \<or> has_suffix ''.html'' name then [(''Cache-Control'', ''no-cache'')] else []);
           ct = media (path_ext name)
         in if wf_dir f then (let r = plain_error 500 ''asset is not seekable'' in r \<lparr> hr_headers := cc @ hr_headers r \<rparr>)
            else write_bytes cc ct (wf_content f)))"

definition serve_rel :: "web_tree \<Rightarrow> (bytes \<Rightarrow> bytes) \<Rightarrow> bytes \<Rightarrow> http_response" where
  "serve_rel fs media rel = (if fs rel = None \<or> wf_dir (the (fs rel))
     then (if path_ext rel \<noteq> [] \<and> path_ext rel \<noteq> ''.html'' then page_not_found else serve_file fs media ''index.html'' False)
     else serve_file fs media rel (hashed_asset rel))"

definition web_handler :: "web_tree \<Rightarrow> (bytes \<Rightarrow> bytes) \<Rightarrow> http_request \<Rightarrow> http_response" where
  "web_handler fs media rq =
     (if hq_method rq \<noteq> ''GET'' \<and> hq_method rq \<noteq> ''HEAD'' then plain_error 405 ''method not allowed''
      else if web_reserved (hq_path rq) then page_not_found
      else case safe_rel (hq_path rq) of None \<Rightarrow> page_not_found | Some rel \<Rightarrow> serve_rel fs media rel)"

section \<open>Where it looks\<close>

text \<open>The paths a file system of Go accepts: elements that are not empty, not \<^verbatim>\<open>.\<close> and not \<^verbatim>\<open>..\<close>.\<close>

definition valid_path :: "bytes \<Rightarrow> bool" where
  "valid_path p = list_all (\<lambda>w. w \<notin> {[], ''.'', ''..''}) (split_on (CHR ''/'') p)"

definition proper_name :: "bytes \<Rightarrow> bool" where
  "proper_name w \<longleftrightarrow> w \<notin> {[], ''.'', ''..''} \<and> CHR ''/'' \<notin> set w"

lemma clean_parts_ok: "list_all proper_name stack \<Longrightarrow> \<forall>w \<in> set ps. CHR ''/'' \<notin> set w \<Longrightarrow> list_all proper_name (clean_parts True stack ps)"
proof (induction ps arbitrary: stack)
  case (Cons p ps)
  have slash: "CHR ''/'' \<notin> set p" using Cons.prems(2) by simp
  have "\<exists>stack2. clean_parts True stack (p # ps) = clean_parts True stack2 ps \<and> list_all proper_name stack2"
  proof (cases "p = [] \<or> p = ''.''")
    case True
    then show ?thesis using Cons.prems(1) by auto
  next
    case plain: False
    show ?thesis
    proof (cases "p = ''..''")
      case False
      have "proper_name p" using False plain slash by (simp add: proper_name_def)
      then show ?thesis using False plain Cons.prems(1) by (intro exI[of _ "p # stack"]) simp
    next
      case True
      have d: "\<not> proper_name ''..''" by (simp add: proper_name_def)
      show ?thesis using True Cons.prems(1) d by (cases stack) auto
    qed
  qed
  then obtain stack2 where "clean_parts True stack (p # ps) = clean_parts True stack2 ps" "list_all proper_name stack2" by blast
  then show ?case using Cons.IH[of stack2] Cons.prems(2) by simp
qed simp

lemma path_clean_rooted:
  assumes "p = CHR ''/'' # r"
  shows "path_clean p = ''/'' \<or> (\<exists>q. path_clean p = CHR ''/'' # q \<and> valid_path q)"
proof -
  let ?ws = "clean_parts True [] (split_on (CHR ''/'') r)"
  have "list_all proper_name ?ws" by (rule clean_parts_ok) (auto dest: split_on_free)
  then have ok: "\<forall>w \<in> set ?ws. w \<notin> {[], ''.'', ''..''} \<and> CHR ''/'' \<notin> set w" by (simp add: list_all_iff proper_name_def)
  show ?thesis
  proof (cases "?ws = []")
    case True
    then show ?thesis using assms by (simp add: path_clean_def)
  next
    case False
    have "split_on (CHR ''/'') (join ''/'' ?ws) = ?ws" using ok False by (intro split_on_join) auto
    then have "valid_path (join ''/'' ?ws)" using ok unfolding valid_path_def by (simp only: list_all_iff) blast
    then show ?thesis using assms by (simp add: path_clean_def)
  qed
qed

lemma safe_rel_valid: "safe_rel p = Some rel \<Longrightarrow> valid_path rel"
proof -
  assume a: "safe_rel p = Some rel"
  have ix: "valid_path ''index.html''" by code_simp
  show ?thesis
  proof (cases "rel = ''index.html''")
    case False
    then have "has_prefix ''/'' p" "path_clean p \<noteq> ''/''" "rel = trim_prefix ''/'' (path_clean p)"
      using a by (auto simp: safe_rel_def Let_def split: if_splits)
    moreover obtain r where "p = CHR ''/'' # r" using calculation(1) by (auto simp: has_prefix_iff)
    ultimately show ?thesis using path_clean_rooted[of p r] by (auto simp: trim_prefix_def)
  qed (simp add: ix)
qed

lemma reserved_agree: "web_reserved = reserved_management_path"
  by (intro ext) (simp add: web_reserved_def reserved_management_path_def Let_def)

text \<open>The elements of a request's path once empty, dot and double-dot elements are resolved.  A path that
  starts with an element of a management interface is reserved however it is written.\<close>

definition path_elements :: "bytes \<Rightarrow> bytes list" where
  "path_elements p = clean_parts True [] (split_on (CHR ''/'') p)"

definition management_elements :: "bytes set" where
  "management_elements = {''v1'', ''mcp'', ''email'', ''healthz'', ''config'', ''.well-known''}"

lemma has_prefix_self: "has_prefix p (p @ q)"
  by (induction p) auto

lemma reserved_elements:
  assumes "path_elements p = w # ws" "w \<in> management_elements"
  shows "reserved_management_path p"
proof -
  let ?p = "path_clean (CHR ''/'' # p)"
  have "?p = CHR ''/'' # join ''/'' (w # ws)" using assms(1) by (simp add: path_clean_def path_elements_def)
  then have "?p = CHR ''/'' # w \<or> (\<exists>q. ?p = (CHR ''/'' # w @ ''/'') @ q)" by (cases ws) auto
  then have "?p = CHR ''/'' # w \<or> has_prefix (CHR ''/'' # w @ ''/'') ?p" using has_prefix_self by metis
  then show ?thesis using assms(2) unfolding reserved_management_path_def management_elements_def Let_def
    by (elim insertE emptyE) (auto simp del: has_prefix.simps)
qed

definition serves :: "web_tree \<Rightarrow> http_response \<Rightarrow> bytes \<Rightarrow> bool" where
  "serves fs resp name \<longleftrightarrow> (\<exists>f. fs name = Some f \<and> \<not> wf_dir f \<and> hr_payload resp = RawBody (wf_content f) \<and> hr_status resp = 200 \<and>
     (lookup (hr_headers resp) ''Cache-Control'' = Some ''public, max-age=31536000, immutable'' \<longrightarrow> hashed_asset name))"

lemma serve_file_cases:
  "serve_file fs media name h = page_not_found \<or> hr_status (serve_file fs media name h) = 500 \<or>
    (\<exists>f. fs name = Some f \<and> \<not> wf_dir f \<and> hr_payload (serve_file fs media name h) = RawBody (wf_content f) \<and>
      hr_status (serve_file fs media name h) = 200 \<and>
      (lookup (hr_headers (serve_file fs media name h)) ''Cache-Control'' = Some ''public, max-age=31536000, immutable'' \<longrightarrow> h))"
  by (auto simp: serve_file_def Let_def write_bytes_def plain_error_def split: option.splits)

text \<open>C36.  The UI never stands in for the management interfaces and never leaves its own tree.  Whenever the
  fallback answers a request, the first element of the request's path, once it is resolved, is none of
  v1, mcp, email, healthz, config and .well-known, under which the interfaces answer; and the
  answer is the refusal of the rate limiter, an error, or a file of the embedded tree under a path whose
  elements are all proper names - the one asked for, or the index page when there is no such file; and
  only a file whose name carries a hash is ever said to be immutable.\<close>

theorem ui_confined:
  assumes "re_ui e = Some (web_handler fs media)" "try_ui e rq inst sv = Some resp"
  shows "(path_elements (hq_path rq) = [] \<or>
      hd (path_elements (hq_path rq)) \<notin> {''v1'', ''mcp'', ''email'', ''healthz'', ''config'', ''.well-known''}) \<and>
    (\<not> re_rate e (hq_remote rq) \<and> resp = fst (fail_with inst too_many sv) \<or> hr_status resp \<in> {404, 405, 500} \<or>
     (\<exists>rel. safe_rel (hq_path rq) = Some rel \<and> valid_path rel \<and>
       (serves fs resp rel \<or> serves fs resp ''index.html'' \<and> (fs rel = None \<or> wf_dir (the (fs rel))))))"
proof -
  have r: "\<not> reserved_management_path (hq_path rq)"
    and out: "resp = fst (fail_with inst too_many sv) \<and> \<not> re_rate e (hq_remote rq) \<or> resp = web_handler fs media rq"
    using assms by (auto simp: try_ui_def split: if_splits)
  have err: "hr_status (plain_error c m) = c" for c m by (simp add: plain_error_def)
  have "hr_status resp \<in> {404, 405, 500} \<or> (\<exists>rel. safe_rel (hq_path rq) = Some rel \<and> valid_path rel \<and>
       (serves fs resp rel \<or> serves fs resp ''index.html'' \<and> (fs rel = None \<or> wf_dir (the (fs rel)))))" if w: "resp = web_handler fs media rq"
  proof (cases "resp = page_not_found \<or> resp = plain_error 405 ''method not allowed''")
    case True
    then show ?thesis by (auto simp: page_not_found_def err)
  next
    case False
    then obtain rel where rel: "safe_rel (hq_path rq) = Some rel" and s: "resp = serve_rel fs media rel"
      using w by (auto simp: web_handler_def split: if_splits option.splits)
    show ?thesis using False rel safe_rel_valid[OF rel] s serve_file_cases[of fs media rel "hashed_asset rel"]
        serve_file_cases[of fs media "''index.html''" False]
      by (auto simp: serve_rel_def serves_def split: if_splits)
  qed
  moreover have "path_elements (hq_path rq) = [] \<or>
      hd (path_elements (hq_path rq)) \<notin> {''v1'', ''mcp'', ''email'', ''healthz'', ''config'', ''.well-known''}"
    using r reserved_elements[of "hq_path rq"] unfolding management_elements_def by (metis list.exhaust_sel)
  ultimately show ?thesis using out by blast
qed

text \<open>A client route of a tree with only the index page.\<close>

definition demo_tree :: web_tree where
  "demo_tree p = (if p = ''index.html'' then Some \<lparr> wf_dir = False, wf_content = ''hello'' \<rparr> else None)"

definition demo_page :: http_request where
  "demo_page = demo_request ''GET'' ''/inbox'' [] None"

lemma ui_confined_witness:
  "\<exists>resp. try_ui (demo_rest_env \<lparr> re_ui := Some (web_handler demo_tree (\<lambda>x. [])) \<rparr>) demo_page [] demo_rest = Some resp \<and>
    (hr_status resp \<in> {404, 405, 500} \<or>
     (\<exists>rel. safe_rel (hq_path demo_page) = Some rel \<and> valid_path rel \<and>
       (serves demo_tree resp rel \<or> serves demo_tree resp ''index.html'' \<and> (demo_tree rel = None \<or> wf_dir (the (demo_tree rel))))))"
proof -
  let ?e = "demo_rest_env \<lparr> re_ui := Some (web_handler demo_tree (\<lambda>x. [])) \<rparr>"
  have path: "hq_path demo_page = ''/inbox''" by (simp add: demo_page_def demo_request_def)
  have "\<not> reserved_management_path ''/inbox''" by code_simp
  then have t: "try_ui ?e demo_page [] demo_rest = Some (web_handler demo_tree (\<lambda>x. []) demo_page)"
    by (simp add: try_ui_def path demo_rest_env_def)
  have "re_rate ?e (hq_remote demo_page)" by (simp add: demo_rest_env_def)
  then show ?thesis using ui_confined[OF _ t] t by auto
qed

end
