(* ===== verification/Metrics.thy ===== *)
theory Metrics
  imports Prelude "HOL-Library.List_Lexorder" "HOL-Library.Char_ord"
begin

text \<open>
  \<^verbatim>\<open>internal/observability\<close>: the frozen catalog of metrics and events, the rules for labels, the in-process
  store of samples with its bounded number of series, the export queue and the text that is scraped.

  A metric's value is a float64; its arithmetic is an argument, \<open>floats\<close>, over any type of values.  A label
  set is an association list whose order is the order the map is walked in.  A store method on no store
  does nothing, which is not written out; each method holds the store's mutex, so a method is a step.
\<close>

section \<open>The catalog\<close>

datatype metric_kind = Counter | Gauge | Histogram

record metric_def =
  md_name :: bytes
  md_kind :: metric_kind
  md_help :: bytes
  md_labels :: "bytes list"
  md_unit :: bytes

record event_def =
  ed_name :: bytes
  ed_fields :: "bytes list"

record metrics_document =
  mt_id :: bytes
  mt_version :: bytes
  mt_allowed :: "bytes list"
  mt_forbidden :: "bytes list"
  mt_metrics :: "metric_def list"
  mt_events :: "event_def list"

definition telemetry_dropped :: bytes where
  "telemetry_dropped = ''labmail_telemetry_dropped_total''"

definition allowed_labels :: "bytes list" where
  "allowed_labels = [''capability'', ''code_class'', ''component'', ''event'', ''reason'', ''result'', ''tool'']"

definition forbidden_labels :: "bytes list" where
  "forbidden_labels = [''actor'', ''actor_id'', ''address'', ''authorization'', ''body'', ''client'', ''client_ip'', ''data'', ''detail'',
     ''err'', ''error'', ''error_text'', ''from'', ''idempotency'', ''idempotency_key'', ''message'', ''password'', ''peer'', ''raw'',
     ''remote_addr'', ''source_ip'', ''src'', ''src_ip'', ''subject'', ''to'']"

definition event_fields :: "bytes list" where
  "event_fields = [''timestamp'', ''level'', ''event'', ''component'', ''request_id'', ''message_id'', ''smtp_code'', ''capability'',
     ''result'', ''error_code'', ''duration_ms'', ''store_generation'']"

definition metric_row :: "bytes \<Rightarrow> metric_kind \<Rightarrow> bytes \<Rightarrow> bytes list \<Rightarrow> bytes \<Rightarrow> metric_def" where
  "metric_row n k h ls u = \<lparr> md_name = n, md_kind = k, md_help = h, md_labels = ls, md_unit = u \<rparr>"

definition metric_rows :: "metric_def list" where
  "metric_rows = [
     metric_row ''labmail_smtp_sessions_total'' Counter ''SMTP sessions that ended.'' [''result''] [],
     metric_row ''labmail_smtp_messages_total'' Counter ''SMTP DATA outcomes.'' [''result''] [],
     metric_row ''labmail_smtp_session_duration_seconds'' Histogram ''SMTP session lifetime.'' [] ''seconds'',
     metric_row ''labmail_smtp_sessions_active'' Gauge ''Currently admitted SMTP sessions.'' [] [],
     metric_row ''labmail_store_messages'' Gauge ''Messages currently in the inbox.'' [] [],
     metric_row ''labmail_store_bytes'' Gauge ''Resident inbox bytes (raw + decoded).'' [] [],
     metric_row ''labmail_store_evictions_total'' Counter ''Oldest-message evictions.'' [] [],
     metric_row ''labmail_store_waiters'' Gauge ''Blocked Wait callers.'' [] [],
     metric_row ''labmail_http_requests_total'' Counter ''Management HTTP requests.'' [''capability'', ''code_class''] [],
     metric_row ''labmail_http_request_duration_seconds'' Histogram ''Management HTTP latency.'' [''capability''] ''seconds'',
     metric_row ''labmail_mcp_calls_total'' Counter ''MCP tool invocations.'' [''tool'', ''result''] [],
     metric_row ''labmail_auth_failures_total'' Counter ''Management authentication failures.'' [''reason''] [],
     metric_row ''labmail_audit_events_total'' Counter ''Audit ring records.'' [''event''] [],
     metric_row telemetry_dropped Counter ''Telemetry samples dropped under backpressure or policy.'' [''reason''] []]"

definition metrics :: "metric_def list" where
  "metrics = map (\<lambda>d. d \<lparr> md_labels := sort (md_labels d) \<rparr>) (sort_key md_name metric_rows)"

definition event_names :: "bytes list" where
  "event_names = [''smtp.accepted'', ''smtp.rejected'', ''smtp.session_end'', ''store.inserted'', ''store.deleted'', ''store.wiped'',
     ''store.full'', ''http.request'', ''mcp.call'', ''auth.failure'', ''auth.success'', ''state.reset'', ''state.apply'']"

definition event_defs :: "event_def list" where
  "event_defs = sort_key ed_name (map (\<lambda>n. \<lparr> ed_name = n, ed_fields = event_fields \<rparr>) event_names)"

definition metrics_catalog :: metrics_document where
  "metrics_catalog = \<lparr> mt_id = ''labmail.dev/metrics/v1alpha1'', mt_version = ''v1alpha1'', mt_allowed = allowed_labels,
     mt_forbidden = forbidden_labels, mt_metrics = metrics, mt_events = event_defs \<rparr>"

text \<open>The index is filled in order, so of two rows with one name the last would count.\<close>

definition lookup_metric :: "bytes \<Rightarrow> metric_def option" where
  "lookup_metric n = find (\<lambda>d. md_name d = n) (rev metrics)"

section \<open>Labels\<close>

type_synonym labels = "(bytes \<times> bytes) list"

definition forbidden_label :: "bytes \<Rightarrow> bool" where
  "forbidden_label key = (let k = to_lower (trim_space key) in
     k \<noteq> [] \<and> (k \<in> set (map to_lower forbidden_labels) \<or> contains ''subject'' k \<or> contains ''client_ip'' k \<or>
       contains ''remote_addr'' k \<or> contains ''password'' k))"

definition allowed_label :: "bytes \<Rightarrow> bool" where
  "allowed_label key = (to_lower (trim_space key) \<in> set (map to_lower allowed_labels))"

fun label_fault :: "bytes list \<Rightarrow> bytes list \<Rightarrow> bytes option" where
  "label_fault allowed [] = None"
| "label_fault allowed (k # ks) =
     (if forbidden_label k then Some ''forbidden_label'' else if k \<notin> set allowed then Some ''unknown_label'' else label_fault allowed ks)"

definition check_labels_def :: "metric_def \<Rightarrow> labels \<Rightarrow> bytes option" where
  "check_labels_def d ls = label_fault (md_labels d) (keys ls)"

definition check_labels :: "bytes \<Rightarrow> labels \<Rightarrow> bytes option" where
  "check_labels name ls = (case lookup_metric name of None \<Rightarrow> Some ''unknown_metric'' | Some d \<Rightarrow> check_labels_def d ls)"

definition label_of :: "labels \<Rightarrow> bytes \<Rightarrow> bytes" where
  "label_of ls k = (case lookup ls k of None \<Rightarrow> [] | Some v \<Rightarrow> v)"

definition filter_labels :: "metric_def \<Rightarrow> labels \<Rightarrow> labels" where
  "filter_labels d ls = map (\<lambda>k. (k, label_of ls k)) (md_labels d)"

definition smtp_session_result :: "bytes \<Rightarrow> bytes" where
  "smtp_session_result r = (if to_lower (trim_space r) \<in> {''ok'', ''rejected'', ''timeout''} then to_lower r else ''rejected'')"

definition smtp_message_result :: "bytes \<Rightarrow> bytes" where
  "smtp_message_result r = (if to_lower (trim_space r) \<in> {''accepted'', ''too_large'', ''store_full'', ''auth'', ''tls''}
     then to_lower r else ''rejected'')"

definition code_class :: "int \<Rightarrow> bytes" where
  "code_class st = (if st \<ge> 500 then ''5xx'' else if st \<ge> 400 then ''4xx'' else if st \<ge> 300 then ''3xx''
     else if st \<ge> 200 then ''2xx'' else ''1xx'')"

abbreviation pair_sep :: char where "pair_sep \<equiv> CHR 0x01"
abbreviation name_sep :: char where "name_sep \<equiv> CHR 0x00"

definition encode_labels :: "bytes list \<Rightarrow> labels \<Rightarrow> bytes" where
  "encode_labels order ls = join [pair_sep] (map (\<lambda>k. k @ name_sep # label_of ls k) order)"

fun decode_parts :: "bytes list \<Rightarrow> labels \<Rightarrow> labels" where
  "decode_parts [] out = out"
| "decode_parts (p # ps) out = (case cut name_sep p of (k, v, ok) \<Rightarrow> decode_parts ps (if ok then AList.update k v out else out))"

definition decode_labels :: "bytes \<Rightarrow> labels" where
  "decode_labels enc = (if enc = [] then [] else decode_parts (split_on pair_sep enc) [])"

definition scrape_labels :: "bytes \<Rightarrow> bytes \<Rightarrow> labels" where
  "scrape_labels name enc = (let raw = decode_labels enc in
     if raw = [] then raw
     else case lookup_metric name of
         None \<Rightarrow> []
       | Some d \<Rightarrow> if check_labels_def d raw = None then raw
           else concat (map (\<lambda>k. if forbidden_label k then [] else case lookup raw k of None \<Rightarrow> [] | Some v \<Rightarrow> [(k, v)]) (md_labels d)))"

section \<open>Values and histograms\<close>

text \<open>\<open>fl_format\<close> writes nine decimals; \<open>fl_milli n\<close> is the literal of n thousandths.\<close>

record 'v floats =
  fl_zero :: 'v
  fl_one :: 'v
  fl_is_zero :: "'v \<Rightarrow> bool"
  fl_add :: "'v \<Rightarrow> 'v \<Rightarrow> 'v"
  fl_le :: "'v \<Rightarrow> 'v \<Rightarrow> bool"
  fl_milli :: "nat \<Rightarrow> 'v"
  fl_of_nat :: "nat \<Rightarrow> 'v"
  fl_format :: "'v \<Rightarrow> bytes"

definition default_buckets :: "nat list" where
  "default_buckets = [1, 5, 10, 25, 50, 100, 250, 500, 1000, 2500, 5000, 10000]"

record 'v histogram =
  hg_bounds :: "'v list"
  hg_counts :: "nat list"
  hg_inf :: nat
  hg_sum :: 'v
  hg_n :: nat

record 'v bucket =
  bk_le :: "'v option"
  bk_count :: nat

definition new_hist :: "'v floats \<Rightarrow> 'v histogram" where
  "new_hist F = \<lparr> hg_bounds = map (fl_milli F) default_buckets, hg_counts = replicate (length default_buckets) 0, hg_inf = 0,
     hg_sum = fl_zero F, hg_n = 0 \<rparr>"

text \<open>The index of the first bound a value does not exceed.\<close>

fun placed :: "'v floats \<Rightarrow> 'v \<Rightarrow> 'v list \<Rightarrow> nat \<Rightarrow> nat option" where
  "placed F v [] i = None"
| "placed F v (b # bs) i = (if fl_le F v b then Some i else placed F v bs (Suc i))"

definition hist_add :: "'v floats \<Rightarrow> 'v \<Rightarrow> 'v histogram \<Rightarrow> 'v histogram" where
  "hist_add F v h = (let h1 = h \<lparr> hg_n := hg_n h + 1, hg_sum := fl_add F (hg_sum h) v \<rparr> in
     case placed F v (hg_bounds h) 0 of
       Some i \<Rightarrow> h1 \<lparr> hg_counts := (hg_counts h)[i := hg_counts h ! i + 1] \<rparr>
     | None \<Rightarrow> h1 \<lparr> hg_inf := hg_inf h + 1 \<rparr>)"

fun cumulate :: "('v \<times> nat) list \<Rightarrow> nat \<Rightarrow> 'v bucket list \<times> nat" where
  "cumulate [] cum = ([], cum)"
| "cumulate ((b, n) # xs) cum = (let (out, m) = cumulate xs (cum + n) in (\<lparr> bk_le = Some b, bk_count = cum + n \<rparr> # out, m))"

definition hist_snapshot :: "'v histogram \<Rightarrow> 'v bucket list \<times> 'v \<times> nat" where
  "hist_snapshot h = (let (out, cum) = cumulate (zip (hg_bounds h) (hg_counts h)) 0
     in (out @ [\<lparr> bk_le = None, bk_count = cum + hg_inf h \<rparr>], hg_sum h, hg_n h))"

section \<open>The export queue\<close>

record 'a queue =
  qu_items :: "'a list"
  qu_cap :: nat
  qu_dropped :: nat

definition new_queue :: "int \<Rightarrow> 'a queue" where
  "new_queue n = \<lparr> qu_items = [], qu_cap = (if n \<le> 0 then 1024 else nat n), qu_dropped = 0 \<rparr>"

definition try_send :: "'a \<Rightarrow> 'a queue \<Rightarrow> bool \<times> 'a queue" where
  "try_send x q = (if length (qu_items q) < qu_cap q then (True, q \<lparr> qu_items := qu_items q @ [x] \<rparr>)
     else (False, q \<lparr> qu_dropped := qu_dropped q + 1 \<rparr>))"

definition queue_recv :: "'a queue \<Rightarrow> 'a option \<times> 'a queue" where
  "queue_recv q = (case qu_items q of [] \<Rightarrow> (None, q) | x # xs \<Rightarrow> (Some x, q \<lparr> qu_items := xs \<rparr>))"

section \<open>The store of samples\<close>

definition max_series :: nat where "max_series = 256"

record 'v sample =
  sm_name :: bytes
  sm_kind :: metric_kind
  sm_labels :: labels
  sm_value :: "'v option"
  sm_hist :: "('v bucket list \<times> 'v \<times> nat) option"

type_synonym series = "bytes \<times> bytes"

record 'v metric_store =
  ms_counters :: "(series \<times> 'v) list"
  ms_gauges :: "(series \<times> 'v) list"
  ms_hists :: "(series \<times> 'v histogram) list"
  ms_series :: "(bytes \<times> nat) list"
  ms_export :: "'v sample queue option"
  ms_dropped :: nat

definition new_metrics :: "'v metric_store" where
  "new_metrics = \<lparr> ms_counters = [], ms_gauges = [], ms_hists = [], ms_series = [], ms_export = None, ms_dropped = 0 \<rparr>"

definition enable_export :: "int \<Rightarrow> 'v metric_store \<Rightarrow> 'v metric_store" where
  "enable_export n r = (if ms_export r = None then r \<lparr> ms_export := Some (new_queue n) \<rparr> else r)"

definition series_count :: "'v metric_store \<Rightarrow> bytes \<Rightarrow> nat" where
  "series_count r name = (case lookup (ms_series r) name of None \<Rightarrow> 0 | Some n \<Rightarrow> n)"

definition series_known :: "metric_kind \<Rightarrow> series \<Rightarrow> 'v metric_store \<Rightarrow> bool" where
  "series_known k key r = (case k of
       Counter \<Rightarrow> lookup (ms_counters r) key \<noteq> None
     | Gauge \<Rightarrow> lookup (ms_gauges r) key \<noteq> None
     | Histogram \<Rightarrow> lookup (ms_hists r) key \<noteq> None)"

definition ensure_series :: "bytes \<Rightarrow> series \<Rightarrow> metric_kind \<Rightarrow> 'v metric_store \<Rightarrow> bool \<times> 'v metric_store" where
  "ensure_series name key k r =
     (if series_known k key r then (True, r)
      else if series_count r name \<ge> max_series then (False, r)
      else (True, r \<lparr> ms_series := AList.update name (series_count r name + 1) (ms_series r) \<rparr>))"

definition add_counter :: "'v floats \<Rightarrow> series \<Rightarrow> 'v \<Rightarrow> 'v metric_store \<Rightarrow> 'v metric_store" where
  "add_counter F key v r = r \<lparr> ms_counters := AList.update key
     (fl_add F (case lookup (ms_counters r) key of None \<Rightarrow> fl_zero F | Some x \<Rightarrow> x) v) (ms_counters r) \<rparr>"

definition drop_locked :: "'v floats \<Rightarrow> bytes \<Rightarrow> 'v metric_store \<Rightarrow> 'v metric_store" where
  "drop_locked F reason r0 = (let r = r0 \<lparr> ms_dropped := ms_dropped r0 + 1 \<rparr> in
     case lookup_metric telemetry_dropped of
       None \<Rightarrow> r
     | Some d \<Rightarrow> (let key = (telemetry_dropped, encode_labels (md_labels d) [(''reason'', reason)])
         in if lookup (ms_counters r) key \<noteq> None then add_counter F key (fl_one F) r
            else if series_count r telemetry_dropped \<ge> max_series then r
            else add_counter F key (fl_one F)
              (r \<lparr> ms_series := AList.update telemetry_dropped (series_count r telemetry_dropped + 1) (ms_series r) \<rparr>)))"

definition drop_sample :: "'v floats \<Rightarrow> bytes \<Rightarrow> 'v metric_store \<Rightarrow> 'v metric_store" where
  "drop_sample F reason r = drop_locked F (if reason = [] then ''invalid'' else reason) r"

definition sample_locked :: "'v floats \<Rightarrow> series \<Rightarrow> metric_def \<Rightarrow> 'v metric_store \<Rightarrow> 'v sample" where
  "sample_locked F key d r = (let s = \<lparr> sm_name = fst key, sm_kind = md_kind d, sm_labels = scrape_labels (fst key) (snd key),
       sm_value = None, sm_hist = None \<rparr> in
     case md_kind d of
       Counter \<Rightarrow> s \<lparr> sm_value := Some (case lookup (ms_counters r) key of None \<Rightarrow> fl_zero F | Some v \<Rightarrow> v) \<rparr>
     | Gauge \<Rightarrow> s \<lparr> sm_value := Some (case lookup (ms_gauges r) key of None \<Rightarrow> fl_zero F | Some v \<Rightarrow> v) \<rparr>
     | Histogram \<Rightarrow> s \<lparr> sm_hist := map_option hist_snapshot (lookup (ms_hists r) key) \<rparr>)"

definition store_value :: "'v floats \<Rightarrow> metric_def \<Rightarrow> series \<Rightarrow> 'v \<Rightarrow> bool \<Rightarrow> 'v metric_store \<Rightarrow> 'v metric_store" where
  "store_value F d key v set_it r = (case md_kind d of
       Counter \<Rightarrow> add_counter F key v r
     | Gauge \<Rightarrow> r \<lparr> ms_gauges := AList.update key (if set_it then v
         else fl_add F (case lookup (ms_gauges r) key of None \<Rightarrow> fl_zero F | Some x \<Rightarrow> x) v) (ms_gauges r) \<rparr>
     | Histogram \<Rightarrow> r \<lparr> ms_hists := AList.update key
         (hist_add F v (case lookup (ms_hists r) key of None \<Rightarrow> new_hist F | Some h \<Rightarrow> h)) (ms_hists r) \<rparr>)"

definition send_export :: "'v floats \<Rightarrow> bytes \<Rightarrow> series \<Rightarrow> metric_def \<Rightarrow> 'v metric_store \<Rightarrow> 'v metric_store" where
  "send_export F name key d r = (case ms_export r of
       None \<Rightarrow> r
     | Some q \<Rightarrow>
         if name = telemetry_dropped then r
         else let (ok, q1) = try_send (sample_locked F key d r) q; r1 = r \<lparr> ms_export := Some q1 \<rparr>
           in if ok then r1 else drop_locked F ''export'' r1)"

definition series_key :: "metric_def \<Rightarrow> labels \<Rightarrow> series" where
  "series_key d ls = (md_name d, encode_labels (md_labels d) (filter_labels d ls))"

definition metric_observe :: "'v floats \<Rightarrow> bytes \<Rightarrow> metric_kind \<Rightarrow> labels \<Rightarrow> 'v \<Rightarrow> bool \<Rightarrow> 'v metric_store \<Rightarrow> 'v metric_store" where
  "metric_observe F name want ls v set_it r = (case lookup_metric name of
       None \<Rightarrow> drop_sample F ''unknown_metric'' r
     | Some d \<Rightarrow>
         if md_kind d \<noteq> want then drop_sample F ''unknown_metric'' r
         else case check_labels_def d ls of
             Some reason \<Rightarrow> drop_sample F reason r
           | None \<Rightarrow> (let key = series_key d ls; (ok, r1) = ensure_series name key (md_kind d) r
               in if \<not> ok then drop_locked F ''cardinality'' r1
                  else send_export F name key d (store_value F d key v set_it r1)))"

definition metric_inc :: "'v floats \<Rightarrow> bytes \<Rightarrow> labels \<Rightarrow> 'v \<Rightarrow> 'v metric_store \<Rightarrow> 'v metric_store" where
  "metric_inc F name ls n r = (if fl_is_zero F n then r else metric_observe F name Counter ls n False r)"

definition metric_set :: "'v floats \<Rightarrow> bytes \<Rightarrow> labels \<Rightarrow> 'v \<Rightarrow> 'v metric_store \<Rightarrow> 'v metric_store" where
  "metric_set F name ls v r = metric_observe F name Gauge ls v True r"

definition metric_histogram :: "'v floats \<Rightarrow> bytes \<Rightarrow> labels \<Rightarrow> 'v \<Rightarrow> 'v metric_store \<Rightarrow> 'v metric_store" where
  "metric_histogram F name ls v r = metric_observe F name Histogram ls v False r"

definition metric_get :: "'v floats \<Rightarrow> bytes \<Rightarrow> labels \<Rightarrow> 'v metric_store \<Rightarrow> 'v option" where
  "metric_get F name ls r = (case lookup_metric name of
       None \<Rightarrow> None
     | Some d \<Rightarrow> (case md_kind d of
         Counter \<Rightarrow> lookup (ms_counters r) (series_key d ls)
       | Gauge \<Rightarrow> lookup (ms_gauges r) (series_key d ls)
       | Histogram \<Rightarrow> map_option (\<lambda>h. fl_of_nat F (hg_n h)) (lookup (ms_hists r) (series_key d ls))))"

text \<open>Sorting by name and, within a name, by the encoded labels; samples that agree on both keep their order.\<close>

definition sample_key :: "'v sample \<Rightarrow> bytes" where
  "sample_key s = encode_labels (sort (keys (sm_labels s))) (sm_labels s)"

definition metric_snapshot :: "'v metric_store \<Rightarrow> 'v sample list" where
  "metric_snapshot r = (let one = (\<lambda>k key v h. \<lparr> sm_name = fst key, sm_kind = k, sm_labels = scrape_labels (fst key) (snd key),
       sm_value = v, sm_hist = h \<rparr>) in
     sort_key sm_name (sort_key sample_key
       (map (\<lambda>(key, v). one Counter key (Some v) None) (ms_counters r) @
        map (\<lambda>(key, v). one Gauge key (Some v) None) (ms_gauges r) @
        map (\<lambda>(key, h). one Histogram key None (Some (hist_snapshot h))) (ms_hists r))))"

section \<open>The text\<close>

definition replace_char :: "char \<Rightarrow> bytes \<Rightarrow> bytes \<Rightarrow> bytes" where
  "replace_char c by_str s = concat (map (\<lambda>x. if x = c then by_str else [x]) s)"

abbreviation backslash :: char where "backslash \<equiv> CHR 0x5C"
abbreviation quote :: char where "quote \<equiv> CHR 0x22"

definition escape_prom :: "bytes \<Rightarrow> bytes" where
  "escape_prom s = replace_char LF [backslash, CHR ''n''] (replace_char quote [backslash, quote] (replace_char backslash [backslash, backslash] s))"

definition prom_labels :: "labels \<Rightarrow> bytes" where
  "prom_labels ls = (if ls = [] then []
     else CHR ''{'' # join '','' (map (\<lambda>k. k @ CHR ''='' # quote # escape_prom (label_of ls k) @ [quote]) (sort (keys ls))) @ ''}'')"

definition merge_le :: "labels \<Rightarrow> bytes \<Rightarrow> labels" where
  "merge_le ls le = AList.update ''le'' le ls"

definition trim_float :: "'v floats \<Rightarrow> 'v \<Rightarrow> bytes" where
  "trim_float F v = trim_right_by (\<lambda>c. c = CHR ''.'') (trim_right_by (\<lambda>c. c = CHR ''0'') (fl_format F v))"

definition kind_name :: "metric_kind \<Rightarrow> bytes" where
  "kind_name k = (case k of Counter \<Rightarrow> ''counter'' | Gauge \<Rightarrow> ''gauge'' | Histogram \<Rightarrow> ''histogram'')"

definition sample_lines :: "'v floats \<Rightarrow> 'v sample \<Rightarrow> bytes list" where
  "sample_lines F s = (case sm_hist s of
       Some (bs, amount, n) \<Rightarrow>
         map (\<lambda>b. sm_name s @ ''_bucket'' @
           prom_labels (merge_le (sm_labels s) (case bk_le b of None \<Rightarrow> ''+Inf'' | Some x \<Rightarrow> trim_float F x)) @ SP # nat_str (bk_count b)) bs @
         [sm_name s @ ''_sum'' @ prom_labels (sm_labels s) @ SP # trim_float F amount,
          sm_name s @ ''_count'' @ prom_labels (sm_labels s) @ SP # nat_str n]
     | None \<Rightarrow> [sm_name s @ prom_labels (sm_labels s) @ SP # trim_float F (case sm_value s of None \<Rightarrow> fl_zero F | Some v \<Rightarrow> v)])"

fun scrape_from :: "'v floats \<Rightarrow> bytes \<Rightarrow> 'v sample list \<Rightarrow> bytes list" where
  "scrape_from F prev [] = []"
| "scrape_from F prev (s # ss) = (let d = lookup_metric (sm_name s) in
     (if sm_name s = prev then []
      else [''# HELP '' @ sm_name s @ SP # (case d of None \<Rightarrow> [] | Some x \<Rightarrow> md_help x),
            ''# TYPE '' @ sm_name s @ SP # (case d of None \<Rightarrow> [] | Some x \<Rightarrow> kind_name (md_kind x))]) @
     sample_lines F s @ scrape_from F (sm_name s) ss)"

definition write_prometheus :: "'v floats \<Rightarrow> 'v metric_store \<Rightarrow> bytes" where
  "write_prometheus F r = concat (map (\<lambda>l. l @ [LF]) (scrape_from F [] (metric_snapshot r)))"

definition write_open_metrics :: "'v floats \<Rightarrow> 'v metric_store option \<Rightarrow> bytes" where
  "write_open_metrics F r = (case r of None \<Rightarrow> [] | Some m \<Rightarrow> write_prometheus F m) @ ''# EOF'' @ [LF]"

definition open_metrics_type :: bytes where
  "open_metrics_type = ''application/openmetrics-text; version=1.0.0; charset=utf-8''"

text \<open>The scrape listener's handler: status, headers and body.\<close>

definition metrics_handler :: "'v floats \<Rightarrow> 'v metric_store option \<Rightarrow> bytes \<Rightarrow> nat \<times> (bytes \<times> bytes) list \<times> bytes" where
  "metrics_handler F r verb =
     (if verb \<notin> {''GET'', ''HEAD''} then (405, [(''Allow'', ''GET, HEAD'')], ''method not allowed'' @ [LF])
      else (200, [(''Content-Type'', open_metrics_type)], if verb = ''HEAD'' then [] else write_open_metrics F r))"

end
