(* ===== verification/Metrics_Props.thy ===== *)
theory Metrics_Props
  imports Metrics
begin

text \<open>
  What the telemetry promises: whatever is recorded, the store stays bounded and shows only the labels of the
  catalog; what is accepted is added up and what is not is counted; a scraped label reads back as its value.
\<close>

section \<open>The catalog\<close>

definition label_name_ok :: "bytes \<Rightarrow> bool" where
  "label_name_ok k = (allowed_label k \<and> \<not> forbidden_label k \<and> list_all (\<lambda>c. c \<notin> {name_sep, pair_sep, LF, CHR ''=''}) k)"

lemma allowed_ok: "list_all label_name_ok allowed_labels"
  by code_simp

lemma rows_ok: "distinct (map md_name metric_rows)" "list_all (\<lambda>d. distinct (md_labels d) \<and> set (md_labels d) \<subseteq> set allowed_labels) metric_rows"
  by code_simp+

lemma metric_names: "map md_name metrics = map md_name (sort_key md_name metric_rows)"
  by (simp add: metrics_def)

lemma metric_names_distinct: "distinct (map md_name metrics)"
  using rows_ok(1) by (simp add: metric_names distinct_map)

lemma find_by_name: "distinct (map f xs) \<Longrightarrow> x \<in> set xs \<Longrightarrow> find (\<lambda>y. f y = f x) xs = Some x"
  by (induction xs) (auto simp: image_iff)

lemma metric_from_row: "d \<in> set metrics \<longleftrightarrow> (\<exists>r \<in> set metric_rows. d = r \<lparr> md_labels := sort (md_labels r) \<rparr>)"
  by (auto simp: metrics_def)

lemma lookup_metric_in: "lookup_metric n = Some d \<longleftrightarrow> d \<in> set metrics \<and> md_name d = n"
proof
  assume "d \<in> set metrics \<and> md_name d = n"
  then have d: "d \<in> set (rev metrics)" "md_name d = n" by auto
  moreover have "distinct (map md_name (rev metrics))" using metric_names_distinct by (simp add: rev_map[symmetric])
  ultimately show "lookup_metric n = Some d" using find_by_name[of md_name "rev metrics" d] by (simp add: lookup_metric_def)
qed (auto simp: lookup_metric_def find_Some_iff rev_nth)

lemma metric_labels:
  assumes "lookup_metric n = Some d"
  shows "distinct (md_labels d)" "\<forall>k \<in> set (md_labels d). allowed_label k \<and> \<not> forbidden_label k \<and> name_sep \<notin> set k \<and>
    pair_sep \<notin> set k \<and> LF \<notin> set k \<and> CHR ''='' \<notin> set k"
proof -
  obtain r where r: "r \<in> set metric_rows" "d = r \<lparr> md_labels := sort (md_labels r) \<rparr>"
    using assms by (auto simp: lookup_metric_in metric_from_row)
  then show "distinct (md_labels d)" using rows_ok(2) by (simp add: list_all_iff)
  have "set (md_labels d) \<subseteq> set allowed_labels" using r rows_ok(2) by (simp add: list_all_iff)
  then show "\<forall>k \<in> set (md_labels d). allowed_label k \<and> \<not> forbidden_label k \<and> name_sep \<notin> set k \<and>
    pair_sep \<notin> set k \<and> LF \<notin> set k \<and> CHR ''='' \<notin> set k"
    using allowed_ok by (fastforce simp: list_all_iff label_name_ok_def)
qed

lemma lookup_row: "r \<in> set metric_rows \<Longrightarrow> lookup_metric (md_name r) = Some (r \<lparr> md_labels := sort (md_labels r) \<rparr>)"
  by (auto simp: lookup_metric_in metric_from_row)

lemma dropped_metric: "\<exists>d. lookup_metric telemetry_dropped = Some d \<and> md_kind d = Counter \<and> md_labels d = [''reason'']"
proof -
  let ?r = "metric_row telemetry_dropped Counter ''Telemetry samples dropped under backpressure or policy.'' [''reason''] []"
  have "?r \<in> set metric_rows" by (simp add: metric_rows_def)
  from lookup_row[OF this] show ?thesis by (simp add: metric_row_def)
qed

lemma calls_metric: "\<exists>d. lookup_metric ''labmail_mcp_calls_total'' = Some d \<and> md_kind d = Counter \<and> md_labels d = [''result'', ''tool'']"
proof -
  let ?r = "metric_row ''labmail_mcp_calls_total'' Counter ''MCP tool invocations.'' [''tool'', ''result''] []"
  have "?r \<in> set metric_rows" by (simp add: metric_rows_def)
  moreover have "sort [''tool'', ''result''] = [''result'', ''tool'']" by code_simp
  ultimately show ?thesis using lookup_row[of ?r] by (simp add: metric_row_def)
qed

section \<open>What a scrape shows of a series\<close>

lemma label_fault_None: "label_fault allowed ks = None \<longleftrightarrow> list_all (\<lambda>k. \<not> forbidden_label k \<and> k \<in> set allowed) ks"
  by (induction allowed ks rule: label_fault.induct) auto

definition labels_shown :: "bytes \<Rightarrow> labels \<Rightarrow> bool" where
  "labels_shown name ls = list_all (\<lambda>k. \<not> forbidden_label k \<and> (case lookup_metric name of None \<Rightarrow> False | Some d \<Rightarrow> k \<in> set (md_labels d)))
     (keys ls)"

lemma scrape_labels_shown: "labels_shown name (scrape_labels name enc)"
proof (cases "lookup_metric name")
  case None
  then show ?thesis by (simp add: scrape_labels_def labels_shown_def Let_def)
next
  case (Some d)
  let ?raw = "decode_labels enc"
  show ?thesis
  proof (cases "check_labels_def d ?raw = None")
    case True
    then show ?thesis using Some
      by (simp add: scrape_labels_def labels_shown_def Let_def check_labels_def_def label_fault_None)
  next
    case False
    define shown where "shown ks = concat (map (\<lambda>k. if forbidden_label k then []
        else case lookup ?raw k of None \<Rightarrow> [] | Some v \<Rightarrow> [(k, v)]) ks)" for ks
    have "k \<in> set (keys (shown ks)) \<Longrightarrow> \<not> forbidden_label k \<and> k \<in> set ks" for k ks
      by (induction ks) (auto simp: shown_def split: if_splits option.splits)
    then have k: "list_all (\<lambda>k. \<not> forbidden_label k \<and> k \<in> set ks) (keys (shown ks))" for ks unfolding list_all_iff by blast
    have "scrape_labels name enc = (if ?raw = [] then [] else shown (md_labels d))"
      using Some False by (auto simp: scrape_labels_def Let_def shown_def)
    then show ?thesis using k Some by (simp add: labels_shown_def)
  qed
qed

lemma decode_parts_encoded:
  assumes "distinct ks" "\<forall>k \<in> set ks. name_sep \<notin> set k \<and> k \<notin> set (keys out)"
  shows "decode_parts (map (\<lambda>k. k @ name_sep # f k) ks) out = out @ map (\<lambda>k. (k, f k)) ks"
  using assms
proof (induction ks arbitrary: out)
  case (Cons k ks)
  then have "decode_parts (map (\<lambda>k. k @ name_sep # f k) ks) (out @ [(k, f k)]) = (out @ [(k, f k)]) @ map (\<lambda>k. (k, f k)) ks"
    by (intro Cons.IH) auto
  then show ?case using Cons.prems by (simp add: cut_append keys_update_new)
qed simp

lemma label_of_filter: "k \<in> set (md_labels d) \<Longrightarrow> label_of (filter_labels d ls) k = label_of ls k"
  by (simp add: filter_labels_def label_of_def map_of_map_restrict split: option.splits)

text \<open>A series shows the labels it was recorded under: whatever label set the catalog accepts for a metric,
  the key its sample is stored under is decoded, when it is scraped, to exactly the metric's labels with the
  values given - and the empty string for one that was left out - as long as no value contains the byte
  that separates the pairs.  So two series of a metric never share a key unless their labels agree.\<close>

lemma labels_roundtrip:
  assumes "lookup_metric name = Some d" "\<forall>k \<in> set (md_labels d). pair_sep \<notin> set (label_of ls k)"
  shows "scrape_labels name (snd (series_key d ls)) = map (\<lambda>k. (k, label_of ls k)) (md_labels d)"
proof (cases "md_labels d = []")
  case True
  then show ?thesis by (simp add: series_key_def encode_labels_def scrape_labels_def decode_labels_def)
next
  case False
  let ?f = "label_of ls" and ?ks = "md_labels d"
  let ?ps = "map (\<lambda>k. k @ name_sep # ?f k) ?ks"
  note ok = metric_labels[OF assms(1)]
  have enc: "snd (series_key d ls) = join [pair_sep] ?ps"
    by (simp add: series_key_def encode_labels_def label_of_filter cong: map_cong)
  have "?ps \<noteq> []" "\<forall>p \<in> set ?ps. pair_sep \<notin> set p" using ok(2) assms(2) False by auto
  then have sp: "split_on pair_sep (join [pair_sep] ?ps) = ?ps" by (rule split_on_join)
  have "join [pair_sep] ?ps \<noteq> []" using False by (cases ?ks; cases "tl ?ks") auto
  then have dec: "decode_labels (snd (series_key d ls)) = map (\<lambda>k. (k, ?f k)) ?ks"
    using decode_parts_encoded[OF ok(1), of "[]" ?f] ok(2) by (simp add: decode_labels_def enc sp)
  have "check_labels_def d (map (\<lambda>k. (k, ?f k)) ?ks) = None"
    using ok(2) by (simp add: check_labels_def_def label_fault_None list_all_iff o_def)
  then show ?thesis using assms(1) dec by (simp add: scrape_labels_def Let_def)
qed

lemma labels_roundtrip_witness:
  "\<exists>d. lookup_metric ''labmail_mcp_calls_total'' = Some d \<and>
    scrape_labels ''labmail_mcp_calls_total'' (snd (series_key d [(''tool'', ''mail_wait'')])) = [(''result'', []), (''tool'', ''mail_wait'')]"
proof -
  obtain d where d: "lookup_metric ''labmail_mcp_calls_total'' = Some d" "md_labels d = [''result'', ''tool'']"
    using calls_metric by blast
  have v: "label_of [(''tool'', ''mail_wait'')] ''result'' = []" "label_of [(''tool'', ''mail_wait'')] ''tool'' = ''mail_wait''"
    by (simp_all add: label_of_def)
  then show ?thesis using labels_roundtrip[OF d(1), of "[(''tool'', ''mail_wait'')]"] d by simp
qed

text \<open>With the separator in a value, the value of one label replaces another label's.\<close>

lemma label_value_replaces_label:
  "\<exists>d. lookup_metric ''labmail_mcp_calls_total'' = Some d \<and>
     scrape_labels ''labmail_mcp_calls_total'' (snd (series_key d [(''result'', ''error''), (''tool'', ''t'' @ pair_sep # ''result'' @ name_sep # ''ok'')])) =
     [(''result'', ''ok''), (''tool'', ''t'')]"
proof -
  obtain d where d: "lookup_metric ''labmail_mcp_calls_total'' = Some d" "md_labels d = [''result'', ''tool'']"
    using calls_metric by blast
  have "decode_labels (encode_labels [''result'', ''tool''] [(''result'', ''error''), (''tool'', ''t'' @ pair_sep # ''result'' @ name_sep # ''ok'')]) =
      [(''result'', ''ok''), (''tool'', ''t'')]" by code_simp
  moreover have "encode_labels [''result'', ''tool''] (filter_labels d ls) = encode_labels [''result'', ''tool''] ls" for ls
    using d(2) by (simp add: encode_labels_def label_of_filter)
  ultimately have dec: "decode_labels (snd (series_key d [(''result'', ''error''), (''tool'', ''t'' @ pair_sep # ''result'' @ name_sep # ''ok'')])) =
      [(''result'', ''ok''), (''tool'', ''t'')]" using d(2) by (simp add: series_key_def)
  have "check_labels_def d [(''result'', ''ok''), (''tool'', ''t'')] = None"
    using metric_labels(2)[OF d(1)] d(2) by (simp add: check_labels_def_def label_fault_None)
  then show ?thesis using d(1) dec by (simp add: scrape_labels_def Let_def)
qed

section \<open>The bound\<close>

datatype 'v metric_call =
    CallInc bytes labels 'v
  | CallSet bytes labels 'v
  | CallObserve bytes labels 'v
  | CallExport int
  | CallReceive

definition metric_step :: "'v floats \<Rightarrow> 'v metric_call \<Rightarrow> 'v metric_store \<Rightarrow> 'v metric_store" where
  "metric_step F c r = (case c of
       CallInc n ls v \<Rightarrow> metric_inc F n ls v r
     | CallSet n ls v \<Rightarrow> metric_set F n ls v r
     | CallObserve n ls v \<Rightarrow> metric_histogram F n ls v r
     | CallExport n \<Rightarrow> enable_export n r
     | CallReceive \<Rightarrow> r \<lparr> ms_export := map_option (\<lambda>q. snd (queue_recv q)) (ms_export r) \<rparr>)"

definition series_keys :: "metric_kind \<Rightarrow> 'v metric_store \<Rightarrow> series list" where
  "series_keys k r = (case k of Counter \<Rightarrow> keys (ms_counters r) | Gauge \<Rightarrow> keys (ms_gauges r) | Histogram \<Rightarrow> keys (ms_hists r))"

definition all_series :: "'v metric_store \<Rightarrow> series list" where
  "all_series r = keys (ms_counters r) @ keys (ms_gauges r) @ keys (ms_hists r)"

definition export_ok :: "'v metric_store \<Rightarrow> bool" where
  "export_ok r = (case ms_export r of None \<Rightarrow> True | Some q \<Rightarrow> length (qu_items q) \<le> qu_cap q \<and>
     list_all (\<lambda>s. labels_shown (sm_name s) (sm_labels s)) (qu_items q))"

definition metrics_inv :: "'v metric_store \<Rightarrow> bool" where
  "metrics_inv r \<longleftrightarrow>
     (\<forall>k. distinct (series_keys k r) \<and> (\<forall>s \<in> set (series_keys k r). \<exists>d. lookup_metric (fst s) = Some d \<and> md_kind d = k)) \<and>
     (\<forall>n. series_count r n = length (filter (\<lambda>s. fst s = n) (all_series r))) \<and> (\<forall>n. series_count r n \<le> max_series)"

lemma keys_update: "keys (AList.update k v m) = (if k \<in> set (keys m) then keys m else keys m @ [k])"
  by (induction m) auto

lemma known_series: "series_known k key r \<longleftrightarrow> key \<in> set (series_keys k r)"
  by (cases k) (simp_all add: series_known_def series_keys_def lookup_None_iff)

lemma count_all: "length (filter P (all_series r)) =
    length (filter P (series_keys Counter r)) + length (filter P (series_keys Gauge r)) + length (filter P (series_keys Histogram r))"
  by (simp add: all_series_def series_keys_def)

lemma metrics_inv_same:
  assumes "metrics_inv r" "\<And>k. series_keys k r1 = series_keys k r" "ms_series r1 = ms_series r"
  shows "metrics_inv r1"
proof -
  have "all_series r1 = all_series r" using assms(2)[of Counter] assms(2)[of Gauge] assms(2)[of Histogram]
    by (simp add: all_series_def series_keys_def)
  moreover have "series_count r1 n = series_count r n" for n using assms(3) by (simp add: series_count_def)
  ultimately show ?thesis using assms(1,2) unfolding metrics_inv_def by metis
qed

lemma metrics_inv_grow:
  assumes inv: "metrics_inv r" and d: "lookup_metric (fst key) = Some d" "md_kind d = k"
    and new: "key \<notin> set (series_keys k r)" "series_count r (fst key) < max_series"
    and ks: "\<And>j. series_keys j r1 = (if j = k then series_keys j r @ [key] else series_keys j r)"
    and ser: "ms_series r1 = AList.update (fst key) (series_count r (fst key) + 1) (ms_series r)"
  shows "metrics_inv r1"
proof -
  have cnt: "series_count r1 n = series_count r n + (if n = fst key then 1 else 0)" for n
    by (simp add: series_count_def ser)
  have len: "length (filter P (all_series r1)) = length (filter P (all_series r)) + (if P key then 1 else 0)" for P
    unfolding count_all ks by (cases k) auto
  have "distinct (series_keys j r1) \<and> (\<forall>s \<in> set (series_keys j r1). \<exists>d. lookup_metric (fst s) = Some d \<and> md_kind d = j)" for j
    using inv d new(1) by (auto simp: metrics_inv_def ks)
  moreover have bound: "series_count r n \<le> max_series" for n using inv unfolding metrics_inv_def by blast
  moreover have "series_count r1 n = length (filter (\<lambda>s. fst s = n) (all_series r1))" for n
    using inv by (simp add: metrics_inv_def cnt len eq_commute)
  moreover have "series_count r1 n \<le> max_series" for n
    using bound[of n] new(2) by (cases "n = fst key") (simp_all add: cnt)
  ultimately show ?thesis by (simp add: metrics_inv_def)
qed

lemma store_value_keys:
  "series_keys j (store_value F d key v s r) = (if j = md_kind d \<and> key \<notin> set (series_keys j r) then series_keys j r @ [key] else series_keys j r)"
  "ms_series (store_value F d key v s r) = ms_series r" "ms_export (store_value F d key v s r) = ms_export r"
  by (cases "md_kind d"; cases j; simp add: store_value_def add_counter_def series_keys_def keys_update)+

lemma add_counter_keys:
  "series_keys j (add_counter F key v r) = (if j = Counter \<and> key \<notin> set (series_keys j r) then series_keys j r @ [key] else series_keys j r)"
  "ms_series (add_counter F key v r) = ms_series r" "ms_export (add_counter F key v r) = ms_export r"
  by (cases j; simp add: add_counter_def series_keys_def keys_update)+

lemma recorded_inv:
  assumes inv: "metrics_inv r" and d: "lookup_metric name = Some d" and key: "fst key = name"
    and ok: "ensure_series name key (md_kind d) r = (True, r1)"
  shows "metrics_inv (store_value F d key v s r1)"
proof (cases "series_known (md_kind d) key r")
  case True
  then have "r1 = r" using ok by (simp add: ensure_series_def)
  then show ?thesis using True by (intro metrics_inv_same[OF inv]) (auto simp: store_value_keys known_series)
next
  case False
  then have lt: "series_count r name < max_series" and r1: "r1 = r \<lparr> ms_series := AList.update name (series_count r name + 1) (ms_series r) \<rparr>"
    using ok by (auto simp: ensure_series_def split: if_splits)
  have "series_keys j r1 = series_keys j r" for j by (cases j) (simp_all add: r1 series_keys_def)
  then show ?thesis using False lt key d
    by (intro metrics_inv_grow[OF inv, of key d "md_kind d"]) (auto simp: store_value_keys known_series r1)
qed

lemma drop_locked_frame:
  "ms_gauges (drop_locked F reason r) = ms_gauges r" "ms_hists (drop_locked F reason r) = ms_hists r"
  "ms_export (drop_locked F reason r) = ms_export r" "ms_dropped (drop_locked F reason r) = ms_dropped r + 1"
  "fst key \<noteq> telemetry_dropped \<Longrightarrow> lookup (ms_counters (drop_locked F reason r)) key = lookup (ms_counters r) key"
  using dropped_metric by (auto simp: drop_locked_def Let_def add_counter_def)

lemma drop_locked_inv: "metrics_inv r \<Longrightarrow> metrics_inv (drop_locked F reason r)"
proof -
  assume inv: "metrics_inv r"
  obtain d where d: "lookup_metric telemetry_dropped = Some d" "md_kind d = Counter" using dropped_metric by blast
  define key where "key = (telemetry_dropped, encode_labels (md_labels d) [(''reason'', reason)])"
  define r1 where "r1 = r \<lparr> ms_dropped := ms_dropped r + 1 \<rparr>"
  have sk: "series_keys j r1 = series_keys j r" "series_count r1 n = series_count r n" for j n
    by (cases j; simp add: r1_def series_keys_def series_count_def)+
  have inv1: "metrics_inv r1" by (rule metrics_inv_same[OF inv sk(1)]) (simp add: r1_def)
  have out: "drop_locked F reason r = (if series_known Counter key r1 then add_counter F key (fl_one F) r1
      else if series_count r1 telemetry_dropped \<ge> max_series then r1
      else add_counter F key (fl_one F) (r1 \<lparr> ms_series := AList.update telemetry_dropped (series_count r1 telemetry_dropped + 1) (ms_series r1) \<rparr>))"
    by (simp add: drop_locked_def Let_def d(1) key_def r1_def series_known_def)
  show ?thesis
  proof (cases "series_known Counter key r1")
    case True
    then have "metrics_inv (add_counter F key (fl_one F) r1)"
      by (intro metrics_inv_same[OF inv1]) (auto simp: add_counter_keys known_series)
    then show ?thesis using out True by simp
  next
    case False
    show ?thesis
    proof (cases "series_count r1 telemetry_dropped \<ge> max_series")
      case True
      then show ?thesis using out False inv1 by simp
    next
      case room: False
      define r2 where "r2 = r1 \<lparr> ms_series := AList.update telemetry_dropped (series_count r1 telemetry_dropped + 1) (ms_series r1) \<rparr>"
      have k2: "series_keys j r2 = series_keys j r1" for j by (cases j) (simp_all add: series_keys_def r2_def)
      have "metrics_inv (add_counter F key (fl_one F) r2)"
        using False room d by (intro metrics_inv_grow[OF inv1, of key d Counter])
          (auto simp: add_counter_keys known_series k2 key_def, simp add: r2_def)
      then show ?thesis using out False room by (simp add: r2_def)
    qed
  qed
qed

lemma ensure_series_frame:
  assumes "ensure_series name key k r = (ok, r1)"
  shows "ms_counters r1 = ms_counters r" "ms_gauges r1 = ms_gauges r" "ms_hists r1 = ms_hists r" "ms_export r1 = ms_export r"
    "ms_dropped r1 = ms_dropped r" "\<not> ok \<Longrightarrow> r1 = r" "ok \<longleftrightarrow> series_known k key r \<or> series_count r name < max_series"
  using assms by (auto simp: ensure_series_def split: if_splits)

lemma send_export_inv:
  assumes "metrics_inv r" "export_ok r"
  shows "metrics_inv (send_export F name key d r) \<and> export_ok (send_export F name key d r)"
proof -
  have k: "series_keys j (r \<lparr> ms_export := x \<rparr>) = series_keys j r" for j x by (cases j) (simp_all add: series_keys_def)
  have inv: "metrics_inv (r \<lparr> ms_export := x \<rparr>)" for x by (rule metrics_inv_same[OF assms(1) k]) simp
  have "labels_shown (sm_name (sample_locked F key d r)) (sm_labels (sample_locked F key d r))"
    using scrape_labels_shown by (cases "md_kind d") (simp_all add: sample_locked_def Let_def)
  then show ?thesis using assms inv drop_locked_inv[OF inv]
    by (auto simp: send_export_def try_send_def export_ok_def drop_locked_frame Let_def split: option.splits)
qed

lemma metric_observe_inv:
  assumes "metrics_inv r" "export_ok r"
  shows "metrics_inv (metric_observe F name want ls v s r) \<and> export_ok (metric_observe F name want ls v s r)"
proof -
  have drop: "metrics_inv (drop_sample F reason r) \<and> export_ok (drop_sample F reason r)" for reason
    using assms drop_locked_inv by (auto simp: drop_sample_def export_ok_def drop_locked_frame)
  show ?thesis
  proof (cases "\<exists>d. lookup_metric name = Some d \<and> md_kind d = want \<and> check_labels_def d ls = None")
    case False
    then show ?thesis using drop by (auto simp: metric_observe_def split: option.splits)
  next
    case True
    then obtain d where d: "lookup_metric name = Some d" "md_kind d = want" "check_labels_def d ls = None" by blast
    obtain ok r1 where e: "ensure_series name (series_key d ls) want r = (ok, r1)" by fastforce
    have fst: "fst (series_key d ls) = name" using d(1) by (simp add: series_key_def lookup_metric_in)
    show ?thesis
    proof (cases ok)
      case False
      then show ?thesis using assms drop_locked_inv e ensure_series_frame[OF e] d
        by (auto simp: metric_observe_def export_ok_def drop_locked_frame)
    next
      case True
      have "metrics_inv (store_value F d (series_key d ls) v s r1)"
        using recorded_inv[OF assms(1) d(1) fst, of r1] e True d(2) by simp
      moreover have "export_ok (store_value F d (series_key d ls) v s r1)"
        using assms(2) ensure_series_frame(4)[OF e] by (simp add: export_ok_def store_value_keys)
      ultimately show ?thesis using send_export_inv[of "store_value F d (series_key d ls) v s r1" F name "series_key d ls" d] e True d
        by (simp add: metric_observe_def Let_def)
    qed
  qed
qed

lemma metric_step_inv: "metrics_inv r \<Longrightarrow> export_ok r \<Longrightarrow> metrics_inv (metric_step F c r) \<and> export_ok (metric_step F c r)"
proof -
  assume inv: "metrics_inv r" and ex: "export_ok r"
  have k: "series_keys j (r \<lparr> ms_export := x \<rparr>) = series_keys j r" for j x by (cases j) (simp_all add: series_keys_def)
  have e: "metrics_inv (r \<lparr> ms_export := x \<rparr>)" for x by (rule metrics_inv_same[OF inv k]) simp
  show ?thesis using inv ex e metric_observe_inv[OF inv ex]
    by (cases c) (auto simp: metric_step_def metric_inc_def metric_set_def metric_histogram_def enable_export_def new_queue_def
        export_ok_def queue_recv_def split: option.splits list.splits)
qed

lemma metrics_run_inv: "metrics_inv r \<Longrightarrow> export_ok r \<Longrightarrow>
    metrics_inv (fold (metric_step F) cs r) \<and> export_ok (fold (metric_step F) cs r)"
  by (induction cs arbitrary: r) (simp_all add: metric_step_inv)

lemma new_metrics_inv: "metrics_inv new_metrics" "export_ok new_metrics"
  by (auto simp: metrics_inv_def export_ok_def new_metrics_def series_keys_def all_series_def series_count_def split: metric_kind.splits)

lemma snapshot_sample:
  assumes "s \<in> set (metric_snapshot r)"
  shows "labels_shown (sm_name s) (sm_labels s)" "sm_name s \<in> fst ` set (all_series r)"
  using assms scrape_labels_shown by (auto simp: metric_snapshot_def Let_def all_series_def image_iff split: prod.splits) force+

lemma snapshot_length: "length (filter (\<lambda>s. sm_name s = n) (metric_snapshot r)) = length (filter (\<lambda>s. fst s = n) (all_series r))"
proof -
  have l: "length (filter P (sort_key f xs)) = length (filter P xs)" for P :: "'a sample \<Rightarrow> bool" and f :: "'a sample \<Rightarrow> bytes" and xs
    by (metis filter_sort length_sort)
  show ?thesis unfolding metric_snapshot_def Let_def l
    by (simp add: all_series_def filter_map o_def case_prod_beta)
qed

lemma finitely_many_series: "\<lbrakk>set ns \<subseteq> set ms; distinct ms; \<And>m. length (filter (\<lambda>n. n = m) ns) \<le> b\<rbrakk> \<Longrightarrow> length ns \<le> length ms * b"
proof (induction ms arbitrary: ns)
  case (Cons m ms)
  have "length ns = length (filter (\<lambda>n. n = m) ns) + length (filter (\<lambda>n. n \<noteq> m) ns)"
    by (simp add: sum_length_filter_compl)
  moreover have "length (filter (\<lambda>n. n \<noteq> m) ns) \<le> length ms * b"
  proof (rule Cons.IH)
    show "length (filter (\<lambda>n. n = k) (filter (\<lambda>n. n \<noteq> m) ns)) \<le> b" for k
      using Cons.prems(3)[of k] le_trans[OF length_filter_le[of "\<lambda>n. n \<noteq> m" "filter (\<lambda>n. n = k) ns"]] by (simp add: conj_commute)
  qed (use Cons.prems in auto)
  ultimately show ?case using Cons.prems(3)[of m] by (simp add: algebra_simps)
qed simp

lemma metric_count: "length metrics = 14"
  by (simp add: metrics_def metric_rows_def)

text \<open>C37.  Telemetry stays bounded and private whatever is recorded.  After any calls of the store's methods,
  with any names, labels and values - caller-supplied ones included - a scrape shows at most 256 series of a
  metric and at most 14 times as many in all, each of a metric of the catalog and with no other labels than
  the metric declares, none of them a forbidden one such as a subject, an address or a password; and the
  export queue is within its capacity and holds only such samples.\<close>

theorem metrics_bounded:
  "let r = fold (metric_step F) cs new_metrics in
    length (filter (\<lambda>s. sm_name s = n) (metric_snapshot r)) \<le> 256 \<and> length (metric_snapshot r) \<le> 14 * 256 \<and>
    list_all (\<lambda>s. sm_name s \<in> set (map md_name metrics) \<and> labels_shown (sm_name s) (sm_labels s)) (metric_snapshot r) \<and> export_ok r"
proof -
  define r where "r = fold (metric_step F) cs new_metrics"
  have inv: "metrics_inv r" and ex: "export_ok r"
    unfolding r_def using metrics_run_inv[OF new_metrics_inv] by auto
  have one: "length (filter (\<lambda>s. sm_name s = n) (metric_snapshot r)) \<le> 256" for n
    using inv unfolding metrics_inv_def snapshot_length max_series_def by metis
  have named: "sm_name s \<in> set (map md_name metrics)" if shown: "s \<in> set (metric_snapshot r)" for s
  proof -
    obtain key where key: "key \<in> set (all_series r)" "sm_name s = fst key" using snapshot_sample(2)[OF shown] by auto
    have "set (all_series r) \<subseteq> (\<Union>k. set (series_keys k r))"
      using UN_upper[of Counter UNIV "\<lambda>k. set (series_keys k r)"] UN_upper[of Gauge UNIV "\<lambda>k. set (series_keys k r)"]
        UN_upper[of Histogram UNIV "\<lambda>k. set (series_keys k r)"] by (simp add: all_series_def series_keys_def)
    then obtain k where "key \<in> set (series_keys k r)" using key by auto
    then obtain d where "lookup_metric (fst key) = Some d" using inv unfolding metrics_inv_def by blast
    then show ?thesis using key(2) by (force simp: lookup_metric_in)
  qed
  have "length (map sm_name (metric_snapshot r)) \<le> length (map md_name metrics) * 256"
    using named metric_names_distinct one by (intro finitely_many_series) (auto simp: filter_map o_def)
  then show ?thesis unfolding Let_def r_def[symmetric]
    using one[of n] named snapshot_sample(1)[of _ r] ex metric_count by (simp add: list_all_iff)
qed

section \<open>What is recorded\<close>

text \<open>A sample is accepted when its metric exists and has that kind, its labels are the metric's, and its series
  exists or there is room for one.\<close>

definition accepts :: "bytes \<Rightarrow> metric_kind \<Rightarrow> labels \<Rightarrow> 'v metric_store \<Rightarrow> bool" where
  "accepts name want ls r = (case lookup_metric name of
       None \<Rightarrow> False
     | Some d \<Rightarrow> md_kind d = want \<and> check_labels_def d ls = None \<and>
         (series_known want (series_key d ls) r \<or> series_count r name < max_series))"

definition export_full :: "bytes \<Rightarrow> 'v metric_store \<Rightarrow> bool" where
  "export_full name r = (name \<noteq> telemetry_dropped \<and> (case ms_export r of None \<Rightarrow> False | Some q \<Rightarrow> length (qu_items q) \<ge> qu_cap q))"

definition same_values :: "series \<Rightarrow> 'v metric_store \<Rightarrow> 'v metric_store \<Rightarrow> bool" where
  "same_values key r r1 \<longleftrightarrow> lookup (ms_counters r1) key = lookup (ms_counters r) key \<and> lookup (ms_gauges r1) key = lookup (ms_gauges r) key \<and>
     lookup (ms_hists r1) key = lookup (ms_hists r) key"

lemma drop_locked_same: "fst key \<noteq> telemetry_dropped \<Longrightarrow> same_values key r (drop_locked F reason r)"
  by (simp add: same_values_def drop_locked_frame)

lemma send_export_effect:
  assumes "fst key \<noteq> telemetry_dropped"
  shows "same_values key r (send_export F name k d r)"
    "ms_dropped (send_export F name k d r) = ms_dropped r + (if export_full name r then 1 else 0)"
  using assms drop_locked_same[OF assms]
  by (auto simp: send_export_def export_full_def try_send_def same_values_def drop_locked_frame Let_def split: option.splits)

lemma observe_refused:
  assumes "\<not> accepts name want ls r"
  shows "\<exists>reason. metric_observe F name want ls v s r = drop_locked F reason r"
proof (cases "lookup_metric name")
  case (Some d)
  obtain ok r1 where e: "ensure_series name (series_key d ls) want r = (ok, r1)" by fastforce
  show ?thesis using assms Some e ensure_series_frame[OF e]
    by (auto simp: accepts_def metric_observe_def drop_sample_def Let_def split: option.splits)
qed (auto simp: metric_observe_def drop_sample_def)

lemma observe_accepted:
  assumes "accepts name want ls r" "fst key \<noteq> telemetry_dropped"
  shows "\<exists>d r1. lookup_metric name = Some d \<and> md_kind d = want \<and> ms_counters r1 = ms_counters r \<and> ms_gauges r1 = ms_gauges r \<and>
    ms_hists r1 = ms_hists r \<and> same_values key (store_value F d (series_key d ls) v s r1) (metric_observe F name want ls v s r) \<and>
    ms_dropped (metric_observe F name want ls v s r) = ms_dropped r + (if export_full name r then 1 else 0)"
proof -
  obtain d where d: "lookup_metric name = Some d" "md_kind d = want" "check_labels_def d ls = None"
    using assms(1) by (auto simp: accepts_def split: option.splits)
  obtain ok r1 where e: "ensure_series name (series_key d ls) want r = (ok, r1)" by fastforce
  note f = ensure_series_frame[OF e]
  have ok: ok using assms(1) d f(7) by (simp add: accepts_def)
  let ?r2 = "store_value F d (series_key d ls) v s r1"
  have "ms_dropped ?r2 = ms_dropped r" using f(5) by (cases "md_kind d") (simp_all add: store_value_def add_counter_def)
  moreover have "export_full name ?r2 = export_full name r" by (simp add: export_full_def store_value_keys f(4))
  moreover have "metric_observe F name want ls v s r = send_export F name (series_key d ls) d ?r2"
    using d e ok by (simp add: metric_observe_def Let_def)
  ultimately show ?thesis using d f(1-3) send_export_effect[OF assms(2), where F = F and name = name and k = "series_key d ls" and d = d and r = ?r2] by auto
qed

lemma metric_get_same:
  assumes "\<And>d. lookup_metric name = Some d \<Longrightarrow> same_values (series_key d ls) r r1"
  shows "metric_get F name ls r1 = metric_get F name ls r"
  using assms by (auto simp: metric_get_def same_values_def split: option.splits metric_kind.splits)

text \<open>What an increment does.  It is ignored when it adds zero; it is refused, and counted as dropped,
  when the metric is not a counter of the catalog, a label is not the metric's, or the series would be the
  257th; else it adds to its own series, starting from zero, and is counted as dropped only by a full
  export queue, which does not undo it.  No other metric but the drop counter changes.\<close>

lemma increment_effect:
  assumes "name \<noteq> telemetry_dropped" "other \<noteq> name" "other \<noteq> telemetry_dropped"
  shows "metric_get F name ls (metric_inc F name ls n r) =
      (if \<not> fl_is_zero F n \<and> accepts name Counter ls r
       then Some (fl_add F (case metric_get F name ls r of None \<Rightarrow> fl_zero F | Some x \<Rightarrow> x) n) else metric_get F name ls r) \<and>
    metric_get F other ls2 (metric_inc F name ls n r) = metric_get F other ls2 r \<and>
    ms_dropped (metric_inc F name ls n r) = ms_dropped r +
      (if fl_is_zero F n then 0 else if \<not> accepts name Counter ls r \<or> export_full name r then 1 else 0)"
proof -
  have key: "fst (series_key d l) = m" if "lookup_metric m = Some d" for d l m
    using that by (simp add: series_key_def lookup_metric_in)
  consider "fl_is_zero F n" | "\<not> fl_is_zero F n" "\<not> accepts name Counter ls r" | "\<not> fl_is_zero F n" "accepts name Counter ls r" by blast
  then show ?thesis
  proof cases
    case 1
    then show ?thesis by (simp add: metric_inc_def)
  next
    case 2
    obtain reason where o: "metric_inc F name ls n r = drop_locked F reason r"
      using observe_refused[OF 2(2), of F n False] 2(1) by (auto simp: metric_inc_def)
    have "metric_get F m l (drop_locked F reason r) = metric_get F m l r" if "m \<noteq> telemetry_dropped" for m l
      using that by (intro metric_get_same drop_locked_same) (simp add: key)
    then show ?thesis using 2 assms by (simp add: o drop_locked_frame)
  next
    case 3
    let ?r = "metric_inc F name ls n r"
    have inc: "?r = metric_observe F name Counter ls n False r" using 3(1) by (simp add: metric_inc_def)
    have step: "\<exists>d r1. lookup_metric name = Some d \<and> md_kind d = Counter \<and> ms_counters r1 = ms_counters r \<and> ms_gauges r1 = ms_gauges r \<and>
        ms_hists r1 = ms_hists r \<and> same_values k (add_counter F (series_key d ls) n r1) ?r" if "fst k \<noteq> telemetry_dropped" for k
      using observe_accepted[OF 3(2) that, of F n False] unfolding inc by (auto simp: store_value_def)
    have get: "metric_get F name ls ?r = Some (fl_add F (case metric_get F name ls r of None \<Rightarrow> fl_zero F | Some x \<Rightarrow> x) n)"
    proof -
      obtain d where d: "lookup_metric name = Some d" "md_kind d = Counter" using 3(2) by (auto simp: accepts_def split: option.splits)
      show ?thesis using step[of "series_key d ls"] d key[OF d(1)] assms(1)
        by (auto simp: metric_get_def same_values_def add_counter_def)
    qed
    have "same_values k r ?r" if k: "fst k \<noteq> telemetry_dropped" "fst k \<noteq> name" for k
    proof -
      obtain d r1 where "lookup_metric name = Some d" "ms_counters r1 = ms_counters r" "ms_gauges r1 = ms_gauges r"
        "ms_hists r1 = ms_hists r" "same_values k (add_counter F (series_key d ls) n r1) ?r" using step[OF k(1)] by blast
      then show ?thesis using k(2) key[of name d ls] by (auto simp: same_values_def add_counter_def)
    qed
    then have "metric_get F other ls2 ?r = metric_get F other ls2 r" using assms by (intro metric_get_same) (simp add: key)
    moreover have "ms_dropped ?r = ms_dropped r + (if export_full name r then 1 else 0)"
      using observe_accepted[OF 3(2), of "(name, [])" F n False] assms(1) inc by auto
    ultimately show ?thesis using get 3 by simp
  qed
qed

text \<open>A counter of calls, once called.\<close>

definition demo_floats :: "nat floats" where
  "demo_floats = \<lparr> fl_zero = 0, fl_one = 1, fl_is_zero = (\<lambda>v. v = 0), fl_add = (+), fl_le = (\<le>), fl_milli = (\<lambda>n. n),
     fl_of_nat = (\<lambda>n. n), fl_format = nat_str \<rparr>"

lemma increment_effect_witness:
  "metric_get demo_floats ''labmail_mcp_calls_total'' [(''tool'', ''t'')]
      (metric_inc demo_floats ''labmail_mcp_calls_total'' [(''tool'', ''t'')] 2 new_metrics) = Some 2 \<and>
    metric_get demo_floats ''labmail_store_bytes'' [] (metric_inc demo_floats ''labmail_mcp_calls_total'' [(''tool'', ''t'')] 2 new_metrics) =
      metric_get demo_floats ''labmail_store_bytes'' [] new_metrics \<and>
    ms_dropped (metric_inc demo_floats ''labmail_mcp_calls_total'' [(''tool'', ''t'')] 2 new_metrics) = 0"
proof -
  obtain d where d: "lookup_metric ''labmail_mcp_calls_total'' = Some d" "md_kind d = Counter" "md_labels d = [''result'', ''tool'']"
    using calls_metric by blast
  have "\<not> forbidden_label ''tool''" using metric_labels(2)[OF d(1)] d(3) by simp
  then have "accepts ''labmail_mcp_calls_total'' Counter [(''tool'', ''t'')] (new_metrics :: nat metric_store)"
    using d by (simp add: accepts_def check_labels_def_def label_fault_None series_count_def new_metrics_def max_series_def)
  moreover have "\<not> export_full n (new_metrics :: nat metric_store)" for n by (simp add: export_full_def new_metrics_def)
  moreover have "metric_get demo_floats n l new_metrics = None" for n l
    by (simp add: metric_get_def new_metrics_def split: option.splits metric_kind.splits)
  moreover have "\<not> fl_is_zero demo_floats 2" "fl_add demo_floats 0 2 = 2" "fl_zero demo_floats = 0" "ms_dropped (new_metrics :: nat metric_store) = 0"
    by (simp_all add: demo_floats_def new_metrics_def)
  ultimately show ?thesis
    using increment_effect[of "''labmail_mcp_calls_total''" "''labmail_store_bytes''" demo_floats "[(''tool'', ''t'')]" 2 new_metrics "[]"]
    by (simp add: telemetry_dropped_def)
qed

section \<open>Histograms\<close>

lemma placed_index: "placed F v bs i = Some j \<longleftrightarrow> i \<le> j \<and> j - i < length bs \<and> fl_le F v (bs ! (j - i)) \<and> (\<forall>k < j - i. \<not> fl_le F v (bs ! k))"
proof (induction F v bs i rule: placed.induct)
  case (2 F v b bs i)
  show ?case
  proof (cases "fl_le F v b")
    case True
    then show ?thesis by (auto simp: nth_Cons split: nat.splits)
  next
    case False
    then show ?thesis using 2
      by (cases "j - i") (auto simp: less_Suc_eq_0_disj Suc_le_eq diff_Suc nth_Cons split: nat.splits)
  qed
qed simp

lemma hist_fold:
  assumes "h0 = \<lparr> hg_bounds = bs, hg_counts = replicate (length bs) 0, hg_inf = 0, hg_sum = z, hg_n = 0 \<rparr>"
  shows "fold (hist_add F) vs h0 = \<lparr> hg_bounds = bs,
    hg_counts = map (\<lambda>i. length (filter (\<lambda>v. placed F v bs 0 = Some i) vs)) [0..<length bs],
    hg_inf = length (filter (\<lambda>v. placed F v bs 0 = None) vs), hg_sum = foldl (fl_add F) z vs, hg_n = length vs \<rparr>"
proof (induction vs rule: rev_induct)
  case Nil
  then show ?case by (simp add: assms map_replicate_const)
next
  case (snoc v vs)
  have f: "fold (hist_add F) (vs @ [v]) h0 = hist_add F v (fold (hist_add F) vs h0)" by simp
  show ?case
  proof (cases "placed F v bs 0")
    case None
    then show ?thesis unfolding f snoc by (simp add: hist_add_def Let_def)
  next
    case (Some i)
    then have "i < length bs" by (simp add: placed_index)
    then have "(map f [0..<length bs])[i := f i + 1] = map (\<lambda>j. f j + (if j = i then 1 else 0)) [0..<length bs]" for f :: "nat \<Rightarrow> nat"
      by (auto intro!: nth_equalityI simp: nth_list_update)
    from this[of "\<lambda>i. length (filter (\<lambda>v. placed F v bs 0 = Some i) vs)"] show ?thesis
      using Some \<open>i < length bs\<close> unfolding f snoc by (simp add: hist_add_def Let_def cong: map_cong)
  qed
qed

lemma cumulate_sums:
  "length bs = length ns \<Longrightarrow> cumulate (zip bs ns) c =
    (map (\<lambda>i. \<lparr> bk_le = Some (bs ! i), bk_count = c + sum_list (take (Suc i) ns) \<rparr>) [0..<length bs], c + sum_list ns)"
proof (induction bs ns arbitrary: c rule: list_induct2)
  case (Cons b bs n ns)
  have "[0..<Suc (length bs)] = 0 # map Suc [0..<length bs]" by (simp add: map_Suc_upt upt_conv_Cons del: upt_Suc)
  then show ?case using Cons by (simp add: add.assoc)
qed simp

lemma placed_upto:
  "sum_list (map (\<lambda>i. length (filter (\<lambda>v. placed F v bs 0 = Some i) vs)) [0..<n]) =
    length (filter (\<lambda>v. \<exists>i < n. placed F v bs 0 = Some i) vs)"
proof (induction n)
  case (Suc n)
  have "length (filter (\<lambda>v. \<exists>i < n. placed F v bs 0 = Some i) vs) + length (filter (\<lambda>v. placed F v bs 0 = Some n) vs) =
      length (filter (\<lambda>v. \<exists>i < Suc n. placed F v bs 0 = Some i) vs)"
    by (induction vs) (auto simp: less_Suc_eq)
  then show ?case using Suc by simp
qed simp

lemma placed_some: "(\<exists>i < n. placed F v bs 0 = Some i) \<longleftrightarrow> list_ex (fl_le F v) (take n bs)"
proof -
  have ex: "\<exists>i < n. placed F v bs 0 = Some i" if "j < n" "j < length bs" "fl_le F v (bs ! j)" for j
  proof -
    define i where "i = (LEAST i. fl_le F v (bs ! i))"
    have "fl_le F v (bs ! i)" "i \<le> j" using that(3) unfolding i_def by (auto intro: LeastI Least_le)
    moreover have "\<not> fl_le F v (bs ! k)" if "k < i" for k using that unfolding i_def by (rule not_less_Least)
    ultimately show ?thesis using that by (intro exI[of _ i]) (simp add: placed_index)
  qed
  have "\<exists>i < n. placed F v bs 0 = Some i" if some: "list_ex (fl_le F v) (take n bs)"
  proof -
    obtain j where "j < length (take n bs)" "fl_le F v (take n bs ! j)" using some unfolding list_ex_length by blast
    then show ?thesis using ex[of j] by simp
  qed
  moreover have "list_ex (fl_le F v) (take n bs)" if "i < n" "placed F v bs 0 = Some i" for i
    using that by (auto simp: placed_index list_ex_length intro!: exI[of _ i])
  ultimately show ?thesis by blast
qed

text \<open>A histogram counts what it is said to count: after any observations, whatever they are, the bucket of a
  bound shows how many of them were at most that bound or a smaller one, the last bucket shows all of them, as
  the count does, and the sum is their sum in the order they came.\<close>

lemma histogram_counts:
  "hist_snapshot (fold (hist_add F) vs (new_hist F)) =
    (map (\<lambda>i. \<lparr> bk_le = Some (fl_milli F (default_buckets ! i)),
        bk_count = length (filter (\<lambda>v. list_ex (\<lambda>b. fl_le F v (fl_milli F b)) (take (Suc i) default_buckets)) vs) \<rparr>) [0..<12] @
      [\<lparr> bk_le = None, bk_count = length vs \<rparr>], foldl (fl_add F) (fl_zero F) vs, length vs)"
proof -
  let ?bs = "map (fl_milli F) default_buckets"
  let ?ns = "map (\<lambda>i. length (filter (\<lambda>v. placed F v ?bs 0 = Some i) vs)) [0..<12]"
  have len: "length default_buckets = 12" by (simp add: default_buckets_def)
  have h: "fold (hist_add F) vs (new_hist F) = \<lparr> hg_bounds = ?bs, hg_counts = ?ns,
      hg_inf = length (filter (\<lambda>v. placed F v ?bs 0 = None) vs), hg_sum = foldl (fl_add F) (fl_zero F) vs, hg_n = length vs \<rparr>"
    using hist_fold[of "new_hist F" ?bs "fl_zero F" F vs] by (simp add: new_hist_def len)
  have count: "sum_list (map (\<lambda>i. length (filter (\<lambda>v. placed F v ?bs 0 = Some i) vs)) [0..<n]) =
      length (filter (\<lambda>v. list_ex (\<lambda>b. fl_le F v (fl_milli F b)) (take n default_buckets)) vs)" for n
    by (simp add: placed_upto placed_some take_map list_ex_iff)
  have all: "sum_list ?ns + length (filter (\<lambda>v. placed F v ?bs 0 = None) vs) = length vs"
  proof -
    have "(\<exists>i < 12. placed F v ?bs 0 = Some i) \<longleftrightarrow> placed F v ?bs 0 \<noteq> None" for v
      using placed_index[of F v ?bs 0] len by auto
    then show ?thesis unfolding placed_upto by (simp add: sum_length_filter_compl[of "\<lambda>v. placed F v ?bs 0 \<noteq> None", simplified])
  qed
  have upto: "sum_list (take (Suc i) ?ns) =
      length (filter (\<lambda>v. list_ex (\<lambda>b. fl_le F v (fl_milli F b)) (take (Suc i) default_buckets)) vs)" if "i < 12" for i
  proof -
    have "take (Suc i) [0..<12] = [0..<Suc i]" using that take_upt[of 0 "Suc i" 12] by simp
    then show ?thesis using count[of "Suc i"] by (simp only: take_map)
  qed
  have cum: "cumulate (zip ?bs ?ns) 0 = (map (\<lambda>i. \<lparr> bk_le = Some (?bs ! i), bk_count = 0 + sum_list (take (Suc i) ?ns) \<rparr>) [0..<length ?bs],
      0 + sum_list ?ns)" using len by (intro cumulate_sums) simp
  have buckets: "map (\<lambda>i. \<lparr> bk_le = Some (?bs ! i), bk_count = 0 + sum_list (take (Suc i) ?ns) \<rparr>) [0..<length ?bs] =
      map (\<lambda>i. \<lparr> bk_le = Some (fl_milli F (default_buckets ! i)),
        bk_count = length (filter (\<lambda>v. list_ex (\<lambda>b. fl_le F v (fl_milli F b)) (take (Suc i) default_buckets)) vs) \<rparr>) [0..<12]"
    unfolding length_map len by (rule map_cong[OF refl]) (simp add: upto len del: take_Suc)
  show ?thesis unfolding h hist_snapshot_def histogram.select_convs cum buckets using all by (simp add: Let_def)
qed

section \<open>The text of a scrape\<close>

fun read_quoted :: "bytes \<Rightarrow> (bytes \<times> bytes) option" where
  "read_quoted [] = None"
| "read_quoted (c # r) =
     (if c = quote then Some ([], r)
      else if c = LF then None
      else if c = backslash then
        (case r of [] \<Rightarrow> None
         | d # r1 \<Rightarrow> map_option (\<lambda>(v, rest). ((if d = CHR ''n'' then LF else d) # v, rest)) (read_quoted r1))
      else map_option (\<lambda>(v, rest). (c # v, rest)) (read_quoted r))"

text \<open>A reader of \<^verbatim>\<open>name="value"\<close> pairs, up to the closing brace.\<close>

fun read_pairs :: "nat \<Rightarrow> bytes \<Rightarrow> (labels \<times> bytes) option" where
  "read_pairs 0 s = None"
| "read_pairs (Suc n) s = (case cut (CHR ''='') s of
       (k, q # r, True) \<Rightarrow>
         if q \<noteq> quote then None
         else (case read_quoted r of
             Some (v, c # r1) \<Rightarrow>
               if c = CHR ''}'' then Some ([(k, v)], r1)
               else if c = CHR '','' then map_option (\<lambda>(ls, rest). ((k, v) # ls, rest)) (read_pairs n r1)
               else None
           | _ \<Rightarrow> None)
     | _ \<Rightarrow> None)"

definition read_labels :: "bytes \<Rightarrow> (labels \<times> bytes) option" where
  "read_labels s = (case s of c # r \<Rightarrow> if c = CHR ''{'' then read_pairs (length r) r else Some ([], s) | [] \<Rightarrow> Some ([], []))"

lemma escape_prom_cons:
  "escape_prom [] = []"
  "escape_prom (c # s) = (if c = LF then [backslash, CHR ''n''] else if c = quote \<or> c = backslash then [backslash, c] else [c]) @ escape_prom s"
  by (simp_all add: escape_prom_def replace_char_def)

lemma read_escaped: "read_quoted (escape_prom v @ quote # rest) = Some (v, rest)" "LF \<notin> set (escape_prom v)"
  by (induction v) (simp_all add: escape_prom_cons)

lemma read_pairs_written:
  "\<lbrakk>ks \<noteq> []; \<forall>k \<in> set ks. CHR ''='' \<notin> set k; length ks \<le> n\<rbrakk> \<Longrightarrow>
    read_pairs n (join '','' (map (\<lambda>k. k @ CHR ''='' # quote # escape_prom (f k) @ [quote]) ks) @ CHR ''}'' # rest) =
      Some (map (\<lambda>k. (k, f k)) ks, rest)"
proof (induction ks arbitrary: n)
  case (Cons k ks)
  obtain m where n: "n = Suc m" using Cons.prems(3) by (cases n) auto
  show ?case
  proof (cases ks)
    case Nil
    then show ?thesis using Cons.prems n by (simp add: cut_append read_escaped)
  next
    case (Cons k2 ks2)
    then show ?thesis using Cons.IH[of m] Cons.prems n by (simp add: cut_append read_escaped)
  qed
qed simp

lemma join_length: "length ks \<le> length (join '','' (map (\<lambda>k. k @ CHR ''='' # quote # escape_prom (f k) @ [quote]) ks))"
  by (induction ks rule: induct_list012) auto

lemma join_no_LF: "\<forall>w \<in> set ws. LF \<notin> set w \<Longrightarrow> LF \<notin> set (join '','' ws)"
  by (induction "'',''" ws rule: join.induct) auto

lemma scrape_block_reads_back:
  "read_labels (prom_labels (scrape_labels name enc) @ SP # rest) =
     Some (map (\<lambda>k. (k, label_of (scrape_labels name enc) k)) (sort (keys (scrape_labels name enc))), SP # rest) \<and>
   LF \<notin> set (prom_labels (scrape_labels name enc))"
proof -
  let ?ls = "scrape_labels name enc" let ?ks = "sort (keys ?ls)"
  have ok: "\<forall>k \<in> set ?ks. CHR ''='' \<notin> set k \<and> LF \<notin> set k"
    using scrape_labels_shown[of name enc] metric_labels(2)[of name] by (auto simp: labels_shown_def list_all_iff split: option.splits)
  show ?thesis
  proof (cases "?ls = []")
    case True
    then show ?thesis by (simp add: prom_labels_def read_labels_def)
  next
    case False
    then have "?ks \<noteq> []" by (metis length_sort length_0_conv length_map)
    let ?body = "join '','' (map (\<lambda>k. k @ CHR ''='' # quote # escape_prom (label_of ?ls k) @ [quote]) ?ks)"
    have w: "prom_labels ?ls = CHR ''{'' # ?body @ ''}''" using False by (simp add: prom_labels_def)
    have "read_pairs (length (?body @ ''}'' @ SP # rest)) (?body @ CHR ''}'' # SP # rest) =
        Some (map (\<lambda>k. (k, label_of ?ls k)) ?ks, SP # rest)"
      using ok join_length[of ?ks "label_of ?ls"] \<open>?ks \<noteq> []\<close> by (intro read_pairs_written) auto
    moreover have "LF \<notin> set ?body" using ok read_escaped(2) by (intro join_no_LF) auto
    ultimately show ?thesis by (simp add: w read_labels_def)
  qed
qed

lemma scrape_label_names:
  assumes "lookup_metric name = Some d"
  shows "set (keys (scrape_labels name enc)) \<subseteq> set (md_labels d)"
  using scrape_labels_shown[of name enc] assms by (auto simp: labels_shown_def list_all_iff)

text \<open>C38. From an observation to the text of a scrape: the label block that is written for a series recorded under
  some labels reads back as exactly the labels of its metric, by name, with the values that were
  given - and the empty string for one left out - for values of any bytes but the one that separates the
  pairs in a stored key: quotes, backslashes, line feeds, commas and equal signs come back as they were.
  With values of any bytes whatever, the block is still one line that reads back up to its end and
  names no label but the metric's.\<close>

theorem scrape_reads_back:
  assumes "lookup_metric name = Some d"
  shows "\<exists>vs. read_labels (prom_labels (scrape_labels name (snd (series_key d ls))) @ SP # rest) = Some (vs, SP # rest)
    \<and> LF \<notin> set (prom_labels (scrape_labels name (snd (series_key d ls)))) \<and> set (map fst vs) \<subseteq> set (md_labels d)
    \<and> ((\<forall>k \<in> set (md_labels d). pair_sep \<notin> set (label_of ls k)) \<longrightarrow> vs = map (\<lambda>k. (k, label_of ls k)) (sort (md_labels d)))"
proof -
  let ?sl = "scrape_labels name (snd (series_key d ls))"
  let ?vs = "map (\<lambda>k. (k, label_of ?sl k)) (sort (keys ?sl))"
  have "?vs = map (\<lambda>k. (k, label_of ls k)) (sort (md_labels d))" if sep: "\<forall>k \<in> set (md_labels d). pair_sep \<notin> set (label_of ls k)"
  proof -
    have sl: "?sl = map (\<lambda>k. (k, label_of ls k)) (md_labels d)" by (rule labels_roundtrip[OF assms sep])
    then have "label_of ?sl k = label_of ls k" if "k \<in> set (md_labels d)" for k
      using that by (simp add: label_of_def map_of_map_restrict)
    moreover have "keys ?sl = md_labels d" by (simp add: sl o_def)
    ultimately show ?thesis by (simp cong: map_cong)
  qed
  moreover have "set (map fst ?vs) \<subseteq> set (md_labels d)" using scrape_label_names[OF assms] by simp
  ultimately show ?thesis using scrape_block_reads_back[of name "snd (series_key d ls)" rest] by blast
qed

text \<open>A tool name with a quote, a backslash and a line feed in it.\<close>

lemma scrape_reads_back_witness:
  "\<exists>d. lookup_metric ''labmail_mcp_calls_total'' = Some d \<and>
    read_labels (prom_labels (scrape_labels ''labmail_mcp_calls_total''
      (snd (series_key d [(''tool'', ''a'' @ [quote, backslash, LF]), (''result'', ''ok'')]))) @ SP # ''1'') =
    Some ([(''result'', ''ok''), (''tool'', ''a'' @ [quote, backslash, LF])], SP # ''1'')"
proof -
  let ?ls = "[(''tool'', ''a'' @ [quote, backslash, LF]), (''result'', ''ok'')]"
  obtain d where d: "lookup_metric ''labmail_mcp_calls_total'' = Some d" "md_labels d = [''result'', ''tool'']"
    using calls_metric by blast
  have v: "label_of ?ls ''result'' = ''ok''" "label_of ?ls ''tool'' = ''a'' @ [quote, backslash, LF]" by (simp_all add: label_of_def)
  have "sort [''result'', ''tool''] = [''result'', ''tool'']" by code_simp
  then show ?thesis using scrape_reads_back[OF d(1), of ?ls "''1''"] d v by auto
qed

end
