(* ===== verification/Event_Log.thy ===== *)
theory Event_Log
  imports Metrics_Props
begin

text \<open>
  \<^verbatim>\<open>observability/logger.go\<close>: structured log events, written at once or through a bounded queue that drops
  when it is full.  A line that reaches the sink is the list of its attributes in order; the sink itself and
  the JSON it writes are slog's.  Time 0 is Go's zero time, for which slog leaves the attribute out.
\<close>

section \<open>The logger\<close>

record 'v log_record =
  lr_timestamp :: int
  lr_level :: bytes
  lr_event :: bytes
  lr_component :: bytes
  lr_request_id :: bytes
  lr_message_id :: bytes
  lr_smtp_code :: int
  lr_capability :: bytes
  lr_result :: bytes
  lr_error_code :: bytes
  lr_duration_ms :: 'v
  lr_generation :: nat
  lr_remote :: bytes

datatype 'v log_value = LogStr bytes | LogInt int | LogFloat 'v | LogTime int

type_synonym 'v log_line = "(bytes \<times> 'v log_value) list"

record 'v logger =
  lg_handler :: bool
  lg_min :: int
  lg_queue :: "'v log_record queue option"
  lg_metrics :: "'v metric_store option"
  lg_dropped :: nat
  lg_sync :: bool
  lg_out :: "'v log_line list"

definition parse_level :: "bytes \<Rightarrow> bytes" where
  "parse_level s = (let l = to_lower (trim_space s) in
     if l = ''debug'' then ''debug'' else if l \<in> {''warn'', ''warning''} then ''warn'' else if l = ''error'' then ''error'' else ''info'')"

definition slog_level :: "bytes \<Rightarrow> int" where
  "slog_level l = (if l = ''debug'' then -4 else if l = ''warn'' then 4 else if l = ''error'' then 8 else 0)"

definition level_text :: "int \<Rightarrow> bytes" where
  "level_text n = (if n = -4 then ''debug'' else if n = 4 then ''warn'' else if n = 8 then ''error'' else ''info'')"

definition new_logger :: "bool \<Rightarrow> bytes \<Rightarrow> 'v logger" where
  "new_logger sink lvl = \<lparr> lg_handler = sink, lg_min = slog_level (if lvl = [] then ''info'' else lvl), lg_queue = None, lg_metrics = None,
     lg_dropped = 0, lg_sync = True, lg_out = [] \<rparr>"

definition with_sync :: "'v logger \<Rightarrow> 'v logger" where
  "with_sync l = l \<lparr> lg_sync := True \<rparr>"

definition with_queue :: "int \<Rightarrow> 'v logger \<Rightarrow> 'v logger" where
  "with_queue n l = l \<lparr> lg_sync := False, lg_queue := (case lg_queue l of None \<Rightarrow> Some (new_queue n) | Some q \<Rightarrow> Some q) \<rparr>"

definition with_metrics :: "'v metric_store option \<Rightarrow> 'v logger \<Rightarrow> 'v logger" where
  "with_metrics m l = l \<lparr> lg_metrics := m \<rparr>"

definition log_debug :: "'v logger \<Rightarrow> bool" where
  "log_debug l = (lg_min l \<le> -4)"

definition redact_remote :: "'v logger \<Rightarrow> 'v log_record \<Rightarrow> 'v log_record" where
  "redact_remote l rec = (if log_debug l then rec else rec \<lparr> lr_remote := [] \<rparr>)"

definition str_attr :: "bytes \<Rightarrow> bytes \<Rightarrow> 'v log_line" where
  "str_attr k v = (if v = [] then [] else [(k, LogStr v)])"

definition log_attrs :: "'v floats \<Rightarrow> 'v log_record \<Rightarrow> 'v log_line" where
  "log_attrs F rec =
     str_attr ''component'' (lr_component rec) @ str_attr ''request_id'' (lr_request_id rec) @ str_attr ''message_id'' (lr_message_id rec) @
     (if lr_smtp_code rec = 0 then [] else [(''smtp_code'', LogInt (lr_smtp_code rec))]) @
     str_attr ''capability'' (lr_capability rec) @ str_attr ''result'' (lr_result rec) @ str_attr ''error_code'' (lr_error_code rec) @
     (if fl_is_zero F (lr_duration_ms rec) then [] else [(''duration_ms'', LogFloat (lr_duration_ms rec))]) @
     (if lr_generation rec = 0 then [] else [(''store_generation'', LogInt (int (lr_generation rec)))]) @
     str_attr ''remote'' (lr_remote rec)"

text \<open>slog's own attributes come first, renamed: the time, the level in lower case, the message as the event.\<close>

definition log_line_of :: "'v floats \<Rightarrow> 'v log_record \<Rightarrow> 'v log_line" where
  "log_line_of F rec = (if lr_timestamp rec = 0 then [] else [(''timestamp'', LogTime (lr_timestamp rec))]) @
     [(''level'', LogStr (level_text (slog_level (lr_level rec)))), (''event'', LogStr (lr_event rec))] @ log_attrs F rec"

definition write_log :: "'v floats \<Rightarrow> 'v log_record \<Rightarrow> 'v logger \<Rightarrow> 'v logger" where
  "write_log F rec l = (if lg_handler l \<and> lg_min l \<le> slog_level (lr_level rec)
     then l \<lparr> lg_out := lg_out l @ [log_line_of F rec] \<rparr> else l)"

definition log_prepare :: "int \<Rightarrow> 'v logger \<Rightarrow> 'v log_record \<Rightarrow> 'v log_record" where
  "log_prepare clock l rec = (let rec1 = (if lr_timestamp rec = 0 then rec \<lparr> lr_timestamp := clock \<rparr> else rec);
       rec2 = (if lr_level rec1 = [] then rec1 \<lparr> lr_level := ''info'' \<rparr> else rec1)
     in redact_remote l rec2)"

definition log_overflow :: "'v floats \<Rightarrow> 'v logger \<Rightarrow> 'v logger" where
  "log_overflow F l = l \<lparr> lg_dropped := lg_dropped l + 1,
     lg_metrics := map_option (metric_inc F telemetry_dropped [(''reason'', ''log'')] (fl_one F)) (lg_metrics l) \<rparr>"

definition log_event :: "'v floats \<Rightarrow> int \<Rightarrow> 'v log_record \<Rightarrow> 'v logger \<Rightarrow> 'v logger" where
  "log_event F clock rec0 l = (let rec = log_prepare clock l rec0 in
     if lg_sync l then write_log F rec l
     else case lg_queue l of
         None \<Rightarrow> write_log F rec l
       | Some q \<Rightarrow> (let (ok, q1) = try_send rec q; l1 = l \<lparr> lg_queue := Some q1 \<rparr> in if ok then l1 else log_overflow F l1))"

text \<open>\<open>serve_one\<close> is one turn of the loop that writes queued records; draining writes all there are.\<close>

definition serve_one :: "'v floats \<Rightarrow> 'v logger \<Rightarrow> 'v logger" where
  "serve_one F l = (case lg_queue l of
       None \<Rightarrow> l
     | Some q \<Rightarrow> (case queue_recv q of (None, q1) \<Rightarrow> l | (Some rec, q1) \<Rightarrow> write_log F rec (l \<lparr> lg_queue := Some q1 \<rparr>)))"

definition queue_items :: "'v logger \<Rightarrow> 'v log_record list" where
  "queue_items l = (case lg_queue l of None \<Rightarrow> [] | Some q \<Rightarrow> qu_items q)"

definition drain_log :: "'v floats \<Rightarrow> 'v logger \<Rightarrow> 'v logger" where
  "drain_log F l = (serve_one F ^^ length (queue_items l)) l"

section \<open>Nothing is lost unseen, and no address is logged\<close>

datatype 'v log_call = LogCall int "'v log_record" | ServeTurn | DrainCall

definition log_step :: "'v floats \<Rightarrow> 'v log_call \<Rightarrow> 'v logger \<Rightarrow> 'v logger" where
  "log_step F c l = (case c of LogCall clock rec \<Rightarrow> log_event F clock rec l | ServeTurn \<Rightarrow> serve_one F l | DrainCall \<Rightarrow> drain_log F l)"

definition log_calls :: "'v log_call list \<Rightarrow> nat" where
  "log_calls cs = length (filter (\<lambda>c. case c of LogCall t rec \<Rightarrow> True | _ \<Rightarrow> False) cs)"

text \<open>The events that should reach the sink: those of at least the logger's level.\<close>

definition wanted :: "bool \<Rightarrow> int \<Rightarrow> bytes \<Rightarrow> bool" where
  "wanted sink lvl l = (sink \<and> lvl \<le> slog_level (if l = [] then ''info'' else l))"

definition wanted_calls :: "bool \<Rightarrow> int \<Rightarrow> 'v log_call list \<Rightarrow> nat" where
  "wanted_calls sink lvl cs = length (filter (\<lambda>c. case c of LogCall t rec \<Rightarrow> wanted sink lvl (lr_level rec) | _ \<Rightarrow> False) cs)"

definition line_private :: "'v log_line \<Rightarrow> bool" where
  "line_private line = list_all (\<lambda>k. k \<in> set event_fields) (keys line)"

definition wanted_queued :: "'v logger \<Rightarrow> nat" where
  "wanted_queued l = length (filter (\<lambda>rec. wanted (lg_handler l) (lg_min l) (lr_level rec)) (queue_items l))"

definition log_inv :: "'v logger \<Rightarrow> nat \<Rightarrow> nat \<Rightarrow> bool" where
  "log_inv l m n \<longleftrightarrow> \<not> log_debug l \<and> list_all line_private (lg_out l) \<and> list_all (\<lambda>rec. lr_remote rec = [] \<and> lr_level rec \<noteq> []) (queue_items l) \<and>
     m \<le> length (lg_out l) + wanted_queued l + lg_dropped l \<and>
     length (lg_out l) + length (queue_items l) + lg_dropped l \<le> n \<and>
     (case lg_queue l of None \<Rightarrow> True | Some q \<Rightarrow> length (qu_items q) \<le> qu_cap q \<and> qu_dropped q = lg_dropped l)"

lemma line_of_private: "lr_remote rec = [] \<Longrightarrow> line_private (log_line_of F rec)"
  by (simp add: line_private_def log_line_of_def log_attrs_def str_attr_def event_fields_def)

lemma write_log_fields [simp]:
  "lg_queue (write_log F rec l) = lg_queue l" "lg_dropped (write_log F rec l) = lg_dropped l" "lg_handler (write_log F rec l) = lg_handler l"
  "lg_min (write_log F rec l) = lg_min l"
  by (simp_all add: write_log_def)

lemma write_log_out:
  "lr_level rec \<noteq> [] \<Longrightarrow> lg_out (write_log F rec l) = (if wanted (lg_handler l) (lg_min l) (lr_level rec) then lg_out l @ [log_line_of F rec] else lg_out l)"
  by (simp add: write_log_def wanted_def)

lemma write_log_inv:
  assumes "log_inv l m n" "lr_remote rec = []" "lr_level rec \<noteq> []"
  shows "log_inv (write_log F rec l) (m + (if wanted (lg_handler l) (lg_min l) (lr_level rec) then 1 else 0)) (Suc n)"
  using assms line_of_private[OF assms(2), of F]
  by (auto simp: log_inv_def write_log_out log_debug_def queue_items_def wanted_queued_def split: option.splits)

lemma log_event_inv:
  assumes "log_inv l m n"
  shows "log_inv (log_event F clock rec l) (m + (if wanted (lg_handler l) (lg_min l) (lr_level rec) then 1 else 0)) (Suc n)"
proof -
  define r where "r = log_prepare clock l rec"
  have r: "lr_remote r = []" "lr_level r \<noteq> []" "wanted h k (lr_level r) = wanted h k (lr_level rec)" for h k
    using assms by (auto simp: r_def log_prepare_def log_inv_def redact_remote_def wanted_def Let_def)
  show ?thesis using write_log_inv[OF assms r(1,2), of F] r assms unfolding log_event_def Let_def r_def[symmetric]
    by (auto simp: log_inv_def try_send_def log_overflow_def queue_items_def log_debug_def wanted_queued_def split: option.splits)
qed

lemma serve_one_inv: "log_inv l m n \<Longrightarrow> log_inv (serve_one F l) m n"
proof -
  assume inv: "log_inv l m n"
  show ?thesis
  proof (cases "queue_items l")
    case Nil
    then show ?thesis using inv by (auto simp: serve_one_def queue_items_def queue_recv_def split: option.splits)
  next
    case (Cons rec rest)
    then obtain q where q: "lg_queue l = Some q" "qu_items q = rec # rest" by (auto simp: queue_items_def split: option.splits)
    let ?l = "l \<lparr> lg_queue := Some (q \<lparr> qu_items := rest \<rparr>) \<rparr>"
    let ?w = "if wanted (lg_handler l) (lg_min l) (lr_level rec) then 1 else 0 :: nat"
    have rec: "lr_remote rec = []" "lr_level rec \<noteq> []" using inv q by (auto simp: log_inv_def queue_items_def)
    have "log_inv ?l (m - ?w) (n - 1)"
      using inv q by (auto simp: log_inv_def queue_items_def log_debug_def wanted_queued_def)
    from write_log_inv[OF this rec, of F] have "log_inv (write_log F rec ?l) (m - ?w + ?w) (Suc (n - 1))" by simp
    moreover have "Suc (n - 1) = n" using inv q by (auto simp: log_inv_def queue_items_def)
    ultimately have "log_inv (write_log F rec ?l) m n" by (auto simp: log_inv_def)
    then show ?thesis by (simp add: serve_one_def q queue_recv_def)
  qed
qed

lemma drain_inv: "log_inv l m n \<Longrightarrow> log_inv (drain_log F l) m n"
proof -
  have "log_inv l m n \<Longrightarrow> log_inv ((serve_one F ^^ k) l) m n" for k by (induction k) (simp_all add: serve_one_inv)
  then show "log_inv l m n \<Longrightarrow> log_inv (drain_log F l) m n" by (simp add: drain_log_def)
qed

lemma serve_one_config [simp]: "lg_handler (serve_one F l) = lg_handler l" "lg_min (serve_one F l) = lg_min l"
  by (simp_all add: serve_one_def split: option.splits prod.splits)

lemma log_step_config: "lg_handler (log_step F c l) = lg_handler l \<and> lg_min (log_step F c l) = lg_min l"
proof -
  have "lg_handler ((serve_one F ^^ k) l) = lg_handler l \<and> lg_min ((serve_one F ^^ k) l) = lg_min l" for k by (induction k) simp_all
  then show ?thesis
    by (cases c) (simp_all add: log_step_def drain_log_def log_event_def log_overflow_def Let_def split: option.splits prod.splits)
qed

lemma calls_cons:
  "wanted_calls h k (c # cs) = wanted_calls h k [c] + wanted_calls h k cs" "log_calls (c # cs) = log_calls [c] + log_calls cs"
  by (simp_all add: wanted_calls_def log_calls_def)

lemma log_run_inv:
  "log_inv l m n \<Longrightarrow> log_inv (fold (log_step F) cs l) (m + wanted_calls (lg_handler l) (lg_min l) cs) (n + log_calls cs)"
proof (induction cs arbitrary: l m n)
  case (Cons c cs)
  have "log_inv (log_step F c l) (m + wanted_calls (lg_handler l) (lg_min l) [c]) (n + log_calls [c])"
  proof (cases c)
    case (LogCall t rec)
    then show ?thesis using log_event_inv[OF Cons.prems, of F t rec]
      by (simp add: log_step_def log_calls_def wanted_calls_def split: if_splits)
  next
    case ServeTurn
    then show ?thesis using serve_one_inv[OF Cons.prems] by (simp add: log_step_def log_calls_def wanted_calls_def)
  next
    case DrainCall
    then show ?thesis using drain_inv[OF Cons.prems] by (simp add: log_step_def log_calls_def wanted_calls_def)
  qed
  from Cons.IH[OF this] log_step_config[of F c l] show ?case
    by (simp only: calls_cons(1)[of _ _ c cs] calls_cons(2)[of c cs] fold_simps add.assoc)
qed (simp add: log_calls_def wanted_calls_def)

lemma drained: "queue_items (drain_log F l) = []"
proof -
  have "queue_items (serve_one F m) = tl (queue_items m)" for m
    by (auto simp: serve_one_def queue_items_def queue_recv_def split: option.splits list.splits)
  then have "queue_items ((serve_one F ^^ k) l) = drop k (queue_items l)" for k
    by (induction k) (simp_all add: tl_drop drop_Suc)
  then show ?thesis by (simp add: drain_log_def)
qed

text \<open>C39.  A logger above the debug level never writes where a client connects from, and loses nothing unseen.
  After any calls - events logged with any fields, turns of the writer, drains - of a logger made with a
  level of the configuration, switched to a queue or not: every line written has only the fields of the
  frozen catalog, which has no address; the queue is within its capacity, and a drain leaves nothing in it;
  and the lines, the queued records and the counted drops are together no more than the events logged, and
  no fewer than those of them that the level lets through.\<close>

theorem log_private:
  assumes "lvl \<noteq> ''debug''" "l = (if queued then with_queue cap (new_logger sink lvl) else new_logger sink lvl)"
  shows "let l1 = fold (log_step F) cs l; n = length (lg_out l1) + length (queue_items l1) + lg_dropped l1 in
    list_all line_private (lg_out l1) \<and> wanted_calls sink (slog_level lvl) cs \<le> n \<and> n \<le> log_calls cs \<and>
    (case lg_queue l1 of None \<Rightarrow> True | Some q \<Rightarrow> length (qu_items q) \<le> qu_cap q) \<and> queue_items (drain_log F l1) = []"
proof -
  define l1 where "l1 = fold (log_step F) cs l"
  have cfg: "lg_handler l = sink" "lg_min l = slog_level lvl"
    using assms(2) by (auto simp: new_logger_def with_queue_def slog_level_def)
  have "log_inv l 0 0" using assms
    by (auto simp: log_inv_def new_logger_def with_queue_def new_queue_def log_debug_def slog_level_def queue_items_def wanted_queued_def)
  then have inv: "log_inv l1 (wanted_calls sink (slog_level lvl) cs) (log_calls cs)"
    using log_run_inv[of l 0 0 F cs] cfg by (simp add: l1_def)
  have "wanted_queued l1 \<le> length (queue_items l1)" by (simp add: wanted_queued_def)
  then show ?thesis using inv unfolding Let_def l1_def[symmetric] log_inv_def by (auto simp: drained split: option.splits)
qed

text \<open>Two events and a drain.\<close>

definition demo_record :: "nat log_record" where
  "demo_record = \<lparr> lr_timestamp = 0, lr_level = [], lr_event = ''smtp.accepted'', lr_component = ''smtp'', lr_request_id = [], lr_message_id = [],
     lr_smtp_code = 250, lr_capability = [], lr_result = [], lr_error_code = [], lr_duration_ms = 0, lr_generation = 0, lr_remote = ''10.0.0.9'' \<rparr>"

lemma log_private_witness:
  "let l1 = fold (log_step demo_floats) [LogCall 5 demo_record] (with_queue 1 (new_logger True ''info''));
       n = length (lg_out l1) + length (queue_items l1) + lg_dropped l1 in
    list_all line_private (lg_out l1) \<and> wanted_calls True (slog_level ''info'') [LogCall 5 demo_record] \<le> n \<and> n \<le> log_calls [LogCall 5 demo_record] \<and>
    (case lg_queue l1 of None \<Rightarrow> True | Some q \<Rightarrow> length (qu_items q) \<le> qu_cap q) \<and> queue_items (drain_log demo_floats l1) = []"
  using log_private[of "''info''" _ True 1 True demo_floats "[LogCall 5 demo_record]", OF _ refl] by simp

end
