(* ===== verification/Spec2Isabelle.thy ===== *)
theory Spec2Isabelle
  imports Prelude Domain_Err Codec Mail_Model Gate Spill Inbox Inbox_Inv Inbox_Steps Listing Inbox_Props Sinks
    Smtp_Args Smtp_Session Smtp_Run Smtp_Server Smtp_Props Config_Values Config_Tree Config_Wire Config_Decode Config_Validate
    Audit_Log App_State App_Core App_Props App_Service App_Messages
    Net_Addr Auth_Verifier Auth_Sessions Auth_Props Api_Catalog Rest_Routes Rest_Cursor Rest_Server Rest_Handlers
    Rest_Props Text_Runes Html_Preview Mime_Message Compat_Api Compat_Props Mcp_Server Mcp_Tools Mcp_Props
    Rate_Limit Web_Ui Metrics Metrics_Props Event_Log
begin

text \<open>
  LabMail is a test mail server.  An SMTP listener puts the messages it accepts into a bounded in-memory inbox
  or drops them; a REST API, an agent interface (MCP) and the API of an older program read and delete
  them; and a control plane plans, applies and resets changes of the configuration all of these run under.
  This development models the Go code under \<^verbatim>\<open>src/internal\<close> and proves what makes each part correct.
  The models are shallow: a Go function is a HOL function of the same name where that is possible.

  THE PARTS AND HOW THEY MEET.  A connection passes the admission gate, then runs the session loop: lines are read,
  split into verb and argument, dispatched; DATA reads a dot-stuffed body, parses it and inserts it into the sink
  the server was built with.  The sink is the inbox or one that stores nothing.  The inbox announces its changes to
  subscribers, among them the event stream of REST.  The control-plane service holds the active and the
  bootstrap snapshot of the configuration; applying a change compiles a candidate, replaces the caps of the
  inbox, installs the snapshot, records an audit event, and runs the hooks by which the servers load the new
  verifier.  REST, MCP and the older API share that verifier, the capability registry and the error values.

  WHICH THEORY MODELS WHAT
  - \<open>Prelude\<close>: Go strings, the functions of strings and strconv the source calls, 64-bit
    wrap-around, association lists.  \<open>Text_Runes\<close>: the walk over a string by runes.
  - \<open>Domain_Err\<close>: \<^verbatim>\<open>domainerr\<close>, and the table of \<^verbatim>\<open>capabilities/errors.go\<close> from error codes to HTTP and
    JSON-RPC.  Errors are values of a sum type; every error return of the source is a branch.
  - \<open>Mail_Model\<close>: the records of \<^verbatim>\<open>model\<close>.
  - \<open>Codec\<close>: \<^verbatim>\<open>smtp/codec\<close>, and the reply reader of \<^verbatim>\<open>smtptest/client.go\<close>.  A reader is the bytes still
    to come and the error it ends with.
  - \<open>Gate\<close>: \<^verbatim>\<open>smtp/server/admit.go\<close>.  \<open>Smtp_Args\<close>: \<^verbatim>\<open>parse.go\<close>, the decoding of credentials, and the spec
    defaults.  \<open>Smtp_Session\<close>: \<^verbatim>\<open>session.go\<close>, \<^verbatim>\<open>behavior.go\<close>, \<^verbatim>\<open>auth.go\<close> and \<^verbatim>\<open>starttls.go\<close>, one definition per
    command over an explicit connection.  \<open>Smtp_Run\<close>: the command loop and the life of a connection.
    \<open>Smtp_Server\<close>: the listener of \<^verbatim>\<open>server.go\<close>, as a step relation over the accept loop, the
    goroutines that serve connections and the calls.  \<open>Smtp_Props\<close>: their properties.
  - \<open>Spill\<close>: the temporary and spill files of \<^verbatim>\<open>store/memory.go\<close> over an explicit disk.  \<open>Inbox\<close>: the operations
    of the store and \<^verbatim>\<open>events.go\<close>.  \<open>Listing\<close>: lists, cursors, filters and the wait.  \<open>Inbox_Inv\<close>, \<open>Inbox_Steps\<close>,
    \<open>Inbox_Props\<close>: the invariant, the transition system of interleaved operations, the properties.
    \<open>Sinks\<close>: \<^verbatim>\<open>store/sink.go\<close> as the locale sink, interpreted on the inbox and on \<^verbatim>\<open>store/null.go\<close>.
  - \<open>Config_Values\<close>: \<^verbatim>\<open>bytesize.go\<close> and \<^verbatim>\<open>duration.go\<close>.  \<open>Config_Tree\<close>: the document tree, its conversions and \<^verbatim>\<open>reserved.go\<close>.
    \<open>Config_Wire\<close>: \<^verbatim>\<open>wire.go\<close>.  \<open>Config_Decode\<close>: \<^verbatim>\<open>decode.go\<close>, \<^verbatim>\<open>defaults.go\<close>, \<^verbatim>\<open>export.go\<close>.
    \<open>Config_Validate\<close>: \<^verbatim>\<open>validate.go\<close>, \<^verbatim>\<open>normalize.go\<close>, \<^verbatim>\<open>load.go\<close>.
  - \<open>Audit_Log\<close>: \<^verbatim>\<open>audit\<close>.  \<open>App_State\<close>: \<^verbatim>\<open>snapshot\<close>, \<^verbatim>\<open>compiler\<close> and the operations, the diff and the policy of \<^verbatim>\<open>app\<close>.
    \<open>App_Core\<close>: plan, apply and reset of \<^verbatim>\<open>app/mutate.go\<close> and \<^verbatim>\<open>reset.go\<close>, and the ledger of \<^verbatim>\<open>idempotency.go\<close>.
    \<open>App_Messages\<close>: the reads and deletions of messages, extraction, health.  \<open>App_Props\<close> has the locale
    capped_store, the contract of a store whose caps can be replaced, interpreted on the inbox; \<open>App_Service\<close>
    the properties of the service.
  - \<open>Net_Addr\<close>, \<open>Auth_Verifier\<close>, \<open>Auth_Sessions\<close>: \<^verbatim>\<open>auth\<close>.  \<open>Auth_Props\<close>: their properties.
  - \<open>Api_Catalog\<close>: the registry of \<^verbatim>\<open>capabilities\<close>.  \<open>Rest_Routes\<close>, \<open>Rest_Cursor\<close>, \<open>Rest_Server\<close>, \<open>Rest_Handlers\<close>:
    \<^verbatim>\<open>control/rest\<close>.  \<open>Rate_Limit\<close>: the token bucket of \<^verbatim>\<open>control/rest/auth.go\<close> and \<^verbatim>\<open>control/mcp/auth.go\<close>.
    \<open>Rest_Props\<close>: their properties.  \<open>Web_Ui\<close>: \<^verbatim>\<open>web\<close>.
  - \<open>Html_Preview\<close>: \<^verbatim>\<open>preview\<close>.  \<open>Mime_Message\<close>: \<^verbatim>\<open>mimeparse\<close>.  \<open>Compat_Api\<close>, \<open>Compat_Props\<close>: \<^verbatim>\<open>control/compat\<close>.
  - \<open>Mcp_Server\<close>, \<open>Mcp_Tools\<close>, \<open>Mcp_Props\<close>: \<^verbatim>\<open>control/mcp\<close>.
  - \<open>Metrics\<close>, \<open>Metrics_Props\<close>, \<open>Event_Log\<close>: \<^verbatim>\<open>observability\<close>.

  WHAT THE LEMMAS SHOW.  The SMTP properties follow a connection: the session's invariant at every command (C4),
  where an accepted message comes from (C1), what its body is (C5, C6, C13), who is authenticated (C7), what
  STARTTLS changes (C8), what is recorded (C9), that the gate is balanced (C10); the listener's shutdown_complete
  says what a successful shutdown leaves.  C2, C3, C11 and C12 are the inbox's promises, over any
  interleaving of critical sections and any failures of the file system; C18 joins both ends.  C17 and C20
  to C22 are about configuration documents, C14 to C16 and C19 about the service and its audit.  C23 to C31
  are about authority: who a request can be, what may change the service through each of the three
  APIs, and when a session, a stream and a stdio server lose it.  The rest are about what is shown:
  routing, lists, parsing, previews, the user interface, telemetry and the table of tools.

  HOW GO IS READ
  - A string or a byte slice is a list of characters; case folding and trimming are those of ASCII, as where the
    code trims by bytes; where it walks runes the model does.  Nil and empty slices are identified.
  - Times are integers of nanoseconds.  Values of configuration documents and the byte budget of the gate wrap at 64
    bits; sizes and counters of the store, which stay far below, do not.  Generations and epochs are naturals.
  - A mutex makes a critical section one step.  The service's mutex makes each of its calls one step, in
    which others may use the inbox, which has a lock of its own.  One REST or MCP request is
    handled at a time; others show as slots taken.  Between the blocking reads of an SMTP session the
    rest of the server may do anything to the shared state; the configuration is read again then.
  - The iteration over a map is in the order of its association list; nothing proved depends on it.
    Ties of \<^verbatim>\<open>sort.Slice\<close> keep their order.
  - The rate limiter computes in rationals, where the code has float64; its answer is part of a request's
    surroundings in the servers.  Metric values are of any type with its operations as arguments.
  - The writes of a connection succeed or fail as the connection says; the JSON text of answers is left as a tree.

  ARGUMENTS.  Code outside the repository is an argument of the definitions that use it: the TLS handshake and the
  client's later stream, the MIME library, the JSON, YAML and URL parsers and the typed unmarshal, SHA-256 and
  HMAC, random values, ULID identifiers and the clock, the file system and the answers of the operating
  system, the expressions extraction compiles, RFC 3339 times, the MCP library with the middleware that pins its
  protocol version, the embedded user interface and its media types.  A panic of the MIME library
  may come from opening a message and from its next part; panics of its header methods are not modelled.

  BOUNDS AND FUEL.  Evicting recurses on the length of the order, which each round shortens (evict_loop_exit).
  Formatting a duration, which does not return on the smallest int64, is a partial function into options (C21).
  Following cursors recurses on the number of messages, since a page is never empty; the older API's
  own bound on pages is the code's, and C32 shows it enough for an inbox of that size.  The session loop
  ends because each line consumes input and the input is replaced only by the one handshake.

  NOT MODELLED.  \<^verbatim>\<open>cmd/labmail\<close>, which reads flags and signals and wires the parts; opening sockets and TLS; the transcript
  runner of \<^verbatim>\<open>smtptest\<close>; the OpenAPI document, the schemas and the manifest of tools, which are documents; counters
  and log calls inside operations, since the sinks of telemetry are modelled on their own; the scripts.
\<close>

end
